(* ===== verification/Prelude.thy ===== *)
theory Prelude
  imports "HOL-Library.Word" "HOL-Library.Sublist"
begin

text \<open>
  Vocabulary shared by the whole development: the wrap-around of the C++ type
  \<open>jint\<close>, the error convention of the virtual machine (a function that may
  throw returns a sum, \<open>jvm_check\<close> is the \<open>JVM_CHECK\<close> macro that returns to the
  caller when an exception is pending), the basic types of a Java value, and
  the generic lemmas and fact collections the component theories use.
\<close>

named_theorems jint_simps \<open>wrap-around of 32-bit signed integers\<close>
named_theorems frame_simps \<open>projections of the verifier frame through its operations\<close>
named_theorems inv_intros \<open>preservation of a component's invariant\<close>


section \<open>Signed 32-bit integers\<close>

text \<open>The value an integer expression has once it is stored in a \<open>jint\<close>
  (two's complement, as the targets of this virtual machine compute it).\<close>

definition jint :: "int \<Rightarrow> int" where
  "jint x = signed_take_bit 31 x"

abbreviation jint_min :: int where "jint_min \<equiv> - 2147483648"
abbreviation jint_max :: int where "jint_max \<equiv> 2147483647"

lemma jint_eq: "jint x = (x + 2147483648) mod 4294967296 - 2147483648"
  by (simp add: jint_def signed_take_bit_eq_take_bit_shift take_bit_eq_mod)

lemma jint_range: "jint_min \<le> jint x" "jint x \<le> jint_max"
proof -
  have "0 \<le> (x + 2147483648) mod 4294967296"
    by (rule pos_mod_sign) simp
  moreover have "(x + 2147483648) mod 4294967296 < 4294967296"
    by (rule pos_mod_bound) simp
  ultimately show "jint_min \<le> jint x" "jint x \<le> jint_max"
    unfolding jint_eq by linarith+
qed

lemma jint_id [jint_simps]: "jint_min \<le> x \<Longrightarrow> x \<le> jint_max \<Longrightarrow> jint x = x"
  unfolding jint_eq by (subst mod_pos_pos_trivial) simp_all

lemma jint_jint [simp]: "jint (jint x) = jint x"
  by (simp add: jint_id jint_range)

lemma jint_overflow_high:
  assumes "jint_max < x" "x \<le> jint_max + 2147483648"
  shows "jint x < 0"
proof -
  have "(x + 2147483648) mod 4294967296 = (x - 2147483648) mod 4294967296"
    using mod_add_self2 [of "x - 2147483648" 4294967296] by (simp add: algebra_simps)
  also have "\<dots> = x - 2147483648"
    using assms by (intro mod_pos_pos_trivial) simp_all
  finally show ?thesis using assms unfolding jint_eq by linarith
qed


section \<open>Errors\<close>

text \<open>The error tags (\<open>ErrorMsgTag\<close>) of the exceptions the modelled code throws, the
  exceptions of the other components it calls (\<open>pending_exception\<close>), and the
  ways the code can leave its own contract: \<open>should_not_reach_here\<close>,
  the macro of that name, \<open>unbounded_read\<close>, a reader that runs past its object, and
  \<open>null_dereference\<close>, the use of a null handle.\<close>

datatype error_tag =
    illegal_code | illegal_wide_code | out_of_memory_error | invalid_signature
  | invalid_constant | truncated_class_file | bad_stackmap_size | bad_stackmap_type
  | bad_constantpool_index | corrupted_exception_handler
  | ve_stack_overflow | ve_stack_underflow | ve_stack_bad_type
  | ve_locals_overflow | ve_locals_bad_type | ve_args_not_enough
  | ve_seq_bad_type | ve_target_bad_type | ve_bad_instr | ve_bad_stackmap
  | ve_fall_through | ve_final_method_override | ve_cp_index_out_of_bounds
  | ve_expect_class | ve_expect_throwable | ve_expect_array | ve_aastore_bad_type
  | ve_return_uninit_this | ve_retval_bad_type | ve_bad_lookupswitch
  | ve_expect_fieldref | ve_expect_methodref | ve_expect_invokespecial
  | ve_expect_new | ve_bad_init_call | ve_expect_uninit | ve_invokespecial
  | ve_nargs_mismatch | ve_expect_zero | ve_multianewarray
  | pending_exception | should_not_reach_here | unbounded_read | null_dereference

text \<open>\<open>JVM_CHECK\<close>: go on with the value, or leave with the pending exception.\<close>

definition jvm_check :: "'e + 'a \<Rightarrow> ('a \<Rightarrow> 'e + 'b) \<Rightarrow> 'e + 'b" where
  "jvm_check r k = (case r of Inl e \<Rightarrow> Inl e | Inr x \<Rightarrow> k x)"

lemma jvm_check_simps [simp]:
  "jvm_check (Inl e) k = Inl e"
  "jvm_check (Inr x) k = k x"
  by (simp_all add: jvm_check_def)

lemma jvm_check_Inr_iff:
  "jvm_check r k = Inr y \<longleftrightarrow> (\<exists>x. r = Inr x \<and> k x = Inr y)"
  by (cases r) simp_all

lemma jvm_check_Inl_iff:
  "jvm_check r k = Inl e \<longleftrightarrow> r = Inl e \<or> (\<exists>x. r = Inr x \<and> k x = Inl e)"
  by (cases r) simp_all

lemma jvm_check_InrE [elim]:
  assumes "jvm_check r k = Inr y"
  obtains x where "r = Inr x" "k x = Inr y"
  using assms by (auto simp: jvm_check_Inr_iff)

lemma jvm_check_assoc:
  "jvm_check (jvm_check r k) l = jvm_check r (\<lambda>x. jvm_check (k x) l)"
  by (cases r) simp_all

text \<open>Leave with an exception unless a condition holds.\<close>

definition jvm_guard :: "'e \<Rightarrow> bool \<Rightarrow> 'a \<Rightarrow> 'e + 'a" where
  "jvm_guard e c x = (if c then Inr x else Inl e)"

lemma jvm_guard_Inr [simp]: "jvm_guard e c x = Inr y \<longleftrightarrow> c \<and> x = y"
  by (simp add: jvm_guard_def)

lemma jvm_guard_Inl [simp]: "jvm_guard e c x = Inl e' \<longleftrightarrow> \<not> c \<and> e' = e"
  by (auto simp: jvm_guard_def)

text \<open>A loop whose body may throw.\<close>

fun jvm_fold :: "('i \<Rightarrow> 's \<Rightarrow> 'e + 's) \<Rightarrow> 'i list \<Rightarrow> 's \<Rightarrow> 'e + 's" where
  "jvm_fold body [] s = Inr s"
| "jvm_fold body (i # is) s = jvm_check (body i s) (jvm_fold body is)"

lemma jvm_fold_append:
  "jvm_fold body (xs @ ys) s = jvm_check (jvm_fold body xs s) (jvm_fold body ys)"
proof (induction xs arbitrary: s)
  case (Cons x xs)
  then show ?case by (cases "body x s") simp_all
qed simp

lemma jvm_fold_inv:
  assumes "jvm_fold body xs s = Inr s'" "P s"
    "\<And>i s s'. i \<in> set xs \<Longrightarrow> body i s = Inr s' \<Longrightarrow> P s \<Longrightarrow> P s'"
  shows "P s'"
  using assms
proof (induction xs arbitrary: s)
  case (Cons x xs)
  then obtain t where "body x s = Inr t" "jvm_fold body xs t = Inr s'" by auto
  with Cons.IH [of t] Cons.prems show ?case by (metis list.set_intros)
qed simp

text \<open>A boolean function called without a check for its exception: it has returned false.\<close>

definition no_check :: "'e + bool \<Rightarrow> bool" where
  "no_check r = (case r of Inl _ \<Rightarrow> False | Inr b \<Rightarrow> b)"

lemma no_check_iff [simp]: "no_check r \<longleftrightarrow> r = Inr True"
  by (cases r) (auto simp: no_check_def)

end
