(* ===== verification/Basic_Types.thy ===== *)
theory Basic_Types
  imports Prelude
begin

text \<open>
  The basic types of the virtual machine with their sizes, and the alignment
  helper of the bytecode readers: \<open>GlobalDefinitions.hpp\<close>,
  \<open>GlobalDefinitions.cpp\<close>.
\<close>

datatype basic_type =
    T_BOOLEAN | T_CHAR | T_FLOAT | T_DOUBLE | T_BYTE | T_SHORT | T_INT | T_LONG
  | T_OBJECT | T_ARRAY | T_VOID | T_SYMBOLIC | T_ILLEGAL

text \<open>The numbers of the C++ enumeration.\<close>

fun basic_type_value :: "basic_type \<Rightarrow> nat" where
  "basic_type_value T_BOOLEAN = 4"
| "basic_type_value T_CHAR = 5"
| "basic_type_value T_FLOAT = 6"
| "basic_type_value T_DOUBLE = 7"
| "basic_type_value T_BYTE = 8"
| "basic_type_value T_SHORT = 9"
| "basic_type_value T_INT = 10"
| "basic_type_value T_LONG = 11"
| "basic_type_value T_OBJECT = 12"
| "basic_type_value T_ARRAY = 13"
| "basic_type_value T_VOID = 14"
| "basic_type_value T_SYMBOLIC = 15"
| "basic_type_value T_ILLEGAL = 32"

text \<open>\<open>is_two_word\<close> looks at the two low bits of the number.\<close>

definition is_two_word :: "basic_type \<Rightarrow> bool" where
  "is_two_word type = (and (basic_type_value type) 3 = 3)"

fun word_size_for :: "basic_type \<Rightarrow> nat" where
  "word_size_for T_DOUBLE = 2"
| "word_size_for T_LONG = 2"
| "word_size_for T_VOID = 0"
| "word_size_for T_BOOLEAN = 1"
| "word_size_for T_CHAR = 1"
| "word_size_for T_FLOAT = 1"
| "word_size_for T_BYTE = 1"
| "word_size_for T_SHORT = 1"
| "word_size_for T_INT = 1"
| "word_size_for T_OBJECT = 1"
| "word_size_for T_ARRAY = 1"
| "word_size_for T_SYMBOLIC = 1"
| "word_size_for T_ILLEGAL = 0"

fun byte_size_for :: "basic_type \<Rightarrow> int" where
  "byte_size_for T_BOOLEAN = 1"
| "byte_size_for T_CHAR = 2"
| "byte_size_for T_FLOAT = 4"
| "byte_size_for T_DOUBLE = 8"
| "byte_size_for T_BYTE = 1"
| "byte_size_for T_SHORT = 2"
| "byte_size_for T_INT = 4"
| "byte_size_for T_LONG = 8"
| "byte_size_for T_OBJECT = 4"
| "byte_size_for T_ARRAY = 4"
| "byte_size_for T_VOID = 0"
| "byte_size_for T_SYMBOLIC = 4"
| "byte_size_for T_ILLEGAL = 0"

text \<open>The characters that stand for a primitive type in a descriptor; the
  table of the source holds a number from 1 to 8 for each of them.\<close>

definition simple_type_symbol_table :: "nat list" where
  "simple_type_symbol_table =
     [5, 2, 4, 0, 3, 0, 0, 7, 8, 0, 0, 0, 0, 0, 0, 0, 0, 6, 0, 0, 0, 0, 0, 0, 1]"

definition is_simple_type_symbol :: "int \<Rightarrow> bool" where
  "is_simple_type_symbol c =
     (let d = c - 66 in
      if 0 \<le> d \<and> d \<le> 90 - 66 then simple_type_symbol_table ! nat d \<noteq> 0 else False)"

text \<open>\<open>(size + (alignment - 1)) & ~(alignment - 1)\<close> at the word size of the
  virtual machine, four bytes.\<close>

definition wordSize :: int where "wordSize = 4"

definition align_size_up :: "int \<Rightarrow> int \<Rightarrow> int" where
  "align_size_up sz alignment = and (sz + (alignment - 1)) (not (alignment - 1))"

lemma align_size_up_4: "align_size_up x 4 = (x + 3) div 4 * 4"
proof -
  have mask: "not (3::int) = - 4" by (simp add: not_int_def)
  have "and y (- 4) = y div 4 * 4" for y :: int
  proof -
    have "and y (push_bit 2 (- 1)) = push_bit 2 (drop_bit 2 y)"
      by (rule bit_eqI) (auto simp: bit_simps simp del: add_2_eq_Suc add_2_eq_Suc')
    then show ?thesis by (simp add: push_bit_eq_mult drop_bit_eq_div)
  qed
  then show ?thesis by (simp add: align_size_up_def mask)
qed

lemma align_size_up_bounds:
  "x \<le> align_size_up x 4" "align_size_up x 4 < x + 4" "align_size_up x 4 mod 4 = 0"
  unfolding align_size_up_4 by presburger+

lemma is_two_word_iff: "is_two_word t \<longleftrightarrow> word_size_for t = 2 \<or> t = T_SYMBOLIC"
  by (cases t) (simp_all add: is_two_word_def)

end
