(* ===== verification/Code_Memory.thy ===== *)
theory Code_Memory
  imports Basic_Types
begin

unbundle bit_operations_syntax

text \<open>
  The bytes of a method's code and the multi-byte readers and writers of
  \<open>Bytes_c.hpp\<close> (the C interpreter's port: a little-endian machine) and of
  \<open>Method.hpp\<close>.  The code is a memory from byte addresses, relative to the first
  bytecode, to bytes; what lies behind the last bytecode is memory of the heap
  like any other, so a reader that runs past the end reads a byte too.
\<close>

type_synonym code_mem = "int \<Rightarrow> 8 word"

text \<open>A method's code with the given bytes, followed by zeros.\<close>

definition code_of_bytes :: "8 word list \<Rightarrow> code_mem" where
  "code_of_bytes bs i = (if 0 \<le> i \<and> i < int (length bs) then bs ! nat i else 0)"


section \<open>Byte order\<close>

definition get_Java_u2 :: "code_mem \<Rightarrow> int \<Rightarrow> 16 word" where
  "get_Java_u2 m p = (push_bit 8 (ucast (m p))) OR (ucast (m (p + 1)))"

definition get_Java_u4 :: "code_mem \<Rightarrow> int \<Rightarrow> 32 word" where
  "get_Java_u4 m p =
     push_bit 24 (ucast (m p)) OR push_bit 16 (ucast (m (p + 1)))
     OR push_bit 8 (ucast (m (p + 2))) OR ucast (m (p + 3))"

definition get_Java_u8 :: "code_mem \<Rightarrow> int \<Rightarrow> 64 word" where
  "get_Java_u8 m p = push_bit 32 (ucast (get_Java_u4 m p)) OR ucast (get_Java_u4 m (p + 4))"

definition get_native_u2 :: "code_mem \<Rightarrow> int \<Rightarrow> 16 word" where
  "get_native_u2 m p = ucast (m p) OR push_bit 8 (ucast (m (p + 1)))"

definition get_native_u4 :: "code_mem \<Rightarrow> int \<Rightarrow> 32 word" where
  "get_native_u4 m p =
     ucast (m p) OR push_bit 8 (ucast (m (p + 1)))
     OR push_bit 16 (ucast (m (p + 2))) OR push_bit 24 (ucast (m (p + 3)))"

definition put_Java_u2 :: "code_mem \<Rightarrow> int \<Rightarrow> 16 word \<Rightarrow> code_mem" where
  "put_Java_u2 m p x = m(p := ucast (drop_bit 8 x), p + 1 := ucast x)"

definition put_Java_u4 :: "code_mem \<Rightarrow> int \<Rightarrow> 32 word \<Rightarrow> code_mem" where
  "put_Java_u4 m p x =
     m(p := ucast (drop_bit 24 x), p + 1 := ucast (drop_bit 16 x),
       p + 2 := ucast (drop_bit 8 x), p + 3 := ucast x)"

definition put_Java_u8 :: "code_mem \<Rightarrow> int \<Rightarrow> 64 word \<Rightarrow> code_mem" where
  "put_Java_u8 m p x =
     put_Java_u4 (put_Java_u4 m p (ucast (drop_bit 32 x))) (p + 4) (ucast (x AND 0xFFFFFFFF))"

definition put_native_u2 :: "code_mem \<Rightarrow> int \<Rightarrow> 16 word \<Rightarrow> code_mem" where
  "put_native_u2 m p x = m(p := ucast x, p + 1 := ucast (drop_bit 8 x))"

definition put_native_u4 :: "code_mem \<Rightarrow> int \<Rightarrow> 32 word \<Rightarrow> code_mem" where
  "put_native_u4 m p x =
     m(p := ucast x, p + 1 := ucast (drop_bit 8 x),
       p + 2 := ucast (drop_bit 16 x), p + 3 := ucast (drop_bit 24 x))"

definition swap_u2 :: "16 word \<Rightarrow> 16 word" where
  "swap_u2 x = push_bit 8 (x AND 0x00ff) OR drop_bit 8 (x AND 0xff00)"

definition swap_u4 :: "32 word \<Rightarrow> 32 word" where
  "swap_u4 x =
     (let l = (ucast (swap_u2 (ucast (x AND 0x0000ffff))) :: 32 word);
          h = (ucast (swap_u2 (ucast (drop_bit 16 x AND 0x0000ffff))) :: 32 word)
      in push_bit 16 l OR h)"


section \<open>Accessors of a method's code\<close>

definition get_ubyte :: "code_mem \<Rightarrow> int \<Rightarrow> int" where
  "get_ubyte m bci = uint (m bci)"

definition get_byte :: "code_mem \<Rightarrow> int \<Rightarrow> int" where
  "get_byte m bci = sint (m bci)"

definition get_java_ushort :: "code_mem \<Rightarrow> int \<Rightarrow> int" where
  "get_java_ushort m bci = uint (get_Java_u2 m bci)"

definition get_java_short :: "code_mem \<Rightarrow> int \<Rightarrow> int" where
  "get_java_short m bci = sint (get_Java_u2 m bci)"

definition get_java_int :: "code_mem \<Rightarrow> int \<Rightarrow> int" where
  "get_java_int m bci = sint (get_Java_u4 m bci)"

text \<open>\<open>int_field\<close>: a word read from memory, in the machine's byte order.\<close>

definition get_native_aligned_int :: "code_mem \<Rightarrow> int \<Rightarrow> 32 word" where
  "get_native_aligned_int m bci = get_native_u4 m bci"

definition put_native_aligned_int :: "code_mem \<Rightarrow> int \<Rightarrow> 32 word \<Rightarrow> code_mem" where
  "put_native_aligned_int m bci value = put_native_u4 m bci value"

text \<open>With \<open>ENABLE_NATIVE_ORDER_REWRITING\<close> the words of a switch have been swapped
  when the class was loaded.\<close>

definition get_java_switch_int :: "code_mem \<Rightarrow> int \<Rightarrow> int" where
  "get_java_switch_int m bci = sint (get_native_aligned_int m bci)"

definition get_native_ushort :: "code_mem \<Rightarrow> int \<Rightarrow> int" where
  "get_native_ushort m bci = uint (get_native_u2 m bci)"

definition bytecode_at :: "code_mem \<Rightarrow> int \<Rightarrow> nat" where
  "bytecode_at m bci = unat (m bci)"

definition branch_destination :: "code_mem \<Rightarrow> int \<Rightarrow> int" where
  "branch_destination m bci = bci + get_java_short m (bci + 1)"


section \<open>Byte order lemmas\<close>

lemma byte_masks:
  "(0x00ff :: 16 word) = mask 8" "(0xff00 :: 16 word) = push_bit 8 (mask 8)"
  "(0x0000ffff :: 32 word) = mask 16" "(0xFFFFFFFF :: 64 word) = mask 32"
  by (simp_all add: mask_eq_exp_minus_1 push_bit_eq_mult)

lemma bit_swap_u2:
  "bit (swap_u2 x) n \<longleftrightarrow> (if n < 8 then bit x (n + 8) else n < 16 \<and> bit x (n - 8))"
  unfolding swap_u2_def byte_masks by (auto simp: bit_simps add.commute)

lemma swap_u2_swap_u2 [simp]: "swap_u2 (swap_u2 x) = x"
  by (rule bit_word_eqI) (auto simp: bit_swap_u2)

lemma bit_get_Java_u2:
  "bit (get_Java_u2 m p) n \<longleftrightarrow>
     (if n < 8 then bit (m (p + 1)) n else n < 16 \<and> bit (m p) (n - 8))"
  unfolding get_Java_u2_def
  by (auto simp: bit_simps dest: bit_imp_le_length)

lemma bit_get_native_u2:
  "bit (get_native_u2 m p) n \<longleftrightarrow>
     (if n < 8 then bit (m p) n else n < 16 \<and> bit (m (p + 1)) (n - 8))"
  unfolding get_native_u2_def
  by (auto simp: bit_simps dest: bit_imp_le_length)

lemma get_Java_u2_swap: "get_Java_u2 m p = swap_u2 (get_native_u2 m p)"
  by (rule bit_word_eqI) (auto simp: bit_get_Java_u2 bit_get_native_u2 bit_swap_u2)

lemma bit_get_Java_u4:
  "bit (get_Java_u4 m p) n \<longleftrightarrow>
     (if n < 8 then bit (m (p + 3)) n
      else if n < 16 then bit (m (p + 2)) (n - 8)
      else if n < 24 then bit (m (p + 1)) (n - 16)
      else n < 32 \<and> bit (m p) (n - 24))"
  unfolding get_Java_u4_def
  by (auto simp: bit_simps dest: bit_imp_le_length)

lemma bit_get_native_u4:
  "bit (get_native_u4 m p) n \<longleftrightarrow>
     (if n < 8 then bit (m p) n
      else if n < 16 then bit (m (p + 1)) (n - 8)
      else if n < 24 then bit (m (p + 2)) (n - 16)
      else n < 32 \<and> bit (m (p + 3)) (n - 24))"
  unfolding get_native_u4_def
  by (auto simp: bit_simps dest: bit_imp_le_length)

lemma bit_swap_u4:
  "bit (swap_u4 x) n \<longleftrightarrow>
     (if n < 8 then bit x (n + 24) else if n < 16 then bit x (n + 8)
      else if n < 24 then bit x (n - 8) else n < 32 \<and> bit x (n - 24))"
  unfolding swap_u4_def byte_masks Let_def
  by (auto simp: bit_simps bit_swap_u2 add.commute)

lemma swap_u4_swap_u4 [simp]: "swap_u4 (swap_u4 x) = x"
  by (rule bit_word_eqI) (auto simp: bit_swap_u4)

lemma get_Java_u4_swap: "get_Java_u4 m p = swap_u4 (get_native_u4 m p)"
  by (rule bit_word_eqI) (auto simp: bit_get_Java_u4 bit_get_native_u4 bit_swap_u4)

lemma get_put_native_u4 [simp]: "get_native_u4 (put_native_u4 m p x) p = x"
  by (rule bit_word_eqI)
    (auto simp: bit_get_native_u4 put_native_u4_def bit_simps not_less add.commute)

lemma put_native_u4_other:
  "q < p \<or> p + 4 \<le> q \<Longrightarrow> put_native_u4 m p x q = m q"
  by (auto simp: put_native_u4_def)

lemma get_put_native_u4_other:
  "q + 4 \<le> p \<or> p + 4 \<le> q \<Longrightarrow> get_native_u4 (put_native_u4 m p x) q = get_native_u4 m q"
  by (auto simp: get_native_u4_def put_native_u4_other)

lemma get_put_Java_u2 [simp]: "get_Java_u2 (put_Java_u2 m p x) p = x"
  by (rule bit_word_eqI)
    (auto simp: bit_get_Java_u2 put_Java_u2_def bit_simps not_less add.commute)

lemma get_put_Java_u4 [simp]: "get_Java_u4 (put_Java_u4 m p x) p = x"
  by (rule bit_word_eqI)
    (auto simp: bit_get_Java_u4 put_Java_u4_def bit_simps not_less add.commute)

lemma get_put_native_u2 [simp]: "get_native_u2 (put_native_u2 m p x) p = x"
  by (rule bit_word_eqI)
    (auto simp: bit_get_native_u2 put_native_u2_def bit_simps not_less add.commute)

lemma get_put_Java_u4_other:
  "q + 4 \<le> p \<or> p + 4 \<le> q \<Longrightarrow> get_Java_u4 (put_Java_u4 m p x) q = get_Java_u4 m q"
  by (auto simp: get_Java_u4_def put_Java_u4_def)

lemma get_put_Java_u8 [simp]: "get_Java_u8 (put_Java_u8 m p x) p = x"
proof -
  have "get_Java_u4 (put_Java_u8 m p x) p = ucast (drop_bit 32 x)"
    by (simp add: put_Java_u8_def get_put_Java_u4_other)
  moreover have "get_Java_u4 (put_Java_u8 m p x) (p + 4) = ucast (x AND 0xFFFFFFFF)"
    by (simp add: put_Java_u8_def)
  ultimately show ?thesis
    unfolding get_Java_u8_def byte_masks
    by (intro bit_word_eqI) (auto simp: bit_simps not_less add.commute)
qed

text \<open>Ranges of the accessors.\<close>

lemma get_ubyte_range: "0 \<le> get_ubyte m i" "get_ubyte m i \<le> 255"
  using uint_bounded [of "m i"] by (simp_all add: get_ubyte_def)

lemma get_java_ushort_range: "0 \<le> get_java_ushort m i" "get_java_ushort m i \<le> 65535"
  using uint_bounded [of "get_Java_u2 m i"] by (simp_all add: get_java_ushort_def)

lemma get_java_short_range: "- 32768 \<le> get_java_short m i" "get_java_short m i \<le> 32767"
  using sint_ge [of "get_Java_u2 m i"] sint_lt [of "get_Java_u2 m i"] by (simp_all add: get_java_short_def)

lemma get_java_switch_int_range:
  "jint_min \<le> get_java_switch_int m i" "get_java_switch_int m i \<le> jint_max"
  using sint_ge [of "get_native_aligned_int m i"] sint_lt [of "get_native_aligned_int m i"]
  by (simp_all add: get_java_switch_int_def)

lemma bytecode_at_range: "bytecode_at m i < 256"
  unfolding bytecode_at_def using unsigned_less [of "m i"] by simp

section \<open>Stored words as an interface\<close>

text \<open>A reader and a writer of a word that occupies \<open>width\<close> bytes from an address on: the
  reader gives what was written, the writer changes no other byte, and the reader looks at
  no other byte.\<close>

locale stored_word =
  fixes get :: "code_mem \<Rightarrow> int \<Rightarrow> 'a::len word"
    and put :: "code_mem \<Rightarrow> int \<Rightarrow> 'a word \<Rightarrow> code_mem"
    and width :: int
  assumes get_put: "get (put m p x) p = x"
    and put_other: "q < p \<or> p + width \<le> q \<Longrightarrow> put m p x q = m q"
    and get_cong: "(\<And>q. p \<le> q \<Longrightarrow> q < p + width \<Longrightarrow> m q = m' q) \<Longrightarrow> get m p = get m' p"
begin

lemma get_put_other:
  "p + width \<le> q \<or> q + width \<le> p \<Longrightarrow> get (put m p x) q = get m q"
  by (rule get_cong) (auto intro: put_other)

lemma two_words:
  assumes "p + width \<le> q \<or> q + width \<le> p"
  shows "get (put (put m p x) q y) p = x \<and> get (put (put m p x) q y) q = y"
  using get_put_other [of q p "put m p x" y] assms by (auto simp: get_put)

lemma swap_words:
  assumes "p + width \<le> q \<or> q + width \<le> p"
  shows "get (put (put m p (get m q)) q (get m p)) p = get m q \<and>
         get (put (put m p (get m q)) q (get m p)) q = get m p"
  using assms by (rule two_words)

end

interpretation java_u2: stored_word get_Java_u2 put_Java_u2 2
proof
  show "q < p \<or> p + 2 \<le> q \<Longrightarrow> put_Java_u2 m p x q = m q" for m p q x
    by (auto simp: put_Java_u2_def)
  show "(\<And>q. p \<le> q \<Longrightarrow> q < p + 2 \<Longrightarrow> m q = m' q) \<Longrightarrow> get_Java_u2 m p = get_Java_u2 m' p" for m m' p
    by (simp add: get_Java_u2_def)
qed simp

interpretation java_u4: stored_word get_Java_u4 put_Java_u4 4
proof
  show "q < p \<or> p + 4 \<le> q \<Longrightarrow> put_Java_u4 m p x q = m q" for m p q x
    by (auto simp: put_Java_u4_def)
  show "(\<And>q. p \<le> q \<Longrightarrow> q < p + 4 \<Longrightarrow> m q = m' q) \<Longrightarrow> get_Java_u4 m p = get_Java_u4 m' p" for m m' p
    by (simp add: get_Java_u4_def)
qed simp

interpretation java_u8: stored_word get_Java_u8 put_Java_u8 8
proof
  show "q < p \<or> p + 8 \<le> q \<Longrightarrow> put_Java_u8 m p x q = m q" for m p q x
    by (auto simp: put_Java_u8_def put_Java_u4_def)
  show "(\<And>q. p \<le> q \<Longrightarrow> q < p + 8 \<Longrightarrow> m q = m' q) \<Longrightarrow> get_Java_u8 m p = get_Java_u8 m' p" for m m' p
    by (simp add: get_Java_u8_def get_Java_u4_def)
qed simp

interpretation native_u2: stored_word get_native_u2 put_native_u2 2
proof
  show "q < p \<or> p + 2 \<le> q \<Longrightarrow> put_native_u2 m p x q = m q" for m p q x
    by (auto simp: put_native_u2_def)
  show "(\<And>q. p \<le> q \<Longrightarrow> q < p + 2 \<Longrightarrow> m q = m' q) \<Longrightarrow> get_native_u2 m p = get_native_u2 m' p" for m m' p
    by (simp add: get_native_u2_def)
qed simp

interpretation native_u4: stored_word get_native_u4 put_native_u4 4
proof
  show "q < p \<or> p + 4 \<le> q \<Longrightarrow> put_native_u4 m p x q = m q" for m p q x
    by (auto simp: put_native_u4_def)
  show "(\<And>q. p \<le> q \<Longrightarrow> q < p + 4 \<Longrightarrow> m q = m' q) \<Longrightarrow> get_native_u4 m p = get_native_u4 m' p" for m m' p
    by (simp add: get_native_u4_def)
qed simp


section \<open>Properties\<close>

text \<open>the big-endian and the little-endian readers of a 32-bit word differ by
  \<open>swap_u4\<close>, which is its own inverse; and a word that is written in one order and read in
  the other is swapped.\<close>

theorem byte_order_swap:
  "get_Java_u4 m p = swap_u4 (get_native_u4 m p) \<and> swap_u4 (swap_u4 x) = x \<and>
   get_native_u4 (put_Java_u4 m p x) p = swap_u4 x \<and> get_Java_u4 (put_native_u4 m p x) p = swap_u4 x"
proof -
  have "swap_u4 (get_native_u4 (put_Java_u4 m p x) p) = x"
    by (simp flip: get_Java_u4_swap)
  then have "get_native_u4 (put_Java_u4 m p x) p = swap_u4 x"
    using swap_u4_swap_u4 by metis
  then show ?thesis by (simp add: get_Java_u4_swap)
qed

text \<open>two words of eight bytes written in disjoint places are both read back.\<close>

theorem java_u8_two_words:
  assumes "p + 8 \<le> q \<or> q + 8 \<le> p"
  shows "get_Java_u8 (put_Java_u8 (put_Java_u8 m p x) q y) p = x \<and>
         get_Java_u8 (put_Java_u8 (put_Java_u8 m p x) q y) q = y"
  using assms by (rule java_u8.two_words)

theorem java_u8_two_words_witness:
  "get_Java_u8 (put_Java_u8 (put_Java_u8 (\<lambda>_. 0) 0 1) 8 2) 0 = 1"
  using java_u8_two_words [of 0 8 "\<lambda>_. 0" 1 2] by simp

end
