(* ===== verification/Bytecodes.thy ===== *)
theory Bytecodes
  imports Code_Memory
begin

text \<open>
  The instruction set: \<open>Bytecodes.hpp\<close> and \<open>Bytecodes.cpp\<close>.  A bytecode is its
  number (the C++ code casts a code byte to the enumeration); the enumeration is
  the association list \<open>Code_enum\<close> and an abbreviation \<open>op_...\<close> per bytecode.
  The table gives every bytecode its length, its length after \<open>wide\<close> and its
  attributes.  The build has floating point, no stack tags, no CPU variant and
  the C interpreter as its port.
\<close>


section \<open>The enumeration\<close>

text \<open>Lines 47 to 147 of the enumeration.\<close>

definition Code_java_1 :: "(string \<times> nat) list" where
  "Code_java_1 = [
     (''nop'', 0), (''aconst_null'', 1), (''iconst_m1'', 2),
     (''iconst_0'', 3), (''iconst_1'', 4), (''iconst_2'', 5),
     (''iconst_3'', 6), (''iconst_4'', 7), (''iconst_5'', 8),
     (''lconst_0'', 9), (''lconst_1'', 10), (''fconst_0'', 11),
     (''fconst_1'', 12), (''fconst_2'', 13), (''dconst_0'', 14),
     (''dconst_1'', 15), (''bipush'', 16), (''sipush'', 17),
     (''ldc'', 18), (''ldc_w'', 19), (''ldc2_w'', 20),
     (''iload'', 21), (''lload'', 22), (''fload'', 23),
     (''dload'', 24), (''aload'', 25), (''iload_0'', 26),
     (''iload_1'', 27), (''iload_2'', 28), (''iload_3'', 29),
     (''lload_0'', 30), (''lload_1'', 31), (''lload_2'', 32),
     (''lload_3'', 33), (''fload_0'', 34), (''fload_1'', 35),
     (''fload_2'', 36), (''fload_3'', 37), (''dload_0'', 38),
     (''dload_1'', 39), (''dload_2'', 40), (''dload_3'', 41),
     (''aload_0'', 42), (''aload_1'', 43), (''aload_2'', 44),
     (''aload_3'', 45), (''iaload'', 46), (''laload'', 47),
     (''faload'', 48), (''daload'', 49), (''aaload'', 50),
     (''baload'', 51), (''caload'', 52), (''saload'', 53),
     (''istore'', 54), (''lstore'', 55), (''fstore'', 56),
     (''dstore'', 57), (''astore'', 58), (''istore_0'', 59),
     (''istore_1'', 60), (''istore_2'', 61), (''istore_3'', 62),
     (''lstore_0'', 63), (''lstore_1'', 64), (''lstore_2'', 65),
     (''lstore_3'', 66), (''fstore_0'', 67), (''fstore_1'', 68),
     (''fstore_2'', 69), (''fstore_3'', 70), (''dstore_0'', 71),
     (''dstore_1'', 72), (''dstore_2'', 73), (''dstore_3'', 74),
     (''astore_0'', 75), (''astore_1'', 76), (''astore_2'', 77),
     (''astore_3'', 78), (''iastore'', 79), (''lastore'', 80),
     (''fastore'', 81), (''dastore'', 82), (''aastore'', 83),
     (''bastore'', 84), (''castore'', 85), (''sastore'', 86),
     (''pop'', 87), (''pop2'', 88), (''dup'', 89),
     (''dup_x1'', 90), (''dup_x2'', 91), (''dup2'', 92),
     (''dup2_x1'', 93), (''dup2_x2'', 94), (''swap'', 95),
     (''iadd'', 96), (''ladd'', 97), (''fadd'', 98),
     (''dadd'', 99), (''isub'', 100)]"

text \<open>Lines 148 to 249 of the enumeration.\<close>

definition Code_java_2 :: "(string \<times> nat) list" where
  "Code_java_2 = [
     (''lsub'', 101), (''fsub'', 102), (''dsub'', 103),
     (''imul'', 104), (''lmul'', 105), (''fmul'', 106),
     (''dmul'', 107), (''idiv'', 108), (''ldiv'', 109),
     (''fdiv'', 110), (''ddiv'', 111), (''irem'', 112),
     (''lrem'', 113), (''frem'', 114), (''drem'', 115),
     (''ineg'', 116), (''lneg'', 117), (''fneg'', 118),
     (''dneg'', 119), (''ishl'', 120), (''lshl'', 121),
     (''ishr'', 122), (''lshr'', 123), (''iushr'', 124),
     (''lushr'', 125), (''iand'', 126), (''land'', 127),
     (''ior'', 128), (''lor'', 129), (''ixor'', 130),
     (''lxor'', 131), (''iinc'', 132), (''i2l'', 133),
     (''i2f'', 134), (''i2d'', 135), (''l2i'', 136),
     (''l2f'', 137), (''l2d'', 138), (''f2i'', 139),
     (''f2l'', 140), (''f2d'', 141), (''d2i'', 142),
     (''d2l'', 143), (''d2f'', 144), (''i2b'', 145),
     (''i2c'', 146), (''i2s'', 147), (''lcmp'', 148),
     (''fcmpl'', 149), (''fcmpg'', 150), (''dcmpl'', 151),
     (''dcmpg'', 152), (''ifeq'', 153), (''ifne'', 154),
     (''iflt'', 155), (''ifge'', 156), (''ifgt'', 157),
     (''ifle'', 158), (''if_icmpeq'', 159), (''if_icmpne'', 160),
     (''if_icmplt'', 161), (''if_icmpge'', 162), (''if_icmpgt'', 163),
     (''if_icmple'', 164), (''if_acmpeq'', 165), (''if_acmpne'', 166),
     (''goto'', 167), (''jsr'', 168), (''ret'', 169),
     (''tableswitch'', 170), (''lookupswitch'', 171), (''ireturn'', 172),
     (''lreturn'', 173), (''freturn'', 174), (''dreturn'', 175),
     (''areturn'', 176), (''return'', 177), (''getstatic'', 178),
     (''putstatic'', 179), (''getfield'', 180), (''putfield'', 181),
     (''invokevirtual'', 182), (''invokespecial'', 183), (''invokestatic'', 184),
     (''invokeinterface'', 185), (''xxxunusedxxx'', 186), (''new'', 187),
     (''newarray'', 188), (''anewarray'', 189), (''arraylength'', 190),
     (''athrow'', 191), (''checkcast'', 192), (''instanceof'', 193),
     (''monitorenter'', 194), (''monitorexit'', 195), (''wide'', 196),
     (''multianewarray'', 197), (''ifnull'', 198), (''ifnonnull'', 199),
     (''goto_w'', 200), (''jsr_w'', 201), (''breakpoint'', 202)]"

text \<open>Lines 280 to 357 of the enumeration.\<close>

definition Code_private :: "(string \<times> nat) list" where
  "Code_private = [
     (''fast_1_ldc'', 203), (''fast_1_ldc_w'', 204), (''fast_2_ldc_w'', 205),
     (''fast_1_putstatic'', 206), (''fast_2_putstatic'', 207), (''fast_a_putstatic'', 208),
     (''fast_1_getstatic'', 209), (''fast_2_getstatic'', 210), (''fast_bputfield'', 211),
     (''fast_sputfield'', 212), (''fast_iputfield'', 213), (''fast_lputfield'', 214),
     (''fast_fputfield'', 215), (''fast_dputfield'', 216), (''fast_aputfield'', 217),
     (''fast_bgetfield'', 218), (''fast_sgetfield'', 219), (''fast_igetfield'', 220),
     (''fast_lgetfield'', 221), (''fast_fgetfield'', 222), (''fast_dgetfield'', 223),
     (''fast_agetfield'', 224), (''fast_cgetfield'', 225), (''fast_invokevirtual'', 226),
     (''fast_invokestatic'', 227), (''fast_invokeinterface'', 228), (''fast_invokenative'', 229),
     (''fast_invokevirtual_final'', 230), (''fast_invokespecial'', 231), (''fast_new'', 232),
     (''fast_anewarray'', 233), (''fast_checkcast'', 234), (''fast_instanceof'', 235),
     (''fast_igetfield_1'', 236), (''fast_agetfield_1'', 237), (''aload_0_fast_agetfield_1'', 238),
     (''aload_0_fast_igetfield_1'', 239), (''pop_and_npe_if_null'', 240), (''init_static_array'', 241),
     (''aload_0_fast_agetfield_4'', 242), (''aload_0_fast_igetfield_4'', 243), (''aload_0_fast_agetfield_8'', 244),
     (''aload_0_fast_igetfield_8'', 245), (''fast_init_1_putstatic'', 246), (''fast_init_2_putstatic'', 247),
     (''fast_init_a_putstatic'', 248), (''fast_init_1_getstatic'', 249), (''fast_init_2_getstatic'', 250),
     (''fast_init_invokestatic'', 251), (''fast_init_new'', 252)]"

definition Code_enum :: "(string \<times> nat) list" where
  "Code_enum = Code_java_1 @ Code_java_2 @ Code_private"

definition number_of_java_codes :: nat where "number_of_java_codes = 253"

abbreviation (input) op_nop :: nat where "op_nop \<equiv> 0"
abbreviation (input) op_aconst_null :: nat where "op_aconst_null \<equiv> 1"
abbreviation (input) op_iconst_m1 :: nat where "op_iconst_m1 \<equiv> 2"
abbreviation (input) op_iconst_0 :: nat where "op_iconst_0 \<equiv> 3"
abbreviation (input) op_iconst_1 :: nat where "op_iconst_1 \<equiv> 4"
abbreviation (input) op_iconst_2 :: nat where "op_iconst_2 \<equiv> 5"
abbreviation (input) op_iconst_3 :: nat where "op_iconst_3 \<equiv> 6"
abbreviation (input) op_iconst_4 :: nat where "op_iconst_4 \<equiv> 7"
abbreviation (input) op_iconst_5 :: nat where "op_iconst_5 \<equiv> 8"
abbreviation (input) op_lconst_0 :: nat where "op_lconst_0 \<equiv> 9"
abbreviation (input) op_lconst_1 :: nat where "op_lconst_1 \<equiv> 10"
abbreviation (input) op_fconst_0 :: nat where "op_fconst_0 \<equiv> 11"
abbreviation (input) op_fconst_1 :: nat where "op_fconst_1 \<equiv> 12"
abbreviation (input) op_fconst_2 :: nat where "op_fconst_2 \<equiv> 13"
abbreviation (input) op_dconst_0 :: nat where "op_dconst_0 \<equiv> 14"
abbreviation (input) op_dconst_1 :: nat where "op_dconst_1 \<equiv> 15"
abbreviation (input) op_bipush :: nat where "op_bipush \<equiv> 16"
abbreviation (input) op_sipush :: nat where "op_sipush \<equiv> 17"
abbreviation (input) op_ldc :: nat where "op_ldc \<equiv> 18"
abbreviation (input) op_ldc_w :: nat where "op_ldc_w \<equiv> 19"
abbreviation (input) op_ldc2_w :: nat where "op_ldc2_w \<equiv> 20"
abbreviation (input) op_iload :: nat where "op_iload \<equiv> 21"
abbreviation (input) op_lload :: nat where "op_lload \<equiv> 22"
abbreviation (input) op_fload :: nat where "op_fload \<equiv> 23"
abbreviation (input) op_dload :: nat where "op_dload \<equiv> 24"
abbreviation (input) op_aload :: nat where "op_aload \<equiv> 25"
abbreviation (input) op_iload_0 :: nat where "op_iload_0 \<equiv> 26"
abbreviation (input) op_iload_1 :: nat where "op_iload_1 \<equiv> 27"
abbreviation (input) op_iload_2 :: nat where "op_iload_2 \<equiv> 28"
abbreviation (input) op_iload_3 :: nat where "op_iload_3 \<equiv> 29"
abbreviation (input) op_lload_0 :: nat where "op_lload_0 \<equiv> 30"
abbreviation (input) op_lload_1 :: nat where "op_lload_1 \<equiv> 31"
abbreviation (input) op_lload_2 :: nat where "op_lload_2 \<equiv> 32"
abbreviation (input) op_lload_3 :: nat where "op_lload_3 \<equiv> 33"
abbreviation (input) op_fload_0 :: nat where "op_fload_0 \<equiv> 34"
abbreviation (input) op_fload_1 :: nat where "op_fload_1 \<equiv> 35"
abbreviation (input) op_fload_2 :: nat where "op_fload_2 \<equiv> 36"
abbreviation (input) op_fload_3 :: nat where "op_fload_3 \<equiv> 37"
abbreviation (input) op_dload_0 :: nat where "op_dload_0 \<equiv> 38"
abbreviation (input) op_dload_1 :: nat where "op_dload_1 \<equiv> 39"
abbreviation (input) op_dload_2 :: nat where "op_dload_2 \<equiv> 40"
abbreviation (input) op_dload_3 :: nat where "op_dload_3 \<equiv> 41"
abbreviation (input) op_aload_0 :: nat where "op_aload_0 \<equiv> 42"
abbreviation (input) op_aload_1 :: nat where "op_aload_1 \<equiv> 43"
abbreviation (input) op_aload_2 :: nat where "op_aload_2 \<equiv> 44"
abbreviation (input) op_aload_3 :: nat where "op_aload_3 \<equiv> 45"
abbreviation (input) op_iaload :: nat where "op_iaload \<equiv> 46"
abbreviation (input) op_laload :: nat where "op_laload \<equiv> 47"
abbreviation (input) op_faload :: nat where "op_faload \<equiv> 48"
abbreviation (input) op_daload :: nat where "op_daload \<equiv> 49"
abbreviation (input) op_aaload :: nat where "op_aaload \<equiv> 50"
abbreviation (input) op_baload :: nat where "op_baload \<equiv> 51"
abbreviation (input) op_caload :: nat where "op_caload \<equiv> 52"
abbreviation (input) op_saload :: nat where "op_saload \<equiv> 53"
abbreviation (input) op_istore :: nat where "op_istore \<equiv> 54"
abbreviation (input) op_lstore :: nat where "op_lstore \<equiv> 55"
abbreviation (input) op_fstore :: nat where "op_fstore \<equiv> 56"
abbreviation (input) op_dstore :: nat where "op_dstore \<equiv> 57"
abbreviation (input) op_astore :: nat where "op_astore \<equiv> 58"
abbreviation (input) op_istore_0 :: nat where "op_istore_0 \<equiv> 59"
abbreviation (input) op_istore_1 :: nat where "op_istore_1 \<equiv> 60"
abbreviation (input) op_istore_2 :: nat where "op_istore_2 \<equiv> 61"
abbreviation (input) op_istore_3 :: nat where "op_istore_3 \<equiv> 62"
abbreviation (input) op_lstore_0 :: nat where "op_lstore_0 \<equiv> 63"
abbreviation (input) op_lstore_1 :: nat where "op_lstore_1 \<equiv> 64"
abbreviation (input) op_lstore_2 :: nat where "op_lstore_2 \<equiv> 65"
abbreviation (input) op_lstore_3 :: nat where "op_lstore_3 \<equiv> 66"
abbreviation (input) op_fstore_0 :: nat where "op_fstore_0 \<equiv> 67"
abbreviation (input) op_fstore_1 :: nat where "op_fstore_1 \<equiv> 68"
abbreviation (input) op_fstore_2 :: nat where "op_fstore_2 \<equiv> 69"
abbreviation (input) op_fstore_3 :: nat where "op_fstore_3 \<equiv> 70"
abbreviation (input) op_dstore_0 :: nat where "op_dstore_0 \<equiv> 71"
abbreviation (input) op_dstore_1 :: nat where "op_dstore_1 \<equiv> 72"
abbreviation (input) op_dstore_2 :: nat where "op_dstore_2 \<equiv> 73"
abbreviation (input) op_dstore_3 :: nat where "op_dstore_3 \<equiv> 74"
abbreviation (input) op_astore_0 :: nat where "op_astore_0 \<equiv> 75"
abbreviation (input) op_astore_1 :: nat where "op_astore_1 \<equiv> 76"
abbreviation (input) op_astore_2 :: nat where "op_astore_2 \<equiv> 77"
abbreviation (input) op_astore_3 :: nat where "op_astore_3 \<equiv> 78"
abbreviation (input) op_iastore :: nat where "op_iastore \<equiv> 79"
abbreviation (input) op_lastore :: nat where "op_lastore \<equiv> 80"
abbreviation (input) op_fastore :: nat where "op_fastore \<equiv> 81"
abbreviation (input) op_dastore :: nat where "op_dastore \<equiv> 82"
abbreviation (input) op_aastore :: nat where "op_aastore \<equiv> 83"
abbreviation (input) op_bastore :: nat where "op_bastore \<equiv> 84"
abbreviation (input) op_castore :: nat where "op_castore \<equiv> 85"
abbreviation (input) op_sastore :: nat where "op_sastore \<equiv> 86"
abbreviation (input) op_pop :: nat where "op_pop \<equiv> 87"
abbreviation (input) op_pop2 :: nat where "op_pop2 \<equiv> 88"
abbreviation (input) op_dup :: nat where "op_dup \<equiv> 89"
abbreviation (input) op_dup_x1 :: nat where "op_dup_x1 \<equiv> 90"
abbreviation (input) op_dup_x2 :: nat where "op_dup_x2 \<equiv> 91"
abbreviation (input) op_dup2 :: nat where "op_dup2 \<equiv> 92"
abbreviation (input) op_dup2_x1 :: nat where "op_dup2_x1 \<equiv> 93"
abbreviation (input) op_dup2_x2 :: nat where "op_dup2_x2 \<equiv> 94"
abbreviation (input) op_swap :: nat where "op_swap \<equiv> 95"
abbreviation (input) op_iadd :: nat where "op_iadd \<equiv> 96"
abbreviation (input) op_ladd :: nat where "op_ladd \<equiv> 97"
abbreviation (input) op_fadd :: nat where "op_fadd \<equiv> 98"
abbreviation (input) op_dadd :: nat where "op_dadd \<equiv> 99"
abbreviation (input) op_isub :: nat where "op_isub \<equiv> 100"
abbreviation (input) op_lsub :: nat where "op_lsub \<equiv> 101"
abbreviation (input) op_fsub :: nat where "op_fsub \<equiv> 102"
abbreviation (input) op_dsub :: nat where "op_dsub \<equiv> 103"
abbreviation (input) op_imul :: nat where "op_imul \<equiv> 104"
abbreviation (input) op_lmul :: nat where "op_lmul \<equiv> 105"
abbreviation (input) op_fmul :: nat where "op_fmul \<equiv> 106"
abbreviation (input) op_dmul :: nat where "op_dmul \<equiv> 107"
abbreviation (input) op_idiv :: nat where "op_idiv \<equiv> 108"
abbreviation (input) op_ldiv :: nat where "op_ldiv \<equiv> 109"
abbreviation (input) op_fdiv :: nat where "op_fdiv \<equiv> 110"
abbreviation (input) op_ddiv :: nat where "op_ddiv \<equiv> 111"
abbreviation (input) op_irem :: nat where "op_irem \<equiv> 112"
abbreviation (input) op_lrem :: nat where "op_lrem \<equiv> 113"
abbreviation (input) op_frem :: nat where "op_frem \<equiv> 114"
abbreviation (input) op_drem :: nat where "op_drem \<equiv> 115"
abbreviation (input) op_ineg :: nat where "op_ineg \<equiv> 116"
abbreviation (input) op_lneg :: nat where "op_lneg \<equiv> 117"
abbreviation (input) op_fneg :: nat where "op_fneg \<equiv> 118"
abbreviation (input) op_dneg :: nat where "op_dneg \<equiv> 119"
abbreviation (input) op_ishl :: nat where "op_ishl \<equiv> 120"
abbreviation (input) op_lshl :: nat where "op_lshl \<equiv> 121"
abbreviation (input) op_ishr :: nat where "op_ishr \<equiv> 122"
abbreviation (input) op_lshr :: nat where "op_lshr \<equiv> 123"
abbreviation (input) op_iushr :: nat where "op_iushr \<equiv> 124"
abbreviation (input) op_lushr :: nat where "op_lushr \<equiv> 125"
abbreviation (input) op_iand :: nat where "op_iand \<equiv> 126"
abbreviation (input) op_land :: nat where "op_land \<equiv> 127"
abbreviation (input) op_ior :: nat where "op_ior \<equiv> 128"
abbreviation (input) op_lor :: nat where "op_lor \<equiv> 129"
abbreviation (input) op_ixor :: nat where "op_ixor \<equiv> 130"
abbreviation (input) op_lxor :: nat where "op_lxor \<equiv> 131"
abbreviation (input) op_iinc :: nat where "op_iinc \<equiv> 132"
abbreviation (input) op_i2l :: nat where "op_i2l \<equiv> 133"
abbreviation (input) op_i2f :: nat where "op_i2f \<equiv> 134"
abbreviation (input) op_i2d :: nat where "op_i2d \<equiv> 135"
abbreviation (input) op_l2i :: nat where "op_l2i \<equiv> 136"
abbreviation (input) op_l2f :: nat where "op_l2f \<equiv> 137"
abbreviation (input) op_l2d :: nat where "op_l2d \<equiv> 138"
abbreviation (input) op_f2i :: nat where "op_f2i \<equiv> 139"
abbreviation (input) op_f2l :: nat where "op_f2l \<equiv> 140"
abbreviation (input) op_f2d :: nat where "op_f2d \<equiv> 141"
abbreviation (input) op_d2i :: nat where "op_d2i \<equiv> 142"
abbreviation (input) op_d2l :: nat where "op_d2l \<equiv> 143"
abbreviation (input) op_d2f :: nat where "op_d2f \<equiv> 144"
abbreviation (input) op_i2b :: nat where "op_i2b \<equiv> 145"
abbreviation (input) op_i2c :: nat where "op_i2c \<equiv> 146"
abbreviation (input) op_i2s :: nat where "op_i2s \<equiv> 147"
abbreviation (input) op_lcmp :: nat where "op_lcmp \<equiv> 148"
abbreviation (input) op_fcmpl :: nat where "op_fcmpl \<equiv> 149"
abbreviation (input) op_fcmpg :: nat where "op_fcmpg \<equiv> 150"
abbreviation (input) op_dcmpl :: nat where "op_dcmpl \<equiv> 151"
abbreviation (input) op_dcmpg :: nat where "op_dcmpg \<equiv> 152"
abbreviation (input) op_ifeq :: nat where "op_ifeq \<equiv> 153"
abbreviation (input) op_ifne :: nat where "op_ifne \<equiv> 154"
abbreviation (input) op_iflt :: nat where "op_iflt \<equiv> 155"
abbreviation (input) op_ifge :: nat where "op_ifge \<equiv> 156"
abbreviation (input) op_ifgt :: nat where "op_ifgt \<equiv> 157"
abbreviation (input) op_ifle :: nat where "op_ifle \<equiv> 158"
abbreviation (input) op_if_icmpeq :: nat where "op_if_icmpeq \<equiv> 159"
abbreviation (input) op_if_icmpne :: nat where "op_if_icmpne \<equiv> 160"
abbreviation (input) op_if_icmplt :: nat where "op_if_icmplt \<equiv> 161"
abbreviation (input) op_if_icmpge :: nat where "op_if_icmpge \<equiv> 162"
abbreviation (input) op_if_icmpgt :: nat where "op_if_icmpgt \<equiv> 163"
abbreviation (input) op_if_icmple :: nat where "op_if_icmple \<equiv> 164"
abbreviation (input) op_if_acmpeq :: nat where "op_if_acmpeq \<equiv> 165"
abbreviation (input) op_if_acmpne :: nat where "op_if_acmpne \<equiv> 166"
abbreviation (input) op_goto :: nat where "op_goto \<equiv> 167"
abbreviation (input) op_jsr :: nat where "op_jsr \<equiv> 168"
abbreviation (input) op_ret :: nat where "op_ret \<equiv> 169"
abbreviation (input) op_tableswitch :: nat where "op_tableswitch \<equiv> 170"
abbreviation (input) op_lookupswitch :: nat where "op_lookupswitch \<equiv> 171"
abbreviation (input) op_ireturn :: nat where "op_ireturn \<equiv> 172"
abbreviation (input) op_lreturn :: nat where "op_lreturn \<equiv> 173"
abbreviation (input) op_freturn :: nat where "op_freturn \<equiv> 174"
abbreviation (input) op_dreturn :: nat where "op_dreturn \<equiv> 175"
abbreviation (input) op_areturn :: nat where "op_areturn \<equiv> 176"
abbreviation (input) op_return :: nat where "op_return \<equiv> 177"
abbreviation (input) op_getstatic :: nat where "op_getstatic \<equiv> 178"
abbreviation (input) op_putstatic :: nat where "op_putstatic \<equiv> 179"
abbreviation (input) op_getfield :: nat where "op_getfield \<equiv> 180"
abbreviation (input) op_putfield :: nat where "op_putfield \<equiv> 181"
abbreviation (input) op_invokevirtual :: nat where "op_invokevirtual \<equiv> 182"
abbreviation (input) op_invokespecial :: nat where "op_invokespecial \<equiv> 183"
abbreviation (input) op_invokestatic :: nat where "op_invokestatic \<equiv> 184"
abbreviation (input) op_invokeinterface :: nat where "op_invokeinterface \<equiv> 185"
abbreviation (input) op_xxxunusedxxx :: nat where "op_xxxunusedxxx \<equiv> 186"
abbreviation (input) op_new :: nat where "op_new \<equiv> 187"
abbreviation (input) op_newarray :: nat where "op_newarray \<equiv> 188"
abbreviation (input) op_anewarray :: nat where "op_anewarray \<equiv> 189"
abbreviation (input) op_arraylength :: nat where "op_arraylength \<equiv> 190"
abbreviation (input) op_athrow :: nat where "op_athrow \<equiv> 191"
abbreviation (input) op_checkcast :: nat where "op_checkcast \<equiv> 192"
abbreviation (input) op_instanceof :: nat where "op_instanceof \<equiv> 193"
abbreviation (input) op_monitorenter :: nat where "op_monitorenter \<equiv> 194"
abbreviation (input) op_monitorexit :: nat where "op_monitorexit \<equiv> 195"
abbreviation (input) op_wide :: nat where "op_wide \<equiv> 196"
abbreviation (input) op_multianewarray :: nat where "op_multianewarray \<equiv> 197"
abbreviation (input) op_ifnull :: nat where "op_ifnull \<equiv> 198"
abbreviation (input) op_ifnonnull :: nat where "op_ifnonnull \<equiv> 199"
abbreviation (input) op_goto_w :: nat where "op_goto_w \<equiv> 200"
abbreviation (input) op_jsr_w :: nat where "op_jsr_w \<equiv> 201"
abbreviation (input) op_breakpoint :: nat where "op_breakpoint \<equiv> 202"
abbreviation (input) op_fast_1_ldc :: nat where "op_fast_1_ldc \<equiv> 203"
abbreviation (input) op_fast_1_ldc_w :: nat where "op_fast_1_ldc_w \<equiv> 204"
abbreviation (input) op_fast_2_ldc_w :: nat where "op_fast_2_ldc_w \<equiv> 205"
abbreviation (input) op_fast_1_putstatic :: nat where "op_fast_1_putstatic \<equiv> 206"
abbreviation (input) op_fast_2_putstatic :: nat where "op_fast_2_putstatic \<equiv> 207"
abbreviation (input) op_fast_a_putstatic :: nat where "op_fast_a_putstatic \<equiv> 208"
abbreviation (input) op_fast_1_getstatic :: nat where "op_fast_1_getstatic \<equiv> 209"
abbreviation (input) op_fast_2_getstatic :: nat where "op_fast_2_getstatic \<equiv> 210"
abbreviation (input) op_fast_bputfield :: nat where "op_fast_bputfield \<equiv> 211"
abbreviation (input) op_fast_sputfield :: nat where "op_fast_sputfield \<equiv> 212"
abbreviation (input) op_fast_iputfield :: nat where "op_fast_iputfield \<equiv> 213"
abbreviation (input) op_fast_lputfield :: nat where "op_fast_lputfield \<equiv> 214"
abbreviation (input) op_fast_fputfield :: nat where "op_fast_fputfield \<equiv> 215"
abbreviation (input) op_fast_dputfield :: nat where "op_fast_dputfield \<equiv> 216"
abbreviation (input) op_fast_aputfield :: nat where "op_fast_aputfield \<equiv> 217"
abbreviation (input) op_fast_bgetfield :: nat where "op_fast_bgetfield \<equiv> 218"
abbreviation (input) op_fast_sgetfield :: nat where "op_fast_sgetfield \<equiv> 219"
abbreviation (input) op_fast_igetfield :: nat where "op_fast_igetfield \<equiv> 220"
abbreviation (input) op_fast_lgetfield :: nat where "op_fast_lgetfield \<equiv> 221"
abbreviation (input) op_fast_fgetfield :: nat where "op_fast_fgetfield \<equiv> 222"
abbreviation (input) op_fast_dgetfield :: nat where "op_fast_dgetfield \<equiv> 223"
abbreviation (input) op_fast_agetfield :: nat where "op_fast_agetfield \<equiv> 224"
abbreviation (input) op_fast_cgetfield :: nat where "op_fast_cgetfield \<equiv> 225"
abbreviation (input) op_fast_invokevirtual :: nat where "op_fast_invokevirtual \<equiv> 226"
abbreviation (input) op_fast_invokestatic :: nat where "op_fast_invokestatic \<equiv> 227"
abbreviation (input) op_fast_invokeinterface :: nat where "op_fast_invokeinterface \<equiv> 228"
abbreviation (input) op_fast_invokenative :: nat where "op_fast_invokenative \<equiv> 229"
abbreviation (input) op_fast_invokevirtual_final :: nat where "op_fast_invokevirtual_final \<equiv> 230"
abbreviation (input) op_fast_invokespecial :: nat where "op_fast_invokespecial \<equiv> 231"
abbreviation (input) op_fast_new :: nat where "op_fast_new \<equiv> 232"
abbreviation (input) op_fast_anewarray :: nat where "op_fast_anewarray \<equiv> 233"
abbreviation (input) op_fast_checkcast :: nat where "op_fast_checkcast \<equiv> 234"
abbreviation (input) op_fast_instanceof :: nat where "op_fast_instanceof \<equiv> 235"
abbreviation (input) op_fast_igetfield_1 :: nat where "op_fast_igetfield_1 \<equiv> 236"
abbreviation (input) op_fast_agetfield_1 :: nat where "op_fast_agetfield_1 \<equiv> 237"
abbreviation (input) op_aload_0_fast_agetfield_1 :: nat where "op_aload_0_fast_agetfield_1 \<equiv> 238"
abbreviation (input) op_aload_0_fast_igetfield_1 :: nat where "op_aload_0_fast_igetfield_1 \<equiv> 239"
abbreviation (input) op_pop_and_npe_if_null :: nat where "op_pop_and_npe_if_null \<equiv> 240"
abbreviation (input) op_init_static_array :: nat where "op_init_static_array \<equiv> 241"
abbreviation (input) op_aload_0_fast_agetfield_4 :: nat where "op_aload_0_fast_agetfield_4 \<equiv> 242"
abbreviation (input) op_aload_0_fast_igetfield_4 :: nat where "op_aload_0_fast_igetfield_4 \<equiv> 243"
abbreviation (input) op_aload_0_fast_agetfield_8 :: nat where "op_aload_0_fast_agetfield_8 \<equiv> 244"
abbreviation (input) op_aload_0_fast_igetfield_8 :: nat where "op_aload_0_fast_igetfield_8 \<equiv> 245"
abbreviation (input) op_fast_init_1_putstatic :: nat where "op_fast_init_1_putstatic \<equiv> 246"
abbreviation (input) op_fast_init_2_putstatic :: nat where "op_fast_init_2_putstatic \<equiv> 247"
abbreviation (input) op_fast_init_a_putstatic :: nat where "op_fast_init_a_putstatic \<equiv> 248"
abbreviation (input) op_fast_init_1_getstatic :: nat where "op_fast_init_1_getstatic \<equiv> 249"
abbreviation (input) op_fast_init_2_getstatic :: nat where "op_fast_init_2_getstatic \<equiv> 250"
abbreviation (input) op_fast_init_invokestatic :: nat where "op_fast_init_invokestatic \<equiv> 251"
abbreviation (input) op_fast_init_new :: nat where "op_fast_init_new \<equiv> 252"


section \<open>Attributes\<close>

abbreviation (input) fl_None :: nat where "fl_None \<equiv> 0"
abbreviation (input) fl_WideLengthMask :: nat where "fl_WideLengthMask \<equiv> 0x00F"
abbreviation (input) fl_Exceptions :: nat where "fl_Exceptions \<equiv> 0x010"
abbreviation (input) fl_NullCheck :: nat where "fl_NullCheck \<equiv> 0x020 OR fl_Exceptions"
abbreviation (input) fl_NoFallThru :: nat where "fl_NoFallThru \<equiv> 0x080"
abbreviation (input) fl_NoPatching :: nat where "fl_NoPatching \<equiv> 0x100"
abbreviation (input) fl_NoInlining :: nat where "fl_NoInlining \<equiv> 0x200"
abbreviation (input) fl_CanRedo :: nat where "fl_CanRedo \<equiv> 0x400"
abbreviation (input) fl_NeedsFrameExARM :: nat where "fl_NeedsFrameExARM \<equiv> fl_NoInlining"
abbreviation (input) fl_SoftLong :: nat where "fl_SoftLong \<equiv> 0"
abbreviation (input) fl_SoftFloat :: nat where "fl_SoftFloat \<equiv> fl_Exceptions"
abbreviation (input) fl_Expr :: nat where "fl_Expr \<equiv> 0x800"
abbreviation (input) fl_ExprStart :: nat where "fl_ExprStart \<equiv> 0x1000"


section \<open>The table\<close>

record bytecode_data =
  bd_name :: string
  bd_length :: int
  bd_format :: string
  bd_wide_length_and_flags :: nat
  bd_wide_format :: string

text \<open>The macro \<open>def\<close> of the table (and \<open>fdef\<close>, the same with floating point).\<close>

definition bc :: "string \<Rightarrow> int \<Rightarrow> string \<Rightarrow> nat \<Rightarrow> string \<Rightarrow> nat \<Rightarrow> bytecode_data" where
  "bc name len format wide_length wide_format flags =
     \<lparr> bd_name = name, bd_length = len, bd_format = format,
       bd_wide_length_and_flags = wide_length OR flags, bd_wide_format = wide_format \<rparr>"

text \<open>The rows of lines 81 to 180.\<close>

definition data_1 :: "bytecode_data list" where
  "data_1 = [
     bc ''nop'' 1 ''b'' 0 '''' fl_None,
     bc ''aconst_null'' 1 ''b'' 0 '''' fl_ExprStart,
     bc ''iconst_m1'' 1 ''b'' 0 '''' fl_ExprStart,
     bc ''iconst_0'' 1 ''b'' 0 '''' fl_ExprStart,
     bc ''iconst_1'' 1 ''b'' 0 '''' fl_ExprStart,
     bc ''iconst_2'' 1 ''b'' 0 '''' fl_ExprStart,
     bc ''iconst_3'' 1 ''b'' 0 '''' fl_ExprStart,
     bc ''iconst_4'' 1 ''b'' 0 '''' fl_ExprStart,
     bc ''iconst_5'' 1 ''b'' 0 '''' fl_ExprStart,
     bc ''lconst_0'' 1 ''b'' 0 '''' fl_None,
     bc ''lconst_1'' 1 ''b'' 0 '''' fl_None,
     bc ''fconst_0'' 1 ''b'' 0 '''' fl_None,
     bc ''fconst_1'' 1 ''b'' 0 '''' fl_None,
     bc ''fconst_2'' 1 ''b'' 0 '''' fl_None,
     bc ''dconst_0'' 1 ''b'' 0 '''' fl_None,
     bc ''dconst_1'' 1 ''b'' 0 '''' fl_None,
     bc ''bipush'' 2 ''bc'' 0 '''' fl_ExprStart,
     bc ''sipush'' 3 ''bcc'' 0 '''' fl_ExprStart,
     bc ''ldc'' 2 ''bi'' 0 '''' fl_ExprStart,
     bc ''ldc_w'' 3 ''bii'' 0 '''' fl_ExprStart,
     bc ''ldc2_w'' 3 ''bii'' 0 '''' fl_None,
     bc ''iload'' 2 ''bi'' 4 ''wbii'' fl_ExprStart,
     bc ''lload'' 2 ''bi'' 4 ''wbii'' fl_None,
     bc ''fload'' 2 ''bi'' 4 ''wbii'' fl_None,
     bc ''dload'' 2 ''bi'' 4 ''wbii'' fl_None,
     bc ''aload'' 2 ''bi'' 4 ''wbii'' fl_ExprStart,
     bc ''iload_0'' 1 ''b'' 0 '''' fl_ExprStart,
     bc ''iload_1'' 1 ''b'' 0 '''' fl_ExprStart,
     bc ''iload_2'' 1 ''b'' 0 '''' fl_ExprStart,
     bc ''iload_3'' 1 ''b'' 0 '''' fl_ExprStart,
     bc ''lload_0'' 1 ''b'' 0 '''' fl_ExprStart,
     bc ''lload_1'' 1 ''b'' 0 '''' fl_ExprStart,
     bc ''lload_2'' 1 ''b'' 0 '''' fl_ExprStart,
     bc ''lload_3'' 1 ''b'' 0 '''' fl_ExprStart,
     bc ''fload_0'' 1 ''b'' 0 '''' fl_None,
     bc ''fload_1'' 1 ''b'' 0 '''' fl_None,
     bc ''fload_2'' 1 ''b'' 0 '''' fl_None,
     bc ''fload_3'' 1 ''b'' 0 '''' fl_None,
     bc ''dload_0'' 1 ''b'' 0 '''' fl_None,
     bc ''dload_1'' 1 ''b'' 0 '''' fl_None,
     bc ''dload_2'' 1 ''b'' 0 '''' fl_None,
     bc ''dload_3'' 1 ''b'' 0 '''' fl_None,
     bc ''aload_0'' 1 ''b'' 0 '''' fl_ExprStart,
     bc ''aload_1'' 1 ''b'' 0 '''' fl_ExprStart,
     bc ''aload_2'' 1 ''b'' 0 '''' fl_ExprStart,
     bc ''aload_3'' 1 ''b'' 0 '''' fl_ExprStart,
     bc ''iaload'' 1 ''b'' 0 '''' (fl_NullCheck OR fl_Expr),
     bc ''laload'' 1 ''b'' 0 '''' fl_NullCheck,
     bc ''faload'' 1 ''b'' 0 '''' fl_NullCheck,
     bc ''daload'' 1 ''b'' 0 '''' fl_NullCheck,
     bc ''aaload'' 1 ''b'' 0 '''' (fl_NullCheck OR fl_Expr),
     bc ''baload'' 1 ''b'' 0 '''' (fl_NullCheck OR fl_Expr),
     bc ''caload'' 1 ''b'' 0 '''' (fl_NullCheck OR fl_Expr),
     bc ''saload'' 1 ''b'' 0 '''' (fl_NullCheck OR fl_Expr),
     bc ''istore'' 2 ''bi'' 4 ''wbii'' fl_None,
     bc ''lstore'' 2 ''bi'' 4 ''wbii'' fl_None,
     bc ''fstore'' 2 ''bi'' 4 ''wbii'' fl_None,
     bc ''dstore'' 2 ''bi'' 4 ''wbii'' fl_None,
     bc ''astore'' 2 ''bi'' 4 ''wbii'' fl_None,
     bc ''istore_0'' 1 ''b'' 0 '''' fl_None,
     bc ''istore_1'' 1 ''b'' 0 '''' fl_None,
     bc ''istore_2'' 1 ''b'' 0 '''' fl_None,
     bc ''istore_3'' 1 ''b'' 0 '''' fl_None,
     bc ''lstore_0'' 1 ''b'' 0 '''' fl_None,
     bc ''lstore_1'' 1 ''b'' 0 '''' fl_None,
     bc ''lstore_2'' 1 ''b'' 0 '''' fl_None,
     bc ''lstore_3'' 1 ''b'' 0 '''' fl_None,
     bc ''fstore_0'' 1 ''b'' 0 '''' fl_None,
     bc ''fstore_1'' 1 ''b'' 0 '''' fl_None,
     bc ''fstore_2'' 1 ''b'' 0 '''' fl_None,
     bc ''fstore_3'' 1 ''b'' 0 '''' fl_None,
     bc ''dstore_0'' 1 ''b'' 0 '''' fl_None,
     bc ''dstore_1'' 1 ''b'' 0 '''' fl_None,
     bc ''dstore_2'' 1 ''b'' 0 '''' fl_None,
     bc ''dstore_3'' 1 ''b'' 0 '''' fl_None,
     bc ''astore_0'' 1 ''b'' 0 '''' fl_None,
     bc ''astore_1'' 1 ''b'' 0 '''' fl_None,
     bc ''astore_2'' 1 ''b'' 0 '''' fl_None,
     bc ''astore_3'' 1 ''b'' 0 '''' fl_None,
     bc ''iastore'' 1 ''b'' 0 '''' fl_NullCheck,
     bc ''lastore'' 1 ''b'' 0 '''' fl_NullCheck,
     bc ''fastore'' 1 ''b'' 0 '''' fl_NullCheck,
     bc ''dastore'' 1 ''b'' 0 '''' fl_NullCheck,
     bc ''aastore'' 1 ''b'' 0 '''' fl_NullCheck,
     bc ''bastore'' 1 ''b'' 0 '''' fl_NullCheck,
     bc ''castore'' 1 ''b'' 0 '''' fl_NullCheck,
     bc ''sastore'' 1 ''b'' 0 '''' fl_NullCheck,
     bc ''pop'' 1 ''b'' 0 '''' fl_None,
     bc ''pop2'' 1 ''b'' 0 '''' fl_None,
     bc ''dup'' 1 ''b'' 0 '''' fl_None,
     bc ''dup_x1'' 1 ''b'' 0 '''' fl_None,
     bc ''dup_x2'' 1 ''b'' 0 '''' fl_None,
     bc ''dup2'' 1 ''b'' 0 '''' fl_None,
     bc ''dup2_x1'' 1 ''b'' 0 '''' fl_None,
     bc ''dup2_x2'' 1 ''b'' 0 '''' fl_None,
     bc ''swap'' 1 ''b'' 0 '''' fl_None,
     bc ''iadd'' 1 ''b'' 0 '''' fl_Expr,
     bc ''ladd'' 1 ''b'' 0 '''' fl_SoftLong,
     bc ''fadd'' 1 ''b'' 0 '''' fl_SoftFloat,
     bc ''dadd'' 1 ''b'' 0 '''' fl_SoftFloat]"

text \<open>The rows of lines 181 to 283.\<close>

definition data_2 :: "bytecode_data list" where
  "data_2 = [
     bc ''isub'' 1 ''b'' 0 '''' fl_Expr,
     bc ''lsub'' 1 ''b'' 0 '''' fl_SoftLong,
     bc ''fsub'' 1 ''b'' 0 '''' fl_SoftFloat,
     bc ''dsub'' 1 ''b'' 0 '''' fl_SoftFloat,
     bc ''imul'' 1 ''b'' 0 '''' (fl_SoftFloat OR fl_Expr),
     bc ''lmul'' 1 ''b'' 0 '''' fl_SoftLong,
     bc ''fmul'' 1 ''b'' 0 '''' fl_SoftFloat,
     bc ''dmul'' 1 ''b'' 0 '''' fl_SoftFloat,
     bc ''idiv'' 1 ''b'' 0 '''' (fl_SoftFloat OR fl_Exceptions OR fl_Expr),
     bc ''ldiv'' 1 ''b'' 0 '''' (fl_SoftLong OR fl_Exceptions),
     bc ''fdiv'' 1 ''b'' 0 '''' fl_SoftFloat,
     bc ''ddiv'' 1 ''b'' 0 '''' fl_SoftFloat,
     bc ''irem'' 1 ''b'' 0 '''' (fl_SoftFloat OR fl_Exceptions OR fl_Expr),
     bc ''lrem'' 1 ''b'' 0 '''' (fl_SoftLong OR fl_Exceptions),
     bc ''frem'' 1 ''b'' 0 '''' fl_SoftFloat,
     bc ''drem'' 1 ''b'' 0 '''' fl_SoftFloat,
     bc ''ineg'' 1 ''b'' 0 '''' fl_Expr,
     bc ''lneg'' 1 ''b'' 0 '''' fl_SoftLong,
     bc ''fneg'' 1 ''b'' 0 '''' fl_SoftFloat,
     bc ''dneg'' 1 ''b'' 0 '''' fl_SoftFloat,
     bc ''ishl'' 1 ''b'' 0 '''' fl_Expr,
     bc ''lshl'' 1 ''b'' 0 '''' fl_SoftLong,
     bc ''ishr'' 1 ''b'' 0 '''' fl_Expr,
     bc ''lshr'' 1 ''b'' 0 '''' fl_SoftLong,
     bc ''iushr'' 1 ''b'' 0 '''' fl_Expr,
     bc ''lushr'' 1 ''b'' 0 '''' fl_SoftLong,
     bc ''iand'' 1 ''b'' 0 '''' fl_Expr,
     bc ''land'' 1 ''b'' 0 '''' fl_SoftLong,
     bc ''ior'' 1 ''b'' 0 '''' fl_Expr,
     bc ''lor'' 1 ''b'' 0 '''' fl_SoftLong,
     bc ''ixor'' 1 ''b'' 0 '''' fl_Expr,
     bc ''lxor'' 1 ''b'' 0 '''' fl_SoftLong,
     bc ''iinc'' 3 ''bic'' 6 ''wbiicc'' fl_None,
     bc ''i2l'' 1 ''b'' 0 '''' fl_None,
     bc ''i2f'' 1 ''b'' 0 '''' fl_SoftFloat,
     bc ''i2d'' 1 ''b'' 0 '''' fl_SoftFloat,
     bc ''l2i'' 1 ''b'' 0 '''' fl_None,
     bc ''l2f'' 1 ''b'' 0 '''' fl_SoftFloat,
     bc ''l2d'' 1 ''b'' 0 '''' fl_SoftFloat,
     bc ''f2i'' 1 ''b'' 0 '''' fl_SoftFloat,
     bc ''f2l'' 1 ''b'' 0 '''' fl_SoftFloat,
     bc ''f2d'' 1 ''b'' 0 '''' fl_SoftFloat,
     bc ''d2i'' 1 ''b'' 0 '''' fl_SoftFloat,
     bc ''d2l'' 1 ''b'' 0 '''' fl_SoftFloat,
     bc ''d2f'' 1 ''b'' 0 '''' fl_SoftFloat,
     bc ''i2b'' 1 ''b'' 0 '''' fl_Expr,
     bc ''i2c'' 1 ''b'' 0 '''' fl_Expr,
     bc ''i2s'' 1 ''b'' 0 '''' fl_Expr,
     bc ''lcmp'' 1 ''b'' 0 '''' fl_SoftLong,
     bc ''fcmpl'' 1 ''b'' 0 '''' fl_SoftFloat,
     bc ''fcmpg'' 1 ''b'' 0 '''' fl_SoftFloat,
     bc ''dcmpl'' 1 ''b'' 0 '''' fl_SoftFloat,
     bc ''dcmpg'' 1 ''b'' 0 '''' fl_SoftFloat,
     bc ''ifeq'' 3 ''boo'' 0 '''' fl_None,
     bc ''ifne'' 3 ''boo'' 0 '''' fl_None,
     bc ''iflt'' 3 ''boo'' 0 '''' fl_None,
     bc ''ifge'' 3 ''boo'' 0 '''' fl_None,
     bc ''ifgt'' 3 ''boo'' 0 '''' fl_None,
     bc ''ifle'' 3 ''boo'' 0 '''' fl_None,
     bc ''if_icmpeq'' 3 ''boo'' 0 '''' fl_None,
     bc ''if_icmpne'' 3 ''boo'' 0 '''' fl_None,
     bc ''if_icmplt'' 3 ''boo'' 0 '''' fl_None,
     bc ''if_icmpge'' 3 ''boo'' 0 '''' fl_None,
     bc ''if_icmpgt'' 3 ''boo'' 0 '''' fl_None,
     bc ''if_icmple'' 3 ''boo'' 0 '''' fl_None,
     bc ''if_acmpeq'' 3 ''boo'' 0 '''' fl_None,
     bc ''if_acmpne'' 3 ''boo'' 0 '''' fl_None,
     bc ''goto'' 3 ''boo'' 0 '''' fl_NoFallThru,
     bc ''jsr'' (- 1) ''boo'' 0 '''' fl_None,
     bc ''ret'' (- 1) ''bi'' 4 ''wbii'' fl_NoFallThru,
     bc ''tableswitch'' 0 '''' 0 '''' fl_NoFallThru,
     bc ''lookupswitch'' 0 '''' 0 '''' fl_NoFallThru,
     bc ''ireturn'' 1 ''b'' 0 '''' fl_NoFallThru,
     bc ''lreturn'' 1 ''b'' 0 '''' fl_NoFallThru,
     bc ''freturn'' 1 ''b'' 0 '''' fl_NoFallThru,
     bc ''dreturn'' 1 ''b'' 0 '''' fl_NoFallThru,
     bc ''areturn'' 1 ''b'' 0 '''' fl_NoFallThru,
     bc ''return'' 1 ''b'' 0 '''' fl_NoFallThru,
     bc ''getstatic'' 3 ''bjj'' 0 '''' (fl_Exceptions OR fl_ExprStart),
     bc ''putstatic'' 3 ''bjj'' 0 '''' fl_Exceptions,
     bc ''getfield'' 3 ''bjj'' 0 '''' (fl_NullCheck OR fl_Expr),
     bc ''putfield'' 3 ''bjj'' 0 '''' fl_NullCheck,
     bc ''invokevirtual'' 3 ''bjj'' 0 '''' (fl_NullCheck OR fl_NoPatching),
     bc ''invokespecial'' 3 ''bjj'' 0 '''' (fl_NullCheck OR fl_NoPatching),
     bc ''invokestatic'' 3 ''bjj'' 0 '''' (fl_Exceptions OR fl_NoPatching),
     bc ''invokeinterface'' 5 ''bjj__'' 0 '''' (fl_NullCheck OR fl_NoPatching),
     bc ''xxxunusedxxx'' (- 1) '''' 0 '''' fl_Exceptions,
     bc ''new'' 3 ''bii'' 0 '''' (fl_Exceptions OR fl_NoPatching OR fl_NeedsFrameExARM OR fl_CanRedo),
     bc ''newarray'' 2 ''bc'' 0 '''' (fl_Exceptions OR fl_NoPatching OR fl_CanRedo),
     bc ''anewarray'' 3 ''bii'' 0 '''' (fl_Exceptions OR fl_NoPatching OR fl_NeedsFrameExARM OR fl_CanRedo),
     bc ''arraylength'' 1 ''b'' 0 '''' fl_NullCheck,
     bc ''athrow'' 1 ''b'' 0 '''' (fl_NoFallThru OR fl_NullCheck OR fl_NoInlining),
     bc ''checkcast'' 3 ''bii'' 0 '''' (fl_Exceptions OR fl_NoPatching OR fl_NoInlining OR fl_Expr),
     bc ''instanceof'' 3 ''bii'' 0 '''' (fl_Exceptions OR fl_NoPatching OR fl_NeedsFrameExARM OR fl_Expr),
     bc ''monitorenter'' 1 ''b'' 0 '''' fl_NoPatching,
     bc ''monitorexit'' 1 ''b'' 0 '''' fl_NoPatching,
     bc ''wide'' 0 '''' 0 '''' fl_None,
     bc ''multianewarray'' 4 ''biic'' 0 '''' (fl_Exceptions OR fl_NoPatching OR fl_NoInlining OR fl_CanRedo),
     bc ''ifnull'' 3 ''boo'' 0 '''' fl_None,
     bc ''ifnonnull'' 3 ''boo'' 0 '''' fl_None,
     bc ''goto_w'' 5 ''boooo'' 0 '''' fl_NoFallThru,
     bc ''jsr_w'' (- 1) ''boooo'' 0 '''' fl_None,
     bc ''breakpoint'' 1 ''b'' 0 '''' fl_None]"

text \<open>The rows of lines 285 to 346.\<close>

definition data_3 :: "bytecode_data list" where
  "data_3 = [
     bc ''fast_1_ldc'' 2 ''bi'' 0 '''' fl_ExprStart,
     bc ''fast_1_ldc_w'' 3 ''bii'' 0 '''' fl_ExprStart,
     bc ''fast_2_ldc_w'' 3 ''bii'' 0 '''' fl_None,
     bc ''fast_1_putstatic'' 3 ''bjj'' 0 '''' fl_Exceptions,
     bc ''fast_2_putstatic'' 3 ''bjj'' 0 '''' fl_Exceptions,
     bc ''fast_a_putstatic'' 3 ''bjj'' 0 '''' fl_Exceptions,
     bc ''fast_1_getstatic'' 3 ''bjj'' 0 '''' (fl_Exceptions OR fl_ExprStart),
     bc ''fast_2_getstatic'' 3 ''bjj'' 0 '''' fl_Exceptions,
     bc ''fast_bputfield'' 3 ''bjj'' 0 '''' fl_NullCheck,
     bc ''fast_sputfield'' 3 ''bjj'' 0 '''' fl_NullCheck,
     bc ''fast_iputfield'' 3 ''bjj'' 0 '''' fl_NullCheck,
     bc ''fast_lputfield'' 3 ''bjj'' 0 '''' fl_NullCheck,
     bc ''fast_fputfield'' 3 ''bjj'' 0 '''' fl_NullCheck,
     bc ''fast_dputfield'' 3 ''bjj'' 0 '''' fl_NullCheck,
     bc ''fast_aputfield'' 3 ''bjj'' 0 '''' fl_NullCheck,
     bc ''fast_bgetfield'' 3 ''bjj'' 0 '''' (fl_NullCheck OR fl_Expr),
     bc ''fast_sgetfield'' 3 ''bjj'' 0 '''' (fl_NullCheck OR fl_Expr),
     bc ''fast_igetfield'' 3 ''bjj'' 0 '''' (fl_NullCheck OR fl_Expr),
     bc ''fast_lgetfield'' 3 ''bjj'' 0 '''' (fl_NullCheck OR fl_Expr),
     bc ''fast_fgetfield'' 3 ''bjj'' 0 '''' fl_NullCheck,
     bc ''fast_dgetfield'' 3 ''bjj'' 0 '''' fl_NullCheck,
     bc ''fast_agetfield'' 3 ''bjj'' 0 '''' (fl_NullCheck OR fl_Expr),
     bc ''fast_cgetfield'' 3 ''bjj'' 0 '''' (fl_NullCheck OR fl_Expr),
     bc ''fast_invokevirtual'' 3 ''bjj'' 0 '''' (fl_NullCheck OR fl_NoPatching),
     bc ''fast_invokestatic'' 3 ''bjj'' 0 '''' (fl_Exceptions OR fl_NoPatching),
     bc ''fast_invokeinterface'' 5 ''bjj__'' 0 '''' (fl_NullCheck OR fl_NoPatching),
     bc ''fast_invokenative'' 8 ''bc__jjjj'' 0 '''' (fl_Exceptions OR fl_NoFallThru OR fl_NoPatching),
     bc ''fast_invokevirtual_final'' 3 ''bjj'' 0 '''' (fl_NullCheck OR fl_NoPatching),
     bc ''fast_invokespecial'' 3 ''bjj'' 0 '''' (fl_NullCheck OR fl_NoPatching),
     bc ''fast_new'' 3 ''bii'' 0 '''' (fl_Exceptions OR fl_NoPatching OR fl_NeedsFrameExARM OR fl_CanRedo),
     bc ''fast_anewarray'' 3 ''bii'' 0 '''' (fl_Exceptions OR fl_NoPatching OR fl_NeedsFrameExARM OR fl_CanRedo),
     bc ''fast_checkcast'' 3 ''bii'' 0 '''' (fl_Exceptions OR fl_NoPatching OR fl_NoInlining OR fl_Expr),
     bc ''fast_instanceof'' 3 ''bii'' 0 '''' (fl_Exceptions OR fl_NoPatching OR fl_NeedsFrameExARM OR fl_Expr),
     bc ''fast_igetfield_1'' 2 ''bi'' 0 '''' (fl_NullCheck OR fl_Expr),
     bc ''fast_agetfield_1'' 2 ''bi'' 0 '''' (fl_NullCheck OR fl_Expr),
     bc ''aload_0_fast_agetfield_1'' 2 ''bi'' 0 '''' (fl_NullCheck OR fl_ExprStart),
     bc ''aload_0_fast_igetfield_1'' 2 ''bi'' 0 '''' (fl_NullCheck OR fl_ExprStart),
     bc ''pop_and_npe_if_null'' 1 ''b'' 0 '''' fl_NullCheck,
     bc ''init_static_array'' 0 '''' 0 '''' fl_None,
     bc ''aload_0_fast_agetfield_4'' 1 ''b'' 0 '''' (fl_Exceptions OR fl_ExprStart),
     bc ''aload_0_fast_igetfield_4'' 1 ''b'' 0 '''' (fl_Exceptions OR fl_ExprStart),
     bc ''aload_0_fast_agetfield_8'' 1 ''b'' 0 '''' (fl_Exceptions OR fl_ExprStart),
     bc ''aload_0_fast_igetfield_8'' 1 ''b'' 0 '''' (fl_Exceptions OR fl_ExprStart),
     bc ''fast_init_1_putstatic'' 3 ''bjj'' 0 '''' fl_Exceptions,
     bc ''fast_init_2_putstatic'' 3 ''bjj'' 0 '''' fl_Exceptions,
     bc ''fast_init_a_putstatic'' 3 ''bjj'' 0 '''' fl_Exceptions,
     bc ''fast_init_1_getstatic'' 3 ''bjj'' 0 '''' (fl_Exceptions OR fl_ExprStart),
     bc ''fast_init_2_getstatic'' 3 ''bjj'' 0 '''' fl_Exceptions,
     bc ''fast_init_invokestatic'' 3 ''bjj'' 0 '''' (fl_Exceptions OR fl_NoPatching),
     bc ''fast_init_new'' 3 ''bii'' 0 '''' (fl_Exceptions OR fl_NoPatching OR fl_CanRedo)]"

definition data :: "bytecode_data list" where
  "data = data_1 @ data_2 @ data_3"


section \<open>Attributes of a bytecode\<close>

definition is_defined :: "int \<Rightarrow> bool" where
  "is_defined code =
     (0 \<le> code \<and> code < int number_of_java_codes \<and> bd_length (data ! nat code) \<noteq> - 1)"

definition length_for_code :: "nat \<Rightarrow> int" where
  "length_for_code code = bd_length (data ! code)"

definition get_flags :: "nat \<Rightarrow> nat" where
  "get_flags code = bd_wide_length_and_flags (data ! code)"

definition wide_length_for_code :: "nat \<Rightarrow> int" where
  "wide_length_for_code code = int (get_flags code AND fl_WideLengthMask)"

definition wide_is_defined :: "int \<Rightarrow> bool" where
  "wide_is_defined code = (is_defined code \<and> wide_length_for_code (nat code) \<noteq> 0)"

definition can_fall_through :: "nat \<Rightarrow> bool" where
  "can_fall_through code = (get_flags code AND fl_NoFallThru = 0)"

definition can_throw_exceptions :: "nat \<Rightarrow> bool" where
  "can_throw_exceptions code = (get_flags code AND fl_Exceptions \<noteq> 0)"

text \<open>The lengths of the bytecodes whose length is in their operands.  The code
  stops in \<open>SHOULD_NOT_REACH_HERE\<close> for any other bytecode, and returns 0.\<close>

definition wide_length_for :: "code_mem \<Rightarrow> int \<Rightarrow> nat \<Rightarrow> int" where
  "wide_length_for m bci code =
     (if code = op_tableswitch then
        let a_bci = align_size_up (bci + 1) wordSize;
            lo = get_java_switch_int m (a_bci + wordSize);
            hi = get_java_switch_int m (a_bci + 2 * wordSize)
        in jint (a_bci + (3 + hi - lo + 1) * wordSize - bci)
      else if code = op_lookupswitch then
        let a_bci = align_size_up (bci + 1) wordSize;
            npairs = get_java_switch_int m (a_bci + wordSize)
        in jint (a_bci + (2 + 2 * npairs) * wordSize - bci)
      else if code = op_init_static_array then
        let size_factor = jint (2 ^ (nat (get_byte m (bci + 1)) mod 32));
            count = get_native_ushort m (bci + 2)
        in jint (4 + size_factor * count)
      else if code = op_wide then wide_length_for_code (bytecode_at m (bci + 1))
      else 0)"

definition length_for :: "code_mem \<Rightarrow> int \<Rightarrow> int" where
  "length_for m bci =
     (let code = bytecode_at m bci; sz = length_for_code code
      in if sz \<noteq> 0 then sz else wide_length_for m bci code)"

definition next_bci :: "code_mem \<Rightarrow> int \<Rightarrow> int" where
  "next_bci m bci = bci + length_for m bci"


section \<open>The self-check of the table\<close>

text \<open>\<open>Bytecodes::verify\<close>, the check a debug build runs when it starts: every
  bytecode's format string is as long as the bytecode, and exactly the bytecodes
  that end a basic block do not fall through.\<close>

definition verify_row :: "nat \<Rightarrow> bool" where
  "verify_row code =
     (let p = data ! code in
      (is_defined (int code) \<longrightarrow> int (size (bd_format p)) = length_for_code code) \<and>
      (wide_is_defined (int code) \<longrightarrow>
         int (size (bd_wide_format p)) = wide_length_for_code code) \<and>
      (is_defined (int code) \<longrightarrow>
        (if code = op_goto \<or> code = op_goto_w \<or> (op_ireturn \<le> code \<and> code \<le> op_return) \<or>
            code = op_ret \<or> code = op_tableswitch \<or> code = op_lookupswitch \<or>
            code = op_athrow \<or> code = op_fast_invokenative
         then \<not> can_fall_through code else can_fall_through code)))"

definition Bytecodes_verify :: bool where
  "Bytecodes_verify =
     (int number_of_java_codes - 1 \<le> 0xff \<and> list_all verify_row [0..<length data])"


section \<open>Evaluation of the table\<close>

lemma length_data: "length data = 253"
  by (simp add: data_def data_1_def data_2_def data_3_def)

lemma bd_length_data:
  "map bd_length data =
     [1, 1, 1, 1, 1, 1, 1, 1, 1, 1, 1, 1, 1, 1, 1, 1, 2, 3, 2, 3, 3, 2, 2, 2,
      2, 2, 1, 1, 1, 1, 1, 1, 1, 1, 1, 1, 1, 1, 1, 1, 1, 1, 1, 1, 1, 1, 1, 1,
      1, 1, 1, 1, 1, 1, 2, 2, 2, 2, 2, 1, 1, 1, 1, 1, 1, 1, 1, 1, 1, 1, 1, 1,
      1, 1, 1, 1, 1, 1, 1, 1, 1, 1, 1, 1, 1, 1, 1, 1, 1, 1, 1, 1, 1, 1, 1, 1,
      1, 1, 1, 1, 1, 1, 1, 1, 1, 1, 1, 1, 1, 1, 1, 1, 1, 1, 1, 1, 1, 1, 1, 1,
      1, 1, 1, 1, 1, 1, 1, 1, 1, 1, 1, 1, 3, 1, 1, 1, 1, 1, 1, 1, 1, 1, 1, 1,
      1, 1, 1, 1, 1, 1, 1, 1, 1, 3, 3, 3, 3, 3, 3, 3, 3, 3, 3, 3, 3, 3, 3, 3,
      - 1, - 1, 0, 0, 1, 1, 1, 1, 1, 1, 3, 3, 3, 3, 3, 3, 3, 5, - 1, 3, 2, 3, 1, 1,
      3, 3, 1, 1, 0, 4, 3, 3, 5, - 1, 1, 2, 3, 3, 3, 3, 3, 3, 3, 3, 3, 3, 3, 3,
      3, 3, 3, 3, 3, 3, 3, 3, 3, 3, 3, 3, 5, 8, 3, 3, 3, 3, 3, 3, 2, 2, 2, 2,
      1, 0, 1, 1, 1, 1, 3, 3, 3, 3, 3, 3, 3]"
  by (simp add: data_def data_1_def data_2_def data_3_def bc_def)

lemma length_for_code_nth:
  "c < 253 \<Longrightarrow> length_for_code c = map bd_length data ! c"
  by (simp add: length_for_code_def length_data)

lemma wide_length_data:
  "map (\<lambda>d. int (bd_wide_length_and_flags d AND fl_WideLengthMask)) data =
     [0, 0, 0, 0, 0, 0, 0, 0, 0, 0, 0, 0, 0, 0, 0, 0, 0, 0, 0, 0, 0, 4, 4, 4,
      4, 4, 0, 0, 0, 0, 0, 0, 0, 0, 0, 0, 0, 0, 0, 0, 0, 0, 0, 0, 0, 0, 0, 0,
      0, 0, 0, 0, 0, 0, 4, 4, 4, 4, 4, 0, 0, 0, 0, 0, 0, 0, 0, 0, 0, 0, 0, 0,
      0, 0, 0, 0, 0, 0, 0, 0, 0, 0, 0, 0, 0, 0, 0, 0, 0, 0, 0, 0, 0, 0, 0, 0,
      0, 0, 0, 0, 0, 0, 0, 0, 0, 0, 0, 0, 0, 0, 0, 0, 0, 0, 0, 0, 0, 0, 0, 0,
      0, 0, 0, 0, 0, 0, 0, 0, 0, 0, 0, 0, 6, 0, 0, 0, 0, 0, 0, 0, 0, 0, 0, 0,
      0, 0, 0, 0, 0, 0, 0, 0, 0, 0, 0, 0, 0, 0, 0, 0, 0, 0, 0, 0, 0, 0, 0, 0,
      0, 4, 0, 0, 0, 0, 0, 0, 0, 0, 0, 0, 0, 0, 0, 0, 0, 0, 0, 0, 0, 0, 0, 0,
      0, 0, 0, 0, 0, 0, 0, 0, 0, 0, 0, 0, 0, 0, 0, 0, 0, 0, 0, 0, 0, 0, 0, 0,
      0, 0, 0, 0, 0, 0, 0, 0, 0, 0, 0, 0, 0, 0, 0, 0, 0, 0, 0, 0, 0, 0, 0, 0,
      0, 0, 0, 0, 0, 0, 0, 0, 0, 0, 0, 0, 0]"
  by (simp add: data_def data_1_def data_2_def data_3_def bc_def)

lemma wide_length_for_code_nth:
  "c < 253 \<Longrightarrow> wide_length_for_code c =
     map (\<lambda>d. int (bd_wide_length_and_flags d AND fl_WideLengthMask)) data ! c"
  by (simp add: wide_length_for_code_def get_flags_def length_data)

text \<open>The columns of the table, for the evaluation of concrete code.\<close>

lemma length_for_code_code [code]:
  "length_for_code c = (if c < 253 then
     [1, 1, 1, 1, 1, 1, 1, 1, 1, 1, 1, 1, 1, 1, 1, 1, 2, 3, 2, 3, 3, 2, 2, 2,
      2, 2, 1, 1, 1, 1, 1, 1, 1, 1, 1, 1, 1, 1, 1, 1, 1, 1, 1, 1, 1, 1, 1, 1,
      1, 1, 1, 1, 1, 1, 2, 2, 2, 2, 2, 1, 1, 1, 1, 1, 1, 1, 1, 1, 1, 1, 1, 1,
      1, 1, 1, 1, 1, 1, 1, 1, 1, 1, 1, 1, 1, 1, 1, 1, 1, 1, 1, 1, 1, 1, 1, 1,
      1, 1, 1, 1, 1, 1, 1, 1, 1, 1, 1, 1, 1, 1, 1, 1, 1, 1, 1, 1, 1, 1, 1, 1,
      1, 1, 1, 1, 1, 1, 1, 1, 1, 1, 1, 1, 3, 1, 1, 1, 1, 1, 1, 1, 1, 1, 1, 1,
      1, 1, 1, 1, 1, 1, 1, 1, 1, 3, 3, 3, 3, 3, 3, 3, 3, 3, 3, 3, 3, 3, 3, 3,
      - 1, - 1, 0, 0, 1, 1, 1, 1, 1, 1, 3, 3, 3, 3, 3, 3, 3, 5, - 1, 3, 2, 3, 1, 1,
      3, 3, 1, 1, 0, 4, 3, 3, 5, - 1, 1, 2, 3, 3, 3, 3, 3, 3, 3, 3, 3, 3, 3, 3,
      3, 3, 3, 3, 3, 3, 3, 3, 3, 3, 3, 3, 5, 8, 3, 3, 3, 3, 3, 3, 2, 2, 2, 2,
      1, 0, 1, 1, 1, 1, 3, 3, 3, 3, 3, 3, 3] ! c else bd_length (data ! c))"
  unfolding length_for_code_def by (subst bd_length_data [symmetric]) (simp add: length_data)

lemma wide_length_for_code_code [code]:
  "wide_length_for_code c = (if c < 253 then
     [0, 0, 0, 0, 0, 0, 0, 0, 0, 0, 0, 0, 0, 0, 0, 0, 0, 0, 0, 0, 0, 4, 4, 4,
      4, 4, 0, 0, 0, 0, 0, 0, 0, 0, 0, 0, 0, 0, 0, 0, 0, 0, 0, 0, 0, 0, 0, 0,
      0, 0, 0, 0, 0, 0, 4, 4, 4, 4, 4, 0, 0, 0, 0, 0, 0, 0, 0, 0, 0, 0, 0, 0,
      0, 0, 0, 0, 0, 0, 0, 0, 0, 0, 0, 0, 0, 0, 0, 0, 0, 0, 0, 0, 0, 0, 0, 0,
      0, 0, 0, 0, 0, 0, 0, 0, 0, 0, 0, 0, 0, 0, 0, 0, 0, 0, 0, 0, 0, 0, 0, 0,
      0, 0, 0, 0, 0, 0, 0, 0, 0, 0, 0, 0, 6, 0, 0, 0, 0, 0, 0, 0, 0, 0, 0, 0,
      0, 0, 0, 0, 0, 0, 0, 0, 0, 0, 0, 0, 0, 0, 0, 0, 0, 0, 0, 0, 0, 0, 0, 0,
      0, 4, 0, 0, 0, 0, 0, 0, 0, 0, 0, 0, 0, 0, 0, 0, 0, 0, 0, 0, 0, 0, 0, 0,
      0, 0, 0, 0, 0, 0, 0, 0, 0, 0, 0, 0, 0, 0, 0, 0, 0, 0, 0, 0, 0, 0, 0, 0,
      0, 0, 0, 0, 0, 0, 0, 0, 0, 0, 0, 0, 0, 0, 0, 0, 0, 0, 0, 0, 0, 0, 0, 0,
      0, 0, 0, 0, 0, 0, 0, 0, 0, 0, 0, 0, 0] ! c else int (get_flags c AND fl_WideLengthMask))"
  unfolding wide_length_for_code_def get_flags_def
  by (subst wide_length_data [symmetric]) (simp add: length_data)

lemma is_defined_code [code]:
  "is_defined c = (0 \<le> c \<and> c < int number_of_java_codes \<and> length_for_code (nat c) \<noteq> - 1)"
  by (simp add: is_defined_def length_for_code_def)

lemma nth_enumerate_all:
  "(\<And>i r. (i, r) \<in> set (enumerate 0 xs) \<Longrightarrow> P i r) \<Longrightarrow> k < length xs \<Longrightarrow> P k (xs ! k)"
  by (simp add: in_set_enumerate_eq)

lemma verify_row_data: "list_all (\<lambda>(i, r).
    (bd_length r \<noteq> - 1 \<longrightarrow>
       int (size (bd_format r)) = bd_length r \<and>
       (bd_wide_length_and_flags r AND fl_WideLengthMask \<noteq> 0 \<longrightarrow>
          size (bd_wide_format r) = bd_wide_length_and_flags r AND fl_WideLengthMask) \<and>
       (bd_wide_length_and_flags r AND fl_NoFallThru \<noteq> 0) =
          (i = op_goto \<or> i = op_goto_w \<or> (op_ireturn \<le> i \<and> i \<le> op_return) \<or>
           i = op_ret \<or> i = op_tableswitch \<or> i = op_lookupswitch \<or>
           i = op_athrow \<or> i = op_fast_invokenative))) (enumerate 0 data)"
  by (simp add: data_def data_1_def data_2_def data_3_def bc_def)

lemma verify_row_holds: "code < length data \<Longrightarrow> verify_row code"
proof -
  assume *: "code < length data"
  have "(code, data ! code) \<in> set (enumerate 0 data)"
    using * by (simp add: in_set_enumerate_eq)
  from verify_row_data [unfolded list_all_iff, rule_format, OF this]
  show ?thesis
    unfolding verify_row_def wide_is_defined_def is_defined_def length_for_code_def
      wide_length_for_code_def get_flags_def can_fall_through_def Let_def
    by (auto simp: number_of_java_codes_def)
qed

lemma Code_enum_names: "map fst Code_enum = map bd_name data"
  by (simp add: Code_enum_def Code_java_1_def Code_java_2_def Code_private_def
      data_def data_1_def data_2_def data_3_def bc_def)

lemma Code_enum_numbers: "map snd Code_enum = [0..<number_of_java_codes]"
  by (simp add: Code_enum_def Code_java_1_def Code_java_2_def Code_private_def
      number_of_java_codes_def upt_rec)

section \<open>Properties\<close>

text \<open>the self-check of the bytecode table succeeds: every defined bytecode is as long as
  its format string, in its wide form too, and exactly the bytecodes that end a basic block
  do not fall through.\<close>

theorem Bytecodes_verify_succeeds: "Bytecodes_verify"
  by (simp add: Bytecodes_verify_def list_all_iff verify_row_holds number_of_java_codes_def)

text \<open>the enumeration of the bytecodes numbers the rows of the table in order: the
  bytecode with number \<open>k\<close> is described by row \<open>k\<close>.\<close>

theorem Code_enum_matches_table:
  "map fst Code_enum = map bd_name data \<and> map snd Code_enum = [0..<number_of_java_codes]"
  using Code_enum_names Code_enum_numbers by simp

end
