(* ===== verification/Check_Bytecodes.thy ===== *)
theory Check_Bytecodes
  imports Bytecodes
begin

text \<open>
  \<open>Method::check_bytecodes\<close> (\<open>Method.cpp\<close>): the pass over the code of a method
  that the class loader makes before anything else reads it.  It rejects bytes
  that are no instruction, checks the layout of the switches, swaps their words
  into the byte order of the machine, and computes the flags and the final stack
  size of the method.

  The loop keeps the pointer \<open>bcptr\<close> and a byte code index \<open>bci\<close> that only the
  slow path brings up to date; both are fields of the state here, because the
  bound that is checked after the loop is one on \<open>bci\<close>.
\<close>

section \<open>The switches\<close>

definition is_zero_padding :: "code_mem \<Rightarrow> int \<Rightarrow> int \<Rightarrow> bool" where
  "is_zero_padding m bci a_bci =
     list_all (\<lambda>offset. get_ubyte m offset = 0) [bci + 1 .. a_bci - 1]"

text \<open>A word of the class file, read as the machine reads it and then swapped.\<close>

definition raw_switch_int :: "code_mem \<Rightarrow> int \<Rightarrow> int" where
  "raw_switch_int m offset = sint (swap_u4 (get_native_aligned_int m offset))"

definition switch_fields :: "code_mem \<Rightarrow> int \<Rightarrow> nat \<Rightarrow> int \<Rightarrow> error_tag + int" where
  "switch_fields m codesize code a_bci =
     (if code = op_tableswitch then
        (if a_bci + 3 * wordSize > codesize then Inl illegal_code
         else let raw_lo = raw_switch_int m (a_bci + wordSize);
                  raw_hi = raw_switch_int m (a_bci + 2 * wordSize)
              in if raw_lo > raw_hi \<or> jint (raw_hi - raw_lo) < 0 then Inl illegal_code
                 else Inr (jint (3 + raw_hi - raw_lo + 1)))
      else let raw_npairs = raw_switch_int m (a_bci + wordSize)
           in if raw_npairs < 0 \<or> jint (2 * raw_npairs) < 0 then Inl illegal_code
              else Inr (jint (2 + 2 * raw_npairs)))"

function swap_switch_words :: "int \<Rightarrow> int \<Rightarrow> code_mem \<Rightarrow> code_mem" where
  "swap_switch_words switch_end offset m =
     (if offset < switch_end
      then swap_switch_words switch_end (offset + wordSize)
             (put_native_aligned_int m offset (swap_u4 (get_native_aligned_int m offset)))
      else m)"
  by pat_completeness auto

termination
  by (relation "measure (\<lambda>(switch_end, offset, m). nat (switch_end - offset))")
    (auto simp: wordSize_def)

declare swap_switch_words.simps [simp del]

definition check_switch :: "code_mem \<Rightarrow> int \<Rightarrow> nat \<Rightarrow> int \<Rightarrow> error_tag + code_mem" where
  "check_switch m codesize code bci =
     (let a_bci = align_size_up (bci + 1) wordSize
      in if a_bci + 2 * wordSize > codesize then Inl illegal_code
         else if \<not> is_zero_padding m bci a_bci then Inl illegal_code
         else jvm_check (switch_fields m codesize code a_bci) (\<lambda>nfields.
           let switch_end = jint (a_bci + nfields * wordSize)
           in if switch_end \<ge> codesize \<or> nfields < 0 \<or> nfields > codesize then Inl illegal_code
              else Inr (swap_switch_words switch_end a_bci m)))"


section \<open>The loop\<close>

record check_state =
  ck_mem :: code_mem
  ck_ptr :: int
  ck_bci :: int
  ck_has_monitor :: bool
  ck_has_invoke :: bool
  ck_numlocks :: nat

definition check_opcode :: "int \<Rightarrow> nat \<Rightarrow> int \<Rightarrow> check_state \<Rightarrow> error_tag + check_state" where
  "check_opcode codesize code bci s =
     (if code = op_monitorenter then
        Inr (s\<lparr>ck_numlocks := ck_numlocks s + 1, ck_has_monitor := True\<rparr>)
      else if code = op_monitorexit then Inr (s\<lparr>ck_has_monitor := True\<rparr>)
      else if code = op_invokeinterface \<or> code = op_invokestatic \<or>
              code = op_invokespecial \<or> code = op_invokevirtual then
        Inr (s\<lparr>ck_has_invoke := True\<rparr>)
      else if code = op_lookupswitch \<or> code = op_tableswitch then
        jvm_check (check_switch (ck_mem s) codesize code bci) (\<lambda>m. Inr (s\<lparr>ck_mem := m\<rparr>))
      else Inr s)"

definition check_advance :: "int \<Rightarrow> int \<Rightarrow> check_state \<Rightarrow> check_state" where
  "check_advance bci bytecode_length s =
     s\<lparr>ck_bci := bci + bytecode_length, ck_ptr := ck_ptr s + bytecode_length\<rparr>"

definition check_step :: "int \<Rightarrow> check_state \<Rightarrow> error_tag + check_state" where
  "check_step codesize s =
     (let code = bytecode_at (ck_mem s) (ck_ptr s)
      in if code < op_tableswitch then
           (let bytecode_length = length_for_code code
            in if bytecode_length < 0 then Inl illegal_code
               else Inr (s\<lparr>ck_ptr := ck_ptr s + bytecode_length\<rparr>))
         else let bci = ck_ptr s
         in if code \<ge> op_breakpoint \<or> \<not> is_defined (int code) then Inl illegal_code
            else if code = op_wide then
              (if bci + 1 \<ge> codesize then Inl illegal_code
               else let code' = bytecode_at (ck_mem s) (bci + 1)
               in if \<not> is_defined (int code') then Inl illegal_code
                  else if wide_length_for_code code' = 0 then Inl illegal_wide_code
                  else Inr (check_advance bci (wide_length_for_code code') s))
            else jvm_check (check_opcode codesize code bci s) (\<lambda>s'.
              let bytecode_length = length_for (ck_mem s') bci
              in if bytecode_length = - 1 then Inl illegal_code
                 else Inr (check_advance bci bytecode_length s')))"

fun check_loop :: "nat \<Rightarrow> int \<Rightarrow> check_state \<Rightarrow> (error_tag + check_state) option" where
  "check_loop 0 codesize s = None"
| "check_loop (Suc fuel) codesize s =
     (if ck_ptr s < codesize
      then case check_step codesize s of
             Inl e \<Rightarrow> Some (Inl e)
           | Inr s' \<Rightarrow> check_loop fuel codesize s'
      else Some (Inr s))"


section \<open>The whole pass\<close>

text \<open>\<open>StackLock::size()\<close>: three words of the lock, three of the copied near; the
  division by \<open>sizeof(jobject)\<close> turns bytes into words.\<close>

definition StackLock_size :: nat where "StackLock_size = 3 * 4 + 3 * 4"

definition lock_words :: "nat \<Rightarrow> nat" where
  "lock_words numlocks = numlocks * ((4 + StackLock_size) div 4)"

record method_code =
  mc_native_or_abstract :: bool
  mc_code :: code_mem
  mc_code_size :: int
  mc_max_execution_stack_count :: nat
  mc_has_monitor_bytecodes :: bool
  mc_has_invoke_bytecodes :: bool

definition finish_check :: "method_code \<Rightarrow> check_state \<Rightarrow> error_tag + method_code" where
  "finish_check method s =
     (if ck_bci s > mc_code_size method then Inl illegal_code
      else let stack = lock_words (ck_numlocks s) + mc_max_execution_stack_count method
      in if ck_has_monitor s \<and> stack > 0xffff then Inl out_of_memory_error
         else Inr (method\<lparr>
           mc_code := ck_mem s,
           mc_max_execution_stack_count :=
             (if ck_has_monitor s then stack else mc_max_execution_stack_count method),
           mc_has_monitor_bytecodes := mc_has_monitor_bytecodes method \<or> ck_has_monitor s,
           mc_has_invoke_bytecodes := mc_has_invoke_bytecodes method \<or> ck_has_invoke s\<rparr>))"

definition check_start :: "code_mem \<Rightarrow> check_state" where
  "check_start m = \<lparr>ck_mem = m, ck_ptr = 0, ck_bci = 0, ck_has_monitor = False,
     ck_has_invoke = False, ck_numlocks = 0\<rparr>"

text \<open>Every round moves \<open>bcptr\<close> by at least one byte, so \<open>codesize + 1\<close> rounds are
  enough (\<open>check_loop_fuel\<close> below).\<close>

definition check_bytecodes :: "method_code \<Rightarrow> (error_tag + method_code) option" where
  "check_bytecodes method =
     (if mc_native_or_abstract method then Some (Inr method)
      else map_option (\<lambda>r. jvm_check r (finish_check method))
        (check_loop (nat (mc_code_size method) + 1) (mc_code_size method)
          (check_start (mc_code method))))"

section \<open>Lemmas\<close>

lemma swap_switch_words_before:
  "q < offset \<Longrightarrow> swap_switch_words switch_end offset m q = m q"
proof (induction switch_end offset m rule: swap_switch_words.induct)
  case (1 switch_end offset m)
  then show ?case
    by (subst swap_switch_words.simps)
      (auto simp: wordSize_def put_native_aligned_int_def put_native_u4_other)
qed

lemma swap_switch_words_after:
  "(switch_end - offset) mod 4 = 0 \<Longrightarrow> switch_end \<le> q \<Longrightarrow>
     swap_switch_words switch_end offset m q = m q"
proof (induction switch_end offset m rule: swap_switch_words.induct)
  case (1 switch_end offset m)
  have "(switch_end - (offset + 4)) mod 4 = 0" using 1(2) by presburger
  moreover have "offset + 4 \<le> switch_end" if "offset < switch_end"
    using 1(2) that by presburger
  ultimately show ?case
    using 1(1,3)
    by (subst swap_switch_words.simps)
      (auto simp: wordSize_def put_native_aligned_int_def put_native_u4_other)
qed

lemma swap_switch_words_word:
  "(switch_end - offset) mod 4 = 0 \<Longrightarrow> (p - offset) mod 4 = 0 \<Longrightarrow> offset \<le> p \<Longrightarrow> p < switch_end \<Longrightarrow>
     get_native_u4 (swap_switch_words switch_end offset m) p = swap_u4 (get_native_u4 m p)"
proof (induction switch_end offset m rule: swap_switch_words.induct)
  case (1 switch_end offset m)
  define m' where "m' = put_native_u4 m offset (swap_u4 (get_native_u4 m offset))"
  have step: "swap_switch_words switch_end offset m = swap_switch_words switch_end (offset + 4) m'"
    using 1(4,5) unfolding m'_def
    by (subst swap_switch_words.simps)
      (simp add: wordSize_def put_native_aligned_int_def get_native_aligned_int_def)
  show ?case
  proof (cases "p = offset")
    case True
    have "get_native_u4 (swap_switch_words switch_end (offset + 4) m') p = get_native_u4 m' p"
      by (simp add: get_native_u4_def swap_switch_words_before True)
    then show ?thesis by (simp add: step m'_def True)
  next
    case False
    then have p: "offset + 4 \<le> p" using 1(3,4) by presburger
    have "get_native_u4 (swap_switch_words switch_end (offset + 4) m') p = swap_u4 (get_native_u4 m' p)"
    proof -
      have lt: "offset < switch_end" using 1(4,5) by simp
      have "(switch_end - (offset + 4)) mod 4 = 0" "(p - (offset + 4)) mod 4 = 0"
        using 1(2,3) by presburger+
      from 1(1) [unfolded wordSize_def put_native_aligned_int_def get_native_aligned_int_def,
          OF lt this p 1(5)]
      show ?thesis unfolding m'_def .
    qed
    also have "get_native_u4 m' p = get_native_u4 m p"
      using p by (simp add: m'_def get_put_native_u4_other)
    finally show ?thesis by (simp add: step)
  qed
qed

lemma raw_switch_int_java: "raw_switch_int m p = get_java_int m p"
  by (simp add: raw_switch_int_def get_java_int_def get_Java_u4_swap get_native_aligned_int_def)

lemma raw_switch_int_range: "jint_min \<le> raw_switch_int m p" "raw_switch_int m p \<le> jint_max"
  using sint_ge [of "swap_u4 (get_native_aligned_int m p)"] sint_lt [of "swap_u4 (get_native_aligned_int m p)"]
  by (simp_all add: raw_switch_int_def)

lemma get_java_switch_int_swapped:
  "(switch_end - offset) mod 4 = 0 \<Longrightarrow> (p - offset) mod 4 = 0 \<Longrightarrow> offset \<le> p \<Longrightarrow> p < switch_end \<Longrightarrow>
     get_java_switch_int (swap_switch_words switch_end offset m) p = get_java_int m p"
  by (simp add: get_java_switch_int_def get_native_aligned_int_def swap_switch_words_word
      get_java_int_def get_Java_u4_swap)

text \<open>The number of nfields, when the tests that follow accept it, is the exact one.\<close>

lemma switch_fields_exact:
  assumes "switch_fields m codesize code a_bci = Inr nfields" "0 \<le> nfields"
  shows "nfields = (if code = op_tableswitch
           then 3 + get_java_int m (a_bci + 8) - get_java_int m (a_bci + 4) + 1
           else 2 + 2 * get_java_int m (a_bci + 4))"
    and "code = op_tableswitch \<Longrightarrow> get_java_int m (a_bci + 4) \<le> get_java_int m (a_bci + 8)"
    and "code = op_tableswitch \<Longrightarrow> a_bci + 12 \<le> codesize"
    and "2 \<le> nfields"
proof -
  define x where "x = get_java_int m (a_bci + 4)"
  define y where "y = get_java_int m (a_bci + 8)"
  have x: "jint_min \<le> x" "x \<le> jint_max" and y: "jint_min \<le> y" "y \<le> jint_max"
    using raw_switch_int_range [of m "a_bci + 4"] raw_switch_int_range [of m "a_bci + 8"]
    by (simp_all add: x_def y_def raw_switch_int_java)
  have "nfields = (if code = op_tableswitch then 3 + y - x + 1 else 2 + 2 * x) \<and>
      (code = op_tableswitch \<longrightarrow> x \<le> y) \<and> (code = op_tableswitch \<longrightarrow> a_bci + 12 \<le> codesize) \<and>
      2 \<le> nfields"
  proof (cases "code = op_tableswitch")
    case True
    then have ab: "a_bci + 12 \<le> codesize" and le: "x \<le> y" and nn: "0 \<le> jint (y - x)" and
      f: "nfields = jint (3 + y - x + 1)"
      using assms(1) by (auto simp: switch_fields_def wordSize_def raw_switch_int_java Let_def
          x_def y_def split: if_splits)
    have small: "y - x \<le> jint_max"
      using jint_overflow_high [of "y - x"] nn x y by linarith
    have "3 + y - x + 1 \<le> jint_max"
      using jint_overflow_high [of "3 + y - x + 1"] small f assms(2) by linarith
    then have "nfields = 3 + y - x + 1" using f le by (simp add: jint_id)
    with True ab le show ?thesis by simp
  next
    case False
    then have le: "0 \<le> x" and nn: "0 \<le> jint (2 * x)" and f: "nfields = jint (2 + 2 * x)"
      using assms(1) by (auto simp: switch_fields_def wordSize_def raw_switch_int_java Let_def
          x_def split: if_splits)
    have small: "2 * x \<le> jint_max"
    proof (rule ccontr)
      assume "\<not> 2 * x \<le> jint_max"
      with x(2) jint_overflow_high [of "2 * x"] nn show False by linarith
    qed
    have "2 + 2 * x \<le> jint_max"
      using jint_overflow_high [of "2 + 2 * x"] small f assms(2) by linarith
    then have "nfields = 2 + 2 * x" using f le by (simp add: jint_id)
    with False le show ?thesis by simp
  qed
  then show "nfields = (if code = op_tableswitch
           then 3 + get_java_int m (a_bci + 8) - get_java_int m (a_bci + 4) + 1
           else 2 + 2 * get_java_int m (a_bci + 4))"
    "code = op_tableswitch \<Longrightarrow> get_java_int m (a_bci + 4) \<le> get_java_int m (a_bci + 8)"
    "code = op_tableswitch \<Longrightarrow> a_bci + 12 \<le> codesize"
    "2 \<le> nfields"
    by (simp_all add: x_def y_def)
qed

text \<open>An accepted switch: its words lie inside the code, at least one byte of the code
  follows them, the swapped words read as the class file has them, and no other byte has changed.\<close>

lemma check_switch_ok:
  assumes "check_switch m codesize code bci = Inr m'" "0 \<le> bci" "codesize \<le> 65535"
    "code = op_tableswitch \<or> code = op_lookupswitch"
  defines "a_bci \<equiv> align_size_up (bci + 1) 4"
  obtains switch_end where
    "switch_end = bci + wide_length_for m' bci code"
    "a_bci + 8 \<le> switch_end" "switch_end < codesize"
    "\<And>q. q < a_bci \<or> switch_end \<le> q \<Longrightarrow> m' q = m q"
    "\<And>p. (p - a_bci) mod 4 = 0 \<Longrightarrow> a_bci \<le> p \<Longrightarrow> p < switch_end \<Longrightarrow>
       get_java_switch_int m' p = get_java_int m p"
    "code = op_tableswitch \<Longrightarrow>
       get_java_switch_int m' (a_bci + 4) \<le> get_java_switch_int m' (a_bci + 8)"
    "is_zero_padding m bci a_bci"
    "code = op_tableswitch \<Longrightarrow> a_bci + 12 < switch_end"
    "code = op_tableswitch \<Longrightarrow>
       get_java_switch_int m' (a_bci + 8) - get_java_switch_int m' (a_bci + 4) \<le> 65535"
proof -
  from assms(1) obtain nfields where f: "switch_fields m codesize code a_bci = Inr nfields"
    and j: "jint (a_bci + nfields * 4) < codesize" and nn: "0 \<le> nfields" "nfields \<le> codesize"
    and m': "m' = swap_switch_words (jint (a_bci + nfields * 4)) a_bci m"
    and pad: "is_zero_padding m bci a_bci" and fit: "a_bci + 8 \<le> codesize"
    by (auto simp: check_switch_def a_bci_def wordSize_def Let_def jvm_check_Inr_iff split: if_splits)
  define e where "e = a_bci + nfields * 4"
  have a: "bci < a_bci" "a_bci \<le> bci + 4" "a_bci mod 4 = 0"
    using align_size_up_bounds [of "bci + 1"] unfolding a_bci_def by linarith+
  have je: "jint (a_bci + nfields * 4) = e"
    unfolding e_def using a assms(2,3) nn fit by (intro jint_id) linarith+
  note ex = switch_fields_exact [OF f nn(1)]
  have e8: "a_bci + 8 \<le> e" using ex(4) unfolding e_def by linarith
  have e12: "a_bci + 12 < e" if "code = op_tableswitch"
    using ex(1,2) that unfolding e_def by simp
  have m'e: "m' = swap_switch_words e a_bci m" by (simp add: m' je)
  have emod: "(e - a_bci) mod 4 = 0" by (simp add: e_def)
  have word: "get_java_switch_int m' p = get_java_int m p"
    if "(p - a_bci) mod 4 = 0" "a_bci \<le> p" "p < e" for p
    unfolding m'e by (rule get_java_switch_int_swapped [OF emod that])
  have w4: "get_java_switch_int m' (a_bci + 4) = get_java_int m (a_bci + 4)"
    by (rule word) (use e8 in simp_all)
  have w8: "get_java_switch_int m' (a_bci + 8) = get_java_int m (a_bci + 8)" if "code = op_tableswitch"
    by (rule word) (use e12 [OF that] in simp_all)
  have "e = bci + wide_length_for m' bci code"
  proof (cases "code = op_tableswitch")
    case True
    have fe: "3 + get_java_int m (a_bci + 8) - get_java_int m (a_bci + 4) + 1 = nfields"
      using ex(1) True by simp
    have "wide_length_for m' bci code = jint (e - bci)"
      using True w4 w8 [OF True] fe
      unfolding wide_length_for_def Let_def wordSize_def a_bci_def [symmetric] e_def by simp
    also have "\<dots> = e - bci" using a assms(2,3) nn fit unfolding e_def by (intro jint_id) linarith+
    finally show ?thesis by simp
  next
    case False
    have fe: "2 + 2 * get_java_int m (a_bci + 4) = nfields"
      using ex(1) False by simp
    have "wide_length_for m' bci code = jint (e - bci)"
      using False assms(4) w4 fe
      unfolding wide_length_for_def Let_def wordSize_def a_bci_def [symmetric] e_def by simp
    also have "\<dots> = e - bci" using a assms(2,3) nn fit unfolding e_def by (intro jint_id) linarith+
    finally show ?thesis by simp
  qed
  moreover have "m' q = m q" if "q < a_bci \<or> e \<le> q" for q
    using that swap_switch_words_before swap_switch_words_after [OF emod] unfolding m'e by blast
  moreover have "get_java_int m (a_bci + 8) - get_java_int m (a_bci + 4) \<le> 65535" if "code = op_tableswitch"
    using ex(1) nn(2) assms(3) that by simp
  ultimately show thesis
    using that [of e] e8 e12 j je word pad w4 w8 ex(2) by simp
qed

lemma is_defined_nth: "c < 253 \<Longrightarrow> is_defined (int c) \<longleftrightarrow> map bd_length data ! c \<noteq> - 1"
  by (simp add: is_defined_def number_of_java_codes_def length_data)

lemma code_lengths_positive:
  assumes "c < op_breakpoint" "is_defined (int c)"
  shows "0 \<le> length_for_code c"
    and "length_for_code c = 0 \<Longrightarrow> c = op_tableswitch \<or> c = op_lookupswitch \<or> c = op_wide"
proof -
  have "list_all (\<lambda>c. map bd_length data ! c \<noteq> - 1 \<longrightarrow> 0 \<le> map bd_length data ! c \<and>
          (map bd_length data ! c = 0 \<longrightarrow> c = op_tableswitch \<or> c = op_lookupswitch \<or> c = op_wide)) [0..<op_breakpoint]"
    unfolding bd_length_data by (simp add: upt_rec)
  with assms show "0 \<le> length_for_code c"
    and "length_for_code c = 0 \<Longrightarrow> c = op_tableswitch \<or> c = op_lookupswitch \<or> c = op_wide"
    by (auto simp: list_all_iff length_for_code_nth is_defined_nth)
qed

lemma fast_codes_length:
  assumes "c < op_tableswitch" "0 \<le> length_for_code c"
  shows "is_defined (int c)" "0 < length_for_code c"
proof -
  have "list_all (\<lambda>c. 0 \<le> map bd_length data ! c \<longrightarrow> 0 < map bd_length data ! c) [0..<op_tableswitch]"
    unfolding bd_length_data by (simp add: upt_rec)
  with assms show "is_defined (int c)" "0 < length_for_code c"
    by (auto simp: list_all_iff length_for_code_nth is_defined_nth)
qed

lemma wide_length_at_least:
  assumes "wide_is_defined (int c)"
  shows "4 \<le> wide_length_for_code c"
proof -
  have "list_all (\<lambda>c. map (\<lambda>d. int (bd_wide_length_and_flags d AND fl_WideLengthMask)) data ! c \<noteq> 0 \<longrightarrow>
      4 \<le> map (\<lambda>d. int (bd_wide_length_and_flags d AND fl_WideLengthMask)) data ! c) [0..<253]"
    unfolding wide_length_data by (simp add: upt_rec)
  moreover have "c < 253" "wide_length_for_code c \<noteq> 0"
    using assms by (simp_all add: wide_is_defined_def is_defined_def number_of_java_codes_def)
  ultimately show ?thesis
    by (auto simp: list_all_iff wide_length_for_code_nth)
qed

section \<open>What the accepted code is\<close>

text \<open>A byte code index at which a legal instruction of the rewritten code starts.\<close>

definition legal_instruction :: "code_mem \<Rightarrow> int \<Rightarrow> int \<Rightarrow> bool" where
  "legal_instruction m codesize bci =
     (let code = bytecode_at m bci; a_bci = align_size_up (bci + 1) wordSize in
      code < op_breakpoint \<and> is_defined (int code) \<and> 0 < length_for m bci \<and>
      (code = op_wide \<longrightarrow> bci + 1 < codesize \<and> wide_is_defined (int (bytecode_at m (bci + 1)))) \<and>
      (code = op_tableswitch \<or> code = op_lookupswitch \<longrightarrow>
         is_zero_padding m bci a_bci \<and> a_bci + 2 * wordSize \<le> next_bci m bci \<and>
         next_bci m bci < codesize) \<and>
      (code = op_tableswitch \<longrightarrow>
         get_java_switch_int m (a_bci + wordSize) \<le> get_java_switch_int m (a_bci + 2 * wordSize) \<and>
         get_java_switch_int m (a_bci + 2 * wordSize) - get_java_switch_int m (a_bci + wordSize) \<le> 65535 \<and>
         a_bci + 3 * wordSize < next_bci m bci))"

inductive decodes :: "code_mem \<Rightarrow> int \<Rightarrow> int \<Rightarrow> bool" for m codesize where
  decodes_end: "codesize \<le> bci \<Longrightarrow> decodes m codesize bci"
| decodes_next: "bci < codesize \<Longrightarrow> legal_instruction m codesize bci \<Longrightarrow>
    decodes m codesize (next_bci m bci) \<Longrightarrow> decodes m codesize bci"

inductive_cases decodesE: "decodes m codesize bci"

text \<open>The instruction at \<open>bci\<close> depends on its own bytes only.\<close>

lemma legal_instruction_cong:
  assumes "\<And>q. bci \<le> q \<Longrightarrow> q < next_bci m bci \<Longrightarrow> m' q = m q" "legal_instruction m codesize bci"
  shows "next_bci m' bci = next_bci m bci" "legal_instruction m' codesize bci"
proof -
  define code where "code = bytecode_at m bci"
  define a_bci where "a_bci = align_size_up (bci + 1) wordSize"
  have a: "bci < a_bci" using align_size_up_bounds [of "bci + 1"] by (simp add: a_bci_def wordSize_def)
  have pos: "bci < next_bci m bci" using assms(2) by (simp add: legal_instruction_def Let_def next_bci_def)
  have c: "bytecode_at m' bci = code" using assms(1) [of bci] pos by (simp add: code_def bytecode_at_def)
  have legal: "code < op_breakpoint" "is_defined (int code)" "0 < length_for m bci"
    using assms(2) by (simp_all add: legal_instruction_def Let_def code_def)
  consider (plain) "length_for_code code \<noteq> 0" | (wide) "code = op_wide" "length_for_code code = 0"
    | (switch) "code = op_tableswitch \<or> code = op_lookupswitch" "length_for_code code = 0"
    using code_lengths_positive [OF legal(1,2)] by blast
  then have "next_bci m' bci = next_bci m bci \<and> legal_instruction m' codesize bci"
  proof cases
    case plain
    have "code \<noteq> op_wide \<and> code \<noteq> op_tableswitch \<and> code \<noteq> op_lookupswitch"
      using plain by (auto simp: length_for_code_nth bd_length_data)
    then show ?thesis using plain c legal
      by (simp add: next_bci_def length_for_def legal_instruction_def Let_def code_def)
  next
    case wide
    define inner where "inner = bytecode_at m (bci + 1)"
    have w: "bci + 1 < codesize" "wide_is_defined (int inner)"
      using assms(2) wide(1) by (simp_all add: legal_instruction_def Let_def code_def inner_def)
    have len: "length_for m bci = wide_length_for_code inner"
      using wide by (simp add: length_for_def wide_length_for_def Let_def code_def inner_def)
    then have "bci + 1 < next_bci m bci" using wide_length_at_least [OF w(2)] by (simp add: next_bci_def)
    then have i: "bytecode_at m' (bci + 1) = inner"
      using assms(1) [of "bci + 1"] by (simp add: bytecode_at_def inner_def)
    have len': "length_for m' bci = wide_length_for_code inner"
      using wide c i by (simp add: length_for_def wide_length_for_def Let_def)
    show ?thesis using wide w c i len len' legal
      by (simp add: next_bci_def legal_instruction_def Let_def)
  next
    case switch
    have s: "is_zero_padding m bci a_bci" "a_bci + 8 \<le> next_bci m bci" "next_bci m bci < codesize"
      "code = op_tableswitch \<Longrightarrow>
         get_java_switch_int m (a_bci + 4) \<le> get_java_switch_int m (a_bci + 8) \<and>
         get_java_switch_int m (a_bci + 8) - get_java_switch_int m (a_bci + 4) \<le> 65535 \<and>
         a_bci + 12 < next_bci m bci"
      using assms(2) switch(1) unfolding legal_instruction_def Let_def code_def [symmetric] a_bci_def [symmetric]
      by (simp_all add: wordSize_def)
    have w: "get_java_switch_int m' p = get_java_switch_int m p"
      if "bci \<le> p" "p + 4 \<le> next_bci m bci" for p
      using that assms(1) by (simp add: get_java_switch_int_def get_native_aligned_int_def get_native_u4_def)
    have w4: "get_java_switch_int m' (a_bci + 4) = get_java_switch_int m (a_bci + 4)"
      by (rule w) (use a s(2) in simp_all)
    have w8: "get_java_switch_int m' (a_bci + 8) = get_java_switch_int m (a_bci + 8)"
      if "code = op_tableswitch" by (rule w) (use a s(4) [OF that] in simp_all)
    have pad: "is_zero_padding m' bci a_bci"
      using s(1,2) assms(1) by (auto simp: is_zero_padding_def list_all_iff get_ubyte_def)
    have len: "length_for m' bci = length_for m bci"
      unfolding length_for_def Let_def c code_def [symmetric] wide_length_for_def a_bci_def [symmetric]
      using switch w4 w8 by (auto simp: wordSize_def)
    have "next_bci m' bci = next_bci m bci" by (simp add: next_bci_def len)
    moreover have "legal_instruction m' codesize bci"
      using switch c legal pad s w4 w8 len calculation
      unfolding legal_instruction_def Let_def a_bci_def [symmetric]
      by (auto simp: wordSize_def)
    ultimately show ?thesis by simp
  qed
  then show "next_bci m' bci = next_bci m bci" "legal_instruction m' codesize bci" by simp_all
qed

section \<open>The loop is total and sound\<close>

definition check_inv :: "int \<Rightarrow> check_state \<Rightarrow> bool" where
  "check_inv codesize s = (0 \<le> ck_ptr s \<and> codesize \<le> 65535)"

text \<open>One round: it leaves the bytes before \<open>bcptr\<close> alone, and what it has stepped
  over is a legal instruction of the code it leaves behind.\<close>

definition stepped_over :: "int \<Rightarrow> check_state \<Rightarrow> check_state \<Rightarrow> bool" where
  "stepped_over codesize s s' =
     (ck_ptr s' = next_bci (ck_mem s') (ck_ptr s) \<and> 0 < length_for (ck_mem s') (ck_ptr s) \<and>
      (\<forall>q < ck_ptr s. ck_mem s' q = ck_mem s q) \<and>
      legal_instruction (ck_mem s') codesize (ck_ptr s))"

lemma step_fast:
  assumes "check_step codesize s = Inr s'" "bytecode_at (ck_mem s) (ck_ptr s) < op_tableswitch"
  shows "stepped_over codesize s s'"
proof -
  define code where "code = bytecode_at (ck_mem s) (ck_ptr s)"
  have fast: "code < op_tableswitch" using assms(2) by (simp add: code_def)
  have len: "0 \<le> length_for_code code" and s': "s' = s\<lparr>ck_ptr := ck_ptr s + length_for_code code\<rparr>"
    using assms unfolding check_step_def Let_def code_def [symmetric]
    by (auto split: if_splits)
  note f = fast_codes_length [OF fast len]
  have l: "length_for (ck_mem s) (ck_ptr s) = length_for_code code"
    using f by (simp add: length_for_def Let_def code_def)
  have "legal_instruction (ck_mem s) codesize (ck_ptr s)"
    using fast f l unfolding legal_instruction_def Let_def code_def [symmetric] by simp
  with l f show ?thesis by (simp add: s' stepped_over_def next_bci_def)
qed

lemma step_wide:
  assumes "check_step codesize s = Inr s'" "bytecode_at (ck_mem s) (ck_ptr s) = op_wide"
  shows "stepped_over codesize s s'"
proof -
  define inner where "inner = bytecode_at (ck_mem s) (ck_ptr s + 1)"
  have w: "ck_ptr s + 1 < codesize" "wide_is_defined (int inner)"
    and s': "s' = check_advance (ck_ptr s) (wide_length_for_code inner) s"
    and d: "is_defined (int op_wide)"
    using assms unfolding check_step_def Let_def inner_def [symmetric]
    by (auto simp: wide_is_defined_def split: if_splits)
  have l: "length_for (ck_mem s) (ck_ptr s) = wide_length_for_code inner"
    using assms(2) by (simp add: length_for_def wide_length_for_def Let_def inner_def
        length_for_code_nth bd_length_data)
  have pos: "0 < wide_length_for_code inner" using wide_length_at_least [OF w(2)] by simp
  have "legal_instruction (ck_mem s) codesize (ck_ptr s)"
    using w d l pos assms(2) unfolding legal_instruction_def Let_def inner_def by simp
  with l pos show ?thesis by (simp add: s' stepped_over_def check_advance_def next_bci_def)
qed

lemma step_switch:
  assumes "check_step codesize s = Inr s'" "check_inv codesize s"
    "bytecode_at (ck_mem s) (ck_ptr s) = code" "code = op_tableswitch \<or> code = op_lookupswitch"
  shows "stepped_over codesize s s'"
proof -
  define bci where "bci = ck_ptr s"
  define a_bci where "a_bci = align_size_up (bci + 1) 4"
  obtain m' where m': "check_switch (ck_mem s) codesize code bci = Inr m'"
    and s': "s' = check_advance bci (length_for m' bci) (s\<lparr>ck_mem := m'\<rparr>)"
    and d: "is_defined (int code)"
    using assms(1,4) unfolding check_step_def Let_def assms(3) unfolding bci_def [symmetric] check_opcode_def
    by (auto simp: jvm_check_Inr_iff split: if_splits)
  from check_switch_ok [OF m' _ _ assms(4), folded a_bci_def] assms(2)
  obtain e where e: "e = bci + wide_length_for m' bci code" "a_bci + 8 \<le> e" "e < codesize"
    "\<And>q. q < a_bci \<or> e \<le> q \<Longrightarrow> m' q = ck_mem s q"
    "code = op_tableswitch \<Longrightarrow> get_java_switch_int m' (a_bci + 4) \<le> get_java_switch_int m' (a_bci + 8)"
    "is_zero_padding (ck_mem s) bci a_bci" "code = op_tableswitch \<Longrightarrow> a_bci + 12 < e"
    "code = op_tableswitch \<Longrightarrow> get_java_switch_int m' (a_bci + 8) - get_java_switch_int m' (a_bci + 4) \<le> 65535"
    by (auto simp: check_inv_def bci_def)
  have a: "bci < a_bci" using align_size_up_bounds [of "bci + 1"] by (simp add: a_bci_def)
  have c: "bytecode_at m' bci = code"
    using e(4) a assms(3) by (simp add: bci_def bytecode_at_def)
  have l: "length_for m' bci = wide_length_for m' bci code"
    using assms(4) c by (auto simp: length_for_def Let_def length_for_code_nth bd_length_data)
  have n: "next_bci m' bci = e" by (simp add: next_bci_def l e(1))
  have pad: "is_zero_padding m' bci a_bci"
    using e(4,6) by (auto simp: is_zero_padding_def list_all_iff get_ubyte_def)
  have pos: "0 < length_for m' bci" using e(1,2) a l by linarith
  have "legal_instruction m' codesize bci"
    using assms(4) d pos e(2,3,5,7,8) pad
    unfolding legal_instruction_def Let_def c n wordSize_def a_bci_def [symmetric] by auto
  with l pos e(4) a show ?thesis
    by (simp add: s' check_advance_def bci_def stepped_over_def next_bci_def)
qed

lemma step_plain:
  assumes "check_step codesize s = Inr s'" "bytecode_at (ck_mem s) (ck_ptr s) = code"
    "op_tableswitch < code" "code \<noteq> op_lookupswitch" "code \<noteq> op_wide"
  shows "stepped_over codesize s s'"
proof -
  have d: "code < op_breakpoint" "is_defined (int code)"
    and s': "ck_mem s' = ck_mem s" "ck_ptr s' = ck_ptr s + length_for (ck_mem s) (ck_ptr s)"
    using assms(1,3-) unfolding check_step_def Let_def assms(2) check_opcode_def
    by (auto simp: jvm_check_Inr_iff check_advance_def split: if_splits)
  have ne: "length_for_code code \<noteq> 0"
    using code_lengths_positive(2) [OF d] assms(3-) by auto
  have l: "length_for (ck_mem s) (ck_ptr s) = length_for_code code"
    using ne by (simp add: length_for_def Let_def assms(2))
  have pos: "0 < length_for_code code" using ne code_lengths_positive(1) [OF d] by linarith
  have "legal_instruction (ck_mem s) codesize (ck_ptr s)"
    using assms(3-) d l pos unfolding legal_instruction_def Let_def assms(2) by auto
  with l s' pos show ?thesis by (simp add: stepped_over_def next_bci_def)
qed

lemma check_step_ok:
  assumes "check_step codesize s = Inr s'" "check_inv codesize s"
  shows "stepped_over codesize s s'" "ck_ptr s < ck_ptr s'" "check_inv codesize s'"
proof -
  show *: "stepped_over codesize s s'"
  proof -
    consider "bytecode_at (ck_mem s) (ck_ptr s) < op_tableswitch"
      | "bytecode_at (ck_mem s) (ck_ptr s) = op_wide"
      | "bytecode_at (ck_mem s) (ck_ptr s) = op_tableswitch \<or>
         bytecode_at (ck_mem s) (ck_ptr s) = op_lookupswitch"
      | "op_tableswitch < bytecode_at (ck_mem s) (ck_ptr s)"
        "bytecode_at (ck_mem s) (ck_ptr s) \<noteq> op_lookupswitch"
        "bytecode_at (ck_mem s) (ck_ptr s) \<noteq> op_wide"
      by linarith
    then show ?thesis
      using step_fast [OF assms(1)] step_wide [OF assms(1)] step_switch [OF assms refl]
        step_plain [OF assms(1) refl] by cases auto
  qed
  then show "ck_ptr s < ck_ptr s'" "check_inv codesize s'"
    using assms(2) by (auto simp: stepped_over_def check_inv_def next_bci_def)
qed

lemma check_loop_fuel:
  "check_inv codesize s \<Longrightarrow> nat (codesize - ck_ptr s) < fuel \<Longrightarrow> check_loop fuel codesize s \<noteq> None"
proof (induction fuel codesize s rule: check_loop.induct)
  case (2 fuel codesize s)
  show ?case
  proof (cases "ck_ptr s < codesize")
    case True
    show ?thesis
    proof (cases "check_step codesize s")
      case (Inr s')
      have "check_loop fuel codesize s' \<noteq> None"
      proof (rule 2(1) [OF True Inr])
        show "check_inv codesize s'" by (rule check_step_ok(3) [OF Inr 2(2)])
        show "nat (codesize - ck_ptr s') < fuel"
          using check_step_ok(2) [OF Inr 2(2)] 2(3) True by linarith
      qed
      with True Inr show ?thesis by simp
    qed (simp add: True)
  qed simp
qed simp

lemma check_loop_sound:
  "check_loop fuel codesize s = Some (Inr s') \<Longrightarrow> check_inv codesize s \<Longrightarrow>
     decodes (ck_mem s') codesize (ck_ptr s) \<and>
     (\<forall>q < ck_ptr s. ck_mem s' q = ck_mem s q)"
proof (induction fuel codesize s rule: check_loop.induct)
  case (2 fuel codesize s)
  show ?case
  proof (cases "ck_ptr s < codesize")
    case True
    then obtain t where t: "check_step codesize s = Inr t" "check_loop fuel codesize t = Some (Inr s')"
      using 2(2) by (auto split: sum.splits)
    note ok = check_step_ok [OF t(1) 2(3)]
    have st: "next_bci (ck_mem t) (ck_ptr s) = ck_ptr t" "\<forall>q < ck_ptr s. ck_mem t q = ck_mem s q"
      "legal_instruction (ck_mem t) codesize (ck_ptr s)"
      using ok(1) by (simp_all add: stepped_over_def)
    have ih: "decodes (ck_mem s') codesize (ck_ptr t)" "\<forall>q < ck_ptr t. ck_mem s' q = ck_mem t q"
      using 2(1) [OF True t(1,2) ok(3)] by simp_all
    have same: "next_bci (ck_mem s') (ck_ptr s) = ck_ptr t" "legal_instruction (ck_mem s') codesize (ck_ptr s)"
      using legal_instruction_cong [of "ck_ptr s" "ck_mem t" "ck_mem s'" codesize] ih(2) st(1,3) by simp_all
    have "decodes (ck_mem s') codesize (ck_ptr s)"
      using decodes_next [OF True same(2)] ih(1) same(1) by simp
    moreover have "\<forall>q < ck_ptr s. ck_mem s' q = ck_mem s q"
      using ih(2) ok(2) st(2) by force
    ultimately show ?thesis by simp
  next
    case False
    then show ?thesis using 2(2) by (auto intro: decodes_end)
  qed
qed simp

section \<open>Properties\<close>

definition plain_method :: "8 word list \<Rightarrow> method_code" where
  "plain_method bs = \<lparr>mc_native_or_abstract = False, mc_code = code_of_bytes bs,
     mc_code_size = int (length bs), mc_max_execution_stack_count = 1,
     mc_has_monitor_bytecodes = False, mc_has_invoke_bytecodes = False\<rparr>"

lemma check_start_inv: "n \<le> 65535 \<Longrightarrow> check_inv n (check_start m)"
  by (simp add: check_inv_def check_start_def)

lemma check_loop_numeral:
  "check_loop (numeral v) codesize s =
     (if ck_ptr s < codesize
      then case check_step codesize s of
             Inl e \<Rightarrow> Some (Inl e)
           | Inr s' \<Rightarrow> check_loop (pred_numeral v) codesize s'
      else Some (Inr s))"
  by (simp add: numeral_eq_Suc)

lemma is_defined_numeral:
  "is_defined (numeral k) \<longleftrightarrow>
     (numeral k :: nat) < 253 \<and> map bd_length data ! numeral k \<noteq> - 1"
proof (cases "(numeral k :: nat) < 253")
  case True
  then show ?thesis using is_defined_nth [OF True] by simp
qed (simp add: is_defined_def number_of_java_codes_def)

lemmas check_eval =
  check_bytecodes_def plain_method_def check_start_def check_step_def check_opcode_def
  check_advance_def length_for_def length_for_code_nth bd_length_data is_defined_nth
  bytecode_at_def code_of_bytes_def finish_check_def lock_words_def StackLock_size_def Let_def
  check_loop_numeral is_defined_numeral

text \<open>C24: the pass over the code of a method ends, whatever the bytes are: each round
  steps over at least one byte, so the rounds the model allows are enough.\<close>

theorem check_bytecodes_terminates:
  assumes "mc_code_size method \<le> 65535"
  shows "\<exists>r. check_bytecodes method = Some r"
proof -
  have "check_loop (nat (mc_code_size method) + 1) (mc_code_size method)
          (check_start (mc_code method)) \<noteq> None"
    by (rule check_loop_fuel [OF check_start_inv [OF assms]]) (simp add: check_start_def)
  then show ?thesis by (auto simp: check_bytecodes_def)
qed

theorem check_bytecodes_terminates_witness:
  "\<exists>r. check_bytecodes (plain_method [0xaa, 0, 0]) = Some r"
  by (rule check_bytecodes_terminates) (simp add: plain_method_def)

text \<open>C1: in the code that the pass accepts and rewrites, walking from byte code index 0
  by the lengths of the instructions meets only legal instructions: defined bytecodes of
  the language, \<open>wide\<close> with a bytecode that has a wide form, switches with zero padding, a
  low bound not above the high bound, a table that its size in 32 bits does not overflow, and all
  of their words inside the code.\<close>

theorem check_bytecodes_sound:
  assumes "check_bytecodes method = Some (Inr method')" "\<not> mc_native_or_abstract method"
    "mc_code_size method \<le> 65535"
  shows "decodes (mc_code method') (mc_code_size method') 0"
proof -
  obtain s where s: "check_loop (nat (mc_code_size method) + 1) (mc_code_size method)
      (check_start (mc_code method)) = Some (Inr s)" and f: "finish_check method s = Inr method'"
    using assms(1,2) by (auto simp: check_bytecodes_def)
  have "mc_code method' = ck_mem s" "mc_code_size method' = mc_code_size method"
    using f by (auto simp: finish_check_def Let_def split: if_splits)
  with check_loop_sound [OF s check_start_inv [OF assms(3)]] show ?thesis
    by (simp add: check_start_def)
qed

lemma check_bytecodes_return: "check_bytecodes (plain_method [0xb1]) = Some (Inr (plain_method [0xb1]))"
  by (simp add: check_eval)

theorem check_bytecodes_sound_witness:
  "decodes (mc_code (plain_method [0xb1])) (mc_code_size (plain_method [0xb1])) 0"
  by (rule check_bytecodes_sound [OF check_bytecodes_return]) (simp_all add: plain_method_def)


definition switch_bytes :: "8 word list" where
  "switch_bytes = [0xab, 0, 0, 0, 0, 0, 0, 5, 0, 0, 0, 0, 0xb1]"




text \<open>The bound on the end of a switch is too strict by one: a switch that is the last
  instruction is rejected.\<close>

theorem check_bytecodes_final_switch:
  "check_bytecodes (plain_method (take 12 switch_bytes)) = Some (Inl illegal_code)"
proof -
  have a: "align_size_up 1 4 = 4" by (simp add: align_size_up_4)
  have n: "raw_switch_int (code_of_bytes (take 12 switch_bytes)) 8 = 0"
    by (simp add: raw_switch_int_java get_java_int_def get_Java_u4_def code_of_bytes_def switch_bytes_def)
  have "check_switch (code_of_bytes (take 12 switch_bytes)) 12 op_lookupswitch 0 = Inl illegal_code"
    using n by (simp add: check_switch_def switch_fields_def a wordSize_def jint_id)
  then show ?thesis by (simp add: check_eval switch_bytes_def)
qed

end
