(* ===== verification/Utf8.thy ===== *)
theory Utf8
  imports Prelude
begin

unbundle bit_operations_syntax

text \<open>
  Modified UTF-8, as class files store names: the reader of
  \<open>CharacterStream.cpp\<close> (\<open>UTF8Stream\<close>) and the writer of \<open>Symbol.cpp\<close>
  (\<open>put_unicode_char\<close>, the same as \<open>UTF8Stream::utf8_write\<close>).  A stream is the list
  of its bytes, read from index 0; \<open>UTF8_ERROR\<close> is \<open>None\<close>.
\<close>

type_synonym jchar = "16 word"

text \<open>The bytes behind a first byte \<open>ch1 >= 128\<close>; \<open>index\<close> is the one after it.\<close>

definition get_next_jchar_slow :: "8 word list \<Rightarrow> nat \<Rightarrow> 8 word \<Rightarrow> (nat \<times> jchar) option" where
  "get_next_jchar_slow bs index ch1 =
    (let len = length bs; top = unat (drop_bit 4 ch1) in
     if top = 0x8 \<or> top = 0x9 \<or> top = 0xA \<or> top = 0xB \<or> top = 0xF then None
     else if top = 0xC \<or> top = 0xD then
       (if index < len then
          let ch2 = bs ! index in
          if ch2 AND 0xC0 = 0x80 then
            let high_five = (ucast (ch1 AND 0x1F) :: jchar); low_six = ucast (ch2 AND 0x3F)
            in Some (index + 1, push_bit 6 high_five + low_six)
          else None
        else None)
     else if top = 0xE then
       (if index < len then
          let ch2 = bs ! index in
          if ch2 AND 0xC0 = 0x80 \<and> index + 1 < len then
            let ch3 = bs ! (index + 1) in
            if ch3 AND 0xC0 = 0x80 then
              let high_four = (ucast (ch1 AND 0x0f) :: jchar);
                  mid_six = ucast (ch2 AND 0x3f); low_six = ucast (ch3 AND 0x3f)
              in Some (index + 2, push_bit 6 (push_bit 6 high_four + mid_six) + low_six)
            else
              let high_four = (ucast (ch1 AND 0x0f) :: jchar); low_six = ucast (ch2 AND 0x3f)
              in Some (index + 1, push_bit 6 high_four + low_six)
          else None
        else None)
     else Some (index, ucast ch1))"

definition get_next_jchar_from_utf8 :: "8 word list \<Rightarrow> nat \<Rightarrow> (nat \<times> jchar) option" where
  "get_next_jchar_from_utf8 bs index =
    (if length bs \<le> index then None
     else let ch1 = bs ! index in
       if ch1 = 0 then None
       else if 128 \<le> ch1 then get_next_jchar_slow bs (index + 1) ch1
       else Some (index + 1, ucast ch1))"

text \<open>\<open>UTF8Stream::length\<close>: the number of characters, \<open>None\<close> for a malformed stream.
  The loop counts from \<open>index\<close>; a step that would not advance ends it, which
  \<open>get_next_jchar_advances\<close> below shows never happens.\<close>

function utf8_length_from :: "8 word list \<Rightarrow> nat \<Rightarrow> nat \<Rightarrow> nat option" where
  "utf8_length_from bs index result =
    (if index < length bs then
       (case get_next_jchar_from_utf8 bs index of
          None \<Rightarrow> None
        | Some (next, value) \<Rightarrow>
            if index < next then utf8_length_from bs next (result + 1) else None)
     else Some result)"
  by pat_completeness auto
termination
  by (relation "measure (\<lambda>(bs, index, result). length bs - index)") auto

definition utf8_length :: "8 word list \<Rightarrow> nat option" where
  "utf8_length bs = utf8_length_from bs 0 0"

definition utf8_is_valid :: "8 word list \<Rightarrow> bool" where
  "utf8_is_valid bs = (utf8_length bs \<noteq> None)"

text \<open>\<open>Symbol::put_unicode_char\<close>: the bytes of one character.\<close>

definition put_unicode_char :: "jchar \<Rightarrow> 8 word list" where
  "put_unicode_char ch =
    (if ch \<noteq> 0 \<and> ch \<le> 0x7f then [ucast ch]
     else if ch \<le> 0x7FF then
       [ucast (drop_bit 6 ch) OR 0xC0, ucast (ch AND 0x3F) OR 0x80]
     else
       [ucast (drop_bit 12 ch) OR 0xE0, ucast (drop_bit 6 ch AND 0x3F) OR 0x80,
        ucast (ch AND 0x3f) OR 0x80])"

text \<open>\<open>UnicodeStream::utf8_size\<close> and \<open>utf8_length\<close>.\<close>

definition utf8_size :: "jchar \<Rightarrow> nat" where
  "utf8_size c = (if 0x0001 \<le> c \<and> c \<le> 0x007F then 1 else if c \<le> 0x07FF then 2 else 3)"

definition unicode_utf8_length :: "jchar list \<Rightarrow> nat" where
  "unicode_utf8_length cs = foldl (\<lambda>result c. result + utf8_size c) 0 cs"

text \<open>The loop of \<open>Symbol::copy_string_to_byte_array\<close> with \<open>slashify\<close> off.\<close>

definition utf8_encode :: "jchar list \<Rightarrow> 8 word list" where
  "utf8_encode cs = concat (map put_unicode_char cs)"

text \<open>The characters of a stream, read to its end.\<close>

function utf8_decode_from :: "8 word list \<Rightarrow> nat \<Rightarrow> jchar list option" where
  "utf8_decode_from bs index =
    (if index < length bs then
       (case get_next_jchar_from_utf8 bs index of
          None \<Rightarrow> None
        | Some (next, value) \<Rightarrow>
            if index < next then map_option ((#) value) (utf8_decode_from bs next) else None)
     else Some [])"
  by pat_completeness auto
termination
  by (relation "measure (\<lambda>(bs, index). length bs - index)") auto

declare utf8_length_from.simps [simp del] utf8_decode_from.simps [simp del]


section \<open>Lemmas\<close>

lemma get_next_jchar_advances:
  assumes "get_next_jchar_from_utf8 bs index = Some (next, value)"
  shows "index < next" "next \<le> length bs"
  using assms
  by (auto simp: get_next_jchar_from_utf8_def get_next_jchar_slow_def Let_def
      split: if_splits)

lemma lead2_all: "list_all (\<lambda>n. let w = (of_nat n :: 8 word); b = w OR 0xC0 in
    (unat (drop_bit 4 b) = 0xC \<or> unat (drop_bit 4 b) = 0xD) \<and> b AND 0x1F = w \<and> 128 \<le> b \<and> b \<noteq> 0)
    [0..<32]"
  by code_simp

lemma lead3_all: "list_all (\<lambda>n. let w = (of_nat n :: 8 word); b = w OR 0xE0 in
    unat (drop_bit 4 b) = 0xE \<and> b AND 0x0F = w \<and> 128 \<le> b \<and> b \<noteq> 0) [0..<16]"
  by code_simp

lemma cont_all: "list_all (\<lambda>n. let w = (of_nat n :: 8 word); b = w OR 0x80 in
    b AND 0xC0 = 0x80 \<and> b AND 0x3F = w) [0..<64]"
  by code_simp

lemma lead2:
  assumes "(w :: 8 word) < 32"
  shows "unat (drop_bit 4 (w OR 0xC0)) = 0xC \<or> unat (drop_bit 4 (w OR 0xC0)) = 0xD"
    "(w OR 0xC0) AND 0x1F = w" "128 \<le> w OR 0xC0" "w OR 0xC0 \<noteq> 0"
  using lead2_all assms by (auto simp: list_all_iff word_less_nat_alt Let_def dest: bspec [of _ _ "unat w"])

lemma lead3:
  assumes "(w :: 8 word) < 16"
  shows "unat (drop_bit 4 (w OR 0xE0)) = 0xE"
    "(w OR 0xE0) AND 0x0F = w" "128 \<le> w OR 0xE0" "w OR 0xE0 \<noteq> 0"
  using lead3_all assms by (auto simp: list_all_iff word_less_nat_alt Let_def dest: bspec [of _ _ "unat w"])

lemma cont:
  assumes "(w :: 8 word) < 64"
  shows "(w OR 0x80) AND 0xC0 = 0x80" "(w OR 0x80) AND 0x3F = w"
  using cont_all assms by (auto simp: list_all_iff word_less_nat_alt Let_def dest: bspec [of _ _ "unat w"])

lemma jchar_and_3F: "(c :: 16 word) AND 0x3F = take_bit 6 c"
  by (simp add: take_bit_eq_mask mask_eq_exp_minus_1)

lemma unat_low: "unat (ucast (take_bit 6 (c :: 16 word)) :: 8 word) = unat c mod 64"
  by (simp add: unsigned_ucast_eq unsigned_take_bit_eq take_bit_eq_mod mod_mod_cancel unat_mod)

lemma six_bits: "(ucast ((c :: jchar) AND 0x3F) :: 8 word) < 64"
  unfolding jchar_and_3F word_less_nat_alt unat_low by simp

lemma high_bits: "unat (drop_bit n (c :: jchar)) < 2 ^ m \<Longrightarrow> m \<le> 8 \<Longrightarrow>
   unat (ucast (drop_bit n c) :: 8 word) < 2 ^ m"
  by (simp add: unsigned_ucast_eq take_bit_eq_mod)

lemma unat_drop: "unat (drop_bit 6 (c :: jchar)) = unat c div 64"
  "unat (drop_bit 12 (c :: jchar)) = unat c div 4096"
  by (simp_all add: drop_bit_eq_div unat_div)

lemma bits_above:
  assumes "unat (c :: jchar) < 2 ^ k" "k \<le> n" shows "\<not> bit c n"
proof
  assume "bit c n"
  then have "bit (unat c) n" by (simp add: bit_unsigned_iff)
  moreover have "unat c < 2 ^ n" using assms by (meson less_le_trans one_le_numeral power_increasing)
  ultimately show False by (simp add: bit_iff_odd)
qed

lemma split_2:
  assumes "(c :: jchar) \<le> 0x7FF"
  shows "(ucast (drop_bit 6 c) :: 8 word) < 32"
    "push_bit 6 (ucast (ucast (drop_bit 6 c) :: 8 word)) + ucast (ucast (c AND 0x3F) :: 8 word) = c"
proof -
  have u: "unat c < 2 ^ 11" using assms by (simp add: word_le_nat_alt)
  have low: "bit c n \<Longrightarrow> n < 11" for n using bits_above [OF u] by (meson not_less)
  show "(ucast (drop_bit 6 c) :: 8 word) < 32"
    unfolding word_less_nat_alt using u high_bits [of 6 c 5] by (simp add: unat_drop)
  show "push_bit 6 (ucast (ucast (drop_bit 6 c) :: 8 word)) + ucast (ucast (c AND 0x3F) :: 8 word) = c"
    unfolding jchar_and_3F
    apply (subst disjunctive_add_eq_or)
     apply (rule bit_word_eqI, auto simp: bit_simps)[1]
    apply (rule bit_word_eqI)
    apply (auto simp: bit_simps not_less dest: low)
    done
qed

lemma split_3:
  fixes c :: jchar
  shows "(ucast (drop_bit 12 c) :: 8 word) < 16"
    "push_bit 6 (push_bit 6 (ucast (ucast (drop_bit 12 c) :: 8 word)) +
       ucast (ucast (drop_bit 6 c AND 0x3F) :: 8 word)) + ucast (ucast (c AND 0x3F) :: 8 word) = c"
proof -
  show "(ucast (drop_bit 12 c) :: 8 word) < 16"
    unfolding word_less_nat_alt using unsigned_less [of c, where 'a=nat] high_bits [of 12 c 4] by (simp add: unat_drop)
  show "push_bit 6 (push_bit 6 (ucast (ucast (drop_bit 12 c) :: 8 word)) +
       ucast (ucast (drop_bit 6 c AND 0x3F) :: 8 word)) + ucast (ucast (c AND 0x3F) :: 8 word) = c"
  proof -
    have inner: "push_bit 6 (ucast (ucast (drop_bit 12 c) :: 8 word)) + ucast (ucast (take_bit 6 (drop_bit 6 c)) :: 8 word)
       = (push_bit 6 (ucast (ucast (drop_bit 12 c) :: 8 word)) OR ucast (ucast (take_bit 6 (drop_bit 6 c)) :: 8 word) :: jchar)"
      by (rule disjunctive_add_eq_or, rule bit_word_eqI) (auto simp: bit_simps)
    show ?thesis
      unfolding jchar_and_3F inner
      apply (subst disjunctive_add_eq_or)
       apply (rule bit_word_eqI, auto simp: bit_simps)[1]
      apply (rule bit_word_eqI)
      subgoal for n by (cases "n < 12") (auto simp: bit_simps not_less)
      done
  qed
qed


lemma get_next_put_at:
  assumes "index < length bs" "bs = pre @ put_unicode_char c @ post" "index = length pre"
  shows "get_next_jchar_from_utf8 bs index = Some (index + length (put_unicode_char c), c)"
proof -
  consider (one) "c \<noteq> 0" "c \<le> 0x7f" | (two) "c = 0 \<or> 0x7f < c" "c \<le> 0x7FF" | (three) "0x7FF < c"
    by (metis leI)
  then show ?thesis
  proof cases
    case one
    then have u: "unat c < 2 ^ 7" by (simp add: word_le_nat_alt)
    then have n: "unat (ucast c :: 8 word) = unat c"
      by (simp add: unsigned_ucast_eq take_bit_nat_eq_self)
    have "ucast (ucast c :: 8 word) = c"
      using u by (simp add: word_eq_iff_unsigned [where 'a = nat] unsigned_ucast_eq unsigned_take_bit_eq n take_bit_nat_eq_self)
    moreover have "\<not> 128 \<le> (ucast c :: 8 word)" using u by (simp add: word_le_nat_alt n)
    moreover have "ucast c \<noteq> (0 :: 8 word)"
      using one by (metis n unat_0 unat_eq_zero)
    ultimately
    show ?thesis using one assms
      by (simp add: get_next_jchar_from_utf8_def put_unicode_char_def Let_def)
  next
    case two
    then have *: "\<not> (c \<noteq> 0 \<and> c \<le> 0x7f)" by auto
    note l = lead2 [OF split_2(1) [OF two(2)]] and k = cont [OF six_bits [of c]]
    from l(1) show ?thesis using assms l(2-) k split_2(2) [OF two(2)] two(2)
      by (elim disjE) (simp_all add: get_next_jchar_from_utf8_def put_unicode_char_def *
          nth_append get_next_jchar_slow_def Let_def)
  next
    case three
    then have *: "\<not> (c \<noteq> 0 \<and> c \<le> 0x7f)" "\<not> c \<le> 0x7FF"
      by (auto simp: word_le_nat_alt word_less_nat_alt)
    note l = lead3 [OF split_3(1) [of c]] and k = cont [OF six_bits [of c]]
      and k' = cont [OF six_bits [of "drop_bit 6 c"]]
    show ?thesis using assms l k k' split_3(2) [of c]
      by (simp add: get_next_jchar_from_utf8_def put_unicode_char_def * nth_append
          get_next_jchar_slow_def Let_def)
  qed
qed


lemma put_unicode_char_length: "length (put_unicode_char c) = utf8_size c"
  by (auto simp: put_unicode_char_def utf8_size_def word_le_nat_alt unat_eq_zero Suc_le_eq
      intro!: neq0_conv [THEN iffD1])

lemma put_unicode_char_ne [simp]: "put_unicode_char c \<noteq> []"
  by (simp add: put_unicode_char_def)

lemma utf8_decode_encode_from:
  "utf8_decode_from (pre @ utf8_encode cs) (length pre) = Some cs"
proof (induction cs arbitrary: pre)
  case Nil
  show ?case by (simp add: utf8_encode_def utf8_decode_from.simps)
next
  case (Cons c cs)
  have "get_next_jchar_from_utf8 (pre @ put_unicode_char c @ utf8_encode cs) (length pre) =
      Some (length pre + length (put_unicode_char c), c)"
    by (rule get_next_put_at) simp_all
  moreover have "utf8_decode_from (pre @ put_unicode_char c @ utf8_encode cs)
      (length pre + length (put_unicode_char c)) = Some cs"
    using Cons.IH [of "pre @ put_unicode_char c"] by simp
  ultimately show ?case
    by (subst utf8_decode_from.simps) (simp add: utf8_encode_def)
qed

lemma utf8_length_encode_from:
  "utf8_length_from (pre @ utf8_encode cs) (length pre) k = Some (k + length cs)"
proof (induction cs arbitrary: pre k)
  case Nil
  show ?case by (simp add: utf8_encode_def utf8_length_from.simps)
next
  case (Cons c cs)
  have "get_next_jchar_from_utf8 (pre @ put_unicode_char c @ utf8_encode cs) (length pre) =
      Some (length pre + length (put_unicode_char c), c)"
    by (rule get_next_put_at) simp_all
  moreover have "utf8_length_from (pre @ put_unicode_char c @ utf8_encode cs)
      (length pre + length (put_unicode_char c)) (Suc k) = Some (Suc k + length cs)"
    using Cons.IH [of "pre @ put_unicode_char c"] by simp
  ultimately show ?case
    by (subst utf8_length_from.simps) (simp add: utf8_encode_def)
qed

lemma unicode_utf8_length_encode: "unicode_utf8_length cs = length (utf8_encode cs)"
proof -
  have "foldl (\<lambda>result c. result + utf8_size c) k cs = k + length (utf8_encode cs)" for k
    by (induction cs arbitrary: k) (simp_all add: utf8_encode_def put_unicode_char_length)
  then show ?thesis by (simp add: unicode_utf8_length_def)
qed

section \<open>Properties\<close>

text \<open>C36: the modified UTF-8 that the virtual machine writes for a sequence of Java
  characters, NUL and lone surrogates included, is read back as the same characters; its
  length in characters and in bytes is what the length functions compute.\<close>

theorem utf8_roundtrip:
  "utf8_decode_from (utf8_encode cs) 0 = Some cs \<and>
   utf8_length (utf8_encode cs) = Some (length cs) \<and> utf8_is_valid (utf8_encode cs) \<and>
   unicode_utf8_length cs = length (utf8_encode cs)"
  using utf8_decode_encode_from [of "[]" cs] utf8_length_encode_from [of "[]" cs 0]
    unicode_utf8_length_encode [of cs]
  by (simp add: utf8_length_def utf8_is_valid_def)

end
