(* ===== verification/Symbols.thy ===== *)
theory Symbols
  imports Utf8 Basic_Types
begin

text \<open>
  Symbols, the interned byte strings of the virtual machine (\<open>Symbol.cpp\<close>,
  \<open>Symbol.hpp\<close>), the scanner of identifiers (\<open>Signature.cpp\<close>) and the encoding of a
  14-bit number in two bytes with their top bits set (\<open>TypeSymbol.hpp\<close>).  A symbol's
  near object tells whether it has been parsed as a field type or as a method
  signature.
\<close>

datatype near = Symbol_near | Field_type_near | Method_signature_near

datatype symbol = Symbol (near_of: near) (bytes_of: "8 word list")

text \<open>The bytes of an ASCII literal, and the symbols of \<open>Symbols.hpp\<close> in use here.\<close>

definition ascii :: "string \<Rightarrow> 8 word list" where
  "ascii s = map (\<lambda>c. of_nat (of_char c)) s"

definition sym :: "string \<Rightarrow> symbol" where
  "sym s = Symbol Symbol_near (ascii s)"

definition java_lang_Object :: symbol where
  "java_lang_Object = sym ''java/lang/Object''"
definition java_lang_String :: symbol where
  "java_lang_String = sym ''java/lang/String''"
definition java_lang_Throwable :: symbol where
  "java_lang_Throwable = sym ''java/lang/Throwable''"
definition object_initializer_name :: symbol where
  "object_initializer_name = sym ''<init>''"

definition sym_length :: "symbol \<Rightarrow> nat" where
  "sym_length s = length (bytes_of s)"

text \<open>\<open>byte_at\<close> returns a signed byte.\<close>

definition byte_at :: "symbol \<Rightarrow> nat \<Rightarrow> int" where
  "byte_at s index = sint (bytes_of s ! index)"

text \<open>Symbols are interned by their bytes: \<open>equals\<close> compares the pointers.\<close>

definition sym_equals :: "symbol \<Rightarrow> symbol \<Rightarrow> bool" where
  "sym_equals a b = (bytes_of a = bytes_of b)"


section \<open>Packages\<close>

fun strrchr_from :: "symbol \<Rightarrow> int \<Rightarrow> nat \<Rightarrow> int" where
  "strrchr_from s c 0 = - 1"
| "strrchr_from s c (Suc len) =
     (if byte_at s len \<noteq> c then strrchr_from s c len else int len)"

definition strrchr :: "symbol \<Rightarrow> int \<Rightarrow> int" where
  "strrchr s c = strrchr_from s c (sym_length s)"

text \<open>The loop that skips \<open>'['\<close>; \<open>byte_at\<close> behind the end reads no byte of the symbol
  (0 here), which ends it.\<close>

fun skip_brackets :: "8 word list \<Rightarrow> nat" where
  "skip_brackets [] = 0"
| "skip_brackets (b # bs) = (if b = 91 then Suc (skip_brackets bs) else 0)"

definition is_same_class_package :: "symbol \<Rightarrow> symbol \<Rightarrow> bool" where
  "is_same_class_package this other =
    (let end1 = strrchr this 47; end2 = strrchr other 47 in
     if end1 < 0 \<or> end2 < 0 then end1 = end2
     else
       let start1 = skip_brackets (bytes_of this); start2 = skip_brackets (bytes_of other) in
       if start1 \<noteq> 0 \<and> (sym_length this \<le> start1 \<or> byte_at this start1 \<noteq> 76) then False
       else if start2 \<noteq> 0 \<and> (sym_length other \<le> start2 \<or> byte_at other start2 \<noteq> 76) then False
       else if end1 - int start1 \<noteq> end2 - int start2 then False
       else list_all (\<lambda>i. byte_at this (i + start1) = byte_at other (i + start2))
              [0..<nat (end1 - int start1)])"


section \<open>Identifiers\<close>

definition letter_digit_table :: "nat list" where
  "letter_digit_table =
     [0, 0, 0, 0, 0, 0, 0, 0, 0, 0, 0, 0, 0, 0, 0, 0,
      0, 0, 0, 0, 0, 0, 0, 0, 0, 0, 0, 0, 0, 0, 0, 0,
      0, 0, 0, 0, 1, 0, 0, 0, 0, 0, 0, 0, 0, 0, 0, 0,
      2, 2, 2, 2, 2, 2, 2, 2, 2, 2, 0, 0, 0, 0, 0, 0,
      0, 1, 1, 1, 1, 1, 1, 1, 1, 1, 1, 1, 1, 1, 1, 1,
      1, 1, 1, 1, 1, 1, 1, 1, 1, 1, 1, 0, 0, 0, 0, 1,
      0, 1, 1, 1, 1, 1, 1, 1, 1, 1, 1, 1, 1, 1, 1, 1,
      1, 1, 1, 1, 1, 1, 1, 1, 1, 1, 1, 0, 0, 0, 0, 0]"

definition is_letter_or_digit :: "jchar \<Rightarrow> bool" where
  "is_letter_or_digit ch = (127 < ch \<or> letter_digit_table ! unat ch \<noteq> 0)"

definition is_letter :: "jchar \<Rightarrow> bool" where
  "is_letter ch = (127 < ch \<or> letter_digit_table ! unat ch = 1)"

text \<open>The scanners work on the bytes of a symbol from \<open>position\<close> on and return the
  position behind the identifier, or \<open>None\<close> where the code returns false.  A byte that
  is \<open>suspicious\<close> sends the code to its slow path.\<close>

definition suspicious :: "8 word \<Rightarrow> bool" where
  "suspicious ch = (127 < ch \<or> ch = 0)"

definition table_at :: "8 word \<Rightarrow> nat" where
  "table_at ch = letter_digit_table ! unat ch"

text \<open>The end of the identifier: the first byte that is no letter or digit.  \<open>None\<close> for
  a suspicious byte before it.\<close>

fun identifier_end :: "8 word list \<Rightarrow> nat \<Rightarrow> nat option" where
  "identifier_end [] position = Some position"
| "identifier_end (ch # bs) position =
    (if suspicious ch then None
     else if table_at ch = 0 then Some position
     else identifier_end bs (Suc position))"

function skip_identifier_rest :: "8 word list \<Rightarrow> nat \<Rightarrow> nat" where
  "skip_identifier_rest bs position =
    (if position < length bs then
       (case get_next_jchar_from_utf8 bs position of
          None \<Rightarrow> position
        | Some (next, ch) \<Rightarrow>
            if is_letter_or_digit ch \<and> position < next then skip_identifier_rest bs next
            else position)
     else position)"
  by pat_completeness auto
termination
  by (relation "measure (\<lambda>(bs, position). length bs - position)") auto

declare skip_identifier_rest.simps [simp del]

definition skip_identifier_slow :: "8 word list \<Rightarrow> nat \<Rightarrow> nat option" where
  "skip_identifier_slow bs position =
    (case get_next_jchar_from_utf8 bs position of
       None \<Rightarrow> None
     | Some (next, ch) \<Rightarrow>
         if \<not> is_letter ch then None else Some (skip_identifier_rest bs next))"

definition skip_simple_identifier :: "8 word list \<Rightarrow> nat \<Rightarrow> nat option" where
  "skip_simple_identifier bs position =
    (if list_ex suspicious (take position bs) then skip_identifier_slow bs position
     else if position < length bs then
       let ch = bs ! position in
       if suspicious ch then skip_identifier_slow bs position
       else if table_at ch \<noteq> 1 then None
       else (case identifier_end (drop (Suc position) bs) (Suc position) of
               Some e \<Rightarrow> Some e
             | None \<Rightarrow> skip_identifier_slow bs position)
     else None)"

text \<open>The inner loop of \<open>is_class_identifier_quick\<close>: the bytes behind the separator
  that ends a name part, \<open>None\<close> when a byte is not allowed.\<close>

fun quick_part :: "8 word list \<Rightarrow> 8 word list option" where
  "quick_part [] = Some []"
| "quick_part (ch # bs) =
    (if ch \<le> 127 then
       (if table_at ch \<noteq> 0 then quick_part bs
        else if ch = 47 then Some bs else None)
     else None)"

lemma quick_part_length: "quick_part bs = Some rest \<Longrightarrow> length rest \<le> length bs"
  by (induction bs rule: quick_part.induct) (auto split: if_splits)

function is_class_identifier_quick :: "8 word list \<Rightarrow> bool" where
  "is_class_identifier_quick [] = True"
| "is_class_identifier_quick (ch # bs) =
    (if 127 < ch then False
     else if table_at ch \<noteq> 1 then False
     else (case quick_part bs of None \<Rightarrow> False | Some rest \<Rightarrow> is_class_identifier_quick rest))"
  by pat_completeness auto
termination
  by (relation "measure length") (auto dest: quick_part_length)

function skip_class_identifier :: "8 word list \<Rightarrow> nat \<Rightarrow> nat option" where
  "skip_class_identifier bs position =
    (case skip_simple_identifier bs position of
       None \<Rightarrow> None
     | Some p \<Rightarrow>
         if length bs \<le> p then Some p
         else if bs ! p \<noteq> 47 then Some p
         else if position < Suc p then skip_class_identifier bs (Suc p) else None)"
  by pat_completeness auto
termination
  by (relation "measure (\<lambda>(bs, position). length bs - position)") auto

declare skip_class_identifier.simps [simp del]

text \<open>\<open>Symbol::is_valid_field_name\<close> and \<open>is_valid_method_name\<close>.\<close>

definition is_valid_field_name :: "symbol \<Rightarrow> bool" where
  "is_valid_field_name s = (skip_simple_identifier (bytes_of s) 0 = Some (sym_length s))"

definition is_valid_method_name :: "symbol \<Rightarrow> bool" where
  "is_valid_method_name s =
     (is_valid_field_name s \<or> sym_equals s object_initializer_name \<or>
      sym_equals s (sym ''<clinit>''))"


section \<open>Field types and encoded numbers\<close>

definition is_valid_field_type :: "symbol \<Rightarrow> bool" where
  "is_valid_field_type s =
     (near_of s = Field_type_near \<or>
      (sym_length s = 1 \<and> is_simple_type_symbol (byte_at s 0)))"

definition encode_ushort :: "32 word \<Rightarrow> 32 word" where
  "encode_ushort value =
     (let hibyte = push_bit 1 (value AND 0xff80); lobyte = value AND 0x7f
      in hibyte OR lobyte OR 0x8080)"

definition put_encoded_ushort :: "32 word \<Rightarrow> 8 word list" where
  "put_encoded_ushort value = [ucast (drop_bit 8 value), ucast (value AND 0xff)]"

definition decode_ushort_raw :: "8 word \<Rightarrow> 8 word \<Rightarrow> 16 word" where
  "decode_ushort_raw hibyte lobyte =
     push_bit 7 (ucast hibyte AND 0x7f) OR (ucast lobyte AND 0x7f)"

definition decode_ushort_at :: "symbol \<Rightarrow> nat \<Rightarrow> nat" where
  "decode_ushort_at s index =
     unat (decode_ushort_raw (bytes_of s ! index) (bytes_of s ! Suc index))"

definition size_at :: "symbol \<Rightarrow> nat \<Rightarrow> nat" where
  "size_at s index = (if 0 \<le> byte_at s index then 1 else 2)"

definition basic_type_from_literal :: "basic_type list" where
  "basic_type_from_literal =
     [T_ILLEGAL, T_BYTE, T_CHAR, T_DOUBLE, T_ILLEGAL, T_FLOAT, T_ILLEGAL, T_ILLEGAL,
      T_INT, T_LONG, T_ILLEGAL, T_ILLEGAL, T_ILLEGAL, T_ILLEGAL, T_ILLEGAL, T_ILLEGAL,
      T_ILLEGAL, T_ILLEGAL, T_SHORT, T_ILLEGAL, T_ILLEGAL, T_VOID, T_ILLEGAL, T_ILLEGAL,
      T_ILLEGAL, T_BOOLEAN]"

definition primitive_field_basic_type_for :: "int \<Rightarrow> basic_type" where
  "primitive_field_basic_type_for chr = basic_type_from_literal ! nat (chr - 65)"


section \<open>Lemmas\<close>

lemma bit_7f: "bit (0x7f :: 'a::len word) n \<longleftrightarrow> n < 7 \<and> n < LENGTH('a)"
proof -
  have "(0x7f :: 'a word) = mask 7" by (simp add: mask_eq_exp_minus_1)
  then show ?thesis by (auto simp only: bit_mask_iff possible_bit_word)
qed

lemma bit_ff80: "bit (0xff80 :: 32 word) n \<longleftrightarrow> 7 \<le> n \<and> n < 16"
proof -
  have "(0xff80 :: 32 word) = push_bit 7 (mask 9)"
    by (simp add: mask_eq_exp_minus_1 push_bit_eq_mult)
  then show ?thesis
    by (auto simp only: bit_push_bit_iff bit_mask_iff possible_bit_word) auto
qed

lemma bit_8080: "bit (0x8080 :: 32 word) n \<longleftrightarrow> n = 7 \<or> n = 15"
proof -
  have "(0x8080 :: 32 word) = push_bit 7 1 OR push_bit 15 1" by simp
  then show ?thesis
    by (auto simp only: bit_or_iff bit_push_bit_iff bit_1_iff possible_bit_word) auto
qed

lemma bit_encode_ushort:
  "bit (encode_ushort v) n \<longleftrightarrow>
     n = 7 \<or> n = 15 \<or> n < 7 \<and> bit v n \<or> 8 \<le> n \<and> n \<le> 16 \<and> bit v (n - 1)"
  unfolding encode_ushort_def Let_def bit_or_iff bit_and_iff bit_push_bit_iff bit_7f bit_ff80
    bit_8080 possible_bit_word
  by auto

lemma decode_put_encode:
  assumes "value < 2 ^ 14"
  shows "(case put_encoded_ushort (encode_ushort (of_nat value)) of [h, l] \<Rightarrow>
            unat (decode_ushort_raw h l)) = value"
proof -
  have above: "bit (word_of_nat value :: 32 word) n \<Longrightarrow> n < 14" for n
  proof (rule ccontr)
    assume "bit (word_of_nat value :: 32 word) n" "\<not> n < 14"
    then have "bit value n" "2 ^ 14 \<le> (2::nat) ^ n"
      using power_increasing [of 14 n "2::nat"] by (auto simp: bit_simps)
    then show False using assms by (simp add: bit_iff_odd)
  qed
  have "decode_ushort_raw (ucast (drop_bit 8 (encode_ushort (of_nat value))))
          (ucast (encode_ushort (of_nat value) AND 0xff)) = (of_nat value :: 16 word)"
  proof (rule bit_word_eqI)
    fix n assume "n < LENGTH(16)"
    have m: "(0xff :: 32 word) = mask 8" by (simp add: mask_eq_exp_minus_1)
    show "bit (decode_ushort_raw (ucast (drop_bit 8 (encode_ushort (of_nat value))))
          (ucast (encode_ushort (of_nat value) AND 0xff))) n = bit (of_nat value :: 16 word) n"
      unfolding decode_ushort_raw_def m bit_or_iff bit_and_iff bit_push_bit_iff bit_7f
        possible_bit_word bit_ucast_iff bit_drop_bit_eq comp_def bit_encode_ushort bit_mask_iff
      using above [of n] \<open>n < LENGTH(16)\<close> by (auto simp: bit_of_nat_iff)
  qed
  then show ?thesis using assms
    by (simp add: put_encoded_ushort_def unat_of_nat)
qed

lemma table_at_0: "table_at 0 = 0" and table_at_slash: "table_at 47 = 0"
  by (simp_all add: table_at_def letter_digit_table_def)

lemma quick_part_cases:
  assumes "quick_part bs = Some r"
  obtains (last) "r = []" "\<forall>ch\<in>set bs. \<not> suspicious ch \<and> table_at ch \<noteq> 0"
  | (more) part where "bs = part @ 47 # r" "\<forall>ch\<in>set part. \<not> suspicious ch \<and> table_at ch \<noteq> 0"
proof -
  have "(r = [] \<and> (\<forall>ch\<in>set bs. \<not> suspicious ch \<and> table_at ch \<noteq> 0)) \<or>
      (\<exists>part. bs = part @ 47 # r \<and> (\<forall>ch\<in>set part. \<not> suspicious ch \<and> table_at ch \<noteq> 0))"
    using assms
  proof (induction bs rule: quick_part.induct)
    case (2 ch bs)
    show ?case
    proof (cases "table_at ch \<noteq> 0")
      case True
      then have ok: "\<not> suspicious ch \<and> table_at ch \<noteq> 0"
        using "2.prems" by (auto simp: suspicious_def table_at_0 not_less split: if_splits)
      have "quick_part bs = Some r" "ch \<le> 127" using "2.prems" True by (auto split: if_splits)
      from "2.IH" [OF this(2) True this(1)] ok show ?thesis
        by (auto intro: exI [of _ "ch # _"])
    next
      case False
      then show ?thesis using "2.prems" by (auto split: if_splits)
    qed
  qed simp
  then show thesis using last more by blast
qed

lemma identifier_end_all:
  "\<forall>ch\<in>set part. \<not> suspicious ch \<and> table_at ch \<noteq> 0 \<Longrightarrow>
   rest = [] \<or> (\<not> suspicious (hd rest) \<and> table_at (hd rest) = 0) \<Longrightarrow>
   identifier_end (part @ rest) pos = Some (pos + length part)"
proof (induction part arbitrary: pos)
  case Nil
  then show ?case by (cases rest) auto
qed auto

lemma not_suspicious_slash: "\<not> suspicious 47"
  by (simp add: suspicious_def)

lemma skip_class_identifier_quick:
  "is_class_identifier_quick rest \<Longrightarrow> rest \<noteq> [] \<Longrightarrow> last rest \<noteq> 47 \<Longrightarrow>
   \<forall>ch\<in>set pre. \<not> suspicious ch \<Longrightarrow>
   skip_class_identifier (pre @ rest) (length pre) = Some (length (pre @ rest))"
proof (induction rest arbitrary: pre rule: is_class_identifier_quick.induct)
  case (2 ch bs)
  then obtain r where ch: "\<not> 127 < ch" "table_at ch = 1" and r: "quick_part bs = Some r"
    and q: "is_class_identifier_quick r"
    by (auto split: if_splits option.splits)
  have ns: "\<not> suspicious ch" using ch by (auto simp: suspicious_def table_at_0)
  have pre: "\<not> list_ex suspicious (take (length pre) (pre @ ch # bs))"
    using "2.prems" by (auto simp: list_ex_iff)
  from r show ?case
  proof (cases rule: quick_part_cases)
    case last
    then have "identifier_end bs (Suc (length pre)) = Some (Suc (length pre) + length bs)"
      using identifier_end_all [of bs "[]"] by simp
    then have "skip_simple_identifier (pre @ ch # bs) (length pre) = Some (length (pre @ ch # bs))"
      using pre ns ch by (simp add: skip_simple_identifier_def Let_def)
    then show ?thesis by (subst skip_class_identifier.simps) simp
  next
    case (more part)
    then have e: "identifier_end bs (Suc (length pre)) = Some (Suc (length pre) + length part)"
      using identifier_end_all [of part "47 # r"] by (simp add: not_suspicious_slash table_at_slash)
    have p: "skip_simple_identifier (pre @ ch # bs) (length pre) = Some (Suc (length pre) + length part)"
      using pre ns ch e by (simp add: skip_simple_identifier_def Let_def)
    have "r \<noteq> []" "last r \<noteq> 47" using "2.prems"(3) more(1) by (auto split: if_splits)
    moreover have "\<forall>ch\<in>set (pre @ ch # part @ [47]). \<not> suspicious ch"
      using "2.prems" more ns not_suspicious_slash by auto
    ultimately have "skip_class_identifier ((pre @ ch # part @ [47]) @ r)
        (length (pre @ ch # part @ [47])) = Some (length ((pre @ ch # part @ [47]) @ r))"
      using "2.IH" ch r q by blast
    then show ?thesis using p more
      by (subst skip_class_identifier.simps) (simp add: nth_append)
  qed
qed simp

lemma quick_empty_part:
  "is_class_identifier_quick (ascii ''a/'')" "skip_class_identifier (ascii ''a/'') 0 = None"
  "is_class_identifier_quick (ascii '''')" "skip_class_identifier (ascii '''') 0 = None"
     apply (simp_all add: ascii_def table_at_def letter_digit_table_def)
   apply code_simp
  apply code_simp
  done

section \<open>Properties\<close>

text \<open>a number below \<open>2 ^ 14\<close>, encoded into two bytes anywhere in a symbol, is read back;
  both bytes have their top bit set, so that the reader knows it from a primitive type.\<close>

theorem encoded_ushort_roundtrip:
  assumes "value < 2 ^ 14" "bytes_of s = pre @ put_encoded_ushort (encode_ushort (of_nat value)) @ post"
  shows "decode_ushort_at s (length pre) = value \<and> size_at s (length pre) = 2"
proof -
  let ?e = "encode_ushort (of_nat value)"
  have "bit (ucast (drop_bit 8 ?e) :: 8 word) 7"
    by (simp add: bit_ucast_iff bit_drop_bit_eq bit_encode_ushort)
  then have "sint (ucast (drop_bit 8 ?e) :: 8 word) < 0"
    by (simp add: sint_uint signed_take_bit_negative_iff bit_uint_iff)
  moreover have "bytes_of s ! length pre = ucast (drop_bit 8 ?e)"
    "bytes_of s ! Suc (length pre) = ucast (?e AND 0xff)"
    by (simp_all add: assms(2) put_encoded_ushort_def nth_append)
  ultimately show ?thesis
    using decode_put_encode [OF assms(1)]
    by (simp add: decode_ushort_at_def size_at_def byte_at_def put_encoded_ushort_def)
qed

theorem encoded_ushort_roundtrip_witness:
  "decode_ushort_at (Symbol Method_signature_near (put_encoded_ushort (encode_ushort 16383))) 0 = 16383"
  using encoded_ushort_roundtrip [of 16383
      "Symbol Method_signature_near (put_encoded_ushort (encode_ushort (of_nat 16383)))" "[]" "[]"]
  by simp

text \<open>C37: the quick test of a class name agrees with the full scan: a name that it accepts is a
  sequence of identifiers between slashes to its end, when it is not empty and does not end
  in a slash.\<close>

theorem class_identifier_quick_sound:
  assumes "is_class_identifier_quick bs" "bs \<noteq> []" "last bs \<noteq> 47"
  shows "skip_class_identifier bs 0 = Some (length bs)"
  using skip_class_identifier_quick [of bs "[]"] assms by simp

theorem class_identifier_quick_sound_witness:
  "skip_class_identifier (ascii ''a/B1'') 0 = Some 4"
  using class_identifier_quick_sound [of "ascii ''a/B1''"]
  by (simp add: ascii_def table_at_def letter_digit_table_def)

text \<open>The two cases that are left are exceptions: the quick test takes the empty name and a name that ends
  in a slash, which the full scan rejects.\<close>

theorem class_identifier_quick_too_weak:
  "is_class_identifier_quick (ascii ''a/'') \<and> skip_class_identifier (ascii ''a/'') 0 = None \<and>
   is_class_identifier_quick (ascii '''') \<and> skip_class_identifier (ascii '''') 0 = None"
  using quick_empty_part by simp

end
