(* ===== verification/Class_Model.thy ===== *)
theory Class_Model
  imports Symbols
begin

text \<open>
  Classes as the verifier and the subtype tests see them: \<open>JavaClass.cpp\<close>,
  \<open>InstanceClass.cpp\<close>, \<open>ArrayClass.cpp\<close>, \<open>ObjArrayClass.cpp\<close>, \<open>TypeArrayClass.cpp\<close>
  and the access test of \<open>Method.cpp\<close>.  A class holds its superclass (the chain of
  superclasses of a loaded class is finite, so the type is a datatype); its
  interfaces are the class ids of its itable.  Two classes are equal when they are
  the same object, that is when their class ids are equal.
\<close>

record jmethod =
  jm_name :: symbol
  jm_signature :: symbol
  jm_public :: bool
  jm_private :: bool
  jm_protected :: bool
  jm_final :: bool

record jfield =
  jf_name :: symbol
  jf_signature :: symbol
  jf_protected :: bool

datatype java_class =
    Instance_Class (class_id: nat) (class_name: symbol) (interface_flag: bool)
      (super_of: "java_class option") (itable_of: "nat list")
      (methods_of: "jmethod list") (fields_of: "jfield list")
  | Obj_Array_Class (class_id: nat) (class_name: symbol) (super_of: "java_class option")
      (element_class: java_class)
  | Type_Array_Class (class_id: nat) (class_name: symbol) (super_of: "java_class option")
      (array_type: basic_type)

definition is_instance_class :: "java_class \<Rightarrow> bool" where
  "is_instance_class c = (case c of Instance_Class _ _ _ _ _ _ _ \<Rightarrow> True | _ \<Rightarrow> False)"

definition is_obj_array_class :: "java_class \<Rightarrow> bool" where
  "is_obj_array_class c = (case c of Obj_Array_Class _ _ _ _ \<Rightarrow> True | _ \<Rightarrow> False)"

definition is_type_array_class :: "java_class \<Rightarrow> bool" where
  "is_type_array_class c = (case c of Type_Array_Class _ _ _ _ \<Rightarrow> True | _ \<Rightarrow> False)"

definition is_array_class :: "java_class \<Rightarrow> bool" where
  "is_array_class c = (is_obj_array_class c \<or> is_type_array_class c)"

definition is_interface :: "java_class \<Rightarrow> bool" where
  "is_interface c = (case c of Instance_Class _ _ i _ _ _ _ \<Rightarrow> i | _ \<Rightarrow> False)"

definition class_equals :: "java_class \<Rightarrow> java_class \<Rightarrow> bool" where
  "class_equals a b = (class_id a = class_id b)"

lemma super_size: "super_of c = Some d \<Longrightarrow> size d < size c"
  by (cases c) auto

text \<open>The superclasses of a class, the class itself first.\<close>

function super_chain :: "java_class \<Rightarrow> java_class list" where
  "super_chain c = c # (case super_of c of None \<Rightarrow> [] | Some d \<Rightarrow> super_chain d)"
  by pat_completeness auto
termination
  by (relation "measure size") (auto dest: super_size)

declare super_chain.simps [simp del]


section \<open>Subclasses and subtypes\<close>

function is_subclass_of :: "java_class \<Rightarrow> java_class \<Rightarrow> bool" where
  "is_subclass_of current other =
    (if class_equals other current then True
     else (case super_of current of None \<Rightarrow> False | Some s \<Rightarrow> is_subclass_of s other))"
  by pat_completeness auto
termination
  by (relation "measure (\<lambda>(current, other). size current)") (auto dest: super_size)

declare is_subclass_of.simps [simp del]

definition is_strict_subclass_of :: "java_class \<Rightarrow> java_class \<Rightarrow> bool" where
  "is_strict_subclass_of current other =
    (case super_of current of None \<Rightarrow> False | Some s \<Rightarrow> is_subclass_of s other)"

definition itable_contains :: "java_class \<Rightarrow> java_class \<Rightarrow> bool" where
  "itable_contains this other =
    (case this of Instance_Class _ _ _ _ itable _ _ \<Rightarrow> class_id other \<in> set itable
     | _ \<Rightarrow> False)"

text \<open>The three \<open>compute_is_subtype_of\<close> of the array classes and of the instance
  classes; \<open>object_class\<close> is the argument \<open>obj\<close>.  \<open>is_subtype_of\<close> first looks at two
  cached superclasses of an earlier success, which are supertypes by that success;
  it is the function itself here.\<close>

definition array_compute_is_subtype_of :: "java_class \<Rightarrow> java_class \<Rightarrow> bool" where
  "array_compute_is_subtype_of obj other = class_equals obj other"

definition instance_compute_is_subtype_of :: "java_class \<Rightarrow> java_class \<Rightarrow> bool" where
  "instance_compute_is_subtype_of this other =
    (if is_interface other then class_equals this other \<or> itable_contains this other
     else is_subclass_of this other)"

function compute_is_subtype_of :: "java_class \<Rightarrow> java_class \<Rightarrow> java_class \<Rightarrow> bool" where
  "compute_is_subtype_of obj this other =
    (if class_equals this other then True
     else (case this of
        Instance_Class _ _ _ _ _ _ _ \<Rightarrow> instance_compute_is_subtype_of this other
      | Obj_Array_Class _ _ _ element \<Rightarrow>
          (case other of
             Obj_Array_Class _ _ _ other_element \<Rightarrow>
               compute_is_subtype_of obj element other_element
           | _ \<Rightarrow> array_compute_is_subtype_of obj other)
      | Type_Array_Class _ _ _ _ \<Rightarrow>
          class_equals this other \<or> array_compute_is_subtype_of obj other))"
  by pat_completeness auto
termination
  by (relation "measure (\<lambda>(obj, this, other). size this)") auto

declare compute_is_subtype_of.simps [simp del]


section \<open>Packages and access\<close>

definition class_is_same_class_package :: "java_class \<Rightarrow> symbol \<Rightarrow> bool" where
  "class_is_same_class_package c other_name = is_same_class_package (class_name c) other_name"

text \<open>\<open>Method::can_access_by\<close>; the method's holder is an argument.\<close>

definition can_access_by :: "jmethod \<Rightarrow> java_class \<Rightarrow> java_class \<Rightarrow> java_class \<Rightarrow> bool" where
  "can_access_by m holder sender_class static_receiver_class =
    (if jm_public m then True
     else if class_equals holder sender_class then True
     else if \<not> jm_private m then
       (if class_is_same_class_package holder (class_name sender_class) then True
        else if jm_protected m then
          is_subclass_of sender_class holder \<and>
          (class_equals static_receiver_class sender_class \<or>
           is_subclass_of static_receiver_class sender_class \<or>
           is_subclass_of sender_class static_receiver_class)
        else False)
     else False)"

text \<open>\<open>InstanceClass::find_method\<close> on a class's methods, and the search along the
  superclasses (\<open>lookup_method\<close>) that returns the method with its holder.\<close>

definition find_method :: "jmethod list \<Rightarrow> symbol \<Rightarrow> symbol \<Rightarrow> jmethod option" where
  "find_method ms name signature =
     List.find (\<lambda>m. sym_equals (jm_name m) name \<and> sym_equals (jm_signature m) signature) ms"

definition class_methods :: "java_class \<Rightarrow> jmethod list" where
  "class_methods c = (case c of Instance_Class _ _ _ _ _ ms _ \<Rightarrow> ms | _ \<Rightarrow> [])"

definition class_fields :: "java_class \<Rightarrow> jfield list" where
  "class_fields c = (case c of Instance_Class _ _ _ _ _ _ fs \<Rightarrow> fs | _ \<Rightarrow> [])"

fun lookup_method_in :: "java_class list \<Rightarrow> symbol \<Rightarrow> symbol \<Rightarrow> (jmethod \<times> java_class) option" where
  "lookup_method_in [] name signature = None"
| "lookup_method_in (c # cs) name signature =
    (case find_method (class_methods c) name signature of
       Some m \<Rightarrow> Some (m, c)
     | None \<Rightarrow> lookup_method_in cs name signature)"

definition lookup_method :: "java_class \<Rightarrow> symbol \<Rightarrow> symbol \<Rightarrow> (jmethod \<times> java_class) option" where
  "lookup_method c name signature = lookup_method_in (super_chain c) name signature"

end
