(* ===== verification/Type_Symbol.thy ===== *)
theory Type_Symbol
  imports Class_Model
begin

text \<open>
  Descriptors: the parser that turns the text of a field or method descriptor into
  the encoded bytes of a type symbol (\<open>TypeSymbol.cpp\<close>, \<open>ParseStream\<close>), and the readers
  of those bytes (\<open>FieldType\<close>, \<open>Signature\<close>, \<open>SignatureStream\<close>).  An encoded type is
  one byte for a primitive type and the class id, in two bytes with their top bits
  set, for a class; an encoded method signature is the number of parameter words,
  the return type and the parameter types.

  The universe, the class loader and the search for a field (\<open>Field.cpp\<close>, with the
  fields a profile of the ROM hides) are arguments, in the record \<open>vm\<close>.
\<close>

record vm =
  class_from_id :: "nat \<Rightarrow> java_class"
  object_class :: java_class
  throwable_class :: java_class
  primitive_array_class :: "nat \<Rightarrow> java_class"
  sd_resolve :: "symbol \<Rightarrow> error_tag + java_class"
  sd_semi_resolve :: "symbol \<Rightarrow> error_tag + java_class"
  sd_find_class_or_null :: "symbol \<Rightarrow> java_class option"
  get_array_class :: "java_class \<Rightarrow> nat \<Rightarrow> error_tag + java_class"
  lookup_field :: "java_class \<Rightarrow> symbol \<Rightarrow> symbol \<Rightarrow> (jfield \<times> java_class) option"


section \<open>Encoded types\<close>

definition object_basic_type_at :: "vm \<Rightarrow> symbol \<Rightarrow> nat \<Rightarrow> basic_type" where
  "object_basic_type_at vm s index =
     (if is_instance_class (class_from_id vm (decode_ushort_at s index)) then T_OBJECT
      else T_ARRAY)"

text \<open>\<open>FieldType::basic_type\<close>, \<open>object_type\<close>, \<open>object_type_symbol\<close>.\<close>

definition field_basic_type :: "vm \<Rightarrow> symbol \<Rightarrow> basic_type" where
  "field_basic_type vm s =
     (if sym_length s = 1 then primitive_field_basic_type_for (byte_at s 0)
      else object_basic_type_at vm s 0)"

definition object_type :: "vm \<Rightarrow> symbol \<Rightarrow> java_class" where
  "object_type vm s = class_from_id vm (decode_ushort_at s 0)"

definition object_type_symbol :: "vm \<Rightarrow> symbol \<Rightarrow> symbol" where
  "object_type_symbol vm s = class_name (object_type vm s)"

definition is_valid_class_name :: "vm \<Rightarrow> symbol \<Rightarrow> bool" where
  "is_valid_class_name vm s =
     (if is_class_identifier_quick (bytes_of s) then True
      else if is_valid_field_type s then
        (if sym_length s = 1 then True else field_basic_type vm s = T_ARRAY)
      else (case skip_class_identifier (bytes_of s) 0 of
              None \<Rightarrow> False
            | Some position \<Rightarrow> position = sym_length s))"

text \<open>\<open>TypeSymbol::obj_array_class_name(Symbol*)\<close>: the name of the class of arrays of
  an element class.\<close>

definition obj_array_class_name :: "vm \<Rightarrow> symbol \<Rightarrow> error_tag + symbol" where
  "obj_array_class_name vm element_class_name =
     jvm_check
       (if is_valid_field_type element_class_name \<and> 1 < sym_length element_class_name
        then Inr (object_type vm element_class_name)
        else sd_semi_resolve vm element_class_name)
       (\<lambda>klass. jvm_check (get_array_class vm klass 1) (\<lambda>ac. Inr (class_name ac)))"


section \<open>The parser\<close>

text \<open>The text is memory with a length; \<open>next_char\<close> reads it without a check in a
  product build.\<close>

record parse_stream =
  ps_mem :: "nat \<Rightarrow> 8 word"
  ps_len :: nat
  ps_pos :: nat
  ps_is_method :: bool
  ps_token_count :: int
  ps_token_word_count :: int
  ps_parameter_word_count :: int
  ps_close_paren :: int

definition ps_initialize :: "(nat \<Rightarrow> 8 word) \<Rightarrow> nat \<Rightarrow> error_tag + parse_stream" where
  "ps_initialize mem len =
    (let ps = \<lparr> ps_mem = mem, ps_len = len, ps_pos = 0, ps_is_method = False,
                ps_token_count = 0, ps_token_word_count = 0,
                ps_parameter_word_count = 0, ps_close_paren = - 1 \<rparr>
     in if mem 0 = 40 then
          (if 3 \<le> len then Inr (ps\<lparr> ps_pos := 1, ps_is_method := True \<rparr>)
           else Inl invalid_signature)
        else Inr ps)"

definition next_char :: "parse_stream \<Rightarrow> 8 word \<times> parse_stream" where
  "next_char ps = (ps_mem ps (ps_pos ps), ps\<lparr> ps_pos := ps_pos ps + 1 \<rparr>)"

text \<open>The position behind the first \<open>';'\<close>, \<open>None\<close> when there is none.\<close>

function find_semicolon :: "(nat \<Rightarrow> 8 word) \<Rightarrow> nat \<Rightarrow> nat \<Rightarrow> nat option" where
  "find_semicolon mem len cur =
    (if cur < len then
       (if mem cur = 59 then Some (cur + 1) else find_semicolon mem len (cur + 1))
     else None)"
  by pat_completeness auto
termination
  by (relation "measure (\<lambda>(mem, len, cur). len - cur)") auto

declare find_semicolon.simps [simp del]

definition get_class :: "vm \<Rightarrow> parse_stream \<Rightarrow> error_tag + (java_class \<times> parse_stream)" where
  "get_class vm ps =
    (case find_semicolon (ps_mem ps) (ps_len ps) (ps_pos ps) of
       None \<Rightarrow> Inl invalid_signature
     | Some cur \<Rightarrow>
         let name = Symbol Symbol_near (map (ps_mem ps) [ps_pos ps..<cur - 1]) in
         if \<not> is_valid_class_name vm name then Inl invalid_signature
         else jvm_check (sd_semi_resolve vm name)
                (\<lambda>klass. Inr (klass, ps\<lparr> ps_pos := cur \<rparr>)))"

function skip_digits :: "(nat \<Rightarrow> 8 word) \<Rightarrow> nat \<Rightarrow> nat \<Rightarrow> nat" where
  "skip_digits mem len cur =
    (if cur < len \<and> 48 \<le> mem cur \<and> mem cur \<le> 57 then skip_digits mem len (cur + 1)
     else cur)"
  by pat_completeness auto
termination
  by (relation "measure (\<lambda>(mem, len, cur). len - cur)") auto

declare skip_digits.simps [simp del]

definition skip_optional_size :: "parse_stream \<Rightarrow> parse_stream" where
  "skip_optional_size ps = ps\<lparr> ps_pos := skip_digits (ps_mem ps) (ps_len ps) (ps_pos ps) \<rparr>"

text \<open>The loop over the dimensions; \<open>fuel\<close> is the number of iterations the code's
  bound \<open>dimension < 256\<close> leaves.\<close>

fun get_array_class_loop ::
    "vm \<Rightarrow> nat \<Rightarrow> nat \<Rightarrow> parse_stream \<Rightarrow> error_tag + (java_class \<times> parse_stream)" where
  "get_array_class_loop vm 0 dimension ps = Inl invalid_signature"
| "get_array_class_loop vm (Suc fuel) dimension ps =
    (let ps1 = skip_optional_size ps in
     if ps_len ps1 \<le> ps_pos ps1 then Inl invalid_signature
     else let (byte, ps2) = next_char ps1 in
       if byte = 76 then
         jvm_check (get_class vm ps2) (\<lambda>(ic, ps3).
           jvm_check (get_array_class vm ic dimension) (\<lambda>ac. Inr (ac, ps3)))
       else if byte = 91 then get_array_class_loop vm fuel (dimension + 1) ps2
       else if 66 \<le> byte \<and> byte \<le> 90 \<and> simple_type_symbol_table ! unat (byte - 66) \<noteq> 0 then
         jvm_check (get_array_class vm
             (primitive_array_class vm (simple_type_symbol_table ! unat (byte - 66) - 1))
             dimension)
           (\<lambda>ac. Inr (ac, ps2))
       else Inl invalid_signature)"

definition ps_get_array_class :: "vm \<Rightarrow> parse_stream \<Rightarrow> error_tag + (java_class \<times> parse_stream)" where
  "ps_get_array_class vm ps = get_array_class_loop vm 255 1 ps"

text \<open>\<open>ParseStream::next\<close>: \<open>None\<close> is \<open>PARSE_END\<close>, else the type as the code returns
  it, a character or an encoded class id.\<close>

definition ps_token :: "vm \<Rightarrow> 8 word \<Rightarrow> parse_stream \<Rightarrow> error_tag + (32 word option \<times> parse_stream)" where
  "ps_token vm byte ps =
    (let ps1 = ps\<lparr> ps_token_count := ps_token_count ps + 1,
                   ps_token_word_count := ps_token_word_count ps + 1 \<rparr> in
     if byte = 86 \<or> is_simple_type_symbol (uint byte) then
       Inr (Some (ucast byte),
            if byte = 74 \<or> byte = 68
            then ps1\<lparr> ps_token_word_count := ps_token_word_count ps1 + 1 \<rparr> else ps1)
     else if byte = 76 then
       jvm_check (get_class vm ps1) (\<lambda>(ic, ps2).
         Inr (Some (encode_ushort (of_nat (class_id ic))), ps2))
     else if byte = 91 then
       jvm_check (ps_get_array_class vm ps1) (\<lambda>(ac, ps2).
         Inr (Some (encode_ushort (of_nat (class_id ac))), ps2))
     else Inl invalid_signature)"

definition ps_next :: "vm \<Rightarrow> parse_stream \<Rightarrow> error_tag + (32 word option \<times> parse_stream)" where
  "ps_next vm ps =
    (if ps_len ps \<le> ps_pos ps then Inr (None, ps)
     else let (byte, ps1) = next_char ps in
       if byte = 41 then
         (if ps_close_paren ps1 = - 1 then
            let ps2 = ps1\<lparr> ps_close_paren := ps_token_count ps1,
                           ps_parameter_word_count := ps_token_word_count ps1 \<rparr>;
                (byte', ps3) = next_char ps2
            in ps_token vm byte' ps3
          else Inl invalid_signature)
       else ps_token vm byte ps1)"

definition ps_is_valid_method_signature :: "parse_stream \<Rightarrow> bool" where
  "ps_is_valid_method_signature ps = (ps_token_count ps = ps_close_paren ps + 1)"

text \<open>The output loop of \<open>internal_parse\<close>: the bytes from buffer position 4 on and the
  last type.\<close>

fun parse_loop :: "vm \<Rightarrow> nat \<Rightarrow> parse_stream \<Rightarrow> 8 word list \<Rightarrow> 32 word \<Rightarrow>
    error_tag + (parse_stream \<times> 8 word list \<times> 32 word)" where
  "parse_loop vm 0 ps out last_type = Inl unbounded_read"
| "parse_loop vm (Suc fuel) ps out last_type =
    jvm_check (ps_next vm ps) (\<lambda>(t, ps').
      case t of
        None \<Rightarrow> Inr (ps', out, last_type)
      | Some type \<Rightarrow>
          let out' = out @ (if type < 128 then [ucast type] else put_encoded_ushort type) in
          if 4 + length out' < 4 + 256 * 2 then parse_loop vm fuel ps' out' type
          else Inl invalid_signature)"

definition parse_simple_field_type :: "8 word \<Rightarrow> error_tag + symbol" where
  "parse_simple_field_type c =
     (if is_simple_type_symbol (uint c) then Inr (Symbol Field_type_near [c])
      else Inl invalid_signature)"

definition finish_parse ::
    "parse_stream \<Rightarrow> 8 word list \<Rightarrow> 32 word \<Rightarrow> error_tag + symbol" where
  "finish_parse ps out last_type =
    (if ps_is_method ps then
       (if ps_is_valid_method_signature ps \<and> ps_parameter_word_count ps \<le> 255 then
          let pwords = put_encoded_ushort (encode_ushort (word_of_int (ps_parameter_word_count ps)))
          in if last_type < 128
             then Inr (Symbol Method_signature_near
                         (pwords @ [ucast last_type] @ take (length out - 1) out))
             else Inr (Symbol Method_signature_near
                         (pwords @ put_encoded_ushort last_type @ take (length out - 2) out))
        else Inl invalid_signature)
     else if ps_token_count ps = 1 \<and> last_type \<noteq> 86 then Inr (Symbol Field_type_near out)
     else Inl invalid_signature)"

definition internal_parse :: "vm \<Rightarrow> (nat \<Rightarrow> 8 word) \<Rightarrow> nat \<Rightarrow> error_tag + symbol" where
  "internal_parse vm mem len =
    (if len = 1 then parse_simple_field_type (mem 0)
     else if len = 0 then Inl invalid_signature
     else jvm_check (ps_initialize mem len) (\<lambda>ps.
       jvm_check (parse_loop vm (len + 1) ps [] 0) (\<lambda>(ps', out, last_type).
         finish_parse ps' out last_type)))"


section \<open>Reading signatures\<close>

definition parameter_word_size :: "symbol \<Rightarrow> bool \<Rightarrow> nat" where
  "parameter_word_size s is_static =
     (let size = decode_ushort_at s 0 in if is_static then size else size + 1)"

definition return_type :: "vm \<Rightarrow> symbol \<Rightarrow> bool \<Rightarrow> basic_type" where
  "return_type vm s fast =
     (let chr = byte_at s 2 in
      if 0 \<le> chr then primitive_field_basic_type_for chr
      else if fast then T_OBJECT
      else object_basic_type_at vm s 2)"

definition return_type_symbol :: "vm \<Rightarrow> symbol \<Rightarrow> symbol" where
  "return_type_symbol vm s = class_name (class_from_id vm (decode_ushort_at s 2))"

record sig_stream =
  ss_signature :: symbol
  ss_num_param_words :: nat
  ss_num_processed :: nat
  ss_current_class_id :: nat
  ss_word_index :: nat
  ss_position :: nat
  ss_type :: basic_type
  ss_fast :: bool
  ss_is_return_type :: bool

definition ss_next :: "vm \<Rightarrow> sig_stream \<Rightarrow> sig_stream" where
  "ss_next vm ss =
    (let s = ss_signature ss;
         ss1 = ss\<lparr> ss_word_index := ss_word_index ss + word_size_for (ss_type ss) \<rparr> in
     if ss_num_processed ss < ss_num_param_words ss then
       let chr = byte_at s (ss_position ss);
           ss2 = (if 0 \<le> chr then
                    ss1\<lparr> ss_type := primitive_field_basic_type_for chr,
                         ss_position := ss_position ss + 1 \<rparr>
                  else
                    let id = decode_ushort_at s (ss_position ss) in
                    ss1\<lparr> ss_type := (if \<not> ss_fast ss \<and> \<not> is_instance_class (class_from_id vm id)
                                     then T_ARRAY else T_OBJECT),
                         ss_current_class_id := id,
                         ss_position := ss_position ss + 2 \<rparr>)
       in ss2\<lparr> ss_num_processed := ss_num_processed ss + word_size_for (ss_type ss2) \<rparr>
     else ss1\<lparr> ss_is_return_type := True, ss_type := return_type vm s (ss_fast ss),
               ss_num_processed := ss_num_processed ss + 1 \<rparr>)"

definition ss_eos :: "sig_stream \<Rightarrow> bool" where
  "ss_eos ss = (ss_num_param_words ss < ss_num_processed ss)"

definition ss_init :: "vm \<Rightarrow> symbol \<Rightarrow> bool \<Rightarrow> bool \<Rightarrow> sig_stream" where
  "ss_init vm s is_static fast =
    (let ss = \<lparr> ss_signature = s, ss_num_param_words = decode_ushort_at s 0,
                ss_num_processed = 0, ss_current_class_id = 0, ss_word_index = 0,
                ss_position = 2 + size_at s 2,
                ss_type = (if is_static then T_VOID else T_OBJECT),
                ss_fast = fast, ss_is_return_type = False \<rparr>
     in if is_static then ss_next vm ss else ss)"

definition ss_type_symbol :: "vm \<Rightarrow> sig_stream \<Rightarrow> symbol" where
  "ss_type_symbol vm ss = class_name (class_from_id vm (ss_current_class_id ss))"

text \<open>The elements a loop \<open>for (; !ss.eos(); ss.next())\<close> visits: their types and, for a
  reference, the name of its class.  Every element but a \<open>T_VOID\<close> processes a word, so
  one more round than there are parameter words is enough for the signatures that
  have no such parameter; \<open>None\<close> when it is not.\<close>

fun ss_elements :: "vm \<Rightarrow> nat \<Rightarrow> sig_stream \<Rightarrow> (basic_type \<times> symbol option) list option" where
  "ss_elements vm 0 ss = (if ss_eos ss then Some [] else None)"
| "ss_elements vm (Suc fuel) ss =
    (if ss_eos ss then Some []
     else map_option ((#) (ss_type ss,
            if ss_type ss = T_OBJECT \<or> ss_type ss = T_ARRAY
            then Some (ss_type_symbol vm ss) else None))
          (ss_elements vm fuel (ss_next vm ss)))"

definition signature_parameters :: "vm \<Rightarrow> symbol \<Rightarrow> (basic_type \<times> symbol option) list option" where
  "signature_parameters vm s =
     ss_elements vm (decode_ushort_at s 0) (ss_init vm s True False)"

end
