(* ===== verification/Constant_Pool.thy ===== *)
theory Constant_Pool
  imports Type_Symbol
begin

text \<open>
  The constant pool: its tags (\<open>ConstantTag.hpp\<close>), the bounds test and the accessors
  the verifier uses (\<open>ConstantPool.hpp\<close>, \<open>ConstantPool.cpp\<close>) and \<open>resolve_helper_0\<close>
  of \<open>HotRoutines.incl.hpp\<close>, which follows a field or method reference to its name,
  type and class.  An entry is its tag with the fields of its 32-bit value.
\<close>

datatype cp_entry =
    CP_Invalid
  | CP_Utf8 symbol
  | CP_Integer "32 word"
  | CP_Float "32 word"
  | CP_Long "64 word"
  | CP_Double "64 word"
  | CP_Class nat \<comment> \<open>resolved: a class id\<close>
  | CP_UnresolvedClass symbol
  | CP_ClassIndex nat \<comment> \<open>while the class file is parsed\<close>
  | CP_String
  | CP_UnresolvedString symbol
  | CP_Fieldref nat nat \<comment> \<open>class index, name and type index\<close>
  | CP_Methodref nat nat
  | CP_InterfaceMethodref nat nat
  | CP_NameAndType nat nat \<comment> \<open>name index, signature index\<close>
  | CP_Other nat \<comment> \<open>a resolved entry, by its tag\<close>

type_synonym constant_pool = "cp_entry list"

definition is_within_bounds :: "constant_pool \<Rightarrow> int \<Rightarrow> bool" where
  "is_within_bounds cp index =
     ((word_of_int index :: 32 word) < word_of_int (int (length cp)))"

definition entry_at :: "constant_pool \<Rightarrow> int \<Rightarrow> cp_entry" where
  "entry_at cp index = cp ! nat index"

text \<open>The tag queries.\<close>

fun is_resolved_klass :: "cp_entry \<Rightarrow> bool" where
  "is_resolved_klass (CP_Class _) = True" | "is_resolved_klass _ = False"
fun is_unresolved_klass :: "cp_entry \<Rightarrow> bool" where
  "is_unresolved_klass (CP_UnresolvedClass _) = True" | "is_unresolved_klass _ = False"
fun is_klass_index :: "cp_entry \<Rightarrow> bool" where
  "is_klass_index (CP_ClassIndex _) = True" | "is_klass_index _ = False"
definition is_klass :: "cp_entry \<Rightarrow> bool" where
  "is_klass e = (is_resolved_klass e \<or> is_unresolved_klass e)"
fun is_field :: "cp_entry \<Rightarrow> bool" where
  "is_field (CP_Fieldref _ _) = True" | "is_field _ = False"
fun is_method :: "cp_entry \<Rightarrow> bool" where
  "is_method (CP_Methodref _ _) = True" | "is_method _ = False"
fun is_interface_method :: "cp_entry \<Rightarrow> bool" where
  "is_interface_method (CP_InterfaceMethodref _ _) = True" | "is_interface_method _ = False"
definition is_field_or_method :: "cp_entry \<Rightarrow> bool" where
  "is_field_or_method e = (is_field e \<or> is_method e \<or> is_interface_method e)"
fun is_name_and_type :: "cp_entry \<Rightarrow> bool" where
  "is_name_and_type (CP_NameAndType _ _) = True" | "is_name_and_type _ = False"
fun is_utf8 :: "cp_entry \<Rightarrow> bool" where
  "is_utf8 (CP_Utf8 _) = True" | "is_utf8 _ = False"

text \<open>The two halves of a value, and the symbol of a Utf8 entry.\<close>

fun ref_indices :: "cp_entry \<Rightarrow> nat \<times> nat" where
  "ref_indices (CP_Fieldref c n) = (c, n)"
| "ref_indices (CP_Methodref c n) = (c, n)"
| "ref_indices (CP_InterfaceMethodref c n) = (c, n)"
| "ref_indices (CP_NameAndType n s) = (n, s)"
| "ref_indices _ = (0, 0)"

fun utf8_symbol :: "cp_entry \<Rightarrow> symbol" where
  "utf8_symbol (CP_Utf8 s) = s"
| "utf8_symbol _ = Symbol Symbol_near []"

definition check_klass_at :: "constant_pool \<Rightarrow> int \<Rightarrow> bool" where
  "check_klass_at cp index =
     (is_within_bounds cp index \<and>
      (is_klass_index (entry_at cp index) \<or> is_resolved_klass (entry_at cp index) \<or>
       is_unresolved_klass (entry_at cp index)))"

text \<open>\<open>name_of_klass_at\<close>: the name of a resolved or unresolved class entry.
  \<open>resolved_klass_at\<close> rejects an entry of any other kind.\<close>

definition name_of_klass_at :: "vm \<Rightarrow> constant_pool \<Rightarrow> int \<Rightarrow> error_tag + symbol" where
  "name_of_klass_at vm cp index =
    (if \<not> is_within_bounds cp index then Inl invalid_constant
     else case entry_at cp index of
         CP_UnresolvedClass s \<Rightarrow> Inr s
       | CP_Class i \<Rightarrow> Inr (class_name (class_from_id vm i))
       | _ \<Rightarrow> Inl invalid_constant)"

text \<open>\<open>klass_at\<close> resolves an unresolved entry and replaces it in the pool.\<close>

definition klass_at :: "vm \<Rightarrow> constant_pool \<Rightarrow> int \<Rightarrow> error_tag + (java_class \<times> constant_pool)" where
  "klass_at vm cp index =
    (if \<not> is_within_bounds cp index then Inl invalid_constant
     else case entry_at cp index of
         CP_UnresolvedClass s \<Rightarrow>
           jvm_check (sd_resolve vm s) (\<lambda>result.
             Inr (class_from_id vm (class_id result), cp[nat index := CP_Class (class_id result)]))
       | CP_Class i \<Rightarrow> Inr (class_from_id vm i, cp)
       | _ \<Rightarrow> Inl invalid_constant)"

text \<open>\<open>resolve_helper_0\<close> without a class handle: name, signature, class name.\<close>

definition resolve_helper :: "vm \<Rightarrow> constant_pool \<Rightarrow> int \<Rightarrow> error_tag + (symbol \<times> symbol \<times> symbol)" where
  "resolve_helper vm cp index =
    (if \<not> is_within_bounds cp index \<or> \<not> is_field_or_method (entry_at cp index)
     then Inl invalid_constant
     else
       let (class_index, name_and_type_index) = ref_indices (entry_at cp index) in
       if \<not> is_within_bounds cp (int name_and_type_index) \<or>
          \<not> is_name_and_type (entry_at cp (int name_and_type_index)) then Inl invalid_constant
       else if \<not> is_within_bounds cp (int class_index) \<or>
          \<not> is_klass (entry_at cp (int class_index)) then Inl invalid_constant
       else
         let (name_index, signature_index) = ref_indices (entry_at cp (int name_and_type_index)) in
         if \<not> is_within_bounds cp (int name_index) \<or>
            \<not> is_utf8 (entry_at cp (int name_index)) then Inl invalid_constant
         else if \<not> is_within_bounds cp (int signature_index) \<or>
            \<not> is_utf8 (entry_at cp (int signature_index)) then Inl invalid_constant
         else Inr (utf8_symbol (entry_at cp (int name_index)),
                   utf8_symbol (entry_at cp (int signature_index)),
                   (case entry_at cp (int class_index) of
                      CP_UnresolvedClass s \<Rightarrow> s
                    | CP_Class i \<Rightarrow> class_name (class_from_id vm i)
                    | _ \<Rightarrow> Symbol Symbol_near [])))"


section \<open>Lemmas\<close>

lemma is_within_bounds_iff:
  assumes "0 \<le> index" "index < 4294967296" "length cp < 4294967296"
  shows "is_within_bounds cp index \<longleftrightarrow> index < int (length cp)"
  using assms by (simp add: is_within_bounds_def word_less_def uint_word_of_int
      unsigned_of_nat take_bit_eq_mod)

text \<open>A class entry that the tag test accepts has a name.\<close>

lemma name_of_klass_at_Inr:
  assumes "is_within_bounds cp index" "is_klass (entry_at cp index)"
  shows "\<exists>s. name_of_klass_at vm cp index = Inr s"
  using assms unfolding name_of_klass_at_def is_klass_def
  by (cases "entry_at cp index") auto

end
