(* ===== verification/Class_Parser.thy ===== *)
theory Class_Parser
  imports Constant_Pool Code_Memory
begin

text \<open>
  The parts of \<open>ClassFileParser.cpp\<close> the verifier depends on: the readers of the
  class file, the exception table, the stack maps that the preverifier left in the
  class file, and the access flags of a method or field.

  The buffer is a memory of bytes with a read pointer and an end: the readers
  check the pointer after they have moved it, and what lies behind the end is
  memory like any other.  An array the parser allocates is a list; an element
  that is stored outside of it would be lost here and is proved not to happen.
  Running out of memory in an allocation is not modelled.
\<close>

section \<open>Readers\<close>

record parser =
  buf :: code_mem
  bufptr :: int
  bufend :: int

definition get_u1 :: "parser \<Rightarrow> error_tag + (int \<times> parser)" where
  "get_u1 p = (let ptr = bufptr p + 1 in
     if ptr \<le> bufend p then Inr (uint (buf p (bufptr p)), p\<lparr>bufptr := ptr\<rparr>)
     else Inl truncated_class_file)"

definition get_u2 :: "parser \<Rightarrow> error_tag + (int \<times> parser)" where
  "get_u2 p = (let ptr = bufptr p + 2 in
     if ptr \<le> bufend p then Inr (uint (get_Java_u2 (buf p) (bufptr p)), p\<lparr>bufptr := ptr\<rparr>)
     else Inl truncated_class_file)"

definition get_u4 :: "parser \<Rightarrow> error_tag + (int \<times> parser)" where
  "get_u4 p = (let ptr = bufptr p + 4 in
     if ptr > bufend p then Inl truncated_class_file
     else Inr (uint (get_Java_u4 (buf p) (bufptr p)), p\<lparr>bufptr := ptr\<rparr>))"

definition skip_u1 :: "int \<Rightarrow> parser \<Rightarrow> error_tag + parser" where
  "skip_u1 len p = (let ptr = bufptr p + len in
     if ptr > bufend p then Inl truncated_class_file else Inr (p\<lparr>bufptr := ptr\<rparr>))"


section \<open>Stack map tags\<close>

type_synonym tag = "32 word"

abbreviation (input) ITEM_Bogus :: tag where "ITEM_Bogus \<equiv> 0"
abbreviation (input) ITEM_Integer :: tag where "ITEM_Integer \<equiv> 1"
abbreviation (input) ITEM_Float :: tag where "ITEM_Float \<equiv> 2"
abbreviation (input) ITEM_Double :: tag where "ITEM_Double \<equiv> 3"
abbreviation (input) ITEM_Long :: tag where "ITEM_Long \<equiv> 4"
abbreviation (input) ITEM_Null :: tag where "ITEM_Null \<equiv> 5"
abbreviation (input) ITEM_InitObject :: tag where "ITEM_InitObject \<equiv> 6"
abbreviation (input) ITEM_Object :: tag where "ITEM_Object \<equiv> 7"
abbreviation (input) ITEM_NewObject :: tag where "ITEM_NewObject \<equiv> 8"
abbreviation (input) ITEM_Long_2 :: tag where "ITEM_Long_2 \<equiv> 9"
abbreviation (input) ITEM_Double_2 :: tag where "ITEM_Double_2 \<equiv> 10"
abbreviation (input) ITEM_Category1 :: tag where "ITEM_Category1 \<equiv> 11"
abbreviation (input) ITEM_Category2 :: tag where "ITEM_Category2 \<equiv> 12"
abbreviation (input) ITEM_DoubleWord :: tag where "ITEM_DoubleWord \<equiv> 13"
abbreviation (input) ITEM_Reference :: tag where "ITEM_Reference \<equiv> 14"
abbreviation (input) ITEM_NewObject_Flag :: tag where "ITEM_NewObject_Flag \<equiv> 0x1000"

definition encode_newobject :: "int \<Rightarrow> tag" where
  "encode_newobject pc = push_bit 16 (word_of_int pc AND 0xFFFF) OR ITEM_NewObject_Flag"

definition decode_newobject :: "tag \<Rightarrow> int" where
  "decode_newobject no = uint (drop_bit 16 no AND 0xFFFF)"

definition is_newobject :: "tag \<Rightarrow> bool" where
  "is_newobject tag_type = (tag_type AND ITEM_NewObject_Flag \<noteq> 0)"


section \<open>The stack maps of a method\<close>

text \<open>One stack map: a scalar array (code offset, number of locals, their tags, number
  of stack words, their tags) and a class array that runs beside it.\<close>

type_synonym stackmap = "tag list \<times> symbol option list"

text \<open>The readers of a stack map (\<open>VerifierFrame\<close>).\<close>

definition map_offset :: "stackmap \<Rightarrow> int" where
  "map_offset sm = sint (fst sm ! 0)"

definition map_nlocals :: "stackmap \<Rightarrow> nat" where
  "map_nlocals sm = unat (fst sm ! 1)"

definition map_nstack :: "stackmap \<Rightarrow> nat" where
  "map_nstack sm = unat (fst sm ! (map_nlocals sm + 2))"

record map_parser =
  mp_parser :: parser
  mp_scalars :: "tag list"
  mp_classes :: "symbol option list"
  mp_index :: nat
  mp_size_delta :: nat

definition mp_put :: "tag \<Rightarrow> map_parser \<Rightarrow> map_parser" where
  "mp_put t s = s\<lparr>mp_scalars := (mp_scalars s)[mp_index s := t], mp_index := mp_index s + 1\<rparr>"

definition mp_put_class :: "symbol \<Rightarrow> map_parser \<Rightarrow> map_parser" where
  "mp_put_class c s =
     s\<lparr>mp_scalars := (mp_scalars s)[mp_index s := ITEM_Object],
       mp_classes := (mp_classes s)[mp_index s := Some c], mp_index := mp_index s + 1\<rparr>"

definition unresolved_klass_symbol :: "constant_pool \<Rightarrow> int \<Rightarrow> error_tag + symbol" where
  "unresolved_klass_symbol cp class_index =
     (if \<not> (class_index \<noteq> 0 \<and> class_index < int (length cp)) then Inl bad_constantpool_index
      else case entry_at cp class_index of
             CP_UnresolvedClass s \<Rightarrow> Inr s
           | _ \<Rightarrow> Inl bad_constantpool_index)"

definition parse_item :: "constant_pool \<Rightarrow> int \<Rightarrow> nat \<Rightarrow> nat \<Rightarrow> map_parser \<Rightarrow> error_tag + map_parser" where
  "parse_item cp code_length max_size j s =
     jvm_check (get_u1 (mp_parser s)) (\<lambda>(stack_type, p).
       let s = s\<lparr>mp_parser := p\<rparr> in
       if j + mp_size_delta s \<ge> max_size then Inl bad_stackmap_size
       else if stack_type = uint ITEM_NewObject then
         jvm_check (get_u2 (mp_parser s)) (\<lambda>(new_instr, p).
           if new_instr \<ge> code_length then Inl bad_stackmap_type
           else Inr (mp_put (encode_newobject new_instr) (s\<lparr>mp_parser := p\<rparr>)))
       else if stack_type < uint ITEM_Object then
         let s = mp_put (word_of_int stack_type) s in
         if stack_type = uint ITEM_Long \<or> stack_type = uint ITEM_Double then
           if j + mp_size_delta s + 1 \<ge> max_size then Inl bad_stackmap_size
           else Inr ((mp_put (if stack_type = uint ITEM_Long then ITEM_Long_2 else ITEM_Double_2) s)
                       \<lparr>mp_size_delta := mp_size_delta s + 1\<rparr>)
         else Inr s
       else if stack_type = uint ITEM_Object then
         jvm_check (get_u2 (mp_parser s)) (\<lambda>(class_index, p).
           jvm_check (unresolved_klass_symbol cp class_index) (\<lambda>class_name.
             Inr (mp_put_class class_name (s\<lparr>mp_parser := p\<rparr>))))
       else Inl bad_stackmap_type)"

text \<open>The inner loop, with the number of elements that are left.\<close>

fun parse_items :: "constant_pool \<Rightarrow> int \<Rightarrow> nat \<Rightarrow> nat \<Rightarrow> nat \<Rightarrow> nat \<Rightarrow> map_parser \<Rightarrow> error_tag + map_parser" where
  "parse_items cp code_length max_size sz size_index 0 s = Inr s"
| "parse_items cp code_length max_size sz size_index (Suc left) s =
     jvm_check (parse_item cp code_length max_size (sz - Suc left) s) (\<lambda>s'.
       parse_items cp code_length max_size sz size_index left
         (s'\<lparr>mp_scalars := (mp_scalars s')[size_index := of_nat (sz + mp_size_delta s')]\<rparr>))"

definition parse_part :: "constant_pool \<Rightarrow> int \<Rightarrow> nat \<Rightarrow> map_parser \<Rightarrow> error_tag + map_parser" where
  "parse_part cp code_length max_size s =
     jvm_check (get_u2 (mp_parser s)) (\<lambda>(sz, p).
       parse_items cp code_length max_size (nat sz) (mp_index s) (nat sz)
         (s\<lparr>mp_parser := p, mp_size_delta := 0, mp_index := mp_index s + 1\<rparr>))"

definition parse_stackmap ::
  "constant_pool \<Rightarrow> nat \<Rightarrow> nat \<Rightarrow> int \<Rightarrow> parser \<Rightarrow> error_tag + (stackmap \<times> parser)" where
  "parse_stackmap cp max_stack frame_size code_length p =
     (let temp_size = max_stack + frame_size + 4 in
      jvm_check (get_u2 p) (\<lambda>(stackmap_offset, p).
        let s = \<lparr>mp_parser = p,
                 mp_scalars = (replicate temp_size 0)[0 := word_of_int stackmap_offset],
                 mp_classes = replicate temp_size None, mp_index = 1, mp_size_delta = 0\<rparr> in
        jvm_check (parse_part cp code_length frame_size s) (\<lambda>s.
          jvm_check (parse_part cp code_length max_stack s) (\<lambda>s.
            Inr ((mp_scalars s, mp_classes s), mp_parser s)))))"

fun parse_stackmaps_loop ::
  "nat \<Rightarrow> constant_pool \<Rightarrow> nat \<Rightarrow> nat \<Rightarrow> int \<Rightarrow> parser \<Rightarrow> error_tag + (stackmap list \<times> parser)" where
  "parse_stackmaps_loop 0 cp max_stack frame_size code_length p = Inr ([], p)"
| "parse_stackmaps_loop (Suc n) cp max_stack frame_size code_length p =
     jvm_check (parse_stackmap cp max_stack frame_size code_length p) (\<lambda>(m, p).
       jvm_check (parse_stackmaps_loop n cp max_stack frame_size code_length p) (\<lambda>(ms, p).
         Inr (m # ms, p)))"

text \<open>\<open>parse_stackmaps\<close> returns the number of bytes it has read, two of them before it started.\<close>

definition parse_stackmaps ::
  "constant_pool \<Rightarrow> nat \<Rightarrow> nat \<Rightarrow> nat \<Rightarrow> int \<Rightarrow> parser \<Rightarrow> error_tag + (stackmap list \<times> int \<times> parser)" where
  "parse_stackmaps cp num_stackmaps max_stack frame_size code_length p =
     jvm_check (parse_stackmaps_loop num_stackmaps cp max_stack frame_size code_length p)
       (\<lambda>(ms, p'). Inr (ms, bufptr p' - bufptr p + 2, p'))"


section \<open>The exception table\<close>

record handler_entry =
  start_pc :: int
  end_pc :: int
  handler_pc :: int
  catch_type :: int

fun parse_exception_entries ::
  "nat \<Rightarrow> int \<Rightarrow> constant_pool \<Rightarrow> code_mem \<Rightarrow> int \<Rightarrow> error_tag + handler_entry list" where
  "parse_exception_entries 0 code_length cp m ptr = Inr []"
| "parse_exception_entries (Suc n) code_length cp m ptr =
     (let e = \<lparr>start_pc = get_java_ushort m ptr, end_pc = get_java_ushort m (ptr + 2),
               handler_pc = get_java_ushort m (ptr + 4), catch_type = get_java_ushort m (ptr + 6)\<rparr>
      in if \<not> (start_pc e < code_length \<and> end_pc e \<le> code_length \<and>
               start_pc e < end_pc e \<and> handler_pc e < code_length)
         then Inl corrupted_exception_handler
         else if catch_type e \<noteq> 0 \<and> \<not> check_klass_at cp (catch_type e) then Inl invalid_constant
         else jvm_check (parse_exception_entries n code_length cp m (ptr + 8)) (\<lambda>es. Inr (e # es)))"

definition parse_exception_table ::
  "int \<Rightarrow> constant_pool \<Rightarrow> parser \<Rightarrow> error_tag + (handler_entry list \<times> parser)" where
  "parse_exception_table code_length cp p =
     jvm_check (get_u2 p) (\<lambda>(table_length, p).
       if table_length = 0 then Inr ([], p)
       else if bufend p - bufptr p < table_length * 4 then Inl truncated_class_file
       else jvm_check (parse_exception_entries (nat table_length) code_length cp (buf p) (bufptr p))
         (\<lambda>es. Inr (es, p\<lparr>bufptr := bufptr p + 8 * table_length\<rparr>)))"

section \<open>Tags of uninitialized objects\<close>

lemma bit_newobject_flag: "bit (0x1000 :: 32 word) n \<longleftrightarrow> n = 12"
proof -
  have "(0x1000 :: 32 word) = 2 ^ 12" by simp
  then show ?thesis by (simp only: bit_exp_iff) auto
qed

lemma bit_encode_newobject:
  "bit (encode_newobject pc) n \<longleftrightarrow>
     n < 32 \<and> (n = 12 \<or> (16 \<le> n \<and> bit pc (n - 16)))"
proof -
  have m: "(0xFFFF :: 32 word) = mask 16" by (simp add: mask_eq_exp_minus_1)
  show ?thesis
    unfolding encode_newobject_def m bit_or_iff bit_newobject_flag
    by (auto simp: bit_simps)
qed

lemma decode_encode_newobject:
  assumes "0 \<le> pc" "pc < 65536"
  shows "decode_newobject (encode_newobject pc) = pc"
proof -
  have m: "(0xFFFF :: 32 word) = mask 16" by (simp add: mask_eq_exp_minus_1)
  have "decode_newobject (encode_newobject pc) = take_bit 16 pc"
    unfolding decode_newobject_def m
    by (rule bit_eqI) (auto simp: bit_simps bit_encode_newobject)
  with assms show ?thesis by (simp add: take_bit_eq_mod)
qed

lemma is_newobject_bit: "is_newobject t \<longleftrightarrow> bit t 12"
proof
  assume n: "is_newobject t"
  show "bit t 12"
  proof (rule ccontr)
    assume *: "\<not> bit t 12"
    have "t AND 0x1000 = 0"
    proof (rule bit_word_eqI)
      fix n show "bit (t AND 0x1000) n \<longleftrightarrow> bit 0 n"
        unfolding bit_and_iff bit_newobject_flag using * by auto
    qed
    with n show False by (simp add: is_newobject_def)
  qed
next
  assume "bit t 12"
  then have "bit (t AND 0x1000) 12" by (simp add: bit_and_iff bit_newobject_flag)
  then show "is_newobject t" unfolding is_newobject_def by (metis bit_0_eq bot_apply bot_bool_def)
qed

lemma is_newobject_encode [simp]: "is_newobject (encode_newobject pc)"
  by (simp add: is_newobject_bit bit_encode_newobject)

lemma is_newobject_small: "t < 0x1000 \<Longrightarrow> \<not> is_newobject t"
proof
  assume *: "t < 0x1000" "is_newobject t"
  have "take_bit 12 t = t"
    using *(1) by (simp add: word_less_nat_alt word_eq_iff_unsigned [where 'a = nat]
        take_bit_eq_mod unat_mod)
  then show False using *(2) by (metis bit_take_bit_iff is_newobject_bit less_irrefl)
qed

text \<open>What an item of a stack map may be: a tag of the class file, a tag of a new object,
  or the second half of a long or double.\<close>

definition plain_tag :: "tag \<Rightarrow> bool" where
  "plain_tag t = (t < ITEM_Object \<and> t \<noteq> ITEM_Long \<and> t \<noteq> ITEM_Double)"

fun wf_items :: "int \<Rightarrow> (tag \<times> symbol option) list \<Rightarrow> bool" where
  "wf_items code_length [] = True"
| "wf_items code_length ((t, c) # items) =
     (if t = ITEM_Long \<or> t = ITEM_Double then
        (case items of
           [] \<Rightarrow> False
         | (t2, _) # items' \<Rightarrow>
             t2 = (if t = ITEM_Long then ITEM_Long_2 else ITEM_Double_2) \<and> wf_items code_length items')
      else ((t = ITEM_Object \<and> c \<noteq> None) \<or> plain_tag t \<or>
            (\<exists>pc. 0 \<le> pc \<and> pc < code_length \<and> pc < 65536 \<and> t = encode_newobject pc)) \<and>
           wf_items code_length items)"

lemma wf_items_append: "wf_items n xs \<Longrightarrow> wf_items n ys \<Longrightarrow> wf_items n (xs @ ys)"
  by (induction n xs rule: wf_items.induct) (auto split: list.splits if_splits)

text \<open>The items a map parser has written from an index on.\<close>

definition items_from :: "nat \<Rightarrow> map_parser \<Rightarrow> (tag \<times> symbol option) list" where
  "items_from start s = drop start (take (mp_index s) (zip (mp_scalars s) (mp_classes s)))"

definition mp_ok :: "nat \<Rightarrow> nat \<Rightarrow> map_parser \<Rightarrow> bool" where
  "mp_ok n start s = (length (mp_scalars s) = n \<and> length (mp_classes s) = n \<and>
     start \<le> mp_index s \<and> mp_index s \<le> n \<and>
     (\<forall>k. mp_index s \<le> k \<longrightarrow> k < n \<longrightarrow> mp_scalars s ! k = 0))"

lemma drop_take_update:
  assumes "start \<le> i" "i < length xs"
  shows "drop start (take (Suc i) (xs[i := x])) = drop start (take i xs) @ [x]"
  using assms by (simp add: take_Suc_conv_app_nth)

lemma items_from_put:
  assumes "mp_ok n start s" "mp_index s < n"
  shows "items_from start (mp_put t s) = items_from start s @ [(t, mp_classes s ! mp_index s)]"
    "mp_ok n start (mp_put t s)"
proof -
  have "zip ((mp_scalars s)[mp_index s := t]) (mp_classes s) =
      (zip (mp_scalars s) (mp_classes s))[mp_index s := (t, mp_classes s ! mp_index s)]"
    using update_zip [of "mp_scalars s" "mp_classes s" "mp_index s" "(t, mp_classes s ! mp_index s)"]
    by simp
  then show "items_from start (mp_put t s) = items_from start s @ [(t, mp_classes s ! mp_index s)]"
    using assms by (simp add: items_from_def mp_put_def mp_ok_def drop_take_update)
  show "mp_ok n start (mp_put t s)" using assms by (simp add: mp_ok_def mp_put_def)
qed

lemma items_from_put_class:
  assumes "mp_ok n start s" "mp_index s < n"
  shows "items_from start (mp_put_class c s) = items_from start s @ [(ITEM_Object, Some c)]"
    "mp_ok n start (mp_put_class c s)"
proof -
  have "zip ((mp_scalars s)[mp_index s := ITEM_Object]) ((mp_classes s)[mp_index s := Some c]) =
      (zip (mp_scalars s) (mp_classes s))[mp_index s := (ITEM_Object, Some c)]"
    using update_zip [of "mp_scalars s" "mp_classes s" "mp_index s" "(ITEM_Object, Some c)"]
    by simp
  then show "items_from start (mp_put_class c s) = items_from start s @ [(ITEM_Object, Some c)]"
    using assms by (simp add: items_from_def mp_put_class_def mp_ok_def drop_take_update)
  show "mp_ok n start (mp_put_class c s)" using assms by (simp add: mp_ok_def mp_put_class_def)
qed

lemma get_u1_range: "get_u1 p = Inr (v, p') \<Longrightarrow> 0 \<le> v \<and> v < 256"
  using uint_bounded [of "buf p (bufptr p)"] by (auto simp: get_u1_def Let_def split: if_splits)

lemma get_u2_range: "get_u2 p = Inr (v, p') \<Longrightarrow> 0 \<le> v \<and> v < 65536"
  using uint_bounded [of "get_Java_u2 (buf p) (bufptr p)"]
  by (auto simp: get_u2_def Let_def split: if_splits)

lemma encode_newobject_neq:
  "x < 0x1000 \<Longrightarrow> encode_newobject pc \<noteq> x"
  using is_newobject_small is_newobject_encode by metis

definition same_prefix :: "nat \<Rightarrow> map_parser \<Rightarrow> map_parser \<Rightarrow> bool" where
  "same_prefix start s s' = (take start (mp_scalars s') = take start (mp_scalars s) \<and>
     take start (mp_classes s') = take start (mp_classes s))"

text \<open>What one element of the loop has done: \<open>j\<close> elements have filled \<open>j + size_delta\<close>
  words from \<open>start\<close> on.\<close>

definition item_inv :: "nat \<Rightarrow> nat \<Rightarrow> nat \<Rightarrow> int \<Rightarrow> nat \<Rightarrow> map_parser \<Rightarrow> bool" where
  "item_inv n start mx code_length j s =
     (mp_ok n start s \<and> mp_index s = start + j + mp_size_delta s \<and>
      (j + mp_size_delta s \<le> mx) \<and> wf_items code_length (items_from start s))"

lemma items_from_parser [simp]: "items_from start (s\<lparr>mp_parser := p\<rparr>) = items_from start s"
  "items_from start (s\<lparr>mp_size_delta := d\<rparr>) = items_from start s"
  by (simp_all add: items_from_def)

lemma mp_ok_parser [simp]: "mp_ok n start (s\<lparr>mp_parser := p\<rparr>) = mp_ok n start s"
  "mp_ok n start (s\<lparr>mp_size_delta := d\<rparr>) = mp_ok n start s"
  by (simp_all add: mp_ok_def)

lemma parse_item_ok:
  assumes "parse_item cp code_length mx j s = Inr s'" "item_inv n start mx code_length j s"
    "start + mx \<le> n"
  shows "item_inv n start mx code_length (Suc j) s' \<and> same_prefix start s s'"
proof -
  from assms(1) obtain v p where v: "get_u1 (mp_parser s) = Inr (v, p)"
    by (auto simp: parse_item_def jvm_check_Inr_iff)
  define t where "t = s\<lparr>mp_parser := p\<rparr>"
  have inv: "mp_ok n start t" "mp_index t = start + j + mp_size_delta t"
    "wf_items code_length (items_from start t)"
    using assms(2) by (simp_all add: item_inv_def t_def)
  have pre: "same_prefix start s u \<longleftrightarrow> same_prefix start t u" for u
    by (simp add: same_prefix_def t_def)
  note step = assms(1) [unfolded parse_item_def v jvm_check_simps prod.case Let_def t_def [symmetric]]
  have lim: "j + mp_size_delta t < mx" using step by (auto split: if_splits)
  with inv(2) assms(3) have idx: "mp_index t < n" by linarith
  have st: "start \<le> mp_index t" using inv(2) by linarith
  have put: "item_inv n start mx code_length (Suc j) (mp_put x t) \<and> same_prefix start t (mp_put x t)"
    if "wf_items code_length [(x, mp_classes t ! mp_index t)]" for x
    using items_from_put [OF inv(1) idx, of x] inv that lim st wf_items_append
    by (simp add: item_inv_def mp_put_def same_prefix_def)
  have pair: "item_inv n start mx code_length (Suc j) u \<and> same_prefix start t u"
    if k: "k = ITEM_Long \<or> k = ITEM_Double" and lim2: "j + mp_size_delta t + 1 < mx"
      and u: "u = (mp_put (if k = ITEM_Long then ITEM_Long_2 else ITEM_Double_2) (mp_put k t))
        \<lparr>mp_size_delta := mp_size_delta t + 1\<rparr>" for k u
  proof -
    have idx2: "mp_index (mp_put k t) < n"
      using inv(2) assms(3) lim2 by (simp add: mp_put_def)
    show ?thesis
      using items_from_put [OF inv(1) idx, of k]
        items_from_put [OF items_from_put(2) [OF inv(1) idx] idx2,
          of "if k = ITEM_Long then ITEM_Long_2 else ITEM_Double_2"]
        inv lim2 st k wf_items_append [OF inv(3), of "[(k, _), (_, _)]"]
      unfolding u item_inv_def same_prefix_def
      by (auto simp: mp_put_def)
  qed
  have r: "0 \<le> v" "v < 256" using get_u1_range [OF v] by simp_all
  consider (new) "v = 8" | (prim) "v < 7" "v \<noteq> 4" "v \<noteq> 3" | (long) "v = 4" | (double) "v = 3"
    | (obj) "v = 7" | (bad) "v > 8" by linarith
  then have "item_inv n start mx code_length (Suc j) s' \<and> same_prefix start t s'"
  proof cases
    case new
    then obtain w q where w: "get_u2 (mp_parser t) = Inr (w, q)" "w < code_length"
      and s': "s' = mp_put (encode_newobject w) (t\<lparr>mp_parser := q\<rparr>)"
      using step lim by (auto simp: jvm_check_Inr_iff split: if_splits)
    have "wf_items code_length [(encode_newobject w, mp_classes t ! mp_index t)]"
      using w(2) get_u2_range [OF w(1)] encode_newobject_neq [of _ w] by auto
    then show ?thesis using put [of "encode_newobject w"]
      by (simp add: s' item_inv_def mp_put_def same_prefix_def items_from_def mp_ok_def)
  next
    case prim
    then have s': "s' = mp_put (word_of_int v) t" using step lim by (auto split: if_splits)
    have "v = 0 \<or> v = 1 \<or> v = 2 \<or> v = 5 \<or> v = 6" using prim r by linarith
    then have "plain_tag (word_of_int v)" by (auto simp: plain_tag_def)
    then show ?thesis unfolding s' by (intro put) (auto simp: plain_tag_def)
  next
    case long
    then have "j + mp_size_delta t + 1 < mx"
      and s': "s' = (mp_put ITEM_Long_2 (mp_put ITEM_Long t))\<lparr>mp_size_delta := mp_size_delta t + 1\<rparr>"
      using step lim by (auto simp: mp_put_def split: if_splits)
    with pair [of ITEM_Long] show ?thesis by simp
  next
    case double
    then have "j + mp_size_delta t + 1 < mx"
      and s': "s' = (mp_put ITEM_Double_2 (mp_put ITEM_Double t))\<lparr>mp_size_delta := mp_size_delta t + 1\<rparr>"
      using step lim by (auto simp: mp_put_def split: if_splits)
    with pair [of ITEM_Double] show ?thesis by simp
  next
    case obj
    then obtain w q c where s': "s' = mp_put_class c (t\<lparr>mp_parser := q\<rparr>)"
      using step lim by (auto simp: jvm_check_Inr_iff split: if_splits)
    show ?thesis
      using items_from_put_class [OF inv(1) idx, of c] inv lim st wf_items_append
      by (simp add: s' item_inv_def mp_put_class_def same_prefix_def items_from_def mp_ok_def)
  next
    case bad
    then show ?thesis using step lim by auto
  qed
  then show ?thesis by (simp add: pre)
qed

lemma items_from_update_before:
  "k < start \<Longrightarrow> items_from start (s\<lparr>mp_scalars := (mp_scalars s)[k := v]\<rparr>) = items_from start s"
  unfolding items_from_def drop_take drop_zip by simp

lemma parse_items_ok:
  assumes "parse_items cp code_length mx sz k left s = Inr s'"
    "item_inv n (Suc k) mx code_length (sz - left) s" "left \<le> sz" "Suc k + mx \<le> n"
  shows "item_inv n (Suc k) mx code_length sz s' \<and>
    take k (mp_scalars s') = take k (mp_scalars s) \<and> take k (mp_classes s') = take k (mp_classes s) \<and>
    mp_scalars s' ! k = (if left = 0 then mp_scalars s ! k else of_nat (sz + mp_size_delta s'))"
  using assms
proof (induction cp code_length mx sz k left s rule: parse_items.induct)
  case (2 cp code_length mx sz k left s)
  then obtain t where t: "parse_item cp code_length mx (sz - Suc left) s = Inr t"
    and rest: "parse_items cp code_length mx sz k left
      (t\<lparr>mp_scalars := (mp_scalars t)[k := of_nat (sz + mp_size_delta t)]\<rparr>) = Inr s'"
    by (auto simp: jvm_check_Inr_iff)
  note ok = parse_item_ok [OF t 2(3,5)]
  let ?u = "t\<lparr>mp_scalars := (mp_scalars t)[k := of_nat (sz + mp_size_delta t)]\<rparr>"
  have j: "Suc (sz - Suc left) = sz - left" using 2(4) by simp
  have inv: "item_inv n (Suc k) mx code_length (sz - left) ?u"
    using ok j unfolding item_inv_def by (simp add: items_from_update_before mp_ok_def)
  have k: "k < length (mp_scalars t)" using ok by (simp add: item_inv_def mp_ok_def)
  have pre: "take k (mp_scalars t) = take k (mp_scalars s)" "take k (mp_classes t) = take k (mp_classes s)"
    using ok unfolding same_prefix_def
    by (metis (no_types) less_or_eq_imp_le min.absorb1 le_SucI order_refl take_take)+
  have ih: "item_inv n (Suc k) mx code_length sz s' \<and>
    take k (mp_scalars s') = take k (mp_scalars ?u) \<and> take k (mp_classes s') = take k (mp_classes ?u) \<and>
    mp_scalars s' ! k = (if left = 0 then mp_scalars ?u ! k else of_nat (sz + mp_size_delta s'))"
    by (rule 2(1) [OF rest inv]) (use 2(4,5) in simp_all)
  moreover have "left = 0 \<Longrightarrow> s' = ?u" using rest by simp
  ultimately show ?case using pre k by auto
qed simp

lemma parse_part_ok:
  assumes "parse_part cp code_length mx s = Inr s'" "mp_ok n (mp_index s) s"
    "Suc (mp_index s) + mx \<le> n" "n < 2 ^ 32"
  defines "k \<equiv> mp_index s"
  shows "mp_ok n (Suc k) s'" "mp_index s' = Suc k + unat (mp_scalars s' ! k)"
    "unat (mp_scalars s' ! k) \<le> mx" "wf_items code_length (items_from (Suc k) s')"
    "take k (mp_scalars s') = take k (mp_scalars s)" "take k (mp_classes s') = take k (mp_classes s)"
proof -
  from assms(1) obtain sz p where p: "parse_items cp code_length mx (nat sz) k (nat sz)
      (s\<lparr>mp_parser := p, mp_size_delta := 0, mp_index := Suc k\<rparr>) = Inr s'"
    by (auto simp: parse_part_def jvm_check_Inr_iff k_def)
  let ?t = "s\<lparr>mp_parser := p, mp_size_delta := 0, mp_index := Suc k\<rparr>"
  have ok: "mp_ok n (Suc k) ?t" using assms(2,3) by (auto simp: mp_ok_def k_def)
  have "items_from (Suc k) ?t = []" by (simp add: items_from_def)
  then have inv: "item_inv n (Suc k) mx code_length (nat sz - nat sz) ?t"
    using ok by (simp add: item_inv_def)
  have r: "item_inv n (Suc k) mx code_length (nat sz) s' \<and>
    take k (mp_scalars s') = take k (mp_scalars ?t) \<and> take k (mp_classes s') = take k (mp_classes ?t) \<and>
    mp_scalars s' ! k = (if nat sz = 0 then mp_scalars ?t ! k else of_nat (nat sz + mp_size_delta s'))"
    by (rule parse_items_ok [OF p inv]) (use assms(3) in \<open>simp_all add: k_def\<close>)
  have le: "nat sz + mp_size_delta s' \<le> mx" using r by (simp add: item_inv_def)
  have fresh: "mp_scalars s ! k = 0" using assms(2,3) by (simp add: mp_ok_def k_def)
  have size: "unat (mp_scalars s' ! k) = nat sz + mp_size_delta s'"
  proof (cases "nat sz = 0")
    case True
    then have "s' = ?t" using p by simp
    then show ?thesis using True fresh by simp
  next
    case False
    have "nat sz + mp_size_delta s' < 2 ^ 32" using le assms(3,4) by linarith
    then show ?thesis using r False by (simp add: unsigned_of_nat take_bit_eq_mod del: of_nat_add)
  qed
  show "mp_ok n (Suc k) s'" "mp_index s' = Suc k + unat (mp_scalars s' ! k)"
    "unat (mp_scalars s' ! k) \<le> mx" "wf_items code_length (items_from (Suc k) s')"
    "take k (mp_scalars s') = take k (mp_scalars s)" "take k (mp_classes s') = take k (mp_classes s)"
    using r size le by (simp_all add: item_inv_def)
qed

text \<open>A well-formed stack map: its two sizes fit the method, its items lie in the arrays
  and are well-formed.\<close>

definition map_items :: "stackmap \<Rightarrow> nat \<Rightarrow> nat \<Rightarrow> (tag \<times> symbol option) list" where
  "map_items sm start count = take count (drop start (zip (fst sm) (snd sm)))"

definition map_locals :: "stackmap \<Rightarrow> (tag \<times> symbol option) list" where
  "map_locals sm = map_items sm 2 (map_nlocals sm)"

definition map_stack :: "stackmap \<Rightarrow> (tag \<times> symbol option) list" where
  "map_stack sm = map_items sm (map_nlocals sm + 3) (map_nstack sm)"

definition wf_stackmap :: "nat \<Rightarrow> nat \<Rightarrow> int \<Rightarrow> stackmap \<Rightarrow> bool" where
  "wf_stackmap mx_stack mx_locals code_length sm =
     (map_nlocals sm \<le> mx_locals \<and> map_nstack sm \<le> mx_stack \<and>
      map_nlocals sm + map_nstack sm + 3 \<le> length (fst sm) \<and> length (snd sm) = length (fst sm) \<and>
      0 \<le> map_offset sm \<and> map_offset sm < 65536 \<and>
      wf_items code_length (map_locals sm) \<and> wf_items code_length (map_stack sm))"

lemma items_from_map:
  "mp_index s = start + k \<Longrightarrow> items_from start s = map_items (mp_scalars s, mp_classes s) start k"
  by (simp add: items_from_def map_items_def drop_take)

lemma map_items_cong:
  assumes "take n (fst sm) = take n (fst sm')" "take n (snd sm) = take n (snd sm')" "start + k \<le> n"
  shows "map_items sm start k = map_items sm' start k"
proof -
  have e: "map_items a start k = drop start (take (start + k) (zip (take n (fst a)) (take n (snd a))))" for a :: stackmap
    unfolding map_items_def take_zip drop_zip drop_take
    using assms(3) by (simp add: take_drop min_def)
  show ?thesis by (simp add: e assms(1,2))
qed

lemma parse_stackmap_ok:
  assumes "parse_stackmap cp mx_stack mx_locals code_length p = Inr (sm, p')"
    "mx_stack \<le> 65535" "mx_locals \<le> 65535"
  shows "wf_stackmap mx_stack mx_locals code_length sm"
proof -
  define n where "n = mx_stack + mx_locals + 4"
  from assms(1) obtain off q s1 s2 where off: "get_u2 p = Inr (off, q)"
    and p1: "parse_part cp code_length mx_locals \<lparr>mp_parser = q,
        mp_scalars = (replicate n 0)[0 := word_of_int off],
        mp_classes = replicate n None, mp_index = 1, mp_size_delta = 0\<rparr> = Inr s1"
    and p2: "parse_part cp code_length mx_stack s1 = Inr s2"
    and sm: "sm = (mp_scalars s2, mp_classes s2)"
    unfolding parse_stackmap_def Let_def n_def [symmetric]
    by (auto simp: jvm_check_Inr_iff)
  have n: "n < 2 ^ 32" using assms(2,3) by (simp add: n_def)
  have r1: "mp_ok n 2 s1" "mp_index s1 = 2 + unat (mp_scalars s1 ! 1)"
    "unat (mp_scalars s1 ! 1) \<le> mx_locals" "wf_items code_length (items_from 2 s1)"
    "take 1 (mp_scalars s1) = [word_of_int off]"
  proof -
    have ok: "mp_ok n 1 \<lparr>mp_parser = q, mp_scalars = (replicate n 0)[0 := word_of_int off],
        mp_classes = replicate n None, mp_index = 1, mp_size_delta = 0\<rparr>"
      by (auto simp: mp_ok_def nth_list_update n_def)
    note r = parse_part_ok [OF p1, of n, simplified, OF ok [simplified] _ n [simplified]]
    have le: "Suc (Suc mx_locals) \<le> n" by (simp add: n_def)
    show "mp_ok n 2 s1" "mp_index s1 = 2 + unat (mp_scalars s1 ! 1)"
      "unat (mp_scalars s1 ! 1) \<le> mx_locals" "wf_items code_length (items_from 2 s1)"
      using r(1-4) [OF le] by (simp_all add: numeral_2_eq_2)
    show "take 1 (mp_scalars s1) = [word_of_int off]"
      using r(5) [OF le] le by (cases n) auto
  qed
  define k where "k = mp_index s1"
  have k2: "2 \<le> k" using r1(2) by (simp add: k_def)
  have ok2: "mp_ok n (mp_index s1) s1" using r1(1) by (auto simp: mp_ok_def)
  have le2: "Suc (mp_index s1) + mx_stack \<le> n" using r1(2,3) by (simp add: n_def)
  note r2 = parse_part_ok [OF p2 ok2 le2 n, folded k_def]
  have pre: "mp_scalars s2 ! i = mp_scalars s1 ! i" if "i < k" for i
    using r2(5) that by (metis nth_take)
  have nl: "map_nlocals sm = unat (mp_scalars s1 ! 1)" "k = map_nlocals sm + 2"
    using pre [of 1] k2 r1(2) by (simp_all add: sm map_nlocals_def k_def)
  have ns: "map_nstack sm = unat (mp_scalars s2 ! k)"
    using nl by (simp add: map_nstack_def sm)
  have "mp_scalars s1 ! 0 = word_of_int off"
    using r1(5) by (metis nth_Cons_0 nth_take less_one)
  then have "map_offset sm = sint (word_of_int off :: 32 word)"
    using pre [of 0] k2 by (simp add: map_offset_def sm)
  also have "\<dots> = off"
    using get_u2_range [OF off] by (simp add: sint_sbintrunc' signed_take_bit_int_eq_self)
  finally have offset: "map_offset sm = off" .
  have locals: "map_locals sm = items_from 2 s1"
    unfolding map_locals_def items_from_map [OF r1(2)] sm nl(1) [unfolded sm]
    by (rule map_items_cong [where n = k]) (use r2(5,6) r1(2) in \<open>simp_all add: k_def\<close>)
  have k3: "map_nlocals sm + 3 = Suc k" using nl(2) by simp
  have "map_stack sm = map_items (mp_scalars s2, mp_classes s2) (Suc k) (unat (mp_scalars s2 ! k))"
    unfolding map_stack_def ns k3 by (simp add: sm)
  also have "\<dots> = items_from (Suc k) s2" by (rule items_from_map [OF r2(2), symmetric])
  finally have stack: "map_stack sm = items_from (Suc k) s2" .
  have len: "length (mp_scalars s2) = n" "length (mp_classes s2) = n" "mp_index s2 \<le> n"
    using r2(1) by (simp_all add: mp_ok_def)
  show ?thesis
    using r1(3,4) r2(2,3,4) nl ns offset get_u2_range [OF off] locals stack len
    by (simp add: wf_stackmap_def sm)
qed

lemma parse_stackmaps_loop_ok:
  "parse_stackmaps_loop num cp mx_stack mx_locals code_length p = Inr (sms, p') \<Longrightarrow>
     mx_stack \<le> 65535 \<Longrightarrow> mx_locals \<le> 65535 \<Longrightarrow>
     length sms = num \<and> list_all (wf_stackmap mx_stack mx_locals code_length) sms"
proof (induction num arbitrary: p sms)
  case (Suc num)
  then obtain m q ms where "parse_stackmap cp mx_stack mx_locals code_length p = Inr (m, q)"
    "parse_stackmaps_loop num cp mx_stack mx_locals code_length q = Inr (ms, p')" "sms = m # ms"
    by (auto simp: jvm_check_Inr_iff)
  with Suc.IH [of q ms] parse_stackmap_ok Suc.prems(2,3) show ?case by auto
qed simp


section \<open>The exception table\<close>

definition handler_in_code :: "int \<Rightarrow> constant_pool \<Rightarrow> handler_entry \<Rightarrow> bool" where
  "handler_in_code code_length cp e =
     (0 \<le> start_pc e \<and> start_pc e < end_pc e \<and> end_pc e \<le> code_length \<and>
      0 \<le> handler_pc e \<and> handler_pc e < code_length \<and>
      0 \<le> catch_type e \<and> (catch_type e = 0 \<or> check_klass_at cp (catch_type e)))"

lemma parse_exception_entries_ok:
  "parse_exception_entries num code_length cp m ptr = Inr es \<Longrightarrow>
     length es = num \<and> list_all (handler_in_code code_length cp) es"
proof (induction num code_length cp m ptr arbitrary: es rule: parse_exception_entries.induct)
  case (2 num code_length cp m ptr)
  then show ?case
    using get_java_ushort_range [of m]
    by (auto simp: Let_def jvm_check_Inr_iff handler_in_code_def split: if_splits)
qed simp


section \<open>Properties\<close>

text \<open>the tag of an uninitialized object gives back the code offset of its \<open>new\<close>, is
  recognized as such a tag, and is none of the tags of the class file.\<close>

theorem newobject_tag_roundtrip:
  assumes "0 \<le> pc" "pc < 65536" "t < 0x1000"
  shows "decode_newobject (encode_newobject pc) = pc \<and> is_newobject (encode_newobject pc) \<and>
    encode_newobject pc \<noteq> t \<and> \<not> is_newobject t"
  using assms decode_encode_newobject encode_newobject_neq is_newobject_small by simp

theorem newobject_tag_roundtrip_witness:
  "decode_newobject (encode_newobject 0xFFFF) = 0xFFFF \<and> is_newobject (encode_newobject 0xFFFF) \<and>
    encode_newobject 0xFFFF \<noteq> ITEM_Reference \<and> \<not> is_newobject ITEM_Reference"
  by (rule newobject_tag_roundtrip) simp_all

text \<open>C12: what \<open>parse_stackmaps\<close> accepts is one well-formed stack map for each that the
  class file announces: the sizes fit the method, every long and double is followed by its
  second half, every object has a class name, every uninitialized object is created inside
  the code, and nothing has been stored outside of the arrays.\<close>

theorem parse_stackmaps_wf:
  assumes "parse_stackmaps cp num mx_stack mx_locals code_length p = Inr (sms, len, p')"
    "mx_stack \<le> 65535" "mx_locals \<le> 65535"
  shows "length sms = num \<and> list_all (wf_stackmap mx_stack mx_locals code_length) sms"
proof -
  from assms(1) have "parse_stackmaps_loop num cp mx_stack mx_locals code_length p = Inr (sms, p')"
    by (auto simp: parse_stackmaps_def jvm_check_Inr_iff)
  from parse_stackmaps_loop_ok [OF this assms(2,3)] show ?thesis .
qed

definition parser_of :: "8 word list \<Rightarrow> parser" where
  "parser_of bs = \<lparr>buf = code_of_bytes bs, bufptr = 0, bufend = int (length bs)\<rparr>"

text \<open>A map at offset 5 with a long in the locals and an empty stack.\<close>

lemma parse_stackmaps_example:
  "\<exists>p'. parse_stackmaps [] 1 0 2 10 (parser_of [0, 5, 0, 1, 4, 0, 0]) =
     Inr ([([5, 2, 4, 9, 0, 0], [None, None, None, None, None, None])], 9, p')"
proof -
  have "case parse_stackmaps [] 1 0 2 10 (parser_of [0, 5, 0, 1, 4, 0, 0]) of
      Inl _ \<Rightarrow> False
    | Inr (sms, len, _) \<Rightarrow>
        sms = [([5, 2, 4, 9, 0, 0], [None, None, None, None, None, None])] \<and> len = 9"
    by code_simp
  then show ?thesis by (auto split: sum.splits)
qed

theorem parse_stackmaps_wf_witness:
  "list_all (wf_stackmap 0 2 10)
     [([5, 2, 4, 9, 0, 0], [None, None, None, None, None, None])]"
proof -
  obtain p' where "parse_stackmaps [] 1 0 2 10 (parser_of [0, 5, 0, 1, 4, 0, 0]) =
     Inr ([([5, 2, 4, 9, 0, 0], [None, None, None, None, None, None])], 9, p')"
    using parse_stackmaps_example by blast
  from parse_stackmaps_wf [OF this] show ?thesis by simp
qed

text \<open>C33: every row of an accepted exception table covers a non-empty range of the code, has
  its handler inside the code, and catches everything or a class of the constant pool.\<close>

theorem parse_exception_table_ok:
  assumes "parse_exception_table code_length cp p = Inr (es, p')"
  shows "list_all (handler_in_code code_length cp) es"
  using assms parse_exception_entries_ok
  by (fastforce simp: parse_exception_table_def jvm_check_Inr_iff split: if_splits)

definition short_table :: parser where
  "short_table = parser_of [0, 1, 0, 0, 0, 1]"

theorem parse_exception_table_ok_witness:
  "list_all (handler_in_code 9 []) [\<lparr>start_pc = 0, end_pc = 1, handler_pc = 0, catch_type = 0\<rparr>]"
proof -
  have "parse_exception_table 9 [] short_table =
      Inr ([\<lparr>start_pc = 0, end_pc = 1, handler_pc = 0, catch_type = 0\<rparr>], short_table\<lparr>bufptr := 10\<rparr>)"
    by (simp add: parse_exception_table_def short_table_def parser_of_def get_u2_def get_Java_u2_def
        code_of_bytes_def get_java_ushort_def Let_def)
  then show ?thesis by (rule parse_exception_table_ok)
qed

lemma parse_exception_entries_error:
  "parse_exception_entries num code_length cp m ptr \<noteq> Inl truncated_class_file"
  by (induction num code_length cp m ptr rule: parse_exception_entries.induct)
    (auto simp: Let_def jvm_check_def split: sum.splits)

lemma get_u2_end: "get_u2 p = Inr (n, q) \<Longrightarrow> bufend q = bufend p \<and> buf q = buf p"
  by (auto simp: get_u2_def Let_def split: if_splits)

text \<open>C40: Which exception tables are compared with the end of the class file.  The length check counts four bytes for
  each row: a table is refused as truncated exactly when fewer are left.  A row has eight bytes, and the rows are read
  without another check, so that the parser stands behind the end of the class file after an accepted table exactly
  when there are fewer than eight bytes for each row.  (The assertion on \<open>bufptr\<close> is in the debug build only.)\<close>

theorem parse_exception_table_end:
  assumes "get_u2 p = Inr (n, q)" "0 < n"
  shows "(parse_exception_table code_length cp p = Inl truncated_class_file \<longleftrightarrow> bufend q - bufptr q < 4 * n) \<and>
    (\<forall>es p'. parse_exception_table code_length cp p = Inr (es, p') \<longrightarrow>
       int (length es) = n \<and> bufptr p' = bufptr q + 8 * n \<and> (bufend p < bufptr p' \<longleftrightarrow> bufend q - bufptr q < 8 * n))"
proof -
  have run: "parse_exception_table code_length cp p =
      (if bufend q - bufptr q < n * 4 then Inl truncated_class_file
       else jvm_check (parse_exception_entries (nat n) code_length cp (buf q) (bufptr q))
         (\<lambda>es. Inr (es, q\<lparr>bufptr := bufptr q + 8 * n\<rparr>)))"
    using assms by (simp add: parse_exception_table_def)
  have "length es = nat n" if "parse_exception_entries (nat n) code_length cp (buf q) (bufptr q) = Inr es" for es
    using parse_exception_entries_ok [OF that] by simp
  then show ?thesis
    unfolding run using assms(2) get_u2_end [OF assms(1)]
      parse_exception_entries_error [of "nat n" code_length cp "buf q" "bufptr q"]
    by (cases "parse_exception_entries (nat n) code_length cp (buf q) (bufptr q)") auto
qed

theorem parse_exception_table_end_witness:
  "\<exists>es p'. parse_exception_table 9 [] short_table = Inr (es, p') \<and> bufend short_table < bufptr p'"
proof -
  have q: "get_u2 short_table = Inr (1, short_table\<lparr>bufptr := 2\<rparr>)"
    by (simp add: short_table_def parser_of_def get_u2_def get_Java_u2_def code_of_bytes_def)
  have "parse_exception_table 9 [] short_table =
      Inr ([\<lparr>start_pc = 0, end_pc = 1, handler_pc = 0, catch_type = 0\<rparr>], short_table\<lparr>bufptr := 10\<rparr>)"
    by (simp add: parse_exception_table_def short_table_def parser_of_def get_u2_def get_Java_u2_def
        code_of_bytes_def get_java_ushort_def Let_def)
  with parse_exception_table_end [OF q, of 9 "[]"] show ?thesis by (auto simp: short_table_def parser_of_def)
qed

end
