(* ===== verification/Verifier_Frame.thy ===== *)
theory Verifier_Frame
  imports Class_Parser
begin

text \<open>
  The verifier's abstract frame (\<open>VerifierFrame.hpp\<close>, \<open>VerifierFrame.cpp\<close>): the tags and
  class names of the operand stack and of the local variables, the operations the
  verifier performs on them, and the match of a frame with a stack map of the
  class file.

  The arrays of a frame are the verifier's caches when the method is small enough:
  they are then longer than the method needs, and the tags of an earlier method
  are still in them.  An operation that throws leaves no frame, since nothing
  reads it after an exception.
\<close>

record verifier_frame =
  max_stack :: nat
  max_locals :: nat
  vstackpointer :: nat
  vstack_tags :: "tag list"
  vstack_classes :: "symbol option list"
  vlocals_tags :: "tag list"
  vlocals_classes :: "symbol option list"
  need_initialization :: bool
  stackmaps :: "stackmap list"
  saved_stack_pointer :: nat
  saved_tag_0 :: tag
  saved_klass_0 :: "symbol option"

record verifier_caches =
  vstack_tags_cache :: "tag list"
  vstack_classes_cache :: "symbol option list"
  vlocals_tags_cache :: "tag list"
  vlocals_classes_cache :: "symbol option list"

abbreviation VSTACK_CACHE_SIZE :: nat where "VSTACK_CACHE_SIZE \<equiv> 40"
abbreviation VLOCALS_CACHE_SIZE :: nat where "VLOCALS_CACHE_SIZE \<equiv> 40"

text \<open>The method that is verified.\<close>

record jvm_method =
  m_name :: symbol
  m_signature :: symbol
  m_static :: bool
  m_native_or_abstract :: bool
  m_holder :: java_class
  m_code :: code_mem
  m_code_size :: int
  m_max_stack :: nat
  m_max_locals :: nat
  m_exceptions :: "handler_entry list"
  m_stackmaps :: "stackmap list"

definition is_object_initializer :: "jvm_method \<Rightarrow> bool" where
  "is_object_initializer m = sym_equals (m_name m) object_initializer_name"


section \<open>Initialization\<close>

text \<open>The class arrays are cleared as far as the method uses them, the tags are not.\<close>

definition clear_prefix :: "nat \<Rightarrow> 'a option list \<Rightarrow> 'a option list" where
  "clear_prefix n xs = replicate n None @ drop n xs"

definition frame_initialize :: "verifier_caches \<Rightarrow> jvm_method \<Rightarrow> verifier_frame" where
  "frame_initialize caches m =
     \<lparr>max_stack = m_max_stack m, max_locals = m_max_locals m, vstackpointer = 0,
      vstack_tags = (if m_max_stack m \<le> VSTACK_CACHE_SIZE then vstack_tags_cache caches
                     else replicate (m_max_stack m) 0),
      vstack_classes = (if m_max_stack m \<le> VSTACK_CACHE_SIZE
                        then clear_prefix (m_max_stack m) (vstack_classes_cache caches)
                        else replicate (m_max_stack m) None),
      vlocals_tags = (if m_max_locals m \<le> VLOCALS_CACHE_SIZE then vlocals_tags_cache caches
                      else replicate (m_max_locals m) 0),
      vlocals_classes = (if m_max_locals m \<le> VLOCALS_CACHE_SIZE
                         then clear_prefix (m_max_locals m) (vlocals_classes_cache caches)
                         else replicate (m_max_locals m) None),
      need_initialization = False, stackmaps = m_stackmaps m,
      saved_stack_pointer = 0, saved_tag_0 = 0, saved_klass_0 = None\<rparr>"


section \<open>Pushing and popping\<close>

definition vstack_put :: "nat \<Rightarrow> tag \<Rightarrow> symbol option \<Rightarrow> verifier_frame \<Rightarrow> verifier_frame" where
  "vstack_put i kind name f =
     f\<lparr>vstack_tags := (vstack_tags f)[i := kind], vstack_classes := (vstack_classes f)[i := name]\<rparr>"

definition vlocals_put :: "nat \<Rightarrow> tag \<Rightarrow> symbol option \<Rightarrow> verifier_frame \<Rightarrow> verifier_frame" where
  "vlocals_put i kind name f =
     f\<lparr>vlocals_tags := (vlocals_tags f)[i := kind], vlocals_classes := (vlocals_classes f)[i := name]\<rparr>"

definition push_category1 :: "tag \<Rightarrow> symbol option \<Rightarrow> verifier_frame \<Rightarrow> error_tag + verifier_frame" where
  "push_category1 kind name f =
     (let vsp = vstackpointer f
      in if vsp < max_stack f
         then Inr ((vstack_put vsp kind name f)\<lparr>vstackpointer := vsp + 1\<rparr>)
         else Inl ve_stack_overflow)"

definition pop_category1 :: "verifier_frame \<Rightarrow> error_tag + (tag \<times> symbol option \<times> verifier_frame)" where
  "pop_category1 f =
     (if vstackpointer f > 0 then
        let vsp = vstackpointer f - 1; kind = vstack_tags f ! vsp
        in if kind = ITEM_Double_2 \<or> kind = ITEM_Long_2 then Inl ve_stack_bad_type
           else Inr (kind, vstack_classes f ! vsp, f\<lparr>vstackpointer := vsp\<rparr>)
      else Inl ve_stack_underflow)"

definition push_category2 ::
  "tag \<Rightarrow> tag \<Rightarrow> symbol option \<Rightarrow> symbol option \<Rightarrow> verifier_frame \<Rightarrow> error_tag + verifier_frame" where
  "push_category2 kind1 kind2 name1 name2 f =
     (let vsp = vstackpointer f
      in if vsp + 1 < max_stack f
         then Inr ((vstack_put (vsp + 1) kind2 name2 (vstack_put vsp kind1 name1 f))
                     \<lparr>vstackpointer := vsp + 2\<rparr>)
         else Inl ve_stack_overflow)"

definition pop_category2 ::
  "verifier_frame \<Rightarrow> error_tag + ((tag \<times> tag \<times> symbol option \<times> symbol option) \<times> verifier_frame)" where
  "pop_category2 f =
     (if vstackpointer f \<le> 1 then Inl ve_stack_underflow
      else let vsp = vstackpointer f - 2;
               kind1 = vstack_tags f ! vsp; kind2 = vstack_tags f ! (vsp + 1)
           in if kind1 = ITEM_Double_2 \<or> kind1 = ITEM_Long_2 then Inl ve_stack_bad_type
              else Inr ((kind1, kind2, vstack_classes f ! vsp, vstack_classes f ! (vsp + 1)),
                        f\<lparr>vstackpointer := vsp\<rparr>))"

definition is_reference_tag :: "tag \<Rightarrow> bool" where
  "is_reference_tag kind =
     (kind = ITEM_Object \<or> kind = ITEM_Null \<or> kind = ITEM_InitObject \<or> is_newobject kind)"

definition pop_ref :: "verifier_frame \<Rightarrow> error_tag + (tag \<times> symbol option \<times> verifier_frame)" where
  "pop_ref f =
     jvm_check (pop_category1 f) (\<lambda>(kind, name, f).
       if is_reference_tag kind then Inr (kind, name, f) else Inl ve_stack_bad_type)"

definition frame_pop :: "tag \<Rightarrow> verifier_frame \<Rightarrow> error_tag + verifier_frame" where
  "frame_pop kind f =
     (if vstackpointer f > 0 then
        let vsp = vstackpointer f - 1
        in if kind \<noteq> vstack_tags f ! vsp then Inl ve_stack_bad_type
           else Inr (f\<lparr>vstackpointer := vsp\<rparr>)
      else Inl ve_stack_underflow)"

abbreviation (input) frame_push :: "tag \<Rightarrow> verifier_frame \<Rightarrow> error_tag + verifier_frame" where
  "frame_push kind \<equiv> push_category1 kind None"

abbreviation (input) push_object :: "symbol \<Rightarrow> verifier_frame \<Rightarrow> error_tag + verifier_frame" where
  "push_object name \<equiv> push_category1 ITEM_Object (Some name)"


section \<open>Assignability\<close>

text \<open>\<open>compute_is_subtype_of\<close> on class names.  The tag \<open>ITEM_Object\<close> always has a name; a
  null name would be dereferenced by the class loader.\<close>

definition names_equal :: "symbol option \<Rightarrow> symbol \<Rightarrow> bool" where
  "names_equal from to = (case from of None \<Rightarrow> False | Some s \<Rightarrow> sym_equals s to)"

definition name_is_subtype_of :: "vm \<Rightarrow> symbol option \<Rightarrow> symbol option \<Rightarrow> error_tag + bool" where
  "name_is_subtype_of vm from_name to_name =
     (case to_name of
        None \<Rightarrow> if from_name = None then Inr True else Inl null_dereference
      | Some to_sym \<Rightarrow>
          if names_equal from_name to_sym then Inr True
          else if sym_equals to_sym java_lang_Object then Inr True
          else (case from_name of
              None \<Rightarrow> Inl null_dereference
            | Some from_sym \<Rightarrow>
                jvm_check (sd_resolve vm from_sym) (\<lambda>from_class.
                  if list_ex (\<lambda>a. sym_equals to_sym (class_name a)) (tl (super_chain from_class))
                  then Inr True
                  else jvm_check (sd_resolve vm to_sym) (\<lambda>to_class.
                    Inr (is_interface to_class \<or>
                         compute_is_subtype_of (object_class vm) from_class to_class)))))"

definition is_assignable_to ::
  "vm \<Rightarrow> tag \<Rightarrow> tag \<Rightarrow> symbol option \<Rightarrow> symbol option \<Rightarrow> error_tag + bool" where
  "is_assignable_to vm from_type to_type from_class to_class =
     (if from_type = to_type then
        (if from_type = ITEM_Object then name_is_subtype_of vm from_class to_class else Inr True)
      else if to_type = ITEM_Bogus then Inr True
      else if to_type = ITEM_Object \<and> from_type = ITEM_Null then Inr True
      else Inr False)"

definition pop_object :: "vm \<Rightarrow> symbol \<Rightarrow> verifier_frame \<Rightarrow> error_tag + verifier_frame" where
  "pop_object vm name f =
     jvm_check (pop_category1 f) (\<lambda>(kind, stack_name, f).
       if kind = ITEM_Object then
         jvm_check (name_is_subtype_of vm stack_name (Some name)) (\<lambda>result.
           if result then Inr f else Inl ve_stack_bad_type)
       else if kind = ITEM_Null then Inr f
       else Inl ve_stack_bad_type)"


section \<open>Local variables\<close>

definition bogify_surrounding_doublewords :: "nat \<Rightarrow> verifier_frame \<Rightarrow> verifier_frame" where
  "bogify_surrounding_doublewords index f =
     (if index \<ge> 1 \<and> (vlocals_tags f ! (index - 1) = ITEM_Double \<or>
                     vlocals_tags f ! (index - 1) = ITEM_Long)
      then f\<lparr>vlocals_tags := (vlocals_tags f)[index - 1 := ITEM_Bogus]\<rparr> else f)"

definition frame_set_local :: "int \<Rightarrow> tag \<Rightarrow> verifier_frame \<Rightarrow> error_tag + verifier_frame" where
  "frame_set_local index kind f =
     (if index \<ge> 0 \<and> index < int (max_locals f)
      then Inr (bogify_surrounding_doublewords (nat index) (vlocals_put (nat index) kind None f))
      else Inl ve_locals_overflow)"

definition frame_set_local2 :: "int \<Rightarrow> tag \<Rightarrow> verifier_frame \<Rightarrow> error_tag + verifier_frame" where
  "frame_set_local2 index kind f =
     (if index < 0 \<or> index + 1 \<ge> int (max_locals f) then Inl ve_locals_overflow
      else Inr (bogify_surrounding_doublewords (nat index)
        (vlocals_put (nat index + 1) (if kind = ITEM_Long then ITEM_Long_2 else ITEM_Double_2) None
          (vlocals_put (nat index) kind None f))))"

definition set_local_ref :: "int \<Rightarrow> tag \<Rightarrow> symbol option \<Rightarrow> verifier_frame \<Rightarrow> error_tag + verifier_frame" where
  "set_local_ref index kind name f =
     (if index < 0 \<or> index \<ge> int (max_locals f) then Inl ve_locals_overflow
      else Inr (bogify_surrounding_doublewords (nat index) (vlocals_put (nat index) kind name f)))"

definition frame_check_local :: "int \<Rightarrow> tag \<Rightarrow> verifier_frame \<Rightarrow> error_tag + verifier_frame" where
  "frame_check_local index kind f =
     (if index < 0 \<or> index \<ge> int (max_locals f) then Inl ve_locals_overflow
      else if vlocals_tags f ! nat index \<noteq> kind then Inl ve_locals_bad_type else Inr f)"

definition frame_check_local2 :: "int \<Rightarrow> tag \<Rightarrow> verifier_frame \<Rightarrow> error_tag + verifier_frame" where
  "frame_check_local2 index kind f =
     (if index < 0 \<or> index + 1 \<ge> int (max_locals f) then Inl ve_locals_overflow
      else if vlocals_tags f ! nat index \<noteq> kind then Inl ve_locals_bad_type else Inr f)"

definition check_local_ref :: "int \<Rightarrow> verifier_frame \<Rightarrow> error_tag + (tag \<times> symbol option)" where
  "check_local_ref index f =
     (if index < 0 \<or> index \<ge> int (max_locals f) then Inl ve_locals_overflow
      else let kind = vlocals_tags f ! nat index
           in if kind = ITEM_Object then Inr (kind, vlocals_classes f ! nat index)
              else if kind = ITEM_Null \<or> kind = ITEM_InitObject \<or> is_newobject kind
              then Inr (kind, None)
              else Inl ve_locals_bad_type)"

definition replace_below :: "nat \<Rightarrow> tag \<Rightarrow> 'a \<Rightarrow> tag list \<Rightarrow> 'a list \<Rightarrow> 'a list" where
  "replace_below n from x tags xs =
     map (\<lambda>i. if i < n \<and> tags ! i = from then x else xs ! i) [0..<length xs]"

definition replace_stack_type_with_real_type ::
  "tag \<Rightarrow> tag \<Rightarrow> symbol option \<Rightarrow> verifier_frame \<Rightarrow> verifier_frame" where
  "replace_stack_type_with_real_type from to name f =
     f\<lparr>vstack_tags := replace_below (max_stack f) from to (vstack_tags f) (vstack_tags f),
       vstack_classes := replace_below (max_stack f) from name (vstack_tags f) (vstack_classes f),
       vlocals_tags := replace_below (max_locals f) from to (vlocals_tags f) (vlocals_tags f),
       vlocals_classes := replace_below (max_locals f) from name (vlocals_tags f) (vlocals_classes f)\<rparr>"


section \<open>Arguments of a call\<close>

definition check_argument ::
  "vm \<Rightarrow> basic_type \<times> symbol option \<Rightarrow> verifier_frame \<times> nat \<Rightarrow> error_tag + (verifier_frame \<times> nat)" where
  "check_argument vm param fn =
     (case (param, fn) of ((param_type, expected_name), (f, n)) \<Rightarrow>
       if param_type \<in> {T_INT, T_BYTE, T_CHAR, T_SHORT, T_BOOLEAN} then
         (if vstack_tags f ! n \<noteq> ITEM_Integer then Inl ve_stack_bad_type else Inr (f, n + 1))
       else if param_type = T_FLOAT then
         (if vstack_tags f ! n \<noteq> ITEM_Float then Inl ve_stack_bad_type else Inr (f, n + 1))
       else if param_type = T_LONG then
         (if vstack_tags f ! n \<noteq> ITEM_Long then Inl ve_stack_bad_type else Inr (f, n + 2))
       else if param_type = T_DOUBLE then
         (if vstack_tags f ! n \<noteq> ITEM_Double then Inl ve_stack_bad_type else Inr (f, n + 2))
       else if param_type = T_OBJECT \<or> param_type = T_ARRAY then
         (let actual_kind = vstack_tags f ! n
          in if actual_kind = ITEM_Null then Inr (f, n + 1)
             else if actual_kind = ITEM_Object then
               jvm_check (name_is_subtype_of vm (vstack_classes f ! n) expected_name) (\<lambda>result.
                 if result then Inr (f, n + 1) else Inl ve_stack_bad_type)
             else Inl ve_stack_bad_type)
       else Inl should_not_reach_here)"

definition pop_invoke_arguments ::
  "vm \<Rightarrow> symbol \<Rightarrow> verifier_frame \<Rightarrow> error_tag + (nat \<times> verifier_frame)" where
  "pop_invoke_arguments vm signature f =
     (let param_size = parameter_word_size signature True
      in if vstackpointer f < param_size then Inl ve_args_not_enough
         else let f = f\<lparr>vstackpointer := vstackpointer f - param_size\<rparr>
         in case signature_parameters vm signature of
              None \<Rightarrow> Inl unbounded_read
            | Some params \<Rightarrow>
                jvm_check (jvm_fold (check_argument vm) params (f, vstackpointer f))
                  (\<lambda>(f, n). Inr (param_size, f)))"


section \<open>Saving the stack\<close>

definition save_stack_state :: "verifier_frame \<Rightarrow> verifier_frame" where
  "save_stack_state f =
     f\<lparr>saved_stack_pointer := vstackpointer f, saved_tag_0 := vstack_tags f ! 0,
       saved_klass_0 := vstack_classes f ! 0, vstackpointer := 0\<rparr>"

definition restore_stack_state :: "verifier_frame \<Rightarrow> verifier_frame" where
  "restore_stack_state f =
     vstack_put 0 (saved_tag_0 f) (saved_klass_0 f) (f\<lparr>vstackpointer := saved_stack_pointer f\<rparr>)"


section \<open>Stack maps\<close>

text \<open>The array of the stack maps alternates scalars and classes: the maps' indices are
  the even ones.  A search that finds nothing returns -1.\<close>

fun find_stackmap :: "stackmap list \<Rightarrow> int \<Rightarrow> int \<Rightarrow> int" where
  "find_stackmap [] stackmap_index target_bci = - 1"
| "find_stackmap (sm # sms) stackmap_index target_bci =
     (if target_bci = map_offset sm then stackmap_index
      else find_stackmap sms (stackmap_index + 2) target_bci)"

definition get_stackmap_index_for_offset :: "stackmap list \<Rightarrow> int \<Rightarrow> int" where
  "get_stackmap_index_for_offset sms target_bci = find_stackmap sms 0 target_bci"

text \<open>The cache of the verifier (\<open>Universe::verifier_stackmap_cache\<close>) and the bound below
  which it is valid; what a verification run has at hand.\<close>

record verify_env =
  ve_vm :: vm
  ve_method :: jvm_method
  stackmap_cache :: "int list"
  stackmap_cache_max :: int

definition lookup_stackmap :: "verify_env \<Rightarrow> stackmap list \<Rightarrow> int \<Rightarrow> int" where
  "lookup_stackmap env sms target_bci =
     (if (word_of_int target_bci :: 32 word) < word_of_int (stackmap_cache_max env)
      then stackmap_cache env ! nat target_bci
      else get_stackmap_index_for_offset sms target_bci)"

datatype sm_flag = SM_CHECK | SM_MERGE | SM_EXIST

text \<open>One local or stack word: the state is the frame, the class of the map's last
  object (which a word of another type inherits) and whether the map has an
  uninitialized \<open>this\<close>.\<close>

type_synonym match_state = "verifier_frame \<times> symbol option \<times> bool"

definition match_local ::
  "vm \<Rightarrow> sm_flag list \<Rightarrow> error_tag \<Rightarrow> stackmap \<Rightarrow> nat \<Rightarrow> match_state \<Rightarrow> error_tag + match_state" where
  "match_local vm flags err sm i s =
     (case s of (f, slocal_class, target_needs_initialization) \<Rightarrow>
       let slocal_tag = fst sm ! (i + 2);
           slocal_class = (if slocal_tag = ITEM_Object then snd sm ! (i + 2) else slocal_class);
           target_needs_initialization =
             (target_needs_initialization \<or> slocal_tag = ITEM_InitObject)
       in if SM_CHECK \<in> set flags \<and>
             \<not> no_check (is_assignable_to vm (vlocals_tags f ! i) slocal_tag
                           (vlocals_classes f ! i) slocal_class)
          then Inl err
          else Inr (if SM_MERGE \<in> set flags then vlocals_put i slocal_tag slocal_class f else f,
                    slocal_class, target_needs_initialization))"

definition match_stack ::
  "vm \<Rightarrow> sm_flag list \<Rightarrow> error_tag \<Rightarrow> stackmap \<Rightarrow> nat \<Rightarrow> match_state \<Rightarrow> error_tag + match_state" where
  "match_stack vm flags err sm i s =
     (case s of (f, sstack_class, target_needs_initialization) \<Rightarrow>
       let j = map_nlocals sm + i + 3;
           sstack_tag = fst sm ! j;
           sstack_class = (if sstack_tag = ITEM_Object then snd sm ! j else sstack_class);
           target_needs_initialization =
             (target_needs_initialization \<or> sstack_tag = ITEM_InitObject)
       in if SM_CHECK \<in> set flags \<and>
             \<not> no_check (is_assignable_to vm (vstack_tags f ! i) sstack_tag
                           (vstack_classes f ! i) sstack_class)
          then Inl err
          else Inr (if SM_MERGE \<in> set flags then vstack_put i sstack_tag sstack_class f else f,
                    sstack_class, target_needs_initialization))"

text \<open>The locals behind the map's own become bogus in a merge.\<close>

definition bogify_rest :: "nat \<Rightarrow> nat \<Rightarrow> verifier_frame \<Rightarrow> verifier_frame" where
  "bogify_rest nlocals n f = fold (\<lambda>i f. vlocals_put i ITEM_Bogus None f) [nlocals..<n] f"

definition match_stackmap ::
  "verify_env \<Rightarrow> sm_flag list \<Rightarrow> error_tag \<Rightarrow> stackmap \<Rightarrow> verifier_frame \<Rightarrow> error_tag + verifier_frame" where
  "match_stackmap env flags err sm f =
     jvm_check (jvm_fold (match_local (ve_vm env) flags err sm) [0..<map_nlocals sm] (f, None, False))
       (\<lambda>(f, _, tni).
         let f = (if SM_MERGE \<in> set flags
                  then bogify_rest (map_nlocals sm) (m_max_locals (ve_method env)) f else f)
         in if SM_CHECK \<in> set flags \<and> map_nstack sm \<noteq> vstackpointer f then Inl err
            else let f = (if SM_MERGE \<in> set flags then f\<lparr>vstackpointer := map_nstack sm\<rparr> else f)
            in jvm_check (jvm_fold (match_stack (ve_vm env) flags err sm) [0..<map_nstack sm] (f, None, tni))
              (\<lambda>(f, _, tni).
                if is_object_initializer (ve_method env) then
                  (if need_initialization f \<and> \<not> tni then Inl err
                   else Inr (if SM_MERGE \<in> set flags then f\<lparr>need_initialization := tni\<rparr> else f))
                else Inr f))"

definition check_stackmap_match ::
  "verify_env \<Rightarrow> int \<Rightarrow> sm_flag list \<Rightarrow> error_tag \<Rightarrow> verifier_frame \<Rightarrow> error_tag + verifier_frame" where
  "check_stackmap_match env target_bci flags err f =
     (let stackmap_index = lookup_stackmap env (stackmaps f) target_bci
      in if stackmap_index < 0 then (if SM_EXIST \<in> set flags then Inl err else Inr f)
         else match_stackmap env flags err (stackmaps f ! (nat stackmap_index div 2)) f)"

definition check_current_target :: "verify_env \<Rightarrow> int \<Rightarrow> bool \<Rightarrow> verifier_frame \<Rightarrow> error_tag + verifier_frame" where
  "check_current_target env current_bci noControlFlow f =
     check_stackmap_match env current_bci
       [SM_MERGE, if noControlFlow then SM_EXIST else SM_CHECK] ve_seq_bad_type f"

definition check_handler_target :: "verify_env \<Rightarrow> int \<Rightarrow> verifier_frame \<Rightarrow> error_tag + verifier_frame" where
  "check_handler_target env target_bci f =
     check_stackmap_match env target_bci [SM_CHECK, SM_EXIST] ve_target_bad_type f"

definition check_branch_target :: "verify_env \<Rightarrow> int \<Rightarrow> verifier_frame \<Rightarrow> error_tag + verifier_frame" where
  "check_branch_target env target_bci f =
     check_stackmap_match env target_bci [SM_CHECK, SM_EXIST] ve_target_bad_type f"

end
