(* ===== verification/Frame_Invariant.thy ===== *)
theory Frame_Invariant
  imports Verifier_Frame
begin

text \<open>
  The invariant of the verifier's frame: the two stacks fit their arrays, a long or
  double occupies two words of the stack with its second half above it, a first
  half among the locals is followed by its second half, and an object has a class
  name.  Every operation of the frame keeps it, and so does the merge of a
  well-formed stack map.  With it, the \<open>GUARANTEE\<close>s of \<open>VerifierFrame.cpp\<close> hold.
\<close>

section \<open>Words in pairs\<close>

definition second_half :: "tag \<Rightarrow> bool" where
  "second_half t = (t = ITEM_Long_2 \<or> t = ITEM_Double_2)"

definition first_half :: "tag \<Rightarrow> bool" where
  "first_half t = (t = ITEM_Long \<or> t = ITEM_Double)"

definition half_of :: "tag \<Rightarrow> tag" where
  "half_of t = (if t = ITEM_Long then ITEM_Long_2 else ITEM_Double_2)"

type_synonym vword = "tag \<times> symbol option"

fun paired :: "vword list \<Rightarrow> bool" where
  "paired [] = True"
| "paired ((t, c) # ws) =
     (if first_half t then
        (case ws of [] \<Rightarrow> False | (t2, _) # ws' \<Rightarrow> t2 = half_of t \<and> paired ws')
      else \<not> second_half t \<and> (t = ITEM_Object \<longrightarrow> c \<noteq> None) \<and> paired ws)"

lemma halves_disjoint: "first_half t \<Longrightarrow> \<not> second_half t" "second_half (half_of t)"
  by (auto simp: first_half_def second_half_def half_of_def)

lemma paired_append: "paired xs \<Longrightarrow> paired ys \<Longrightarrow> paired (xs @ ys)"
  by (induction xs rule: paired.induct) (auto split: list.splits if_splits)

lemma paired_split:
  "paired (xs @ (t, c) # ys) \<Longrightarrow> \<not> second_half t \<Longrightarrow> paired xs \<and> paired ((t, c) # ys)"
proof (induction xs rule: paired.induct)
  case (2 t' c' ws)
  show ?case
  proof (cases "first_half t'")
    case True
    with 2 show ?thesis
      by (cases ws) (auto simp: halves_disjoint)
  next
    case False
    with 2 show ?thesis by auto
  qed
qed simp

lemma paired_single [simp]:
  "paired [(t, c)] \<longleftrightarrow> \<not> first_half t \<and> \<not> second_half t \<and> (t = ITEM_Object \<longrightarrow> c \<noteq> None)"
  by simp

text \<open>A first half has its second half above it.\<close>

lemma paired_nth:
  "paired ws \<Longrightarrow> i < length ws \<Longrightarrow> first_half (fst (ws ! i)) \<Longrightarrow>
     i + 1 < length ws \<and> fst (ws ! (i + 1)) = half_of (fst (ws ! i))"
proof (induction ws arbitrary: i rule: paired.induct)
  case (2 t c ws)
  show ?case
  proof (cases "first_half t")
    case True
    then obtain t2 c2 ws' where ws: "ws = (t2, c2) # ws'" "t2 = half_of t" "paired ws'"
      using 2(3) by (auto split: list.splits)
    consider "i = 0" | "i = 1" | k where "i = Suc (Suc k)"
      by (metis One_nat_def not0_implies_Suc)
    then show ?thesis
    proof cases
      case 2
      then show ?thesis using ws \<open>first_half (fst (((t, c) # ws) ! i))\<close>
        by (auto dest: halves_disjoint(1) simp: halves_disjoint(2))
    next
      case (3 k)
      then show ?thesis using 2(1) [OF True, of "(t2, c2)" ws' t2 c2 k] ws 2(4,5) by simp
    qed (use ws in simp)
  next
    case False
    then obtain k where i: "i = Suc k" using 2(5) by (cases i) auto
    show ?thesis using 2(2) [OF False, of k] 2(3-5) False i by simp
  qed
qed simp

lemma wf_items_paired: "wf_items code_length ws \<Longrightarrow> paired ws"
proof (induction code_length ws rule: wf_items.induct)
  case (2 code_length t c items)
  show ?case
  proof (cases "first_half t")
    case True
    with 2 show ?thesis
      by (auto simp: first_half_def half_of_def split: list.splits if_splits)
  next
    case False
    have enc: "encode_newobject pc \<noteq> 7" "encode_newobject pc \<noteq> 9" "encode_newobject pc \<noteq> 10" for pc
      by (simp_all add: encode_newobject_neq)
    have "\<not> second_half t"
      using 2(3) False enc
      by (auto simp: first_half_def second_half_def plain_tag_def split: if_splits)
    with False 2 enc show ?thesis by (auto simp: first_half_def plain_tag_def split: if_splits)
  qed
qed simp


section \<open>The invariant\<close>

definition stack_words :: "verifier_frame \<Rightarrow> vword list" where
  "stack_words f = take (vstackpointer f) (zip (vstack_tags f) (vstack_classes f))"

definition frame_sizes :: "verifier_frame \<Rightarrow> bool" where
  "frame_sizes f =
     (vstackpointer f \<le> max_stack f \<and> max_stack f \<le> length (vstack_tags f) \<and>
      length (vstack_classes f) = length (vstack_tags f) \<and>
      max_locals f \<le> length (vlocals_tags f) \<and>
      length (vlocals_classes f) = length (vlocals_tags f))"

definition locals_ok :: "verifier_frame \<Rightarrow> bool" where
  "locals_ok f =
     (\<forall>i < max_locals f.
        (first_half (vlocals_tags f ! i) \<longrightarrow>
           i + 1 < max_locals f \<and> vlocals_tags f ! (i + 1) = half_of (vlocals_tags f ! i)) \<and>
        (vlocals_tags f ! i = ITEM_Object \<longrightarrow> vlocals_classes f ! i \<noteq> None))"

definition frame_ok :: "verifier_frame \<Rightarrow> bool" where
  "frame_ok f = (frame_sizes f \<and> paired (stack_words f) \<and> locals_ok f)"

lemma stack_words_length: "frame_sizes f \<Longrightarrow> length (stack_words f) = vstackpointer f"
  by (simp add: stack_words_def frame_sizes_def)

lemma stack_words_nth:
  "frame_sizes f \<Longrightarrow> i < vstackpointer f \<Longrightarrow>
     stack_words f ! i = (vstack_tags f ! i, vstack_classes f ! i)"
  by (simp add: stack_words_def frame_sizes_def)

lemma stack_words_take:
  "n \<le> vstackpointer f \<Longrightarrow> stack_words (f\<lparr>vstackpointer := n\<rparr>) = take n (stack_words f)"
  by (simp add: stack_words_def)

lemma stack_words_last:
  assumes "frame_sizes f" "vstackpointer f = Suc n"
  shows "stack_words f = stack_words (f\<lparr>vstackpointer := n\<rparr>) @ [(vstack_tags f ! n, vstack_classes f ! n)]"
  using assms by (simp add: stack_words_def frame_sizes_def take_Suc_conv_app_nth)

text \<open>The parts of a frame that the operations on the stack leave alone.\<close>

definition same_rest :: "verifier_frame \<Rightarrow> verifier_frame \<Rightarrow> bool" where
  "same_rest f f' =
     (max_stack f' = max_stack f \<and> max_locals f' = max_locals f \<and>
      vlocals_tags f' = vlocals_tags f \<and> vlocals_classes f' = vlocals_classes f \<and>
      need_initialization f' = need_initialization f \<and> stackmaps f' = stackmaps f)"

lemma same_rest_refl [simp]: "same_rest f f" by (simp add: same_rest_def)
lemma same_rest_trans [trans]: "same_rest f g \<Longrightarrow> same_rest g h \<Longrightarrow> same_rest f h"
  by (simp add: same_rest_def)

lemma same_rest_locals: "same_rest f f' \<Longrightarrow> locals_ok f' = locals_ok f"
  by (simp add: same_rest_def locals_ok_def)

section \<open>Pushing and popping\<close>

text \<open>The effect of an operation on the stack: the words it leaves, the arrays still
  fit, nothing else has changed.\<close>

definition stack_effect :: "verifier_frame \<Rightarrow> vword list \<Rightarrow> verifier_frame \<Rightarrow> bool" where
  "stack_effect f ws f' = (frame_sizes f' \<and> same_rest f f' \<and> stack_words f' = ws)"

lemma stack_effect_ok:
  "stack_effect f ws f' \<Longrightarrow> frame_ok f \<Longrightarrow> paired ws \<Longrightarrow> frame_ok f'"
  using same_rest_locals [of f f'] by (simp add: stack_effect_def frame_ok_def)

lemma push_category1_effect:
  assumes "push_category1 t c f = Inr f'" "frame_sizes f"
  shows "stack_effect f (stack_words f @ [(t, c)]) f'"
  using assms
  by (auto simp: push_category1_def Let_def vstack_put_def stack_effect_def frame_sizes_def
      same_rest_def stack_words_def take_Suc_conv_app_nth take_zip split: if_splits)

lemma pop_category1_effect:
  assumes "pop_category1 f = Inr (t, c, f')" "frame_sizes f"
  shows "stack_effect f (stack_words f') f'" "stack_words f = stack_words f' @ [(t, c)]"
    "\<not> second_half t"
proof -
  from assms(1) obtain n where n: "vstackpointer f = Suc n"
    by (cases "vstackpointer f") (auto simp: pop_category1_def)
  then have f': "f' = f\<lparr>vstackpointer := n\<rparr>" and tc: "t = vstack_tags f ! n" "c = vstack_classes f ! n"
    and s: "\<not> second_half t"
    using assms(1) by (auto simp: pop_category1_def Let_def second_half_def split: if_splits)
  show "stack_effect f (stack_words f') f'"
    using assms(2) n by (simp add: f' stack_effect_def frame_sizes_def same_rest_def)
  show "stack_words f = stack_words f' @ [(t, c)]" "\<not> second_half t"
    using stack_words_last [OF assms(2) n] tc f' s by simp_all
qed

lemma frame_pop_effect:
  assumes "frame_pop kind f = Inr f'" "frame_sizes f"
  shows "stack_effect f (stack_words f') f'" "\<exists>c. stack_words f = stack_words f' @ [(kind, c)]"
proof -
  from assms(1) obtain n where n: "vstackpointer f = Suc n"
    by (cases "vstackpointer f") (auto simp: frame_pop_def)
  then have f': "f' = f\<lparr>vstackpointer := n\<rparr>" and k: "kind = vstack_tags f ! n"
    using assms(1) by (auto simp: frame_pop_def Let_def split: if_splits)
  show "stack_effect f (stack_words f') f'"
    using assms(2) n by (simp add: f' stack_effect_def frame_sizes_def same_rest_def)
  show "\<exists>c. stack_words f = stack_words f' @ [(kind, c)]"
    using stack_words_last [OF assms(2) n] k f' by simp
qed

lemma push_category2_effect:
  assumes "push_category2 t1 t2 c1 c2 f = Inr f'" "frame_sizes f"
  shows "stack_effect f (stack_words f @ [(t1, c1), (t2, c2)]) f'"
proof -
  define g where "g = (vstack_put (vstackpointer f) t1 c1 f)\<lparr>vstackpointer := vstackpointer f + 1\<rparr>"
  have lim: "vstackpointer f + 1 < max_stack f"
    and f': "f' = (vstack_put (vstackpointer f + 1) t2 c2 g)\<lparr>vstackpointer := vstackpointer f + 2\<rparr>"
    using assms(1) by (auto simp: push_category2_def Let_def vstack_put_def g_def split: if_splits)
  have "push_category1 t1 c1 f = Inr g" using lim by (simp add: push_category1_def Let_def g_def)
  note 1 = push_category1_effect [OF this assms(2)]
  have "push_category1 t2 c2 g = Inr f'"
    using lim by (simp add: push_category1_def Let_def g_def f' vstack_put_def)
  from push_category1_effect [OF this] 1 show ?thesis
    by (auto simp: stack_effect_def intro: same_rest_trans)
qed

lemma pop_category2_effect:
  assumes "pop_category2 f = Inr ((t1, t2, c1, c2), f')" "frame_sizes f"
  shows "stack_effect f (stack_words f') f'" "stack_words f = stack_words f' @ [(t1, c1), (t2, c2)]"
    "\<not> second_half t1"
proof -
  from assms(1) obtain n where n: "vstackpointer f = Suc (Suc n)"
    by (cases "vstackpointer f"; cases "vstackpointer f - 1") (auto simp: pop_category2_def)
  then have f': "f' = f\<lparr>vstackpointer := n\<rparr>"
    and tc: "t1 = vstack_tags f ! n" "t2 = vstack_tags f ! Suc n"
      "c1 = vstack_classes f ! n" "c2 = vstack_classes f ! Suc n" and s: "\<not> second_half t1"
    using assms(1) by (auto simp: pop_category2_def Let_def second_half_def split: if_splits)
  define g where "g = f\<lparr>vstackpointer := Suc n\<rparr>"
  have g: "frame_sizes g" "vstackpointer g = Suc n" using assms(2) n by (simp_all add: g_def frame_sizes_def)
  show "stack_effect f (stack_words f') f'"
    using assms(2) n by (simp add: f' stack_effect_def frame_sizes_def same_rest_def)
  show "stack_words f = stack_words f' @ [(t1, c1), (t2, c2)]" "\<not> second_half t1"
    using stack_words_last [OF assms(2) n] stack_words_last [OF g] tc f' s by (simp_all add: g_def)
qed


section \<open>The operand stack as an interface\<close>

text \<open>What the stack operations of the bytecodes need of a stack: values of one word and
  groups of two words are pushed and popped as they are, an invariant is kept, and a
  state remains related to the one before it.\<close>

locale operand_stack =
  fixes ok :: "'s \<Rightarrow> bool"
    and words :: "'s \<Rightarrow> 'v list"
    and kept :: "'s \<Rightarrow> 's \<Rightarrow> bool"
    and push1 :: "'v \<Rightarrow> 's \<Rightarrow> 'e + 's"
    and pop1 :: "'s \<Rightarrow> 'e + ('v \<times> 's)"
    and push2 :: "'v \<Rightarrow> 'v \<Rightarrow> 's \<Rightarrow> 'e + 's"
    and pop2 :: "'s \<Rightarrow> 'e + (('v \<times> 'v) \<times> 's)"
    and single :: "'v \<Rightarrow> bool"
    and group :: "'v \<Rightarrow> 'v \<Rightarrow> bool"
  assumes kept_refl: "kept s s"
    and kept_trans: "kept s t \<Longrightarrow> kept t u \<Longrightarrow> kept s u"
    and push1_law: "ok s \<Longrightarrow> single v \<Longrightarrow> push1 v s = Inr s' \<Longrightarrow>
      ok s' \<and> kept s s' \<and> words s' = words s @ [v]"
    and pop1_law: "ok s \<Longrightarrow> pop1 s = Inr (v, s') \<Longrightarrow>
      ok s' \<and> kept s s' \<and> single v \<and> words s = words s' @ [v]"
    and push2_law: "ok s \<Longrightarrow> group v w \<Longrightarrow> push2 v w s = Inr s' \<Longrightarrow>
      ok s' \<and> kept s s' \<and> words s' = words s @ [v, w]"
    and pop2_law: "ok s \<Longrightarrow> pop2 s = Inr ((v, w), s') \<Longrightarrow>
      ok s' \<and> kept s s' \<and> group v w \<and> words s = words s' @ [v, w]"
begin

text \<open>A point of a run of stack operations that started in \<open>s0\<close>.\<close>

definition reached :: "'s \<Rightarrow> 'v list \<Rightarrow> 's \<Rightarrow> bool" where
  "reached s0 ws s = (ok s \<and> kept s0 s \<and> words s = ws)"

definition moves :: "'s \<Rightarrow> 'v list \<Rightarrow> 'v list \<Rightarrow> 's \<Rightarrow> bool" where
  "moves s old new s' = (\<exists>ws. words s = ws @ old \<and> reached s (ws @ new) s')"

lemma reached_start: "ok s \<Longrightarrow> reached s (words s) s"
  by (simp add: reached_def kept_refl)

lemma pop1_step:
  assumes "jvm_check (pop1 s) k = Inr r" "reached s0 ws s"
  obtains v s1 us where "k (v, s1) = Inr r" "reached s0 us s1" "ws = us @ [v]" "single v"
  using assms pop1_law kept_trans by (fastforce simp: jvm_check_Inr_iff reached_def)

lemma pop2_step:
  assumes "jvm_check (pop2 s) k = Inr r" "reached s0 ws s"
  obtains v w s1 us where "k ((v, w), s1) = Inr r" "reached s0 us s1" "ws = us @ [v, w]" "group v w"
  using assms pop2_law kept_trans by (fastforce simp: jvm_check_Inr_iff reached_def)

lemma push1_last: "push1 v s = Inr s' \<Longrightarrow> reached s0 ws s \<Longrightarrow> single v \<Longrightarrow> reached s0 (ws @ [v]) s'"
  using push1_law kept_trans by (fastforce simp: reached_def)

lemma push2_last: "push2 v w s = Inr s' \<Longrightarrow> reached s0 ws s \<Longrightarrow> group v w \<Longrightarrow> reached s0 (ws @ [v, w]) s'"
  using push2_law kept_trans by (fastforce simp: reached_def)

lemma push1_step:
  assumes "jvm_check (push1 v s) k = Inr r" "reached s0 ws s" "single v"
  obtains s1 where "k s1 = Inr r" "reached s0 (ws @ [v]) s1"
  using assms push1_last by (fastforce simp: jvm_check_Inr_iff)

lemma push2_step:
  assumes "jvm_check (push2 v w s) k = Inr r" "reached s0 ws s" "group v w"
  obtains s1 where "k s1 = Inr r" "reached s0 (ws @ [v, w]) s1"
  using assms push2_last by (fastforce simp: jvm_check_Inr_iff)

lemmas stack_steps = pop1_step pop2_step push1_step push2_step

lemma drop_moves:
  "ok s \<Longrightarrow> jvm_check (pop1 s) (\<lambda>(v, s). Inr s) = Inr s' \<Longrightarrow>
     \<exists>v. moves s [v] [] s'"
  by (auto simp: moves_def split_beta dest!: reached_start
      elim!: stack_steps dest: push1_last push2_last)

lemma drop2_moves:
  "ok s \<Longrightarrow> jvm_check (pop2 s) (\<lambda>((v, w), s). Inr s) = Inr s' \<Longrightarrow>
     \<exists>v w. moves s [v, w] [] s'"
  by (auto simp: moves_def split_beta dest!: reached_start
      elim!: stack_steps dest: push1_last push2_last)

lemma dup_moves:
  "ok s \<Longrightarrow> jvm_check (pop1 s) (\<lambda>(v, s). jvm_check (push1 v s) (push1 v)) = Inr s' \<Longrightarrow>
     \<exists>v. moves s [v] [v, v] s'"
  by (auto simp: moves_def split_beta dest!: reached_start
      elim!: stack_steps dest: push1_last push2_last)

lemma swap_moves:
  "ok s \<Longrightarrow> jvm_check (pop1 s) (\<lambda>(v, s). jvm_check (pop1 s) (\<lambda>(w, s).
     jvm_check (push1 v s) (push1 w))) = Inr s' \<Longrightarrow>
     \<exists>v w. moves s [w, v] [v, w] s'"
  by (auto simp: moves_def split_beta dest!: reached_start
      elim!: stack_steps dest: push1_last push2_last)

lemma dup_x1_moves:
  "ok s \<Longrightarrow> jvm_check (pop1 s) (\<lambda>(v, s). jvm_check (pop1 s) (\<lambda>(w, s).
     jvm_check (push1 v s) (\<lambda>s. jvm_check (push1 w s) (push1 v)))) = Inr s' \<Longrightarrow>
     \<exists>v w. moves s [w, v] [v, w, v] s'"
  by (auto simp: moves_def split_beta dest!: reached_start
      elim!: stack_steps dest: push1_last push2_last)

lemma dup2_moves:
  "ok s \<Longrightarrow> jvm_check (pop2 s) (\<lambda>((v, w), s). jvm_check (push2 v w s) (push2 v w)) = Inr s' \<Longrightarrow>
     \<exists>v w. moves s [v, w] [v, w, v, w] s'"
  by (auto simp: moves_def split_beta dest!: reached_start
      elim!: stack_steps dest: push1_last push2_last)

lemma dup2_x1_moves:
  "ok s \<Longrightarrow> jvm_check (pop2 s) (\<lambda>((v, w), s). jvm_check (pop1 s) (\<lambda>(x, s).
     jvm_check (push2 v w s) (\<lambda>s. jvm_check (push1 x s) (push2 v w)))) = Inr s' \<Longrightarrow>
     \<exists>v w x. moves s [x, v, w] [v, w, x, v, w] s'"
  by (auto simp: moves_def split_beta dest!: reached_start
      elim!: stack_steps dest: push1_last push2_last)

lemma dup_x2_moves:
  "ok s \<Longrightarrow> jvm_check (pop1 s) (\<lambda>(v, s). jvm_check (pop2 s) (\<lambda>((x, y), s).
     jvm_check (push1 v s) (\<lambda>s. jvm_check (push2 x y s) (push1 v)))) = Inr s' \<Longrightarrow>
     \<exists>v x y. moves s [x, y, v] [v, x, y, v] s'"
  by (auto simp: moves_def split_beta dest!: reached_start
      elim!: stack_steps dest: push1_last push2_last)

lemma dup2_x2_moves:
  "ok s \<Longrightarrow> jvm_check (pop2 s) (\<lambda>((v, w), s). jvm_check (pop2 s) (\<lambda>((x, y), s).
     jvm_check (push2 v w s) (\<lambda>s. jvm_check (push2 x y s) (push2 v w)))) = Inr s' \<Longrightarrow>
     \<exists>v w x y. moves s [x, y, v, w] [v, w, x, y, v, w] s'"
  by (auto simp: moves_def split_beta dest!: reached_start
      elim!: stack_steps dest: push1_last push2_last)

end

interpretation vs: operand_stack frame_ok stack_words same_rest
    "\<lambda>(t, c). push_category1 t c"
    "\<lambda>f. jvm_check (pop_category1 f) (\<lambda>(t, c, f). Inr ((t, c), f))"
    "\<lambda>(t1, c1) (t2, c2). push_category2 t1 t2 c1 c2"
    "\<lambda>f. jvm_check (pop_category2 f) (\<lambda>((t1, t2, c1, c2), f). Inr (((t1, c1), (t2, c2)), f))"
    "\<lambda>v. paired [v]" "\<lambda>v w. paired [v, w]"
proof (unfold_locales, goal_cases)
  case (2 s t u) then show ?case by (rule same_rest_trans)
next
  case (3 s v s')
  obtain t c where v: "v = (t, c)" by (cases v)
  from 3 have e: "stack_effect s (stack_words s @ [v]) s'"
    using push_category1_effect [of t c s s'] by (simp add: v frame_ok_def)
  have "paired (stack_words s @ [v])" using 3 by (auto intro: paired_append simp: frame_ok_def)
  then show ?case using stack_effect_ok [OF e] 3 e by (simp add: stack_effect_def)
next
  case (4 s v s')
  obtain t c where v: "v = (t, c)" by (cases v)
  from 4 have p: "pop_category1 s = Inr (t, c, s')" by (auto simp: jvm_check_Inr_iff v)
  from 4 have s: "frame_sizes s" "paired (stack_words s)" by (simp_all add: frame_ok_def)
  note e = pop_category1_effect [OF p s(1)]
  have p: "paired (stack_words s') \<and> paired [(t, c)]"
    using paired_split [of "stack_words s'" t c "[]"] s e by (simp del: paired.simps paired_single)
  then have "frame_ok s'" using stack_effect_ok [OF e(1)] 4 by blast
  with p e show ?case by (simp del: paired.simps paired_single add: stack_effect_def v)
next
  case (5 s v w s')
  obtain t1 c1 t2 c2 where v: "v = (t1, c1)" "w = (t2, c2)" by (cases v, cases w)
  from 5 have e: "stack_effect s (stack_words s @ [v, w]) s'"
    using push_category2_effect [of t1 t2 c1 c2 s s'] by (simp add: v frame_ok_def)
  have "paired (stack_words s @ [v, w])" using 5 by (auto intro: paired_append simp: frame_ok_def)
  then show ?case using stack_effect_ok [OF e] 5 e by (simp add: stack_effect_def)
next
  case (6 s v w s')
  obtain t1 c1 t2 c2 where v: "v = (t1, c1)" "w = (t2, c2)" by (cases v, cases w)
  from 6 have p: "pop_category2 s = Inr ((t1, t2, c1, c2), s')" by (auto simp: jvm_check_Inr_iff v)
  from 6 have s: "frame_sizes s" "paired (stack_words s)" by (simp_all add: frame_ok_def)
  note e = pop_category2_effect [OF p s(1)]
  have p: "paired (stack_words s') \<and> paired [(t1, c1), (t2, c2)]"
    using paired_split [of "stack_words s'" t1 c1 "[(t2, c2)]"] s e by (simp del: paired.simps)
  then have "frame_ok s'" using stack_effect_ok [OF e(1)] 6 by blast
  with p e show ?case by (simp del: paired.simps add: stack_effect_def v)
qed simp

end
