(* ===== verification/Bytecode_Visitor.thy ===== *)
theory Bytecode_Visitor
  imports Bytecodes Constant_Pool
begin

text \<open>
  The bytecode visitor: \<open>Method::iterate_bytecode\<close> decodes one bytecode and calls a
  virtual function of a \<open>BytecodeClosure\<close> (\<open>Method.cpp\<close>, \<open>BytecodeClosure.hpp\<close>,
  \<open>BytecodeClosure.cpp\<close>).  The virtual functions are the constructors of
  \<open>closure_call\<close>; the decoder returns the calls it makes, in order.  The big switch is
  split at its own groups, which are tried in the order of the source.
\<close>

datatype binary_op =
    bin_add | bin_sub | bin_mul | bin_div | bin_rem | bin_shl | bin_shr | bin_ushr
  | bin_and | bin_or | bin_xor | bin_min | bin_max | bin_rsb

datatype cond_op =
    cond_null | cond_nonnull | cond_eq | cond_ne | cond_lt | cond_ge | cond_gt | cond_le

fun reverse_condition :: "cond_op \<Rightarrow> cond_op" where
  "reverse_condition cond_null = cond_null"
| "reverse_condition cond_nonnull = cond_nonnull"
| "reverse_condition cond_eq = cond_eq"
| "reverse_condition cond_ne = cond_ne"
| "reverse_condition cond_lt = cond_gt"
| "reverse_condition cond_ge = cond_le"
| "reverse_condition cond_gt = cond_lt"
| "reverse_condition cond_le = cond_ge"

fun negate_condition :: "cond_op \<Rightarrow> cond_op" where
  "negate_condition cond_null = cond_nonnull"
| "negate_condition cond_nonnull = cond_null"
| "negate_condition cond_eq = cond_ne"
| "negate_condition cond_ne = cond_eq"
| "negate_condition cond_lt = cond_ge"
| "negate_condition cond_ge = cond_lt"
| "negate_condition cond_gt = cond_le"
| "negate_condition cond_le = cond_gt"

text \<open>The virtual functions.  \<open>Push_obj\<close> tells whether the object is null; \<open>Push_float\<close>
  and \<open>Push_double\<close> carry the bits of the number.\<close>

datatype closure_call =
    Push_int int | Push_long int | Push_float "32 word" | Push_double "64 word"
  | Push_obj bool
  | Load_local basic_type int | Store_local basic_type int
  | Increment_local_int int int
  | New_basic_array int | New_object_array int | New_multi_array int int
  | Array_length | Load_array basic_type | Store_array basic_type
  | Nop | Pop | Pop_and_npe_if_null | Init_static_array | Pop2
  | Dup | Dup2 | Dup_x1 | Dup2_x1 | Dup_x2 | Dup2_x2 | Swap
  | Neg basic_type | Binary basic_type binary_op | Convert basic_type basic_type
  | Branch_if cond_op int | Branch_if_icmp cond_op int | Branch_if_acmp cond_op int
  | Compare basic_type cond_op | Branch int | Return_op basic_type
  | Table_switch int int int int | Lookup_switch int int int
  | Get_field int | Put_field int | Get_static int | Put_static int
  | Invoke_interface int int | Invoke_special int | Invoke_static int | Invoke_virtual int
  | Invoke_native int
  | Throw_exception | New_object int | Check_cast int | Instance_of int
  | Monitor_enter | Monitor_exit
  | Fast_invoke_virtual int | Fast_invoke_virtual_final int | Fast_invoke_special int
  | Fast_get_field basic_type int | Fast_put_field basic_type int
  | Aload_0_fast_get_field_1 basic_type | Aload_0_fast_get_field_n nat
  | Return_native int
  | Illegal_code


section \<open>Constants\<close>

definition iterate_push_constant_1 :: "constant_pool \<Rightarrow> int \<Rightarrow> closure_call" where
  "iterate_push_constant_1 c i =
    (if int (length c) \<le> i then Illegal_code
     else case entry_at c i of
         CP_Integer v \<Rightarrow> Push_int (sint v)
       | CP_Float v \<Rightarrow> Push_float v
       | CP_String \<Rightarrow> Push_obj False
       | CP_UnresolvedString _ \<Rightarrow> Push_obj False
       | _ \<Rightarrow> Illegal_code)"

definition iterate_push_constant_2 :: "constant_pool \<Rightarrow> int \<Rightarrow> closure_call" where
  "iterate_push_constant_2 c i =
    (if int (length c) \<le> i + 1 then Illegal_code
     else case entry_at c i of
         CP_Long v \<Rightarrow> Push_long (sint v)
       | CP_Double v \<Rightarrow> Push_double v
       | _ \<Rightarrow> Illegal_code)"


section \<open>The tables of the switch\<close>

definition array_op_types :: "basic_type list" where
  "array_op_types = [T_INT, T_LONG, T_FLOAT, T_DOUBLE, T_OBJECT, T_BYTE, T_CHAR, T_SHORT]"

definition field_op_types :: "basic_type list" where
  "field_op_types = [T_BYTE, T_SHORT, T_INT, T_LONG, T_FLOAT, T_DOUBLE, T_OBJECT, T_CHAR]"

definition local_op_types :: "basic_type list" where
  "local_op_types = [T_INT, T_LONG, T_FLOAT, T_DOUBLE, T_OBJECT]"

definition binary_op_types :: "(basic_type \<times> binary_op) list" where
  "binary_op_types =
     [(T_INT, bin_add), (T_LONG, bin_add), (T_FLOAT, bin_add), (T_DOUBLE, bin_add),
      (T_INT, bin_sub), (T_LONG, bin_sub), (T_FLOAT, bin_sub), (T_DOUBLE, bin_sub),
      (T_INT, bin_mul), (T_LONG, bin_mul), (T_FLOAT, bin_mul), (T_DOUBLE, bin_mul),
      (T_INT, bin_div), (T_LONG, bin_div), (T_FLOAT, bin_div), (T_DOUBLE, bin_div),
      (T_INT, bin_rem), (T_LONG, bin_rem), (T_FLOAT, bin_rem), (T_DOUBLE, bin_rem),
      (T_ILLEGAL, bin_add), (T_ILLEGAL, bin_add), (T_ILLEGAL, bin_add), (T_ILLEGAL, bin_add),
      (T_INT, bin_shl), (T_LONG, bin_shl), (T_INT, bin_shr), (T_LONG, bin_shr),
      (T_INT, bin_ushr), (T_LONG, bin_ushr), (T_INT, bin_and), (T_LONG, bin_and),
      (T_INT, bin_or), (T_LONG, bin_or), (T_INT, bin_xor), (T_LONG, bin_xor)]"

definition neg_types :: "basic_type list" where
  "neg_types = [T_INT, T_LONG, T_FLOAT, T_DOUBLE]"

definition convert_op_types :: "(basic_type \<times> basic_type) list" where
  "convert_op_types =
     [(T_INT, T_LONG), (T_INT, T_FLOAT), (T_INT, T_DOUBLE),
      (T_LONG, T_INT), (T_LONG, T_FLOAT), (T_LONG, T_DOUBLE),
      (T_FLOAT, T_INT), (T_FLOAT, T_LONG), (T_FLOAT, T_DOUBLE),
      (T_DOUBLE, T_INT), (T_DOUBLE, T_LONG), (T_DOUBLE, T_FLOAT),
      (T_INT, T_BYTE), (T_INT, T_CHAR), (T_INT, T_SHORT)]"

definition compare_op_types :: "(basic_type \<times> cond_op) list" where
  "compare_op_types =
     [(T_LONG, cond_eq), (T_FLOAT, cond_lt), (T_FLOAT, cond_gt), (T_DOUBLE, cond_lt),
      (T_DOUBLE, cond_gt)]"

definition return_types :: "basic_type list" where
  "return_types = [T_INT, T_LONG, T_FLOAT, T_DOUBLE, T_OBJECT, T_VOID]"

text \<open>\<open>cond_op(code - first + BytecodeClosure::eq)\<close>.\<close>

definition cond_ops :: "cond_op list" where
  "cond_ops = [cond_null, cond_nonnull, cond_eq, cond_ne, cond_lt, cond_ge, cond_gt, cond_le]"

text \<open>A code in the range of a group of cases.\<close>

abbreviation (input) code_in :: "nat \<Rightarrow> nat \<Rightarrow> nat \<Rightarrow> bool" where
  "code_in code lo hi \<equiv> lo \<le> code \<and> code \<le> hi"


section \<open>The decoder\<close>

definition decode_loads_stores :: "code_mem \<Rightarrow> constant_pool \<Rightarrow> int \<Rightarrow> nat \<Rightarrow> closure_call option" where
  "decode_loads_stores m cp bci code =
    (if code = op_ldc_w then Some (iterate_push_constant_1 cp (get_java_ushort m (bci + 1)))
     else if code = op_ldc2_w then Some (iterate_push_constant_2 cp (get_java_ushort m (bci + 1)))
     else if code = op_aconst_null then Some (Push_obj True)
     else if code = op_iconst_m1 \<or> code_in code op_iconst_2 op_iconst_5 then
       Some (Push_int (int code - int op_iconst_0))
     else if code = op_lconst_0 then Some (Push_long 0)
     else if code = op_lconst_1 then Some (Push_long 1)
     else if code = op_fconst_0 then Some (Push_float 0)
     else if code = op_fconst_1 then Some (Push_float 0x3F800000)
     else if code = op_fconst_2 then Some (Push_float 0x40000000)
     else if code = op_dconst_0 then Some (Push_double 0)
     else if code = op_dconst_1 then Some (Push_double 0x3FF0000000000000)
     else if code_in code op_iload_0 op_iload_3 then
       Some (Load_local T_INT (int code - int op_iload_0))
     else if code = op_lload then Some (Load_local T_LONG (get_ubyte m (bci + 1)))
     else if code_in code op_lload_0 op_lload_3 then
       Some (Load_local T_LONG (int code - int op_lload_0))
     else if code = op_fload then Some (Load_local T_FLOAT (get_ubyte m (bci + 1)))
     else if code_in code op_fload_0 op_fload_3 then
       Some (Load_local T_FLOAT (int code - int op_fload_0))
     else if code = op_dload then Some (Load_local T_DOUBLE (get_ubyte m (bci + 1)))
     else if code_in code op_dload_0 op_dload_3 then
       Some (Load_local T_DOUBLE (int code - int op_dload_0))
     else if code_in code op_aload_2 op_aload_3 then
       Some (Load_local T_OBJECT (int code - int op_aload_0))
     else if code_in code op_istore_0 op_istore_3 then
       Some (Store_local T_INT (int code - int op_istore_0))
     else if code = op_lstore then Some (Store_local T_LONG (get_ubyte m (bci + 1)))
     else if code_in code op_lstore_0 op_lstore_3 then
       Some (Store_local T_LONG (int code - int op_lstore_0))
     else if code = op_fstore then Some (Store_local T_FLOAT (get_ubyte m (bci + 1)))
     else if code_in code op_fstore_0 op_fstore_3 then
       Some (Store_local T_FLOAT (int code - int op_fstore_0))
     else if code = op_dstore then Some (Store_local T_DOUBLE (get_ubyte m (bci + 1)))
     else if code_in code op_dstore_0 op_dstore_3 then
       Some (Store_local T_DOUBLE (int code - int op_dstore_0))
     else if code = op_astore then Some (Store_local T_OBJECT (get_ubyte m (bci + 1)))
     else if code_in code op_astore_0 op_astore_3 then
       Some (Store_local T_OBJECT (int code - int op_astore_0))
     else None)"

definition decode_arrays_stack :: "code_mem \<Rightarrow> int \<Rightarrow> nat \<Rightarrow> closure_call option" where
  "decode_arrays_stack m bci code =
    (if code = op_iinc then
       Some (Increment_local_int (get_ubyte m (bci + 1)) (get_byte m (bci + 2)))
     else if code = op_newarray then Some (New_basic_array (get_ubyte m (bci + 1)))
     else if code = op_anewarray then Some (New_object_array (get_java_ushort m (bci + 1)))
     else if code = op_multianewarray then
       Some (New_multi_array (get_java_ushort m (bci + 1)) (get_ubyte m (bci + 3)))
     else if code = op_arraylength then Some Array_length
     else if code_in code op_iaload op_saload then
       Some (Load_array (array_op_types ! (code - op_iaload)))
     else if code_in code op_lastore op_sastore then
       Some (Store_array (array_op_types ! (code - op_iastore)))
     else if code = op_nop then Some Nop
     else if code = op_pop then Some Pop
     else if code = op_pop_and_npe_if_null then Some Pop_and_npe_if_null
     else if code = op_init_static_array then Some Init_static_array
     else if code = op_pop2 then Some Pop2
     else if code = op_dup2 then Some Dup2
     else if code = op_dup_x1 then Some Dup_x1
     else if code = op_dup2_x1 then Some Dup2_x1
     else if code = op_dup_x2 then Some Dup_x2
     else if code = op_dup2_x2 then Some Dup2_x2
     else if code = op_swap then Some Swap
     else None)"

definition decode_arithmetic :: "nat \<Rightarrow> closure_call option" where
  "decode_arithmetic code =
    (if code_in code op_ladd op_drem \<or> code_in code op_ishl op_lxor then
       (case binary_op_types ! (code - op_iadd) of (type, op) \<Rightarrow> Some (Binary type op))
     else if code_in code op_ineg op_dneg then Some (Neg (neg_types ! (code - op_ineg)))
     else if code_in code op_i2l op_i2s then
       (case convert_op_types ! (code - op_i2l) of (from, to) \<Rightarrow> Some (Convert from to))
     else None)"

definition decode_control :: "code_mem \<Rightarrow> int \<Rightarrow> nat \<Rightarrow> closure_call option" where
  "decode_control m bci code =
    (if code_in code op_ifeq op_ifle then
       Some (Branch_if (cond_ops ! (code - op_ifeq + 2)) (branch_destination m bci))
     else if code_in code op_ifnull op_ifnonnull then
       Some (Branch_if (cond_ops ! (code - op_ifnull)) (bci + get_java_short m (bci + 1)))
     else if code_in code op_if_icmpeq op_if_icmple then
       Some (Branch_if_icmp (cond_ops ! (code - op_if_icmpeq + 2)) (branch_destination m bci))
     else if code_in code op_lcmp op_dcmpg then
       (case compare_op_types ! (code - op_lcmp) of (type, op) \<Rightarrow> Some (Compare type op))
     else if code_in code op_if_acmpeq op_if_acmpne then
       Some (Branch_if_acmp (cond_ops ! (code - op_if_acmpeq + 2)) (branch_destination m bci))
     else if code = op_goto_w then Some (Branch (jint (bci + get_java_int m (bci + 1))))
     else if code_in code op_ireturn op_return then
       Some (Return_op (return_types ! (code - op_ireturn)))
     else None)"

definition decode_objects :: "code_mem \<Rightarrow> int \<Rightarrow> nat \<Rightarrow> closure_call option" where
  "decode_objects m bci code =
    (if code = op_putfield then Some (Put_field (get_java_ushort m (bci + 1)))
     else if code = op_putstatic then Some (Put_static (get_java_ushort m (bci + 1)))
     else if code = op_getstatic then Some (Get_static (get_java_ushort m (bci + 1)))
     else if code = op_invokestatic then Some (Invoke_static (get_java_ushort m (bci + 1)))
     else if code = op_fast_invokespecial then
       Some (Fast_invoke_special (get_java_ushort m (bci + 1)))
     else if code = op_invokeinterface then
       Some (Invoke_interface (get_java_ushort m (bci + 1)) (get_ubyte m (bci + 3)))
     else if code = op_athrow then Some Throw_exception
     else if code = op_new then Some (New_object (get_java_ushort m (bci + 1)))
     else if code = op_checkcast then Some (Check_cast (get_java_ushort m (bci + 1)))
     else if code = op_instanceof then Some (Instance_of (get_java_ushort m (bci + 1)))
     else if code = op_monitorenter then Some Monitor_enter
     else if code = op_monitorexit then Some Monitor_exit
     else None)"

definition field_offset :: "code_mem \<Rightarrow> int \<Rightarrow> basic_type \<Rightarrow> int" where
  "field_offset m bci type =
     (let offset = get_native_ushort m (bci + 1)
      in if 4 \<le> byte_size_for type then offset * 4 else offset)"

definition decode_fast_fields :: "code_mem \<Rightarrow> constant_pool \<Rightarrow> int \<Rightarrow> nat \<Rightarrow> closure_call option" where
  "decode_fast_fields m cp bci code =
    (if code = op_fast_1_ldc then Some (iterate_push_constant_1 cp (get_ubyte m (bci + 1)))
     else if code = op_fast_1_ldc_w then
       Some (iterate_push_constant_1 cp (get_java_ushort m (bci + 1)))
     else if code = op_fast_2_ldc_w then
       Some (iterate_push_constant_2 cp (get_java_ushort m (bci + 1)))
     else if code_in code op_fast_1_putstatic op_fast_a_putstatic \<or>
             code_in code op_fast_init_1_putstatic op_fast_init_a_putstatic then
       Some (Put_static (get_java_ushort m (bci + 1)))
     else if code_in code op_fast_1_getstatic op_fast_2_getstatic \<or>
             code_in code op_fast_init_1_getstatic op_fast_init_2_getstatic then
       Some (Get_static (get_java_ushort m (bci + 1)))
     else if code_in code op_fast_bputfield op_fast_aputfield then
       (let type = field_op_types ! (code - op_fast_bputfield)
        in Some (Fast_put_field type (field_offset m bci type)))
     else if code_in code op_fast_bgetfield op_fast_cgetfield then
       (let type = field_op_types ! (code - op_fast_bgetfield)
        in Some (Fast_get_field type (field_offset m bci type)))
     else if code = op_fast_igetfield_1 then
       Some (Fast_get_field T_INT (get_ubyte m (bci + 1) * 4))
     else if code = op_fast_agetfield_1 then
       Some (Fast_get_field T_OBJECT (get_ubyte m (bci + 1) * 4))
     else if code = op_aload_0_fast_igetfield_1 then Some (Aload_0_fast_get_field_1 T_INT)
     else if code = op_aload_0_fast_agetfield_1 then Some (Aload_0_fast_get_field_1 T_OBJECT)
     else if code_in code op_aload_0_fast_agetfield_4 op_aload_0_fast_igetfield_8 then
       Some (Aload_0_fast_get_field_n code)
     else None)"

text \<open>\<open>fast_invokenative\<close> calls \<open>invoke_native\<close> and then \<open>return_op\<close>, with the same
  raw type.\<close>

definition decode_fast_invokes :: "code_mem \<Rightarrow> int \<Rightarrow> nat \<Rightarrow> closure_call list option" where
  "decode_fast_invokes m bci code =
    (if code = op_fast_invokevirtual then
       Some [Fast_invoke_virtual (get_java_ushort m (bci + 1))]
     else if code = op_fast_invokestatic \<or> code = op_fast_init_invokestatic then
       Some [Invoke_static (get_java_ushort m (bci + 1))]
     else if code = op_fast_invokeinterface then
       Some [Invoke_interface (get_java_ushort m (bci + 1)) (get_ubyte m (bci + 3))]
     else if code = op_fast_invokenative then
       Some [Invoke_native (get_ubyte m (bci + 1)), Return_native (get_ubyte m (bci + 1))]
     else if code = op_fast_new \<or> code = op_fast_init_new then
       Some [New_object (get_java_ushort m (bci + 1))]
     else if code = op_fast_anewarray then
       Some [New_object_array (get_java_ushort m (bci + 1))]
     else if code = op_fast_checkcast then Some [Check_cast (get_java_ushort m (bci + 1))]
     else if code = op_fast_instanceof then Some [Instance_of (get_java_ushort m (bci + 1))]
     else None)"

definition decode_common :: "code_mem \<Rightarrow> constant_pool \<Rightarrow> int \<Rightarrow> nat \<Rightarrow> closure_call option" where
  "decode_common m cp bci code =
    (if code = op_ldc then Some (iterate_push_constant_1 cp (get_ubyte m (bci + 1)))
     else if code = op_iadd then Some (Binary T_INT bin_add)
     else if code = op_invokespecial then Some (Invoke_special (get_java_ushort m (bci + 1)))
     else if code = op_goto then Some (Branch (branch_destination m bci))
     else if code = op_sipush then Some (Push_int (get_java_short m (bci + 1)))
     else if code = op_istore then Some (Store_local T_INT (get_ubyte m (bci + 1)))
     else if code = op_fast_invokevirtual_final then
       Some (Fast_invoke_virtual_final (get_java_ushort m (bci + 1)))
     else if code = op_iconst_0 then Some (Push_int 0)
     else if code = op_iconst_1 then Some (Push_int 1)
     else if code = op_aload_1 then Some (Load_local T_OBJECT 1)
     else if code = op_aload then Some (Load_local T_OBJECT (get_ubyte m (bci + 1)))
     else if code = op_invokevirtual then Some (Invoke_virtual (get_java_ushort m (bci + 1)))
     else if code = op_getfield then Some (Get_field (get_java_ushort m (bci + 1)))
     else if code = op_iload then Some (Load_local T_INT (get_ubyte m (bci + 1)))
     else if code = op_aload_0 then Some (Load_local T_OBJECT 0)
     else if code = op_iastore then Some (Store_array T_INT)
     else if code = op_dup then Some Dup
     else if code = op_bipush then Some (Push_int (get_byte m (bci + 1)))
     else None)"

definition decode_switches :: "code_mem \<Rightarrow> int \<Rightarrow> nat \<Rightarrow> closure_call option" where
  "decode_switches m bci code =
    (if code = op_tableswitch then
       let aligned_index = align_size_up (bci + 1) 4;
           default_dest = jint (bci + get_java_switch_int m aligned_index);
           low = get_java_switch_int m (aligned_index + 4);
           high = get_java_switch_int m (aligned_index + 8)
       in Some (Table_switch aligned_index default_dest low high)
     else if code = op_lookupswitch then
       let aligned_index = align_size_up (bci + 1) 4;
           default_dest = jint (bci + get_java_switch_int m aligned_index);
           num_of_pairs = get_java_switch_int m (aligned_index + 4)
       in Some (Lookup_switch aligned_index default_dest num_of_pairs)
     else None)"

definition decode_wide :: "code_mem \<Rightarrow> int \<Rightarrow> closure_call" where
  "decode_wide m bci =
    (let code = bytecode_at m (bci + 1) in
     if code = op_iinc then
       Increment_local_int (get_java_ushort m (bci + 2)) (get_java_short m (bci + 4))
     else if code_in code op_iload op_aload then
       Load_local (local_op_types ! (code - op_iload)) (get_java_ushort m (bci + 2))
     else if code_in code op_istore op_astore then
       Store_local (local_op_types ! (code - op_istore)) (get_java_ushort m (bci + 2))
     else Illegal_code)"

text \<open>The whole switch of \<open>iterate_bytecode\<close>.\<close>

definition decode_bytecode :: "code_mem \<Rightarrow> constant_pool \<Rightarrow> int \<Rightarrow> nat \<Rightarrow> closure_call list" where
  "decode_bytecode m cp bci code =
    (case decode_loads_stores m cp bci code of Some c \<Rightarrow> [c] | None \<Rightarrow>
     (case decode_arrays_stack m bci code of Some c \<Rightarrow> [c] | None \<Rightarrow>
     (case decode_arithmetic code of Some c \<Rightarrow> [c] | None \<Rightarrow>
     (case decode_control m bci code of Some c \<Rightarrow> [c] | None \<Rightarrow>
     (case decode_objects m bci code of Some c \<Rightarrow> [c] | None \<Rightarrow>
     (case decode_fast_fields m cp bci code of Some c \<Rightarrow> [c] | None \<Rightarrow>
     (case decode_fast_invokes m bci code of Some cs \<Rightarrow> cs | None \<Rightarrow>
     (case decode_common m cp bci code of Some c \<Rightarrow> [c] | None \<Rightarrow>
     (case decode_switches m bci code of Some c \<Rightarrow> [c] | None \<Rightarrow>
     (if code = op_wide then [decode_wide m bci] else [Illegal_code]))))))))))"

text \<open>\<open>BytecodeClosure\<close>'s own implementations of three of the virtual functions, in
  terms of the others.\<close>

definition aload_0_fast_get_field_1 :: "code_mem \<Rightarrow> int \<Rightarrow> basic_type \<Rightarrow> closure_call list" where
  "aload_0_fast_get_field_1 m bci field_type =
     [Load_local T_OBJECT 0, Fast_get_field field_type (get_ubyte m (bci + 1) * 4)]"

definition aload_0_fast_get_field_n :: "nat \<Rightarrow> closure_call list" where
  "aload_0_fast_get_field_n bytecode =
     (let types = [T_OBJECT, T_INT, T_OBJECT, T_INT]; sizes = [4, 4, 8, 8];
          index = bytecode - op_aload_0_fast_agetfield_4
      in [Load_local T_OBJECT 0, Fast_get_field (types ! index) (sizes ! index)])"

text \<open>The calls a closure sees that overrides none of the three.\<close>

definition expand_call :: "code_mem \<Rightarrow> int \<Rightarrow> closure_call \<Rightarrow> closure_call list" where
  "expand_call m bci c =
    (case c of
       Aload_0_fast_get_field_1 t \<Rightarrow> aload_0_fast_get_field_1 m bci t
     | Aload_0_fast_get_field_n code \<Rightarrow> aload_0_fast_get_field_n code
     | Pop_and_npe_if_null \<Rightarrow> [Pop]
     | _ \<Rightarrow> [c])"

definition iterate_calls :: "code_mem \<Rightarrow> constant_pool \<Rightarrow> int \<Rightarrow> closure_call list" where
  "iterate_calls m cp bci =
     concat (map (expand_call m bci) (decode_bytecode m cp bci (bytecode_at m bci)))"

end
