(* ===== verification/Verify_Handlers.thy ===== *)
theory Verify_Handlers
  imports Verifier_Frame Bytecode_Visitor
begin

text \<open>
  The handlers of the verifier (\<open>VerifyMethodCodes.cpp\<close>): one function for each
  virtual function of the bytecode visitor, each a transformation of the
  verifier's state that may throw.  Most of them only use the frame and are
  functions on frames; \<open>handle_call\<close> dispatches a call of the visitor to them.
\<close>

section \<open>Typed stack and local operations\<close>

definition push_integer :: "verifier_frame \<Rightarrow> error_tag + verifier_frame" where
  "push_integer f = frame_push ITEM_Integer f"

definition v_push_long :: "verifier_frame \<Rightarrow> error_tag + verifier_frame" where
  "v_push_long f = jvm_check (frame_push ITEM_Long f) (frame_push ITEM_Long_2)"

definition v_push_double :: "verifier_frame \<Rightarrow> error_tag + verifier_frame" where
  "v_push_double f = jvm_check (frame_push ITEM_Double f) (frame_push ITEM_Double_2)"

fun v_push :: "basic_type \<Rightarrow> verifier_frame \<Rightarrow> error_tag + verifier_frame" where
  "v_push T_INT f = push_integer f"
| "v_push T_BOOLEAN f = push_integer f"
| "v_push T_BYTE f = push_integer f"
| "v_push T_CHAR f = push_integer f"
| "v_push T_SHORT f = push_integer f"
| "v_push T_LONG f = v_push_long f"
| "v_push T_FLOAT f = frame_push ITEM_Float f"
| "v_push T_DOUBLE f = v_push_double f"
| "v_push T_VOID f = Inr f"
| "v_push _ f = Inl should_not_reach_here"

definition pop_integer :: "verifier_frame \<Rightarrow> error_tag + verifier_frame" where
  "pop_integer f = frame_pop ITEM_Integer f"

fun v_pop :: "basic_type \<Rightarrow> verifier_frame \<Rightarrow> error_tag + verifier_frame" where
  "v_pop T_INT f = pop_integer f"
| "v_pop T_BOOLEAN f = pop_integer f"
| "v_pop T_BYTE f = pop_integer f"
| "v_pop T_CHAR f = pop_integer f"
| "v_pop T_SHORT f = pop_integer f"
| "v_pop T_FLOAT f = frame_pop ITEM_Float f"
| "v_pop T_LONG f = jvm_check (frame_pop ITEM_Long_2 f) (frame_pop ITEM_Long)"
| "v_pop T_DOUBLE f = jvm_check (frame_pop ITEM_Double_2 f) (frame_pop ITEM_Double)"
| "v_pop T_VOID f = Inr f"
| "v_pop _ f = Inl should_not_reach_here"

fun v_check_local :: "int \<Rightarrow> basic_type \<Rightarrow> verifier_frame \<Rightarrow> error_tag + verifier_frame" where
  "v_check_local index T_INT f = frame_check_local index ITEM_Integer f"
| "v_check_local index T_BOOLEAN f = frame_check_local index ITEM_Integer f"
| "v_check_local index T_BYTE f = frame_check_local index ITEM_Integer f"
| "v_check_local index T_CHAR f = frame_check_local index ITEM_Integer f"
| "v_check_local index T_SHORT f = frame_check_local index ITEM_Integer f"
| "v_check_local index T_FLOAT f = frame_check_local index ITEM_Float f"
| "v_check_local index T_LONG f = frame_check_local2 index ITEM_Long f"
| "v_check_local index T_DOUBLE f = frame_check_local2 index ITEM_Double f"
| "v_check_local index _ f = Inl should_not_reach_here"

fun v_set_local :: "int \<Rightarrow> basic_type \<Rightarrow> verifier_frame \<Rightarrow> error_tag + verifier_frame" where
  "v_set_local index T_INT f = frame_set_local index ITEM_Integer f"
| "v_set_local index T_BOOLEAN f = frame_set_local index ITEM_Integer f"
| "v_set_local index T_BYTE f = frame_set_local index ITEM_Integer f"
| "v_set_local index T_CHAR f = frame_set_local index ITEM_Integer f"
| "v_set_local index T_SHORT f = frame_set_local index ITEM_Integer f"
| "v_set_local index T_FLOAT f = frame_set_local index ITEM_Float f"
| "v_set_local index T_LONG f = frame_set_local2 index ITEM_Long f"
| "v_set_local index T_DOUBLE f = frame_set_local2 index ITEM_Double f"
| "v_set_local index _ f = Inl should_not_reach_here"


section \<open>Names of arrays\<close>

definition is_array_name :: "vm \<Rightarrow> symbol option \<Rightarrow> error_tag + bool" where
  "is_array_name vm name =
     (case name of None \<Rightarrow> Inl null_dereference
      | Some s \<Rightarrow> Inr (is_valid_field_type s \<and> field_basic_type vm s = T_ARRAY))"

definition reference_array_element_name :: "vm \<Rightarrow> symbol option \<Rightarrow> error_tag + symbol option" where
  "reference_array_element_name vm array_name =
     jvm_check (is_array_name vm array_name) (\<lambda>is_array.
       Inr (if is_array then
              case object_type vm (the array_name) of
                Obj_Array_Class _ _ _ element \<Rightarrow> Some (class_name element)
              | _ \<Rightarrow> None
            else None))"

definition pop_array_of :: "vm \<Rightarrow> basic_type \<Rightarrow> verifier_frame \<Rightarrow> error_tag + verifier_frame" where
  "pop_array_of vm type f =
     jvm_check (pop_ref f) (\<lambda>(kind, name, f).
       if kind = ITEM_Null then Inr f
       else if kind = ITEM_Object then
         jvm_check (is_array_name vm name) (\<lambda>is_array.
           if is_array then
             (case object_type vm (the name) of
                Type_Array_Class _ _ _ element_type \<Rightarrow>
                  if (if type = T_BOOLEAN \<or> type = T_BYTE
                      then element_type = T_BOOLEAN \<or> element_type = T_BYTE
                      else type = element_type)
                  then Inr f else Inl ve_stack_bad_type
              | _ \<Rightarrow> Inl ve_stack_bad_type)
           else Inl ve_stack_bad_type)
       else Inl ve_stack_bad_type)"


section \<open>Loads, stores and arrays\<close>

definition load_local :: "basic_type \<Rightarrow> int \<Rightarrow> verifier_frame \<Rightarrow> error_tag + verifier_frame" where
  "load_local kind index f =
     (if kind = T_OBJECT then
        jvm_check (check_local_ref index f) (\<lambda>(tag, name). push_category1 tag name f)
      else jvm_check (v_check_local index kind f) (v_push kind))"

definition store_local :: "basic_type \<Rightarrow> int \<Rightarrow> verifier_frame \<Rightarrow> error_tag + verifier_frame" where
  "store_local kind index f =
     (if kind = T_OBJECT then
        jvm_check (pop_ref f) (\<lambda>(tag, name, f). set_local_ref index tag name f)
      else jvm_check (v_pop kind f) (v_set_local index kind))"

definition array_length :: "vm \<Rightarrow> verifier_frame \<Rightarrow> error_tag + verifier_frame" where
  "array_length vm f =
     jvm_check (pop_ref f) (\<lambda>(kind, name, f).
       if kind = ITEM_Null then push_integer f
       else if kind = ITEM_Object then
         jvm_check (is_array_name vm name) (\<lambda>is_array.
           if is_array then push_integer f else Inl ve_expect_array)
       else Inl ve_expect_array)"

definition load_array :: "vm \<Rightarrow> basic_type \<Rightarrow> verifier_frame \<Rightarrow> error_tag + verifier_frame" where
  "load_array vm kind f =
     jvm_check (pop_integer f) (\<lambda>f.
       if kind = T_OBJECT then
         jvm_check (pop_ref f) (\<lambda>(tag, array_name, f).
           if tag = ITEM_Null then frame_push ITEM_Null f
           else jvm_check (reference_array_element_name vm array_name) (\<lambda>element_name.
             case element_name of
               Some name \<Rightarrow> push_object name f
             | None \<Rightarrow> Inl ve_stack_bad_type))
       else jvm_check (pop_array_of vm kind f) (v_push kind))"

definition store_array :: "vm \<Rightarrow> basic_type \<Rightarrow> verifier_frame \<Rightarrow> error_tag + verifier_frame" where
  "store_array vm kind f =
     (if kind = T_OBJECT then
        jvm_check (pop_ref f) (\<lambda>(element_kind, element_name, f).
          jvm_check (pop_integer f) (\<lambda>f.
            jvm_check (pop_ref f) (\<lambda>(array_kind, array_name, f).
              if (element_kind \<noteq> ITEM_Null \<and> element_kind \<noteq> ITEM_Object) \<or>
                 (array_kind \<noteq> ITEM_Null \<and> array_kind \<noteq> ITEM_Object)
              then Inl ve_aastore_bad_type
              else if array_kind \<noteq> ITEM_Null then
                jvm_check (reference_array_element_name vm array_name) (\<lambda>array_element_name.
                  if array_element_name = None then Inl ve_aastore_bad_type else Inr f)
              else Inr f)))
      else jvm_check (v_pop kind f) (\<lambda>f. jvm_check (pop_integer f) (pop_array_of vm kind)))"


section \<open>Stack manipulation\<close>

definition vm_pop :: "verifier_frame \<Rightarrow> error_tag + verifier_frame" where
  "vm_pop f = jvm_check (pop_category1 f) (\<lambda>(_, _, f). Inr f)"

definition vm_pop2 :: "verifier_frame \<Rightarrow> error_tag + verifier_frame" where
  "vm_pop2 f = jvm_check (pop_category2 f) (\<lambda>(_, f). Inr f)"

definition vm_dup :: "verifier_frame \<Rightarrow> error_tag + verifier_frame" where
  "vm_dup f =
     jvm_check (pop_category1 f) (\<lambda>(k1, n1, f).
       jvm_check (push_category1 k1 n1 f) (push_category1 k1 n1))"

definition vm_dup2 :: "verifier_frame \<Rightarrow> error_tag + verifier_frame" where
  "vm_dup2 f =
     jvm_check (pop_category2 f) (\<lambda>((k1, k2, n1, n2), f).
       jvm_check (push_category2 k1 k2 n1 n2 f) (push_category2 k1 k2 n1 n2))"

definition vm_dup_x1 :: "verifier_frame \<Rightarrow> error_tag + verifier_frame" where
  "vm_dup_x1 f =
     jvm_check (pop_category1 f) (\<lambda>(k1, n1, f).
       jvm_check (pop_category1 f) (\<lambda>(k2, n2, f).
         jvm_check (push_category1 k1 n1 f) (\<lambda>f.
           jvm_check (push_category1 k2 n2 f) (push_category1 k1 n1))))"

definition vm_dup2_x1 :: "verifier_frame \<Rightarrow> error_tag + verifier_frame" where
  "vm_dup2_x1 f =
     jvm_check (pop_category2 f) (\<lambda>((k1, k2, n1, n2), f).
       jvm_check (pop_category1 f) (\<lambda>(k3, n3, f).
         jvm_check (push_category2 k1 k2 n1 n2 f) (\<lambda>f.
           jvm_check (push_category1 k3 n3 f) (push_category2 k1 k2 n1 n2))))"

definition vm_dup_x2 :: "verifier_frame \<Rightarrow> error_tag + verifier_frame" where
  "vm_dup_x2 f =
     jvm_check (pop_category1 f) (\<lambda>(k1, n1, f).
       jvm_check (pop_category2 f) (\<lambda>((k2, k3, n2, n3), f).
         jvm_check (push_category1 k1 n1 f) (\<lambda>f.
           jvm_check (push_category2 k2 k3 n2 n3 f) (push_category1 k1 n1))))"

definition vm_dup2_x2 :: "verifier_frame \<Rightarrow> error_tag + verifier_frame" where
  "vm_dup2_x2 f =
     jvm_check (pop_category2 f) (\<lambda>((k1, k2, n1, n2), f).
       jvm_check (pop_category2 f) (\<lambda>((k3, k4, n3, n4), f).
         jvm_check (push_category2 k1 k2 n1 n2 f) (\<lambda>f.
           jvm_check (push_category2 k3 k4 n3 n4 f) (push_category2 k1 k2 n1 n2))))"

definition vm_swap :: "verifier_frame \<Rightarrow> error_tag + verifier_frame" where
  "vm_swap f =
     jvm_check (pop_category1 f) (\<lambda>(k1, n1, f).
       jvm_check (pop_category1 f) (\<lambda>(k2, n2, f).
         jvm_check (push_category1 k1 n1 f) (push_category1 k2 n2)))"


section \<open>Arithmetic, branches and switches\<close>

definition vm_neg :: "basic_type \<Rightarrow> verifier_frame \<Rightarrow> error_tag + verifier_frame" where
  "vm_neg kind f = jvm_check (v_pop kind f) (v_push kind)"

definition vm_binary :: "basic_type \<Rightarrow> binary_op \<Rightarrow> verifier_frame \<Rightarrow> error_tag + verifier_frame" where
  "vm_binary kind op f =
     jvm_check (v_pop (if op \<in> {bin_shl, bin_shr, bin_ushr} then T_INT else kind) f) (\<lambda>f.
       jvm_check (v_pop kind f) (v_push kind))"

definition vm_convert :: "basic_type \<Rightarrow> basic_type \<Rightarrow> verifier_frame \<Rightarrow> error_tag + verifier_frame" where
  "vm_convert from to f = jvm_check (v_pop from f) (v_push to)"

definition vm_compare :: "basic_type \<Rightarrow> verifier_frame \<Rightarrow> error_tag + verifier_frame" where
  "vm_compare kind f = jvm_check (v_pop kind f) (\<lambda>f. jvm_check (v_pop kind f) (v_push T_INT))"

definition drop_ref :: "verifier_frame \<Rightarrow> error_tag + verifier_frame" where
  "drop_ref f = jvm_check (pop_ref f) (\<lambda>(_, _, f). Inr f)"

definition branch_if :: "verify_env \<Rightarrow> cond_op \<Rightarrow> int \<Rightarrow> verifier_frame \<Rightarrow> error_tag + verifier_frame" where
  "branch_if env cond dest f =
     jvm_check (if cond = cond_null \<or> cond = cond_nonnull then drop_ref f else pop_integer f)
       (check_branch_target env dest)"

definition branch_if_icmp :: "verify_env \<Rightarrow> int \<Rightarrow> verifier_frame \<Rightarrow> error_tag + verifier_frame" where
  "branch_if_icmp env dest f =
     jvm_check (pop_integer f) (\<lambda>f. jvm_check (pop_integer f) (check_branch_target env dest))"

definition branch_if_acmp :: "verify_env \<Rightarrow> int \<Rightarrow> verifier_frame \<Rightarrow> error_tag + verifier_frame" where
  "branch_if_acmp env dest f =
     jvm_check (drop_ref f) (\<lambda>f. jvm_check (drop_ref f) (check_branch_target env dest))"

definition table_switch ::
  "verify_env \<Rightarrow> int \<Rightarrow> int \<Rightarrow> int \<Rightarrow> int \<Rightarrow> int \<Rightarrow> verifier_frame \<Rightarrow> error_tag + verifier_frame" where
  "table_switch env bci table_index default_dest low high f =
     jvm_check (pop_integer f) (\<lambda>f.
       let range = jint (high - low) in
       jvm_check (check_branch_target env default_dest f) (\<lambda>f.
         jvm_fold (\<lambda>i f.
             let offset = get_java_switch_int (m_code (ve_method env)) (table_index + 12 + 4 * i)
             in check_branch_target env (jint (bci + offset)) f)
           [0..range] f))"

definition lookup_switch_pair ::
  "verify_env \<Rightarrow> int \<Rightarrow> int \<Rightarrow> int \<Rightarrow> int \<times> verifier_frame \<Rightarrow> error_tag + (int \<times> verifier_frame)" where
  "lookup_switch_pair env bci table_index i s =
     (case s of (last_key, f) \<Rightarrow>
       let location = table_index + 8 + 8 * i;
           this_key = get_java_switch_int (m_code (ve_method env)) location;
           offset = get_java_switch_int (m_code (ve_method env)) (location + 4)
       in if i > 0 \<and> this_key \<le> last_key then Inl ve_bad_lookupswitch
          else jvm_check (check_branch_target env (jint (bci + offset)) f) (\<lambda>f. Inr (this_key, f)))"

definition lookup_switch ::
  "verify_env \<Rightarrow> int \<Rightarrow> int \<Rightarrow> int \<Rightarrow> int \<Rightarrow> verifier_frame \<Rightarrow> error_tag + verifier_frame" where
  "lookup_switch env bci table_index default_dest num_of_pairs f =
     jvm_check (pop_integer f) (\<lambda>f.
       jvm_check (check_branch_target env default_dest f) (\<lambda>f.
         jvm_check (jvm_fold (lookup_switch_pair env bci table_index) [0..num_of_pairs - 1] (0, f))
           (\<lambda>(_, f). Inr f)))"

definition method_return_type :: "vm \<Rightarrow> symbol \<Rightarrow> basic_type \<times> symbol option" where
  "method_return_type vm signature =
     (let kind = return_type vm signature False
      in (kind, if kind = T_OBJECT \<or> kind = T_ARRAY
                then Some (return_type_symbol vm signature) else None))"

definition return_op :: "verify_env \<Rightarrow> basic_type \<Rightarrow> verifier_frame \<Rightarrow> error_tag + verifier_frame" where
  "return_op env return_kind f =
     (case method_return_type (ve_vm env) (m_signature (ve_method env)) of (kind, expected_klass) \<Rightarrow>
       let expected_kind =
             (if kind \<in> {T_BYTE, T_BOOLEAN, T_CHAR, T_SHORT} then T_INT
              else if kind = T_ARRAY then T_OBJECT else kind)
       in if need_initialization f then Inl ve_return_uninit_this
          else if expected_kind \<noteq> return_kind then Inl ve_retval_bad_type
          else if return_kind = T_OBJECT then pop_object (ve_vm env) (the expected_klass) f
          else v_pop expected_kind f)"

end
