(* ===== verification/Verify_Objects.thy ===== *)
theory Verify_Objects
  imports Verify_Handlers
begin

text \<open>
  The handlers of the verifier for fields, calls and objects, which read the
  constant pool, and the dispatch of the visitor's calls
  (\<open>VerifyMethodCodes.cpp\<close>).
\<close>

record vstate =
  vs_frame :: verifier_frame
  vs_no_control_flow :: bool
  vs_current_stackmap_index :: int
  vs_cp :: constant_pool
  vs_min_exception_start_bci :: int
  vs_max_exception_end_bci :: int


section \<open>Classes by name\<close>

definition verify_is_subclass_of :: "java_class \<Rightarrow> symbol \<Rightarrow> bool" where
  "verify_is_subclass_of from to_name =
     (sym_equals to_name java_lang_Object \<or>
      list_ex (\<lambda>f. sym_equals to_name (class_name f)) (super_chain from))"

definition is_protected_access ::
  "verify_env \<Rightarrow> constant_pool \<Rightarrow> int \<Rightarrow> bool \<Rightarrow> error_tag + bool" where
  "is_protected_access env cp index for_method =
     (let this_class = m_holder (ve_method env); my_name = class_name this_class in
      jvm_check (resolve_helper (ve_vm env) cp index) (\<lambda>(name, signature, klass_name).
        if \<not> verify_is_subclass_of this_class klass_name then Inr False
        else case sd_find_class_or_null (ve_vm env) klass_name of
            None \<Rightarrow> Inl null_dereference
          | Some klass \<Rightarrow>
              if for_method then
                (case lookup_method klass name signature of
                   Some (m, holder) \<Rightarrow>
                     Inr (jm_protected m \<and> \<not> class_is_same_class_package holder my_name)
                 | None \<Rightarrow> Inr False)
              else
                (case lookup_field (ve_vm env) klass name signature of
                   Some (field, holder) \<Rightarrow>
                     Inr (jf_protected field \<and> \<not> class_is_same_class_package holder my_name)
                 | None \<Rightarrow> Inr False)))"

text \<open>The class entries of the constant pool: the tests before the entry is used.\<close>

definition checked_klass_name :: "verify_env \<Rightarrow> constant_pool \<Rightarrow> int \<Rightarrow> error_tag + symbol" where
  "checked_klass_name env cp index =
     (if \<not> is_within_bounds cp index then Inl ve_cp_index_out_of_bounds
      else if \<not> is_klass (entry_at cp index) then Inl ve_expect_class
      else name_of_klass_at (ve_vm env) cp index)"


section \<open>Fields\<close>

definition declares_field :: "java_class \<Rightarrow> symbol \<Rightarrow> symbol \<Rightarrow> bool" where
  "declares_field c field_name field_type =
     list_ex (\<lambda>fd. sym_equals (jf_name fd) field_name \<and> sym_equals (jf_signature fd) field_type)
       (class_fields c)"

text \<open>The receiver of a \<open>putfield\<close>: an uninitialized \<open>this\<close> is accepted for a field that
  the class itself declares.\<close>

definition pop_put_receiver ::
  "verify_env \<Rightarrow> symbol \<Rightarrow> symbol \<Rightarrow> symbol \<Rightarrow> symbol \<Rightarrow> verifier_frame \<Rightarrow> error_tag + verifier_frame" where
  "pop_put_receiver env field_name field_type field_klass_name target_name f =
     jvm_check (pop_ref f) (\<lambda>(kind, init_object_name, f).
       let v_class = m_holder (ve_method env);
           in_declaring_class =
             (kind = ITEM_InitObject \<and> sym_equals (class_name v_class) field_klass_name \<and>
              declares_field v_class field_name field_type);
           (kind, init_object_name) =
             (if in_declaring_class then (ITEM_Object, Some (class_name v_class))
              else (kind, init_object_name))
       in jvm_check (push_category1 kind init_object_name f) (pop_object (ve_vm env) target_name))"

definition handle_field_reference ::
  "verify_env \<Rightarrow> constant_pool \<Rightarrow> int \<Rightarrow> bool \<Rightarrow> bool \<Rightarrow> verifier_frame \<Rightarrow> error_tag + verifier_frame" where
  "handle_field_reference env cp field_index is_static is_put f =
     (if \<not> is_within_bounds cp field_index then Inl ve_cp_index_out_of_bounds
      else if \<not> is_field (entry_at cp field_index) then Inl ve_expect_fieldref
      else jvm_check (resolve_helper (ve_vm env) cp field_index)
        (\<lambda>(field_name, field_type, field_klass_name).
          let basic = field_basic_type (ve_vm env) field_type;
              field_type_name =
                (if basic = T_OBJECT then object_type_symbol (ve_vm env) field_type else field_type);
              field_kind = (if basic = T_ARRAY then T_OBJECT else basic)
          in jvm_check (is_protected_access env cp field_index False) (\<lambda>is_protected.
            let target_name =
                  (if is_protected then class_name (m_holder (ve_method env)) else field_klass_name)
            in if is_put then
                 jvm_check (if field_kind = T_OBJECT then pop_object (ve_vm env) field_type_name f
                            else v_pop field_kind f) (\<lambda>f.
                   if is_static then Inr f
                   else pop_put_receiver env field_name field_type field_klass_name target_name f)
               else
                 jvm_check (if is_static then Inr f else pop_object (ve_vm env) target_name f) (\<lambda>f.
                   if field_kind = T_OBJECT then push_object field_type_name f
                   else v_push field_kind f))))"


section \<open>Calls\<close>

text \<open>The receiver of a call of \<open>&lt;init&gt;\<close>, and the name it is initialized to.\<close>

definition init_new_object ::
  "verify_env \<Rightarrow> constant_pool \<Rightarrow> tag \<Rightarrow> symbol \<Rightarrow> error_tag + symbol" where
  "init_new_object env cp receiver_kind method_klass_name =
     (let new_bci = decode_newobject receiver_kind; m = ve_method env in
      if new_bci > m_code_size m - 3 \<or> bytecode_at (m_code m) new_bci \<noteq> op_new
      then Inl ve_expect_new
      else jvm_check (checked_klass_name env cp (get_java_ushort (m_code m) (new_bci + 1)))
        (\<lambda>newobject_name.
          if \<not> sym_equals newobject_name method_klass_name then Inl ve_bad_init_call
          else Inr newobject_name))"

definition in_protected_range :: "jvm_method \<Rightarrow> int \<Rightarrow> bool" where
  "in_protected_range m bci =
     list_ex (\<lambda>e. bci \<ge> start_pc e \<and> bci < end_pc e) (m_exceptions m)"

definition init_this ::
  "verify_env \<Rightarrow> int \<Rightarrow> symbol \<Rightarrow> verifier_frame \<Rightarrow> error_tag + (symbol \<times> verifier_frame)" where
  "init_this env bci method_klass_name f =
     (let verifying_class = m_holder (ve_method env);
          newobject_name = class_name verifying_class
      in jvm_check
           (if sym_equals method_klass_name newobject_name then Inr True
            else case super_of verifying_class of
                None \<Rightarrow> Inl null_dereference
              | Some super \<Rightarrow> Inr (sym_equals method_klass_name (class_name super)))
           (\<lambda>is_class_or_super.
             if \<not> is_class_or_super then Inl ve_bad_init_call
             else if \<not> need_initialization f then Inl ve_bad_init_call
             else if in_protected_range (ve_method env) bci then Inl ve_bad_init_call
             else Inr (newobject_name, f\<lparr>need_initialization := False\<rparr>)))"

definition invoke_init ::
  "verify_env \<Rightarrow> constant_pool \<Rightarrow> int \<Rightarrow> symbol \<Rightarrow> verifier_frame \<Rightarrow> error_tag + verifier_frame" where
  "invoke_init env cp bci method_klass_name f =
     jvm_check (pop_category1 f) (\<lambda>(receiver_kind, receiver_klass, f).
       jvm_check
         (if is_newobject receiver_kind then
            jvm_check (init_new_object env cp receiver_kind method_klass_name) (\<lambda>name. Inr (name, f))
          else if receiver_kind = ITEM_InitObject then init_this env bci method_klass_name f
          else Inl ve_expect_uninit)
         (\<lambda>(newobject_name, f).
           Inr (replace_stack_type_with_real_type receiver_kind ITEM_Object (Some newobject_name) f)))"

definition invoke_receiver ::
  "verify_env \<Rightarrow> constant_pool \<Rightarrow> nat \<Rightarrow> int \<Rightarrow> symbol \<Rightarrow> verifier_frame \<Rightarrow> error_tag + verifier_frame" where
  "invoke_receiver env cp opcode method_index method_klass_name f =
     (let verifying_class = m_holder (ve_method env) in
      if opcode = op_invokespecial then
        (if \<not> verify_is_subclass_of verifying_class method_klass_name then Inl ve_invokespecial
         else pop_object (ve_vm env) (class_name verifying_class) f)
      else if opcode = op_invokevirtual then
        jvm_check (is_protected_access env cp method_index True) (\<lambda>protected_method_access.
          pop_object (ve_vm env)
            (if protected_method_access then class_name verifying_class else method_klass_name) f)
      else pop_object (ve_vm env) method_klass_name f)"

definition push_invoke_result :: "vm \<Rightarrow> symbol \<Rightarrow> verifier_frame \<Rightarrow> error_tag + verifier_frame" where
  "push_invoke_result vm method_signature f =
     (case method_return_type vm method_signature of (kind, klass) \<Rightarrow>
        if kind = T_OBJECT \<or> kind = T_ARRAY then push_category1 ITEM_Object klass f
        else v_push kind f)"

definition handle_invoker ::
  "verify_env \<Rightarrow> constant_pool \<Rightarrow> int \<Rightarrow> int \<Rightarrow> nat \<Rightarrow> verifier_frame \<Rightarrow> error_tag + verifier_frame" where
  "handle_invoker env cp bci method_index opcode f =
     (if \<not> is_within_bounds cp method_index then Inl ve_cp_index_out_of_bounds
      else if \<not> is_interface_method (entry_at cp method_index) \<and> \<not> is_method (entry_at cp method_index)
      then Inl ve_expect_methodref
      else jvm_check (resolve_helper (ve_vm env) cp method_index)
        (\<lambda>(method_name, method_signature, method_klass_name).
          jvm_check (pop_invoke_arguments (ve_vm env) method_signature f) (\<lambda>(nwords, f).
            let is_init = sym_equals method_name object_initializer_name in
            if byte_at method_name 0 = 60 \<and> (opcode \<noteq> op_invokespecial \<or> \<not> is_init)
            then Inl ve_expect_invokespecial
            else jvm_check
              (if opcode = op_invokestatic then Inr f
               else if is_init then invoke_init env cp bci method_klass_name f
               else invoke_receiver env cp opcode method_index method_klass_name f) (\<lambda>f.
                 jvm_check (push_invoke_result (ve_vm env) method_signature f) (\<lambda>f.
                   let code = m_code (ve_method env) in
                   if opcode = op_invokeinterface \<and> get_ubyte code (bci + 3) \<noteq> int nwords + 1
                   then Inl ve_nargs_mismatch
                   else if opcode = op_invokeinterface \<and> get_ubyte code (bci + 4) \<noteq> 0
                   then Inl ve_expect_zero
                   else Inr f)))))"


section \<open>Objects and arrays\<close>

definition new_object :: "verify_env \<Rightarrow> constant_pool \<Rightarrow> int \<Rightarrow> int \<Rightarrow> verifier_frame \<Rightarrow> error_tag + verifier_frame" where
  "new_object env cp bci index f =
     jvm_check (checked_klass_name env cp index) (\<lambda>new_name.
       jvm_check (is_array_name (ve_vm env) (Some new_name)) (\<lambda>is_array.
         if is_array then Inl ve_expect_class
         else frame_push (encode_newobject bci) f))"

definition new_basic_array :: "vm \<Rightarrow> int \<Rightarrow> verifier_frame \<Rightarrow> error_tag + verifier_frame" where
  "new_basic_array vm type f =
     jvm_check (pop_integer f) (\<lambda>f.
       if int (basic_type_value T_BOOLEAN) \<le> type \<and> type \<le> int (basic_type_value T_LONG) then
         push_object (class_name (primitive_array_class vm (nat type - basic_type_value T_BOOLEAN))) f
       else Inl ve_bad_instr)"

definition new_object_array :: "verify_env \<Rightarrow> constant_pool \<Rightarrow> int \<Rightarrow> verifier_frame \<Rightarrow> error_tag + verifier_frame" where
  "new_object_array env cp index f =
     jvm_check (checked_klass_name env cp index) (\<lambda>name.
       jvm_check (obj_array_class_name (ve_vm env) name) (\<lambda>array_name.
         jvm_check (pop_integer f) (push_object array_name)))"

text \<open>The loop of \<open>multianewarray\<close>: the dimensions left over and the frame.\<close>

fun pop_dimensions :: "nat \<Rightarrow> java_class \<Rightarrow> verifier_frame \<Rightarrow> error_tag + (nat \<times> verifier_frame)" where
  "pop_dimensions 0 klass f = Inr (0, f)"
| "pop_dimensions (Suc dim) klass f =
     jvm_check (pop_integer f) (\<lambda>f.
       case klass of
         Obj_Array_Class _ _ _ element \<Rightarrow>
           if is_array_class element then pop_dimensions dim element f else Inr (dim, f)
       | _ \<Rightarrow> Inr (dim, f))"

definition new_multi_array :: "verify_env \<Rightarrow> constant_pool \<Rightarrow> int \<Rightarrow> int \<Rightarrow> verifier_frame \<Rightarrow> error_tag + verifier_frame" where
  "new_multi_array env cp index dim f =
     jvm_check (checked_klass_name env cp index) (\<lambda>name.
       if dim > 0 \<and> is_valid_field_type name \<and> field_basic_type (ve_vm env) name = T_ARRAY then
         jvm_check (pop_dimensions (nat dim) (object_type (ve_vm env) name) f) (\<lambda>(dim, f).
           if dim = 0 then push_object name f else Inl ve_multianewarray)
       else Inl ve_multianewarray)"

definition check_cast :: "verify_env \<Rightarrow> constant_pool \<Rightarrow> int \<Rightarrow> verifier_frame \<Rightarrow> error_tag + verifier_frame" where
  "check_cast env cp index f =
     jvm_check (checked_klass_name env cp index) (\<lambda>name.
       jvm_check (pop_object (ve_vm env) java_lang_Object f) (push_object name))"

definition instance_of :: "verify_env \<Rightarrow> constant_pool \<Rightarrow> int \<Rightarrow> verifier_frame \<Rightarrow> error_tag + verifier_frame" where
  "instance_of env cp index f =
     jvm_check (checked_klass_name env cp index) (\<lambda>_.
       jvm_check (pop_object (ve_vm env) java_lang_Object f) push_integer)"


section \<open>Dispatch\<close>

text \<open>The calls that only change the frame, and those that leave no way to the next
  bytecode.\<close>

definition frame_call ::
  "verify_env \<Rightarrow> constant_pool \<Rightarrow> int \<Rightarrow> closure_call \<Rightarrow> verifier_frame \<Rightarrow> error_tag + verifier_frame" where
  "frame_call env cp bci c f =
     (case c of
        Push_int _ \<Rightarrow> push_integer f
      | Push_long _ \<Rightarrow> v_push_long f
      | Push_float _ \<Rightarrow> frame_push ITEM_Float f
      | Push_double _ \<Rightarrow> v_push_double f
      | Push_obj is_null \<Rightarrow> if is_null then frame_push ITEM_Null f else push_object java_lang_String f
      | Load_local kind index \<Rightarrow> load_local kind index f
      | Store_local kind index \<Rightarrow> store_local kind index f
      | Increment_local_int index _ \<Rightarrow> v_check_local index T_INT f
      | New_basic_array type \<Rightarrow> new_basic_array (ve_vm env) type f
      | New_object_array index \<Rightarrow> new_object_array env cp index f
      | New_multi_array index dim \<Rightarrow> new_multi_array env cp index dim f
      | Array_length \<Rightarrow> array_length (ve_vm env) f
      | Load_array kind \<Rightarrow> load_array (ve_vm env) kind f
      | Store_array kind \<Rightarrow> store_array (ve_vm env) kind f
      | Nop \<Rightarrow> Inr f
      | Pop \<Rightarrow> vm_pop f
      | Pop_and_npe_if_null \<Rightarrow> vm_pop f
      | Init_static_array \<Rightarrow> Inr f
      | Pop2 \<Rightarrow> vm_pop2 f
      | Dup \<Rightarrow> vm_dup f
      | Dup2 \<Rightarrow> vm_dup2 f
      | Dup_x1 \<Rightarrow> vm_dup_x1 f
      | Dup2_x1 \<Rightarrow> vm_dup2_x1 f
      | Dup_x2 \<Rightarrow> vm_dup_x2 f
      | Dup2_x2 \<Rightarrow> vm_dup2_x2 f
      | Swap \<Rightarrow> vm_swap f
      | Neg kind \<Rightarrow> vm_neg kind f
      | Binary kind op \<Rightarrow> vm_binary kind op f
      | Convert from to \<Rightarrow> vm_convert from to f
      | Branch_if cond dest \<Rightarrow> branch_if env cond dest f
      | Branch_if_icmp _ dest \<Rightarrow> branch_if_icmp env dest f
      | Branch_if_acmp _ dest \<Rightarrow> branch_if_acmp env dest f
      | Compare kind _ \<Rightarrow> vm_compare kind f
      | Branch dest \<Rightarrow> check_branch_target env dest f
      | Return_op kind \<Rightarrow> return_op env kind f
      | Table_switch table_index default_dest low high \<Rightarrow>
          table_switch env bci table_index default_dest low high f
      | Lookup_switch table_index default_dest num_of_pairs \<Rightarrow>
          lookup_switch env bci table_index default_dest num_of_pairs f
      | Get_field index \<Rightarrow> handle_field_reference env cp index False False f
      | Put_field index \<Rightarrow> handle_field_reference env cp index False True f
      | Get_static index \<Rightarrow> handle_field_reference env cp index True False f
      | Put_static index \<Rightarrow> handle_field_reference env cp index True True f
      | Invoke_interface index _ \<Rightarrow> handle_invoker env cp bci index op_invokeinterface f
      | Invoke_special index \<Rightarrow> handle_invoker env cp bci index op_invokespecial f
      | Invoke_static index \<Rightarrow> handle_invoker env cp bci index op_invokestatic f
      | Invoke_virtual index \<Rightarrow> handle_invoker env cp bci index op_invokevirtual f
      | Invoke_native _ \<Rightarrow> Inl should_not_reach_here
      | Return_native _ \<Rightarrow> Inl should_not_reach_here
      | Throw_exception \<Rightarrow> pop_object (ve_vm env) java_lang_Throwable f
      | New_object index \<Rightarrow> new_object env cp bci index f
      | Check_cast index \<Rightarrow> check_cast env cp index f
      | Instance_of index \<Rightarrow> instance_of env cp index f
      | Monitor_enter \<Rightarrow> drop_ref f
      | Monitor_exit \<Rightarrow> drop_ref f
      | Fast_invoke_special _ \<Rightarrow> Inr f
      | _ \<Rightarrow> Inl ve_bad_instr)"

definition ends_control_flow :: "closure_call \<Rightarrow> bool" where
  "ends_control_flow c =
     (case c of Branch _ \<Rightarrow> True | Return_op _ \<Rightarrow> True | Table_switch _ _ _ _ \<Rightarrow> True
      | Lookup_switch _ _ _ \<Rightarrow> True | Throw_exception \<Rightarrow> True | _ \<Rightarrow> False)"

definition handle_call :: "verify_env \<Rightarrow> int \<Rightarrow> closure_call \<Rightarrow> vstate \<Rightarrow> error_tag + vstate" where
  "handle_call env bci c s =
     jvm_check (frame_call env (vs_cp s) bci c (vs_frame s)) (\<lambda>f.
       Inr (s\<lparr>vs_frame := f,
              vs_no_control_flow := (vs_no_control_flow s \<or> ends_control_flow c)\<rparr>))"

end
