(* ===== verification/Verify_Method.thy ===== *)
theory Verify_Method
  imports Verify_Objects
begin

text \<open>
  The verification of a method (\<open>VerifyMethodCodes::verify\<close>) and of a class
  (\<open>Verifier.cpp\<close>): the start positions of the instructions, the checks that are
  made before the bytecodes are read, the two hooks around each bytecode, and the
  pass over the bytecodes (\<open>Method::iterate\<close>).  At the end, the search for the
  exception handler that a thrown exception runs (\<open>exception_handler_bci_for\<close>).
\<close>

section \<open>The starts of the instructions\<close>

abbreviation INSTRUCTION_STARTS_CACHE_SIZE :: int where "INSTRUCTION_STARTS_CACHE_SIZE \<equiv> 512"
abbreviation STACKMAP_CACHE_SIZE :: int where "STACKMAP_CACHE_SIZE \<equiv> 512"

text \<open>The byte of an instruction's start is 1, that of a \<open>new\<close> 3.  Every round of the
  loop moves \<open>bci\<close>, so one round more than the code has bytes is enough; \<open>None\<close> stands
  for a loop that needs more.  For a byte that is behind the last row of the table of bytecodes the
  code reads a length from behind the table, which is not modelled: such a byte is rejected here.
  \<open>Method::check_bytecodes\<close> rejects it when the class is loaded.\<close>

fun starts_loop :: "nat \<Rightarrow> code_mem \<Rightarrow> int \<Rightarrow> int \<Rightarrow> nat list \<Rightarrow> (error_tag + nat list) option" where
  "starts_loop 0 m len bci arr = None"
| "starts_loop (Suc fuel) m len bci arr =
     (if bci < len then
        let code = bytecode_at m bci;
            arr = arr[nat bci := (if code = op_new then 3 else 1)]
        in if \<not> is_defined (int code) then Some (Inl ve_bad_instr)
           else let simple_len = length_for_code code
           in if simple_len > 0 then starts_loop fuel m len (bci + simple_len) arr
              else if simple_len = 0 then
                (let wide_len = wide_length_for m bci code
                 in if wide_len > 0 then starts_loop fuel m len (bci + wide_len) arr
                    else Some (Inl ve_bad_instr))
              else Some (Inl ve_bad_instr)
      else if bci > len then Some (Inl ve_bad_instr)
      else Some (Inr arr))"

definition get_instruction_starts :: "nat list \<Rightarrow> code_mem \<Rightarrow> int \<Rightarrow> (error_tag + nat list) option" where
  "get_instruction_starts cache m len =
     starts_loop (nat len + 1) m len 0
       (if len \<le> INSTRUCTION_STARTS_CACHE_SIZE then replicate (nat len) 0 @ drop (nat len) cache
        else replicate (nat len) 0)"


section \<open>The stack map cache\<close>

text \<open>The loop over the stack maps; \<open>None\<close> when two maps have the same code offset.\<close>

fun fill_cache :: "int \<Rightarrow> stackmap list \<Rightarrow> int \<Rightarrow> int list \<Rightarrow> int list \<times> bool" where
  "fill_cache mx [] i cache = (cache, True)"
| "fill_cache mx (sm # sms) i cache =
     (let target_bci = map_offset sm
      in if target_bci < mx then
           (if cache ! nat target_bci \<noteq> - 1 then (cache, False)
            else fill_cache mx sms (i + 2) (cache[nat target_bci := i]))
         else fill_cache mx sms (i + 2) cache)"

definition populate_stackmap_cache :: "int list \<Rightarrow> jvm_method \<Rightarrow> int list \<times> int" where
  "populate_stackmap_cache cache m =
     (let mx = min (m_code_size m) STACKMAP_CACHE_SIZE;
          cache = replicate (nat mx) (- 1) @ drop (nat mx) cache
      in case fill_cache mx (m_stackmaps m) 0 cache of
           (cache, ok) \<Rightarrow> (cache, if ok then mx else 0))"


section \<open>Checks before the bytecodes\<close>

definition check_not_final_override :: "vm \<Rightarrow> jvm_method \<Rightarrow> error_tag + unit" where
  "check_not_final_override vm m =
     (let klass = m_holder m in
      if m_static m \<or> class_equals klass (object_class vm) then Inr ()
      else case super_of klass of
          None \<Rightarrow> Inl null_dereference
        | Some super_class \<Rightarrow>
            (case lookup_method super_class (m_name m) (m_signature m) of
               Some (super_method, super_holder) \<Rightarrow>
                 if jm_final super_method \<and> can_access_by super_method super_holder klass super_holder
                 then Inl ve_final_method_override else Inr ()
             | None \<Rightarrow> Inr ()))"

record handler_state =
  hs_cp :: constant_pool
  hs_min_start :: int
  hs_max_end :: int

definition check_handler_class :: "vm \<Rightarrow> int \<Rightarrow> constant_pool \<Rightarrow> error_tag + constant_pool" where
  "check_handler_class vm class_index cp =
     (if class_index = 0 then Inr cp
      else if \<not> is_within_bounds cp class_index then Inl ve_cp_index_out_of_bounds
      else if \<not> is_klass (entry_at cp class_index) then Inl ve_expect_class
      else jvm_check (klass_at vm cp class_index) (\<lambda>(catch_class, cp).
        if \<not> compute_is_subtype_of (object_class vm) catch_class (throwable_class vm)
        then Inl ve_expect_throwable else Inr cp))"

definition check_handler ::
  "vm \<Rightarrow> int \<Rightarrow> nat list \<Rightarrow> handler_entry \<Rightarrow> handler_state \<Rightarrow> error_tag + handler_state" where
  "check_handler vm code_size starts e s =
     (let s = s\<lparr>hs_min_start := min (hs_min_start s) (start_pc e),
               hs_max_end := max (hs_max_end s) (end_pc e)\<rparr>
      in if start_pc e > end_pc e \<or>
            (start_pc e < 0 \<or> start_pc e \<ge> code_size) \<or>
            (handler_pc e < 0 \<or> handler_pc e \<ge> code_size) \<or>
            (end_pc e \<le> 0 \<or> end_pc e > code_size) \<or>
            starts ! nat (start_pc e) = 0 \<or> starts ! nat (handler_pc e) = 0 \<or>
            (end_pc e < code_size \<and> starts ! nat (end_pc e) = 0)
         then Inl corrupted_exception_handler
         else jvm_check (check_handler_class vm (catch_type e) (hs_cp s)) (\<lambda>cp.
           Inr (s\<lparr>hs_cp := cp\<rparr>)))"

definition check_handlers ::
  "vm \<Rightarrow> jvm_method \<Rightarrow> nat list \<Rightarrow> constant_pool \<Rightarrow> error_tag + handler_state" where
  "check_handlers vm m starts cp =
     (let s = \<lparr>hs_cp = cp, hs_min_start = 0xffff, hs_max_end = 0\<rparr>
      in if m_exceptions m = [] then Inr s
         else jvm_fold (check_handler vm (m_code_size m) starts) (m_exceptions m) s)"

definition map_tags :: "stackmap \<Rightarrow> tag list" where
  "map_tags sm =
     map (\<lambda>i. fst sm ! (if i < map_nlocals sm then i + 2 else i + 3))
       [0..<map_nlocals sm + map_nstack sm]"

definition news_ok :: "nat list \<Rightarrow> tag \<Rightarrow> bool" where
  "news_ok starts t =
     (is_newobject t \<longrightarrow> (starts ! nat (decode_newobject t)) AND 2 \<noteq> 0)"

definition check_news :: "stackmap list \<Rightarrow> nat list \<Rightarrow> error_tag + unit" where
  "check_news sms starts =
     (if list_all (\<lambda>sm. list_all (news_ok starts) (map_tags sm)) sms
      then Inr () else Inl ve_bad_stackmap)"


section \<open>The locals at the start of a method\<close>

definition init_receiver :: "vm \<Rightarrow> jvm_method \<Rightarrow> verifier_frame \<Rightarrow> error_tag + (int \<times> verifier_frame)" where
  "init_receiver vm m f =
     (let f = f\<lparr>need_initialization := False\<rparr> in
      if m_static m then Inr (0, f)
      else jvm_check
        (if \<not> class_equals (m_holder m) (object_class vm) \<and> is_object_initializer m
         then frame_set_local 0 ITEM_InitObject (f\<lparr>need_initialization := True\<rparr>)
         else set_local_ref 0 ITEM_Object (Some (class_name (m_holder m))) f)
        (\<lambda>f. Inr (1, f)))"

definition init_parameter ::
  "basic_type \<times> symbol option \<Rightarrow> int \<times> verifier_frame \<Rightarrow> error_tag + (int \<times> verifier_frame)" where
  "init_parameter param nf =
     (case (param, nf) of ((param_type, param_name), (n, f)) \<Rightarrow>
       if param_type = T_OBJECT \<or> param_type = T_ARRAY then
         jvm_check (set_local_ref n ITEM_Object param_name f) (\<lambda>f. Inr (n + 1, f))
       else
         jvm_check (v_set_local n param_type f) (\<lambda>f.
           Inr (n + (if param_type = T_LONG \<or> param_type = T_DOUBLE then 2 else 1), f)))"

definition initialize_locals :: "vm \<Rightarrow> jvm_method \<Rightarrow> verifier_frame \<Rightarrow> error_tag + verifier_frame" where
  "initialize_locals vm m f =
     jvm_check (init_receiver vm m f) (\<lambda>nf.
       case signature_parameters vm (m_signature m) of
         None \<Rightarrow> Inl unbounded_read
       | Some params \<Rightarrow>
           jvm_check (jvm_fold init_parameter params nf) (\<lambda>(n, f).
             jvm_fold (\<lambda>n f. frame_set_local n ITEM_Bogus f) [n..int (m_max_locals m) - 1] f))"


section \<open>The hooks around a bytecode\<close>

definition handler_class_name :: "verify_env \<Rightarrow> constant_pool \<Rightarrow> int \<Rightarrow> error_tag + symbol" where
  "handler_class_name env cp catch_index =
     (if catch_index \<noteq> 0 then name_of_klass_at (ve_vm env) cp catch_index
      else Inr java_lang_Throwable)"

text \<open>One row of the exception table against the state before a bytecode.\<close>

definition check_exception_handler ::
  "verify_env \<Rightarrow> constant_pool \<Rightarrow> int \<Rightarrow> handler_entry \<Rightarrow> verifier_frame \<Rightarrow> error_tag + verifier_frame" where
  "check_exception_handler env cp bci e f =
     (if bci \<ge> start_pc e \<and> bci < end_pc e then
        jvm_check (handler_class_name env cp (catch_type e)) (\<lambda>exception_class.
          jvm_check (push_object exception_class (save_stack_state f)) (\<lambda>f.
            jvm_check (check_handler_target env (handler_pc e) f) (\<lambda>f.
              Inr (restore_stack_state f))))
      else Inr f)"

definition check_exception_handlers_for_bci ::
  "verify_env \<Rightarrow> constant_pool \<Rightarrow> int \<Rightarrow> verifier_frame \<Rightarrow> error_tag + verifier_frame" where
  "check_exception_handlers_for_bci env cp bci f =
     jvm_fold (check_exception_handler env cp bci) (m_exceptions (ve_method env)) f"

definition advance_stackmap :: "int \<Rightarrow> vstate \<Rightarrow> error_tag + vstate" where
  "advance_stackmap bci s =
     (let sms = stackmaps (vs_frame s); current = vs_current_stackmap_index s
      in if current < 2 * int (length sms) then
           (let next_stackmap_bci = map_offset (sms ! (nat current div 2))
            in if next_stackmap_bci = bci then Inr (s\<lparr>vs_current_stackmap_index := current + 2\<rparr>)
               else if next_stackmap_bci < bci then Inl ve_bad_stackmap
               else Inr s)
         else Inr s)"

definition bytecode_prolog :: "verify_env \<Rightarrow> int \<Rightarrow> vstate \<Rightarrow> error_tag + vstate" where
  "bytecode_prolog env bci s =
     jvm_check (advance_stackmap bci s) (\<lambda>s.
       jvm_check (check_current_target env bci (vs_no_control_flow s) (vs_frame s)) (\<lambda>f.
         jvm_check
           (if bci \<ge> vs_min_exception_start_bci s \<and> bci < vs_max_exception_end_bci s
            then check_exception_handlers_for_bci env (vs_cp s) bci f else Inr f) (\<lambda>f.
             Inr (s\<lparr>vs_frame := f, vs_no_control_flow := False\<rparr>))))"

definition iterate_bytecode :: "verify_env \<Rightarrow> int \<Rightarrow> vstate \<Rightarrow> error_tag + vstate" where
  "iterate_bytecode env bci s =
     jvm_check (bytecode_prolog env bci s) (\<lambda>s.
       jvm_fold (handle_call env bci) (iterate_calls (m_code (ve_method env)) (vs_cp s) bci) s)"

text \<open>\<open>Method::iterate\<close>; its bound on \<open>bci\<close> is a comparison of unsigned numbers.\<close>

fun iterate_method :: "nat \<Rightarrow> verify_env \<Rightarrow> int \<Rightarrow> int \<Rightarrow> vstate \<Rightarrow> (error_tag + vstate) option" where
  "iterate_method 0 env end_bci bci s = None"
| "iterate_method (Suc fuel) env end_bci bci s =
     (if 0 \<le> bci \<and> bci < end_bci then
        case iterate_bytecode env bci s of
          Inl e \<Rightarrow> Some (Inl e)
        | Inr s' \<Rightarrow> iterate_method fuel env end_bci (next_bci (m_code (ve_method env)) bci) s'
      else if bci > end_bci then Some (Inl ve_bad_instr)
      else Some (Inr s))"


section \<open>A method\<close>

definition verify_env_for :: "vm \<Rightarrow> int list \<Rightarrow> jvm_method \<Rightarrow> verify_env" where
  "verify_env_for vm cache m =
     (case populate_stackmap_cache cache m of (table, mx) \<Rightarrow>
        \<lparr>ve_vm = vm, ve_method = m, stackmap_cache = table, stackmap_cache_max = mx\<rparr>)"

definition verify_start ::
  "vm \<Rightarrow> verifier_caches \<Rightarrow> jvm_method \<Rightarrow> handler_state \<Rightarrow> error_tag + vstate" where
  "verify_start vm caches m hs =
     jvm_check (initialize_locals vm m (frame_initialize caches m)) (\<lambda>f.
       Inr \<lparr>vs_frame = f, vs_no_control_flow = False, vs_current_stackmap_index = 0,
            vs_cp = hs_cp hs, vs_min_exception_start_bci = hs_min_start hs,
            vs_max_exception_end_bci = hs_max_end hs\<rparr>)"

definition verify_end :: "vstate \<Rightarrow> error_tag + constant_pool" where
  "verify_end s =
     (if vs_current_stackmap_index s \<noteq> 2 * int (length (stackmaps (vs_frame s))) then Inl ve_bad_stackmap
      else if \<not> vs_no_control_flow s then Inl ve_fall_through
      else Inr (vs_cp s))"

text \<open>The caches of the verifier, as an earlier method has left them.\<close>

record global_caches =
  gc_frame :: verifier_caches
  gc_stackmaps :: "int list"
  gc_starts :: "nat list"

definition verify_checks ::
  "vm \<Rightarrow> global_caches \<Rightarrow> constant_pool \<Rightarrow> jvm_method \<Rightarrow> (error_tag + vstate) option" where
  "verify_checks vm g cp m =
     (case check_not_final_override vm m of
        Inl e \<Rightarrow> Some (Inl e)
      | Inr _ \<Rightarrow>
          map_option (\<lambda>r.
            jvm_check r (\<lambda>starts.
              jvm_check (check_handlers vm m starts cp) (\<lambda>hs.
                jvm_check (check_news (m_stackmaps m) starts) (\<lambda>_.
                  verify_start vm (gc_frame g) m hs))))
            (get_instruction_starts (gc_starts g) (m_code m) (m_code_size m)))"

definition verify_method ::
  "vm \<Rightarrow> global_caches \<Rightarrow> constant_pool \<Rightarrow> jvm_method \<Rightarrow> (error_tag + constant_pool) option" where
  "verify_method vm g cp m =
     (case verify_checks vm g cp m of
        None \<Rightarrow> None
      | Some (Inl e) \<Rightarrow> Some (Inl e)
      | Some (Inr s) \<Rightarrow>
          map_option (\<lambda>r. jvm_check r verify_end)
            (iterate_method (nat (m_code_size m) + 1) (verify_env_for vm (gc_stackmaps g) m)
              (m_code_size m) 0 s))"


section \<open>A class\<close>

text \<open>The methods of a class share its constant pool and the caches.  Which values the
  caches have after a method is left open: the argument \<open>next_caches\<close> is any function.\<close>

fun verify_methods ::
  "vm \<Rightarrow> (jvm_method \<Rightarrow> global_caches \<Rightarrow> global_caches) \<Rightarrow> global_caches \<Rightarrow> constant_pool \<Rightarrow>
   jvm_method list \<Rightarrow> (error_tag + constant_pool) option" where
  "verify_methods vm next_caches g cp [] = Some (Inr cp)"
| "verify_methods vm next_caches g cp (m # ms) =
     (if m_native_or_abstract m then verify_methods vm next_caches g cp ms
      else case verify_method vm g cp m of
          None \<Rightarrow> None
        | Some (Inl e) \<Rightarrow> Some (Inl e)
        | Some (Inr cp') \<Rightarrow> verify_methods vm next_caches (next_caches m g) cp' ms)"


section \<open>Finding the handler of an exception\<close>

fun exception_handler_bci_for ::
  "vm \<Rightarrow> handler_entry list \<Rightarrow> constant_pool \<Rightarrow> java_class \<Rightarrow> int \<Rightarrow> error_tag + (int \<times> constant_pool)" where
  "exception_handler_bci_for vm [] cp exception_class bci = Inr (- 1, cp)"
| "exception_handler_bci_for vm (e # es) cp exception_class bci =
     (if bci \<ge> start_pc e \<and> bci < end_pc e then
        (if catch_type e = 0 then Inr (handler_pc e, cp)
         else jvm_check (klass_at vm cp (catch_type e)) (\<lambda>(catch_class, cp).
           if class_equals catch_class exception_class \<or>
              compute_is_subtype_of (object_class vm) exception_class catch_class
           then Inr (handler_pc e, cp)
           else exception_handler_bci_for vm es cp exception_class bci))
      else exception_handler_bci_for vm es cp exception_class bci)"

end
