(* ===== verification/Stackmap_Match.thy ===== *)
theory Stackmap_Match
  imports Frame_Invariant Verify_Method
begin

text \<open>
  What the match of a frame with a stack map (\<open>VerifierFrame::match_stackmap\<close>) computes.
  The loops over the words of the map, which check and overwrite one word after the
  other, are shown equal to a specification on whole lists of words: the match succeeds
  when the frame conforms to the map, and a merge leaves the frame that the map describes.
\<close>

section \<open>The specification\<close>

definition local_words :: "verifier_frame \<Rightarrow> vword list" where
  "local_words f = take (max_locals f) (zip (vlocals_tags f) (vlocals_classes f))"

definition word_assignable :: "vm \<Rightarrow> vword \<Rightarrow> vword \<Rightarrow> bool" where
  "word_assignable vm v w = (is_assignable_to vm (fst v) (fst w) (snd v) (snd w) = Inr True)"

definition conforms :: "vm \<Rightarrow> verifier_frame \<Rightarrow> stackmap \<Rightarrow> bool" where
  "conforms vm f sm =
     (list_all2 (word_assignable vm) (take (map_nlocals sm) (local_words f)) (map_locals sm) \<and>
      list_all2 (word_assignable vm) (stack_words f) (map_stack sm))"

definition needs_init :: "stackmap \<Rightarrow> bool" where
  "needs_init sm = (ITEM_InitObject \<in> fst ` set (map_locals sm @ map_stack sm))"

text \<open>A word of the map that is not an object inherits the class of the last object.\<close>

primrec last_class :: "stackmap \<Rightarrow> nat \<Rightarrow> nat \<Rightarrow> symbol option" where
  "last_class sm start 0 = None"
| "last_class sm start (Suc n) =
     (if fst sm ! (n + start) = ITEM_Object then snd sm ! (n + start) else last_class sm start n)"

definition merged :: "stackmap \<Rightarrow> nat \<Rightarrow> verifier_frame \<Rightarrow> verifier_frame" where
  "merged sm nlocals f =
     (let n = map_nlocals sm; k = map_nstack sm in
      f\<lparr>vlocals_tags := map (\<lambda>i. fst sm ! (i + 2)) [0..<n] @ replicate (nlocals - n) ITEM_Bogus
          @ drop nlocals (vlocals_tags f),
        vlocals_classes := map (\<lambda>i. last_class sm 2 (Suc i)) [0..<n] @ replicate (nlocals - n) None
          @ drop nlocals (vlocals_classes f),
        vstack_tags := map (\<lambda>i. fst sm ! (i + (n + 3))) [0..<k] @ drop k (vstack_tags f),
        vstack_classes := map (\<lambda>i. last_class sm (n + 3) (Suc i)) [0..<k] @ drop k (vstack_classes f),
        vstackpointer := k\<rparr>)"


section \<open>The loops\<close>

lemma fold_update:
  "k \<le> n \<Longrightarrow> n \<le> length xs \<Longrightarrow>
     fold (\<lambda>i xs. xs[i := g i]) [k..<n] xs = take k xs @ map g [k..<n] @ drop n xs"
proof (induction n)
  case (Suc n)
  show ?case
  proof (cases "k = Suc n")
    case False
    then have k: "k \<le> n" using Suc by simp
    with Suc have "fold (\<lambda>i xs. xs[i := g i]) [k..<Suc n] xs =
        (take k xs @ map g [k..<n] @ drop n xs)[n := g n]" by simp
    also have "\<dots> = take k xs @ map g [k..<n] @ (drop n xs)[0 := g n]"
      using k Suc.prems by (simp add: list_update_append)
    also have "drop n xs = xs ! n # drop (Suc n) xs"
      using Suc.prems by (simp add: Cons_nth_drop_Suc)
    finally show ?thesis using k by simp
  qed simp
qed simp

lemma fold_vlocals_put:
  "fold (\<lambda>i. vlocals_put i (g i) (h i)) js f =
     f\<lparr>vlocals_tags := fold (\<lambda>i xs. xs[i := g i]) js (vlocals_tags f),
       vlocals_classes := fold (\<lambda>i xs. xs[i := h i]) js (vlocals_classes f)\<rparr>"
  by (induction js arbitrary: f) (simp_all add: vlocals_put_def)

lemma fold_vstack_put:
  "fold (\<lambda>i. vstack_put i (g i) (h i)) js f =
     f\<lparr>vstack_tags := fold (\<lambda>i xs. xs[i := g i]) js (vstack_tags f),
       vstack_classes := fold (\<lambda>i xs. xs[i := h i]) js (vstack_classes f)\<rparr>"
  by (induction js arbitrary: f) (simp_all add: vstack_put_def)

lemma fold_update_nth:
  "j \<notin> set js \<Longrightarrow> fold (\<lambda>i xs. xs[i := g i]) js xs ! j = xs ! j"
  by (induction js arbitrary: xs) auto

lemma is_assignable_class:
  "t' \<noteq> ITEM_Object \<Longrightarrow> is_assignable_to vm t t' c c1 = is_assignable_to vm t t' c c2"
  by (simp add: is_assignable_to_def)

text \<open>A loop that passes through the states \<open>S 0\<close>, \<open>S 1\<close>, \dots while a test holds.\<close>

lemma jvm_fold_checked:
  assumes "\<And>n. body n (S n) = (if P n then Inr (S (Suc n)) else Inl err)"
  shows "jvm_fold body [0..<n] (S 0) = (if \<forall>i < n. P i then Inr (S n) else Inl err)"
proof (induction n)
  case (Suc n)
  have "jvm_fold body [n] = body n" by (rule ext) (simp add: jvm_check_def split: sum.splits)
  then show ?case using Suc by (auto simp: jvm_fold_append assms less_Suc_eq)
qed simp

definition local_fits :: "vm \<Rightarrow> verifier_frame \<Rightarrow> stackmap \<Rightarrow> nat \<Rightarrow> bool" where
  "local_fits vm f sm i =
     (is_assignable_to vm (vlocals_tags f ! i) (fst sm ! (i + 2))
        (vlocals_classes f ! i) (snd sm ! (i + 2)) = Inr True)"

definition put_locals :: "stackmap \<Rightarrow> nat \<Rightarrow> verifier_frame \<Rightarrow> verifier_frame" where
  "put_locals sm n = fold (\<lambda>i. vlocals_put i (fst sm ! (i + 2)) (last_class sm 2 (Suc i))) [0..<n]"

definition stack_fits :: "vm \<Rightarrow> verifier_frame \<Rightarrow> stackmap \<Rightarrow> nat \<Rightarrow> bool" where
  "stack_fits vm f sm i =
     (is_assignable_to vm (vstack_tags f ! i) (fst sm ! (i + (map_nlocals sm + 3)))
        (vstack_classes f ! i) (snd sm ! (i + (map_nlocals sm + 3))) = Inr True)"

definition put_stack :: "stackmap \<Rightarrow> nat \<Rightarrow> verifier_frame \<Rightarrow> verifier_frame" where
  "put_stack sm n =
     fold (\<lambda>i. vstack_put i (fst sm ! (i + (map_nlocals sm + 3)))
                  (last_class sm (map_nlocals sm + 3) (Suc i))) [0..<n]"

lemma match_locals_loop:
  "jvm_fold (match_local vm flags err sm) [0..<n] (f, None, tni) =
     (if \<forall>i < n. SM_CHECK \<in> set flags \<longrightarrow> local_fits vm f sm i
      then Inr (if SM_MERGE \<in> set flags then put_locals sm n f else f,
                last_class sm 2 n, tni \<or> (\<exists>i < n. fst sm ! (i + 2) = ITEM_InitObject))
      else Inl err)"
proof -
  define S where "S n = (if SM_MERGE \<in> set flags then put_locals sm n f else f,
    last_class sm 2 n, tni \<or> (\<exists>i < n. fst sm ! (i + 2) = ITEM_InitObject))" for n
  have "match_local vm flags err sm n (S n) =
      (if SM_CHECK \<in> set flags \<longrightarrow> local_fits vm f sm n then Inr (S (Suc n)) else Inl err)" for n
  proof -
    have 1: "vlocals_tags (put_locals sm n f) ! n = vlocals_tags f ! n"
      "vlocals_classes (put_locals sm n f) ! n = vlocals_classes f ! n"
      by (simp_all add: put_locals_def fold_vlocals_put fold_update_nth)
    have 2: "put_locals sm (Suc n) f =
        vlocals_put n (fst sm ! (n + 2)) (last_class sm 2 (Suc n)) (put_locals sm n f)"
      by (simp add: put_locals_def)
    have 3: "is_assignable_to vm t (fst sm ! (n + 2)) c (last_class sm 2 (Suc n)) =
        is_assignable_to vm t (fst sm ! (n + 2)) c (snd sm ! (n + 2))" for t c
      using is_assignable_class by simp
    show ?thesis
      unfolding match_local_def S_def Let_def prod.case last_class.simps(2) [symmetric]
      by (simp add: 1 2 3 local_fits_def less_Suc_eq ex_disj_distrib conj_disj_distribR
          del: last_class.simps(2) add_2_eq_Suc add_2_eq_Suc')
  qed
  moreover have S0: "S 0 = (f, None, tni)" by (simp add: S_def put_locals_def)
  ultimately show ?thesis
    using jvm_fold_checked [of "match_local vm flags err sm" S] unfolding S0 by (simp only: S_def)
qed

lemma match_stack_loop:
  "jvm_fold (match_stack vm flags err sm) [0..<n] (f, None, tni) =
     (if \<forall>i < n. SM_CHECK \<in> set flags \<longrightarrow> stack_fits vm f sm i
      then Inr (if SM_MERGE \<in> set flags then put_stack sm n f else f,
                last_class sm (map_nlocals sm + 3) n,
                tni \<or> (\<exists>i < n. fst sm ! (i + (map_nlocals sm + 3)) = ITEM_InitObject))
      else Inl err)"
proof -
  define k where "k = map_nlocals sm + 3"
  define S where "S n = (if SM_MERGE \<in> set flags then put_stack sm n f else f,
    last_class sm k n, tni \<or> (\<exists>i < n. fst sm ! (i + k) = ITEM_InitObject))" for n
  have "match_stack vm flags err sm n (S n) =
      (if SM_CHECK \<in> set flags \<longrightarrow> stack_fits vm f sm n then Inr (S (Suc n)) else Inl err)" for n
  proof -
    have 0: "map_nlocals sm + n + 3 = n + k" by (simp add: k_def)
    have 1: "vstack_tags (put_stack sm n f) ! n = vstack_tags f ! n"
      "vstack_classes (put_stack sm n f) ! n = vstack_classes f ! n"
      by (simp_all add: put_stack_def fold_vstack_put fold_update_nth)
    have 2: "put_stack sm (Suc n) f =
        vstack_put n (fst sm ! (n + k)) (last_class sm k (Suc n)) (put_stack sm n f)"
      by (simp add: put_stack_def k_def)
    have 3: "is_assignable_to vm t (fst sm ! (n + k)) c (last_class sm k (Suc n)) =
        is_assignable_to vm t (fst sm ! (n + k)) c (snd sm ! (n + k))" for t c
      using is_assignable_class by simp
    show ?thesis
      unfolding match_stack_def S_def Let_def prod.case 0 last_class.simps(2) [symmetric]
      by (simp add: 1 2 3 stack_fits_def k_def [symmetric] less_Suc_eq ex_disj_distrib
          conj_disj_distribR del: last_class.simps(2))
  qed
  moreover have S0: "S 0 = (f, None, tni)" by (simp add: S_def put_stack_def)
  ultimately show ?thesis
    using jvm_fold_checked [of "match_stack vm flags err sm" S] unfolding S0
    by (simp only: S_def k_def [symmetric])
qed


section \<open>The match as a whole\<close>

lemma map_items_nth:
  "start + n \<le> length (fst sm) \<Longrightarrow> length (snd sm) = length (fst sm) \<Longrightarrow>
     length (map_items sm start n) = n \<and>
     (\<forall>i < n. map_items sm start n ! i = (fst sm ! (i + start), snd sm ! (i + start)))"
  by (simp add: map_items_def add.commute)

lemma wf_map_words:
  assumes "wf_stackmap mx_stack mx_locals len sm"
  shows "length (map_locals sm) = map_nlocals sm" "length (map_stack sm) = map_nstack sm"
    "\<And>i. i < map_nlocals sm \<Longrightarrow> map_locals sm ! i = (fst sm ! (i + 2), snd sm ! (i + 2))"
    "\<And>i. i < map_nstack sm \<Longrightarrow>
       map_stack sm ! i = (fst sm ! (i + (map_nlocals sm + 3)), snd sm ! (i + (map_nlocals sm + 3)))"
    "map_nlocals sm \<le> mx_locals" "map_nstack sm \<le> mx_stack"
  using assms map_items_nth [of 2 "map_nlocals sm" sm]
    map_items_nth [of "map_nlocals sm + 3" "map_nstack sm" sm]
  by (simp_all add: wf_stackmap_def map_locals_def map_stack_def del: add_2_eq_Suc add_2_eq_Suc')

lemma needs_init_iff:
  assumes "wf_stackmap mx_stack mx_locals len sm"
  shows "needs_init sm \<longleftrightarrow>
    (\<exists>i < map_nlocals sm. fst sm ! (i + 2) = ITEM_InitObject) \<or>
    (\<exists>i < map_nstack sm. fst sm ! (i + (map_nlocals sm + 3)) = ITEM_InitObject)"
proof -
  note w = wf_map_words [OF assms]
  have "ITEM_InitObject \<in> fst ` set (map_locals sm) \<longleftrightarrow>
      (\<exists>i < map_nlocals sm. fst sm ! (i + 2) = ITEM_InitObject)"
    unfolding in_set_conv_nth image_iff Bex_def w(1) using w(3) by (metis fst_conv)
  moreover have "ITEM_InitObject \<in> fst ` set (map_stack sm) \<longleftrightarrow>
      (\<exists>i < map_nstack sm. fst sm ! (i + (map_nlocals sm + 3)) = ITEM_InitObject)"
    unfolding in_set_conv_nth image_iff Bex_def w(2) using w(4) by (metis fst_conv)
  ultimately show ?thesis by (simp add: needs_init_def image_Un)
qed

lemma conforms_iff:
  assumes "wf_stackmap mx_stack (max_locals f) len sm" "frame_sizes f"
  shows "conforms vm f sm \<longleftrightarrow>
    (\<forall>i < map_nlocals sm. local_fits vm f sm i) \<and> vstackpointer f = map_nstack sm \<and>
    (\<forall>i < map_nstack sm. stack_fits vm f sm i)"
proof -
  note w = wf_map_words [OF assms(1)]
  have "length (take (map_nlocals sm) (local_words f)) = map_nlocals sm"
    using w(5) assms(2) by (simp add: local_words_def frame_sizes_def)
  moreover have "take (map_nlocals sm) (local_words f) ! i = (vlocals_tags f ! i, vlocals_classes f ! i)"
    if "i < map_nlocals sm" for i
    using that w(5) assms(2) by (simp add: local_words_def frame_sizes_def)
  ultimately have "list_all2 (word_assignable vm) (take (map_nlocals sm) (local_words f)) (map_locals sm)
      \<longleftrightarrow> (\<forall>i < map_nlocals sm. local_fits vm f sm i)"
    using w(1,3) by (simp add: list_all2_conv_all_nth word_assignable_def local_fits_def)
  moreover have "list_all2 (word_assignable vm) (stack_words f) (map_stack sm)
      \<longleftrightarrow> vstackpointer f = map_nstack sm \<and> (\<forall>i < map_nstack sm. stack_fits vm f sm i)"
    using w(2,4) stack_words_length [OF assms(2)] stack_words_nth [OF assms(2)]
    by (auto simp add: list_all2_conv_all_nth word_assignable_def stack_fits_def)
  ultimately show ?thesis by (simp add: conforms_def)
qed

lemma jvm_check_if:
  "jvm_check (if b then Inr x else Inl e) k = (if b then k x else Inl e)"
  by simp

lemma fold_update_0:
  "n \<le> length xs \<Longrightarrow> fold (\<lambda>i xs. xs[i := g i]) [0..<n] xs = map g [0..<n] @ drop n xs"
  using fold_update [of 0 n xs g] by simp

lemma merged_eq:
  assumes "wf_stackmap (max_stack f) mx len sm" "mx = max_locals f" "frame_sizes f"
  shows "put_stack sm (map_nstack sm)
      ((bogify_rest (map_nlocals sm) mx (put_locals sm (map_nlocals sm) f))
        \<lparr>vstackpointer := map_nstack sm\<rparr>) = merged sm mx f"
proof -
  note w = wf_map_words [OF assms(1)]
  define n where "n = map_nlocals sm"
  define k where "k = map_nstack sm"
  have le: "n \<le> mx" "n \<le> length (vlocals_tags f)" "n \<le> length (vlocals_classes f)"
    "mx \<le> length (vlocals_tags f)" "mx \<le> length (vlocals_classes f)"
    "k \<le> length (vstack_tags f)" "k \<le> length (vstack_classes f)"
    using w(5,6) assms(2,3) by (simp_all add: n_def k_def frame_sizes_def)
  have r: "map (\<lambda>i. c) [n..<mx] = replicate (mx - n) c" for c :: 'x
    by (rule nth_equalityI) simp_all
  have d: "drop mx (map g [0..<n] @ drop n xs) = drop mx xs" for g and xs :: "'x list"
    using le(1) by simp
  show ?thesis
    unfolding n_def [symmetric] k_def [symmetric] put_stack_def bogify_rest_def put_locals_def
      merged_def fold_vlocals_put fold_vstack_put Let_def
    using le by (simp add: fold_update fold_update_0 r d)
qed

lemma match_stackmap_result:
  assumes "wf_stackmap (max_stack f) (max_locals f) len sm" "frame_sizes f"
    "m_max_locals (ve_method env) = max_locals f"
  shows "match_stackmap env flags err sm f =
    (let initializer = is_object_initializer (ve_method env) in
     if (SM_CHECK \<in> set flags \<longrightarrow> conforms (ve_vm env) f sm) \<and>
        (initializer \<and> need_initialization f \<longrightarrow> needs_init sm)
     then Inr (if SM_MERGE \<in> set flags
               then (merged sm (max_locals f) f)
                      \<lparr>need_initialization := if initializer then needs_init sm
                                             else need_initialization f\<rparr>
               else f)
     else Inl err)"
proof -
  define n where "n = map_nlocals sm"
  define g where "g = (if SM_MERGE \<in> set flags then put_locals sm n f else f)"
  define h where "h = (if SM_MERGE \<in> set flags then bogify_rest n (max_locals f) g else g)"
  define h' where "h' = (if SM_MERGE \<in> set flags then h\<lparr>vstackpointer := map_nstack sm\<rparr> else h)"
  have st: "vstackpointer h = vstackpointer f" "need_initialization h' = need_initialization f"
    "stack_fits vm h' sm i = stack_fits vm f sm i" for vm i
    by (simp_all add: h'_def h_def g_def put_locals_def bogify_rest_def fold_vlocals_put stack_fits_def)
  have m: "(if SM_MERGE \<in> set flags then put_stack sm (map_nstack sm) h' else h') =
      (if SM_MERGE \<in> set flags then merged sm (max_locals f) f else f)"
    using merged_eq [OF assms(1) refl assms(2)] by (simp add: h'_def h_def g_def n_def)
  have mi: "need_initialization (merged sm (max_locals f) f) = need_initialization f"
    by (simp add: merged_def Let_def)
  have upd: "x\<lparr>need_initialization := b\<rparr> = x" if "need_initialization x = b" for x :: verifier_frame and b
    using that by simp
  note c = conforms_iff [OF assms(1,2)] and ni = needs_init_iff [OF assms(1)]
  have body: "match_stackmap env flags err sm f =
    (if \<forall>i < n. SM_CHECK \<in> set flags \<longrightarrow> local_fits (ve_vm env) f sm i then
       if SM_CHECK \<in> set flags \<and> map_nstack sm \<noteq> vstackpointer h then Inl err
       else jvm_check (jvm_fold (match_stack (ve_vm env) flags err sm) [0..<map_nstack sm]
              (h', None, \<exists>i < n. fst sm ! (i + 2) = ITEM_InitObject))
            (\<lambda>(f, _, tni).
                if is_object_initializer (ve_method env) then
                  (if need_initialization f \<and> \<not> tni then Inl err
                   else Inr (if SM_MERGE \<in> set flags then f\<lparr>need_initialization := tni\<rparr> else f))
                else Inr f)
     else Inl err)"
    unfolding match_stackmap_def match_locals_loop n_def [symmetric] g_def [symmetric] assms(3)
      jvm_check_if prod.case Let_def h_def [symmetric] h'_def [symmetric]
    by (simp only: simp_thms)
  show ?thesis
  proof (cases "SM_CHECK \<in> set flags")
    case True
    then show ?thesis
      unfolding body match_stack_loop m st
      by (auto simp: Let_def c ni n_def [symmetric] mi upd st)
  next
    case False
    then show ?thesis
      unfolding body match_stack_loop m st
      by (auto simp: Let_def c ni n_def [symmetric] mi upd st)
  qed
qed

section \<open>A merge keeps the invariant\<close>

definition similar :: "vword \<Rightarrow> vword \<Rightarrow> bool" where
  "similar v w = (fst v = fst w \<and> (fst v = ITEM_Object \<longrightarrow> snd v = snd w))"

lemma similar_Cons:
  "list_all2 similar xs ((t, c) # ys) \<longleftrightarrow>
     (\<exists>c' xs'. xs = (t, c') # xs' \<and> list_all2 similar xs' ys \<and> (t = ITEM_Object \<longrightarrow> c' = c))"
proof -
  have "similar v (t, c) \<longleftrightarrow> (\<exists>c'. v = (t, c') \<and> (t = ITEM_Object \<longrightarrow> c' = c))" for v
    by (cases v) (simp add: similar_def, blast)
  then show ?thesis by (auto simp: list_all2_Cons2)
qed

lemma paired_similar: "list_all2 similar xs ys \<Longrightarrow> paired ys \<Longrightarrow> paired xs"
proof (induction ys arbitrary: xs rule: paired.induct)
  case (2 t c ws)
  show ?case
  proof (cases "first_half t")
    case True
    moreover have "similar v w \<Longrightarrow> fst v = fst w" for v w by (simp add: similar_def)
    ultimately show ?thesis using 2 by (fastforce simp: similar_Cons split: list.splits)
  next
    case False
    with 2 show ?thesis by (auto simp: similar_Cons)
  qed
qed simp

lemma paired_object:
  "paired ws \<Longrightarrow> (ITEM_Object, c) \<in> set ws \<Longrightarrow> c \<noteq> None"
proof (induction ws rule: paired.induct)
  case (2 t c' ws)
  show ?case
  proof (cases "first_half t")
    case True
    moreover have "t \<noteq> ITEM_Object" "half_of t \<noteq> ITEM_Object"
      using True by (auto simp: first_half_def half_of_def)
    ultimately show ?thesis using 2 by (auto split: list.splits)
  next
    case False
    with 2 show ?thesis by auto
  qed
qed simp

lemma merged_frame_ok:
  assumes "wf_stackmap (max_stack f) (max_locals f) len sm" "frame_sizes f"
  shows "frame_ok (merged sm (max_locals f) f)"
proof -
  note w = wf_map_words [OF assms(1)]
  let ?g = "merged sm (max_locals f) f"
  have p: "paired (map_locals sm)" "paired (map_stack sm)"
    using assms(1) by (auto simp: wf_stackmap_def intro: wf_items_paired)
  have sizes: "frame_sizes ?g"
    using assms(2) w(5,6) by (simp add: frame_sizes_def merged_def Let_def)
  have "list_all2 similar (stack_words ?g) (map_stack sm)"
    using stack_words_length [OF sizes] stack_words_nth [OF sizes] w(2,4)
    by (simp add: list_all2_conv_all_nth similar_def merged_def Let_def nth_append)
  then have st: "paired (stack_words ?g)" using p(2) by (rule paired_similar)
  have tag: "vlocals_tags ?g ! i = (if i < map_nlocals sm then fst (map_locals sm ! i) else ITEM_Bogus)"
    "vlocals_tags ?g ! i = ITEM_Object \<Longrightarrow> vlocals_classes ?g ! i = snd (map_locals sm ! i)"
    if "i < max_locals f" for i
    using that w(3,5) assms(2)
    by (auto simp: merged_def Let_def nth_append frame_sizes_def split: if_splits)
  have "locals_ok ?g"
    unfolding locals_ok_def
  proof (intro allI impI conjI)
    fix i assume i: "i < max_locals ?g"
    then have i': "i < max_locals f" by (simp add: merged_def Let_def)
    show "i + 1 < max_locals ?g" "vlocals_tags ?g ! (i + 1) = half_of (vlocals_tags ?g ! i)"
      if h: "first_half (vlocals_tags ?g ! i)"
    proof -
      from h tag [OF i'] have n: "i < map_nlocals sm" by (auto simp: first_half_def split: if_splits)
      with h tag [OF i'] have "first_half (fst (map_locals sm ! i))" by simp
      from paired_nth [OF p(1) _ this] n w(1)
      have "i + 1 < map_nlocals sm" "fst (map_locals sm ! (i + 1)) = half_of (fst (map_locals sm ! i))"
        by simp_all
      with n w(5) tag [OF i'] tag [of "i + 1"]
      show "i + 1 < max_locals ?g" "vlocals_tags ?g ! (i + 1) = half_of (vlocals_tags ?g ! i)"
        by (simp_all add: merged_def Let_def)
    qed
    show "vlocals_classes ?g ! i \<noteq> None" if o: "vlocals_tags ?g ! i = ITEM_Object"
    proof -
      from o tag [OF i'] have n: "i < map_nlocals sm" by (auto split: if_splits)
      then have "map_locals sm ! i \<in> set (map_locals sm)" using w(1) by simp
      with o tag [OF i'] n show ?thesis
        using paired_object [OF p(1)] by (metis prod.collapse)
    qed
  qed
  with sizes st show ?thesis by (simp add: frame_ok_def)
qed


section \<open>Finding the map\<close>

definition stackmap_at :: "stackmap list \<Rightarrow> int \<Rightarrow> stackmap option" where
  "stackmap_at sms bci = find (\<lambda>sm. map_offset sm = bci) sms"

text \<open>An index of the array of the maps denotes a map: the even numbers from 0 on.\<close>

definition denotes :: "stackmap list \<Rightarrow> int \<Rightarrow> stackmap option \<Rightarrow> bool" where
  "denotes sms i r = (case r of None \<Rightarrow> i = - 1
     | Some sm \<Rightarrow> (\<exists>k < length sms. i = 2 * int k \<and> sms ! k = sm))"

lemma find_stackmap_denotes:
  "denotes (pre @ sms) (find_stackmap sms (2 * int (length pre)) bci) (stackmap_at sms bci)"
proof (induction sms arbitrary: pre)
  case (Cons sm sms)
  show ?case
  proof (cases "map_offset sm = bci")
    case True
    then show ?thesis
      by (auto simp: stackmap_at_def denotes_def intro: exI [of _ "length pre"])
  next
    case False
    with Cons [of "pre @ [sm]"] show ?thesis by (simp add: stackmap_at_def algebra_simps)
  qed
qed (simp add: stackmap_at_def denotes_def)

text \<open>The cache, as far as it has been filled: the slot of a code offset holds what the
  search finds.\<close>

definition cache_of :: "int \<Rightarrow> stackmap list \<Rightarrow> int list \<Rightarrow> bool" where
  "cache_of mx sms cache =
     (nat mx \<le> length cache \<and>
      (\<forall>bci. 0 \<le> bci \<and> bci < mx \<longrightarrow> cache ! nat bci = find_stackmap sms 0 bci))"

lemma find_stackmap_snoc:
  "0 \<le> i \<Longrightarrow> find_stackmap (sms @ [sm]) i bci =
     (if find_stackmap sms i bci = - 1 \<and> map_offset sm = bci then i + 2 * int (length sms)
      else find_stackmap sms i bci)"
  by (induction sms arbitrary: i) auto

lemma fill_cache_of:
  assumes "cache_of mx pre cache" "list_all (\<lambda>sm. 0 \<le> map_offset sm) sms"
    "fill_cache mx sms (2 * int (length pre)) cache = (cache', True)"
  shows "cache_of mx (pre @ sms) cache'"
  using assms
proof (induction sms arbitrary: pre cache)
  case (Cons sm sms)
  have i: "2 * int (length pre) + 2 = 2 * int (length (pre @ [sm]))" by simp
  show ?case
  proof (cases "map_offset sm < mx")
    case True
    with Cons.prems have free: "cache ! nat (map_offset sm) = - 1"
      and rest: "fill_cache mx sms (2 * int (length (pre @ [sm])))
          (cache[nat (map_offset sm) := 2 * int (length pre)]) = (cache', True)"
      unfolding i [symmetric] by (auto simp: Let_def split: if_splits)
    then have "cache_of mx (pre @ [sm]) (cache[nat (map_offset sm) := 2 * int (length pre)])"
      using Cons.prems(1,2) True
      by (auto simp: cache_of_def find_stackmap_snoc nth_list_update nat_eq_iff2)
    from Cons.IH [OF this _ rest] Cons.prems(2) show ?thesis by simp
  next
    case False
    with Cons.prems have rest: "fill_cache mx sms (2 * int (length (pre @ [sm]))) cache = (cache', True)"
      unfolding i [symmetric] by simp
    have "cache_of mx (pre @ [sm]) cache"
      using Cons.prems(1) False by (auto simp: cache_of_def find_stackmap_snoc)
    from Cons.IH [OF this _ rest] Cons.prems(2) show ?thesis by simp
  qed
qed simp

text \<open>The cache gives what the search gives, whatever it held before.\<close>

lemma lookup_stackmap_search:
  assumes "list_all (\<lambda>sm. 0 \<le> map_offset sm) (m_stackmaps m)" "jint_min \<le> bci" "bci \<le> jint_max"
    "min (m_code_size m) 512 \<le> int (length cache)" "0 \<le> m_code_size m"
  shows "lookup_stackmap (verify_env_for vm cache m) (m_stackmaps m) bci =
    get_stackmap_index_for_offset (m_stackmaps m) bci"
proof -
  let ?sms = "m_stackmaps m"
  define mx where "mx = min (m_code_size m) 512"
  define cache0 where "cache0 = replicate (nat mx) (- 1) @ drop (nat mx) cache"
  obtain cache' ok where f: "fill_cache mx ?sms 0 cache0 = (cache', ok)" by fastforce
  define lim where "lim = (if ok then mx else 0)"
  have env: "stackmap_cache (verify_env_for vm cache m) = cache'"
    "stackmap_cache_max (verify_env_for vm cache m) = lim"
    using f by (simp_all add: verify_env_for_def populate_stackmap_cache_def Let_def mx_def
        cache0_def lim_def)
  show ?thesis
  proof (cases "(word_of_int bci :: 32 word) < word_of_int lim")
    case True
    have "0 \<le> bci \<and> bci < lim"
    proof -
      have l: "0 \<le> lim" "lim \<le> 512" using assms(5) by (simp_all add: lim_def mx_def)
      from True l have "uint (word_of_int bci :: 32 word) < lim"
        by (simp add: word_less_def uint_word_of_int)
      moreover have "uint (word_of_int bci :: 32 word) = (if 0 \<le> bci then bci else bci + 2 ^ 32)"
      proof (cases "0 \<le> bci")
        case False
        have "bci mod 2 ^ 32 = (bci + 2 ^ 32) mod 2 ^ 32" by simp
        also have "\<dots> = bci + 2 ^ 32"
          using False assms(2) by (intro mod_pos_pos_trivial) simp_all
        finally show ?thesis using False by (simp add: uint_word_of_int)
      qed (use assms(3) in \<open>simp add: uint_word_of_int mod_pos_pos_trivial\<close>)
      ultimately show ?thesis using assms(2) l by (auto split: if_splits)
    qed
    moreover from this have ok: ok "lim = mx" by (auto simp: lim_def split: if_splits)
    moreover have "cache_of mx [] cache0"
      using assms(4) by (simp add: cache_of_def cache0_def mx_def nth_append)
    then have "cache_of mx ?sms cache'"
      using fill_cache_of [of mx "[]" cache0 ?sms cache'] assms(1) f ok(1) by simp
    ultimately show ?thesis
      using True by (simp add: lookup_stackmap_def env cache_of_def get_stackmap_index_for_offset_def)
  next
    case False
    then show ?thesis by (simp add: lookup_stackmap_def env)
  qed
qed

text \<open>What the rest of the verifier relies on: the maps fit the method, and a lookup finds
  the map of a code offset.\<close>

definition env_ok :: "verify_env \<Rightarrow> bool" where
  "env_ok env =
     (list_all (wf_stackmap (m_max_stack (ve_method env)) (m_max_locals (ve_method env))
                  (m_code_size (ve_method env))) (m_stackmaps (ve_method env)) \<and>
      (\<forall>bci. jint_min \<le> bci \<and> bci \<le> jint_max \<longrightarrow>
         denotes (m_stackmaps (ve_method env))
           (lookup_stackmap env (m_stackmaps (ve_method env)) bci)
           (stackmap_at (m_stackmaps (ve_method env)) bci)))"

text \<open>The frame of the method that is verified.\<close>

definition frame_of :: "jvm_method \<Rightarrow> verifier_frame \<Rightarrow> bool" where
  "frame_of m f =
     (max_stack f = m_max_stack m \<and> max_locals f = m_max_locals m \<and> stackmaps f = m_stackmaps m)"

lemma verify_env_for_ok:
  assumes "list_all (wf_stackmap (m_max_stack m) (m_max_locals m) (m_code_size m)) (m_stackmaps m)"
    "min (m_code_size m) 512 \<le> int (length cache)" "0 \<le> m_code_size m"
  shows "env_ok (verify_env_for vm cache m)" "ve_method (verify_env_for vm cache m) = m"
    "ve_vm (verify_env_for vm cache m) = vm"
proof -
  show 1: "ve_method (verify_env_for vm cache m) = m" "ve_vm (verify_env_for vm cache m) = vm"
    by (simp_all add: verify_env_for_def split: prod.splits)
  have "list_all (\<lambda>sm. 0 \<le> map_offset sm) (m_stackmaps m)"
    using assms(1) by (rule list.pred_mono_strong) (simp add: wf_stackmap_def)
  from lookup_stackmap_search [OF this _ _ assms(2,3)] find_stackmap_denotes [of "[]" "m_stackmaps m"] assms(1)
  show "env_ok (verify_env_for vm cache m)"
    by (simp add: env_ok_def 1 get_stackmap_index_for_offset_def)
qed

lemma stackmap_at_SomeD: "stackmap_at sms bci = Some sm \<Longrightarrow> sm \<in> set sms \<and> map_offset sm = bci"
  by (auto simp: stackmap_at_def find_Some_iff)

text \<open>The match at a code offset, on the specification.\<close>

lemma check_stackmap_match_result:
  assumes "env_ok env" "frame_of (ve_method env) f" "frame_sizes f" "jint_min \<le> bci" "bci \<le> jint_max"
  shows "check_stackmap_match env bci flags err f =
    (let initializer = is_object_initializer (ve_method env) in
     case stackmap_at (m_stackmaps (ve_method env)) bci of
       None \<Rightarrow> if SM_EXIST \<in> set flags then Inl err else Inr f
     | Some sm \<Rightarrow>
         if (SM_CHECK \<in> set flags \<longrightarrow> conforms (ve_vm env) f sm) \<and>
            (initializer \<and> need_initialization f \<longrightarrow> needs_init sm)
         then Inr (if SM_MERGE \<in> set flags
                   then (merged sm (max_locals f) f)
                          \<lparr>need_initialization := if initializer then needs_init sm
                                                 else need_initialization f\<rparr>
                   else f)
         else Inl err)"
proof -
  let ?m = "ve_method env" and ?sms = "m_stackmaps (ve_method env)"
  have d: "denotes ?sms (lookup_stackmap env ?sms bci) (stackmap_at ?sms bci)"
    using assms(1,4,5) by (simp add: env_ok_def)
  have f: "max_stack f = m_max_stack ?m" "max_locals f = m_max_locals ?m" "stackmaps f = ?sms"
    using assms(2) by (simp_all add: frame_of_def)
  show ?thesis
  proof (cases "stackmap_at ?sms bci")
    case None
    with d show ?thesis by (simp add: check_stackmap_match_def f denotes_def)
  next
    case (Some sm)
    with d obtain k where k: "lookup_stackmap env ?sms bci = 2 * int k" "?sms ! k = sm"
      by (auto simp: denotes_def)
    have "wf_stackmap (max_stack f) (max_locals f) (m_code_size ?m) sm"
      using assms(1) stackmap_at_SomeD [OF Some] by (simp add: env_ok_def f list_all_iff)
    note match = match_stackmap_result [OF this assms(3), of env flags err, OF f(2) [symmetric]]
    have "nat (2 * int k) div 2 = k" by (simp add: nat_mult_distrib)
    with k have "check_stackmap_match env bci flags err f = match_stackmap env flags err sm f"
      by (simp add: check_stackmap_match_def f(3))
    then show ?thesis by (simp add: match Some)
  qed
qed

end
