(* ===== verification/Call_Operands.thy ===== *)
theory Call_Operands
  imports Bytecode_Visitor
begin

text \<open>
  The operands of the calls that the visitor makes: the bytecodes that a branch can go
  to fit a \<open>jint\<close>, and the constant pool index of a call is a 16 bit number, whatever
  the bytes of the code are.
\<close>

section \<open>The operands\<close>

definition branch_targets :: "code_mem \<Rightarrow> int \<Rightarrow> closure_call \<Rightarrow> int set" where
  "branch_targets m bci c =
     (case c of
        Branch d \<Rightarrow> {d}
      | Branch_if _ d \<Rightarrow> {d}
      | Branch_if_icmp _ d \<Rightarrow> {d}
      | Branch_if_acmp _ d \<Rightarrow> {d}
      | Table_switch i d low high \<Rightarrow>
          insert d ((\<lambda>k. jint (bci + get_java_switch_int m (i + 12 + 4 * k))) ` {0..jint (high - low)})
      | Lookup_switch i d n \<Rightarrow>
          insert d ((\<lambda>k. jint (bci + get_java_switch_int m (i + 8 + 8 * k + 4))) ` {0..n - 1})
      | _ \<Rightarrow> {})"

definition pool_index_ok :: "closure_call \<Rightarrow> bool" where
  "pool_index_ok c =
     (case c of
        Invoke_interface i _ \<Rightarrow> 0 \<le> i \<and> i \<le> 65535
      | Invoke_special i \<Rightarrow> 0 \<le> i \<and> i \<le> 65535
      | Invoke_static i \<Rightarrow> 0 \<le> i \<and> i \<le> 65535
      | Invoke_virtual i \<Rightarrow> 0 \<le> i \<and> i \<le> 65535
      | _ \<Rightarrow> True)"

definition operands_fit :: "code_mem \<Rightarrow> int \<Rightarrow> closure_call \<Rightarrow> bool" where
  "operands_fit m bci c =
     ((\<forall>t \<in> branch_targets m bci c. jint_min \<le> t \<and> t \<le> jint_max) \<and> pool_index_ok c)"

lemmas operand_defs = operands_fit_def branch_targets_def pool_index_ok_def get_java_ushort_range

lemmas push_constant_defs = iterate_push_constant_1_def iterate_push_constant_2_def

section \<open>The groups of the switch\<close>

lemma switch_fits:
  "operands_fit m bci (Table_switch i (jint d) low high)" "operands_fit m bci (Lookup_switch i (jint d) n)"
  by (auto simp: operand_defs jint_range)

lemma decode_local_fits: "decode_loads_stores m cp bci code = Some c \<Longrightarrow> operands_fit m bci c"
  by (auto simp: decode_loads_stores_def push_constant_defs operand_defs
      split: if_splits cp_entry.splits)

lemma decode_array_fits: "decode_arrays_stack m bci code = Some c \<Longrightarrow> operands_fit m bci c"
  by (auto simp: decode_arrays_stack_def operand_defs split: if_splits)

lemma decode_other_fits:
  "decode_arithmetic code = Some c \<Longrightarrow> operands_fit m bci c"
  "decode_objects m bci code = Some c \<Longrightarrow> operands_fit m bci c"
  "operands_fit m bci (decode_wide m bci)"
  by (auto simp: decode_arithmetic_def decode_objects_def decode_wide_def operand_defs Let_def
      split: if_splits prod.splits)

lemma decode_fast_fits:
  "decode_fast_fields m cp bci code = Some c \<Longrightarrow> operands_fit m bci c"
  "decode_fast_invokes m bci code = Some cs \<Longrightarrow> c \<in> set cs \<Longrightarrow> operands_fit m bci c"
  by (auto simp: decode_fast_fields_def decode_fast_invokes_def Let_def
      push_constant_defs operand_defs split: if_splits cp_entry.splits)

lemma decode_branch_fits:
  assumes "0 \<le> bci" "bci \<le> 65535"
  shows "decode_control m bci code = Some c \<Longrightarrow> operands_fit m bci c"
    "decode_common m cp bci code = Some c \<Longrightarrow> operands_fit m bci c"
    "decode_switches m bci code = Some c \<Longrightarrow> operands_fit m bci c"
proof -
  have short: "jint_min \<le> bci + get_java_short m i" "bci + get_java_short m i \<le> jint_max" for i
    using assms get_java_short_range [of m i] by simp_all
  show "decode_control m bci code = Some c \<Longrightarrow> operands_fit m bci c"
    by (auto simp: decode_control_def operand_defs branch_destination_def short
        jint_range split: if_splits prod.splits)
  show "decode_common m cp bci code = Some c \<Longrightarrow> operands_fit m bci c"
    by (auto simp: decode_common_def operand_defs branch_destination_def short
        push_constant_defs split: if_splits cp_entry.splits)
  show "decode_switches m bci code = Some c \<Longrightarrow> operands_fit m bci c"
    by (auto simp: decode_switches_def Let_def switch_fits split: if_splits)
qed

lemma expand_call_fits: "c \<in> set (expand_call m bci d) \<Longrightarrow> operands_fit m bci d \<Longrightarrow> operands_fit m bci c"
  by (auto simp: expand_call_def aload_0_fast_get_field_1_def aload_0_fast_get_field_n_def Let_def
      operand_defs split: closure_call.splits)

lemma iterate_calls_fit:
  assumes "0 \<le> bci" "bci \<le> 65535" "c \<in> set (iterate_calls m cp bci)"
  shows "operands_fit m bci c"
proof -
  from assms(3) obtain d where d: "d \<in> set (decode_bytecode m cp bci (bytecode_at m bci))"
    "c \<in> set (expand_call m bci d)" by (auto simp: iterate_calls_def)
  have "operands_fit m bci Illegal_code" by (simp add: operand_defs)
  with d(1) have "operands_fit m bci d"
    by (auto simp: decode_bytecode_def intro: decode_branch_fits [OF assms(1,2)] decode_local_fits
        decode_array_fits decode_other_fits decode_fast_fits split: option.splits if_splits)
  with d(2) show ?thesis by (rule expand_call_fits)
qed

end
