(* ===== verification/Handler_Invariant.thy ===== *)
theory Handler_Invariant
  imports Stackmap_Match Call_Operands
begin

text \<open>
  The handlers of the verifier keep the invariant of the frame.  For the typed stack
  operations the effect on the words of the stack is given exactly; an operation made of
  others keeps the invariant by the rules for \<open>keeps\<close>.
\<close>

declare paired.simps [simp del] paired_single [simp del]


lemma paired_Nil [simp]: "paired []"
  by (simp add: paired.simps)


section \<open>Typed words\<close>

text \<open>The words that a value of a basic type occupies.\<close>

fun words_of :: "basic_type \<Rightarrow> tag list" where
  "words_of T_LONG = [ITEM_Long, ITEM_Long_2]"
| "words_of T_DOUBLE = [ITEM_Double, ITEM_Double_2]"
| "words_of T_FLOAT = [ITEM_Float]"
| "words_of T_VOID = []"
| "words_of T_OBJECT = [ITEM_Object]"
| "words_of T_ARRAY = [ITEM_Object]"
| "words_of _ = [ITEM_Integer]"

definition plain_words :: "basic_type \<Rightarrow> vword list" where
  "plain_words kind = map (\<lambda>t. (t, None)) (words_of kind)"

lemma push2_effect:
  assumes "jvm_check (push_category1 t c f) (push_category1 t' c') = Inr f'" "frame_sizes f"
  shows "stack_effect f (stack_words f @ [(t, c), (t', c')]) f'"
proof -
  from assms(1) obtain g where g: "push_category1 t c f = Inr g" "push_category1 t' c' g = Inr f'"
    by (auto simp: jvm_check_Inr_iff)
  from push_category1_effect [OF g(1) assms(2)] have 1: "stack_effect f (stack_words f @ [(t, c)]) g" .
  then have "frame_sizes g" by (simp add: stack_effect_def)
  from push_category1_effect [OF g(2) this] 1 show ?thesis
    by (auto simp: stack_effect_def intro: same_rest_trans)
qed

lemma stack_effect_refl: "frame_sizes f \<Longrightarrow> stack_effect f (stack_words f) f"
  by (simp add: stack_effect_def)

lemma v_push_effect:
  "v_push kind f = Inr f' \<Longrightarrow> frame_sizes f \<Longrightarrow> stack_effect f (stack_words f @ plain_words kind) f'"
  by (cases kind) (auto simp: push_integer_def v_push_long_def v_push_double_def plain_words_def
      stack_effect_refl intro: push_category1_effect push2_effect)

lemma v_push_kind: "v_push kind f = Inr f' \<Longrightarrow> kind \<noteq> T_OBJECT \<and> kind \<noteq> T_ARRAY"
  by (cases kind) auto

lemma pop2_effect:
  assumes "jvm_check (frame_pop t' f) (frame_pop t) = Inr f'" "frame_sizes f"
  shows "stack_effect f (stack_words f') f' \<and>
    (\<exists>ws. stack_words f = stack_words f' @ ws \<and> map fst ws = [t, t'])"
proof -
  from assms(1) obtain g where g: "frame_pop t' f = Inr g" "frame_pop t g = Inr f'"
    by (auto simp: jvm_check_Inr_iff)
  from frame_pop_effect [OF g(1) assms(2)] obtain c' where 1: "stack_effect f (stack_words g) g"
    "stack_words f = stack_words g @ [(t', c')]" by blast
  then have "frame_sizes g" by (simp add: stack_effect_def)
  from frame_pop_effect [OF g(2) this] obtain c where 2: "stack_effect g (stack_words f') f'"
    "stack_words g = stack_words f' @ [(t, c)]" by blast
  have "stack_words f = stack_words f' @ [(t, c), (t', c')]" using 1(2) 2(2) by simp
  moreover have "stack_effect f (stack_words f') f'"
    using 1(1) 2(1) by (auto simp: stack_effect_def intro: same_rest_trans)
  ultimately show ?thesis by auto
qed

lemma frame_pop_words:
  "frame_pop t f = Inr f' \<Longrightarrow> frame_sizes f \<Longrightarrow> stack_effect f (stack_words f') f' \<and>
    (\<exists>ws. stack_words f = stack_words f' @ ws \<and> map fst ws = [t])"
  using frame_pop_effect by fastforce

lemma v_pop_effect:
  "v_pop kind f = Inr f' \<Longrightarrow> frame_sizes f \<Longrightarrow> stack_effect f (stack_words f') f' \<and>
     (\<exists>ws. stack_words f = stack_words f' @ ws \<and> map fst ws = words_of kind)"
  using frame_pop_words [of _ f f'] pop2_effect [of _ f _ f']
  by (cases kind) (simp_all add: pop_integer_def stack_effect_def)


section \<open>Keeping the invariant\<close>

text \<open>What no operation changes.\<close>

definition same_method :: "verifier_frame \<Rightarrow> verifier_frame \<Rightarrow> bool" where
  "same_method f f' =
     (max_stack f' = max_stack f \<and> max_locals f' = max_locals f \<and> stackmaps f' = stackmaps f)"

lemma same_method_refl [simp]: "same_method f f" by (simp add: same_method_def)
lemma same_method_trans: "same_method f g \<Longrightarrow> same_method g h \<Longrightarrow> same_method f h"
  by (simp add: same_method_def)
lemma same_rest_method: "same_rest f f' \<Longrightarrow> same_method f f'"
  by (simp add: same_method_def same_rest_def)

definition keeps :: "verifier_frame \<Rightarrow> verifier_frame \<Rightarrow> bool" where
  "keeps f f' = (frame_ok f \<longrightarrow> frame_ok f' \<and> same_method f f')"

lemma keeps_refl [simp, intro]: "keeps f f" by (simp add: keeps_def)

lemma keeps_trans: "keeps f g \<Longrightarrow> keeps g h \<Longrightarrow> keeps f h"
  by (auto simp: keeps_def intro: same_method_trans)

lemma stack_effect_keeps:
  "(frame_ok f \<Longrightarrow> stack_effect f ws f' \<and> paired ws) \<Longrightarrow> keeps f f'"
  using stack_effect_ok same_rest_method by (auto simp: keeps_def stack_effect_def)

lemma frame_okD: "frame_ok f \<Longrightarrow> frame_sizes f" "frame_ok f \<Longrightarrow> paired (stack_words f)"
  by (simp_all add: frame_ok_def)

lemma push_keeps:
  "push_category1 t c f = Inr f' \<Longrightarrow> \<not> first_half t \<Longrightarrow> \<not> second_half t \<Longrightarrow>
     (t = ITEM_Object \<longrightarrow> c \<noteq> None) \<Longrightarrow> keeps f f'"
  by (rule stack_effect_keeps [where ws = "stack_words f @ [(t, c)]"])
    (auto intro!: push_category1_effect paired_append simp: paired_single dest: frame_okD)

lemma plain_words_paired: "kind \<noteq> T_OBJECT \<Longrightarrow> kind \<noteq> T_ARRAY \<Longrightarrow> paired (plain_words kind)"
  by (cases kind) (simp_all add: paired.simps plain_words_def first_half_def second_half_def half_of_def)

lemma v_push_keeps: "v_push kind f = Inr f' \<Longrightarrow> keeps f f'"
  by (rule stack_effect_keeps [where ws = "stack_words f @ plain_words kind"])
    (auto intro!: v_push_effect paired_append plain_words_paired dest: frame_okD v_push_kind)

lemma paired_pop:
  assumes "paired (xs @ ws)" "ws = [] \<or> \<not> second_half (fst (hd ws))"
  shows "paired xs \<and> paired ws"
proof (cases ws)
  case (Cons w ws')
  obtain t c where "w = (t, c)" by (cases w)
  with assms Cons show ?thesis using paired_split [of xs t c ws'] by simp
qed (use assms in simp)

lemma words_of_start: "map fst ws = words_of kind \<Longrightarrow> ws = [] \<or> \<not> second_half (fst (hd ws))"
  by (cases kind; cases ws) (auto simp: second_half_def)

lemma v_pop_keeps:
  assumes "v_pop kind f = Inr f'"
  shows "keeps f f'"
proof (rule stack_effect_keeps [where ws = "stack_words f'"])
  assume f: "frame_ok f"
  from v_pop_effect [OF assms frame_okD(1) [OF f]] obtain ws
    where "stack_effect f (stack_words f') f'" "stack_words f = stack_words f' @ ws"
      "map fst ws = words_of kind" by blast
  with paired_pop [of "stack_words f'" ws] words_of_start frame_okD(2) [OF f]
  show "stack_effect f (stack_words f') f' \<and> paired (stack_words f')" by auto
qed

lemma pop_category1_keeps:
  assumes "pop_category1 f = Inr (t, c, f')"
  shows "keeps f f'" "frame_ok f \<Longrightarrow> \<not> first_half t \<and> \<not> second_half t \<and> (t = ITEM_Object \<longrightarrow> c \<noteq> None)"
proof -
  have *: "frame_ok f' \<and> same_rest f f' \<and> paired [(t, c)]" if f: "frame_ok f"
  proof -
    note e = pop_category1_effect [OF assms frame_okD(1) [OF f]]
    have "paired (stack_words f') \<and> paired [(t, c)]"
      using paired_split [of "stack_words f'" t c "[]"] e frame_okD(2) [OF f]
      by simp
    then show ?thesis using stack_effect_ok [OF e(1) f] e(1) by (simp add: stack_effect_def)
  qed
  then show "keeps f f'" by (auto simp: keeps_def intro: same_rest_method)
  show "frame_ok f \<Longrightarrow> \<not> first_half t \<and> \<not> second_half t \<and> (t = ITEM_Object \<longrightarrow> c \<noteq> None)"
    using * by (simp add: paired_single)
qed

lemma frame_pop_keeps:
  assumes "frame_pop t f = Inr f'" "\<not> second_half t"
  shows "keeps f f'"
proof (rule stack_effect_keeps [where ws = "stack_words f'"])
  assume f: "frame_ok f"
  from frame_pop_effect [OF assms(1) frame_okD(1) [OF f]] obtain c
    where "stack_effect f (stack_words f') f'" "stack_words f = stack_words f' @ [(t, c)]" by blast
  with paired_split [of "stack_words f'" t c "[]"] assms(2) frame_okD(2) [OF f]
  show "stack_effect f (stack_words f') f' \<and> paired (stack_words f')" by simp
qed

lemma pop_ref_keeps:
  assumes "pop_ref f = Inr (t, c, f')"
  shows "keeps f f'" "is_reference_tag t" "frame_ok f \<Longrightarrow> t = ITEM_Object \<longrightarrow> c \<noteq> None"
  using assms pop_category1_keeps [of f t c f']
  by (auto simp: pop_ref_def jvm_check_Inr_iff split: if_splits)

lemma pop_object_keeps: "pop_object vm name f = Inr f' \<Longrightarrow> keeps f f'"
  by (auto simp: pop_object_def jvm_check_Inr_iff split: if_splits dest: pop_category1_keeps)

lemma moves_keeps: "vs.moves f old new f' \<Longrightarrow> frame_ok f \<Longrightarrow> keeps f f'"
  by (auto simp: vs.moves_def vs.reached_def keeps_def intro: same_rest_method)

section \<open>Locals\<close>

lemma half_of_not_first [simp]: "\<not> first_half (half_of t)"
  by (simp add: first_half_def half_of_def)

lemma keeps_assume: "(frame_ok f \<Longrightarrow> keeps f f') \<Longrightarrow> keeps f f'"
  by (simp add: keeps_def)

lemma vlocals_put_simps [simp]:
  "stack_words (vlocals_put i t c f) = stack_words f"
  "vlocals_tags (vlocals_put i t c f) = (vlocals_tags f)[i := t]"
  "vlocals_classes (vlocals_put i t c f) = (vlocals_classes f)[i := c]"
  "max_locals (vlocals_put i t c f) = max_locals f" "max_stack (vlocals_put i t c f) = max_stack f"
  "stackmaps (vlocals_put i t c f) = stackmaps f" "frame_sizes (vlocals_put i t c f) = frame_sizes f"
  by (simp_all add: vlocals_put_def stack_words_def frame_sizes_def)

lemma bogify_simps [simp]:
  "stack_words (bogify_surrounding_doublewords i f) = stack_words f"
  "vlocals_classes (bogify_surrounding_doublewords i f) = vlocals_classes f"
  "max_locals (bogify_surrounding_doublewords i f) = max_locals f"
  "max_stack (bogify_surrounding_doublewords i f) = max_stack f"
  "stackmaps (bogify_surrounding_doublewords i f) = stackmaps f"
  "frame_sizes (bogify_surrounding_doublewords i f) = frame_sizes f"
  by (simp_all add: bogify_surrounding_doublewords_def stack_words_def frame_sizes_def)

lemma bogify_tags:
  "vlocals_tags (bogify_surrounding_doublewords i f) =
     (if 1 \<le> i \<and> first_half (vlocals_tags f ! (i - 1)) then (vlocals_tags f)[i - 1 := ITEM_Bogus]
      else vlocals_tags f)"
  by (auto simp: bogify_surrounding_doublewords_def first_half_def)

text \<open>Overwriting a run of words and making the word before it bogus when it was a first
  half leaves the locals well formed.\<close>

lemma locals_ok_put1:
  assumes "locals_ok f" "frame_sizes f" "i < max_locals f" "\<not> first_half t" "t = ITEM_Object \<longrightarrow> c \<noteq> None"
  shows "locals_ok (bogify_surrounding_doublewords i (vlocals_put i t c f))"
  unfolding locals_ok_def bogify_tags bogify_simps vlocals_put_simps
proof (intro allI impI, goal_cases)
  case (1 j)
  have len: "max_locals f \<le> length (vlocals_tags f)" "length (vlocals_classes f) = length (vlocals_tags f)"
    using assms(2) by (simp_all add: frame_sizes_def)
  consider "j = i" | "j + 1 = i" | "j \<noteq> i" "j + 1 \<noteq> i" by blast
  then show ?case
  proof cases
    case 1
    then show ?thesis using assms(3-5) len by (auto simp: first_half_def nth_list_update)
  next
    case 2
    then show ?thesis using assms(1,3) len unfolding locals_ok_def
      by (auto simp: nth_list_update first_half_def)
  next
    case 3
    then show ?thesis using assms(1,3) 1 len unfolding locals_ok_def
      by (auto simp: nth_list_update)
  qed
qed

lemma locals_ok_put2:
  assumes "locals_ok f" "frame_sizes f" "i + 1 < max_locals f" "first_half t"
  shows "locals_ok (bogify_surrounding_doublewords i
    (vlocals_put (i + 1) (half_of t) None (vlocals_put i t None f)))"
  unfolding locals_ok_def bogify_tags bogify_simps vlocals_put_simps
proof (intro allI impI, goal_cases)
  case (1 j)
  have len: "max_locals f \<le> length (vlocals_tags f)" "length (vlocals_classes f) = length (vlocals_tags f)"
    using assms(2) by (simp_all add: frame_sizes_def)
  have h: "\<not> first_half (half_of t)" "half_of t \<noteq> ITEM_Object" "t \<noteq> ITEM_Object"
    using assms(4) by (auto simp: first_half_def half_of_def)
  consider "j = i" | "j = i + 1" | "j + 1 = i" | "j \<noteq> i" "j \<noteq> i + 1" "j + 1 \<noteq> i" by blast
  then show ?case
  proof cases
    case 3
    then show ?thesis using assms(1,3) len unfolding locals_ok_def
      by (auto simp: nth_list_update first_half_def)
  next
    case 4
    then show ?thesis using assms(1,3) 1 len unfolding locals_ok_def
      by (auto simp: nth_list_update)
  qed (use assms(3) h len in \<open>auto simp: nth_list_update\<close>)
qed

lemma set_local_keeps:
  "frame_set_local i t f = Inr f' \<Longrightarrow> \<not> first_half t \<Longrightarrow> t \<noteq> ITEM_Object \<Longrightarrow> keeps f f'"
  by (auto simp: frame_set_local_def keeps_def frame_ok_def same_method_def locals_ok_put1 split: if_splits)

lemma set_local2_keeps:
  "frame_set_local2 i t f = Inr f' \<Longrightarrow> first_half t \<Longrightarrow> keeps f f'"
  using locals_ok_put2 [of f "nat i" t]
  by (auto simp: frame_set_local2_def keeps_def frame_ok_def same_method_def half_of_def
      first_half_def split: if_splits)

lemma set_local_ref_keeps:
  "set_local_ref i t c f = Inr f' \<Longrightarrow> \<not> first_half t \<Longrightarrow> (t = ITEM_Object \<Longrightarrow> frame_ok f \<Longrightarrow> c \<noteq> None) \<Longrightarrow>
     keeps f f'"
  by (auto simp: set_local_ref_def keeps_def frame_ok_def same_method_def locals_ok_put1 split: if_splits)

lemma v_set_local_keeps: "v_set_local i kind f = Inr f' \<Longrightarrow> keeps f f'"
  by (cases kind) (auto simp: first_half_def intro: set_local_keeps set_local2_keeps)

lemma check_local_same:
  "frame_check_local i t f = Inr f' \<Longrightarrow> f' = f" "frame_check_local2 i t f = Inr f' \<Longrightarrow> f' = f"
  by (auto simp: frame_check_local_def frame_check_local2_def split: if_splits)

lemma v_check_local_same: "v_check_local i kind f = Inr f' \<Longrightarrow> f' = f"
  by (cases kind) (auto dest: check_local_same)

lemma reference_tag_no_half: "is_reference_tag t \<Longrightarrow> \<not> first_half t \<and> \<not> second_half t"
  using is_newobject_small by (auto simp: is_reference_tag_def first_half_def second_half_def)

lemma check_local_ref_result:
  "check_local_ref i f = Inr (t, c) \<Longrightarrow> is_reference_tag t"
  "check_local_ref i f = Inr (t, c) \<Longrightarrow> frame_ok f \<Longrightarrow> t = ITEM_Object \<longrightarrow> c \<noteq> None"
  by (auto simp: check_local_ref_def is_reference_tag_def frame_ok_def locals_ok_def Let_def split: if_splits)


section \<open>Loads, stores, arrays and the stack\<close>

lemma load_local_keeps:
  assumes "load_local kind i f = Inr f'"
  shows "keeps f f'"
proof (cases "kind = T_OBJECT")
  case True
  with assms obtain t c where "check_local_ref i f = Inr (t, c)" "push_category1 t c f = Inr f'"
    by (auto simp: load_local_def jvm_check_Inr_iff)
  then show ?thesis
    using check_local_ref_result [of i f t c] reference_tag_no_half push_keeps [of t c f f']
    by (auto intro: keeps_assume)
next
  case False
  with assms show ?thesis
    by (auto simp: load_local_def jvm_check_Inr_iff dest!: v_check_local_same intro: v_push_keeps)
qed

lemma store_local_keeps: "store_local kind i f = Inr f' \<Longrightarrow> keeps f f'"
proof (cases "kind = T_OBJECT")
  case True
  assume "store_local kind i f = Inr f'"
  with True obtain t c g where g: "pop_ref f = Inr (t, c, g)" "set_local_ref i t c g = Inr f'"
    by (auto simp: store_local_def jvm_check_Inr_iff)
  note p = pop_ref_keeps [OF g(1)]
  show ?thesis
  proof (cases "frame_ok f")
    case True
    with p g(2) show ?thesis
      by (intro keeps_trans [OF p(1)] set_local_ref_keeps [OF g(2)]) (auto dest: reference_tag_no_half)
  qed (simp add: keeps_def)
next
  case False
  assume "store_local kind i f = Inr f'"
  with False show ?thesis
    by (auto simp: store_local_def jvm_check_Inr_iff intro: keeps_trans v_pop_keeps v_set_local_keeps)
qed

lemma push_plain_keeps:
  "push_category1 t c f = Inr f' \<Longrightarrow> t \<in> {ITEM_Integer, ITEM_Float, ITEM_Null} \<Longrightarrow> keeps f f'"
  "push_category1 ITEM_Object (Some s) f = Inr f' \<Longrightarrow> keeps f f'"
  by (erule push_keeps; auto simp: first_half_def second_half_def)+

lemma pop_integer_keeps: "pop_integer f = Inr f' \<Longrightarrow> keeps f f'"
  unfolding pop_integer_def by (erule frame_pop_keeps) (simp add: second_half_def)

lemma push_integer_keeps: "push_integer f = Inr f' \<Longrightarrow> keeps f f'"
  unfolding push_integer_def by (erule push_plain_keeps) simp

section \<open>The stack instructions move words\<close>

lemma vm_pop_moves: "frame_ok f \<Longrightarrow> vm_pop f = Inr f' \<Longrightarrow> \<exists>v. vs.moves f [v] [] f'"
  by (rule vs.drop_moves) (simp_all add: vm_pop_def jvm_check_assoc case_prod_unfold)

lemma vm_pop2_moves: "frame_ok f \<Longrightarrow> vm_pop2 f = Inr f' \<Longrightarrow> \<exists>v w. vs.moves f [v, w] [] f'"
  by (rule vs.drop2_moves) (simp_all add: vm_pop2_def jvm_check_assoc case_prod_unfold)

lemma vm_dup_moves: "frame_ok f \<Longrightarrow> vm_dup f = Inr f' \<Longrightarrow> \<exists>v. vs.moves f [v] [v, v] f'"
  by (rule vs.dup_moves) (simp_all add: vm_dup_def jvm_check_assoc case_prod_unfold)

lemma vm_swap_moves: "frame_ok f \<Longrightarrow> vm_swap f = Inr f' \<Longrightarrow> \<exists>v w. vs.moves f [w, v] [v, w] f'"
  by (rule vs.swap_moves) (simp_all add: vm_swap_def jvm_check_assoc case_prod_unfold)

lemma vm_dup_x1_moves: "frame_ok f \<Longrightarrow> vm_dup_x1 f = Inr f' \<Longrightarrow> \<exists>v w. vs.moves f [w, v] [v, w, v] f'"
  by (rule vs.dup_x1_moves) (simp_all add: vm_dup_x1_def jvm_check_assoc case_prod_unfold)

lemma vm_dup2_moves: "frame_ok f \<Longrightarrow> vm_dup2 f = Inr f' \<Longrightarrow> \<exists>v w. vs.moves f [v, w] [v, w, v, w] f'"
  by (rule vs.dup2_moves) (simp_all add: vm_dup2_def jvm_check_assoc case_prod_unfold)

lemma vm_dup2_x1_moves:
  "frame_ok f \<Longrightarrow> vm_dup2_x1 f = Inr f' \<Longrightarrow> \<exists>v w x. vs.moves f [x, v, w] [v, w, x, v, w] f'"
  by (rule vs.dup2_x1_moves) (simp_all add: vm_dup2_x1_def jvm_check_assoc case_prod_unfold)

lemma vm_dup_x2_moves:
  "frame_ok f \<Longrightarrow> vm_dup_x2 f = Inr f' \<Longrightarrow> \<exists>v x y. vs.moves f [x, y, v] [v, x, y, v] f'"
  by (rule vs.dup_x2_moves) (simp_all add: vm_dup_x2_def jvm_check_assoc case_prod_unfold)

lemma vm_dup2_x2_moves:
  "frame_ok f \<Longrightarrow> vm_dup2_x2 f = Inr f' \<Longrightarrow>
     \<exists>v w x y. vs.moves f [x, y, v, w] [v, w, x, y, v, w] f'"
  by (rule vs.dup2_x2_moves) (simp_all add: vm_dup2_x2_def jvm_check_assoc case_prod_unfold)

lemmas stack_moves = vm_pop_moves vm_pop2_moves vm_dup_moves vm_swap_moves vm_dup_x1_moves
  vm_dup2_moves vm_dup2_x1_moves vm_dup_x2_moves vm_dup2_x2_moves

lemma stack_instruction_keeps:
  "vm_pop f = Inr f' \<or> vm_pop2 f = Inr f' \<or> vm_dup f = Inr f' \<or> vm_swap f = Inr f' \<or>
   vm_dup_x1 f = Inr f' \<or> vm_dup2 f = Inr f' \<or> vm_dup2_x1 f = Inr f' \<or> vm_dup_x2 f = Inr f' \<or>
   vm_dup2_x2 f = Inr f' \<Longrightarrow> keeps f f'"
  by (rule keeps_assume, elim disjE; drule (1) stack_moves [rotated]; blast dest: moves_keeps)

section \<open>Arrays, arithmetic and branches\<close>

lemma push_tag_keeps:
  "push_category1 ITEM_Null c f = Inr f' \<Longrightarrow> keeps f f'"
  "push_category1 ITEM_Float c f = Inr f' \<Longrightarrow> keeps f f'"
  by (erule push_plain_keeps; simp)+

text \<open>From the results of the operations to a chain of frames.\<close>

lemmas keeps_dest = pop_ref_keeps(1) pop_integer_keeps push_integer_keeps push_tag_keeps
  push_plain_keeps(2) v_pop_keeps v_push_keeps pop_object_keeps

lemma keeps_trans3: "keeps f g \<Longrightarrow> keeps g h \<Longrightarrow> keeps h k \<Longrightarrow> keeps f k"
  by (blast intro: keeps_trans)

lemma pop_array_of_keeps: "pop_array_of vm kind f = Inr f' \<Longrightarrow> keeps f f'"
  by (auto simp: pop_array_of_def jvm_check_Inr_iff split: if_splits java_class.splits dest: pop_ref_keeps)

lemma array_length_keeps: "array_length vm f = Inr f' \<Longrightarrow> keeps f f'"
  by (auto simp: array_length_def jvm_check_Inr_iff split: if_splits
      dest!: keeps_dest intro: keeps_trans)

lemma load_array_keeps: "load_array vm kind f = Inr f' \<Longrightarrow> keeps f f'"
  unfolding load_array_def
  by (auto simp: jvm_check_Inr_iff split: if_splits option.splits
      dest!: keeps_dest pop_array_of_keeps intro: keeps_trans3)

lemma store_array_keeps: "store_array vm kind f = Inr f' \<Longrightarrow> keeps f f'"
  unfolding store_array_def
  by (auto simp: jvm_check_Inr_iff split: if_splits
      dest!: keeps_dest pop_array_of_keeps intro: keeps_trans3)

lemma arithmetic_keeps:
  "vm_neg kind f = Inr f' \<Longrightarrow> keeps f f'"
  "vm_binary kind op f = Inr f' \<Longrightarrow> keeps f f'"
  "vm_convert from to f = Inr f' \<Longrightarrow> keeps f f'"
  "vm_compare kind f = Inr f' \<Longrightarrow> keeps f f'"
  unfolding vm_neg_def vm_binary_def vm_convert_def vm_compare_def
  by (auto simp: jvm_check_Inr_iff dest!: keeps_dest intro: keeps_trans keeps_trans3 split: if_splits)

lemma drop_ref_keeps: "drop_ref f = Inr f' \<Longrightarrow> keeps f f'"
  by (auto simp: drop_ref_def jvm_check_Inr_iff dest: pop_ref_keeps(1))

text \<open>A check without a merge leaves the frame as it is.\<close>

lemma match_stackmap_same:
  "SM_MERGE \<notin> set flags \<Longrightarrow> match_stackmap env flags err sm f = Inr f' \<Longrightarrow> f' = f"
  by (auto simp: match_stackmap_def match_locals_loop match_stack_loop jvm_check_Inr_iff Let_def
      split: if_splits)

lemma check_target_same:
  "check_branch_target env bci f = Inr f' \<Longrightarrow> f' = f"
  "check_handler_target env bci f = Inr f' \<Longrightarrow> f' = f"
  by (auto simp: check_branch_target_def check_handler_target_def check_stackmap_match_def Let_def
      dest: match_stackmap_same [rotated] split: if_splits)

lemma branch_keeps:
  "branch_if env cond dest f = Inr f' \<Longrightarrow> keeps f f'"
  "branch_if_icmp env dest f = Inr f' \<Longrightarrow> keeps f f'"
  "branch_if_acmp env dest f = Inr f' \<Longrightarrow> keeps f f'"
  unfolding branch_if_def branch_if_icmp_def branch_if_acmp_def
  by (auto simp: jvm_check_Inr_iff dest!: check_target_same keeps_dest drop_ref_keeps split: if_splits
      intro: keeps_trans)

text \<open>The checks of a switch only look at the frame that is left when the key is popped.\<close>

lemma table_switch_pops: "table_switch env bci i d low high f = Inr f' \<Longrightarrow> pop_integer f = Inr f'"
proof -
  assume "table_switch env bci i d low high f = Inr f'"
  then obtain g where g: "pop_integer f = Inr g" "jvm_fold (\<lambda>i' f.
      check_branch_target env (jint (bci + get_java_switch_int (m_code (ve_method env)) (i + 12 + 4 * i'))) f)
      [0..jint (high - low)] g = Inr f'"
    by (auto simp: table_switch_def Let_def jvm_check_Inr_iff dest!: check_target_same)
  have "f' = g"
    by (rule jvm_fold_inv [OF g(2), where P = "\<lambda>x. x = g"]) (auto dest: check_target_same)
  with g(1) show ?thesis by simp
qed

lemma lookup_switch_pops: "lookup_switch env bci i d n f = Inr f' \<Longrightarrow> pop_integer f = Inr f'"
proof -
  assume "lookup_switch env bci i d n f = Inr f'"
  then obtain g k where g: "pop_integer f = Inr g"
      "jvm_fold (lookup_switch_pair env bci i) [0..n - 1] (0, g) = Inr (k, f')"
    by (auto simp: lookup_switch_def jvm_check_Inr_iff dest!: check_target_same)
  have "snd (k, f') = g"
    by (rule jvm_fold_inv [OF g(2), where P = "\<lambda>x. snd x = g"])
      (auto simp: lookup_switch_pair_def Let_def jvm_check_Inr_iff dest!: check_target_same split: if_splits)
  with g(1) show ?thesis by simp
qed

lemma switch_keeps:
  "table_switch env bci i d low high f = Inr f' \<Longrightarrow> keeps f f'"
  "lookup_switch env bci i d n f = Inr f' \<Longrightarrow> keeps f f'"
  by (auto dest!: table_switch_pops lookup_switch_pops intro: pop_integer_keeps)

lemma return_op_keeps: "return_op env kind f = Inr f' \<Longrightarrow> keeps f f'"
  by (auto simp: return_op_def Let_def split: prod.splits if_splits dest!: keeps_dest)


section \<open>Fields and calls\<close>

lemma push_ref_keeps:
  "push_category1 t c f = Inr f' \<Longrightarrow> is_reference_tag t \<Longrightarrow> (t = ITEM_Object \<Longrightarrow> frame_ok f \<Longrightarrow> c \<noteq> None) \<Longrightarrow>
     keeps f f'"
  by (rule keeps_assume, rule push_keeps) (auto dest: reference_tag_no_half)

lemma pop_put_receiver_keeps: "pop_put_receiver env fn ft fk tn f = Inr f' \<Longrightarrow> keeps f f'"
proof -
  assume a: "pop_put_receiver env fn ft fk tn f = Inr f'"
  obtain kind name g where g: "pop_ref f = Inr (kind, name, g)"
    using a by (auto simp: pop_put_receiver_def jvm_check_Inr_iff)
  define b where "b = (kind = ITEM_InitObject \<and> sym_equals (class_name (m_holder (ve_method env))) fk \<and>
    declares_field (m_holder (ve_method env)) fn ft)"
  define t where "t = (if b then ITEM_Object else kind)"
  define c where "c = (if b then Some (class_name (m_holder (ve_method env))) else name)"
  have "(if b then (ITEM_Object, Some (class_name (m_holder (ve_method env)))) else (kind, name)) = (t, c)"
    by (simp add: t_def c_def)
  with a g obtain h where h: "push_category1 t c g = Inr h" "pop_object (ve_vm env) tn h = Inr f'"
    unfolding pop_put_receiver_def by (auto simp: jvm_check_Inr_iff Let_def b_def)
  note p = pop_ref_keeps [OF g]
  have "keeps f h"
  proof (rule keeps_assume)
    assume f: "frame_ok f"
    have "keeps g h" using p(2,3) f
      by (intro push_ref_keeps [OF h(1)]) (auto simp: t_def c_def is_reference_tag_def)
    with p(1) show ?thesis by (rule keeps_trans)
  qed
  with pop_object_keeps [OF h(2)] show ?thesis by (auto intro: keeps_trans)
qed

lemma handle_field_reference_keeps:
  assumes "handle_field_reference env cp i is_static is_put f = Inr f'"
  shows "keeps f f'"
proof -
  from assms show ?thesis
    unfolding handle_field_reference_def
    by (auto simp: jvm_check_Inr_iff Let_def split: if_splits
        dest!: keeps_dest pop_put_receiver_keeps intro: keeps_trans)
qed

text \<open>A signature whose parameters occupy words has a parameter.  The reader of a signature
  relies on it: a signature that announces one word and then has a parameter of two would
  have no element at all.\<close>

definition params_fit :: "vm \<Rightarrow> symbol \<Rightarrow> bool" where
  "params_fit vm s = (parameter_word_size s True = 0 \<or> signature_parameters vm s \<noteq> Some [])"

lemma check_argument_same:
  "check_argument vm p (f, n) = Inr (f', n') \<Longrightarrow> f' = f \<and> \<not> second_half (vstack_tags f ! n)"
  by (cases p) (auto simp: check_argument_def Let_def second_half_def jvm_check_Inr_iff split: if_splits)

lemma check_arguments_same:
  "jvm_fold (check_argument vm) ps (f, n) = Inr (f', n') \<Longrightarrow>
     f' = f \<and> (ps = [] \<or> \<not> second_half (vstack_tags f ! n))"
proof -
  assume a: "jvm_fold (check_argument vm) ps (f, n) = Inr (f', n')"
  have "fst (f', n') = f"
    by (rule jvm_fold_inv [OF a, where P = "\<lambda>s. fst s = f"]) (auto dest: check_argument_same)
  moreover have "ps = [] \<or> \<not> second_half (vstack_tags f ! n)"
    using a by (cases ps) (auto simp: jvm_check_Inr_iff dest: check_argument_same)
  ultimately show ?thesis by simp
qed

lemma stack_cut_keeps:
  assumes "n \<le> vstackpointer f" "n = vstackpointer f \<or> \<not> second_half (vstack_tags f ! n)"
  shows "keeps f (f\<lparr>vstackpointer := n\<rparr>)"
proof (rule stack_effect_keeps [where ws = "stack_words (f\<lparr>vstackpointer := n\<rparr>)"])
  assume f: "frame_ok f"
  note s = frame_okD(1) [OF f]
  have split: "stack_words f = stack_words (f\<lparr>vstackpointer := n\<rparr>) @ drop n (stack_words f)"
    by (simp add: stack_words_take assms(1))
  have "drop n (stack_words f) = [] \<or> \<not> second_half (fst (hd (drop n (stack_words f))))"
    using assms stack_words_length [OF s] stack_words_nth [OF s, of n]
    by (auto simp: hd_drop_conv_nth)
  with paired_pop [of "stack_words (f\<lparr>vstackpointer := n\<rparr>)"] frame_okD(2) [OF f] split
  have "paired (stack_words (f\<lparr>vstackpointer := n\<rparr>))" by metis
  then show "stack_effect f (stack_words (f\<lparr>vstackpointer := n\<rparr>)) (f\<lparr>vstackpointer := n\<rparr>) \<and>
      paired (stack_words (f\<lparr>vstackpointer := n\<rparr>))"
    using s assms(1) by (simp add: stack_effect_def frame_sizes_def same_rest_def)
qed

lemma pop_invoke_arguments_keeps:
  assumes "pop_invoke_arguments vm s f = Inr (n, f')" "params_fit vm s"
  shows "keeps f f'"
proof -
  define k where "k = vstackpointer f - parameter_word_size s True"
  have le: "parameter_word_size s True \<le> vstackpointer f"
    using assms(1) by (simp add: pop_invoke_arguments_def Let_def split: if_splits)
  from assms(1) obtain ps n' where ps: "signature_parameters vm s = Some ps"
    "jvm_fold (check_argument vm) ps (f\<lparr>vstackpointer := k\<rparr>, k) = Inr (f', n')"
    by (auto simp: pop_invoke_arguments_def Let_def k_def jvm_check_Inr_iff
        split: if_splits option.splits)
  from check_arguments_same [OF ps(2)] have "f' = f\<lparr>vstackpointer := k\<rparr>"
    "ps = [] \<or> \<not> second_half (vstack_tags f ! k)" by simp_all
  with assms(2) ps(1) le stack_cut_keeps [of k f] show ?thesis
    by (auto simp: params_fit_def k_def)
qed

lemma paired_replace:
  "paired ws \<Longrightarrow> \<not> first_half from \<Longrightarrow> \<not> second_half from \<Longrightarrow>
     paired (map (\<lambda>(t, c). if t = from then (ITEM_Object, Some s) else (t, c)) ws)"
proof (induction ws rule: paired.induct)
  case (2 t c ws)
  have "half_of t \<noteq> from" "\<not> first_half ITEM_Object" "\<not> second_half ITEM_Object"
    using 2(5) halves_disjoint(2) [of t] by (auto simp: first_half_def second_half_def)
  with 2 show ?case by (auto simp: paired.simps split: list.splits)
qed simp

lemma replace_below_nth:
  "i < length xs \<Longrightarrow> replace_below n from x tags xs ! i = (if i < n \<and> tags ! i = from then x else xs ! i)"
  by (simp add: replace_below_def)

lemma replace_keeps:
  assumes "\<not> first_half from" "\<not> second_half from"
  shows "keeps f (replace_stack_type_with_real_type from ITEM_Object (Some s) f)"
    (is "keeps f ?g")
proof (rule keeps_assume)
  assume f: "frame_ok f"
  note sz = frame_okD(1) [OF f]
  have sz': "frame_sizes ?g"
    using sz by (simp add: replace_stack_type_with_real_type_def frame_sizes_def replace_below_def)
  have vsp: "vstackpointer ?g = vstackpointer f" "vstackpointer f \<le> max_stack f"
    "vstackpointer f \<le> length (vstack_tags f)" "length (vstack_classes f) = length (vstack_tags f)"
    "max_locals f \<le> length (vlocals_tags f)" "length (vlocals_classes f) = length (vlocals_tags f)"
    using sz by (simp_all add: replace_stack_type_with_real_type_def frame_sizes_def)
  have "stack_words ?g =
      map (\<lambda>(t, c). if t = from then (ITEM_Object, Some s) else (t, c)) (stack_words f)"
    using vsp stack_words_length [OF sz] stack_words_length [OF sz'] stack_words_nth [OF sz]
      stack_words_nth [OF sz']
    by (intro nth_equalityI)
      (auto simp: replace_stack_type_with_real_type_def replace_below_nth)
  then have "paired (stack_words ?g)"
    using paired_replace [OF frame_okD(2) [OF f] assms] by simp
  moreover have "locals_ok ?g"
    unfolding locals_ok_def
  proof (intro allI impI, goal_cases)
    case (1 i)
    have h: "half_of t \<noteq> from" "\<not> first_half ITEM_Object" for t
      using assms halves_disjoint(2) [of t] by (auto simp: first_half_def)
    have "i < max_locals f" using 1 by (simp add: replace_stack_type_with_real_type_def)
    with f vsp h show ?case
      by (auto simp: frame_ok_def locals_ok_def replace_stack_type_with_real_type_def replace_below_nth)
  qed
  ultimately show "keeps f ?g"
    using sz' by (simp add: keeps_def frame_ok_def same_method_def replace_stack_type_with_real_type_def)
qed

lemma need_initialization_keeps: "keeps f (f\<lparr>need_initialization := b\<rparr>)"
  by (simp add: keeps_def frame_ok_def frame_sizes_def stack_words_def locals_ok_def same_method_def)

lemma init_this_keeps: "init_this env bci s f = Inr (name, f') \<Longrightarrow> keeps f f'"
  by (auto simp: init_this_def Let_def jvm_check_Inr_iff split: if_splits option.splits
      intro: need_initialization_keeps)

lemma invoke_init_keeps:
  assumes "invoke_init env cp bci s f = Inr f'"
  shows "keeps f f'"
proof -
  from assms obtain t c g where g: "pop_category1 f = Inr (t, c, g)"
    and r: "jvm_check
         (if is_newobject t then jvm_check (init_new_object env cp t s) (\<lambda>name. Inr (name, g))
          else if t = ITEM_InitObject then init_this env bci s g else Inl ve_expect_uninit)
         (\<lambda>(name, h). Inr (replace_stack_type_with_real_type t ITEM_Object (Some name) h)) = Inr f'"
    unfolding invoke_init_def by (cases "pop_category1 f") auto
  from r obtain name h where
    h: "(if is_newobject t then jvm_check (init_new_object env cp t s) (\<lambda>name. Inr (name, g))
         else if t = ITEM_InitObject then init_this env bci s g else Inl ve_expect_uninit) = Inr (name, h)"
    and f': "f' = replace_stack_type_with_real_type t ITEM_Object (Some name) h"
    by (elim jvm_check_InrE) auto
  then have h: "is_newobject t \<and> h = g \<or> t = ITEM_InitObject \<and> init_this env bci s g = Inr (name, h)"
    by (auto simp: jvm_check_Inr_iff split: if_splits)
  have "is_reference_tag t" using h by (auto simp: is_reference_tag_def)
  with reference_tag_no_half replace_keeps f' have "keeps h f'" by blast
  moreover have "keeps g h" using h init_this_keeps by auto
  moreover have "keeps f g" using pop_category1_keeps(1) [OF g] .
  ultimately show ?thesis by (blast intro: keeps_trans3)
qed

lemma invoke_receiver_keeps: "invoke_receiver env cp opcode i s f = Inr f' \<Longrightarrow> keeps f f'"
  by (auto simp: invoke_receiver_def Let_def jvm_check_Inr_iff split: if_splits intro: pop_object_keeps)

lemma push_invoke_result_keeps: "push_invoke_result vm s f = Inr f' \<Longrightarrow> keeps f f'"
  by (auto simp: push_invoke_result_def method_return_type_def Let_def split: if_splits dest!: keeps_dest)

text \<open>The signatures that calls through a constant pool use.\<close>

definition calls_fit :: "vm \<Rightarrow> constant_pool \<Rightarrow> bool" where
  "calls_fit vm cp =
     (\<forall>i name signature klass. 0 \<le> i \<longrightarrow> i \<le> 65535 \<longrightarrow>
        resolve_helper vm cp i = Inr (name, signature, klass) \<longrightarrow>
        (is_method (entry_at cp i) \<or> is_interface_method (entry_at cp i)) \<longrightarrow> params_fit vm signature)"

lemma handle_invoker_keeps:
  assumes "handle_invoker env cp bci i opcode f = Inr f'" "calls_fit (ve_vm env) cp" "0 \<le> i" "i \<le> 65535"
  shows "keeps f f'"
proof -
  from assms(1) obtain name sig klass n g h where
    r: "resolve_helper (ve_vm env) cp i = Inr (name, sig, klass)"
      "is_method (entry_at cp i) \<or> is_interface_method (entry_at cp i)"
      "pop_invoke_arguments (ve_vm env) sig f = Inr (n, g)"
    and h: "g = h \<or> invoke_init env cp bci klass g = Inr h \<or> invoke_receiver env cp opcode i klass g = Inr h"
      "push_invoke_result (ve_vm env) sig h = Inr f'"
    unfolding handle_invoker_def Let_def
    by (auto simp: jvm_check_Inr_iff split: if_splits)
  have "params_fit (ve_vm env) sig" using r assms(2-4) unfolding calls_fit_def by metis
  with r(3) have "keeps f g" by (rule pop_invoke_arguments_keeps)
  moreover have "keeps g h" using h(1) invoke_init_keeps invoke_receiver_keeps by auto
  ultimately show ?thesis using push_invoke_result_keeps [OF h(2)] by (blast intro: keeps_trans3)
qed


section \<open>Objects and arrays\<close>

lemma new_object_keeps: "new_object env cp bci i f = Inr f' \<Longrightarrow> keeps f f'"
proof -
  assume "new_object env cp bci i f = Inr f'"
  then have "push_category1 (encode_newobject bci) None f = Inr f'"
    by (auto simp: new_object_def jvm_check_Inr_iff split: if_splits)
  then show ?thesis
    by (rule push_keeps) (simp_all add: first_half_def second_half_def encode_newobject_neq)
qed

lemma pop_dimensions_keeps: "pop_dimensions n klass f = Inr (m, f') \<Longrightarrow> keeps f f'"
proof (induction n klass f rule: pop_dimensions.induct)
  case (2 n klass f)
  then show ?case
    by (cases klass) (auto simp: jvm_check_Inr_iff split: if_splits dest!: pop_integer_keeps
        intro: keeps_trans)
qed simp

lemma object_keeps:
  "new_basic_array vm type f = Inr f' \<Longrightarrow> keeps f f'"
  "new_object_array env cp i f = Inr f' \<Longrightarrow> keeps f f'"
  "new_multi_array env cp i dim f = Inr f' \<Longrightarrow> keeps f f'"
  "check_cast env cp i f = Inr f' \<Longrightarrow> keeps f f'"
  "instance_of env cp i f = Inr f' \<Longrightarrow> keeps f f'"
  unfolding new_basic_array_def new_object_array_def new_multi_array_def check_cast_def instance_of_def
  by (auto simp: jvm_check_Inr_iff split: if_splits dest!: keeps_dest pop_dimensions_keeps
      intro: keeps_trans)


section \<open>All handlers\<close>

lemmas handler_keeps = v_push_keeps push_integer_keeps push_tag_keeps push_plain_keeps(2)
  load_local_keeps store_local_keeps array_length_keeps load_array_keeps store_array_keeps
  arithmetic_keeps branch_keeps switch_keeps return_op_keeps
  handle_field_reference_keeps handle_invoker_keeps new_object_keeps object_keeps drop_ref_keeps
  pop_object_keeps

lemma v_push_two_keeps: "v_push_long f = Inr f' \<Longrightarrow> keeps f f'" "v_push_double f = Inr f' \<Longrightarrow> keeps f f'"
  using v_push_keeps [of T_LONG f f'] v_push_keeps [of T_DOUBLE f f'] by simp_all

lemma stack_keeps:
  "vm_pop f = Inr f' \<Longrightarrow> keeps f f'" "vm_pop2 f = Inr f' \<Longrightarrow> keeps f f'" "vm_dup f = Inr f' \<Longrightarrow> keeps f f'"
  "vm_swap f = Inr f' \<Longrightarrow> keeps f f'" "vm_dup_x1 f = Inr f' \<Longrightarrow> keeps f f'" "vm_dup2 f = Inr f' \<Longrightarrow> keeps f f'"
  "vm_dup2_x1 f = Inr f' \<Longrightarrow> keeps f f'" "vm_dup_x2 f = Inr f' \<Longrightarrow> keeps f f'"
  "vm_dup2_x2 f = Inr f' \<Longrightarrow> keeps f f'"
  by (rule stack_instruction_keeps, simp)+

lemma frame_call_keeps:
  "frame_call env cp bci c f = Inr f' \<Longrightarrow> calls_fit (ve_vm env) cp \<Longrightarrow> pool_index_ok c \<Longrightarrow> keeps f f'"
  by (cases c) (auto simp: frame_call_def pool_index_ok_def dest: check_local_same check_target_same
      stack_keeps v_push_two_keeps handler_keeps split: if_splits)

lemma handle_call_keeps:
  "handle_call env bci c s = Inr s' \<Longrightarrow> calls_fit (ve_vm env) (vs_cp s) \<Longrightarrow> pool_index_ok c \<Longrightarrow>
     keeps (vs_frame s) (vs_frame s') \<and> vs_cp s' = vs_cp s \<and>
     vs_current_stackmap_index s' = vs_current_stackmap_index s"
  by (auto simp: handle_call_def jvm_check_Inr_iff dest: frame_call_keeps)

end
