(* ===== verification/Instruction_Starts.thy ===== *)
theory Instruction_Starts
  imports Verify_Method
begin

text \<open>
  What \<open>GetInstructionStarts::run\<close> computes: the array marks exactly the offsets that are
  reached from 0 by the lengths of the instructions, with a second bit for \<open>new\<close>.  The
  loop ends, and the pass over the bytecodes, which walks along the same offsets, ends
  with it.
\<close>

section \<open>The offsets of the instructions\<close>

inductive instruction_at :: "code_mem \<Rightarrow> int \<Rightarrow> int \<Rightarrow> bool" for m len where
  first: "0 < len \<Longrightarrow> instruction_at m len 0"
| next_one: "instruction_at m len bci \<Longrightarrow> next_bci m bci < len \<Longrightarrow> instruction_at m len (next_bci m bci)"

definition good_length :: "code_mem \<Rightarrow> int \<Rightarrow> bool" where
  "good_length m bci = (is_defined (int (bytecode_at m bci)) \<and> 0 < length_for m bci)"

text \<open>One round of the loop.\<close>

lemma starts_loop_step:
  "starts_loop (Suc fuel) m len bci arr =
     (if bci < len then
        (if good_length m bci
         then starts_loop fuel m len (next_bci m bci)
                (arr[nat bci := (if bytecode_at m bci = op_new then 3 else 1)])
         else Some (Inl ve_bad_instr))
      else if bci > len then Some (Inl ve_bad_instr) else Some (Inr arr))"
  by (auto simp: good_length_def length_for_def next_bci_def Let_def)

declare starts_loop.simps(2) [simp del]

lemma starts_loop_terminates:
  "0 \<le> len \<Longrightarrow> nat (len - bci) < fuel \<Longrightarrow> \<exists>r. starts_loop fuel m len bci arr = Some r"
proof (induction fuel arbitrary: bci arr)
  case (Suc fuel)
  show ?case
  proof (cases "bci < len \<and> good_length m bci")
    case True
    then have "nat (len - next_bci m bci) < fuel"
      using Suc.prems(2) unfolding good_length_def next_bci_def by linarith
    from Suc.IH [OF Suc.prems(1) this] True show ?thesis by (simp add: starts_loop_step)
  qed (auto simp: starts_loop_step)
qed simp

definition mark_of :: "code_mem \<Rightarrow> int \<Rightarrow> nat" where
  "mark_of m bci = (if bytecode_at m bci = op_new then 3 else 1)"

text \<open>The offsets that the loop still visits when it has come to \<open>bci\<close>.\<close>

inductive ahead :: "code_mem \<Rightarrow> int \<Rightarrow> int \<Rightarrow> int \<Rightarrow> bool" for m len where
  here: "bci < len \<Longrightarrow> ahead m len bci bci"
| later: "bci < len \<Longrightarrow> ahead m len (next_bci m bci) t \<Longrightarrow> ahead m len bci t"

inductive_cases aheadE: "ahead m len bci t"

lemma ahead_trans: "ahead m len a b \<Longrightarrow> next_bci m b < len \<Longrightarrow> ahead m len a (next_bci m b)"
  by (induction rule: ahead.induct) (auto intro: ahead.intros)

lemma instruction_at_ahead: "instruction_at m len t \<Longrightarrow> ahead m len 0 t"
  by (induction rule: instruction_at.induct) (auto intro: ahead.here ahead_trans)

lemma ahead_instruction: "ahead m len bci t \<Longrightarrow> instruction_at m len bci \<Longrightarrow> instruction_at m len t"
proof (induction rule: ahead.induct)
  case (later bci t)
  from later.hyps(2) have "next_bci m bci < len" by (auto elim: aheadE)
  with later show ?case by (auto intro: instruction_at.next_one)
qed

lemma starts_loop_marks:
  assumes "starts_loop fuel m len bci arr = Some (Inr arr')" "0 \<le> bci" "nat len \<le> length arr"
  shows "length arr' = length arr \<and>
    (\<forall>t. 0 \<le> t \<longrightarrow> t < len \<longrightarrow>
       arr' ! nat t = (if ahead m len bci t then mark_of m t else arr ! nat t)) \<and>
    (\<forall>t. ahead m len bci t \<longrightarrow> bci \<le> t \<and> t < len \<and> good_length m t \<and> next_bci m t \<le> len)"
  using assms
proof (induction fuel arbitrary: bci arr)
  case (Suc fuel)
  show ?case
  proof (cases "bci < len")
    case True
    with Suc.prems have g: "good_length m bci" and
      r: "starts_loop fuel m len (next_bci m bci) (arr[nat bci := mark_of m bci]) = Some (Inr arr')"
      by (auto simp: starts_loop_step mark_of_def split: if_splits)
    have n: "bci < next_bci m bci" using g by (simp add: good_length_def next_bci_def)
    have IH: "length arr' = length arr"
      "\<And>t. 0 \<le> t \<Longrightarrow> t < len \<Longrightarrow> arr' ! nat t =
        (if ahead m len (next_bci m bci) t then mark_of m t else arr[nat bci := mark_of m bci] ! nat t)"
      "\<And>t. ahead m len (next_bci m bci) t \<Longrightarrow>
        next_bci m bci \<le> t \<and> t < len \<and> good_length m t \<and> next_bci m t \<le> len"
      using Suc.IH [OF r] n Suc.prems(2,3) by auto
    have nl: "next_bci m bci \<le> len"
      using r by (cases fuel) (auto simp: starts_loop_step split: if_splits)
    have a: "ahead m len bci t \<longleftrightarrow> t = bci \<or> ahead m len (next_bci m bci) t" for t
      using True by (auto intro: ahead.intros elim: aheadE)
    show ?thesis
    proof (intro conjI allI impI)
      show "length arr' = length arr" by (rule IH(1))
    next
      fix t assume t: "0 \<le> t" "t < len"
      show "arr' ! nat t = (if ahead m len bci t then mark_of m t else arr ! nat t)"
        using IH(2) [OF t] a [of t] t Suc.prems(2,3) True
        by (auto simp: nth_list_update nat_eq_iff)
    next
      fix t assume "ahead m len bci t"
      then consider "t = bci" | "ahead m len (next_bci m bci) t" using a by blast
      then show "bci \<le> t" "t < len" "good_length m t" "next_bci m t \<le> len"
        using IH(3) [of t] True g n nl by (cases; simp)+
    qed
  next
    case False
    then have "\<not> ahead m len bci t" for t by (auto elim: aheadE)
    with False Suc.prems show ?thesis by (auto simp: starts_loop_step split: if_splits)
  qed
qed simp


section \<open>The result\<close>

lemma start_array_length: "nat len \<le> length (if len \<le> INSTRUCTION_STARTS_CACHE_SIZE
    then replicate (nat len) 0 @ drop (nat len) cache else replicate (nat len) (0 :: nat))"
  by simp

lemma get_instruction_starts_total: "0 \<le> len \<Longrightarrow> \<exists>r. get_instruction_starts cache m len = Some r"
  unfolding get_instruction_starts_def by (rule starts_loop_terminates) simp_all

lemma instruction_at_iff_ahead: "0 < len \<Longrightarrow> instruction_at m len t \<longleftrightarrow> ahead m len 0 t"
  using instruction_at_ahead ahead_instruction instruction_at.first by blast

lemma instruction_at_nonempty: "instruction_at m len t \<Longrightarrow> 0 < len"
  by (induction rule: instruction_at.induct) auto

lemma get_instruction_starts_marks:
  assumes "get_instruction_starts cache m len = Some (Inr starts)"
  shows "\<forall>t. 0 \<le> t \<longrightarrow> t < len \<longrightarrow>
      starts ! nat t = (if instruction_at m len t then mark_of m t else 0)"
    "\<And>t. instruction_at m len t \<Longrightarrow> 0 \<le> t \<and> t < len \<and> good_length m t \<and> next_bci m t \<le> len"
proof -
  note * = starts_loop_marks [OF assms [unfolded get_instruction_starts_def] order_refl start_array_length]
  show "0 \<le> t \<and> t < len \<and> good_length m t \<and> next_bci m t \<le> len" if "instruction_at m len t" for t
    using * instruction_at_ahead [OF that] by blast
  show "\<forall>t. 0 \<le> t \<longrightarrow> t < len \<longrightarrow>
      starts ! nat t = (if instruction_at m len t then mark_of m t else 0)"
  proof (intro allI impI)
    fix t assume t: "0 \<le> t" "t < len"
    then have "instruction_at m len t \<longleftrightarrow> ahead m len 0 t"
      by (intro instruction_at_iff_ahead) simp
    with * t show "starts ! nat t = (if instruction_at m len t then mark_of m t else 0)"
      by (auto simp: nth_append)
  qed
qed

text \<open>The pass over the bytecodes walks along the same offsets, so it ends.\<close>

lemma iterate_method_terminates:
  assumes "\<And>t. ahead (m_code (ve_method env)) len bci t \<Longrightarrow> good_length (m_code (ve_method env)) t"
    "0 \<le> bci" "nat (len - bci) < fuel"
  shows "\<exists>r. iterate_method fuel env len bci s = Some r"
  using assms
proof (induction fuel arbitrary: bci s)
  case (Suc fuel)
  let ?code = "m_code (ve_method env)"
  show ?case
  proof (cases "bci < len")
    case True
    have g: "good_length ?code bci" using Suc.prems(1) True by (blast intro: ahead.here)
    have "nat (len - next_bci ?code bci) < fuel" "0 \<le> next_bci ?code bci"
      using Suc.prems(2,3) True g unfolding good_length_def next_bci_def by linarith+
    with Suc.IH [of "next_bci ?code bci"] Suc.prems(1) True
    show ?thesis by (auto intro: ahead.later split: sum.splits)
  qed (use Suc.prems in auto)
qed simp

end
