(* ===== verification/Verifier_Pass.thy ===== *)
theory Verifier_Pass
  imports Handler_Invariant Instruction_Starts
begin

text \<open>
  The pass of the verifier as a state machine: the states in front of the bytecodes of a
  method, and the invariant that holds in all of them.
\<close>

section \<open>The states of the pass\<close>

inductive pass_at :: "verify_env \<Rightarrow> int \<Rightarrow> vstate \<Rightarrow> int \<Rightarrow> vstate \<Rightarrow> bool" for env end_bci s0 where
  pass_start: "pass_at env end_bci s0 0 s0"
| pass_step: "pass_at env end_bci s0 bci s \<Longrightarrow> bci < end_bci \<Longrightarrow> iterate_bytecode env bci s = Inr s' \<Longrightarrow>
    pass_at env end_bci s0 (next_bci (m_code (ve_method env)) bci) s'"

lemma pass_instruction:
  "pass_at env len s0 bci s \<Longrightarrow> bci < len \<Longrightarrow> instruction_at (m_code (ve_method env)) len bci"
proof (induction rule: pass_at.induct)
  case (pass_step bci s s')
  then show ?case by (auto intro: instruction_at.next_one)
qed (auto intro: instruction_at.first)

lemma iterate_method_pass:
  assumes "\<And>t. instruction_at (m_code (ve_method env)) len t \<Longrightarrow> 0 \<le> next_bci (m_code (ve_method env)) t"
    "iterate_method fuel env len bci s = Some (Inr s')" "pass_at env len s0 bci s" "0 \<le> bci"
  shows "pass_at env len s0 len s'"
  using assms(2-)
proof (induction fuel arbitrary: bci s)
  case (Suc fuel)
  show ?case
  proof (cases "bci < len")
    case True
    with Suc.prems obtain t where t: "iterate_bytecode env bci s = Inr t"
      "iterate_method fuel env len (next_bci (m_code (ve_method env)) bci) t = Some (Inr s')"
      by (auto split: sum.splits)
    have "pass_at env len s0 (next_bci (m_code (ve_method env)) bci) t"
      using Suc.prems(2) True t(1) by (rule pass_step)
    with Suc.IH [OF t(2)] assms(1) pass_instruction [OF Suc.prems(2) True] show ?thesis by blast
  next
    case False
    with Suc.prems have "bci = len" "s' = s" by (auto split: if_splits)
    with Suc.prems(2) show ?thesis by simp
  qed
qed simp


section \<open>The invariant\<close>

lemma frame_of_same: "frame_of m f \<Longrightarrow> same_method f f' \<Longrightarrow> frame_of m f'"
  by (simp add: frame_of_def same_method_def)

definition pass_ok :: "verify_env \<Rightarrow> constant_pool \<Rightarrow> vstate \<Rightarrow> bool" where
  "pass_ok env cp s =
     (frame_ok (vs_frame s) \<and> frame_of (ve_method env) (vs_frame s) \<and> vs_cp s = cp)"

lemma check_current_target_ok:
  assumes "env_ok env" "check_current_target env bci nocf f = Inr f'" "frame_of (ve_method env) f"
    "frame_ok f" "jint_min \<le> bci" "bci \<le> jint_max"
  shows "frame_ok f' \<and> same_method f f'"
proof (cases "stackmap_at (m_stackmaps (ve_method env)) bci")
  case None
  with assms show ?thesis
    by (auto simp: check_current_target_def check_stackmap_match_result frame_okD split: if_splits)
next
  case (Some sm)
  have "wf_stackmap (max_stack f) (max_locals f) (m_code_size (ve_method env)) sm"
    using assms(1,3) stackmap_at_SomeD [OF Some] by (auto simp: env_ok_def frame_of_def list_all_iff)
  from merged_frame_ok [OF this frame_okD(1) [OF assms(4)]]
  have "frame_ok ((merged sm (max_locals f) f)\<lparr>need_initialization := b\<rparr>)" for b
    using need_initialization_keeps by (simp add: keeps_def)
  moreover have "same_method f ((merged sm (max_locals f) f)\<lparr>need_initialization := b\<rparr>)" for b
    by (simp add: same_method_def merged_def Let_def)
  ultimately show ?thesis
    using assms(2) check_stackmap_match_result [OF assms(1,3) frame_okD(1) [OF assms(4)] assms(5,6)]
    by (auto simp: check_current_target_def Some Let_def split: if_splits)
qed

text \<open>The check of a handler leaves the frame: the words that it saves and puts back.\<close>

lemma check_exception_handler_frame:
  assumes "check_exception_handler env cp bci e f = Inr f'" "frame_sizes f"
  shows "\<exists>n t c. f' = f\<lparr>saved_stack_pointer := n, saved_tag_0 := t, saved_klass_0 := c\<rparr>"
proof (cases "start_pc e \<le> bci \<and> bci < end_pc e")
  case True
  with assms(1) obtain k g where g: "push_category1 ITEM_Object (Some k) (save_stack_state f) = Inr g"
    "f' = restore_stack_state g"
    by (auto simp: check_exception_handler_def jvm_check_Inr_iff dest!: check_target_same)
  have "0 < max_stack f" using g(1)
    by (auto simp: push_category1_def save_stack_state_def Let_def split: if_splits)
  with assms(2) have "0 < length (vstack_tags f)" "0 < length (vstack_classes f)"
    unfolding frame_sizes_def by linarith+
  then have "f' = f\<lparr>saved_stack_pointer := vstackpointer f, saved_tag_0 := vstack_tags f ! 0,
      saved_klass_0 := vstack_classes f ! 0\<rparr>"
    using g by (auto simp: push_category1_def save_stack_state_def restore_stack_state_def
        vstack_put_def Let_def split: if_splits)
  then show ?thesis by blast
next
  case False
  with assms(1) show ?thesis
    by (auto simp: check_exception_handler_def intro!: exI [of _ "saved_stack_pointer f"]
        exI [of _ "saved_tag_0 f"] exI [of _ "saved_klass_0 f"])
qed

lemma saved_keeps:
  "keeps f (f\<lparr>saved_stack_pointer := n, saved_tag_0 := t, saved_klass_0 := c\<rparr>)"
  by (simp add: keeps_def frame_ok_def frame_sizes_def stack_words_def locals_ok_def same_method_def)

lemma check_exception_handler_keeps:
  assumes "check_exception_handler env cp bci e f = Inr f'"
  shows "keeps f f'"
proof (rule keeps_assume)
  assume "frame_ok f"
  from check_exception_handler_frame [OF assms frame_okD(1) [OF this]] saved_keeps
  show "keeps f f'" by auto
qed

lemma check_exception_handlers_keeps:
  "check_exception_handlers_for_bci env cp bci f = Inr f' \<Longrightarrow> keeps f f'"
  unfolding check_exception_handlers_for_bci_def
  by (rule jvm_fold_inv [where P = "keeps f"])
    (auto dest: check_exception_handler_keeps intro: keeps_trans)

lemma bytecode_prolog_ok:
  assumes "bytecode_prolog env bci s = Inr s'" "pass_ok env cp s" "env_ok env"
    "jint_min \<le> bci" "bci \<le> jint_max"
  shows "pass_ok env cp s'"
proof -
  from assms(1) obtain t f g where t: "advance_stackmap bci s = Inr t"
    and f: "check_current_target env bci (vs_no_control_flow t) (vs_frame t) = Inr f"
    and g: "g = f \<or> check_exception_handlers_for_bci env (vs_cp t) bci f = Inr g"
    and s': "s' = t\<lparr>vs_frame := g, vs_no_control_flow := False\<rparr>"
    unfolding bytecode_prolog_def by (elim jvm_check_InrE) (auto split: if_splits)
  have t': "vs_frame t = vs_frame s" "vs_cp t = vs_cp s"
    using t by (auto simp: advance_stackmap_def Let_def split: if_splits)
  with check_current_target_ok [OF assms(3) f] assms(2,4,5)
  have "frame_ok f" "same_method (vs_frame s) f" by (auto simp: pass_ok_def)
  moreover have "keeps f g" using g check_exception_handlers_keeps by auto
  ultimately show ?thesis using assms(2) t'
    by (auto simp: pass_ok_def s' keeps_def intro: frame_of_same same_method_trans)
qed

lemma iterate_bytecode_ok:
  assumes "iterate_bytecode env bci s = Inr s'" "pass_ok env cp s" "env_ok env"
    "0 \<le> bci" "bci \<le> 65535" "calls_fit (ve_vm env) cp"
  shows "pass_ok env cp s'"
proof -
  from assms(1) obtain t where t: "bytecode_prolog env bci s = Inr t"
    "jvm_fold (handle_call env bci) (iterate_calls (m_code (ve_method env)) (vs_cp t) bci) t = Inr s'"
    by (auto simp: iterate_bytecode_def)
  show ?thesis
    by (rule jvm_fold_inv [OF t(2), where P = "pass_ok env cp"])
      (use bytecode_prolog_ok [OF t(1) assms(2,3)] assms(4-6) iterate_calls_fit [OF assms(4,5)] in
        \<open>auto simp: pass_ok_def keeps_def operands_fit_def dest!: handle_call_keeps intro: frame_of_same\<close>)
qed

lemma pass_at_ok:
  assumes "pass_at env len s0 bci s" "pass_ok env cp s0" "env_ok env" "len \<le> 65535"
    "calls_fit (ve_vm env) cp"
    "\<And>t. instruction_at (m_code (ve_method env)) len t \<Longrightarrow> 0 \<le> t"
  shows "pass_ok env cp s"
  using assms(1)
proof (induction rule: pass_at.induct)
  case (pass_step bci s s')
  have "0 \<le> bci" using assms(6) pass_instruction [OF pass_step.hyps(1,2)] by blast
  with pass_step assms(4) show ?case
    by (intro iterate_bytecode_ok [OF pass_step.hyps(3) pass_step.IH assms(3) _ _ assms(5)]) simp_all
qed (rule assms(2))

section \<open>The start of the pass\<close>

text \<open>The caches of the verifier are long enough for the methods that use them.\<close>

definition caches_ok :: "verifier_caches \<Rightarrow> jvm_method \<Rightarrow> bool" where
  "caches_ok c m =
     ((m_max_stack m \<le> VSTACK_CACHE_SIZE \<longrightarrow>
         m_max_stack m \<le> length (vstack_tags_cache c) \<and>
         length (vstack_classes_cache c) = length (vstack_tags_cache c)) \<and>
      (m_max_locals m \<le> VLOCALS_CACHE_SIZE \<longrightarrow>
         m_max_locals m \<le> length (vlocals_tags_cache c) \<and>
         length (vlocals_classes_cache c) = length (vlocals_tags_cache c)))"

text \<open>The locals below \<open>n\<close> have been set, the stack is empty.\<close>

definition starting :: "jvm_method \<Rightarrow> nat \<Rightarrow> verifier_frame \<Rightarrow> bool" where
  "starting m n f =
     (frame_sizes f \<and> vstackpointer f = 0 \<and> frame_of m f \<and> n \<le> max_locals f \<and>
      locals_ok (f\<lparr>max_locals := n\<rparr>))"

lemma frame_initialize_starting: "caches_ok c m \<Longrightarrow> starting m 0 (frame_initialize c m)"
  by (simp add: starting_def caches_ok_def frame_initialize_def frame_sizes_def clear_prefix_def
      frame_of_def locals_ok_def)

lemma starting_no_first_half: "starting m n f \<Longrightarrow> 1 \<le> n \<Longrightarrow> \<not> first_half (vlocals_tags f ! (n - 1))"
  by (cases n) (auto simp: starting_def locals_ok_def)

lemma starting_bogify: "starting m n f \<Longrightarrow> vlocals_tags g = (vlocals_tags f)[n := t] \<Longrightarrow>
    bogify_surrounding_doublewords n g = g"
  using starting_no_first_half [of m n f]
  by (auto simp: bogify_surrounding_doublewords_def first_half_def nth_list_update)

lemma starting_put:
  assumes "starting m n f" "n < max_locals f" "\<not> first_half t" "t = ITEM_Object \<longrightarrow> c \<noteq> None"
  shows "starting m (n + 1) (bogify_surrounding_doublewords n (vlocals_put n t c f))"
proof -
  have "bogify_surrounding_doublewords n (vlocals_put n t c f) = vlocals_put n t c f"
    by (rule starting_bogify [OF assms(1)]) simp
  moreover have "locals_ok ((vlocals_put n t c f)\<lparr>max_locals := n + 1\<rparr>)"
    unfolding locals_ok_def
  proof (intro allI impI, goal_cases)
    case (1 i)
    with assms show ?case
      by (cases "i = n") (auto simp: starting_def locals_ok_def frame_sizes_def nth_list_update)
  qed
  ultimately show ?thesis
    using assms(1,2) by (simp add: starting_def frame_of_def vlocals_put_def frame_sizes_def)
qed

lemma starting_put2:
  assumes "starting m n f" "n + 1 < max_locals f" "first_half t"
  shows "starting m (n + 2) (bogify_surrounding_doublewords n
    (vlocals_put (n + 1) (half_of t) None (vlocals_put n t None f)))"
proof -
  let ?g = "vlocals_put (n + 1) (half_of t) None (vlocals_put n t None f)"
  have h: "half_of t \<noteq> ITEM_Object" "t \<noteq> ITEM_Object"
    using assms(3) by (auto simp: first_half_def half_of_def)
  have "bogify_surrounding_doublewords n ?g = ?g"
    using starting_no_first_half [OF assms(1)]
    by (auto simp: bogify_surrounding_doublewords_def first_half_def nth_list_update)
  moreover have "locals_ok (?g\<lparr>max_locals := n + 2\<rparr>)"
    unfolding locals_ok_def
  proof (intro allI impI, goal_cases)
    case (1 i)
    then consider "i < n" | "i = n" | "i = n + 1" by force
    then show ?case
      using assms h by cases (auto simp: starting_def locals_ok_def frame_sizes_def nth_list_update)
  qed
  ultimately show ?thesis
    using assms(1,2) by (simp add: starting_def frame_of_def vlocals_put_def frame_sizes_def)
qed

lemma starting_set_local:
  "frame_set_local (int n) t f = Inr f' \<Longrightarrow> starting m n f \<Longrightarrow> \<not> first_half t \<Longrightarrow> t \<noteq> ITEM_Object \<Longrightarrow>
     starting m (n + 1) f'"
  using starting_put [of m n f t None] by (auto simp: frame_set_local_def split: if_splits)

lemma starting_set_local_ref:
  "set_local_ref (int n) ITEM_Object (Some s) f = Inr f' \<Longrightarrow> starting m n f \<Longrightarrow> starting m (n + 1) f'"
  using starting_put [of m n f ITEM_Object "Some s"]
  by (auto simp: set_local_ref_def first_half_def split: if_splits)

lemma starting_set_local2:
  "frame_set_local2 (int n) t f = Inr f' \<Longrightarrow> starting m n f \<Longrightarrow> first_half t \<Longrightarrow> starting m (n + 2) f'"
  using starting_put2 [of m n f t]
  by (auto simp: frame_set_local2_def half_of_def first_half_def split: if_splits)

lemma starting_v_set_local:
  "v_set_local (int n) kind f = Inr f' \<Longrightarrow> starting m n f \<Longrightarrow>
     starting m (n + (if kind = T_LONG \<or> kind = T_DOUBLE then 2 else 1)) f'"
  by (cases kind) (auto simp: first_half_def dest: starting_set_local starting_set_local2)

lemma starting_need: "starting m n f \<Longrightarrow> starting m n (f\<lparr>need_initialization := b\<rparr>)"
  by (simp add: starting_def frame_sizes_def frame_of_def locals_ok_def)

lemma init_receiver_starting:
  assumes "init_receiver vm m f = Inr (n, f')" "starting m 0 f"
  shows "\<exists>k. n = int k \<and> starting m k f'"
proof (cases "m_static m")
  case True
  with assms show ?thesis
    by (auto simp: init_receiver_def Let_def intro!: exI [of _ 0] starting_need)
next
  case False
  note s = starting_need [OF assms(2)]
  have "starting m 1 f'"
    using assms(1) False starting_set_local [of 0 ITEM_InitObject _ f' m, simplified, OF _ s]
      starting_set_local_ref [of 0 _ _ f' m, simplified, OF _ s]
    by (auto simp: init_receiver_def Let_def jvm_check_Inr_iff first_half_def split: if_splits)
  moreover have "n = 1" using assms(1) False
    by (auto simp: init_receiver_def Let_def jvm_check_Inr_iff)
  ultimately show ?thesis by (intro exI [of _ 1]) simp
qed

lemma init_parameter_starting:
  assumes "init_parameter p (int k, f) = Inr (n, f')" "starting m k f"
    "fst p = T_OBJECT \<or> fst p = T_ARRAY \<longrightarrow> snd p \<noteq> None"
  shows "\<exists>k'. n = int k' \<and> starting m k' f'"
proof (cases "fst p = T_OBJECT \<or> fst p = T_ARRAY")
  case True
  with assms(3) obtain t s where p: "p = (t, Some s)" "t = T_OBJECT \<or> t = T_ARRAY" by (cases p) auto
  with assms(1) have "set_local_ref (int k) ITEM_Object (Some s) f = Inr f'" "n = int (k + 1)"
    by (auto simp: init_parameter_def jvm_check_Inr_iff)
  with starting_set_local_ref assms(2) show ?thesis by blast
next
  case False
  obtain t c where p: "p = (t, c)" by (cases p)
  with False assms(1) have "v_set_local (int k) t f = Inr f'"
    "n = int (k + (if t = T_LONG \<or> t = T_DOUBLE then 2 else 1))"
    by (auto simp: init_parameter_def jvm_check_Inr_iff)
  with starting_v_set_local assms(2) show ?thesis by blast
qed

lemma ss_elements_named:
  "ss_elements vm fuel ss = Some ps \<Longrightarrow> (t, c) \<in> set ps \<Longrightarrow> t = T_OBJECT \<or> t = T_ARRAY \<longrightarrow> c \<noteq> None"
proof (induction fuel arbitrary: ss ps)
  case 0
  then show ?case by (auto split: if_splits)
next
  case (Suc fuel)
  show ?case
  proof (cases "ss_eos ss")
    case False
    with Suc.prems(1) obtain qs where q: "ss_elements vm fuel (ss_next vm ss) = Some qs"
      and ps: "ps = (ss_type ss, if ss_type ss = T_OBJECT \<or> ss_type ss = T_ARRAY
            then Some (ss_type_symbol vm ss) else None) # qs"
      by auto
    show ?thesis using Suc.prems(2) Suc.IH [OF q] unfolding ps by (auto split: if_splits)
  qed (use Suc.prems in simp)
qed

lemma bogus_rest_starting:
  "jvm_fold (\<lambda>n f. frame_set_local n ITEM_Bogus f) [int k..int n - 1] f = Inr f' \<Longrightarrow> starting m k f \<Longrightarrow>
     k \<le> n \<Longrightarrow> starting m n f'"
proof (induction "n - k" arbitrary: k f)
  case (Suc d)
  then have "int k \<le> int n - 1" by simp
  then have u: "[int k..int n - 1] = int k # [int (k + 1)..int n - 1]"
    by (subst upto_rec1) (simp_all add: add.commute)
  from Suc.prems(1) obtain g where g: "frame_set_local (int k) ITEM_Bogus f = Inr g"
    "jvm_fold (\<lambda>n f. frame_set_local n ITEM_Bogus f) [int (k + 1)..int n - 1] g = Inr f'"
    unfolding u by auto
  have "starting m (k + 1) g"
    by (rule starting_set_local [OF g(1) Suc.prems(2)]) (simp_all add: first_half_def)
  from Suc.hyps(1) [OF _ g(2) this] Suc.hyps(2) Suc.prems(3) show ?case by simp
qed simp

lemma initialize_locals_ok:
  assumes "initialize_locals vm m (frame_initialize c m) = Inr f" "caches_ok c m"
  shows "frame_ok f \<and> frame_of m f \<and> vstackpointer f = 0"
proof -
  from assms(1) obtain n g ps n' h where g: "init_receiver vm m (frame_initialize c m) = Inr (n, g)"
    and ps: "signature_parameters vm (m_signature m) = Some ps"
    and h: "jvm_fold init_parameter ps (n, g) = Inr (n', h)"
    and f: "jvm_fold (\<lambda>n f. frame_set_local n ITEM_Bogus f) [n'..int (m_max_locals m) - 1] h = Inr f"
    by (auto simp: initialize_locals_def jvm_check_Inr_iff split: option.splits)
  have "\<exists>k. n = int k \<and> starting m k g"
    using init_receiver_starting [OF g frame_initialize_starting [OF assms(2)]] .
  then have "\<exists>k. fst (n', h) = int k \<and> starting m k (snd (n', h))"
  proof (intro jvm_fold_inv [OF h, where P = "\<lambda>(n, f). \<exists>k. n = int k \<and> starting m k f", simplified case_prod_unfold])
    fix p s s'
    assume p: "p \<in> set ps" "init_parameter p s = Inr s'"
      and s: "\<exists>k. fst s = int k \<and> starting m k (snd s)"
    have "fst p = T_OBJECT \<or> fst p = T_ARRAY \<longrightarrow> snd p \<noteq> None"
      using ss_elements_named [OF ps [unfolded signature_parameters_def]] p(1) by (cases p) auto
    with s p(2) init_parameter_starting show "\<exists>k. fst s' = int k \<and> starting m k (snd s')"
      by (metis prod.collapse)
  qed simp
  then obtain k where k: "n' = int k" "starting m k h" by auto
  then have "k \<le> m_max_locals m" by (simp add: starting_def frame_of_def)
  from bogus_rest_starting [OF f [unfolded k(1)] k(2) this]
  show ?thesis by (simp add: starting_def frame_ok_def frame_of_def stack_words_def locals_ok_def)
qed

section \<open>The constant pool\<close>

text \<open>The check of the handlers resolves classes of the constant pool, which changes no
  method or field reference.\<close>

definition same_refs :: "constant_pool \<Rightarrow> constant_pool \<Rightarrow> bool" where
  "same_refs cp cp' =
     (length cp' = length cp \<and>
      (\<forall>i. entry_at cp' i = entry_at cp i \<or> is_klass (entry_at cp i) \<and> is_klass (entry_at cp' i)))"

lemma same_refs_refl [simp]: "same_refs cp cp" by (simp add: same_refs_def)

lemma same_refs_trans: "same_refs a b \<Longrightarrow> same_refs b c \<Longrightarrow> same_refs a c"
  unfolding same_refs_def by metis

lemma same_refs_entry:
  assumes "same_refs cp cp'"
  shows "is_within_bounds cp' i = is_within_bounds cp i" "is_klass (entry_at cp' i) = is_klass (entry_at cp i)"
    "\<not> is_klass (entry_at cp i) \<Longrightarrow> entry_at cp' i = entry_at cp i"
  using assms unfolding same_refs_def is_within_bounds_def by metis+

lemma not_klass:
  "is_klass e \<Longrightarrow> \<not> is_field_or_method e \<and> \<not> is_name_and_type e \<and> \<not> is_utf8 e"
  by (cases e) (simp_all add: is_klass_def is_field_or_method_def)

lemma resolve_helper_Inr:
  "resolve_helper vm cp i = Inr (name, signature, klass) \<longleftrightarrow>
     is_within_bounds cp i \<and> is_field_or_method (entry_at cp i) \<and>
     (case ref_indices (entry_at cp i) of (c, nt) \<Rightarrow>
        is_within_bounds cp (int nt) \<and> is_name_and_type (entry_at cp (int nt)) \<and>
        is_within_bounds cp (int c) \<and> is_klass (entry_at cp (int c)) \<and>
        (case ref_indices (entry_at cp (int nt)) of (n, s) \<Rightarrow>
           is_within_bounds cp (int n) \<and> is_utf8 (entry_at cp (int n)) \<and>
           is_within_bounds cp (int s) \<and> is_utf8 (entry_at cp (int s)) \<and>
           name = utf8_symbol (entry_at cp (int n)) \<and> signature = utf8_symbol (entry_at cp (int s)) \<and>
           klass = (case entry_at cp (int c) of CP_UnresolvedClass s \<Rightarrow> s
              | CP_Class i \<Rightarrow> class_name (class_from_id vm i) | _ \<Rightarrow> Symbol Symbol_near [])))"
  by (auto simp add: resolve_helper_def Let_def split_beta)

lemma resolve_helper_same_refs:
  assumes "same_refs cp cp'" "resolve_helper vm cp' i = Inr (name, signature, klass)"
  shows "\<exists>klass. resolve_helper vm cp i = Inr (name, signature, klass)"
proof -
  note e = same_refs_entry [OF assms(1)]
  have same: "is_field_or_method (entry_at cp' j) \<Longrightarrow> entry_at cp' j = entry_at cp j"
    "is_name_and_type (entry_at cp' j) \<Longrightarrow> entry_at cp' j = entry_at cp j"
    "is_utf8 (entry_at cp' j) \<Longrightarrow> entry_at cp' j = entry_at cp j" for j
    using e(2,3) not_klass by metis+
  obtain c nt where r1: "ref_indices (entry_at cp' i) = (c, nt)" by fastforce
  obtain n s where r2: "ref_indices (entry_at cp' (int nt)) = (n, s)" by fastforce
  note f = assms(2) [unfolded resolve_helper_Inr e(1,2) r1 r2 prod.case]
  have "entry_at cp' i = entry_at cp i" "entry_at cp' (int nt) = entry_at cp (int nt)"
    "entry_at cp' (int n) = entry_at cp (int n)" "entry_at cp' (int s) = entry_at cp (int s)"
    using f same by blast+
  with f r1 r2 show ?thesis by (simp add: resolve_helper_Inr)
qed

lemma same_refs_update: "is_klass (cp ! k) \<Longrightarrow> same_refs cp (cp[k := CP_Class x])"
proof (cases "k < length cp")
  case True
  assume "is_klass (cp ! k)"
  then show ?thesis using True
    by (auto simp: same_refs_def entry_at_def nth_list_update is_klass_def)
qed (simp add: list_update_beyond)

lemma klass_at_same_refs: "klass_at vm cp i = Inr (c, cp') \<Longrightarrow> same_refs cp cp'"
  by (auto simp: klass_at_def entry_at_def is_klass_def jvm_check_Inr_iff
      intro!: same_refs_update split: if_splits cp_entry.splits)

lemma check_handler_same_refs: "check_handler vm len starts e s = Inr s' \<Longrightarrow> same_refs (hs_cp s) (hs_cp s')"
  by (auto simp: check_handler_def check_handler_class_def Let_def jvm_check_Inr_iff
      dest!: klass_at_same_refs split: if_splits)

lemma check_handlers_same_refs:
  assumes "check_handlers vm m starts cp = Inr hs"
  shows "same_refs cp (hs_cp hs)"
proof (cases "m_exceptions m = []")
  case True
  with assms show ?thesis by (auto simp: check_handlers_def)
next
  case False
  with assms have "jvm_fold (check_handler vm (m_code_size m) starts) (m_exceptions m)
      \<lparr>hs_cp = cp, hs_min_start = 0xffff, hs_max_end = 0\<rparr> = Inr hs"
    by (simp add: check_handlers_def)
  then show ?thesis
    by (rule jvm_fold_inv [where P = "\<lambda>s. same_refs cp (hs_cp s)"])
      (auto dest: check_handler_same_refs intro: same_refs_trans)
qed

lemma calls_fit_same_refs:
  assumes "calls_fit vm cp" "same_refs cp cp'"
  shows "calls_fit vm cp'"
  unfolding calls_fit_def
proof (intro allI impI)
  fix i name signature klass
  assume i: "0 \<le> i" "i \<le> 65535"
    and r: "resolve_helper vm cp' i = Inr (name, signature, klass)"
      "is_method (entry_at cp' i) \<or> is_interface_method (entry_at cp' i)"
  have "entry_at cp' i = entry_at cp i"
    using r(2) not_klass same_refs_entry [OF assms(2)] by (metis is_field_or_method_def)
  with i r resolve_helper_same_refs [OF assms(2) r(1)] assms(1) show "params_fit vm signature"
    unfolding calls_fit_def by metis
qed


section \<open>A verified method\<close>

lemma verify_checks_result:
  assumes "verify_checks vm g cp m = Some (Inr s0)"
  obtains starts hs f where
    "get_instruction_starts (gc_starts g) (m_code m) (m_code_size m) = Some (Inr starts)"
    "check_handlers vm m starts cp = Inr hs" "check_news (m_stackmaps m) starts = Inr ()"
    "initialize_locals vm m (frame_initialize (gc_frame g) m) = Inr f"
    "s0 = \<lparr>vs_frame = f, vs_no_control_flow = False, vs_current_stackmap_index = 0,
           vs_cp = hs_cp hs, vs_min_exception_start_bci = hs_min_start hs,
           vs_max_exception_end_bci = hs_max_end hs\<rparr>"
  using assms
  by (auto simp: verify_checks_def verify_start_def jvm_check_Inr_iff split: sum.splits)

lemma verify_method_run:
  assumes "verify_method vm g cp m = Some (Inr cp')"
  obtains s0 s where "verify_checks vm g cp m = Some (Inr s0)"
    "pass_at (verify_env_for vm (gc_stackmaps g) m) (m_code_size m) s0 (m_code_size m) s"
    "vs_no_control_flow s"
    "vs_current_stackmap_index s = 2 * int (length (stackmaps (vs_frame s)))" "cp' = vs_cp s"
proof -
  let ?env = "verify_env_for vm (gc_stackmaps g) m"
  have code: "ve_method ?env = m" by (simp add: verify_env_for_def split: prod.splits)
  from assms obtain s0 s where s0: "verify_checks vm g cp m = Some (Inr s0)"
    and s: "iterate_method (nat (m_code_size m) + 1) ?env (m_code_size m) 0 s0 = Some (Inr s)"
    and e: "verify_end s = Inr cp'"
    by (auto simp: verify_method_def jvm_check_Inr_iff simp del: iterate_method.simps
        split: option.splits sum.splits)
  from s0 obtain starts where st: "get_instruction_starts (gc_starts g) (m_code m) (m_code_size m) = Some (Inr starts)"
    by (rule verify_checks_result)
  have "0 \<le> next_bci (m_code m) t" if "instruction_at (m_code m) (m_code_size m) t" for t
    using get_instruction_starts_marks(2) [OF st that] by (auto simp: good_length_def next_bci_def)
  then have "pass_at ?env (m_code_size m) s0 (m_code_size m) s"
    by (intro iterate_method_pass [OF _ s]) (auto simp: code intro: pass_start)
  with that s0 e show thesis by (auto simp: verify_end_def split: if_splits)
qed

text \<open>The hypotheses of the theorems about the pass: what the class file parser and the
  caches provide.\<close>

definition method_ok :: "vm \<Rightarrow> global_caches \<Rightarrow> constant_pool \<Rightarrow> jvm_method \<Rightarrow> bool" where
  "method_ok vm g cp m =
     (list_all (wf_stackmap (m_max_stack m) (m_max_locals m) (m_code_size m)) (m_stackmaps m) \<and>
      0 \<le> m_code_size m \<and> m_code_size m \<le> 65535 \<and> calls_fit vm cp \<and> caches_ok (gc_frame g) m \<and>
      min (m_code_size m) 512 \<le> int (length (gc_stackmaps g)))"

lemma pass_at_verified:
  assumes "method_ok vm g cp m" "verify_checks vm g cp m = Some (Inr s0)"
    "pass_at (verify_env_for vm (gc_stackmaps g) m) (m_code_size m) s0 bci s"
  shows "pass_ok (verify_env_for vm (gc_stackmaps g) m) (vs_cp s0) s" "calls_fit vm (vs_cp s0)"
    "env_ok (verify_env_for vm (gc_stackmaps g) m)"
proof -
  let ?env = "verify_env_for vm (gc_stackmaps g) m"
  from assms(2) obtain starts hs f where
    st: "get_instruction_starts (gc_starts g) (m_code m) (m_code_size m) = Some (Inr starts)" and
    hs: "check_handlers vm m starts cp = Inr hs" and
    f: "initialize_locals vm m (frame_initialize (gc_frame g) m) = Inr f" and
    s0: "vs_frame s0 = f" "vs_cp s0 = hs_cp hs"
    by (elim verify_checks_result) auto
  note env = verify_env_for_ok [of m "gc_stackmaps g" vm]
  have m: "list_all (wf_stackmap (m_max_stack m) (m_max_locals m) (m_code_size m)) (m_stackmaps m)"
    "min (m_code_size m) 512 \<le> int (length (gc_stackmaps g))" "0 \<le> m_code_size m"
    "m_code_size m \<le> 65535" "calls_fit vm cp" "caches_ok (gc_frame g) m"
    using assms(1) by (auto simp: method_ok_def)
  show fit: "calls_fit vm (vs_cp s0)"
    using calls_fit_same_refs [OF m(5) check_handlers_same_refs [OF hs]] s0(2) by simp
  show env_ok: "env_ok ?env" by (rule env(1) [OF m(1-3)])
  have "pass_ok ?env (vs_cp s0) s0"
    using initialize_locals_ok [OF f m(6)] s0 by (simp add: pass_ok_def env(2) [OF m(1-3)])
  then show "pass_ok ?env (vs_cp s0) s"
    using get_instruction_starts_marks(2) [OF st]
    by (intro pass_at_ok [OF assms(3) _ env_ok m(4)])
      (auto simp: env(2,3) [OF m(1-3)] fit)
qed

end
