(* ===== verification/Example_World.thy ===== *)
theory Example_World
  imports Verify_Method
begin

text \<open>
  A small virtual machine and a few methods, on which the hypotheses of the
  theorems about the verifier are shown to hold: the classes \<open>java.lang.Object\<close>,
  \<open>java.lang.String\<close> and \<open>java.lang.Throwable\<close>, a class \<open>A\<close>, the array class
  \<open>int[]\<close>, and methods of \<open>A\<close>.
\<close>

section \<open>Classes\<close>

definition ex_object :: java_class where
  "ex_object = Instance_Class 14 java_lang_Object False None [] [] []"

definition ex_throwable :: java_class where
  "ex_throwable = Instance_Class 15 java_lang_Throwable False (Some ex_object) [] [] []"

definition ex_string :: java_class where
  "ex_string = Instance_Class 16 java_lang_String False (Some ex_object) [] [] []"

definition ex_A :: java_class where
  "ex_A = Instance_Class 17 (sym ''A'') False (Some ex_object) [] [] []"

definition ex_int_array :: java_class where
  "ex_int_array = Type_Array_Class 6 (sym ''int array'') (Some ex_object) T_INT"

definition ex_classes :: "java_class list" where
  "ex_classes = [ex_object, ex_throwable, ex_string, ex_A, ex_int_array]"

definition ex_find :: "symbol \<Rightarrow> java_class option" where
  "ex_find name = List.find (\<lambda>c. sym_equals (class_name c) name) ex_classes"

definition ex_class_from_id :: "nat \<Rightarrow> java_class" where
  "ex_class_from_id i =
     (case List.find (\<lambda>c. class_id c = i) ex_classes of Some c \<Rightarrow> c | None \<Rightarrow> ex_object)"

definition ex_array :: "nat \<Rightarrow> java_class" where
  "ex_array i = ex_int_array"

definition ex_resolve :: "symbol \<Rightarrow> error_tag + java_class" where
  "ex_resolve s = (case ex_find s of Some c \<Rightarrow> Inr c | None \<Rightarrow> Inl pending_exception)"

definition ex_array_class :: "java_class \<Rightarrow> nat \<Rightarrow> error_tag + java_class" where
  "ex_array_class c n = Inr ex_int_array"

definition ex_lookup_field :: "java_class \<Rightarrow> symbol \<Rightarrow> symbol \<Rightarrow> (jfield \<times> java_class) option" where
  "ex_lookup_field c name signature = None"

definition ex_vm :: vm where
  "ex_vm = \<lparr>class_from_id = ex_class_from_id, object_class = ex_object, throwable_class = ex_throwable,
            primitive_array_class = ex_array, sd_resolve = ex_resolve, sd_semi_resolve = ex_resolve,
            sd_find_class_or_null = ex_find, get_array_class = ex_array_class,
            lookup_field = ex_lookup_field\<rparr>"

text \<open>The caches, as far as the methods below need them.\<close>

definition ex_caches :: global_caches where
  "ex_caches = \<lparr>gc_frame = \<lparr>vstack_tags_cache = [0, 0, 0, 0],
                           vstack_classes_cache = [None, None, None, None],
                           vlocals_tags_cache = [0, 0, 0, 0],
                           vlocals_classes_cache = [None, None, None, None]\<rparr>,
               gc_stackmaps = replicate 16 0, gc_starts = replicate 16 0\<rparr>"


section \<open>Methods\<close>

definition ex_signature :: "nat \<Rightarrow> string \<Rightarrow> symbol" where
  "ex_signature words types =
     Symbol Method_signature_near (put_encoded_ushort (encode_ushort (of_nat words)) @ ascii types)"

text \<open>A loop that counts its argument down:
  \<open>iload_0; ifeq 10; iinc 0 -1; goto 0; return\<close>, with stack maps at 0 and 10.\<close>

definition ex_loop_code :: code_mem where
  "ex_loop_code i =
     code_of_bytes [0x1a, 0x99, 0, 9, 0x84, 0, 255, 0xa7, 0xff, 0xf9, 0xb1] i"

definition ex_loop :: jvm_method where
  "ex_loop =
     \<lparr>m_name = sym ''loop'', m_signature = ex_signature 1 ''VI'', m_static = True,
      m_native_or_abstract = False, m_holder = ex_A,
      m_code = ex_loop_code, m_code_size = 11, m_max_stack = 2, m_max_locals = 1, m_exceptions = [],
      m_stackmaps = [([0, 1, 1, 0, 0], replicate 5 None), ([10, 1, 1, 0, 0], replicate 5 None)]\<rparr>"

end
