(* ===== verification/Verifier_Soundness.thy ===== *)
theory Verifier_Soundness
  imports Verifier_Pass Example_World
begin

text \<open>
  What a method is known to do once \<open>VerifyMethodCodes::verify\<close> has accepted it: where
  its branches and handlers go, that it does not run off its end, and which frames it
  can have at each of its instructions.
\<close>

section \<open>Branch targets\<close>

lemma check_branch_target_result:
  assumes "env_ok env" "frame_of (ve_method env) f" "frame_sizes f" "jint_min \<le> t" "t \<le> jint_max"
  shows "check_branch_target env t f = Inr f' \<longleftrightarrow> f' = f \<and>
    (\<exists>sm. stackmap_at (m_stackmaps (ve_method env)) t = Some sm \<and> conforms (ve_vm env) f sm \<and>
       (is_object_initializer (ve_method env) \<and> need_initialization f \<longrightarrow> needs_init sm))"
  unfolding check_branch_target_def check_stackmap_match_result [OF assms]
  by (auto simp: Let_def split: option.splits)

text \<open>A branch looks for the map of its target.\<close>

definition has_map :: "verify_env \<Rightarrow> int \<Rightarrow> bool" where
  "has_map env t = (stackmap_at (m_stackmaps (ve_method env)) t \<noteq> None)"

lemma check_branch_target_map:
  assumes "check_branch_target env t f = Inr f'" "env_ok env" "frame_of (ve_method env) f"
    "jint_min \<le> t" "t \<le> jint_max"
  shows "has_map env t"
proof -
  let ?sms = "m_stackmaps (ve_method env)"
  have "stackmaps f = ?sms" using assms(3) by (simp add: frame_of_def)
  with assms(1) have "0 \<le> lookup_stackmap env ?sms t"
    by (auto simp: check_branch_target_def check_stackmap_match_def Let_def split: if_splits)
  moreover have "denotes ?sms (lookup_stackmap env ?sms t) (stackmap_at ?sms t)"
    using assms(2,4,5) by (simp add: env_ok_def)
  ultimately show ?thesis
    by (cases "stackmap_at ?sms t") (auto simp: has_map_def denotes_def)
qed

lemma pop_same_method:
  "pop_integer f = Inr g \<Longrightarrow> same_method f g" "drop_ref f = Inr g \<Longrightarrow> same_method f g"
  by (auto simp: pop_integer_def frame_pop_def drop_ref_def pop_ref_def pop_category1_def
      jvm_check_Inr_iff Let_def same_method_def split: if_splits)

lemma jvm_fold_each:
  "jvm_fold body xs s = Inr s' \<Longrightarrow> (\<And>i s s'. i \<in> set xs \<Longrightarrow> body i s = Inr s' \<Longrightarrow> P s \<Longrightarrow> P s' \<and> Q i) \<Longrightarrow>
     P s \<Longrightarrow> \<forall>i \<in> set xs. Q i"
proof (induction xs arbitrary: s)
  case (Cons x xs)
  then obtain t where "body x s = Inr t" "jvm_fold body xs t = Inr s'" by auto
  with Cons.IH [of t] Cons.prems(2,3) show ?case by (metis list.set_intros set_ConsD)
qed simp

text \<open>Every target of a call has been checked against the frame that the call leaves.\<close>

lemma frame_call_checks:
  assumes "frame_call env cp bci c f = Inr f'" "t \<in> branch_targets (m_code (ve_method env)) bci c"
  shows "check_branch_target env t f' = Inr f'" "same_method f f'"
proof -
  have "check_branch_target env t f' = Inr f' \<and> same_method f f'"
  proof (cases c)
    case (Table_switch i d low high)
    with assms(1) obtain g where g: "pop_integer f = Inr g" "check_branch_target env d g = Inr g"
      "jvm_fold (\<lambda>k f. check_branch_target env
          (jint (bci + get_java_switch_int (m_code (ve_method env)) (i + 12 + 4 * k))) f)
        [0..jint (high - low)] g = Inr f'"
      by (auto simp: frame_call_def table_switch_def Let_def jvm_check_Inr_iff dest: check_target_same)
    have "f' = g" by (rule jvm_fold_inv [OF g(3)]) (auto dest: check_target_same)
    moreover have "\<forall>k \<in> set [0..jint (high - low)]. check_branch_target env
        (jint (bci + get_java_switch_int (m_code (ve_method env)) (i + 12 + 4 * k))) g = Inr g"
      by (rule jvm_fold_each [OF g(3), where P = "\<lambda>f. f = g"]) (auto dest: check_target_same)
    ultimately show ?thesis
      using g(2) assms(2) pop_same_method(1) [OF g(1)] by (auto simp: branch_targets_def Table_switch)
  next
    case (Lookup_switch i d n)
    with assms(1) obtain g k where g: "pop_integer f = Inr g" "check_branch_target env d g = Inr g"
      "jvm_fold (lookup_switch_pair env bci i) [0..n - 1] (0, g) = Inr (k, f')"
      by (auto simp: frame_call_def lookup_switch_def Let_def jvm_check_Inr_iff dest: check_target_same)
    note pair = lookup_switch_pair_def Let_def jvm_check_Inr_iff
    have "snd (k, f') = g"
      by (rule jvm_fold_inv [OF g(3)]) (auto simp: pair dest!: check_target_same split: if_splits)
    moreover have "\<forall>k \<in> set [0..n - 1]. check_branch_target env
        (jint (bci + get_java_switch_int (m_code (ve_method env)) (i + 8 + 8 * k + 4))) g = Inr g"
      by (rule jvm_fold_each [OF g(3), where P = "\<lambda>s. snd s = g"])
        (auto simp: pair dest: check_target_same split: if_splits)
    ultimately show ?thesis
      using g(2) assms(2) pop_same_method(1) [OF g(1)] by (auto simp: branch_targets_def Lookup_switch)
  qed (use assms in \<open>auto simp: frame_call_def branch_targets_def branch_if_def
        branch_if_icmp_def branch_if_acmp_def jvm_check_Inr_iff split: if_splits
        dest: check_target_same pop_same_method intro: same_method_trans\<close>)
  then show "check_branch_target env t f' = Inr f'" "same_method f f'" by simp_all
qed

lemma frame_call_targets:
  assumes "frame_call env cp bci c f = Inr f'" "env_ok env" "frame_of (ve_method env) f"
    "\<forall>t \<in> branch_targets (m_code (ve_method env)) bci c. jint_min \<le> t \<and> t \<le> jint_max"
  shows "\<forall>t \<in> branch_targets (m_code (ve_method env)) bci c. has_map env t"
proof
  fix t assume t: "t \<in> branch_targets (m_code (ve_method env)) bci c"
  note c = frame_call_checks [OF assms(1) t]
  show "has_map env t"
    using check_branch_target_map [OF c(1) assms(2) frame_of_same [OF assms(3) c(2)]] assms(4) t by blast
qed

section \<open>Every instruction is visited\<close>

text \<open>What \<open>GetInstructionStarts\<close> has found out about the code.\<close>

definition walkable :: "code_mem \<Rightarrow> int \<Rightarrow> bool" where
  "walkable m len =
     (\<forall>t. instruction_at m len t \<longrightarrow> 0 \<le> t \<and> t < len \<and> good_length m t \<and> next_bci m t \<le> len)"

lemma walkableD:
  assumes "walkable m len" "instruction_at m len t"
  shows "0 \<le> t" "t < len" "good_length m t" "next_bci m t \<le> len" "t < next_bci m t"
  using assms by (auto simp: walkable_def good_length_def next_bci_def)

lemma starts_walkable:
  "get_instruction_starts cache m len = Some (Inr starts) \<Longrightarrow> walkable m len"
  using get_instruction_starts_marks(2) by (auto simp: walkable_def)

lemma ahead_linear: "ahead m len a b \<Longrightarrow> ahead m len a t \<Longrightarrow> ahead m len b t \<or> ahead m len t b"
proof (induction rule: ahead.induct)
  case (later a b)
  from later.prems show ?case
  proof (rule aheadE)
    assume "t = a" then show ?thesis using later.hyps by (auto intro: ahead.later)
  qed (use later.IH in blast)
qed simp

lemma ahead_le: "ahead m len a t \<Longrightarrow> walkable m len \<Longrightarrow> instruction_at m len a \<Longrightarrow> a \<le> t"
proof (induction rule: ahead.induct)
  case (later a t)
  from later.hyps(2) have "next_bci m a < len" by (auto elim: aheadE)
  with later.prems have "instruction_at m len (next_bci m a)" by (auto intro: instruction_at.next_one)
  with later.IH later.prems walkableD(5) [OF later.prems] show ?case by auto
qed simp

lemma no_instruction_inside:
  assumes "walkable m len" "instruction_at m len b" "instruction_at m len t" "b < t"
  shows "next_bci m b \<le> t"
proof -
  have "ahead m len b t \<or> ahead m len t b"
    using ahead_linear instruction_at_ahead assms(2,3) by blast
  with ahead_le [OF _ assms(1,3), of b] assms(4) have "ahead m len b t" by auto
  then have a: "ahead m len (next_bci m b) t" using assms(4) by (auto elim: aheadE)
  then have "next_bci m b < len" by (auto elim: aheadE)
  with ahead_le [OF a assms(1)] assms(2) show ?thesis by (auto intro: instruction_at.next_one)
qed

lemma pass_visits:
  assumes "pass_at env len s0 bci s" "walkable (m_code (ve_method env)) len"
    "instruction_at (m_code (ve_method env)) len t" "t < bci"
  obtains s1 s2 where "pass_at env len s0 t s1" "iterate_bytecode env t s1 = Inr s2"
  using assms(1,3,4)
proof (induction arbitrary: thesis rule: pass_at.induct)
  case pass_start
  then show ?case using walkableD(1) [OF assms(2,3)] by simp
next
  case (pass_step bci s s')
  have "instruction_at (m_code (ve_method env)) len bci"
    by (rule pass_instruction [OF pass_step.hyps(1,2)])
  with no_instruction_inside [OF assms(2)] pass_step.prems(2,3) have "t \<le> bci" by fastforce
  with pass_step show ?case by (cases "t = bci") auto
qed


section \<open>The offsets of the maps\<close>

text \<open>The maps before the current one have been met at an instruction.\<close>

definition maps_passed :: "verify_env \<Rightarrow> int \<Rightarrow> vstate \<Rightarrow> bool" where
  "maps_passed env len s =
     (\<exists>k \<le> length (m_stackmaps (ve_method env)). vs_current_stackmap_index s = 2 * int k \<and>
        (\<forall>j < k. instruction_at (m_code (ve_method env)) len
                   (map_offset (m_stackmaps (ve_method env) ! j))))"

lemma advance_stackmap_passed:
  assumes "advance_stackmap bci s = Inr t" "stackmaps (vs_frame s) = m_stackmaps (ve_method env)"
    "instruction_at (m_code (ve_method env)) len bci" "maps_passed env len s"
  shows "maps_passed env len t"
proof -
  from assms(4) obtain k where k: "k \<le> length (m_stackmaps (ve_method env))"
    "vs_current_stackmap_index s = 2 * int k"
    "\<forall>j < k. instruction_at (m_code (ve_method env)) len (map_offset (m_stackmaps (ve_method env) ! j))"
    unfolding maps_passed_def by blast
  have n: "nat (2 * int k) div 2 = k" by simp
  consider "t = s" | "k < length (m_stackmaps (ve_method env))"
    "map_offset (m_stackmaps (ve_method env) ! k) = bci" "vs_current_stackmap_index t = 2 * int (Suc k)"
    using assms(1) by (auto simp: advance_stackmap_def Let_def assms(2) k(2) n split: if_splits)
  then show ?thesis
  proof cases
    case 2
    then show ?thesis unfolding maps_passed_def
      using k(3) assms(3) by (intro exI [of _ "Suc k"]) (auto simp: less_Suc_eq)
  qed (use assms(4) in simp)
qed

lemma handle_call_index:
  "handle_call env bci c s = Inr s' \<Longrightarrow> vs_current_stackmap_index s' = vs_current_stackmap_index s"
  by (auto simp: handle_call_def jvm_check_Inr_iff)

text \<open>The phases of \<open>bytecode_prolog\<close> and of a bytecode.\<close>

lemma bytecode_prologE:
  assumes "bytecode_prolog env bci s = Inr s'"
  obtains t f g where "advance_stackmap bci s = Inr t"
    "check_current_target env bci (vs_no_control_flow t) (vs_frame t) = Inr f"
    "(if vs_min_exception_start_bci t \<le> bci \<and> bci < vs_max_exception_end_bci t
      then check_exception_handlers_for_bci env (vs_cp t) bci f else Inr f) = Inr g"
    "s' = t\<lparr>vs_frame := g, vs_no_control_flow := False\<rparr>"
  using assms that unfolding bytecode_prolog_def by (elim jvm_check_InrE) simp

lemma iterate_bytecodeE:
  assumes "iterate_bytecode env bci s = Inr s'"
  obtains t where "bytecode_prolog env bci s = Inr t"
    "jvm_fold (handle_call env bci) (iterate_calls (m_code (ve_method env)) (vs_cp t) bci) t = Inr s'"
  using assms that by (auto simp: iterate_bytecode_def)

lemma iterate_bytecode_passed:
  assumes "iterate_bytecode env bci s = Inr s'" "stackmaps (vs_frame s) = m_stackmaps (ve_method env)"
    "instruction_at (m_code (ve_method env)) len bci" "maps_passed env len s"
  shows "maps_passed env len s'"
proof -
  from assms(1) obtain u where u: "bytecode_prolog env bci s = Inr u"
    "jvm_fold (handle_call env bci) (iterate_calls (m_code (ve_method env)) (vs_cp u) bci) u = Inr s'"
    by (rule iterate_bytecodeE)
  from u(1) obtain t where t: "advance_stackmap bci s = Inr t"
    "vs_current_stackmap_index u = vs_current_stackmap_index t"
    by (elim bytecode_prologE) simp
  have "vs_current_stackmap_index s' = vs_current_stackmap_index t"
    by (rule jvm_fold_inv [OF u(2), where P = "\<lambda>s. vs_current_stackmap_index s = vs_current_stackmap_index t"])
      (auto simp: t(2) handle_call_index)
  with advance_stackmap_passed [OF t(1) assms(2-4)] show ?thesis by (simp add: maps_passed_def)
qed

lemma pass_at_passed:
  assumes "pass_at env len s0 bci s" "vs_current_stackmap_index s0 = 0"
    "\<And>bci s. pass_at env len s0 bci s \<Longrightarrow> stackmaps (vs_frame s) = m_stackmaps (ve_method env)"
  shows "maps_passed env len s"
  using assms(1)
proof (induction rule: pass_at.induct)
  case (pass_step bci s s')
  then show ?case
    using iterate_bytecode_passed assms(3) [OF pass_step.hyps(1)] pass_instruction by blast
qed (auto simp: maps_passed_def assms(2))

section \<open>A verified method\<close>

lemma verify_env_for_simps [simp]:
  "ve_method (verify_env_for vm cache m) = m" "ve_vm (verify_env_for vm cache m) = vm"
  by (simp_all add: verify_env_for_def split: prod.splits)

text \<open>What a successful verification is: the checks before the pass, a pass over all the
  bytecodes with the invariant in each of its states, and the state at its end.\<close>

definition verified_pass ::
  "vm \<Rightarrow> global_caches \<Rightarrow> constant_pool \<Rightarrow> jvm_method \<Rightarrow> constant_pool \<Rightarrow> verify_env \<Rightarrow> vstate \<Rightarrow> vstate \<Rightarrow> bool" where
  "verified_pass vm g cp m cp' env s0 s =
     (env = verify_env_for vm (gc_stackmaps g) m \<and>
      verify_checks vm g cp m = Some (Inr s0) \<and>
      pass_at env (m_code_size m) s0 (m_code_size m) s \<and> vs_no_control_flow s \<and>
      vs_current_stackmap_index s = 2 * int (length (m_stackmaps m)) \<and>
      walkable (m_code m) (m_code_size m) \<and> env_ok env \<and> calls_fit vm cp' \<and>
      0 \<le> m_code_size m \<and> m_code_size m \<le> 65535 \<and>
      (\<forall>bci t. pass_at env (m_code_size m) s0 bci t \<longrightarrow> pass_ok env cp' t))"

lemma verified_passI:
  assumes "verify_method vm g cp m = Some (Inr cp')" "method_ok vm g cp m"
  obtains env s0 s where "verified_pass vm g cp m cp' env s0 s"
proof -
  from assms(1) obtain s0 s where s: "verify_checks vm g cp m = Some (Inr s0)"
    "pass_at (verify_env_for vm (gc_stackmaps g) m) (m_code_size m) s0 (m_code_size m) s"
    "vs_no_control_flow s"
    "vs_current_stackmap_index s = 2 * int (length (stackmaps (vs_frame s)))" "cp' = vs_cp s"
    by (rule verify_method_run)
  note ok = pass_at_verified [OF assms(2) s(1)]
  have cp: "vs_cp s0 = cp'" using ok(1) [OF s(2)] s(5) by (simp add: pass_ok_def)
  from s(1) obtain starts where
    "get_instruction_starts (gc_starts g) (m_code m) (m_code_size m) = Some (Inr starts)"
    by (rule verify_checks_result)
  then have "walkable (m_code m) (m_code_size m)" by (rule starts_walkable)
  moreover have "stackmaps (vs_frame s) = m_stackmaps m"
    using ok(1) [OF s(2)] by (simp add: pass_ok_def frame_of_def)
  ultimately show thesis
    using that [of "verify_env_for vm (gc_stackmaps g) m" s0 s] s ok cp assms(2)
    by (simp add: verified_pass_def method_ok_def)
qed

lemma verified_passD:
  assumes "verified_pass vm g cp m cp' env s0 s"
  shows "ve_method env = m" "ve_vm env = vm" "verify_checks vm g cp m = Some (Inr s0)"
    "pass_at env (m_code_size m) s0 (m_code_size m) s" "vs_no_control_flow s"
    "vs_current_stackmap_index s = 2 * int (length (m_stackmaps m))"
    "walkable (m_code m) (m_code_size m)" "env_ok env" "calls_fit vm cp'"
    "0 \<le> m_code_size m" "m_code_size m \<le> 65535"
    "\<And>bci t. pass_at env (m_code_size m) s0 bci t \<Longrightarrow> pass_ok env cp' t"
  using assms by (auto simp: verified_pass_def)

lemma pass_ok_stackmaps: "pass_ok env cp s \<Longrightarrow> stackmaps (vs_frame s) = m_stackmaps (ve_method env)"
  by (simp add: pass_ok_def frame_of_def)

lemma verified_map_offset:
  assumes "verified_pass vm g cp m cp' env s0 s" "sm \<in> set (m_stackmaps m)"
  shows "instruction_at (m_code m) (m_code_size m) (map_offset sm)"
proof -
  note v = verified_passD [OF assms(1)]
  have s0: "vs_current_stackmap_index s0 = 0"
    by (rule verify_checks_result [OF v(3)]) simp
  have "maps_passed env (m_code_size m) s"
    by (rule pass_at_passed [OF v(4) s0]) (rule pass_ok_stackmaps [OF v(12)])
  then show ?thesis
    using v(6) assms(2) by (auto simp: maps_passed_def v(1) in_set_conv_nth)
qed

lemma verified_stackmap_at:
  assumes "verified_pass vm g cp m cp' env s0 s" "has_map env t"
  shows "instruction_at (m_code m) (m_code_size m) t"
proof -
  from assms(2) obtain sm where sm: "stackmap_at (m_stackmaps m) t = Some sm"
    by (auto simp: has_map_def verified_passD(1) [OF assms(1)])
  from verified_map_offset [OF assms(1)] stackmap_at_SomeD [OF sm] show ?thesis by blast
qed

text \<open>What has happened at an instruction.\<close>

lemma verified_step:
  assumes "verified_pass vm g cp m cp' env s0 s" "instruction_at (m_code m) (m_code_size m) bci"
  obtains s1 t s2 where "pass_at env (m_code_size m) s0 bci s1" "bytecode_prolog env bci s1 = Inr t"
    "pass_ok env cp' t"
    "jvm_fold (handle_call env bci) (iterate_calls (m_code m) cp' bci) t = Inr s2"
    "iterate_bytecode env bci s1 = Inr s2"
proof -
  note v = verified_passD [OF assms(1)]
  note b = walkableD [OF v(7) assms(2)]
  obtain s1 s2 where s1: "pass_at env (m_code_size m) s0 bci s1" "iterate_bytecode env bci s1 = Inr s2"
    by (rule pass_visits [of env "m_code_size m" s0 "m_code_size m" s bci]) (use v(4,7) assms(2) b in \<open>auto simp: v(1)\<close>)
  from s1(2) obtain t where t: "bytecode_prolog env bci s1 = Inr t"
    "jvm_fold (handle_call env bci) (iterate_calls (m_code m) (vs_cp t) bci) t = Inr s2"
    by (auto simp: v(1) elim: iterate_bytecodeE)
  have "pass_ok env cp' t"
    using v(12) [OF s1(1)] v(8,11) b by (intro bytecode_prolog_ok [OF t(1)]) auto
  moreover from this have "vs_cp t = cp'" by (simp add: pass_ok_def)
  ultimately show thesis using that s1 t by simp
qed

lemma verified_targets:
  assumes "verified_pass vm g cp m cp' env s0 s" "instruction_at (m_code m) (m_code_size m) bci"
    "c \<in> set (iterate_calls (m_code m) cp' bci)" "t \<in> branch_targets (m_code m) bci c"
  shows "has_map env t"
proof -
  note v = verified_passD [OF assms(1)]
  note b = walkableD [OF v(7) assms(2)]
  have fit: "\<forall>t \<in> branch_targets (m_code m) bci c. jint_min \<le> t \<and> t \<le> jint_max"
    if "c \<in> set (iterate_calls (m_code m) cp' bci)" for c
    using iterate_calls_fit [OF _ _ that] b v(11) by (simp add: operands_fit_def)
  from verified_step [OF assms(1,2)] obtain u s2 where u: "pass_ok env cp' u"
    "jvm_fold (handle_call env bci) (iterate_calls (m_code m) cp' bci) u = Inr s2" by metis
  have "\<forall>c \<in> set (iterate_calls (m_code m) cp' bci). \<forall>t \<in> branch_targets (m_code m) bci c. has_map env t"
  proof (rule jvm_fold_each [OF u(2), where P = "pass_ok env cp'"])
    fix c s s' assume c: "c \<in> set (iterate_calls (m_code m) cp' bci)" "handle_call env bci c s = Inr s'"
      "pass_ok env cp' s"
    from c(2) obtain f where f: "frame_call env (vs_cp s) bci c (vs_frame s) = Inr f"
      by (auto simp: handle_call_def jvm_check_Inr_iff)
    have "frame_of (ve_method env) (vs_frame s)" using c(3) by (simp add: pass_ok_def)
    from frame_call_targets [OF f v(8) this] fit [OF c(1)]
    have "\<forall>t \<in> branch_targets (m_code m) bci c. has_map env t" by (simp add: v(1))
    moreover have "pass_ok env cp' s'"
      using handle_call_keeps [OF c(2)] c(3) v(9) iterate_calls_fit [OF _ _ c(1)] b v(11)
      by (auto simp: pass_ok_def keeps_def operands_fit_def v(2) intro: frame_of_same)
    ultimately show "pass_ok env cp' s' \<and> (\<forall>t \<in> branch_targets (m_code m) bci c. has_map env t)" by blast
  qed (rule u(1))
  with assms(3,4) show ?thesis by blast
qed

text \<open>Control flow: a bytecode after which \<open>no_control_flow\<close> is set has ended it.\<close>

lemma calls_no_control_flow:
  "jvm_fold (handle_call env bci) cs s = Inr s' \<Longrightarrow>
     vs_no_control_flow s' \<longleftrightarrow> vs_no_control_flow s \<or> (\<exists>c \<in> set cs. ends_control_flow c)"
proof (induction cs arbitrary: s)
  case (Cons c cs)
  then obtain t where t: "handle_call env bci c s = Inr t" "jvm_fold (handle_call env bci) cs t = Inr s'"
    by auto
  from t(1) have "vs_no_control_flow t \<longleftrightarrow> vs_no_control_flow s \<or> ends_control_flow c"
    by (auto simp: handle_call_def jvm_check_Inr_iff)
  with Cons.IH [OF t(2)] show ?case by auto
qed simp

lemma verified_ends:
  assumes "verified_pass vm g cp m cp' env s0 s" "instruction_at (m_code m) (m_code_size m) bci"
    "next_bci (m_code m) bci = m_code_size m"
  shows "\<exists>c \<in> set (iterate_calls (m_code m) cp' bci). ends_control_flow c"
proof -
  note v = verified_passD [OF assms(1)]
  from v(4) show ?thesis
  proof (cases rule: pass_at.cases)
    case pass_start
    with walkableD(1,2) [OF v(7) assms(2)] show ?thesis by simp
  next
    case (pass_step b t)
    have ib: "instruction_at (m_code m) (m_code_size m) b"
      using pass_instruction [OF pass_step(2,3)] by (simp add: v(1))
    have n: "next_bci (m_code m) b = m_code_size m" using pass_step(1) by (simp add: v(1))
    have "\<not> b < bci" using no_instruction_inside [OF v(7) ib assms(2)] n walkableD(2) [OF v(7) assms(2)]
      by auto
    moreover have "\<not> bci < b"
      using no_instruction_inside [OF v(7) assms(2) ib] assms(3) walkableD(2) [OF v(7) ib] by auto
    ultimately have "b = bci" by simp
    from pass_step(4) obtain u where u: "bytecode_prolog env b t = Inr u"
      "jvm_fold (handle_call env b) (iterate_calls (m_code m) (vs_cp u) b) u = Inr s"
      by (auto simp: v(1) elim: iterate_bytecodeE)
    have "pass_ok env cp' u"
      using v(12) [OF pass_step(2)] v(8,11) walkableD(1,2) [OF v(7) ib]
      by (intro bytecode_prolog_ok [OF u(1)]) auto
    then have "vs_cp u = cp'" by (simp add: pass_ok_def)
    moreover have "\<not> vs_no_control_flow u" using u(1) by (auto elim: bytecode_prologE)
    ultimately show ?thesis
      using calls_no_control_flow [OF u(2)] v(5) by (simp add: \<open>b = bci\<close>)
  qed
qed

lemma verified_nonempty:
  assumes "verified_pass vm g cp m cp' env s0 s"
  shows "0 < m_code_size m"
proof (rule ccontr)
  note v = verified_passD [OF assms]
  assume "\<not> 0 < m_code_size m"
  then have "\<not> instruction_at (m_code m) (m_code_size m) b" for b
    using instruction_at_nonempty by blast
  with v(4) have "s = s0" by (cases rule: pass_at.cases) (auto simp: v(1) dest: pass_instruction)
  moreover have "\<not> vs_no_control_flow s0" by (rule verify_checks_result [OF v(3)]) simp
  ultimately show False using v(5) by simp
qed

section \<open>Exception handlers\<close>

text \<open>A row of the exception table whose offsets are at instructions.\<close>

definition handler_ok :: "code_mem \<Rightarrow> int \<Rightarrow> handler_entry \<Rightarrow> bool" where
  "handler_ok m len e =
     (start_pc e \<le> end_pc e \<and> instruction_at m len (start_pc e) \<and> instruction_at m len (handler_pc e) \<and>
      (end_pc e = len \<or> instruction_at m len (end_pc e)))"

lemma start_mark_instruction:
  assumes "get_instruction_starts cache m len = Some (Inr starts)" "0 \<le> t" "t < len" "starts ! nat t \<noteq> 0"
  shows "instruction_at m len t"
  using get_instruction_starts_marks(1) [OF assms(1)] assms(2-4) by (auto split: if_splits)

lemma check_handler_row:
  assumes "check_handler vm len starts e s = Inr s'"
    "get_instruction_starts cache m len = Some (Inr starts)"
  shows "handler_ok m len e" "hs_min_start s' = min (hs_min_start s) (start_pc e)"
    "hs_max_end s' = max (hs_max_end s) (end_pc e)"
proof -
  from assms(1) have r: "start_pc e \<le> end_pc e" "0 \<le> start_pc e" "start_pc e < len"
    "0 \<le> handler_pc e" "handler_pc e < len" "0 < end_pc e" "end_pc e \<le> len"
    "starts ! nat (start_pc e) \<noteq> 0" "starts ! nat (handler_pc e) \<noteq> 0"
    "end_pc e < len \<longrightarrow> starts ! nat (end_pc e) \<noteq> 0"
    by (auto simp: check_handler_def Let_def split: if_splits)
  note start = start_mark_instruction [OF assms(2)]
  have "end_pc e = len \<or> instruction_at m len (end_pc e)"
    using r start [of "end_pc e"] by fastforce
  then show "handler_ok m len e" using r start by (simp add: handler_ok_def)
  show "hs_min_start s' = min (hs_min_start s) (start_pc e)"
    "hs_max_end s' = max (hs_max_end s) (end_pc e)"
    using assms(1) by (auto simp: check_handler_def Let_def jvm_check_Inr_iff split: if_splits)
qed

lemma check_handler_rows:
  assumes "get_instruction_starts cache m len = Some (Inr starts)"
  shows "jvm_fold (check_handler vm len starts) es s = Inr s' \<Longrightarrow>
    hs_min_start s' \<le> hs_min_start s \<and> hs_max_end s \<le> hs_max_end s' \<and>
    (\<forall>e \<in> set es. handler_ok m len e \<and> hs_min_start s' \<le> start_pc e \<and> end_pc e \<le> hs_max_end s')"
proof (induction es arbitrary: s)
  case (Cons e es)
  then obtain t where t: "check_handler vm len starts e s = Inr t"
    "jvm_fold (check_handler vm len starts) es t = Inr s'" by auto
  from Cons.IH [OF t(2)] check_handler_row [OF t(1) assms] show ?case by auto
qed simp

text \<open>No instruction of a handler's range is left out by the test of the whole range.\<close>

lemma verified_handler_rows:
  assumes "verified_pass vm g cp m cp' env s0 s" "e \<in> set (m_exceptions m)"
  shows "handler_ok (m_code m) (m_code_size m) e" "vs_min_exception_start_bci s0 \<le> start_pc e"
    "end_pc e \<le> vs_max_exception_end_bci s0"
proof -
  from verified_passD(3) [OF assms(1)] obtain starts hs f where
    st: "get_instruction_starts (gc_starts g) (m_code m) (m_code_size m) = Some (Inr starts)" and
    hs: "check_handlers vm m starts cp = Inr hs" and
    s0: "s0 = \<lparr>vs_frame = f, vs_no_control_flow = False, vs_current_stackmap_index = 0,
           vs_cp = hs_cp hs, vs_min_exception_start_bci = hs_min_start hs,
           vs_max_exception_end_bci = hs_max_end hs\<rparr>"
    by (rule verify_checks_result)
  from hs assms(2) obtain t where "jvm_fold (check_handler vm (m_code_size m) starts) (m_exceptions m) t = Inr hs"
    by (auto simp: check_handlers_def Let_def split: if_splits)
  from check_handler_rows [OF st this] assms(2)
  show "handler_ok (m_code m) (m_code_size m) e" "vs_min_exception_start_bci s0 \<le> start_pc e"
    "end_pc e \<le> vs_max_exception_end_bci s0" by (simp_all add: s0)
qed

definition same_range :: "vstate \<Rightarrow> vstate \<Rightarrow> bool" where
  "same_range s s' =
     (vs_min_exception_start_bci s' = vs_min_exception_start_bci s \<and>
      vs_max_exception_end_bci s' = vs_max_exception_end_bci s)"

lemma advance_stackmap_range: "advance_stackmap bci s = Inr s' \<Longrightarrow> same_range s s'"
  by (auto simp: advance_stackmap_def same_range_def Let_def split: if_splits)

lemma iterate_bytecode_range:
  assumes "iterate_bytecode env bci s = Inr s'"
  shows "same_range s s'"
proof -
  from assms obtain u where u: "bytecode_prolog env bci s = Inr u"
    "jvm_fold (handle_call env bci) (iterate_calls (m_code (ve_method env)) (vs_cp u) bci) u = Inr s'"
    by (rule iterate_bytecodeE)
  have "same_range s u"
    using u(1) by (elim bytecode_prologE) (use advance_stackmap_range in \<open>auto simp: same_range_def\<close>)
  show ?thesis
    by (rule jvm_fold_inv [OF u(2), where P = "same_range s"])
      (use \<open>same_range s u\<close> in \<open>auto simp: same_range_def handle_call_def jvm_check_Inr_iff\<close>)
qed

lemma pass_at_range: "pass_at env len s0 bci s \<Longrightarrow> same_range s0 s"
proof (induction rule: pass_at.induct)
  case (pass_step bci s s')
  with iterate_bytecode_range [OF pass_step.hyps(3)] show ?case by (simp add: same_range_def)
qed (simp add: same_range_def)

lemma check_exception_handler_map:
  assumes "check_exception_handler env cp bci e f = Inr f'" "start_pc e \<le> bci" "bci < end_pc e"
    "env_ok env" "frame_of (ve_method env) f" "jint_min \<le> handler_pc e" "handler_pc e \<le> jint_max"
  shows "has_map env (handler_pc e)"
proof -
  from assms(1-3) obtain k g h where g: "push_object k (save_stack_state f) = Inr g"
    "check_handler_target env (handler_pc e) g = Inr h"
    by (auto simp: check_exception_handler_def jvm_check_Inr_iff)
  have "frame_of (ve_method env) g"
    using assms(5) g(1) by (auto simp: push_category1_def save_stack_state_def vstack_put_def
        frame_of_def Let_def split: if_splits)
  with g(2) check_branch_target_map [of env "handler_pc e" g h] assms(4,6,7) show ?thesis
    by (simp add: check_handler_target_def check_branch_target_def)
qed

lemma verified_handler_map:
  assumes "verified_pass vm g cp m cp' env s0 s" "e \<in> set (m_exceptions m)"
    "instruction_at (m_code m) (m_code_size m) bci" "start_pc e \<le> bci" "bci < end_pc e"
  shows "has_map env (handler_pc e)"
proof -
  note v = verified_passD [OF assms(1)]
  note row = verified_handler_rows [OF assms(1,2)]
  note h = walkableD [OF v(7), of "handler_pc e"]
  from verified_step [OF assms(1,3)] obtain s1 u where s1: "pass_at env (m_code_size m) s0 bci s1"
    "bytecode_prolog env bci s1 = Inr u" by metis
  from s1(2) obtain t f k where t: "advance_stackmap bci s1 = Inr t"
    "check_current_target env bci (vs_no_control_flow t) (vs_frame t) = Inr f"
    "(if vs_min_exception_start_bci t \<le> bci \<and> bci < vs_max_exception_end_bci t
      then check_exception_handlers_for_bci env (vs_cp t) bci f else Inr f) = Inr k"
    by (rule bytecode_prologE)
  have "same_range s0 t"
    using pass_at_range [OF s1(1)] advance_stackmap_range [OF t(1)] by (simp add: same_range_def)
  with t(3) row(2,3) assms(4,5)
  have fold: "jvm_fold (check_exception_handler env (vs_cp t) bci) (m_exceptions m) f = Inr k"
    by (auto simp: same_range_def check_exception_handlers_for_bci_def v(1))
  have "vs_frame t = vs_frame s1" using t(1) by (auto simp: advance_stackmap_def Let_def split: if_splits)
  with v(12) [OF s1(1)] have p: "pass_ok env cp' (t\<lparr>vs_cp := cp'\<rparr>)" by (simp add: pass_ok_def)
  have f: "keeps f f \<and> frame_ok f \<and> frame_of m f"
    using check_current_target_ok [OF v(8) t(2)] p walkableD [OF v(7) assms(3)] v(11)
    by (auto simp: pass_ok_def v(1) intro: frame_of_same)
  have "\<forall>e \<in> set (m_exceptions m). start_pc e \<le> bci \<and> bci < end_pc e \<longrightarrow> has_map env (handler_pc e)"
  proof (rule jvm_fold_each [OF fold, where P = "\<lambda>f. frame_ok f \<and> frame_of m f"])
    fix d x y assume d: "d \<in> set (m_exceptions m)" "check_exception_handler env (vs_cp t) bci d x = Inr y"
      and x: "frame_ok x \<and> frame_of m x"
    have "0 \<le> handler_pc d" "handler_pc d < m_code_size m"
      using verified_handler_rows(1) [OF assms(1) d(1)] walkableD(1,2) [OF v(7)] by (auto simp: handler_ok_def)
    then show "(frame_ok y \<and> frame_of m y) \<and>
        (start_pc d \<le> bci \<and> bci < end_pc d \<longrightarrow> has_map env (handler_pc d))"
      using check_exception_handler_keeps [OF d(2)] check_exception_handler_map [OF d(2)] x v(8,11)
      by (auto simp: keeps_def v(1) intro: frame_of_same)
  qed (use f in simp)
  with assms(2,4,5) show ?thesis by blast
qed


section \<open>Uninitialized objects of the maps\<close>

text \<open>\<open>map_tags\<close> are the tags of the map's locals and stack.\<close>

lemma map_tags_items:
  assumes "map_nlocals sm + map_nstack sm + 3 \<le> length (fst sm)" "length (snd sm) = length (fst sm)"
    "p \<in> set (map_locals sm @ map_stack sm)"
  shows "fst p \<in> set (map_tags sm)"
proof -
  let ?n = "map_nlocals sm" and ?k = "map_nstack sm"
  from assms(3) obtain i where "i < ?n + ?k" "fst p = fst sm ! (if i < ?n then i + 2 else i + 3)"
  proof (cases "p \<in> set (map_locals sm)")
    case True
    then obtain i where "i < ?n" "p = (fst sm ! (i + 2), snd sm ! (i + 2))"
      using assms(1,2) by (auto simp: map_locals_def map_items_def in_set_conv_nth add.commute)
    then show thesis using that [of i] by simp
  next
    case False
    with assms(3) have "p \<in> set (map_stack sm)" by simp
    then obtain i where "i < ?k" "p = (fst sm ! (?n + 3 + i), snd sm ! (?n + 3 + i))"
      using assms(1,2) by (auto simp: map_stack_def map_items_def in_set_conv_nth)
    then show thesis using that [of "?n + i"] by (simp add: ac_simps)
  qed
  then show ?thesis by (force simp: map_tags_def)
qed

lemma check_news_tag:
  assumes "check_news sms starts = Inr ()" "get_instruction_starts cache m len = Some (Inr starts)"
    "sm \<in> set sms" "t \<in> set (map_tags sm)" "is_newobject t" "decode_newobject t < len"
  shows "instruction_at m len (decode_newobject t) \<and> bytecode_at m (decode_newobject t) = op_new"
proof -
  have "0 \<le> decode_newobject t" by (simp add: decode_newobject_def)
  moreover have "starts ! nat (decode_newobject t) AND 2 \<noteq> 0"
    using assms(1,3-5) by (auto simp: check_news_def news_ok_def list_all_iff split: if_splits)
  ultimately show ?thesis
    using get_instruction_starts_marks(1) [OF assms(2), rule_format, of "decode_newobject t"] assms(6)
    by (auto simp: mark_of_def split: if_splits)
qed

end
