(* ===== verification/Verified_Methods.thy ===== *)
theory Verified_Methods
  imports Verifier_Soundness
begin

text \<open>
  The properties of the verifier: it always returns, and a method that it accepts has
  the control flow and the frames that the interpreter relies on.  The witnesses are
  two methods of the example world.
\<close>

section \<open>Two methods\<close>

text \<open>A method that makes an object in a \<open>try\<close> block, with a handler for all exceptions:
  \<open>new A; pop; return; pop; return\<close>, stack maps at 3 (with the new object on the
  stack) and at 5, the handler.\<close>

definition ex_catch_code :: code_mem where
  "ex_catch_code i = code_of_bytes [0xbb, 0, 1, 0x57, 0xb1, 0x57, 0xb1] i"

definition ex_catch_maps :: "stackmap list" where
  "ex_catch_maps =
     [([3, 1, ITEM_Integer, 1, encode_newobject 0], replicate 5 None),
      ([5, 1, ITEM_Integer, 1, ITEM_Object], [None, None, None, None, Some java_lang_Throwable])]"

definition ex_catch :: jvm_method where
  "ex_catch = ex_loop\<lparr>m_name := sym ''catch'', m_code := ex_catch_code, m_code_size := 7,
     m_exceptions := [\<lparr>start_pc = 0, end_pc = 4, handler_pc = 5, catch_type = 0\<rparr>],
     m_stackmaps := ex_catch_maps\<rparr>"

definition ex_pool :: constant_pool where
  "ex_pool = [CP_Invalid, CP_UnresolvedClass (sym ''A'')]"

lemma ex_loop_verified: "\<exists>cp. verify_method ex_vm ex_caches [] ex_loop = Some (Inr cp)"
proof -
  have "case verify_method ex_vm ex_caches [] ex_loop of Some (Inr s) \<Rightarrow> True | _ \<Rightarrow> False" by code_simp
  then show ?thesis by (auto split: option.splits sum.splits)
qed

lemma ex_catch_verified: "\<exists>cp. verify_method ex_vm ex_caches ex_pool ex_catch = Some (Inr cp)"
proof -
  have "case verify_method ex_vm ex_caches ex_pool ex_catch of Some (Inr s) \<Rightarrow> True | _ \<Rightarrow> False"
    by code_simp
  then show ?thesis by (auto split: option.splits sum.splits)
qed

lemma no_calls_fit:
  assumes "\<forall>e \<in> set cp. \<not> is_field_or_method e" "length cp < 4294967296"
  shows "calls_fit vm cp"
  unfolding calls_fit_def
proof (intro allI impI)
  fix i name signature klass
  assume "0 \<le> i" "i \<le> 65535" "resolve_helper vm cp i = Inr (name, signature, klass)"
  then have "is_within_bounds cp i" "is_field_or_method (entry_at cp i)" "nat i < length cp"
    using assms(2) is_within_bounds_iff [of i cp] by (auto simp: resolve_helper_Inr)
  with assms(1) show "params_fit vm signature" by (auto simp: entry_at_def)
qed

lemma replicate_5: "replicate 5 x = [x, x, x, x, x]" by (simp add: eval_nat_numeral)

lemma ex_maps_wf:
  "list_all (wf_stackmap 2 1 11) (m_stackmaps ex_loop)" "list_all (wf_stackmap 2 1 7) ex_catch_maps"
  using encode_newobject_neq [of 3 0] encode_newobject_neq [of 4 0]
  by (auto simp: ex_loop_def ex_catch_maps_def wf_stackmap_def map_locals_def map_stack_def map_items_def
      map_nlocals_def map_nstack_def map_offset_def plain_tag_def replicate_5 drop_Cons' take_Cons'
      intro: exI [of _ 0])

lemma ex_methods_ok: "method_ok ex_vm ex_caches [] ex_loop" "method_ok ex_vm ex_caches ex_pool ex_catch"
  using ex_maps_wf
  by (simp_all add: method_ok_def ex_loop_def ex_catch_def ex_caches_def caches_ok_def no_calls_fit ex_pool_def is_field_or_method_def)

section \<open>The verifier returns\<close>

lemma get_instruction_starts_returns: "\<exists>r. get_instruction_starts cache m len = Some r"
proof (cases "0 \<le> len")
  case False
  then have "nat len = 0" by simp
  with False show ?thesis by (simp add: get_instruction_starts_def starts_loop_step)
qed (rule get_instruction_starts_total)

lemma verify_checks_returns: "\<exists>r. verify_checks vm g cp m = Some r"
proof -
  obtain r where "get_instruction_starts (gc_starts g) (m_code m) (m_code_size m) = Some r"
    using get_instruction_starts_returns by blast
  then show ?thesis by (simp add: verify_checks_def split: sum.splits)
qed

text \<open>C4: The verification of a method always comes to an end: the loop over the starts of
  the instructions and the pass over the bytecodes stop for every code, stack maps and
  tables, also for corrupted ones, within one round more than the code has bytes.\<close>

theorem verify_method_terminates: "\<exists>r. verify_method vm g cp m = Some r"
proof -
  obtain r where r: "verify_checks vm g cp m = Some r" using verify_checks_returns by blast
  show ?thesis
  proof (cases r)
    case (Inr s0)
    with r have "verify_checks vm g cp m = Some (Inr s0)" by simp
    then obtain starts where st:
      "get_instruction_starts (gc_starts g) (m_code m) (m_code_size m) = Some (Inr starts)"
      by (rule verify_checks_result)
    have good: "good_length (m_code m) t" if a: "ahead (m_code m) (m_code_size m) 0 t" for t
    proof -
      have "0 < m_code_size m" using a by (cases rule: ahead.cases) auto
      with a have "instruction_at (m_code m) (m_code_size m) t" by (simp add: instruction_at_iff_ahead)
      then show ?thesis using get_instruction_starts_marks(2) [OF st] by blast
    qed
    have "\<exists>x. iterate_method (nat (m_code_size m) + 1) (verify_env_for vm (gc_stackmaps g) m)
        (m_code_size m) 0 s0 = Some x"
      by (rule iterate_method_terminates) (simp_all add: good)
    then show ?thesis using Inr r by (auto simp: verify_method_def simp del: iterate_method.simps)
  qed (use r in \<open>simp add: verify_method_def\<close>)
qed


section \<open>Control flow\<close>

text \<open>C2: In a method that the verifier accepts, every branch, switch target and default
  target is the offset of an instruction for which the method has a stack map.\<close>

theorem verified_branch_targets:
  assumes "verify_method vm g cp m = Some (Inr cp')" "method_ok vm g cp m"
    "instruction_at (m_code m) (m_code_size m) bci"
    "c \<in> set (iterate_calls (m_code m) cp' bci)" "t \<in> branch_targets (m_code m) bci c"
  shows "instruction_at (m_code m) (m_code_size m) t \<and> (\<exists>sm \<in> set (m_stackmaps m). map_offset sm = t)"
proof -
  from assms(1,2) obtain env s0 s where v: "verified_pass vm g cp m cp' env s0 s" by (rule verified_passI)
  note map = verified_targets [OF v assms(3-5)]
  from verified_stackmap_at [OF v map] map show ?thesis
    by (auto simp: has_map_def verified_passD(1) [OF v] dest!: stackmap_at_SomeD)
qed

lemma ex_loop_instructions: "instruction_at ex_loop_code 11 0" "instruction_at ex_loop_code 11 1"
proof -
  have "next_bci ex_loop_code 0 = 1" by code_simp
  with instruction_at.first [of 11 ex_loop_code] instruction_at.next_one [of ex_loop_code 11 0]
  show "instruction_at ex_loop_code 11 0" "instruction_at ex_loop_code 11 1" by simp_all
qed

lemma ex_loop_branch: "Branch_if cond_eq 10 \<in> set (iterate_calls ex_loop_code cp 1)"
proof -
  have "bytecode_at ex_loop_code 1 = 153" "branch_destination ex_loop_code 1 = 10" by code_simp+
  then show ?thesis
    by (simp add: iterate_calls_def decode_bytecode_def decode_loads_stores_def decode_arrays_stack_def
        decode_arithmetic_def decode_control_def expand_call_def cond_ops_def)
qed

theorem verified_branch_targets_witness:
  "instruction_at ex_loop_code 11 10 \<and> (\<exists>sm \<in> set (m_stackmaps ex_loop). map_offset sm = 10)"
proof -
  obtain cp' where v: "verify_method ex_vm ex_caches [] ex_loop = Some (Inr cp')"
    using ex_loop_verified by blast
  have "m_code ex_loop = ex_loop_code" "m_code_size ex_loop = 11" by (simp_all add: ex_loop_def)
  moreover have "10 \<in> branch_targets ex_loop_code 1 (Branch_if cond_eq 10)" by (simp add: branch_targets_def)
  ultimately show ?thesis
    using verified_branch_targets [OF v ex_methods_ok(1), of 1 "Branch_if cond_eq 10" 10]
      ex_loop_instructions(2) ex_loop_branch by simp
qed

text \<open>C15: In a method that the verifier accepts, every stack map lies at the offset of an
  instruction; a map inside an instruction or behind the code is rejected.\<close>

theorem verified_maps_at_instructions:
  assumes "verify_method vm g cp m = Some (Inr cp')" "method_ok vm g cp m" "sm \<in> set (m_stackmaps m)"
  shows "instruction_at (m_code m) (m_code_size m) (map_offset sm)"
proof -
  from assms(1,2) obtain env s0 s where "verified_pass vm g cp m cp' env s0 s" by (rule verified_passI)
  from verified_map_offset [OF this assms(3)] show ?thesis .
qed

theorem verified_maps_at_instructions_witness:
  "instruction_at ex_loop_code 11 10"
proof -
  obtain cp' where v: "verify_method ex_vm ex_caches [] ex_loop = Some (Inr cp')"
    using ex_loop_verified by blast
  have "([10, 1, 1, 0, 0], replicate 5 None) \<in> set (m_stackmaps ex_loop)" by (simp add: ex_loop_def)
  from verified_maps_at_instructions [OF v ex_methods_ok(1) this] show ?thesis
    by (simp add: ex_loop_def map_offset_def)
qed

text \<open>C13: The code of a method that the verifier accepts is not empty; after every
  instruction comes another one, except after an instruction that ends exactly where the
  code ends, and this one is a goto, a switch, a return or a throw: execution does not run
  off the code.\<close>

theorem verified_no_fall_through:
  assumes "verify_method vm g cp m = Some (Inr cp')" "method_ok vm g cp m"
  shows "0 < m_code_size m \<and>
    (\<forall>bci. instruction_at (m_code m) (m_code_size m) bci \<longrightarrow>
       instruction_at (m_code m) (m_code_size m) (next_bci (m_code m) bci) \<or>
       next_bci (m_code m) bci = m_code_size m \<and>
         (\<exists>c \<in> set (iterate_calls (m_code m) cp' bci). ends_control_flow c))"
proof (intro conjI allI impI)
  from assms obtain env s0 s where v: "verified_pass vm g cp m cp' env s0 s" by (rule verified_passI)
  then show "0 < m_code_size m" by (rule verified_nonempty)
  fix bci assume i: "instruction_at (m_code m) (m_code_size m) bci"
  from walkableD(4) [OF verified_passD(7) [OF v] i] consider
    "next_bci (m_code m) bci < m_code_size m" | "next_bci (m_code m) bci = m_code_size m" by linarith
  then show "instruction_at (m_code m) (m_code_size m) (next_bci (m_code m) bci) \<or>
    next_bci (m_code m) bci = m_code_size m \<and>
      (\<exists>c \<in> set (iterate_calls (m_code m) cp' bci). ends_control_flow c)"
    using verified_ends [OF v i] instruction_at.next_one [OF i] by cases auto
qed

theorem verified_no_fall_through_witness:
  "0 < m_code_size ex_loop \<and>
   (instruction_at ex_loop_code 11 (next_bci ex_loop_code 1) \<or> next_bci ex_loop_code 1 = 11)"
proof -
  obtain cp' where v: "verify_method ex_vm ex_caches [] ex_loop = Some (Inr cp')"
    using ex_loop_verified by blast
  have "m_code ex_loop = ex_loop_code" "m_code_size ex_loop = 11" by (simp_all add: ex_loop_def)
  with verified_no_fall_through [OF v ex_methods_ok(1)] ex_loop_instructions(2) show ?thesis by auto
qed

text \<open>C14: In a method that the verifier accepts, the start, the end and the handler of every
  row of the exception table are at instructions (the end may be the end of the code), and
  the handler of a row that covers some instruction has a stack map.\<close>

theorem verified_exception_table:
  assumes "verify_method vm g cp m = Some (Inr cp')" "method_ok vm g cp m" "e \<in> set (m_exceptions m)"
  shows "start_pc e \<le> end_pc e \<and> instruction_at (m_code m) (m_code_size m) (start_pc e) \<and>
    instruction_at (m_code m) (m_code_size m) (handler_pc e) \<and>
    (end_pc e = m_code_size m \<or> instruction_at (m_code m) (m_code_size m) (end_pc e)) \<and>
    (start_pc e < end_pc e \<longrightarrow> (\<exists>sm \<in> set (m_stackmaps m). map_offset sm = handler_pc e))"
proof -
  from assms(1,2) obtain env s0 s where v: "verified_pass vm g cp m cp' env s0 s" by (rule verified_passI)
  note row = verified_handler_rows(1) [OF v assms(3), unfolded handler_ok_def]
  from verified_handler_map [OF v assms(3), of "start_pc e"] row
  have "start_pc e < end_pc e \<longrightarrow> (\<exists>sm \<in> set (m_stackmaps m). map_offset sm = handler_pc e)"
    by (auto simp: has_map_def verified_passD(1) [OF v] dest!: stackmap_at_SomeD)
  with row show ?thesis by blast
qed

theorem verified_exception_table_witness:
  "instruction_at ex_catch_code 7 0 \<and> instruction_at ex_catch_code 7 4 \<and> instruction_at ex_catch_code 7 5"
proof -
  obtain cp' where v: "verify_method ex_vm ex_caches ex_pool ex_catch = Some (Inr cp')"
    using ex_catch_verified by blast
  have "m_exceptions ex_catch = [\<lparr>start_pc = 0, end_pc = 4, handler_pc = 5, catch_type = 0\<rparr>]"
    "m_code ex_catch = ex_catch_code" "m_code_size ex_catch = 7" by (simp_all add: ex_catch_def)
  with verified_exception_table [OF v ex_methods_ok(2)] show ?thesis by auto
qed


section \<open>Frames\<close>

text \<open>C5: In front of every bytecode that the verifier comes to, the frame is consistent: the
  operand stack fits \<open>max_stack\<close>, a long or double on the stack is followed by its second
  half, so is one among the locals, an object has a class, and the sizes and stack maps are
  those of the method.\<close>

theorem verified_frame_invariant:
  assumes "method_ok vm g cp m" "verify_checks vm g cp m = Some (Inr s0)"
    "pass_at (verify_env_for vm (gc_stackmaps g) m) (m_code_size m) s0 bci s"
  shows "vstackpointer (vs_frame s) \<le> m_max_stack m \<and>
    m_max_stack m \<le> length (vstack_tags (vs_frame s)) \<and>
    paired (stack_words (vs_frame s)) \<and> locals_ok (vs_frame s) \<and>
    max_locals (vs_frame s) = m_max_locals m \<and>
    m_max_locals m \<le> length (vlocals_tags (vs_frame s)) \<and> stackmaps (vs_frame s) = m_stackmaps m"
  using pass_at_verified(1) [OF assms]
  by (simp add: pass_ok_def frame_ok_def frame_sizes_def frame_of_def)

theorem verified_frame_invariant_witness:
  "\<exists>s. verify_checks ex_vm ex_caches [] ex_loop = Some (Inr s) \<and> vstackpointer (vs_frame s) \<le> 2 \<and>
     stackmaps (vs_frame s) = m_stackmaps ex_loop"
proof -
  obtain cp' where "verify_method ex_vm ex_caches [] ex_loop = Some (Inr cp')" using ex_loop_verified by blast
  then obtain s where s: "verify_checks ex_vm ex_caches [] ex_loop = Some (Inr s)" by (rule verify_method_run)
  from verified_frame_invariant [OF ex_methods_ok(1) s pass_at.pass_start] s show ?thesis
    by (auto simp: ex_loop_def)
qed

lemma wf_items_newobject:
  "wf_items n items \<Longrightarrow> p \<in> set items \<Longrightarrow> is_newobject (fst p) \<Longrightarrow> decode_newobject (fst p) < n"
proof (induction n items rule: wf_items.induct)
  case (2 n t c items)
  have small: "\<not> is_newobject u" if "u < 0x1000" for u using is_newobject_small [OF that] .
  show ?case
  proof (cases "t = ITEM_Long \<or> t = ITEM_Double")
    case True
    with 2 small [of 3] small [of 4] small [of 9] small [of 10] show ?thesis
      by (auto split: list.splits if_splits)
  next
    case False
    have "\<not> is_newobject t" if "plain_tag t"
    proof (rule small)
      show "t < 0x1000" using that by (auto simp: plain_tag_def intro: less_trans [of t 7])
    qed
    with 2 False small [of 7] show ?thesis by (auto simp: decode_encode_newobject)
  qed
qed simp

text \<open>C16: A local or a word of the stack that a stack map describes as a new object names the
  offset of a \<open>new\<close> instruction of the method.\<close>

theorem verified_new_objects:
  assumes "verify_method vm g cp m = Some (Inr cp')" "method_ok vm g cp m" "sm \<in> set (m_stackmaps m)"
    "p \<in> set (map_locals sm @ map_stack sm)" "is_newobject (fst p)"
  shows "instruction_at (m_code m) (m_code_size m) (decode_newobject (fst p)) \<and>
    bytecode_at (m_code m) (decode_newobject (fst p)) = op_new"
proof -
  from assms(1) obtain s0 where "verify_checks vm g cp m = Some (Inr s0)" by (rule verify_method_run)
  then obtain starts where st:
    "get_instruction_starts (gc_starts g) (m_code m) (m_code_size m) = Some (Inr starts)"
    "check_news (m_stackmaps m) starts = Inr ()" by (rule verify_checks_result)
  have wf: "wf_stackmap (m_max_stack m) (m_max_locals m) (m_code_size m) sm"
    using assms(2,3) by (auto simp: method_ok_def list_all_iff)
  then have "wf_items (m_code_size m) (map_locals sm @ map_stack sm)"
    by (auto simp: wf_stackmap_def intro: wf_items_append)
  from wf_items_newobject [OF this assms(4,5)] map_tags_items [OF _ _ assms(4)] wf
  show ?thesis by (intro check_news_tag [OF st(2,1) assms(3)] assms(5)) (auto simp: wf_stackmap_def)
qed

theorem verified_new_objects_witness:
  "instruction_at ex_catch_code 7 0 \<and> bytecode_at ex_catch_code 0 = op_new"
proof -
  obtain cp' where v: "verify_method ex_vm ex_caches ex_pool ex_catch = Some (Inr cp')"
    using ex_catch_verified by blast
  let ?sm = "([3, 1, ITEM_Integer, 1, encode_newobject 0], replicate 5 None) :: stackmap"
  have "(encode_newobject 0, None) \<in> set (map_stack ?sm)"
    by (simp add: map_stack_def map_items_def map_nlocals_def map_nstack_def replicate_5 drop_Cons' take_Cons')
  moreover have "?sm \<in> set (m_stackmaps ex_catch)" by (simp add: ex_catch_def ex_catch_maps_def)
  ultimately show ?thesis
    using verified_new_objects [OF v ex_methods_ok(2), of ?sm "(encode_newobject 0, None)"]
    by (simp add: ex_catch_def decode_encode_newobject)
qed

end
