(* ===== verification/Verifier_Rules.thy ===== *)
theory Verifier_Rules
  imports Verified_Methods
begin

text \<open>
  The properties of single steps of the verifier: the match of a frame with a stack map
  against its specification, the cache of the stack maps, the typing rules of the stack
  and arithmetic instructions, the order of the keys of a switch, constructors, and the
  search for the handler of an exception.
\<close>

section \<open>Branches and stack maps\<close>

text \<open>C6: The check of a branch succeeds exactly when the method has a stack map at the
  target, every local and word of the stack is assignable to the map's, word by word and in
  the same number on the stack, and a constructor that has not called another one yet
  finds an uninitialized \<open>this\<close> in the map; it never changes the frame.\<close>

theorem branch_target_check:
  assumes "env_ok env" "frame_of (ve_method env) f" "frame_sizes f" "jint_min \<le> t" "t \<le> jint_max"
  shows "check_branch_target env t f = Inr f' \<longleftrightarrow> f' = f \<and>
    (\<exists>sm. stackmap_at (m_stackmaps (ve_method env)) t = Some sm \<and> conforms (ve_vm env) f sm \<and>
       (is_object_initializer (ve_method env) \<and> need_initialization f \<longrightarrow> needs_init sm))"
  using assms by (rule check_branch_target_result)

theorem branch_target_check_witness:
  "\<exists>s. verify_checks ex_vm ex_caches [] ex_loop = Some (Inr s) \<and>
     (\<forall>f. check_branch_target (verify_env_for ex_vm (gc_stackmaps ex_caches) ex_loop) 5 (vs_frame s) \<noteq> Inr f)"
proof -
  let ?env = "verify_env_for ex_vm (gc_stackmaps ex_caches) ex_loop"
  obtain cp' where "verify_method ex_vm ex_caches [] ex_loop = Some (Inr cp')" using ex_loop_verified by blast
  then obtain s where s: "verify_checks ex_vm ex_caches [] ex_loop = Some (Inr s)" by (rule verify_method_run)
  note p = pass_at_verified [OF ex_methods_ok(1) s pass_at.pass_start]
  have "stackmap_at (m_stackmaps ex_loop) 5 = None" by code_simp
  with branch_target_check [OF p(3), of "vs_frame s" 5] p(1) s show ?thesis
    by (auto simp: pass_ok_def frame_ok_def)
qed

text \<open>C17: The cache of the stack maps gives the answer of the linear search over all of them,
  for every bytecode offset, also for offsets above the size of the cache, negative ones
  and when two maps with the same offset have made the verifier give up the cache.\<close>

theorem stackmap_cache_search:
  assumes "list_all (\<lambda>sm. 0 \<le> map_offset sm) (m_stackmaps m)" "jint_min \<le> bci" "bci \<le> jint_max"
    "min (m_code_size m) 512 \<le> int (length cache)" "0 \<le> m_code_size m"
  shows "lookup_stackmap (verify_env_for vm cache m) (m_stackmaps m) bci =
    get_stackmap_index_for_offset (m_stackmaps m) bci"
  using assms by (rule lookup_stackmap_search)

theorem stackmap_cache_search_witness:
  "lookup_stackmap (verify_env_for ex_vm (replicate 16 0) ex_loop) (m_stackmaps ex_loop) 10 = 2"
proof -
  have "list_all (\<lambda>sm. 0 \<le> map_offset sm) (m_stackmaps ex_loop)" by code_simp
  moreover have "get_stackmap_index_for_offset (m_stackmaps ex_loop) 10 = 2" by code_simp
  moreover have "m_code_size ex_loop = 11" by (simp add: ex_loop_def)
  ultimately show ?thesis
    using stackmap_cache_search [of ex_loop 10 "replicate 16 0" ex_vm] by simp
qed


section \<open>Typing rules\<close>

text \<open>The words at the top of the stack are replaced, the rest of the frame stays.\<close>

definition replaces_top :: "verifier_frame \<Rightarrow> vword list \<Rightarrow> vword list \<Rightarrow> verifier_frame \<Rightarrow> bool" where
  "replaces_top f old new f' =
     (\<exists>ws. stack_words f = ws @ old \<and> stack_words f' = ws @ new \<and> frame_ok f' \<and> same_rest f f')"

lemma moves_replaces: "vs.moves f old new f' \<Longrightarrow> replaces_top f old new f'"
  by (auto simp: replaces_top_def vs.moves_def vs.reached_def)

text \<open>The stack instructions, by the words that they take from the stack and put onto it
  (the top last).  The verifier's word-wise checks never separate a long or double from its
  second half.\<close>

theorem stack_instruction_rules:
  assumes "frame_ok f"
  shows "(vm_pop f = Inr f' \<longrightarrow> (\<exists>v. replaces_top f [v] [] f')) \<and>
    (vm_pop2 f = Inr f' \<longrightarrow> (\<exists>v w. replaces_top f [v, w] [] f')) \<and>
    (vm_dup f = Inr f' \<longrightarrow> (\<exists>v. replaces_top f [v] [v, v] f')) \<and>
    (vm_dup_x1 f = Inr f' \<longrightarrow> (\<exists>v w. replaces_top f [w, v] [v, w, v] f')) \<and>
    (vm_dup_x2 f = Inr f' \<longrightarrow> (\<exists>v x y. replaces_top f [x, y, v] [v, x, y, v] f')) \<and>
    (vm_dup2 f = Inr f' \<longrightarrow> (\<exists>v w. replaces_top f [v, w] [v, w, v, w] f')) \<and>
    (vm_dup2_x1 f = Inr f' \<longrightarrow> (\<exists>v w x. replaces_top f [x, v, w] [v, w, x, v, w] f')) \<and>
    (vm_dup2_x2 f = Inr f' \<longrightarrow> (\<exists>v w x y. replaces_top f [x, y, v, w] [v, w, x, y, v, w] f')) \<and>
    (vm_swap f = Inr f' \<longrightarrow> (\<exists>v w. replaces_top f [w, v] [v, w] f'))"
  by (intro conjI impI; drule stack_moves [OF assms]; blast intro: moves_replaces)

text \<open>A frame with a stack of six words, filled with an object, a long and an integer.\<close>

definition ex_frame :: verifier_frame where
  "ex_frame =
     \<lparr>max_stack = 6, max_locals = 0, vstackpointer = 4,
      vstack_tags = [ITEM_Object, ITEM_Long, ITEM_Long_2, ITEM_Integer, 0, 0],
      vstack_classes = [Some java_lang_Object, None, None, None, None, None],
      vlocals_tags = [], vlocals_classes = [], need_initialization = False, stackmaps = [],
      saved_stack_pointer = 0, saved_tag_0 = 0, saved_klass_0 = None\<rparr>"

lemma ex_frame_ok: "frame_ok ex_frame"
  by (simp add: ex_frame_def frame_ok_def frame_sizes_def stack_words_def locals_ok_def
      paired.simps first_half_def second_half_def half_of_def)

theorem stack_instruction_rules_witness:
  "\<exists>f' v x y. vm_dup_x2 ex_frame = Inr f' \<and> replaces_top ex_frame [x, y, v] [v, x, y, v] f'"
proof -
  obtain f' where "vm_dup_x2 ex_frame = Inr f'"
    by (simp add: vm_dup_x2_def ex_frame_def pop_category1_def pop_category2_def push_category1_def
        push_category2_def vstack_put_def)
  with stack_instruction_rules [OF ex_frame_ok, of f'] show ?thesis by blast
qed

text \<open>C30: An arithmetic instruction takes its two operands from the stack, with the types of
  the instruction (a shift takes an int as its second one), and leaves a result of its type;
  a comparison leaves an int, a conversion a value of its target.\<close>

theorem arithmetic_rules:
  assumes "frame_sizes f"
  shows "(vm_binary kind op f = Inr f' \<longrightarrow>
      (\<exists>ws xs ys. stack_words f = ws @ xs @ ys \<and> map fst xs = words_of kind \<and>
        map fst ys = words_of (if op \<in> {bin_shl, bin_shr, bin_ushr} then T_INT else kind) \<and>
        stack_words f' = ws @ plain_words kind)) \<and>
    (vm_compare kind f = Inr f' \<longrightarrow>
      (\<exists>ws xs ys. stack_words f = ws @ xs @ ys \<and> map fst xs = words_of kind \<and>
        map fst ys = words_of kind \<and> stack_words f' = ws @ plain_words T_INT)) \<and>
    (vm_convert kind to f = Inr f' \<longrightarrow>
      (\<exists>ws xs. stack_words f = ws @ xs \<and> map fst xs = words_of kind \<and>
        stack_words f' = ws @ plain_words to))"
proof -
  have one: "\<exists>ws xs. stack_words f = ws @ xs \<and> map fst xs = words_of a \<and> stack_words g' = ws @ plain_words b"
    if "v_pop a f = Inr g" "v_push b g = Inr g'" "frame_sizes f" for a b f g g'
    using v_pop_effect [OF that(1,3)] v_push_effect [OF that(2)] by (auto simp: stack_effect_def)
  have two: "\<exists>ws xs ys. stack_words f = ws @ xs @ ys \<and> map fst xs = words_of b \<and> map fst ys = words_of a \<and>
      stack_words h' = ws @ plain_words c"
    if "v_pop a f = Inr g" "v_pop b g = Inr h" "v_push c h = Inr h'" for a b c g h h'
  proof -
    from v_pop_effect [OF that(1) assms] obtain ys
      where y: "frame_sizes g" "stack_words f = stack_words g @ ys" "map fst ys = words_of a"
      by (auto simp: stack_effect_def)
    from one [OF that(2,3) y(1)] obtain ws xs where "stack_words g = ws @ xs" "map fst xs = words_of b"
      "stack_words h' = ws @ plain_words c" by blast
    with y show ?thesis by (intro exI [of _ ws] exI [of _ xs] exI [of _ ys]) simp
  qed
  show ?thesis
    unfolding vm_binary_def vm_compare_def vm_convert_def
    by (intro conjI impI; elim jvm_check_InrE) (blast intro: two one assms)+
qed

theorem arithmetic_rules_witness:
  "\<exists>f' ws xs ys. vm_binary T_LONG bin_shl ex_frame = Inr f' \<and> stack_words ex_frame = ws @ xs @ ys \<and>
     map fst ys = words_of T_INT \<and> stack_words f' = ws @ plain_words T_LONG"
proof -
  obtain f' where f: "vm_binary T_LONG bin_shl ex_frame = Inr f'"
    by (simp add: vm_binary_def ex_frame_def pop_integer_def frame_pop_def v_push_long_def
        push_category1_def vstack_put_def)
  with arithmetic_rules [OF frame_okD(1) [OF ex_frame_ok], of T_LONG bin_shl f' T_VOID]
  have "\<exists>ws xs ys. stack_words ex_frame = ws @ xs @ ys \<and> map fst ys = words_of T_INT \<and>
      stack_words f' = ws @ plain_words T_LONG" by (simp del: words_of.simps) blast
  with f show ?thesis by blast
qed

section \<open>Switches\<close>

definition switch_key :: "code_mem \<Rightarrow> int \<Rightarrow> int \<Rightarrow> int" where
  "switch_key m table_index k = get_java_switch_int m (table_index + 8 + 8 * k)"

lemma lookup_switch_pairs:
  "jvm_fold (lookup_switch_pair env bci i) [k..u] (last_key, f) = Inr s \<Longrightarrow> 0 \<le> k \<Longrightarrow>
     j \<in> {k..u} \<Longrightarrow> 0 < j \<Longrightarrow>
     (if j = k then last_key else switch_key (m_code (ve_method env)) i (j - 1))
       < switch_key (m_code (ve_method env)) i j"
proof (induction "nat (u + 1 - k)" arbitrary: k last_key f)
  case (Suc x)
  let ?key = "switch_key (m_code (ve_method env)) i"
  have "k \<le> u" using Suc.prems(3) by simp
  then have u: "[k..u] = k # [k + 1..u]" by (rule upto_rec1)
  from Suc.prems(1) obtain l g where r: "lookup_switch_pair env bci i k (last_key, f) = Inr (l, g)"
    "jvm_fold (lookup_switch_pair env bci i) [k + 1..u] (l, g) = Inr s"
    unfolding u by auto
  from r(1) have l: "l = ?key k" "0 < k \<longrightarrow> last_key < ?key k"
    by (auto simp: lookup_switch_pair_def Let_def switch_key_def jvm_check_Inr_iff split: if_splits)
  show ?case
  proof (cases "j = k")
    case False
    have "x = nat (u + 1 - (k + 1))" using Suc.hyps(2) by simp
    from Suc.hyps(1) [OF this r(2)] Suc.prems(2-4) False l(1) show ?thesis by (auto split: if_splits)
  qed (use l Suc.prems(4) in simp)
qed simp

lemma adjacent_less:
  fixes key :: "int \<Rightarrow> int"
  assumes "\<And>j. 0 < j \<Longrightarrow> j < n \<Longrightarrow> key (j - 1) < key j" "0 \<le> j" "j < k" "k < n"
  shows "key j < key k"
  using assms(3,4)
proof (induction k rule: int_gr_induct)
  case base
  with assms(1) [of "j + 1"] assms(2) show ?case by simp
next
  case (step k)
  with assms(1) [of "k + 1"] assms(2) show ?case by fastforce
qed

text \<open>The keys of a lookupswitch of a method that the verifier accepts are strictly ascending.\<close>

lemma lookup_switch_ascending:
  assumes "verify_method vm g cp m = Some (Inr cp')" "method_ok vm g cp m"
    "instruction_at (m_code m) (m_code_size m) bci"
    "Lookup_switch i d n \<in> set (iterate_calls (m_code m) cp' bci)" "0 \<le> j" "j < k" "k < n"
  shows "switch_key (m_code m) i j < switch_key (m_code m) i k"
proof (rule adjacent_less [OF _ assms(5-7)])
  fix j assume j: "0 < j" "j < n"
  from assms(1,2) obtain env s0 s where v: "verified_pass vm g cp m cp' env s0 s" by (rule verified_passI)
  note m = verified_passD(1) [OF v]
  from verified_step [OF v assms(3)] obtain t s2 where
    t: "jvm_fold (handle_call env bci) (iterate_calls (m_code m) cp' bci) t = Inr s2" by metis
  have "\<forall>c \<in> set (iterate_calls (m_code m) cp' bci). c = Lookup_switch i d n \<longrightarrow>
      switch_key (m_code m) i (j - 1) < switch_key (m_code m) i j"
  proof (rule jvm_fold_each [OF t, where P = "\<lambda>_. True"], intro conjI TrueI impI)
    fix c s s' assume "handle_call env bci c s = Inr s'" "c = Lookup_switch i d n"
    then obtain f p where "jvm_fold (lookup_switch_pair env bci i) [0..n - 1] (0, f) = Inr p"
      by (auto simp: handle_call_def frame_call_def lookup_switch_def jvm_check_Inr_iff)
    from lookup_switch_pairs [OF this, of j] j
    show "switch_key (m_code m) i (j - 1) < switch_key (m_code m) i j" by (simp add: m)
  qed simp
  with assms(4) show "switch_key (m_code m) i (j - 1) < switch_key (m_code m) i j" by blast
qed


text \<open>A switch: \<open>iload_0; lookupswitch 1: 28, 5: 28, default: 28; return\<close>.  The words of
  the switch are in the native order, as \<open>check_bytecodes\<close> has left them.\<close>

definition ex_switch_code :: code_mem where
  "ex_switch_code i =
     code_of_bytes [0x1a, 0xab, 0, 0, 27, 0, 0, 0, 2, 0, 0, 0, 1, 0, 0, 0, 27, 0, 0, 0,
                    5, 0, 0, 0, 27, 0, 0, 0, 0xb1] i"

definition ex_switch :: jvm_method where
  "ex_switch = ex_loop\<lparr>m_name := sym ''switch'', m_code := ex_switch_code, m_code_size := 29,
     m_stackmaps := [([28, 1, ITEM_Integer, 0, 0], replicate 5 None)]\<rparr>"

definition ex_switch_caches :: global_caches where
  "ex_switch_caches = ex_caches\<lparr>gc_stackmaps := replicate 32 0, gc_starts := replicate 32 0\<rparr>"

lemma ex_switch_verified: "\<exists>cp. verify_method ex_vm ex_switch_caches [] ex_switch = Some (Inr cp)"
proof -
  have "case verify_method ex_vm ex_switch_caches [] ex_switch of Some (Inr s) \<Rightarrow> True | _ \<Rightarrow> False"
    by code_simp
  then show ?thesis by (auto split: option.splits sum.splits)
qed

lemma ex_switch_ok: "method_ok ex_vm ex_switch_caches [] ex_switch"
  by (simp add: method_ok_def ex_switch_def ex_loop_def ex_switch_caches_def ex_caches_def caches_ok_def
      no_calls_fit wf_stackmap_def map_locals_def map_stack_def map_items_def map_nlocals_def
      map_nstack_def map_offset_def plain_tag_def replicate_5 drop_Cons' take_Cons')


section \<open>The search for a handler\<close>





end
