(* ===== verification/Interpreter.thy ===== *)
theory Interpreter
  imports Bytecodes "HOL-Library.Signed_Division"
begin

text \<open>
  The C interpreter (\<open>Interpreter_c.cpp\<close>): the handlers of the bytecodes that work in
  the frame of one method, on its expression stack and locals, the code, the constant
  pool and the objects in memory.  A handler is a function from a state to the next one,
  or to the reason why it leaves the interpreter loop.

  The expression stack is the list of its words from \<open>g_jsp\<close> up to the bottom of the
  frame, the top first; a word below the bottom belongs to the frame descriptor, and a
  handler that reads it leaves the model with \<open>Off_frame\<close>, like one that uses a local
  outside the method's locals.  The program counter is the offset in the method's code;
  addresses are 32 bits wide, so an offset that is added to it wraps like a \<open>jint\<close>.
  The code of a method is aligned to words.  The poll of the timer
  at a taken branch (\<open>check_timer_tick\<close>) may switch to another thread; it does not change
  the frame, and is left out.
\<close>

section \<open>The state\<close>

record interp =
  jsp :: "32 word list"
  jlocals :: "32 word list"
  jpc :: int
  jheap :: code_mem
  jbarrier :: "int list" \<comment> \<open>the addresses passed to \<open>write_barrier\<close>\<close>

datatype java_exception =
    NullPointerException | ArrayIndexOutOfBoundsException | ArithmeticException
  | ArrayStoreException | Thrown_object "32 word"

datatype stop = Throws java_exception | Off_frame | Undefined_bytecode | Undefined_in_C

text \<open>The floating point functions (\<open>jvm_fadd\<close> and so on), on the bits of the numbers: a
  component of its own.\<close>

record fplib =
  jvm_fbin :: "string \<Rightarrow> 32 word \<Rightarrow> 32 word \<Rightarrow> 32 word"
  jvm_dbin :: "string \<Rightarrow> 64 word \<Rightarrow> 64 word \<Rightarrow> 64 word"
  jvm_dneg :: "64 word \<Rightarrow> 64 word"
  jvm_fcmp :: "string \<Rightarrow> 32 word \<Rightarrow> 32 word \<Rightarrow> 32 word"
  jvm_dcmp :: "string \<Rightarrow> 64 word \<Rightarrow> 64 word \<Rightarrow> 32 word"
  jvm_i2f :: "32 word \<Rightarrow> 32 word"
  jvm_i2d :: "32 word \<Rightarrow> 64 word"
  jvm_l2f :: "64 word \<Rightarrow> 32 word"
  jvm_l2d :: "64 word \<Rightarrow> 64 word"
  jvm_f2i :: "32 word \<Rightarrow> 32 word"
  jvm_f2l :: "32 word \<Rightarrow> 64 word"
  jvm_f2d :: "32 word \<Rightarrow> 64 word"
  jvm_d2i :: "64 word \<Rightarrow> 32 word"
  jvm_d2l :: "64 word \<Rightarrow> 64 word"
  jvm_d2f :: "64 word \<Rightarrow> 32 word"

text \<open>What a method has at hand: its code, the memory at the base of its constant pool, the
  floating point functions, and the run-time check of an array store
  (\<open>array_store_type_check\<close>: whether the object may be stored in the array).\<close>

record interp_env =
  ie_code :: code_mem
  ie_cpool :: code_mem
  ie_fp :: fplib
  ie_store_check :: "32 word \<Rightarrow> 32 word \<Rightarrow> bool"

type_synonym handler = "interp_env \<Rightarrow> interp \<Rightarrow> stop + interp"


section \<open>Stack, locals and operands\<close>

definition PUSH :: "32 word \<Rightarrow> interp \<Rightarrow> interp" where
  "PUSH v s = s\<lparr>jsp := v # jsp s\<rparr>"

definition POP :: "interp \<Rightarrow> stop + (32 word \<times> interp)" where
  "POP s = (case jsp s of [] \<Rightarrow> Inl Off_frame | v # st \<Rightarrow> Inr (v, s\<lparr>jsp := st\<rparr>))"

definition PEEK :: "nat \<Rightarrow> interp \<Rightarrow> stop + 32 word" where
  "PEEK n s = (if n < length (jsp s) then Inr (jsp s ! n) else Inl Off_frame)"

text \<open>\<open>jlong_accessor\<close>: word 0 is the low half, the machine is little-endian.\<close>

definition long_of_words :: "32 word \<Rightarrow> 32 word \<Rightarrow> 64 word" where
  "long_of_words w0 w1 = push_bit 32 (ucast w1) OR ucast w0"

definition long_word_0 :: "64 word \<Rightarrow> 32 word" where "long_word_0 v = ucast v"
definition long_word_1 :: "64 word \<Rightarrow> 32 word" where "long_word_1 v = ucast (drop_bit 32 v)"

definition LONG_PUSH :: "64 word \<Rightarrow> interp \<Rightarrow> interp" where
  "LONG_PUSH v s = PUSH (long_word_0 v) (PUSH (long_word_1 v) s)"

definition LONG_POP :: "interp \<Rightarrow> stop + (64 word \<times> interp)" where
  "LONG_POP s =
     jvm_check (POP s) (\<lambda>(w0, s). jvm_check (POP s) (\<lambda>(w1, s). Inr (long_of_words w0 w1, s)))"

text \<open>\<open>DOUBLE_PUSH\<close> and \<open>DOUBLE_POP\<close> are the same on the bits of the number, \<open>OBJ_PUSH\<close>,
  \<open>OBJ_POP\<close>, \<open>FLOAT_PUSH\<close> and \<open>FLOAT_POP\<close> those of an int.\<close>

definition GET_LOCAL :: "nat \<Rightarrow> interp \<Rightarrow> stop + 32 word" where
  "GET_LOCAL n s = (if n < length (jlocals s) then Inr (jlocals s ! n) else Inl Off_frame)"

definition SET_LOCAL :: "nat \<Rightarrow> 32 word \<Rightarrow> interp \<Rightarrow> stop + interp" where
  "SET_LOCAL n v s =
     (if n < length (jlocals s) then Inr (s\<lparr>jlocals := (jlocals s)[n := v]\<rparr>) else Inl Off_frame)"

definition ADVANCE :: "int \<Rightarrow> interp \<Rightarrow> interp" where
  "ADVANCE x s = s\<lparr>jpc := jpc s + x\<rparr>"

definition GET_BYTE :: "interp_env \<Rightarrow> interp \<Rightarrow> int \<Rightarrow> 8 word" where
  "GET_BYTE e s x = ie_code e (jpc s + x + 1)"

definition GET_SHORT :: "interp_env \<Rightarrow> interp \<Rightarrow> int \<Rightarrow> 16 word" where
  "GET_SHORT e s x = push_bit 8 (ucast (GET_BYTE e s x)) OR ucast (GET_BYTE e s (x + 1))"

definition GET_SHORT_NATIVE :: "interp_env \<Rightarrow> interp \<Rightarrow> int \<Rightarrow> int" where
  "GET_SHORT_NATIVE e s x = uint (get_native_u2 (ie_code e) (jpc s + x + 1))"

definition NULL_CHECK :: "32 word \<Rightarrow> interp \<Rightarrow> stop + interp" where
  "NULL_CHECK obj s = (if obj = 0 then Inl (Throws NullPointerException) else Inr s)"

definition array_length_offset :: int where "array_length_offset = 4"
definition array_base_offset :: int where "array_base_offset = 8"

definition GET_ARRAY_LENGTH :: "interp \<Rightarrow> 32 word \<Rightarrow> int" where
  "GET_ARRAY_LENGTH s ref = sint (get_native_u4 (jheap s) (uint ref + array_length_offset))"

definition BOUNDS_CHECK :: "32 word \<Rightarrow> 32 word \<Rightarrow> interp \<Rightarrow> stop + interp" where
  "BOUNDS_CHECK ref idx s =
     (if ref = 0 then Inl (Throws NullPointerException)
      else if sint idx < 0 \<or> sint idx \<ge> GET_ARRAY_LENGTH s ref
      then Inl (Throws ArrayIndexOutOfBoundsException) else Inr s)"

text \<open>\<open>long_from_addr\<close> and \<open>long_to_addr\<close>.\<close>

definition long_from_addr :: "code_mem \<Rightarrow> int \<Rightarrow> 64 word" where
  "long_from_addr m addr = long_of_words (get_native_u4 m addr) (get_native_u4 m (addr + 4))"

definition long_to_addr :: "int \<Rightarrow> 64 word \<Rightarrow> code_mem \<Rightarrow> code_mem" where
  "long_to_addr addr v m =
     put_native_u4 (put_native_u4 m addr (long_word_0 v)) (addr + 4) (long_word_1 v)"


section \<open>Constants and locals\<close>

definition bc_nop :: handler where "bc_nop e s = Inr (ADVANCE 1 s)"

definition bc_push :: "32 word \<Rightarrow> handler" where "bc_push v e s = Inr (ADVANCE 1 (PUSH v s))"

definition bc_push_long :: "64 word \<Rightarrow> handler" where
  "bc_push_long v e s = Inr (ADVANCE 1 (LONG_PUSH v s))"

definition bc_dconst_1 :: handler where
  "bc_dconst_1 e s = Inr (ADVANCE 1 (PUSH 0 (PUSH 1072693248 s)))"

definition bc_bipush :: handler where
  "bc_bipush e s = Inr (ADVANCE 2 (PUSH (scast (GET_BYTE e s 0)) s))"

definition bc_sipush :: handler where
  "bc_sipush e s = Inr (ADVANCE 3 (PUSH (scast (GET_SHORT e s 0)) s))"

text \<open>\<open>iload\<close>, \<open>fload\<close> and \<open>aload\<close> are the same function, and so are the stores.\<close>

definition iload :: "nat \<Rightarrow> interp \<Rightarrow> stop + interp" where
  "iload n s = jvm_check (GET_LOCAL n s) (\<lambda>v. Inr (PUSH v s))"

definition lload :: "nat \<Rightarrow> interp \<Rightarrow> stop + interp" where
  "lload n s =
     jvm_check (GET_LOCAL n s) (\<lambda>w1. jvm_check (GET_LOCAL (n + 1) s) (\<lambda>w0.
       Inr (LONG_PUSH (long_of_words w0 w1) s)))"

definition dload :: "nat \<Rightarrow> interp \<Rightarrow> stop + interp" where
  "dload n s =
     jvm_check (GET_LOCAL n s) (\<lambda>low. jvm_check (GET_LOCAL (n + 1) s) (\<lambda>high.
       Inr (PUSH high (PUSH low s))))"

definition istore :: "nat \<Rightarrow> interp \<Rightarrow> stop + interp" where
  "istore n s = jvm_check (POP s) (\<lambda>(v, s). SET_LOCAL n v s)"

definition lstore :: "nat \<Rightarrow> interp \<Rightarrow> stop + interp" where
  "lstore n s =
     jvm_check (LONG_POP s) (\<lambda>(v, s). jvm_check (SET_LOCAL n (long_word_1 v) s)
       (SET_LOCAL (n + 1) (long_word_0 v)))"

text \<open>The handlers that take the number of the local from the code, and those of the short
  bytecodes.\<close>

definition bc_local :: "(nat \<Rightarrow> interp \<Rightarrow> stop + interp) \<Rightarrow> handler" where
  "bc_local f e s = jvm_check (f (unat (GET_BYTE e s 0)) s) (\<lambda>s. Inr (ADVANCE 2 s))"

definition bc_local_wide :: "(nat \<Rightarrow> interp \<Rightarrow> stop + interp) \<Rightarrow> handler" where
  "bc_local_wide f e s = jvm_check (f (unat (GET_SHORT e s 0)) s) (\<lambda>s. Inr (ADVANCE 3 s))"

definition bc_local_n :: "(nat \<Rightarrow> interp \<Rightarrow> stop + interp) \<Rightarrow> nat \<Rightarrow> handler" where
  "bc_local_n f n e s = jvm_check (f n s) (\<lambda>s. Inr (ADVANCE 1 s))"

definition bc_iinc :: handler where
  "bc_iinc e s =
     (let n = unat (GET_BYTE e s 0); inc = scast (GET_BYTE e s 1)
      in jvm_check (GET_LOCAL n s) (\<lambda>val. jvm_check (SET_LOCAL n (val + inc) s) (\<lambda>s.
           Inr (ADVANCE 3 s))))"

definition bc_iinc_wide :: handler where
  "bc_iinc_wide e s =
     (let n = unat (GET_SHORT e s 0); inc = scast (GET_SHORT e s 2)
      in jvm_check (GET_LOCAL n s) (\<lambda>val. jvm_check (SET_LOCAL n (val + inc) s) (\<lambda>s.
           Inr (ADVANCE 5 s))))"

definition fast_ldc :: "bool \<Rightarrow> bool \<Rightarrow> handler" where
  "fast_ldc two wide e s =
     (let idx = (if wide then uint (GET_SHORT e s 0) else uint (GET_BYTE e s 0))
      in Inr (ADVANCE (if wide then 3 else 2)
           (if two then LONG_PUSH (long_from_addr (ie_cpool e) (idx * 4)) s
            else PUSH (get_native_u4 (ie_cpool e) (idx * 4)) s)))"


section \<open>Arrays\<close>

definition element_size :: "basic_type \<Rightarrow> int" where
  "element_size type = (case type of T_BYTE \<Rightarrow> 1 | T_CHAR \<Rightarrow> 2 | T_SHORT \<Rightarrow> 2 | T_LONG \<Rightarrow> 8 | T_DOUBLE \<Rightarrow> 8 | _ \<Rightarrow> 4)"

definition element_addr :: "basic_type \<Rightarrow> 32 word \<Rightarrow> 32 word \<Rightarrow> int" where
  "element_addr type ref idx = uint ref + array_base_offset + sint idx * element_size type"

text \<open>\<open>GET_ARRAY_ELEMENT\<close> and the push that follows it; a field of an object is read in the
  same way.\<close>

definition push_from_addr :: "basic_type \<Rightarrow> int \<Rightarrow> interp \<Rightarrow> interp" where
  "push_from_addr type addr s =
     (case type of
        T_BYTE \<Rightarrow> PUSH (scast (jheap s addr)) s
      | T_CHAR \<Rightarrow> PUSH (ucast (get_native_u2 (jheap s) addr)) s
      | T_SHORT \<Rightarrow> PUSH (scast (get_native_u2 (jheap s) addr)) s
      | T_LONG \<Rightarrow> LONG_PUSH (long_from_addr (jheap s) addr) s
      | T_DOUBLE \<Rightarrow> LONG_PUSH (long_from_addr (jheap s) addr) s
      | _ \<Rightarrow> PUSH (get_native_u4 (jheap s) addr) s)"

definition array_load :: "basic_type \<Rightarrow> interp \<Rightarrow> stop + interp" where
  "array_load type s =
     jvm_check (POP s) (\<lambda>(idx, s). jvm_check (POP s) (\<lambda>(ref, s).
       jvm_check (BOUNDS_CHECK ref idx s) (\<lambda>s.
         Inr (push_from_addr type (element_addr type ref idx) s))))"

text \<open>\<open>SET_ARRAY_ELEMENT\<close>: the value is truncated to the type of the element.\<close>

definition put_word :: "basic_type \<Rightarrow> int \<Rightarrow> 32 word \<Rightarrow> interp \<Rightarrow> interp" where
  "put_word type addr v s =
     (case type of
        T_BYTE \<Rightarrow> s\<lparr>jheap := (jheap s)(addr := ucast v)\<rparr>
      | T_CHAR \<Rightarrow> s\<lparr>jheap := put_native_u2 (jheap s) addr (ucast v)\<rparr>
      | T_SHORT \<Rightarrow> s\<lparr>jheap := put_native_u2 (jheap s) addr (ucast v)\<rparr>
      | _ \<Rightarrow> s\<lparr>jheap := put_native_u4 (jheap s) addr v\<rparr>)"

definition write_barrier :: "int \<Rightarrow> interp \<Rightarrow> interp" where
  "write_barrier addr s = s\<lparr>jbarrier := addr # jbarrier s\<rparr>"

definition type_check :: "interp_env \<Rightarrow> 32 word \<Rightarrow> 32 word \<Rightarrow> interp \<Rightarrow> stop + interp" where
  "type_check e ref obj s =
     (if obj = 0 \<or> ie_store_check e ref obj then Inr s else Inl (Throws ArrayStoreException))"

definition array_store :: "basic_type \<Rightarrow> interp_env \<Rightarrow> interp \<Rightarrow> stop + interp" where
  "array_store type e s =
     (if type = T_LONG \<or> type = T_DOUBLE then
        jvm_check (LONG_POP s) (\<lambda>(val, s). jvm_check (POP s) (\<lambda>(idx, s). jvm_check (POP s) (\<lambda>(ref, s).
          jvm_check (BOUNDS_CHECK ref idx s) (\<lambda>s.
            Inr (s\<lparr>jheap := long_to_addr (element_addr type ref idx) val (jheap s)\<rparr>)))))
      else
        jvm_check (POP s) (\<lambda>(val, s). jvm_check (POP s) (\<lambda>(idx, s). jvm_check (POP s) (\<lambda>(ref, s).
          jvm_check (BOUNDS_CHECK ref idx s) (\<lambda>s.
            if type = T_OBJECT then
              jvm_check (type_check e ref val s) (\<lambda>s.
                Inr (put_word type (element_addr type ref idx) val
                       (write_barrier (element_addr type ref idx) s)))
            else Inr (put_word type (element_addr type ref idx) val s))))))"

definition bc_array_load :: "basic_type \<Rightarrow> handler" where
  "bc_array_load type e s = jvm_check (array_load type s) (\<lambda>s. Inr (ADVANCE 1 s))"

definition bc_array_store :: "basic_type \<Rightarrow> handler" where
  "bc_array_store type e s = jvm_check (array_store type e s) (\<lambda>s. Inr (ADVANCE 1 s))"

definition bc_arraylength :: handler where
  "bc_arraylength e s =
     jvm_check (POP s) (\<lambda>(obj, s). jvm_check (NULL_CHECK obj s) (\<lambda>s.
       Inr (ADVANCE 1 (PUSH (word_of_int (GET_ARRAY_LENGTH s obj)) s))))"

section \<open>The stack instructions\<close>

definition bc_pop :: handler where
  "bc_pop e s = jvm_check (POP s) (\<lambda>(_, s). Inr (ADVANCE 1 s))"

definition bc_pop2 :: handler where
  "bc_pop2 e s = jvm_check (POP s) (\<lambda>(_, s). jvm_check (POP s) (\<lambda>(_, s). Inr (ADVANCE 1 s)))"

definition bc_dup :: handler where
  "bc_dup e s = jvm_check (PEEK 0 s) (\<lambda>v. Inr (ADVANCE 1 (PUSH v s)))"

definition bc_dup_x1 :: handler where
  "bc_dup_x1 e s =
     jvm_check (POP s) (\<lambda>(val1, s). jvm_check (POP s) (\<lambda>(val2, s).
       Inr (ADVANCE 1 (PUSH val1 (PUSH val2 (PUSH val1 s))))))"

definition bc_dup_x2 :: handler where
  "bc_dup_x2 e s =
     jvm_check (POP s) (\<lambda>(val1, s). jvm_check (POP s) (\<lambda>(val2, s). jvm_check (POP s) (\<lambda>(val3, s).
       Inr (ADVANCE 1 (PUSH val1 (PUSH val2 (PUSH val3 (PUSH val1 s))))))))"

definition bc_dup2 :: handler where
  "bc_dup2 e s =
     jvm_check (POP s) (\<lambda>(val1, s). jvm_check (POP s) (\<lambda>(val2, s).
       Inr (ADVANCE 1 (PUSH val1 (PUSH val2 (PUSH val1 (PUSH val2 s)))))))"

definition bc_dup2_x1 :: handler where
  "bc_dup2_x1 e s =
     jvm_check (POP s) (\<lambda>(val1, s). jvm_check (POP s) (\<lambda>(val2, s). jvm_check (POP s) (\<lambda>(val3, s).
       Inr (ADVANCE 1 (PUSH val1 (PUSH val2 (PUSH val3 (PUSH val1 (PUSH val2 s)))))))))"

definition bc_dup2_x2 :: handler where
  "bc_dup2_x2 e s =
     jvm_check (POP s) (\<lambda>(val1, s). jvm_check (POP s) (\<lambda>(val2, s).
       jvm_check (POP s) (\<lambda>(val3, s). jvm_check (POP s) (\<lambda>(val4, s).
         Inr (ADVANCE 1 (PUSH val1 (PUSH val2 (PUSH val3 (PUSH val4 (PUSH val1 (PUSH val2 s)))))))))))"

definition bc_swap :: handler where
  "bc_swap e s =
     jvm_check (POP s) (\<lambda>(val1, s). jvm_check (POP s) (\<lambda>(val2, s).
       Inr (ADVANCE 1 (PUSH val2 (PUSH val1 s)))))"


section \<open>Arithmetic\<close>

text \<open>The second operand is on top: \<open>val2\<close> is popped first.\<close>

definition int_binary :: "(interp_env \<Rightarrow> 32 word \<Rightarrow> 32 word \<Rightarrow> stop + 32 word) \<Rightarrow> handler" where
  "int_binary f e s =
     jvm_check (POP s) (\<lambda>(val2, s). jvm_check (POP s) (\<lambda>(val1, s).
       jvm_check (f e val1 val2) (\<lambda>rv. Inr (ADVANCE 1 (PUSH rv s)))))"

definition long_binary :: "(interp_env \<Rightarrow> 64 word \<Rightarrow> 64 word \<Rightarrow> stop + 64 word) \<Rightarrow> handler" where
  "long_binary f e s =
     jvm_check (LONG_POP s) (\<lambda>(val2, s). jvm_check (LONG_POP s) (\<lambda>(val1, s).
       jvm_check (f e val1 val2) (\<lambda>rv. Inr (ADVANCE 1 (LONG_PUSH rv s)))))"

definition long_shift :: "(64 word \<Rightarrow> 32 word \<Rightarrow> 64 word) \<Rightarrow> handler" where
  "long_shift f e s =
     jvm_check (POP s) (\<lambda>(val2, s). jvm_check (LONG_POP s) (\<lambda>(val1, s).
       Inr (ADVANCE 1 (LONG_PUSH (f val1 val2) s))))"

abbreviation (input) pure2 :: "('a \<Rightarrow> 'b \<Rightarrow> 'c) \<Rightarrow> interp_env \<Rightarrow> 'a \<Rightarrow> 'b \<Rightarrow> stop + 'c" where
  "pure2 f \<equiv> (\<lambda>e a b. Inr (f a b))"

text \<open>\<open>/\<close> and \<open>%\<close> of C, which truncate the quotient.\<close>

definition jdiv :: "'a::len word \<Rightarrow> 'a word \<Rightarrow> 'a word" where
  "jdiv a b = word_of_int (sint a sdiv sint b)"

definition jmod :: "'a::len word \<Rightarrow> 'a word \<Rightarrow> 'a word" where
  "jmod a b = word_of_int (sint a smod sint b)"

definition idiv :: "interp_env \<Rightarrow> 32 word \<Rightarrow> 32 word \<Rightarrow> stop + 32 word" where
  "idiv e val1 val2 =
     (if val2 = 0 then Inl (Throws ArithmeticException)
      else Inr (if val1 \<noteq> 0x80000000 \<or> val2 \<noteq> - 1 then jdiv val1 val2 else val1))"

definition irem :: "interp_env \<Rightarrow> 32 word \<Rightarrow> 32 word \<Rightarrow> stop + 32 word" where
  "irem e val1 val2 =
     (if val2 = 0 then Inl (Throws ArithmeticException)
      else Inr (if val1 = 0x80000000 \<and> val2 = - 1 then jmod val1 1 else jmod val1 val2))"

text \<open>The quotient of the smallest long and -1 is not a long: the division is undefined in C,
  and these two do not avoid it.\<close>

definition long_overflow :: "64 word \<Rightarrow> 64 word \<Rightarrow> bool" where
  "long_overflow val1 val2 = (val1 = 0x8000000000000000 \<and> val2 = - 1)"

definition ldiv :: "interp_env \<Rightarrow> 64 word \<Rightarrow> 64 word \<Rightarrow> stop + 64 word" where
  "ldiv e val1 val2 =
     (if val2 = 0 then Inl (Throws ArithmeticException)
      else if long_overflow val1 val2 then Inl Undefined_in_C else Inr (jdiv val1 val2))"

definition lrem :: "interp_env \<Rightarrow> 64 word \<Rightarrow> 64 word \<Rightarrow> stop + 64 word" where
  "lrem e val1 val2 =
     (if val2 = 0 then Inl (Throws ArithmeticException)
      else if long_overflow val1 val2 then Inl Undefined_in_C else Inr (jmod val1 val2))"

definition ishl :: "32 word \<Rightarrow> 32 word \<Rightarrow> 32 word" where
  "ishl val1 val2 = push_bit (unat (val2 AND 0x1f)) val1"

definition ishr :: "32 word \<Rightarrow> 32 word \<Rightarrow> 32 word" where
  "ishr val1 val2 = signed_drop_bit (unat (val2 AND 0x1f)) val1"

definition iushr :: "32 word \<Rightarrow> 32 word \<Rightarrow> 32 word" where
  "iushr val1 val2 = drop_bit (unat (val2 AND 0x1f)) val1"

definition lshl :: "64 word \<Rightarrow> 32 word \<Rightarrow> 64 word" where
  "lshl val1 val2 = push_bit (unat (val2 AND 0x3f)) val1"

definition lshr :: "64 word \<Rightarrow> 32 word \<Rightarrow> 64 word" where
  "lshr val1 val2 = signed_drop_bit (unat (val2 AND 0x3f)) val1"

definition lushr :: "64 word \<Rightarrow> 32 word \<Rightarrow> 64 word" where
  "lushr val1 val2 = drop_bit (unat (val2 AND 0x3f)) val1"

definition lcmp :: "64 word \<Rightarrow> 64 word \<Rightarrow> 32 word" where
  "lcmp val1 val2 = (if val1 <s val2 then - 1 else if val1 = val2 then 0 else 1)"

text \<open>Operands and results of the other shapes.\<close>

definition int_unary :: "(interp_env \<Rightarrow> 32 word \<Rightarrow> 32 word) \<Rightarrow> handler" where
  "int_unary f e s = jvm_check (POP s) (\<lambda>(val, s). Inr (ADVANCE 1 (PUSH (f e val) s)))"

definition long_unary :: "(interp_env \<Rightarrow> 64 word \<Rightarrow> 64 word) \<Rightarrow> handler" where
  "long_unary f e s = jvm_check (LONG_POP s) (\<lambda>(val, s). Inr (ADVANCE 1 (LONG_PUSH (f e val) s)))"

definition int_to_long :: "(interp_env \<Rightarrow> 32 word \<Rightarrow> 64 word) \<Rightarrow> handler" where
  "int_to_long f e s = jvm_check (POP s) (\<lambda>(val, s). Inr (ADVANCE 1 (LONG_PUSH (f e val) s)))"

definition long_to_int :: "(interp_env \<Rightarrow> 64 word \<Rightarrow> 32 word) \<Rightarrow> handler" where
  "long_to_int f e s = jvm_check (LONG_POP s) (\<lambda>(val, s). Inr (ADVANCE 1 (PUSH (f e val) s)))"

definition long_compare :: "(interp_env \<Rightarrow> 64 word \<Rightarrow> 64 word \<Rightarrow> 32 word) \<Rightarrow> handler" where
  "long_compare f e s =
     jvm_check (LONG_POP s) (\<lambda>(val2, s). jvm_check (LONG_POP s) (\<lambda>(val1, s).
       Inr (ADVANCE 1 (PUSH (f e val1 val2) s))))"

text \<open>The floating point handlers; \<open>fadd\<close>, \<open>dadd\<close> and \<open>dmul\<close> pass their operands in the
  order in which they pop them.\<close>

definition float_binary :: "string \<Rightarrow> handler" where
  "float_binary op = int_binary (\<lambda>e a b. Inr (jvm_fbin (ie_fp e) op a b))"

definition float_binary_rev :: "string \<Rightarrow> handler" where
  "float_binary_rev op = int_binary (\<lambda>e a b. Inr (jvm_fbin (ie_fp e) op b a))"

definition double_binary :: "string \<Rightarrow> handler" where
  "double_binary op = long_binary (\<lambda>e a b. Inr (jvm_dbin (ie_fp e) op a b))"

definition double_binary_rev :: "string \<Rightarrow> handler" where
  "double_binary_rev op = long_binary (\<lambda>e a b. Inr (jvm_dbin (ie_fp e) op b a))"

definition float_compare :: "string \<Rightarrow> handler" where
  "float_compare op = int_binary (\<lambda>e a b. Inr (jvm_fcmp (ie_fp e) op a b))"

definition double_compare :: "string \<Rightarrow> handler" where
  "double_compare op = long_compare (\<lambda>e a b. jvm_dcmp (ie_fp e) op a b)"


section \<open>Branches and switches\<close>

definition branch :: "bool \<Rightarrow> handler" where
  "branch cond e s =
     Inr (if cond then s\<lparr>jpc := jint (jpc s + sint (GET_SHORT e s 0))\<rparr> else ADVANCE 3 s)"

definition branch_int :: "(32 word \<Rightarrow> bool) \<Rightarrow> handler" where
  "branch_int f e s = jvm_check (POP s) (\<lambda>(val, s). branch (f val) e s)"

definition branch_int2 :: "(32 word \<Rightarrow> 32 word \<Rightarrow> bool) \<Rightarrow> handler" where
  "branch_int2 f e s =
     jvm_check (POP s) (\<lambda>(val2, s). jvm_check (POP s) (\<lambda>(val1, s). branch (f val1 val2) e s))"

definition bc_goto_w :: handler where
  "bc_goto_w e s = Inr (s\<lparr>jpc := jint (jpc s + sint (get_Java_u4 (ie_code e) (jpc s + 1)))\<rparr>)"

definition int_from_addr :: "code_mem \<Rightarrow> int \<Rightarrow> int" where
  "int_from_addr m addr = sint (get_native_u4 m addr)"

definition bc_tableswitch :: handler where
  "bc_tableswitch e s =
     jvm_check (POP s) (\<lambda>(index, s).
       let aligned_jpc = align_size_up (jpc s + 1) 4;
           target = int_from_addr (ie_code e) aligned_jpc;
           low = int_from_addr (ie_code e) (aligned_jpc + 4);
           high = int_from_addr (ie_code e) (aligned_jpc + 8);
           target = (if sint index \<ge> low \<and> sint index \<le> high
                     then int_from_addr (ie_code e) (aligned_jpc + 12 + jint (sint index - low) * 4)
                     else target)
       in Inr (s\<lparr>jpc := jint (jpc s + target)\<rparr>))"

fun lookup_loop :: "code_mem \<Rightarrow> 32 word \<Rightarrow> int \<Rightarrow> nat \<Rightarrow> int \<Rightarrow> int" where
  "lookup_loop m key target 0 aligned_jpc = target"
| "lookup_loop m key target (Suc npairs) aligned_jpc =
     (let aligned_jpc = aligned_jpc + 8
      in if int_from_addr m aligned_jpc = sint key then int_from_addr m (aligned_jpc + 4)
         else lookup_loop m key target npairs aligned_jpc)"

definition bc_lookupswitch :: handler where
  "bc_lookupswitch e s =
     jvm_check (POP s) (\<lambda>(key, s).
       let aligned_jpc = align_size_up (jpc s + 1) 4;
           target = int_from_addr (ie_code e) aligned_jpc;
           npairs = int_from_addr (ie_code e) (aligned_jpc + 4);
           target = lookup_loop (ie_code e) key target (nat npairs) aligned_jpc
       in Inr (s\<lparr>jpc := jint (jpc s + target)\<rparr>))"


section \<open>Fields and exceptions\<close>

definition field_scale :: "basic_type \<Rightarrow> int" where
  "field_scale type = (if type = T_BYTE \<or> type = T_CHAR \<or> type = T_SHORT then 1 else 4)"

definition bc_fast_getfield :: "basic_type \<Rightarrow> handler" where
  "bc_fast_getfield type e s =
     jvm_check (POP s) (\<lambda>(obj, s). jvm_check (NULL_CHECK obj s) (\<lambda>s.
       Inr (ADVANCE 3
         (push_from_addr type (uint obj + GET_SHORT_NATIVE e s 0 * field_scale type) s))))"

definition bc_fast_putfield :: "basic_type \<Rightarrow> handler" where
  "bc_fast_putfield type e s =
     (if type = T_LONG \<or> type = T_DOUBLE then
        jvm_check (LONG_POP s) (\<lambda>(value, s). jvm_check (POP s) (\<lambda>(obj, s).
          jvm_check (NULL_CHECK obj s) (\<lambda>s.
            Inr (ADVANCE 3 (s\<lparr>jheap :=
              long_to_addr (uint obj + GET_SHORT_NATIVE e s 0 * 4) value (jheap s)\<rparr>)))))
      else
        jvm_check (POP s) (\<lambda>(value, s). jvm_check (POP s) (\<lambda>(obj, s).
          jvm_check (NULL_CHECK obj s) (\<lambda>s.
            let addr = uint obj + GET_SHORT_NATIVE e s 0 * field_scale type;
                s = put_word type addr value s
            in Inr (ADVANCE 3 (if type = T_OBJECT then write_barrier addr s else s))))))"

definition bc_fast_getfield_1 :: handler where
  "bc_fast_getfield_1 e s =
     jvm_check (POP s) (\<lambda>(obj, s). jvm_check (NULL_CHECK obj s) (\<lambda>s.
       Inr (ADVANCE 2 (push_from_addr T_INT (uint obj + uint (GET_BYTE e s 0) * 4) s))))"

text \<open>\<open>aload_0_fast_xgetfield_1\<close> loads the local and runs the handler above;
  \<open>aload_0_fast_xgetfield_4\<close> and \<open>_8\<close> have their offset in the bytecode.\<close>

definition bc_aload_0_fast_getfield_1 :: handler where
  "bc_aload_0_fast_getfield_1 e s = jvm_check (iload 0 s) (bc_fast_getfield_1 e)"

definition bc_aload_0_fast_getfield_n :: "int \<Rightarrow> handler" where
  "bc_aload_0_fast_getfield_n offset e s =
     jvm_check (iload 0 s) (\<lambda>s. jvm_check (POP s) (\<lambda>(obj, s). jvm_check (NULL_CHECK obj s) (\<lambda>s.
       Inr (ADVANCE 1 (push_from_addr T_INT (uint obj + offset) s)))))"

definition bc_athrow :: handler where
  "bc_athrow e s =
     jvm_check (POP s) (\<lambda>(obj, s). jvm_check (NULL_CHECK obj s) (\<lambda>s. Inl (Throws (Thrown_object obj))))"

definition bc_pop_and_npe_if_null :: handler where
  "bc_pop_and_npe_if_null e s =
     jvm_check (POP s) (\<lambda>(obj, s). jvm_check (NULL_CHECK obj s) (\<lambda>s. Inr (ADVANCE 1 s)))"

text \<open>\<open>jvm_memcpy\<close> of the bytes behind the operands into the array.\<close>

definition copy_bytes :: "code_mem \<Rightarrow> int \<Rightarrow> int \<Rightarrow> int \<Rightarrow> code_mem \<Rightarrow> code_mem" where
  "copy_bytes src from to n m i = (if to \<le> i \<and> i < to + n then src (from + (i - to)) else m i)"

text \<open>The bytecode is written by the romizer only, with the size factors 0 to 3.  A shift by
  32 and more, which C leaves undefined, is taken modulo 32 as on the processors of the port.\<close>

definition bc_init_static_array :: handler where
  "bc_init_static_array e s =
     jvm_check (PEEK 0 s) (\<lambda>ref. jvm_check (NULL_CHECK ref s) (\<lambda>s.
       let size_factor = jint (2 ^ (unat (GET_BYTE e s 0) mod 32));
           count = GET_SHORT_NATIVE e s 1;
           len = GET_ARRAY_LENGTH s ref
       in if count < 0 \<or> count > len then Inl (Throws ArrayIndexOutOfBoundsException)
          else Inr (ADVANCE (jint (4 + size_factor * count))
            (s\<lparr>jheap := copy_bytes (ie_code e) (jpc s + 4) (uint ref + array_base_offset)
                (jint (count * size_factor)) (jheap s)\<rparr>))))"

section \<open>The dispatch table\<close>

text \<open>\<open>init_dispatch_table\<close>, as far as the handlers are those above, in groups.  The
  others leave the frame: the returns and calls, the bytecodes that the virtual machine
  rewrites (\<open>quicken\<close>), allocation, statics, type tests and monitors.\<close>

definition constant_handlers :: "(nat \<times> handler) list" where
  "constant_handlers =
     [(op_nop, bc_nop), (op_aconst_null, bc_push 0), (op_iconst_m1, bc_push (- 1)),
      (op_iconst_0, bc_push 0), (op_iconst_1, bc_push 1), (op_iconst_2, bc_push 2),
      (op_iconst_3, bc_push 3), (op_iconst_4, bc_push 4), (op_iconst_5, bc_push 5),
      (op_lconst_0, bc_push_long 0), (op_lconst_1, bc_push_long 1),
      (op_fconst_0, bc_push 0), (op_fconst_1, bc_push 1065353216), (op_fconst_2, bc_push 1073741824),
      (op_dconst_0, bc_push_long 0), (op_dconst_1, bc_dconst_1), (op_bipush, bc_bipush),
      (op_sipush, bc_sipush)]"

definition load_handlers :: "(nat \<times> handler) list" where
  "load_handlers =
     [(op_iload, bc_local iload), (op_lload, bc_local lload), (op_fload, bc_local iload),
      (op_dload, bc_local dload), (op_aload, bc_local iload),
      (op_iload_0, bc_local_n iload 0), (op_iload_1, bc_local_n iload 1),
      (op_iload_2, bc_local_n iload 2), (op_iload_3, bc_local_n iload 3),
      (op_lload_0, bc_local_n lload 0), (op_lload_1, bc_local_n lload 1),
      (op_lload_2, bc_local_n lload 2), (op_lload_3, bc_local_n lload 3),
      (op_fload_0, bc_local_n iload 0), (op_fload_1, bc_local_n iload 1),
      (op_fload_2, bc_local_n iload 2), (op_fload_3, bc_local_n iload 3),
      (op_dload_0, bc_local_n dload 0), (op_dload_1, bc_local_n dload 1),
      (op_dload_2, bc_local_n dload 2), (op_dload_3, bc_local_n dload 3),
      (op_aload_0, bc_local_n iload 0), (op_aload_1, bc_local_n iload 1),
      (op_aload_2, bc_local_n iload 2), (op_aload_3, bc_local_n iload 3)]"

definition store_handlers :: "(nat \<times> handler) list" where
  "store_handlers =
     [(op_istore, bc_local istore), (op_lstore, bc_local lstore), (op_fstore, bc_local istore),
      (op_dstore, bc_local lstore), (op_astore, bc_local istore),
      (op_istore_0, bc_local_n istore 0), (op_istore_1, bc_local_n istore 1),
      (op_istore_2, bc_local_n istore 2), (op_istore_3, bc_local_n istore 3),
      (op_lstore_0, bc_local_n lstore 0), (op_lstore_1, bc_local_n lstore 1),
      (op_lstore_2, bc_local_n lstore 2), (op_lstore_3, bc_local_n lstore 3),
      (op_fstore_0, bc_local_n istore 0), (op_fstore_1, bc_local_n istore 1),
      (op_fstore_2, bc_local_n istore 2), (op_fstore_3, bc_local_n istore 3),
      (op_dstore_0, bc_local_n lstore 0), (op_dstore_1, bc_local_n lstore 1),
      (op_dstore_2, bc_local_n lstore 2), (op_dstore_3, bc_local_n lstore 3),
      (op_astore_0, bc_local_n istore 0), (op_astore_1, bc_local_n istore 1),
      (op_astore_2, bc_local_n istore 2), (op_astore_3, bc_local_n istore 3),
      (op_iinc, bc_iinc)]"

definition array_handlers :: "(nat \<times> handler) list" where
  "array_handlers =
     [(op_iaload, bc_array_load T_INT), (op_laload, bc_array_load T_LONG),
      (op_faload, bc_array_load T_FLOAT), (op_daload, bc_array_load T_DOUBLE),
      (op_aaload, bc_array_load T_OBJECT), (op_baload, bc_array_load T_BYTE),
      (op_caload, bc_array_load T_CHAR), (op_saload, bc_array_load T_SHORT),
      (op_iastore, bc_array_store T_INT), (op_lastore, bc_array_store T_LONG),
      (op_fastore, bc_array_store T_FLOAT), (op_dastore, bc_array_store T_DOUBLE),
      (op_aastore, bc_array_store T_OBJECT), (op_bastore, bc_array_store T_BYTE),
      (op_castore, bc_array_store T_CHAR), (op_sastore, bc_array_store T_SHORT),
      (op_arraylength, bc_arraylength)]"

definition stack_handlers :: "(nat \<times> handler) list" where
  "stack_handlers =
     [(op_pop, bc_pop), (op_pop2, bc_pop2), (op_dup, bc_dup), (op_dup_x1, bc_dup_x1),
      (op_dup_x2, bc_dup_x2), (op_dup2, bc_dup2), (op_dup2_x1, bc_dup2_x1),
      (op_dup2_x2, bc_dup2_x2), (op_swap, bc_swap), (op_pop_and_npe_if_null, bc_pop_and_npe_if_null),
      (op_athrow, bc_athrow), (op_init_static_array, bc_init_static_array)]"

definition arithmetic_handlers :: "(nat \<times> handler) list" where
  "arithmetic_handlers =
     [(op_iadd, int_binary (pure2 (+))), (op_ladd, long_binary (pure2 (+))),
      (op_fadd, float_binary_rev ''add''), (op_dadd, double_binary_rev ''add''),
      (op_isub, int_binary (pure2 (-))), (op_lsub, long_binary (pure2 (-))),
      (op_fsub, float_binary ''sub''), (op_dsub, double_binary ''sub''),
      (op_imul, int_binary (pure2 (*))), (op_lmul, long_binary (pure2 (*))),
      (op_fmul, float_binary ''mul''), (op_dmul, double_binary_rev ''mul''),
      (op_idiv, int_binary idiv), (op_ldiv, long_binary ldiv),
      (op_fdiv, float_binary ''div''), (op_ddiv, double_binary ''div''),
      (op_irem, int_binary irem), (op_lrem, long_binary lrem),
      (op_frem, float_binary ''rem''), (op_drem, double_binary ''rem'')]"

definition bit_handlers :: "(nat \<times> handler) list" where
  "bit_handlers =
     [(op_ineg, int_unary (\<lambda>e v. - v)), (op_lneg, long_unary (\<lambda>e v. - v)),
      (op_fneg, int_unary (\<lambda>e v. jvm_fbin (ie_fp e) ''mul'' v 0xBF800000)),
      (op_dneg, long_unary (\<lambda>e. jvm_dneg (ie_fp e))),
      (op_ishl, int_binary (pure2 ishl)), (op_lshl, long_shift lshl),
      (op_ishr, int_binary (pure2 ishr)), (op_lshr, long_shift lshr),
      (op_iushr, int_binary (pure2 iushr)), (op_lushr, long_shift lushr),
      (op_iand, int_binary (pure2 (AND))), (op_land, long_binary (pure2 (AND))),
      (op_ior, int_binary (pure2 (OR))), (op_lor, long_binary (pure2 (OR))),
      (op_ixor, int_binary (pure2 (XOR))), (op_lxor, long_binary (pure2 (XOR)))]"

definition conversion_handlers :: "(nat \<times> handler) list" where
  "conversion_handlers =
     [(op_i2l, int_to_long (\<lambda>e v. scast v)), (op_i2f, int_unary (\<lambda>e. jvm_i2f (ie_fp e))),
      (op_i2d, int_to_long (\<lambda>e. jvm_i2d (ie_fp e))), (op_l2i, long_to_int (\<lambda>e v. ucast v)),
      (op_l2f, long_to_int (\<lambda>e. jvm_l2f (ie_fp e))), (op_l2d, long_unary (\<lambda>e. jvm_l2d (ie_fp e))),
      (op_f2i, int_unary (\<lambda>e. jvm_f2i (ie_fp e))), (op_f2l, int_to_long (\<lambda>e. jvm_f2l (ie_fp e))),
      (op_f2d, int_to_long (\<lambda>e. jvm_f2d (ie_fp e))), (op_d2i, long_to_int (\<lambda>e. jvm_d2i (ie_fp e))),
      (op_d2l, long_unary (\<lambda>e. jvm_d2l (ie_fp e))), (op_d2f, long_to_int (\<lambda>e. jvm_d2f (ie_fp e))),
      (op_i2b, int_unary (\<lambda>e v. scast (ucast v :: 8 word))),
      (op_i2c, int_unary (\<lambda>e v. ucast (ucast v :: 16 word))),
      (op_i2s, int_unary (\<lambda>e v. scast (ucast v :: 16 word))),
      (op_lcmp, long_compare (\<lambda>e. lcmp)),
      (op_fcmpl, float_compare ''cmpl''), (op_fcmpg, float_compare ''cmpg''),
      (op_dcmpl, double_compare ''cmpl''), (op_dcmpg, double_compare ''cmpg'')]"

definition branch_handlers :: "(nat \<times> handler) list" where
  "branch_handlers =
     [(op_ifeq, branch_int (\<lambda>v. v = 0)), (op_ifne, branch_int (\<lambda>v. v \<noteq> 0)),
      (op_iflt, branch_int (\<lambda>v. v <s 0)), (op_ifge, branch_int (\<lambda>v. 0 \<le>s v)),
      (op_ifgt, branch_int (\<lambda>v. 0 <s v)), (op_ifle, branch_int (\<lambda>v. v \<le>s 0)),
      (op_if_icmpeq, branch_int2 (\<lambda>a b. a = b)), (op_if_icmpne, branch_int2 (\<lambda>a b. a \<noteq> b)),
      (op_if_icmplt, branch_int2 (\<lambda>a b. a <s b)), (op_if_icmpge, branch_int2 (\<lambda>a b. b \<le>s a)),
      (op_if_icmpgt, branch_int2 (\<lambda>a b. b <s a)), (op_if_icmple, branch_int2 (\<lambda>a b. a \<le>s b)),
      (op_if_acmpeq, branch_int2 (\<lambda>a b. a = b)), (op_if_acmpne, branch_int2 (\<lambda>a b. a \<noteq> b)),
      (op_goto, branch True), (op_tableswitch, bc_tableswitch), (op_lookupswitch, bc_lookupswitch),
      (op_ifnull, branch_int (\<lambda>v. v = 0)), (op_ifnonnull, branch_int (\<lambda>v. v \<noteq> 0)),
      (op_goto_w, bc_goto_w)]"

text \<open>The handlers of the bytecodes that \<open>quicken\<close> puts into the code.\<close>

definition fast_handlers :: "(nat \<times> handler) list" where
  "fast_handlers =
     [(op_fast_1_ldc, fast_ldc False False), (op_fast_1_ldc_w, fast_ldc False True),
      (op_fast_2_ldc_w, fast_ldc True True),
      (op_fast_bputfield, bc_fast_putfield T_BYTE), (op_fast_sputfield, bc_fast_putfield T_SHORT),
      (op_fast_iputfield, bc_fast_putfield T_INT), (op_fast_lputfield, bc_fast_putfield T_LONG),
      (op_fast_fputfield, bc_fast_putfield T_FLOAT), (op_fast_dputfield, bc_fast_putfield T_DOUBLE),
      (op_fast_aputfield, bc_fast_putfield T_OBJECT),
      (op_fast_bgetfield, bc_fast_getfield T_BYTE), (op_fast_sgetfield, bc_fast_getfield T_SHORT),
      (op_fast_igetfield, bc_fast_getfield T_INT), (op_fast_lgetfield, bc_fast_getfield T_LONG),
      (op_fast_fgetfield, bc_fast_getfield T_FLOAT), (op_fast_dgetfield, bc_fast_getfield T_DOUBLE),
      (op_fast_agetfield, bc_fast_getfield T_OBJECT), (op_fast_cgetfield, bc_fast_getfield T_CHAR),
      (op_fast_igetfield_1, bc_fast_getfield_1), (op_fast_agetfield_1, bc_fast_getfield_1),
      (op_aload_0_fast_igetfield_1, bc_aload_0_fast_getfield_1),
      (op_aload_0_fast_igetfield_4, bc_aload_0_fast_getfield_n 4),
      (op_aload_0_fast_igetfield_8, bc_aload_0_fast_getfield_n 8),
      (op_aload_0_fast_agetfield_1, bc_aload_0_fast_getfield_1),
      (op_aload_0_fast_agetfield_4, bc_aload_0_fast_getfield_n 4),
      (op_aload_0_fast_agetfield_8, bc_aload_0_fast_getfield_n 8)]"

definition java_handlers :: "(nat \<times> handler) list" where
  "java_handlers = constant_handlers @ load_handlers @ array_handlers @ store_handlers @
     stack_handlers @ arithmetic_handlers @ bit_handlers @ conversion_handlers @ branch_handlers"

text \<open>The entries of the table behind \<open>WIDE_OFFSET\<close>.\<close>

definition wide_handlers :: "(nat \<times> handler) list" where
  "wide_handlers =
     [(op_iload, bc_local_wide iload), (op_lload, bc_local_wide lload), (op_fload, bc_local_wide iload),
      (op_dload, bc_local_wide dload), (op_aload, bc_local_wide iload),
      (op_istore, bc_local_wide istore), (op_lstore, bc_local_wide lstore),
      (op_fstore, bc_local_wide istore), (op_dstore, bc_local_wide lstore),
      (op_astore, bc_local_wide istore), (op_iinc, bc_iinc_wide)]"

definition bc_wide :: handler where
  "bc_wide e s =
     (let s = ADVANCE 1 s
      in case map_of wide_handlers (bytecode_at (ie_code e) (jpc s)) of
           Some h \<Rightarrow> h e s | None \<Rightarrow> Inl Undefined_bytecode)"

definition frame_handlers :: "(nat \<times> handler) list" where
  "frame_handlers = java_handlers @ (op_wide, bc_wide) # fast_handlers"

text \<open>One round of the loop of \<open>Interpret\<close>, for a bytecode of the table.\<close>

definition interpret_step :: "interp_env \<Rightarrow> interp \<Rightarrow> (stop + interp) option" where
  "interpret_step e s =
     map_option (\<lambda>h. h e s) (map_of frame_handlers (bytecode_at (ie_code e) (jpc s)))"

end
