(* ===== verification/Interpreter_Frame.thy ===== *)
theory Interpreter_Frame
  imports Interpreter Handler_Invariant Call_Operands
begin

text \<open>
  The interpreter and the verifier on the same bytecode: the words that a call of the
  visitor takes from the stack and leaves there, which the verifier's handlers enforce and
  the interpreter's handlers rely on.
\<close>

section \<open>The words of a call\<close>

fun kind_words :: "basic_type \<Rightarrow> nat" where
  "kind_words T_LONG = 2"
| "kind_words T_DOUBLE = 2"
| "kind_words T_VOID = 0"
| "kind_words _ = 1"

text \<open>Words taken, words left, and locals that must be there.\<close>

fun call_words :: "closure_call \<Rightarrow> (nat \<times> nat \<times> nat) option" where
  "call_words (Push_int _) = Some (0, 1, 0)"
| "call_words (Push_long _) = Some (0, 2, 0)"
| "call_words (Push_float _) = Some (0, 1, 0)"
| "call_words (Push_double _) = Some (0, 2, 0)"
| "call_words (Push_obj _) = Some (0, 1, 0)"
| "call_words (Load_local kind i) = Some (0, kind_words kind, nat i + kind_words kind)"
| "call_words (Store_local kind i) = Some (kind_words kind, 0, nat i + kind_words kind)"
| "call_words (Increment_local_int i _) = Some (0, 0, nat i + 1)"
| "call_words Array_length = Some (1, 1, 0)"
| "call_words (Load_array kind) = Some (2, kind_words kind, 0)"
| "call_words (Store_array kind) = Some (2 + kind_words kind, 0, 0)"
| "call_words Nop = Some (0, 0, 0)"
| "call_words Pop = Some (1, 0, 0)"
| "call_words Pop2 = Some (2, 0, 0)"
| "call_words Dup = Some (1, 2, 0)"
| "call_words Dup2 = Some (2, 4, 0)"
| "call_words Dup_x1 = Some (2, 3, 0)"
| "call_words Dup2_x1 = Some (3, 5, 0)"
| "call_words Dup_x2 = Some (3, 4, 0)"
| "call_words Dup2_x2 = Some (4, 6, 0)"
| "call_words Swap = Some (2, 2, 0)"
| "call_words (Neg kind) = Some (kind_words kind, kind_words kind, 0)"
| "call_words (Binary kind op) =
     Some (kind_words kind + (if op \<in> {bin_shl, bin_shr, bin_ushr} then 1 else kind_words kind),
       kind_words kind, 0)"
| "call_words (Convert from to) = Some (kind_words from, kind_words to, 0)"
| "call_words (Branch_if _ _) = Some (1, 0, 0)"
| "call_words (Branch_if_icmp _ _) = Some (2, 0, 0)"
| "call_words (Branch_if_acmp _ _) = Some (2, 0, 0)"
| "call_words (Compare kind _) = Some (2 * kind_words kind, 1, 0)"
| "call_words (Branch _) = Some (0, 0, 0)"
| "call_words (Table_switch _ _ _ _) = Some (1, 0, 0)"
| "call_words (Lookup_switch _ _ _) = Some (1, 0, 0)"
| "call_words Throw_exception = Some (1, 0, 0)"
| "call_words _ = None"


section \<open>The verifier counts the words\<close>

definition depth_step :: "nat \<Rightarrow> nat \<Rightarrow> verifier_frame \<Rightarrow> verifier_frame \<Rightarrow> bool" where
  "depth_step taken left f f' =
     (taken \<le> vstackpointer f \<and> vstackpointer f' + taken = vstackpointer f + left \<and>
      max_locals f' = max_locals f)"

lemma depth_refl [simp]: "depth_step 0 0 f f"
  by (simp add: depth_step_def)

lemma push_depth:
  "push_category1 t c f = Inr f' \<Longrightarrow> depth_step 0 1 f f'"
  "push_category2 t1 t2 c1 c2 f = Inr f' \<Longrightarrow> depth_step 0 2 f f'"
  by (auto simp: push_category1_def push_category2_def vstack_put_def Let_def depth_step_def
      split: if_splits)

lemma pop_depth:
  "pop_category1 f = Inr (t, c, f') \<Longrightarrow> depth_step 1 0 f f'"
  "pop_category2 f = Inr (w, f') \<Longrightarrow> depth_step 2 0 f f'"
  "frame_pop t f = Inr f' \<Longrightarrow> depth_step 1 0 f f'"
  by (auto simp: pop_category1_def pop_category2_def frame_pop_def Let_def depth_step_def
      split: if_splits)

lemma pop_ref_depth: "pop_ref f = Inr (t, c, f') \<Longrightarrow> depth_step 1 0 f f'"
  by (auto simp: pop_ref_def jvm_check_Inr_iff Let_def depth_step_def split: if_splits
      dest!: pop_depth)

lemma pop_object_depth: "pop_object vm name f = Inr f' \<Longrightarrow> depth_step 1 0 f f'"
  by (auto simp: pop_object_def jvm_check_Inr_iff Let_def depth_step_def split: if_splits
      dest!: pop_depth pop_ref_depth)

lemma push_kind_depth: "v_push kind f = Inr f' \<Longrightarrow> depth_step 0 (kind_words kind) f f'"
  by (cases kind) (auto simp: push_integer_def v_push_long_def v_push_double_def depth_step_def
      jvm_check_Inr_iff dest!: push_depth)

lemma pop_kind_depth: "v_pop kind f = Inr f' \<Longrightarrow> depth_step (kind_words kind) 0 f f'"
  by (cases kind) (auto simp: pop_integer_def depth_step_def jvm_check_Inr_iff dest!: pop_depth)

text \<open>The steps of a handler, one after the other.\<close>

lemma integer_depth:
  "push_integer f = Inr f' \<Longrightarrow> depth_step 0 1 f f'" "pop_integer f = Inr f' \<Longrightarrow> depth_step 1 0 f f'"
  by (auto simp: push_integer_def pop_integer_def dest: push_depth pop_depth)

lemmas depth_dest = push_depth pop_depth pop_ref_depth pop_object_depth push_kind_depth pop_kind_depth
  integer_depth

lemma vlocals_depth [simp]:
  "vstackpointer (vlocals_put i t c f) = vstackpointer f"
  "vstackpointer (bogify_surrounding_doublewords i f) = vstackpointer f"
  by (simp_all add: vlocals_put_def bogify_surrounding_doublewords_def)

lemma set_local_depth: "v_set_local i kind f = Inr f' \<Longrightarrow>
    depth_step 0 0 f f' \<and> nat i + kind_words kind \<le> max_locals f"
  by (cases kind) (auto simp: frame_set_local_def frame_set_local2_def depth_step_def Let_def
      split: if_splits)

lemma set_local_ref_depth:
  "set_local_ref i t c f = Inr f' \<Longrightarrow> depth_step 0 0 f f' \<and> nat i + 1 \<le> max_locals f"
  by (auto simp: set_local_ref_def depth_step_def split: if_splits)

lemma check_local_bound:
  "v_check_local i kind f = Inr f' \<Longrightarrow> f' = f \<and> nat i + kind_words kind \<le> max_locals f"
  "check_local_ref i f = Inr w \<Longrightarrow> nat i + 1 \<le> max_locals f"
  by (cases kind) (auto simp: frame_check_local_def frame_check_local2_def check_local_ref_def
      split: if_splits)

lemma locals_depth:
  "load_local kind i f = Inr f' \<Longrightarrow>
     depth_step 0 (kind_words kind) f f' \<and> nat i + kind_words kind \<le> max_locals f"
  "store_local kind i f = Inr f' \<Longrightarrow>
     depth_step (kind_words kind) 0 f f' \<and> nat i + kind_words kind \<le> max_locals f"
  by (auto simp: load_local_def store_local_def jvm_check_Inr_iff depth_step_def split: if_splits
      dest!: check_local_bound depth_dest set_local_depth set_local_ref_depth)

lemma array_depth:
  "array_length vm f = Inr f' \<Longrightarrow> depth_step 1 1 f f'"
  "pop_array_of vm kind f = Inr f' \<Longrightarrow> depth_step 1 0 f f'"
  by (auto simp: array_length_def pop_array_of_def jvm_check_Inr_iff depth_step_def
      split: if_splits java_class.splits dest!: depth_dest)

lemma element_depth:
  "load_array vm kind f = Inr f' \<Longrightarrow> depth_step 2 (kind_words kind) f f'"
  "store_array vm kind f = Inr f' \<Longrightarrow> depth_step (2 + kind_words kind) 0 f f'"
  by (auto simp: load_array_def store_array_def jvm_check_Inr_iff depth_step_def
      split: if_splits option.splits dest!: depth_dest array_depth)

lemma stack_depth:
  "vm_pop f = Inr f' \<Longrightarrow> depth_step 1 0 f f'"
  "vm_pop2 f = Inr f' \<Longrightarrow> depth_step 2 0 f f'"
  "vm_dup f = Inr f' \<Longrightarrow> depth_step 1 2 f f'"
  "vm_dup2 f = Inr f' \<Longrightarrow> depth_step 2 4 f f'"
  "vm_dup_x1 f = Inr f' \<Longrightarrow> depth_step 2 3 f f'"
  "vm_dup2_x1 f = Inr f' \<Longrightarrow> depth_step 3 5 f f'"
  "vm_dup_x2 f = Inr f' \<Longrightarrow> depth_step 3 4 f f'"
  "vm_dup2_x2 f = Inr f' \<Longrightarrow> depth_step 4 6 f f'"
  "vm_swap f = Inr f' \<Longrightarrow> depth_step 2 2 f f'"
  by (auto simp: vm_pop_def vm_pop2_def vm_dup_def vm_dup2_def vm_dup_x1_def vm_dup2_x1_def
      vm_dup_x2_def vm_dup2_x2_def vm_swap_def jvm_check_Inr_iff depth_step_def dest!: push_depth pop_depth)

lemma arithmetic_depth:
  "vm_neg kind f = Inr f' \<Longrightarrow> depth_step (kind_words kind) (kind_words kind) f f'"
  "vm_binary kind op f = Inr f' \<Longrightarrow>
     depth_step (kind_words kind + (if op \<in> {bin_shl, bin_shr, bin_ushr} then 1 else kind_words kind))
       (kind_words kind) f f'"
  "vm_convert from to f = Inr f' \<Longrightarrow> depth_step (kind_words from) (kind_words to) f f'"
  "vm_compare kind f = Inr f' \<Longrightarrow> depth_step (2 * kind_words kind) 1 f f'"
  by (auto simp: vm_neg_def vm_binary_def vm_convert_def vm_compare_def jvm_check_Inr_iff depth_step_def
      split: if_splits dest!: depth_dest)

lemma branch_depth:
  "drop_ref f = Inr f' \<Longrightarrow> depth_step 1 0 f f'"
  "branch_if env cond dest f = Inr f' \<Longrightarrow> depth_step 1 0 f f'"
  "branch_if_icmp env dest f = Inr f' \<Longrightarrow> depth_step 2 0 f f'"
  "branch_if_acmp env dest f = Inr f' \<Longrightarrow> depth_step 2 0 f f'"
  "check_branch_target env dest f = Inr f' \<Longrightarrow> depth_step 0 0 f f'"
  by (auto simp: drop_ref_def branch_if_def branch_if_icmp_def branch_if_acmp_def jvm_check_Inr_iff
      depth_step_def split: if_splits dest!: depth_dest check_target_same)

lemma switch_depth:
  "table_switch env bci i d low high f = Inr f' \<Longrightarrow> depth_step 1 0 f f'"
  "lookup_switch env bci i d n f = Inr f' \<Longrightarrow> depth_step 1 0 f f'"
  by (auto dest!: table_switch_pops lookup_switch_pops depth_dest)

lemma push_two_depth:
  "v_push_long f = Inr f' \<Longrightarrow> depth_step 0 2 f f'" "v_push_double f = Inr f' \<Longrightarrow> depth_step 0 2 f f'"
  using push_kind_depth [of T_LONG f f'] push_kind_depth [of T_DOUBLE f f'] by simp_all

lemma increment_depth:
  "frame_check_local i t f = Inr f' \<Longrightarrow> depth_step 0 0 f f' \<and> Suc (nat i) \<le> max_locals f"
  by (auto simp: frame_check_local_def split: if_splits)

lemma frame_call_depth:
  assumes "frame_call env cp bci c f = Inr f'" "call_words c = Some (t, p, l)"
  shows "depth_step t p f f' \<and> l \<le> max_locals f"
  using assms
  by (cases c) (auto simp: frame_call_def split: if_splits dest!: push_two_depth depth_dest locals_depth
      array_depth element_depth stack_depth arithmetic_depth branch_depth switch_depth increment_depth)


section \<open>The interpreter stays in its frame\<close>

text \<open>The outcomes of a handler that works on the words it may use: an exception, undefined
  behaviour of an operation, or a next state with a given property.\<close>

definition in_frame :: "(interp \<Rightarrow> bool) \<Rightarrow> stop + interp \<Rightarrow> bool" where
  "in_frame P r = (case r of Inl x \<Rightarrow> x \<noteq> Off_frame \<and> x \<noteq> Undefined_bytecode | Inr s \<Rightarrow> P s)"

lemma in_frame_simps [simp]:
  "in_frame P (Inr s) = P s" "in_frame P (Inl (Throws x))" "in_frame P (Inl Undefined_in_C)"
  by (simp_all add: in_frame_def)

lemma in_frame_check: "in_frame P (jvm_check r f) = in_frame (\<lambda>s. in_frame P (f s)) r"
  by (simp add: in_frame_def split: sum.splits)

lemma in_frame_mono: "in_frame P r \<Longrightarrow> (\<And>s. P s \<Longrightarrow> Q s) \<Longrightarrow> in_frame Q r"
  by (simp add: in_frame_def split: sum.splits)

text \<open>What the interpreter has to do for a call that the verifier has accepted.\<close>

definition obeys :: "code_mem \<Rightarrow> closure_call \<Rightarrow> interp \<Rightarrow> stop + interp \<Rightarrow> bool" where
  "obeys m c s r =
     (\<forall>t p l. call_words c = Some (t, p, l) \<longrightarrow> t \<le> length (jsp s) \<longrightarrow> l \<le> length (jlocals s) \<longrightarrow>
       in_frame (\<lambda>s'. length (jsp s') + t = length (jsp s) + p \<and>
         length (jlocals s') = length (jlocals s) \<and>
         (jpc s' \<in> branch_targets m (jpc s) c \<or>
          \<not> ends_control_flow c \<and> jpc s' = next_bci m (jpc s))) r)"

text \<open>The words that a handler takes and leaves, the locals it needs, and its length.\<close>

definition words :: "handler \<Rightarrow> interp_env \<Rightarrow> interp \<Rightarrow> nat \<Rightarrow> nat \<Rightarrow> nat \<Rightarrow> int \<Rightarrow> bool" where
  "words h e s t p l n =
     (t \<le> length (jsp s) \<longrightarrow> l \<le> length (jlocals s) \<longrightarrow>
       in_frame (\<lambda>s'. length (jsp s') + t = length (jsp s) + p \<and>
         length (jlocals s') = length (jlocals s) \<and> jpc s' = jpc s + n) (h e s))"

lemma obeys_words:
  assumes "case call_words c of None \<Rightarrow> True | Some (t, p, l) \<Rightarrow> words h e s t p l (length_for m (jpc s))"
    "\<not> ends_control_flow c"
  shows "obeys m c s (h e s)"
  using assms by (fastforce simp: obeys_def words_def next_bci_def in_frame_def split: sum.splits)

text \<open>Reading and writing in the frame.\<close>

lemma pop_word: "POP s = (case jsp s of [] \<Rightarrow> Inl Off_frame | v # st \<Rightarrow> Inr (v, s\<lparr>jsp := st\<rparr>))"
  by (rule POP_def)

lemmas frame_access = PUSH_def pop_word LONG_PUSH_def LONG_POP_def PEEK_def GET_LOCAL_def SET_LOCAL_def
  ADVANCE_def

lemma length_at_least: "Suc n \<le> length xs \<longleftrightarrow> (\<exists>y ys. xs = y # ys \<and> n \<le> length ys)"
  by (cases xs) auto

lemmas words_simps = words_def frame_access length_at_least numeral_2_eq_2 numeral_3_eq_3

lemma constant_words:
  "words bc_nop e s 0 0 0 1" "words (bc_push v) e s 0 1 0 1" "words (bc_push_long w) e s 0 2 0 1"
  "words bc_dconst_1 e s 0 2 0 1" "words bc_bipush e s 0 1 0 2" "words bc_sipush e s 0 1 0 3"
  by (simp_all add: words_simps bc_nop_def bc_push_def bc_push_long_def bc_dconst_1_def bc_bipush_def
      bc_sipush_def)

text \<open>A load or store of one or two words, in the three shapes of its handlers.\<close>

definition access_words :: "(nat \<Rightarrow> interp \<Rightarrow> stop + interp) \<Rightarrow> nat \<Rightarrow> nat \<Rightarrow> nat \<Rightarrow> bool" where
  "access_words f t p k = (\<forall>e s n. words (\<lambda>e. f n) e s t p (n + k) 0)"

lemma local_access:
  "access_words iload 0 1 1" "access_words lload 0 2 2" "access_words dload 0 2 2"
  "access_words istore 1 0 1" "access_words lstore 2 0 2"
  by (auto simp: access_words_def words_simps iload_def lload_def dload_def istore_def lstore_def
      simp del: list_update.simps)

lemma GET_BYTE_ubyte: "unat (GET_BYTE e s x) = nat (get_ubyte (ie_code e) (jpc s + x + 1))"
  by (simp add: GET_BYTE_def get_ubyte_def)

lemma GET_SHORT_ushort: "unat (GET_SHORT e s x) = nat (get_java_ushort (ie_code e) (jpc s + x + 1))"
  by (simp add: GET_SHORT_def GET_BYTE_def get_java_ushort_def get_Java_u2_def)

lemma local_shapes:
  assumes "access_words f t p k"
  shows "words (bc_local f) e s t p (nat (get_ubyte (ie_code e) (jpc s + 1)) + k) 2"
    "words (bc_local_wide f) e s t p (nat (get_java_ushort (ie_code e) (jpc s + 1)) + k) 3"
    "n + k = l \<Longrightarrow> words (bc_local_n f n) e s t p l 1"
  using assms
  by (auto simp: access_words_def words_def bc_local_def bc_local_wide_def bc_local_n_def GET_BYTE_ubyte
      GET_SHORT_ushort ADVANCE_def in_frame_check elim!: in_frame_mono)

lemmas access_shapes = local_shapes [OF local_access(1)] local_shapes [OF local_access(2)]
  local_shapes [OF local_access(3)] local_shapes [OF local_access(4)] local_shapes [OF local_access(5)]

lemma iinc_words:
  "words bc_iinc e s 0 0 (nat (get_ubyte (ie_code e) (jpc s + 1)) + 1) 3"
  "words bc_iinc_wide e s 0 0 (nat (get_java_ushort (ie_code e) (jpc s + 1)) + 1) 5"
  by (simp_all add: words_def frame_access bc_iinc_def bc_iinc_wide_def Let_def GET_BYTE_ubyte GET_SHORT_ushort)

lemma array_words:
  "k = (if type = T_LONG \<or> type = T_DOUBLE then 2 else 1) \<Longrightarrow> words (bc_array_load type) e s 2 k 0 1"
  "k = (if type = T_LONG \<or> type = T_DOUBLE then 4 else 3) \<Longrightarrow> words (bc_array_store type) e s k 0 0 1"
  "words bc_arraylength e s 1 1 0 1"
  by (auto simp: words_simps numeral_eq_Suc bc_array_load_def array_load_def BOUNDS_CHECK_def push_from_addr_def
      bc_array_store_def array_store_def type_check_def put_word_def write_barrier_def bc_arraylength_def
      NULL_CHECK_def split: basic_type.splits)

lemma stack_handler_words:
  "words bc_pop e s 1 0 0 1" "words bc_pop2 e s 2 0 0 1" "words bc_dup e s 1 2 0 1"
  "words bc_dup_x1 e s 2 3 0 1" "words bc_dup_x2 e s 3 4 0 1" "words bc_dup2 e s 2 4 0 1"
  "words bc_dup2_x1 e s 3 5 0 1" "words bc_dup2_x2 e s 4 6 0 1" "words bc_swap e s 2 2 0 1"
  "words bc_pop_and_npe_if_null e s 1 0 0 1"
  by (auto simp: words_simps numeral_eq_Suc bc_pop_def bc_pop2_def bc_dup_def bc_dup_x1_def bc_dup_x2_def bc_dup2_def
      bc_dup2_x1_def bc_dup2_x2_def bc_swap_def bc_pop_and_npe_if_null_def NULL_CHECK_def)

text \<open>An operation that yields a value or an exception.\<close>

definition value_or_throw :: "stop + 'a \<Rightarrow> bool" where
  "value_or_throw r = (r \<noteq> Inl Off_frame \<and> r \<noteq> Inl Undefined_bytecode)"

lemma value_or_throw_simps [simp]:
  "value_or_throw (Inr x)" "value_or_throw (idiv e a b)" "value_or_throw (irem e a b)"
  "value_or_throw (ldiv e u v)" "value_or_throw (lrem e u v)"
  by (simp_all add: value_or_throw_def idiv_def irem_def ldiv_def lrem_def)

lemma in_frame_value:
  "value_or_throw r \<Longrightarrow> (\<And>v. in_frame P (k v)) \<Longrightarrow> in_frame P (jvm_check r k)"
  by (cases r) (auto simp: value_or_throw_def in_frame_def)

lemma binary_words:
  "(\<And>a b. value_or_throw (f e a b)) \<Longrightarrow> words (int_binary f) e s 2 1 0 1"
  "(\<And>a b. value_or_throw (g e a b)) \<Longrightarrow> words (long_binary g) e s 4 2 0 1"
  by (auto simp: words_simps numeral_eq_Suc int_binary_def long_binary_def; rule in_frame_value; simp)+

lemma unary_words:
  "words (long_shift k) e s 3 2 0 1" "words (int_unary u) e s 1 1 0 1" "words (long_unary v) e s 2 2 0 1"
  "words (int_to_long x) e s 1 2 0 1" "words (long_to_int y) e s 2 1 0 1"
  "words (long_compare z) e s 4 1 0 1"
  by (auto simp: words_simps numeral_eq_Suc long_shift_def int_unary_def long_unary_def
      int_to_long_def long_to_int_def long_compare_def)

text \<open>Branches and switches go where the visitor says.\<close>

lemma branch_target:
  assumes "0 \<le> jpc s" "jpc s \<le> 65535"
  shows "jint (jpc s + sint (GET_SHORT e s 0)) = branch_destination (ie_code e) (jpc s)"
proof -
  have "sint (GET_SHORT e s 0) = get_java_short (ie_code e) (jpc s + 1)"
    by (simp add: GET_SHORT_def GET_BYTE_def get_java_short_def get_Java_u2_def add.commute)
  then show ?thesis
    using assms get_java_short_range [of "ie_code e" "jpc s + 1"]
    by (simp add: branch_destination_def jint_id)
qed

lemma GET_SHORT_jsp [simp]: "GET_SHORT e (s\<lparr>jsp := st\<rparr>) x = GET_SHORT e s x"
  by (simp add: GET_SHORT_def GET_BYTE_def)

lemma branch_obeys:
  assumes "0 \<le> jpc s" "jpc s \<le> 65535" "length_for (ie_code e) (jpc s) = 3"
  shows "obeys (ie_code e) (Branch_if q (branch_destination (ie_code e) (jpc s))) s (branch_int f e s)"
    "obeys (ie_code e) (Branch_if_icmp q (branch_destination (ie_code e) (jpc s))) s (branch_int2 g e s)"
    "obeys (ie_code e) (Branch_if_acmp q (branch_destination (ie_code e) (jpc s))) s (branch_int2 g e s)"
    "obeys (ie_code e) (Branch (branch_destination (ie_code e) (jpc s))) s (branch True e s)"
  using assms branch_target [OF assms(1,2)]
  by (auto simp: obeys_def branch_int_def branch_int2_def branch_def frame_access length_at_least
      branch_targets_def ends_control_flow_def next_bci_def numeral_2_eq_2)

lemma goto_w_obeys:
  "obeys (ie_code e) (Branch (jint (jpc s + get_java_int (ie_code e) (jpc s + 1)))) s (bc_goto_w e s)"
  by (simp add: obeys_def bc_goto_w_def branch_targets_def get_java_int_def)

lemmas switch_word = get_java_switch_int_def int_from_addr_def get_native_aligned_int_def

lemma table_switch_obeys:
  assumes "a = align_size_up (jpc s + 1) 4" "low = get_java_switch_int (ie_code e) (a + 4)"
    "high = get_java_switch_int (ie_code e) (a + 8)" "high - low \<le> jint_max"
  shows "obeys (ie_code e) (Table_switch a (jint (jpc s + get_java_switch_int (ie_code e) a)) low high) s
    (bc_tableswitch e s)"
proof -
  define target where "target i = (if low \<le> i \<and> i \<le> high
    then get_java_switch_int (ie_code e) (a + 12 + jint (i - low) * 4)
    else get_java_switch_int (ie_code e) a)" for i
  have "jint (jpc s + target i) \<in> branch_targets (ie_code e) (jpc s)
      (Table_switch a (jint (jpc s + get_java_switch_int (ie_code e) a)) low high)" for i
  proof (cases "low \<le> i \<and> i \<le> high")
    case True
    then have "jint (i - low) = i - low" "jint (high - low) = high - low"
      using assms(4) by (simp_all add: jint_id)
    then show ?thesis using True
      by (auto simp: branch_targets_def target_def mult.commute intro!: image_eqI [of _ _ "i - low"])
  qed (auto simp: branch_targets_def target_def)
  moreover have "bc_tableswitch e s = jvm_check (POP s) (\<lambda>(i, s). Inr (s\<lparr>jpc := jint (jpc s + target (sint i))\<rparr>))"
    by (auto simp: bc_tableswitch_def target_def assms(1-3) switch_word Let_def pop_word split: list.splits)
  ultimately show ?thesis by (auto simp: obeys_def frame_access length_at_least)
qed

lemma lookup_loop_target:
  "lookup_loop m key target n p = target \<or>
     (\<exists>k. 0 \<le> k \<and> k < int n \<and> lookup_loop m key target n p = int_from_addr m (p + 8 * (k + 1) + 4))"
proof (induction n arbitrary: p)
  case (Suc n)
  show ?case
  proof (cases "int_from_addr m (p + 8) = sint key")
    case True
    then show ?thesis by (intro disjI2 exI [of _ 0]) (simp add: Let_def algebra_simps)
  next
    case False
    from Suc.IH [of "p + 8"] show ?thesis
    proof (elim disjE exE conjE)
      fix k assume "0 \<le> k" "k < int n"
        "lookup_loop m key target n (p + 8) = int_from_addr m (p + 8 + 8 * (k + 1) + 4)"
      with False show ?thesis by (intro disjI2 exI [of _ "k + 1"]) (simp add: Let_def algebra_simps)
    qed (use False in \<open>simp add: Let_def\<close>)
  qed
qed simp

lemma lookup_switch_obeys:
  assumes "a = align_size_up (jpc s + 1) 4" "n = get_java_switch_int (ie_code e) (a + 4)"
  shows "obeys (ie_code e) (Lookup_switch a (jint (jpc s + get_java_switch_int (ie_code e) a)) n) s
    (bc_lookupswitch e s)"
proof -
  define target where
    "target key = lookup_loop (ie_code e) key (get_java_switch_int (ie_code e) a) (nat n) a" for key
  have "jint (jpc s + target key) \<in> branch_targets (ie_code e) (jpc s)
      (Lookup_switch a (jint (jpc s + get_java_switch_int (ie_code e) a)) n)" for key
    using lookup_loop_target [of "ie_code e" key "get_java_switch_int (ie_code e) a" "nat n" a]
  proof (elim disjE exE conjE)
    fix k assume "0 \<le> k" "k < int (nat n)" and k: "lookup_loop (ie_code e) key (get_java_switch_int (ie_code e) a)
        (nat n) a = int_from_addr (ie_code e) (a + 8 * (k + 1) + 4)"
    then have "k \<in> {0..n - 1}" by (auto split: if_splits)
    with k show ?thesis
      by (auto simp: branch_targets_def target_def switch_word algebra_simps
          simp del: atLeastAtMost_iff intro!: image_eqI [of _ _ k])
  qed (simp add: branch_targets_def target_def)
  moreover have "bc_lookupswitch e s = jvm_check (POP s) (\<lambda>(key, s). Inr (s\<lparr>jpc := jint (jpc s + target key)\<rparr>))"
    by (auto simp: bc_lookupswitch_def target_def assms switch_word Let_def pop_word split: list.splits)
  ultimately show ?thesis by (auto simp: obeys_def frame_access length_at_least)
qed

section \<open>The dispatch table against the visitor\<close>

text \<open>The handler of a bytecode that goes on to the next one takes and leaves the words of the
  visitor's calls.\<close>

definition straight :: "nat \<times> handler \<Rightarrow> bool" where
  "straight = (\<lambda>(code, h). length_for_code code \<noteq> 0 \<and> (\<forall>e s cp.
     list_all (\<lambda>c. \<not> ends_control_flow c \<and>
         (case call_words c of None \<Rightarrow> True | Some (t, p, l) \<Rightarrow> words h e s t p l (length_for_code code)))
       (concat (map (expand_call (ie_code e) (jpc s)) (decode_bytecode (ie_code e) cp (jpc s) code)))))"

lemmas decode_simps = decode_bytecode_def decode_loads_stores_def
  decode_arrays_stack_def decode_arithmetic_def decode_control_def decode_objects_def
  decode_fast_fields_def decode_fast_invokes_def decode_common_def decode_switches_def
  expand_call_def Let_def

lemmas straight_simps = straight_def decode_simps ends_control_flow_def length_for_code_code

lemma constant_straight: "list_all straight constant_handlers"
  by (simp add: constant_handlers_def straight_simps constant_words del: One_nat_def)

text \<open>The numbers of words are left as numerals.\<close>

lemma load_straight: "list_all straight load_handlers"
  by (simp add: load_handlers_def straight_simps access_shapes del: One_nat_def add_2_eq_Suc add_2_eq_Suc')

lemma store_straight: "list_all straight store_handlers"
  by (simp add: store_handlers_def straight_simps access_shapes iinc_words
      del: One_nat_def add_2_eq_Suc add_2_eq_Suc')

lemma array_straight: "list_all straight array_handlers"
  by (simp add: array_handlers_def straight_simps array_op_types_def array_words
      del: One_nat_def)

lemma arithmetic_straight: "list_all straight arithmetic_handlers"
  by (simp add: arithmetic_handlers_def straight_simps binary_op_types_def float_binary_def float_binary_rev_def
      double_binary_def double_binary_rev_def binary_words del: One_nat_def)

lemma bit_straight: "list_all straight bit_handlers"
  by (simp add: bit_handlers_def straight_simps binary_op_types_def neg_types_def binary_words unary_words
      del: One_nat_def)

lemma conversion_straight: "list_all straight conversion_handlers"
  by (simp add: conversion_handlers_def straight_simps convert_op_types_def compare_op_types_def float_compare_def
      double_compare_def binary_words unary_words del: One_nat_def)

text \<open>\<open>athrow\<close> always leaves the frame, and \<open>init_static_array\<close> has a call without words.\<close>

lemma stack_straight:
  "list_all straight (filter (\<lambda>(code, h). code \<noteq> op_athrow \<and> code \<noteq> op_init_static_array) stack_handlers)"
  by (simp add: stack_handlers_def straight_simps stack_handler_words del: One_nat_def)

text \<open>The handler of a bytecode against each of the visitor's calls for it.  The number of
  entries of a \<open>tableswitch\<close> has to be a \<open>jint\<close>.\<close>

definition switch_range_ok :: "closure_call \<Rightarrow> bool" where
  "switch_range_ok c = (case c of Table_switch _ _ low high \<Rightarrow> high - low \<le> jint_max | _ \<Rightarrow> True)"

definition follows :: "nat \<times> handler \<Rightarrow> bool" where
  "follows = (\<lambda>(code, h). \<forall>e s cp.
     0 \<le> jpc s \<longrightarrow> jpc s \<le> 65535 \<longrightarrow> bytecode_at (ie_code e) (jpc s) = code \<longrightarrow>
     list_all (\<lambda>c. switch_range_ok c \<longrightarrow> obeys (ie_code e) c s (h e s))
       (concat (map (expand_call (ie_code e) (jpc s)) (decode_bytecode (ie_code e) cp (jpc s) code))))"

lemma straight_follows:
  assumes "straight ch"
  shows "follows ch"
proof -
  obtain code h where ch: "ch = (code, h)" by (cases ch)
  have "obeys (ie_code e) c s (h e s)"
    if "bytecode_at (ie_code e) (jpc s) = code"
      "c \<in> set (concat (map (expand_call (ie_code e) (jpc s)) (decode_bytecode (ie_code e) cp (jpc s) code)))"
    for e s cp c
  proof (rule obeys_words)
    have n: "length_for (ie_code e) (jpc s) = length_for_code code"
      using assms that(1) by (simp add: ch straight_def length_for_def Let_def)
    have "\<not> ends_control_flow c \<and> (case call_words c of None \<Rightarrow> True
        | Some (t, p, l) \<Rightarrow> words h e s t p l (length_for_code code))"
      using assms that(2) unfolding ch straight_def list_all_iff by blast
    then show "\<not> ends_control_flow c" "case call_words c of None \<Rightarrow> True
        | Some (t, p, l) \<Rightarrow> words h e s t p l (length_for (ie_code e) (jpc s))"
      unfolding n by blast+
  qed
  then show ?thesis unfolding follows_def ch list_all_iff prod.case by blast
qed

lemma branch_follows: "list_all follows branch_handlers"
  by (simp add: branch_handlers_def follows_def decode_simps length_for_def length_for_code_code
      branch_obeys branch_obeys [unfolded branch_destination_def] goto_w_obeys table_switch_obeys
      lookup_switch_obeys switch_range_ok_def)

lemma athrow_follows: "follows (op_athrow, bc_athrow)"
  by (auto simp: follows_def decode_simps obeys_def bc_athrow_def frame_access length_at_least NULL_CHECK_def)

lemma init_static_array_follows: "follows (op_init_static_array, bc_init_static_array)"
  by (simp add: follows_def decode_simps obeys_def)

text \<open>A \<open>wide\<close> bytecode: the handler of the next one, a byte further on.\<close>

definition wide_straight :: "nat \<times> handler \<Rightarrow> bool" where
  "wide_straight = (\<lambda>(code, h). \<forall>e s. bytecode_at (ie_code e) (jpc s + 1) = code \<longrightarrow>
     \<not> ends_control_flow (decode_wide (ie_code e) (jpc s)) \<and>
     (case call_words (decode_wide (ie_code e) (jpc s)) of None \<Rightarrow> True
      | Some (t, p, l) \<Rightarrow> words (\<lambda>e s. h e (ADVANCE 1 s)) e s t p l (wide_length_for_code code)))"

lemma words_after_wide:
  "words h e (ADVANCE 1 s) t p l n \<Longrightarrow> n' = n + 1 \<Longrightarrow> words (\<lambda>e s. h e (ADVANCE 1 s)) e s t p l n'"
  by (auto simp: words_def ADVANCE_def elim!: in_frame_mono)

lemma wide_shapes:
  assumes "access_words f t p k"
  shows "words (\<lambda>e s. bc_local_wide f e (ADVANCE 1 s)) e s t p (nat (get_java_ushort (ie_code e) (jpc s + 2)) + k) 4"
  by (rule words_after_wide [where n = 3])
    (use local_shapes(2) [OF assms, of e "ADVANCE 1 s"] in \<open>simp_all add: ADVANCE_def algebra_simps\<close>)

lemma iinc_wide_shape:
  "words (\<lambda>e s. bc_iinc_wide e (ADVANCE 1 s)) e s 0 0 (nat (get_java_ushort (ie_code e) (jpc s + 2)) + 1) 6"
  by (rule words_after_wide [where n = 5])
    (use iinc_words(2) [of e "ADVANCE 1 s"] in \<open>simp_all add: ADVANCE_def algebra_simps\<close>)

lemma wide_handlers_straight: "list_all wide_straight wide_handlers"
  by (simp add: wide_handlers_def wide_straight_def decode_wide_def local_op_types_def ends_control_flow_def
      wide_length_for_code_code wide_shapes local_access iinc_wide_shape Let_def
      del: One_nat_def add_2_eq_Suc add_2_eq_Suc')

lemma wide_follows: "follows (op_wide, bc_wide)"
proof -
  have "obeys (ie_code e) (decode_wide (ie_code e) (jpc s)) s (bc_wide e s)"
    if at: "bytecode_at (ie_code e) (jpc s) = op_wide" for e s
  proof -
    let ?code = "bytecode_at (ie_code e) (jpc s + 1)"
    have n: "length_for (ie_code e) (jpc s) = wide_length_for_code ?code"
      by (simp add: length_for_def at length_for_code_code wide_length_for_def)
    show ?thesis
    proof (cases "map_of wide_handlers ?code")
      case None
      then have "call_words (decode_wide (ie_code e) (jpc s)) = None"
        by (auto simp: decode_wide_def wide_handlers_def Let_def split: if_splits)
      then show ?thesis by (simp add: obeys_def)
    next
      case (Some h)
      then have "wide_straight (?code, h)"
        using wide_handlers_straight by (auto simp: list_all_iff dest: map_of_SomeD)
      then have w: "\<not> ends_control_flow (decode_wide (ie_code e) (jpc s))"
        "case call_words (decode_wide (ie_code e) (jpc s)) of None \<Rightarrow> True
         | Some (t, p, l) \<Rightarrow> words (\<lambda>e s. h e (ADVANCE 1 s)) e s t p l (length_for (ie_code e) (jpc s))"
        unfolding wide_straight_def n by blast+
      have "bc_wide e s = h e (ADVANCE 1 s)" using Some by (simp add: bc_wide_def ADVANCE_def Let_def)
      with obeys_words [OF w(2,1)] show ?thesis by simp
    qed
  qed
  moreover have "decode_bytecode m cp bci op_wide = [decode_wide m bci]" for m cp bci
    by (simp add: decode_simps)
  moreover have "expand_call m bci (decode_wide m bci) = [decode_wide m bci]" for m bci
    by (simp add: expand_call_def decode_wide_def Let_def)
  ultimately show ?thesis by (simp add: follows_def)
qed

lemma group_follows: "list_all straight xs \<Longrightarrow> list_all follows xs"
  by (auto simp: list_all_iff intro: straight_follows)

lemma stack_follows: "list_all follows stack_handlers"
proof -
  let ?rest = "filter (\<lambda>(code, h). code \<noteq> op_athrow \<and> code \<noteq> op_init_static_array) stack_handlers"
  have s: "set stack_handlers =
      set ?rest \<union> {(op_athrow, bc_athrow), (op_init_static_array, bc_init_static_array)}"
    by (simp add: stack_handlers_def insert_commute)
  have "\<forall>ch \<in> set ?rest. follows ch" using group_follows [OF stack_straight] unfolding list_all_iff .
  then show ?thesis
    unfolding list_all_iff by (subst s) (use athrow_follows init_static_array_follows in blast)
qed

lemma frame_handlers_follow: "list_all follows (java_handlers @ [(op_wide, bc_wide)])"
  unfolding java_handlers_def list_all_append
  by (simp only: list.pred_inject simp_thms wide_follows stack_follows branch_follows
      group_follows [OF constant_straight] group_follows [OF load_straight] group_follows [OF store_straight]
      group_follows [OF array_straight] group_follows [OF arithmetic_straight] group_follows [OF bit_straight]
      group_follows [OF conversion_straight])

text \<open>Each of these bytecodes makes one call, and the call's words are known;
  \<open>init_static_array\<close>, which the virtual machine makes itself, is left out.\<close>

definition frame_bytecodes :: "nat set" where
  "frame_bytecodes = fst ` set (java_handlers @ [(op_wide, bc_wide)]) - {op_init_static_array}"

definition one_call :: "nat \<times> handler \<Rightarrow> bool" where
  "one_call = (\<lambda>(code, h). code \<noteq> op_init_static_array \<longrightarrow> (\<forall>m cp bci.
     case concat (map (expand_call m bci) (decode_bytecode m cp bci code)) of
       [c] \<Rightarrow> call_words c \<noteq> None | _ \<Rightarrow> False))"

lemmas one_call_simps = one_call_def decode_simps array_op_types_def binary_op_types_def neg_types_def
  convert_op_types_def compare_op_types_def

lemma frame_handlers_one_call: "list_all one_call java_handlers"
  unfolding java_handlers_def list_all_append
  by (intro conjI) (simp_all add: one_call_simps constant_handlers_def load_handlers_def array_handlers_def
      store_handlers_def stack_handlers_def arithmetic_handlers_def bit_handlers_def conversion_handlers_def
      branch_handlers_def)

lemma frame_bytecode_call:
  assumes "bytecode_at m bci \<in> frame_bytecodes"
  obtains c where "iterate_calls m cp bci = [c]" "call_words c \<noteq> None \<or> c = Illegal_code"
proof (cases "bytecode_at m bci = op_wide")
  case True
  have "decode_bytecode m cp bci op_wide = [decode_wide m bci]" by (simp add: decode_simps)
  moreover have "expand_call m bci (decode_wide m bci) = [decode_wide m bci]"
    by (simp add: expand_call_def decode_wide_def Let_def)
  ultimately have "iterate_calls m cp bci = [decode_wide m bci]" by (simp add: iterate_calls_def True)
  moreover have "call_words (decode_wide m bci) \<noteq> None \<or> decode_wide m bci = Illegal_code"
    by (simp add: decode_wide_def Let_def)
  ultimately show thesis by (rule that)
next
  case False
  with assms obtain h where "(bytecode_at m bci, h) \<in> set java_handlers" and i: "bytecode_at m bci \<noteq> op_init_static_array"
    by (auto simp: frame_bytecodes_def)
  then have "one_call (bytecode_at m bci, h)" using frame_handlers_one_call by (auto simp: list_all_iff)
  then have "case iterate_calls m cp bci of [c] \<Rightarrow> call_words c \<noteq> None | _ \<Rightarrow> False"
    using i by (simp add: one_call_def iterate_calls_def)
  then show thesis using that by (auto split: list.splits)
qed

lemma interpret_step_handler:
  assumes "bytecode_at (ie_code e) (jpc s) \<in> frame_bytecodes"
  obtains h where "interpret_step e s = Some (h e s)" "follows (bytecode_at (ie_code e) (jpc s), h)"
proof -
  let ?code = "bytecode_at (ie_code e) (jpc s)" and ?hs = "java_handlers @ [(op_wide, bc_wide)]"
  have "?code \<in> fst ` set ?hs" using assms unfolding frame_bytecodes_def by blast
  then obtain h where h: "map_of ?hs ?code = Some h"
    by (metis map_of_eq_None_iff not_None_eq)
  then have "map_of frame_handlers ?code = Some h"
    by (auto simp: frame_handlers_def map_add_def split: option.splits if_splits)
  moreover have "follows (?code, h)"
    using map_of_SomeD [OF h] frame_handlers_follow unfolding list_all_iff by blast
  ultimately show thesis using that by (simp add: interpret_step_def)
qed

text \<open>A step of the interpreter against the step of the verifier on the same bytecode.\<close>

lemma step_follows_verifier:
  assumes "bytecode_at (ie_code e) (jpc s) \<in> frame_bytecodes" "0 \<le> jpc s" "jpc s \<le> 65535"
    "iterate_calls (ie_code e) cp (jpc s) = [c]" "switch_range_ok c"
    "frame_call env cp (jpc s) c f = Inr f'"
    "length (jsp s) = vstackpointer f" "length (jlocals s) = max_locals f"
  shows "\<exists>r. interpret_step e s = Some r \<and>
    in_frame (\<lambda>s'. length (jsp s') = vstackpointer f' \<and> length (jlocals s') = max_locals f' \<and>
      (jpc s' \<in> branch_targets (ie_code e) (jpc s) c \<or>
       \<not> ends_control_flow c \<and> jpc s' = next_bci (ie_code e) (jpc s))) r"
proof -
  obtain h where h: "interpret_step e s = Some (h e s)" "follows (bytecode_at (ie_code e) (jpc s), h)"
    by (rule interpret_step_handler [OF assms(1)])
  obtain d where "iterate_calls (ie_code e) cp (jpc s) = [d]" "call_words d \<noteq> None \<or> d = Illegal_code"
    by (rule frame_bytecode_call [OF assms(1)])
  then obtain t p l where w: "call_words c = Some (t, p, l)"
    using assms(4,6) by (auto simp: frame_call_def)
  have "obeys (ie_code e) c s (h e s)"
  proof -
    have "list_all (\<lambda>c. switch_range_ok c \<longrightarrow> obeys (ie_code e) c s (h e s)) (iterate_calls (ie_code e) cp (jpc s))"
      using h(2) assms(2,3) unfolding follows_def iterate_calls_def by blast
    with assms(4,5) show ?thesis by simp
  qed
  moreover from frame_call_depth [OF assms(6) w]
  have "t \<le> length (jsp s)" "l \<le> length (jlocals s)" "vstackpointer f' + t = vstackpointer f + p"
    "max_locals f' = max_locals f"
    using assms(7,8) by (auto simp: depth_step_def)
  ultimately show ?thesis
    using w assms(7,8) h(1) unfolding obeys_def by (fastforce elim!: in_frame_mono)
qed

end
