(* ===== verification/Interpreter_Safety.thy ===== *)
theory Interpreter_Safety
  imports Interpreter_Frame Verifier_Soundness
begin

text \<open>
  The interpreter on verified code: in a run inside one frame, the program counter is at an
  instruction, and the depth of the expression stack is the one that the verifier has
  computed for it, whichever way the run has come there.
\<close>

section \<open>The depth of the verifier's stack\<close>

definition map_depth :: "verify_env \<Rightarrow> int \<Rightarrow> nat" where
  "map_depth env t = map_nstack (the (stackmap_at (m_stackmaps (ve_method env)) t))"

lemma stackmap_at_wf:
  assumes "env_ok env" "stackmap_at (m_stackmaps (ve_method env)) t = Some sm"
  shows "wf_stackmap (m_max_stack (ve_method env)) (m_max_locals (ve_method env))
    (m_code_size (ve_method env)) sm"
  using assms stackmap_at_SomeD [OF assms(2)] by (simp add: env_ok_def list_all_iff)

lemma branch_target_depth:
  assumes "check_branch_target env t f = Inr f'" "env_ok env" "frame_of (ve_method env) f" "frame_sizes f"
    "jint_min \<le> t" "t \<le> jint_max"
  shows "vstackpointer f = map_depth env t"
proof -
  from assms check_branch_target_result [OF assms(2-6)] obtain sm where
    sm: "stackmap_at (m_stackmaps (ve_method env)) t = Some sm" "conforms (ve_vm env) f sm" by blast
  have "length (stack_words f) = length (map_stack sm)"
    using sm(2) by (auto simp: conforms_def dest: list_all2_lengthD)
  then show ?thesis
    using wf_map_words(2) [OF stackmap_at_wf [OF assms(2) sm(1)]] stack_words_length [OF assms(4)]
    by (simp add: map_depth_def sm(1))
qed

lemma current_target_depth:
  assumes "check_current_target env bci nocf f = Inr f'" "env_ok env" "frame_of (ve_method env) f"
    "frame_sizes f" "jint_min \<le> bci" "bci \<le> jint_max"
  shows "has_map env bci \<Longrightarrow> vstackpointer f' = map_depth env bci"
    "\<not> nocf \<Longrightarrow> vstackpointer f' = vstackpointer f"
proof -
  note r = check_stackmap_match_result [OF assms(2-6)]
  have wf: "wf_stackmap (m_max_stack (ve_method env)) (max_locals f) (m_code_size (ve_method env)) sm"
    if "stackmap_at (m_stackmaps (ve_method env)) bci = Some sm" for sm
    using stackmap_at_wf [OF assms(2) that] assms(3) by (simp add: frame_of_def)
  show "has_map env bci \<Longrightarrow> vstackpointer f' = map_depth env bci"
    using assms(1) by (auto simp: check_current_target_def r has_map_def map_depth_def merged_def Let_def
        split: if_splits)
  show "\<not> nocf \<Longrightarrow> vstackpointer f' = vstackpointer f"
    using assms(1) conforms_iff [OF wf assms(4)]
    by (auto simp: check_current_target_def r merged_def Let_def split: if_splits option.splits)
qed

lemma exception_handlers_depth:
  assumes "check_exception_handlers_for_bci env cp bci f = Inr f'" "frame_ok f"
  shows "vstackpointer f' = vstackpointer f"
proof -
  have "vstackpointer f' = vstackpointer f \<and> frame_ok f'"
    using assms(1) unfolding check_exception_handlers_for_bci_def
    by (rule jvm_fold_inv [where P = "\<lambda>g. vstackpointer g = vstackpointer f \<and> frame_ok g"])
      (use assms(2) in \<open>auto dest!: check_exception_handler_frame [OF _ frame_okD(1)]
        simp: frame_ok_def frame_sizes_def stack_words_def locals_ok_def\<close>)
  then show ?thesis by simp
qed

lemma advance_stackmap_frame:
  "advance_stackmap bci s = Inr t \<Longrightarrow> vs_frame t = vs_frame s \<and> vs_no_control_flow t = vs_no_control_flow s"
  by (auto simp: advance_stackmap_def Let_def split: if_splits)

lemma prolog_depth:
  assumes "bytecode_prolog env bci s = Inr t" "env_ok env" "pass_ok env cp s" "jint_min \<le> bci" "bci \<le> jint_max"
  shows "has_map env bci \<Longrightarrow> vstackpointer (vs_frame t) = map_depth env bci"
    "\<not> vs_no_control_flow s \<Longrightarrow> vstackpointer (vs_frame t) = vstackpointer (vs_frame s)"
proof -
  from assms(1) obtain u f g where u: "advance_stackmap bci s = Inr u"
    "check_current_target env bci (vs_no_control_flow u) (vs_frame u) = Inr f"
    "(if vs_min_exception_start_bci u \<le> bci \<and> bci < vs_max_exception_end_bci u
      then check_exception_handlers_for_bci env (vs_cp u) bci f else Inr f) = Inr g"
    "t = u\<lparr>vs_frame := g, vs_no_control_flow := False\<rparr>"
    by (rule bytecode_prologE)
  note a = advance_stackmap_frame [OF u(1)]
  have s: "frame_of (ve_method env) (vs_frame s)" "frame_ok (vs_frame s)" "frame_sizes (vs_frame s)"
    using assms(3) by (auto simp: pass_ok_def frame_ok_def)
  have c: "check_current_target env bci (vs_no_control_flow s) (vs_frame s) = Inr f" using u(2) a by simp
  have "frame_ok f" using check_current_target_ok [OF assms(2) c s(1,2) assms(4,5)] by simp
  then have "vstackpointer g = vstackpointer f"
    using u(3) by (auto dest: exception_handlers_depth split: if_splits)
  moreover note current_target_depth [OF c assms(2) s(1,3) assms(4,5)]
  ultimately show "has_map env bci \<Longrightarrow> vstackpointer (vs_frame t) = map_depth env bci"
    "\<not> vs_no_control_flow s \<Longrightarrow> vstackpointer (vs_frame t) = vstackpointer (vs_frame s)"
    by (simp_all add: u(4))
qed

text \<open>The pass comes to each instruction once.\<close>

lemma pass_at_unique:
  assumes "walkable (m_code (ve_method env)) len" "pass_at env len s0 bci s" "pass_at env len s0 bci t"
  shows "s = t"
  using assms(2,3)
proof (induction arbitrary: t rule: pass_at.induct)
  case pass_start
  then show ?case
  proof (cases rule: pass_at.cases)
    case (pass_step b u)
    from walkableD [OF assms(1) pass_instruction [OF pass_step(2,3)]] pass_step(1) show ?thesis by simp
  qed simp
next
  case (pass_step bci s s')
  note b = pass_instruction [OF pass_step.hyps(1,2)]
  note IH = pass_step.IH and ib = pass_step.hyps(3)
  from pass_step.prems show ?case
  proof (cases rule: pass_at.cases)
    case pass_start
    with walkableD [OF assms(1) b] show ?thesis by simp
  next
    case (pass_step b' u)
    note b' = pass_instruction [OF pass_step(2,3)]
    have "\<not> bci < b'" "\<not> b' < bci"
      using no_instruction_inside [OF assms(1) b b'] no_instruction_inside [OF assms(1) b' b]
        walkableD(5) [OF assms(1) b] walkableD(5) [OF assms(1) b'] pass_step(1) by auto
    then have "b' = bci" by simp
    with IH pass_step(2) have "s = u" by blast
    with ib pass_step(4) \<open>b' = bci\<close> show ?thesis by simp
  qed
qed

section \<open>Runs in one frame\<close>

text \<open>A run of the interpreter on the bytecodes of the dispatch table, as long as it stays in
  the frame.\<close>

inductive runs :: "interp_env \<Rightarrow> interp \<Rightarrow> interp \<Rightarrow> bool" for e s0 where
  runs_start: "runs e s0 s0"
| runs_step: "runs e s0 s \<Longrightarrow> bytecode_at (ie_code e) (jpc s) \<in> frame_bytecodes \<Longrightarrow>
    interpret_step e s = Some (Inr s') \<Longrightarrow> runs e s0 s'"

text \<open>The tables of the switches have a size that is a \<open>jint\<close>; the bytecode checker sees to
  it when the class is loaded.\<close>

definition switches_ok :: "jvm_method \<Rightarrow> bool" where
  "switches_ok m = (\<forall>bci cp. instruction_at (m_code m) (m_code_size m) bci \<longrightarrow>
     list_all switch_range_ok (iterate_calls (m_code m) cp bci))"

text \<open>The state of the interpreter in front of an instruction is the verifier's there.\<close>

definition visited_in ::
  "jvm_method \<Rightarrow> constant_pool \<Rightarrow> verify_env \<Rightarrow> vstate \<Rightarrow> interp \<Rightarrow> vstate \<Rightarrow> vstate \<Rightarrow> bool" where
  "visited_in m cp' env s0 s t s2 =
     (instruction_at (m_code m) (m_code_size m) (jpc s) \<and> pass_ok env cp' t \<and>
      (\<exists>s1. pass_at env (m_code_size m) s0 (jpc s) s1 \<and> bytecode_prolog env (jpc s) s1 = Inr t \<and>
         iterate_bytecode env (jpc s) s1 = Inr s2) \<and>
      jvm_fold (handle_call env (jpc s)) (iterate_calls (m_code m) cp' (jpc s)) t = Inr s2 \<and>
      length (jsp s) = vstackpointer (vs_frame t) \<and> length (jlocals s) = m_max_locals m)"

lemma visited_inI:
  assumes "verified_pass vm g cp m cp' env s0 z" "instruction_at (m_code m) (m_code_size m) (jpc s)"
    "length (jlocals s) = m_max_locals m"
    "\<And>s1 t. pass_at env (m_code_size m) s0 (jpc s) s1 \<Longrightarrow> bytecode_prolog env (jpc s) s1 = Inr t \<Longrightarrow>
       pass_ok env cp' s1 \<Longrightarrow> vstackpointer (vs_frame t) = length (jsp s)"
  obtains t s2 where "visited_in m cp' env s0 s t s2"
proof -
  from verified_step [OF assms(1,2)] obtain s1 t s2 where
    t: "pass_at env (m_code_size m) s0 (jpc s) s1" "bytecode_prolog env (jpc s) s1 = Inr t" "pass_ok env cp' t"
    "jvm_fold (handle_call env (jpc s)) (iterate_calls (m_code m) cp' (jpc s)) t = Inr s2"
    "iterate_bytecode env (jpc s) s1 = Inr s2" .
  then have "visited_in m cp' env s0 s t s2"
    using assms(2,3) assms(4) [OF t(1,2) verified_passD(12) [OF assms(1) t(1)]] unfolding visited_in_def by auto
  with that show thesis .
qed

lemma visited_branch:
  assumes v: "verified_pass vm g cp m cp' env s0 z" and i: "instruction_at (m_code m) (m_code_size m) bci"
    and c: "c \<in> set (iterate_calls (m_code m) cp' bci)" "frame_call env cp' bci c f = Inr f'"
    and f': "frame_ok f'" "frame_of m f'"
    and s: "jpc s \<in> branch_targets (m_code m) bci c" "length (jsp s) = vstackpointer f'"
      "length (jlocals s) = max_locals f'"
  obtains t s2 where "visited_in m cp' env s0 s t s2"
proof -
  note vd = verified_passD [OF v]
  have map: "has_map env (jpc s)" using verified_targets [OF v i c(1)] s(1) by simp
  have fit: "jint_min \<le> jpc s" "jpc s \<le> jint_max"
    using iterate_calls_fit [OF _ _ c(1)] walkableD [OF vd(7) i] vd(11) s(1) by (auto simp: operands_fit_def)
  have d: "vstackpointer f' = map_depth env (jpc s)"
    using branch_target_depth [OF frame_call_checks(1) [OF c(2)] vd(8)] s(1) f' fit
    by (simp add: vd(1) frame_ok_def)
  show thesis
  proof (rule visited_inI [OF v verified_stackmap_at [OF v map]])
    show "length (jlocals s) = m_max_locals m" using s(3) f'(2) by (simp add: frame_of_def)
    fix u1 u assume u: "bytecode_prolog env (jpc s) u1 = Inr u" "pass_ok env cp' u1"
    from prolog_depth(1) [OF u(1) vd(8) u(2) fit map] d s(2)
    show "vstackpointer (vs_frame u) = length (jsp s)" by simp
  qed (rule that)
qed

lemma visited_next:
  assumes v: "verified_pass vm g cp m cp' env s0 z" and i: "instruction_at (m_code m) (m_code_size m) bci"
    and "next_bci (m_code m) bci \<noteq> m_code_size m"
    and p: "pass_at env (m_code_size m) s0 bci s1" "iterate_bytecode env bci s1 = Inr s2" "\<not> vs_no_control_flow s2"
    and f': "frame_of m (vs_frame s2)"
    and s: "jpc s = next_bci (m_code m) bci" "length (jsp s) = vstackpointer (vs_frame s2)"
      "length (jlocals s) = max_locals (vs_frame s2)"
  obtains t s3 where "visited_in m cp' env s0 s t s3"
proof -
  note vd = verified_passD [OF v]
  note w = walkableD [OF vd(7) i]
  have i': "instruction_at (m_code m) (m_code_size m) (jpc s)"
    using w i assms(3) s(1) by (auto intro: instruction_at.next_one)
  note w' = walkableD [OF vd(7) i']
  have p2: "pass_at env (m_code_size m) s0 (jpc s) s2"
    using pass_step [OF p(1) w(2) p(2)] s(1) by (simp add: vd(1))
  show thesis
  proof (rule visited_inI [OF v i'])
    show "length (jlocals s) = m_max_locals m" using s(3) f' by (simp add: frame_of_def)
    fix u1 u assume u: "pass_at env (m_code_size m) s0 (jpc s) u1" "bytecode_prolog env (jpc s) u1 = Inr u"
      "pass_ok env cp' u1"
    have "u1 = s2" using pass_at_unique [OF _ u(1) p2] vd(7) by (simp add: vd(1))
    with prolog_depth(2) [OF u(2) vd(8) u(3)] p(3) s(2) w' vd(11)
    show "vstackpointer (vs_frame u) = length (jsp s)" by simp
  qed (rule that)
qed

lemma run_step:
  assumes v: "verified_pass vm g cp m cp' env s0 z" and "switches_ok m" "ie_code e = m_code m"
    and s: "visited_in m cp' env s0 s t s2" and code: "bytecode_at (m_code m) (jpc s) \<in> frame_bytecodes"
  shows "\<exists>r. interpret_step e s = Some r \<and> in_frame (\<lambda>s'. \<exists>t' s2'. visited_in m cp' env s0 s' t' s2') r"
proof -
  note vd = verified_passD [OF v]
  note S = s [unfolded visited_in_def]
  have i: "instruction_at (m_code m) (m_code_size m) (jpc s)" using S by blast
  note w = walkableD [OF vd(7) i]
  obtain c where c: "iterate_calls (m_code m) cp' (jpc s) = [c]"
    by (rule frame_bytecode_call [OF code])
  have t: "pass_ok env cp' t" "vs_cp t = cp'" "frame_of m (vs_frame t)" "frame_ok (vs_frame t)"
    using S by (auto simp: pass_ok_def vd(1))
  from S obtain s1 where s1: "pass_at env (m_code_size m) s0 (jpc s) s1"
    "bytecode_prolog env (jpc s) s1 = Inr t" "iterate_bytecode env (jpc s) s1 = Inr s2" by blast
  have h: "handle_call env (jpc s) c t = Inr s2" using S by (auto simp: c jvm_check_Inr_iff)
  then obtain f' where f': "frame_call env cp' (jpc s) c (vs_frame t) = Inr f'"
    "s2 = t\<lparr>vs_frame := f', vs_no_control_flow := (vs_no_control_flow t \<or> ends_control_flow c)\<rparr>"
    by (auto simp: handle_call_def jvm_check_Inr_iff t(2))
  have fit: "operands_fit (m_code m) (jpc s) c"
    using iterate_calls_fit [of "jpc s" c "m_code m" cp'] w vd(11) c by simp
  have k: "keeps (vs_frame t) f'"
    using handle_call_keeps [OF h] fit vd(9) t(2) f'(2) by (simp add: vd(2) operands_fit_def)
  then have f'ok: "frame_ok f'" "frame_of m f'"
    using t(3,4) frame_of_same by (auto simp: keeps_def)
  have "list_all switch_range_ok (iterate_calls (m_code m) cp' (jpc s))"
    using assms(2) i unfolding switches_ok_def by blast
  then have "switch_range_ok c" by (simp add: c)
  with code w vd(11) c f'(1) S t(3) obtain r where r: "interpret_step e s = Some r"
    "in_frame (\<lambda>s'. length (jsp s') = vstackpointer f' \<and> length (jlocals s') = max_locals f' \<and>
      (jpc s' \<in> branch_targets (m_code m) (jpc s) c \<or>
       \<not> ends_control_flow c \<and> jpc s' = next_bci (m_code m) (jpc s))) r"
    using step_follows_verifier [of e s cp' c env "vs_frame t" f'] assms(3)
    by (auto simp: frame_of_def)
  have "\<exists>t' s2'. visited_in m cp' env s0 s' t' s2'"
    if s': "length (jsp s') = vstackpointer f'" "length (jlocals s') = max_locals f'"
      "jpc s' \<in> branch_targets (m_code m) (jpc s) c \<or>
       \<not> ends_control_flow c \<and> jpc s' = next_bci (m_code m) (jpc s)" for s'
    using s'(3)
  proof
    assume "jpc s' \<in> branch_targets (m_code m) (jpc s) c"
    with v i _ f'(1) f'ok show ?thesis by (rule visited_branch) (use c s'(1,2) in auto)
  next
    assume n: "\<not> ends_control_flow c \<and> jpc s' = next_bci (m_code m) (jpc s)"
    have "next_bci (m_code m) (jpc s) \<noteq> m_code_size m" using verified_ends [OF v i] n c by auto
    moreover have "\<not> vs_no_control_flow s2" using n s1(2) by (auto simp: f'(2) elim: bytecode_prologE)
    ultimately show ?thesis
      by (rule visited_next [OF v i _ s1(1,3)]) (use n s'(1,2) f'ok f'(2) in auto)
  qed
  with r show ?thesis by (auto elim!: in_frame_mono)
qed

text \<open>The invariant of the runs.\<close>

lemma run_visits:
  assumes v: "verified_pass vm g cp m cp' env s0 z" and "switches_ok m" "ie_code e = m_code m"
    and "visited_in m cp' env s0 s t s2" "runs e s s'"
  shows "\<exists>t' s2'. visited_in m cp' env s0 s' t' s2'"
  using assms(5)
proof (induction rule: runs.induct)
  case runs_start
  with assms(4) show ?case by blast
next
  case (runs_step s1 s2)
  then obtain t1 u1 where "visited_in m cp' env s0 s1 t1 u1" by blast
  from run_step [OF assms(1-3) this] runs_step.hyps(2,3) assms(3) show ?case by simp
qed

lemma entry_visited:
  assumes "verified_pass vm g cp m cp' env s0 z" "method_ok vm g cp m"
    "jpc s = 0" "jsp s = []" "length (jlocals s) = m_max_locals m"
  obtains t s2 where "visited_in m cp' env s0 s t s2"
proof -
  note vd = verified_passD [OF assms(1)]
  from vd(3) obtain f where f: "initialize_locals vm m (frame_initialize (gc_frame g) m) = Inr f"
    and s0: "vs_frame s0 = f" "\<not> vs_no_control_flow s0"
    by (elim verify_checks_result) auto
  have z: "vstackpointer f = 0" using initialize_locals_ok [OF f] assms(2) by (simp add: method_ok_def)
  have i: "instruction_at (m_code m) (m_code_size m) (jpc s)"
    using verified_nonempty [OF assms(1)] assms(3) by (auto intro: instruction_at.first)
  show thesis
  proof (rule visited_inI [OF assms(1) i assms(5)])
    fix s1 t assume t: "pass_at env (m_code_size m) s0 (jpc s) s1" "bytecode_prolog env (jpc s) s1 = Inr t"
      "pass_ok env cp' s1"
    have "s1 = s0" using pass_at_unique [OF _ t(1)] pass_start vd(7) assms(3) by (simp add: vd(1))
    with prolog_depth(2) [OF t(2) vd(8) t(3)] s0 z assms(3,4)
    show "vstackpointer (vs_frame t) = length (jsp s)" by simp
  qed (rule that)
qed

end
