(* ===== verification/Interpreter_Arithmetic.thy ===== *)
theory Interpreter_Arithmetic
  imports Interpreter
begin

text \<open>
  The arithmetic of the interpreter against the arithmetic of Java: division and
  remainder, shifts, comparison, longs in two words, switches and array elements.
\<close>

section \<open>Division\<close>

lemma sdiv_fits:
  fixes a b :: int
  assumes "- (2 ^ n) \<le> a" "a < 2 ^ n" "\<not> (a = - (2 ^ n) \<and> b = - 1)"
  shows "- (2 ^ n) \<le> a sdiv b \<and> a sdiv b < 2 ^ n"
proof -
  have r: "- \<bar>a\<bar> \<le> a sdiv b" "a sdiv b \<le> \<bar>a\<bar>"
    using sdiv_int_range [of a b] by simp_all
  have "a sdiv b \<noteq> 2 ^ n"
    using int_sdiv_negated_is_minus1 [of a b] assms(3) r assms(1,2) by (cases "a = - (2 ^ n)") auto
  with r assms(1,2) show ?thesis by auto
qed

lemma smod_fits:
  fixes a b :: int
  assumes "- (2 ^ n) \<le> b" "b < 2 ^ n" "b \<noteq> 0"
  shows "- (2 ^ n) \<le> a smod b \<and> a smod b < 2 ^ n"
  using smod_int_range [OF assms(3), of a] assms(1,2) by auto

lemma sint_word_fits:
  "- (2 ^ (LENGTH('a) - 1)) \<le> i \<Longrightarrow> i < 2 ^ (LENGTH('a) - 1) \<Longrightarrow> sint (word_of_int i :: 'a::len word) = i"
  by (simp add: signed_of_int signed_take_bit_int_eq_self)

lemma jdiv_jmod:
  fixes a b :: "'a::len word"
  assumes "b \<noteq> 0" "\<not> (sint a = - (2 ^ (LENGTH('a) - 1)) \<and> b = - 1)"
  shows "sint (jdiv a b) = sint a sdiv sint b" "sint (jmod a b) = sint a smod sint b"
    "jdiv a b * b + jmod a b = a"
proof -
  have b: "sint b \<noteq> 0" using assms(1) by (metis signed_0 word_eq_iff_signed)
  have m1: "b = - 1" if "sint b = - 1"
    using arg_cong [OF that, of "word_of_int :: int \<Rightarrow> 'a word"] by simp
  show q: "sint (jdiv a b) = sint a sdiv sint b"
    unfolding jdiv_def using sdiv_fits [of "LENGTH('a) - 1" "sint a" "sint b"] assms(2) m1
      sint_ge [of a] sint_lt [of a] by (intro sint_word_fits) auto
  show r: "sint (jmod a b) = sint a smod sint b"
    unfolding jmod_def using smod_fits [of "LENGTH('a) - 1" "sint b" "sint a"] b
      sint_ge [of b] sint_lt [of b] by (intro sint_word_fits) auto
  have "jdiv a b * b + jmod a b = word_of_int (sint a sdiv sint b * sint b + sint a smod sint b)"
    by (simp add: jdiv_def jmod_def)
  also have "\<dots> = a" by (simp add: sdiv_mult_smod_eq)
  finally show "jdiv a b * b + jmod a b = a" .
qed

section \<open>Shifts\<close>

lemma shift_count:
  fixes k :: "32 word"
  shows "unat (k AND 0x1f) = unat k mod 32" "unat (k AND 0x3f) = unat k mod 64"
proof -
  have "k AND 0x1f = take_bit 5 k" "k AND 0x3f = take_bit 6 k"
    by (simp_all add: take_bit_eq_mask mask_numeral)
  then show "unat (k AND 0x1f) = unat k mod 32" "unat (k AND 0x3f) = unat k mod 64"
    by (simp_all only: unsigned_take_bit_eq) (simp_all add: take_bit_eq_mod)
qed

lemma shift_values:
  fixes a :: "'a::len word"
  shows "push_bit n a = a * 2 ^ n" "sint (signed_drop_bit n a) = sint a div 2 ^ n"
    "uint (drop_bit n a) = uint a div 2 ^ n"
  by (simp add: push_bit_eq_mult, simp add: sint_signed_drop_bit_eq drop_bit_eq_div)
    (simp add: unsigned_drop_bit_eq drop_bit_eq_div take_bit_int_eq_self flip: drop_bit_eq_div)

section \<open>Longs in two words\<close>

lemma long_words: "long_of_words (long_word_0 v) (long_word_1 v) = v"
  unfolding long_of_words_def long_word_0_def long_word_1_def
  by (rule bit_word_eqI) (auto simp: bit_simps)

lemma words_of_long:
  "long_word_0 (long_of_words w0 w1) = w0" "long_word_1 (long_of_words w0 w1) = w1"
  unfolding long_of_words_def long_word_0_def long_word_1_def
  by (rule bit_word_eqI, auto simp: bit_simps dest: bit_imp_le_length)+

lemma long_pop_push: "LONG_POP (LONG_PUSH v s) = Inr (v, s)"
  by (simp add: LONG_POP_def LONG_PUSH_def POP_def PUSH_def long_words)

section \<open>The search of a lookup switch\<close>

text \<open>The pairs of the table whose default is at \<open>a\<close>.\<close>

definition switch_pairs :: "code_mem \<Rightarrow> int \<Rightarrow> nat \<Rightarrow> (int \<times> int) list" where
  "switch_pairs m a n =
     map (\<lambda>i. (int_from_addr m (a + 8 * (int i + 1)), int_from_addr m (a + 8 * (int i + 1) + 4))) [0..<n]"

lemma switch_pairs_Suc:
  "switch_pairs m a (Suc n) =
     (int_from_addr m (a + 8), int_from_addr m (a + 8 + 4)) # switch_pairs m (a + 8) n"
  unfolding switch_pairs_def upt_conv_Cons [OF zero_less_Suc] map_Suc_upt [symmetric]
  by (simp add: algebra_simps)

lemma lookup_loop_map_of:
  "lookup_loop m key target n a =
     (case map_of (switch_pairs m a n) (sint key) of Some t \<Rightarrow> t | None \<Rightarrow> target)"
  by (induction n arbitrary: a) (simp add: switch_pairs_def, simp add: switch_pairs_Suc Let_def)

section \<open>Array elements\<close>

text \<open>What a word of an element of a type looks like when it has been stored and loaded.\<close>

definition narrow :: "basic_type \<Rightarrow> 32 word \<Rightarrow> 32 word" where
  "narrow type v =
     (case type of T_BYTE \<Rightarrow> scast (ucast v :: 8 word) | T_CHAR \<Rightarrow> ucast (ucast v :: 16 word)
      | T_SHORT \<Rightarrow> scast (ucast v :: 16 word) | _ \<Rightarrow> v)"

definition two_words :: "basic_type \<Rightarrow> bool" where
  "two_words type = (type = T_LONG \<or> type = T_DOUBLE)"

definition put_element :: "basic_type \<Rightarrow> int \<Rightarrow> 32 word list \<Rightarrow> code_mem \<Rightarrow> code_mem" where
  "put_element type addr ws m =
     (if two_words type then long_to_addr addr (long_of_words (ws ! 0) (ws ! 1)) m
      else jheap (put_word type addr (ws ! 0) \<lparr>jsp = [], jlocals = [], jpc = 0, jheap = m, jbarrier = []\<rparr>))"

definition get_element :: "basic_type \<Rightarrow> code_mem \<Rightarrow> int \<Rightarrow> 32 word list" where
  "get_element type m addr =
     jsp (push_from_addr type addr \<lparr>jsp = [], jlocals = [], jpc = 0, jheap = m, jbarrier = []\<rparr>)"

lemma push_from_addr_element:
  "push_from_addr type addr s = s\<lparr>jsp := get_element type (jheap s) addr @ jsp s\<rparr>"
  by (cases type) (simp_all add: push_from_addr_def get_element_def LONG_PUSH_def PUSH_def)

lemma put_word_element:
  "\<not> two_words type \<Longrightarrow> put_word type addr v s = s\<lparr>jheap := put_element type addr [v] (jheap s)\<rparr>"
  by (cases type) (simp_all add: put_word_def put_element_def two_words_def)

lemma get_put_native_u2_other:
  "q + 2 \<le> p \<or> p + 2 \<le> q \<Longrightarrow> get_native_u2 (put_native_u2 m p x) q = get_native_u2 m q"
  by (auto simp: get_native_u2_def put_native_u2_def)

lemma get_put_element:
  "length ws = (if two_words type then 2 else 1) \<Longrightarrow>
   get_element type (put_element type addr ws m) addr = map (narrow type) ws"
  by (cases type) (auto simp: get_element_def put_element_def two_words_def narrow_def push_from_addr_def
      put_word_def LONG_PUSH_def PUSH_def long_from_addr_def long_to_addr_def get_put_native_u4_other
      words_of_long length_Suc_conv numeral_2_eq_2)

lemma get_put_element_other:
  "q + element_size type \<le> p \<or> p + element_size type \<le> q \<Longrightarrow>
   get_element type (put_element type p ws m) q = get_element type m q"
  by (cases type) (auto simp: get_element_def put_element_def two_words_def push_from_addr_def
      put_word_def LONG_PUSH_def PUSH_def long_from_addr_def long_to_addr_def element_size_def
      get_put_native_u4_other get_put_native_u2_other)

lemma get_native_u4_below:
  "p + 4 \<le> q \<Longrightarrow> get_native_u4 (put_native_u2 m q x) p = get_native_u4 m p"
  "p + 4 \<le> q \<Longrightarrow> get_native_u4 (m(q := b)) p = get_native_u4 m p"
  by (auto simp: get_native_u4_def put_native_u2_def)

lemma put_element_length:
  "p + 4 \<le> q \<Longrightarrow> get_native_u4 (put_element type q ws m) p = get_native_u4 m p"
  by (cases type) (auto simp: put_element_def two_words_def put_word_def long_to_addr_def
      get_put_native_u4_other get_native_u4_below)

lemma element_addr_apart:
  assumes "i \<noteq> j" "0 \<le> sint i" "0 \<le> sint j"
  shows "element_addr type ref i + element_size type \<le> element_addr type ref j \<or>
    element_addr type ref j + element_size type \<le> element_addr type ref i"
proof -
  have size: "0 < element_size type" by (cases type) (simp_all add: element_size_def)
  have "sint i \<noteq> sint j" using assms(1) word_eq_iff_signed by blast
  then have "sint i + 1 \<le> sint j \<or> sint j + 1 \<le> sint i" by arith
  then have "(sint i + 1) * element_size type \<le> sint j * element_size type \<or>
    (sint j + 1) * element_size type \<le> sint i * element_size type"
    using size by (meson mult_right_mono less_imp_le)
  then show ?thesis by (auto simp: element_addr_def algebra_simps)
qed

end
