(* ===== verification/Interpreter_Results.thy ===== *)
theory Interpreter_Results
  imports Interpreter_Arithmetic
begin

text \<open>
  The properties of single handlers of the interpreter: they compute what the Java language
  asks for.
\<close>

section \<open>What the handlers compute\<close>

lemma sint_eq_iff: "a = b \<longleftrightarrow> sint a = sint b"
  by (rule word_eq_iff_signed)

text \<open>C27: \<open>idiv\<close> and \<open>irem\<close> throw \<open>ArithmeticException\<close> exactly when the divisor is
  zero.  Otherwise the quotient and the remainder make up the dividend, and they are the
  truncated ones, but for the smallest int divided by -1: the quotient wraps to the dividend
  and the remainder is zero.\<close>

theorem integer_division:
  "idiv e a 0 = Inl (Throws ArithmeticException) \<and> irem e a 0 = Inl (Throws ArithmeticException) \<and>
   (b = 0 \<or> (\<exists>q r. idiv e a b = Inr q \<and> irem e a b = Inr r \<and> q * b + r = a \<and>
     (if a = 0x80000000 \<and> b = - 1 then q = a \<and> r = 0
      else sint q = sint a sdiv sint b \<and> sint r = sint a smod sint b)))"
proof -
  have m: "sint a = - (2 ^ 31) \<longleftrightarrow> a = 0x80000000"
    by (simp add: sint_eq_iff [of a "0x80000000"])
  show ?thesis
  proof (cases "a = 0x80000000 \<and> b = - 1")
    case True
    then show ?thesis by (simp add: idiv_def irem_def jmod_def smod_int_alt_def)
  next
    case False
    with m jdiv_jmod [of b a] show ?thesis by (auto simp: idiv_def irem_def)
  qed
qed

text \<open>C28: \<open>ldiv\<close> and \<open>lrem\<close> divide the smallest long by -1 with the operators of C, which do
  not define the result, where \<open>idiv\<close> and \<open>irem\<close> test for this case; for every other pair of
  operands they throw for a zero divisor and give the truncated quotient and remainder.\<close>

theorem long_division:
  "(ldiv e a b = Inl Undefined_in_C \<longleftrightarrow> a = 0x8000000000000000 \<and> b = - 1) \<and>
   (lrem e a b = Inl Undefined_in_C \<longleftrightarrow> a = 0x8000000000000000 \<and> b = - 1) \<and>
   (ldiv e a b = Inl (Throws ArithmeticException) \<longleftrightarrow> b = 0) \<and>
   (lrem e a b = Inl (Throws ArithmeticException) \<longleftrightarrow> b = 0) \<and>
   (case (ldiv e a b, lrem e a b) of
      (Inr q, Inr r) \<Rightarrow> q * b + r = a \<and> sint q = sint a sdiv sint b \<and> sint r = sint a smod sint b
    | (Inl _, Inl _) \<Rightarrow> True | _ \<Rightarrow> False)"
proof -
  have m: "sint a = - (2 ^ 63) \<longleftrightarrow> a = 0x8000000000000000"
    by (simp add: sint_eq_iff [of a "0x8000000000000000"])
  show ?thesis using jdiv_jmod [of b a] m by (auto simp: ldiv_def lrem_def long_overflow_def)
qed

text \<open>The shifts take the count modulo the width of the value: \<open>ishl\<close> and \<open>lshl\<close> multiply
  by a power of two and wrap, \<open>ishr\<close> and \<open>lshr\<close> divide the signed value and round down,
  \<open>iushr\<close> and \<open>lushr\<close> divide the unsigned one.\<close>

theorem shift_handlers:
  "ishl a k = a * 2 ^ (unat k mod 32) \<and> lshl b k = b * 2 ^ (unat k mod 64) \<and>
   sint (ishr a k) = sint a div 2 ^ (unat k mod 32) \<and> sint (lshr b k) = sint b div 2 ^ (unat k mod 64) \<and>
   uint (iushr a k) = uint a div 2 ^ (unat k mod 32) \<and> uint (lushr b k) = uint b div 2 ^ (unat k mod 64)"
  by (simp add: ishl_def lshl_def ishr_def lshr_def iushr_def lushr_def shift_count shift_values)

text \<open>A frame with an empty stack and two locals.\<close>

definition ex_pair :: interp where
  "ex_pair = \<lparr>jsp = [], jlocals = [7, 8], jpc = 0, jheap = (\<lambda>_. 0), jbarrier = []\<rparr>"

text \<open>A long that \<open>lstore\<close> takes from the stack comes back from \<open>lload\<close> of the same
  local, with the stack below it as it was; a double comes back from \<open>dload\<close> (which
  pushes the two words in the other way) as the same two words.\<close>

theorem long_local_round_trip:
  assumes "lstore n (LONG_PUSH v s) = Inr s'"
  shows "lload n s' = Inr (LONG_PUSH v s') \<and> dload n s' = Inr (LONG_PUSH v s') \<and> jsp s' = jsp s \<and>
    (\<forall>k. k \<noteq> n \<and> k \<noteq> n + 1 \<longrightarrow> GET_LOCAL k s' = GET_LOCAL k s)"
proof -
  from assms have "s' = s\<lparr>jlocals := (jlocals s)[n := long_word_1 v, n + 1 := long_word_0 v]\<rparr>"
    "n + 1 < length (jlocals s)"
    by (auto simp: lstore_def long_pop_push SET_LOCAL_def split: if_splits)
  then show ?thesis
    by (simp add: lload_def dload_def GET_LOCAL_def long_words LONG_PUSH_def PUSH_def)
qed

theorem long_local_round_trip_witness:
  "lload 0 (ex_pair\<lparr>jlocals := [1, 2]\<rparr>) = Inr (LONG_PUSH 0x100000002 (ex_pair\<lparr>jlocals := [1, 2]\<rparr>))"
proof -
  have "lstore 0 (LONG_PUSH 0x100000002 ex_pair) = Inr (ex_pair\<lparr>jlocals := [1, 2]\<rparr>)"
    by (simp add: lstore_def long_pop_push SET_LOCAL_def ex_pair_def long_word_0_def long_word_1_def
        drop_bit_eq_div)
  from long_local_round_trip [OF this] show ?thesis by simp
qed

text \<open>C26: \<open>lookupswitch\<close> goes by the first pair of its table that has the key, as a lookup in
  the list of the pairs does, and by the default if there is none.\<close>

theorem lookupswitch_first_match:
  "bc_lookupswitch e (s\<lparr>jsp := key # st\<rparr>) =
     (let a = align_size_up (jpc s + 1) 4; n = nat (int_from_addr (ie_code e) (a + 4))
      in Inr (s\<lparr>jsp := st, jpc := jint (jpc s +
           (case map_of (switch_pairs (ie_code e) a n) (sint key) of
              Some target \<Rightarrow> target | None \<Rightarrow> int_from_addr (ie_code e) a))\<rparr>))"
  by (simp add: bc_lookupswitch_def POP_def lookup_loop_map_of Let_def split: option.split)

lemma BOUNDS_CHECK_result:
  "BOUNDS_CHECK ref idx s = Inr t \<longleftrightarrow>
     t = s \<and> ref \<noteq> 0 \<and> 0 \<le> sint idx \<and> sint idx < GET_ARRAY_LENGTH s ref"
  by (auto simp: BOUNDS_CHECK_def)

lemma GET_ARRAY_LENGTH_jsp [simp]: "GET_ARRAY_LENGTH (s\<lparr>jsp := st\<rparr>) ref = GET_ARRAY_LENGTH s ref"
  by (simp add: GET_ARRAY_LENGTH_def)

lemma array_store_result:
  assumes "array_store type e s = Inr s'" "jsp s = ws @ idx # ref # st" "length ws = (if two_words type then 2 else 1)"
  shows "ref \<noteq> 0 \<and> 0 \<le> sint idx \<and> sint idx < GET_ARRAY_LENGTH s ref \<and> jsp s' = st \<and>
    jheap s' = put_element type (element_addr type ref idx) ws (jheap s)"
proof (cases "two_words type")
  case True
  with assms(2,3) obtain w0 w1 where ws: "ws = [w0, w1]" by (auto simp: length_Suc_conv numeral_2_eq_2)
  have "LONG_POP s = Inr (long_of_words w0 w1, s\<lparr>jsp := idx # ref # st\<rparr>)"
    by (simp add: LONG_POP_def POP_def assms(2) ws)
  with assms(1) True show ?thesis
    by (auto simp: array_store_def two_words_def POP_def put_element_def ws BOUNDS_CHECK_result elim!: jvm_check_InrE)
next
  case False
  with assms(2,3) obtain w where ws: "ws = [w]" by (auto simp: length_Suc_conv)
  from assms(1,2) False show ?thesis
    by (auto simp: array_store_def POP_def ws type_check_def write_barrier_def put_word_element BOUNDS_CHECK_result
        two_words_def [symmetric] split: if_splits elim!: jvm_check_InrE)
qed

lemma array_load_stack:
  "map_sum id jsp (array_load type (s\<lparr>jsp := idx # ref # st\<rparr>)) =
     (if ref = 0 then Inl (Throws NullPointerException)
      else if sint idx < 0 \<or> sint idx \<ge> GET_ARRAY_LENGTH s ref then Inl (Throws ArrayIndexOutOfBoundsException)
      else Inr (get_element type (jheap s) (element_addr type ref idx) @ st))"
  by (simp add: array_load_def POP_def BOUNDS_CHECK_def push_from_addr_element)

text \<open>C25: An array store that succeeds found an index within the array.  A load of the same
  element gives the value back, cut to the type of the element, and a load of any other
  element gives what it gave before.\<close>

theorem array_store_then_load:
  assumes "array_store type e s = Inr s'" "jsp s = ws @ idx # ref # st" "length ws = (if two_words type then 2 else 1)"
  shows "0 \<le> sint idx \<and> sint idx < GET_ARRAY_LENGTH s ref \<and> jsp s' = st \<and>
    map_sum id jsp (array_load type (s'\<lparr>jsp := idx # ref # st\<rparr>)) = Inr (map (narrow type) ws @ st) \<and>
    (\<forall>i. i \<noteq> idx \<longrightarrow> map_sum id jsp (array_load type (s'\<lparr>jsp := i # ref # st\<rparr>)) =
       map_sum id jsp (array_load type (s\<lparr>jsp := i # ref # st\<rparr>)))"
proof -
  have S: "ref \<noteq> 0 \<and> 0 \<le> sint idx \<and> sint idx < GET_ARRAY_LENGTH s ref \<and> jsp s' = st \<and>
    jheap s' = put_element type (element_addr type ref idx) ws (jheap s)"
    by (rule array_store_result [OF assms])
  have L: "GET_ARRAY_LENGTH s' ref = GET_ARRAY_LENGTH s ref"
    unfolding GET_ARRAY_LENGTH_def using S
    by (cases type) (simp_all add: put_element_length element_addr_def array_length_offset_def
        array_base_offset_def element_size_def)
  have "get_element type (jheap s') (element_addr type ref i) = get_element type (jheap s) (element_addr type ref i)"
    if "i \<noteq> idx" "0 \<le> sint i" for i
    using get_put_element_other [OF element_addr_apart [OF that(1,2)]] S by simp
  then show ?thesis
    using S assms(3) by (auto simp: array_load_stack L get_put_element not_less)
qed

text \<open>An environment without code, and an array of three bytes.\<close>

definition ex_fp :: fplib where
  "ex_fp = \<lparr>jvm_fbin = (\<lambda>_ a _. a), jvm_dbin = (\<lambda>_ a _. a), jvm_dneg = id, jvm_fcmp = (\<lambda>_ _ _. 0),
     jvm_dcmp = (\<lambda>_ _ _. 0), jvm_i2f = id, jvm_i2d = ucast, jvm_l2f = ucast, jvm_l2d = id, jvm_f2i = id,
     jvm_f2l = ucast, jvm_f2d = ucast, jvm_d2i = ucast, jvm_d2l = id, jvm_d2f = ucast\<rparr>"

definition ex_env :: interp_env where
  "ex_env = \<lparr>ie_code = (\<lambda>_. 0), ie_cpool = (\<lambda>_. 0), ie_fp = ex_fp, ie_store_check = (\<lambda>_ _. True)\<rparr>"

definition ex_array :: interp where
  "ex_array = \<lparr>jsp = [0x1ff, 2, 16], jlocals = [], jpc = 0, jheap = (\<lambda>a. if a = 20 then 3 else 0), jbarrier = []\<rparr>"

theorem array_store_then_load_witness:
  "\<exists>s'. array_store T_BYTE ex_env ex_array = Inr s' \<and> jsp s' = [] \<and>
     map_sum id jsp (array_load T_BYTE (s'\<lparr>jsp := [2, 16]\<rparr>)) = Inr [- 1]"
proof -
  have "\<exists>s'. array_store T_BYTE ex_env ex_array = Inr s'"
    by (simp add: array_store_def POP_def ex_array_def BOUNDS_CHECK_def GET_ARRAY_LENGTH_def
        array_length_offset_def get_native_u4_def)
  then obtain s' where s': "array_store T_BYTE ex_env ex_array = Inr s'" by blast
  from array_store_then_load [OF this, of "[0x1ff]" 2 16 "[]"] s' show ?thesis
    by (simp add: ex_array_def two_words_def narrow_def)
qed

end
