(* ===== verification/Loaded_Code.thy ===== *)
theory Loaded_Code
  imports Check_Bytecodes Instruction_Starts
begin

text \<open>
  What the pass of the class loader (\<open>Method::check_bytecodes\<close>) says of the instructions that the other passes
  over the code come to, and which instructions it does not compare with the end of the code.
\<close>

section \<open>Accepted code\<close>

lemma decodes_legal:
  assumes "decodes m len 0" "instruction_at m len bci"
  shows "decodes m len bci" "legal_instruction m len bci"
proof -
  show d: "decodes m len bci"
    using assms(2)
  proof (induction rule: instruction_at.induct)
    case (next_one bci)
    have "bci < len" using next_one.hyps(1) by (cases rule: instruction_at.cases) auto
    with next_one.IH show ?case by (auto elim: decodesE)
  qed (rule assms(1))
  have "bci < len" using assms(2) by (cases rule: instruction_at.cases) auto
  with d show "legal_instruction m len bci" by (auto elim: decodesE)
qed

lemma accepted_decodes:
  assumes "check_bytecodes method = Some (Inr method')" "\<not> mc_native_or_abstract method" "mc_code_size method \<le> 65535"
  obtains s where "check_loop (nat (mc_code_size method) + 1) (mc_code_size method) (check_start (mc_code method)) = Some (Inr s)"
    "mc_code method' = ck_mem s" "mc_code_size method' = mc_code_size method" "ck_bci s \<le> mc_code_size method"
    "decodes (mc_code method') (mc_code_size method') 0"
proof -
  obtain s where s: "check_loop (nat (mc_code_size method) + 1) (mc_code_size method) (check_start (mc_code method)) = Some (Inr s)"
    and f: "finish_check method s = Inr method'"
    using assms(1,2) by (auto simp: check_bytecodes_def)
  have "mc_code method' = ck_mem s" "mc_code_size method' = mc_code_size method" "ck_bci s \<le> mc_code_size method"
    using f by (auto simp: finish_check_def Let_def split: if_splits)
  with that s check_loop_sound [OF s check_start_inv [OF assms(3)]] show thesis by (simp add: check_start_def)
qed

section \<open>The end of the code\<close>

text \<open>The instructions of the fast path move the pointer only, the others the byte code index too.\<close>

lemma check_step_bci:
  assumes "check_step codesize s = Inr s'"
  shows "if bytecode_at (ck_mem s) (ck_ptr s) < op_tableswitch then ck_bci s' = ck_bci s else ck_bci s' = ck_ptr s'"
  using assms by (auto simp: check_step_def Let_def check_advance_def check_opcode_def elim!: jvm_check_InrE split: if_splits)

lemma check_step_code:
  assumes "check_step codesize s = Inr s'" "check_inv codesize s"
  shows "bytecode_at (ck_mem s') (ck_ptr s) = bytecode_at (ck_mem s) (ck_ptr s)"
proof (cases "bytecode_at (ck_mem s) (ck_ptr s) = op_tableswitch \<or> bytecode_at (ck_mem s) (ck_ptr s) = op_lookupswitch")
  case True
  let ?code = "bytecode_at (ck_mem s) (ck_ptr s)"
  obtain m' where m': "check_switch (ck_mem s) codesize ?code (ck_ptr s) = Inr m'" "ck_mem s' = m'"
    using assms(1) True by (auto simp: check_step_def Let_def check_opcode_def check_advance_def elim!: jvm_check_InrE split: if_splits)
  from assms(2) have "0 \<le> ck_ptr s" "codesize \<le> 65535" by (simp_all add: check_inv_def)
  from check_switch_ok [OF m'(1) this True] have "m' q = ck_mem s q" if "q < align_size_up (ck_ptr s + 1) 4" for q
    using that by metis
  moreover have "ck_ptr s < align_size_up (ck_ptr s + 1) 4" using align_size_up_bounds [of "ck_ptr s + 1"] by simp
  ultimately show ?thesis by (simp add: m'(2) bytecode_at_def)
next
  case False
  then show ?thesis
    using assms(1) by (auto simp: check_step_def Let_def check_opcode_def check_advance_def elim!: jvm_check_InrE split: if_splits)
qed

text \<open>The instructions that are still ahead of the pointer: their code is that of the result.\<close>

lemma check_loop_bci:
  "check_loop fuel codesize s = Some (Inr s') \<Longrightarrow> check_inv codesize s \<Longrightarrow> ck_bci s \<le> ck_ptr s \<Longrightarrow>
     ck_bci s \<le> ck_bci s' \<and>
     (\<forall>bci. ahead (ck_mem s') codesize (ck_ptr s) bci \<longrightarrow> op_tableswitch \<le> bytecode_at (ck_mem s') bci \<longrightarrow>
        next_bci (ck_mem s') bci \<le> ck_bci s')"
proof (induction fuel codesize s rule: check_loop.induct)
  case (2 fuel codesize s)
  show ?case
  proof (cases "ck_ptr s < codesize")
    case True
    then obtain t where t: "check_step codesize s = Inr t" "check_loop fuel codesize t = Some (Inr s')"
      using 2(2) by (auto split: sum.splits)
    note ok = check_step_ok [OF t(1) 2(3)]
    note bci = check_step_bci [OF t(1)]
    have le: "ck_bci s \<le> ck_bci t" "ck_bci t \<le> ck_ptr t" using bci ok(2) 2(4) by (auto split: if_splits)
    note IH = 2(1) [OF True t ok(3) le(2)]
    have kept: "\<forall>q < ck_ptr t. ck_mem s' q = ck_mem t q" using check_loop_sound [OF t(2) ok(3)] by blast
    have over: "next_bci (ck_mem t) (ck_ptr s) = ck_ptr t" "legal_instruction (ck_mem t) codesize (ck_ptr s)"
      using ok(1) by (simp_all add: stepped_over_def)
    have n: "next_bci (ck_mem s') (ck_ptr s) = ck_ptr t"
      using legal_instruction_cong(1) [of "ck_ptr s" "ck_mem t" "ck_mem s'" codesize] kept over by simp
    have c: "bytecode_at (ck_mem s') (ck_ptr s) = bytecode_at (ck_mem s) (ck_ptr s)"
      using kept ok(2) check_step_code [OF t(1) 2(3)] by (simp add: bytecode_at_def)
    have "next_bci (ck_mem s') bci \<le> ck_bci s'"
      if "ahead (ck_mem s') codesize (ck_ptr s) bci" "op_tableswitch \<le> bytecode_at (ck_mem s') bci" for bci
      using that(1)
    proof (cases rule: ahead.cases)
      case here
      then have "\<not> bytecode_at (ck_mem s) (ck_ptr s) < op_tableswitch" using c that(2) by simp
      then have "ck_bci t = ck_ptr t" using bci by simp
      then show ?thesis using IH n here by simp
    next
      case later
      then show ?thesis using IH n that(2) by simp
    qed
    with IH le(1) show ?thesis by auto
  next
    case False
    then show ?thesis using 2(2) by (auto elim: aheadE)
  qed
qed simp

text \<open>The loop over the instructions of the fast path.\<close>

lemma check_loop_fast:
  assumes "check_loop fuel codesize s = Some r"
    "\<And>bci. ahead (ck_mem s) codesize (ck_ptr s) bci \<Longrightarrow>
       bytecode_at (ck_mem s) bci < op_tableswitch \<and> is_defined (int (bytecode_at (ck_mem s) bci))"
  shows "\<exists>p. r = Inr (s\<lparr>ck_ptr := p\<rparr>)"
  using assms
proof (induction fuel codesize s rule: check_loop.induct)
  case (2 fuel codesize s)
  show ?case
  proof (cases "ck_ptr s < codesize")
    case True
    let ?code = "bytecode_at (ck_mem s) (ck_ptr s)"
    let ?t = "s\<lparr>ck_ptr := ck_ptr s + length_for_code ?code\<rparr>"
    have fast: "?code < op_tableswitch" "is_defined (int ?code)" using 2(3) [OF ahead.here [OF True]] by auto
    then have len: "0 \<le> length_for_code ?code" "length_for_code ?code \<noteq> 0"
      using code_lengths_positive [of ?code] by auto
    then have n: "next_bci (ck_mem s) (ck_ptr s) = ck_ptr ?t" by (simp add: next_bci_def length_for_def Let_def)
    have step: "check_step codesize s = Inr ?t" using fast len by (simp add: check_step_def Let_def)
    have run: "check_loop fuel codesize ?t = Some r" using 2(2) True step by simp
    have "\<exists>p. r = Inr (?t\<lparr>ck_ptr := p\<rparr>)"
    proof (rule 2(1) [OF True step run])
      fix bci
      assume "ahead (ck_mem ?t) codesize (ck_ptr ?t) bci"
      then have "ahead (ck_mem s) codesize (ck_ptr s) bci" using ahead.later [OF True] n by simp
      then show "bytecode_at (ck_mem ?t) bci < op_tableswitch \<and> is_defined (int (bytecode_at (ck_mem ?t) bci))"
        using 2(3) by simp
    qed
    then show ?thesis by auto
  next
    case False
    then have "r = Inr (s\<lparr>ck_ptr := ck_ptr s\<rparr>)" using 2(2) by simp
    then show ?thesis by blast
  qed
qed simp

text \<open>C39: Which instructions the pass compares with the end of the code.  In accepted code a bytecode from
  \<open>tableswitch\<close> on ends inside the code.  The bytecodes before it, the fast path, move the pointer \<open>bcptr\<close> but not the
  index \<open>bci\<close> that is compared: every method that has only defined bytecodes of the fast path is accepted as it is,
  also when the end of the code cuts off its last instruction.\<close>

theorem check_bytecodes_end_of_code:
  assumes "\<not> mc_native_or_abstract method" "0 \<le> mc_code_size method" "mc_code_size method \<le> 65535"
  shows "(\<forall>method' bci. check_bytecodes method = Some (Inr method') \<and>
       instruction_at (mc_code method') (mc_code_size method) bci \<and> op_tableswitch \<le> bytecode_at (mc_code method') bci \<longrightarrow>
       next_bci (mc_code method') bci \<le> mc_code_size method) \<and>
     ((\<forall>bci. instruction_at (mc_code method) (mc_code_size method) bci \<longrightarrow>
         bytecode_at (mc_code method) bci < op_tableswitch \<and> is_defined (int (bytecode_at (mc_code method) bci))) \<longrightarrow>
      check_bytecodes method = Some (Inr method))"
proof (intro conjI allI impI, elim conjE)
  fix method' bci
  assume acc: "check_bytecodes method = Some (Inr method')"
    and i: "instruction_at (mc_code method') (mc_code_size method) bci" and slow: "op_tableswitch \<le> bytecode_at (mc_code method') bci"
  from accepted_decodes [OF acc assms(1,3)] obtain s where
    s: "check_loop (nat (mc_code_size method) + 1) (mc_code_size method) (check_start (mc_code method)) = Some (Inr s)"
    "mc_code method' = ck_mem s" "ck_bci s \<le> mc_code_size method" by metis
  have "ahead (ck_mem s) (mc_code_size method) 0 bci" using instruction_at_ahead [OF i] by (simp add: s(2))
  then have "next_bci (ck_mem s) bci \<le> ck_bci s"
    using check_loop_bci [OF s(1) check_start_inv [OF assms(3)]] slow by (simp add: check_start_def s(2))
  then show "next_bci (mc_code method') bci \<le> mc_code_size method" using s(2,3) by simp
next
  assume fast: "\<forall>bci. instruction_at (mc_code method) (mc_code_size method) bci \<longrightarrow>
         bytecode_at (mc_code method) bci < op_tableswitch \<and> is_defined (int (bytecode_at (mc_code method) bci))"
  let ?s = "check_start (mc_code method)"
  have "check_loop (nat (mc_code_size method) + 1) (mc_code_size method) ?s \<noteq> None"
    by (rule check_loop_fuel [OF check_start_inv [OF assms(3)]]) (simp add: check_start_def)
  then obtain r where r: "check_loop (nat (mc_code_size method) + 1) (mc_code_size method) ?s = Some r" by blast
  have "\<exists>p. r = Inr (?s\<lparr>ck_ptr := p\<rparr>)"
  proof (rule check_loop_fast [OF r])
    fix bci
    assume a: "ahead (ck_mem ?s) (mc_code_size method) (ck_ptr ?s) bci"
    then have "0 < mc_code_size method" by (cases rule: ahead.cases) (auto simp: check_start_def)
    with a have "instruction_at (mc_code method) (mc_code_size method) bci"
      using ahead_instruction instruction_at.first by (simp add: check_start_def)
    with fast show "bytecode_at (ck_mem ?s) bci < op_tableswitch \<and> is_defined (int (bytecode_at (ck_mem ?s) bci))"
      by (simp add: check_start_def)
  qed
  with r assms(1,2) show "check_bytecodes method = Some (Inr method)"
    by (auto simp: check_bytecodes_def finish_check_def check_start_def)
qed

lemma one_byte_instruction: "instruction_at (mc_code (plain_method [0x11])) 1 bci \<Longrightarrow> bci = 0"
proof (induction rule: instruction_at.induct)
  case (next_one bci)
  have "next_bci (mc_code (plain_method [0x11])) 0 = 3" by (simp add: check_eval next_bci_def)
  with next_one show ?case by simp
qed simp

text \<open>A \<open>sipush\<close>, of three bytes, in code of one byte.\<close>

theorem check_bytecodes_end_of_code_witness:
  "check_bytecodes (plain_method [0x11]) = Some (Inr (plain_method [0x11])) \<and>
   next_bci (mc_code (plain_method [0x11])) 0 = mc_code_size (plain_method [0x11]) + 2"
proof -
  let ?m = "plain_method [0x11]"
  have size: "mc_code_size ?m = 1" "\<not> mc_native_or_abstract ?m" by (simp_all add: plain_method_def)
  have code: "bytecode_at (mc_code ?m) 0 = 0x11" by (simp add: plain_method_def bytecode_at_def code_of_bytes_def)
  have "is_defined 0x11" by (simp add: check_eval)
  with one_byte_instruction code
  have "\<forall>bci. instruction_at (mc_code ?m) (mc_code_size ?m) bci \<longrightarrow>
         bytecode_at (mc_code ?m) bci < op_tableswitch \<and> is_defined (int (bytecode_at (mc_code ?m) bci))"
    unfolding size by fastforce
  with check_bytecodes_end_of_code [of ?m] size have "check_bytecodes ?m = Some (Inr ?m)" by simp
  then show ?thesis by (simp add: check_eval next_bci_def)
qed

end
