(* ===== verification/Interpreter_Rules.thy ===== *)
theory Interpreter_Rules
  imports Interpreter_Safety Interpreter_Results Verifier_Rules Loaded_Code
begin

text \<open>
  The properties of the interpreter: code that the verifier accepts runs inside its frame,
  and the handlers compute what the Java language asks for.
\<close>

section \<open>The switches of loaded code\<close>

text \<open>Only a \<open>tableswitch\<close> makes the call of a table, with its bounds.\<close>

definition table_bounds :: "code_mem \<Rightarrow> int \<Rightarrow> nat \<Rightarrow> closure_call \<Rightarrow> bool" where
  "table_bounds m bci code c =
     (case c of
        Table_switch i d low high \<Rightarrow> code = op_tableswitch \<and>
          low = get_java_switch_int m (align_size_up (bci + 1) 4 + 4) \<and>
          high = get_java_switch_int m (align_size_up (bci + 1) 4 + 8)
      | _ \<Rightarrow> True)"

lemma decoded_tables:
  "decode_loads_stores m cp bci code = Some c \<Longrightarrow> table_bounds m bci code c"
  "decode_arrays_stack m bci code = Some c \<Longrightarrow> table_bounds m bci code c"
  "decode_arithmetic code = Some c \<Longrightarrow> table_bounds m bci code c"
  "decode_control m bci code = Some c \<Longrightarrow> table_bounds m bci code c"
  "decode_objects m bci code = Some c \<Longrightarrow> table_bounds m bci code c"
  "decode_fast_fields m cp bci code = Some c \<Longrightarrow> table_bounds m bci code c"
  "decode_fast_invokes m bci code = Some cs \<Longrightarrow> c \<in> set cs \<Longrightarrow> table_bounds m bci code c"
  "decode_common m cp bci code = Some c \<Longrightarrow> table_bounds m bci code c"
  "decode_switches m bci code = Some c \<Longrightarrow> table_bounds m bci code c"
  "table_bounds m bci code (decode_wide m bci)"
  by (auto simp: decode_loads_stores_def decode_arrays_stack_def decode_arithmetic_def decode_control_def
      decode_objects_def decode_fast_fields_def decode_fast_invokes_def decode_common_def decode_switches_def
      decode_wide_def table_bounds_def push_constant_defs Let_def split: if_splits cp_entry.splits prod.splits)

lemma iterated_tables:
  assumes "c \<in> set (iterate_calls m cp bci)"
  shows "table_bounds m bci (bytecode_at m bci) c"
proof -
  from assms obtain d where d: "d \<in> set (decode_bytecode m cp bci (bytecode_at m bci))" "c \<in> set (expand_call m bci d)"
    by (auto simp: iterate_calls_def)
  have "table_bounds m bci (bytecode_at m bci) Illegal_code" by (simp add: table_bounds_def)
  with d(1) have "table_bounds m bci (bytecode_at m bci) d"
    by (auto simp: decode_bytecode_def intro: decoded_tables split: option.splits if_splits)
  with d(2) show ?thesis
    by (auto simp: expand_call_def aload_0_fast_get_field_1_def aload_0_fast_get_field_n_def Let_def table_bounds_def
        split: closure_call.splits)
qed

lemma loaded_switches:
  assumes "decodes (m_code m) (m_code_size m) 0"
  shows "switches_ok m"
  unfolding switches_ok_def list_all_iff
proof (intro allI impI ballI)
  fix bci cp c
  assume i: "instruction_at (m_code m) (m_code_size m) bci" and c: "c \<in> set (iterate_calls (m_code m) cp bci)"
  from decodes_legal(2) [OF assms i] iterated_tables [OF c] show "switch_range_ok c"
    by (auto simp: switch_range_ok_def table_bounds_def legal_instruction_def wordSize_def Let_def split: closure_call.splits)
qed

section \<open>Verified code\<close>

text \<open>The entry of a method.\<close>

definition method_entry :: "jvm_method \<Rightarrow> interp_env \<Rightarrow> interp \<Rightarrow> bool" where
  "method_entry m e s =
     (ie_code e = m_code m \<and> jpc s = 0 \<and> jsp s = [] \<and> length (jlocals s) = m_max_locals m)"

text \<open>C3: In a method whose code the class loader has accepted (\<open>check_bytecodes\<close>) and the verifier accepts, every
  run of the interpreter from the entry of the method, as long as it stays in the frame, comes to instructions only,
  keeps the expression stack within \<open>max_stack\<close> and the locals in number.  The depth of the stack belongs to the
  instruction: any two runs, with other arguments, another heap and another environment, have the same depth when they
  come to the same instruction.  The next handler of the dispatch table never reads a word below its stack or a local
  that the method does not have.\<close>

theorem verified_run_in_frame:
  assumes "check_bytecodes loaded = Some (Inr checked)" "\<not> mc_native_or_abstract loaded"
    "mc_code checked = m_code m" "mc_code_size loaded = m_code_size m"
    "verify_method vm g cp m = Some (Inr cp')" "method_ok vm g cp m" "method_entry m e s" "runs e s s'"
  shows "instruction_at (m_code m) (m_code_size m) (jpc s') \<and> length (jsp s') \<le> m_max_stack m \<and>
    length (jlocals s') = m_max_locals m \<and>
    (\<forall>e2 s2 s2'. method_entry m e2 s2 \<and> runs e2 s2 s2' \<and> jpc s2' = jpc s' \<longrightarrow> length (jsp s2') = length (jsp s')) \<and>
    (bytecode_at (m_code m) (jpc s') \<in> frame_bytecodes \<longrightarrow>
       (\<exists>r. interpret_step e s' = Some r \<and> r \<noteq> Inl Off_frame \<and> r \<noteq> Inl Undefined_bytecode))"
proof -
  have size: "mc_code_size loaded \<le> 65535" using assms(4,6) by (simp add: method_ok_def)
  have "decodes (m_code m) (m_code_size m) 0"
    using accepted_decodes [OF assms(1,2) size] assms(3,4) by metis
  then have switches: "switches_ok m" by (rule loaded_switches)
  from assms(5,6) obtain env s0 z where v: "verified_pass vm g cp m cp' env s0 z" by (rule verified_passI)
  have visits: "\<exists>t u. visited_in m cp' env s0 s2' t u" if "method_entry m e2 s2" "runs e2 s2 s2'" for e2 s2 s2'
  proof -
    from that(1) have entry: "ie_code e2 = m_code m" "jpc s2 = 0" "jsp s2 = []" "length (jlocals s2) = m_max_locals m"
      by (simp_all add: method_entry_def)
    obtain t u where "visited_in m cp' env s0 s2 t u" by (rule entry_visited [OF v assms(6) entry(2-4)])
    from run_visits [OF v switches entry(1) this that(2)] show ?thesis .
  qed
  from visits [OF assms(7,8)] obtain t u where s': "visited_in m cp' env s0 s' t u" by blast
  note S = s' [unfolded visited_in_def]
  have "vstackpointer (vs_frame t) \<le> m_max_stack m"
    using S by (auto simp: pass_ok_def frame_ok_def frame_sizes_def frame_of_def verified_passD(1) [OF v])
  moreover have "length (jsp s2') = length (jsp s')"
    if "method_entry m e2 s2" "runs e2 s2 s2'" "jpc s2' = jpc s'" for e2 s2 s2'
    using visits [OF that(1,2)] s' that(3) verified_passD(1,7) [OF v] pass_at_unique
    by (fastforce simp: visited_in_def)
  moreover have "\<exists>r. interpret_step e s' = Some r \<and> r \<noteq> Inl Off_frame \<and> r \<noteq> Inl Undefined_bytecode"
    if "bytecode_at (m_code m) (jpc s') \<in> frame_bytecodes"
  proof -
    have "ie_code e = m_code m" using assms(7) by (simp add: method_entry_def)
    from run_step [OF v switches this s' that] show ?thesis by (auto simp: in_frame_def)
  qed
  moreover from S have "instruction_at (m_code m) (m_code_size m) (jpc s')" "length (jlocals s') = m_max_locals m"
    "length (jsp s') = vstackpointer (vs_frame t)" by blast+
  ultimately show ?thesis by auto
qed

text \<open>The loop of the example world, counting down from 5.\<close>

definition ex_interp_env :: interp_env where "ex_interp_env = ex_env\<lparr>ie_code := ex_loop_code\<rparr>"

definition ex_entry :: interp where
  "ex_entry = \<lparr>jsp = [], jlocals = [5], jpc = 0, jheap = (\<lambda>_. 0), jbarrier = []\<rparr>"

lemma ex_loop_bytes:
  "ex_loop_code 0 = 0x1a" "ex_loop_code 1 = 0x99" "ex_loop_code 2 = 0" "ex_loop_code 3 = 9"
  "ex_loop_code 4 = 0x84" "ex_loop_code 5 = 0" "ex_loop_code 6 = 255" "ex_loop_code 7 = 0xa7"
  "ex_loop_code 8 = 0xff" "ex_loop_code 9 = 0xf9" "ex_loop_code 10 = 0xb1"
  by (simp_all add: ex_loop_code_def code_of_bytes_def)

lemma ex_loop_step: "interpret_step ex_interp_env ex_entry = Some (Inr (ex_entry\<lparr>jsp := [5], jpc := 1\<rparr>))"
proof -
  have "map_of frame_handlers 0x1a = Some (bc_local_n iload 0)"
    by (simp add: frame_handlers_def java_handlers_def constant_handlers_def load_handlers_def)
  then show ?thesis
    by (simp add: interpret_step_def bytecode_at_def ex_interp_env_def ex_entry_def ex_loop_bytes
        bc_local_n_def iload_def GET_LOCAL_def PUSH_def ADVANCE_def)
qed

lemma ex_loop_first: "bytecode_at (ie_code ex_interp_env) (jpc ex_entry) \<in> frame_bytecodes"
proof -
  have "bytecode_at (ie_code ex_interp_env) (jpc ex_entry) = 0x1a"
    by (simp add: bytecode_at_def ex_interp_env_def ex_entry_def ex_loop_bytes)
  then show ?thesis
    by (simp add: frame_bytecodes_def java_handlers_def load_handlers_def)
qed

text \<open>The class loader on the code of the loop.\<close>

definition ex_loop_loaded :: method_code where
  "ex_loop_loaded = \<lparr>mc_native_or_abstract = False, mc_code = ex_loop_code, mc_code_size = 11,
     mc_max_execution_stack_count = 1, mc_has_monitor_bytecodes = False, mc_has_invoke_bytecodes = False\<rparr>"

lemma ex_loop_checked: "\<exists>checked. check_bytecodes ex_loop_loaded = Some (Inr checked) \<and> mc_code checked = ex_loop_code"
  by (simp add: ex_loop_loaded_def check_eval ex_loop_bytes)

theorem verified_run_in_frame_witness:
  "\<exists>s'. runs ex_interp_env ex_entry s' \<and> jpc s' = 1 \<and> jsp s' = [5] \<and>
     instruction_at ex_loop_code 11 (jpc s') \<and> length (jsp s') \<le> m_max_stack ex_loop"
proof -
  let ?s = "ex_entry\<lparr>jsp := [5], jpc := 1\<rparr>"
  obtain cp where v: "verify_method ex_vm ex_caches [] ex_loop = Some (Inr cp)" using ex_loop_verified by blast
  have m: "m_code ex_loop = ex_loop_code" "m_code_size ex_loop = 11" by (simp_all add: ex_loop_def)
  obtain checked where c: "check_bytecodes ex_loop_loaded = Some (Inr checked)" "mc_code checked = m_code ex_loop"
    using ex_loop_checked m by auto
  have run: "runs ex_interp_env ex_entry ?s" by (rule runs_step [OF runs_start ex_loop_first ex_loop_step])
  have entry: "method_entry ex_loop ex_interp_env ex_entry"
    by (simp add: method_entry_def m ex_interp_env_def ex_entry_def) (simp add: ex_loop_def)
  have "\<not> mc_native_or_abstract ex_loop_loaded" "mc_code_size ex_loop_loaded = m_code_size ex_loop"
    by (simp_all add: ex_loop_loaded_def m)
  from verified_run_in_frame [OF c(1) this(1) c(2) this(2) v ex_methods_ok(1) entry run]
  have "instruction_at ex_loop_code 11 (jpc ?s) \<and> length (jsp ?s) \<le> m_max_stack ex_loop" unfolding m by blast
  with run show ?thesis by (intro exI [of _ ?s]) simp
qed

section \<open>The search of a switch\<close>

lemma switch_pairs_words:
  "switch_pairs m a (nat n) = map (\<lambda>j. (switch_key m a j, get_java_switch_int m (a + 8 + 8 * j + 4))) [0..n - 1]"
proof -
  have "map int [0..<k] = [0..int k - 1]" for k
    by (induction k) (simp_all add: upto_rec2)
  then have "map int [0..<nat n] = [0..n - 1]" by (cases "0 \<le> n") (simp_all del: map_eq_conv)
  then have "[0..n - 1] = map int [0..<nat n]" by simp
  then show ?thesis
    by (simp add: switch_pairs_def switch_key_def switch_word algebra_simps)
qed

text \<open>C31: The keys of a \<open>lookupswitch\<close> of a method that the verifier accepts are strictly ascending, so that no pair
  is hidden by one before it with the same key: for the key of each pair the interpreter goes by that pair, and for
  a key that no pair has by the default.\<close>

theorem verified_lookup_switch:
  assumes "verify_method vm g cp m = Some (Inr cp')" "method_ok vm g cp m"
    "instruction_at (m_code m) (m_code_size m) (jpc s)" "bytecode_at (m_code m) (jpc s) = op_lookupswitch"
    "ie_code e = m_code m"
  defines "a \<equiv> align_size_up (jpc s + 1) 4" and "n \<equiv> get_java_switch_int (m_code m) (align_size_up (jpc s + 1) 4 + 4)"
  shows "(\<forall>j k. 0 \<le> j \<and> j < k \<and> k < n \<longrightarrow> switch_key (m_code m) a j < switch_key (m_code m) a k) \<and>
    (\<forall>j key st. 0 \<le> j \<and> j < n \<and> sint key = switch_key (m_code m) a j \<longrightarrow>
       bc_lookupswitch e (s\<lparr>jsp := key # st\<rparr>) =
         Inr (s\<lparr>jsp := st, jpc := jint (jpc s + get_java_switch_int (m_code m) (a + 8 + 8 * j + 4))\<rparr>)) \<and>
    (\<forall>key st. (\<forall>j. 0 \<le> j \<and> j < n \<longrightarrow> sint key \<noteq> switch_key (m_code m) a j) \<longrightarrow>
       bc_lookupswitch e (s\<lparr>jsp := key # st\<rparr>) =
         Inr (s\<lparr>jsp := st, jpc := jint (jpc s + get_java_switch_int (m_code m) a)\<rparr>))"
proof -
  let ?pairs = "switch_pairs (m_code m) a (nat n)"
  have "Lookup_switch a (jint (jpc s + get_java_switch_int (m_code m) a)) n \<in> set (iterate_calls (m_code m) cp' (jpc s))"
    unfolding iterate_calls_def assms(4) a_def n_def by (simp add: decode_simps)
  from lookup_switch_ascending [OF assms(1-3) this]
  have less: "switch_key (m_code m) a j < switch_key (m_code m) a k" if "0 \<le> j" "j < k" "k < n" for j k using that by blast
  have inj: "inj_on (switch_key (m_code m) a) {0..n - 1}"
  proof (rule linorder_inj_onI')
    fix j k assume "j \<in> {0..n - 1}" "k \<in> {0..n - 1}" "j < k"
    then show "switch_key (m_code m) a j \<noteq> switch_key (m_code m) a k" using less [of j k] by auto
  qed
  then have distinct: "distinct (map fst ?pairs)" by (simp add: switch_pairs_words distinct_map comp_def)
  have run: "bc_lookupswitch e (s\<lparr>jsp := key # st\<rparr>) = Inr (s\<lparr>jsp := st, jpc := jint (jpc s +
      (case map_of ?pairs (sint key) of Some t \<Rightarrow> t | None \<Rightarrow> get_java_switch_int (m_code m) a))\<rparr>)" for key st
    by (simp add: bc_lookupswitch_def POP_def lookup_loop_map_of Let_def a_def n_def assms(5) switch_word split: option.split)
  have "map_of ?pairs (sint key) = Some (get_java_switch_int (m_code m) (a + 8 + 8 * j + 4))"
    if "0 \<le> j" "j < n" "sint key = switch_key (m_code m) a j" for j and key :: "32 word"
    by (rule map_of_is_SomeI [OF distinct]) (use that in \<open>auto simp: switch_pairs_words\<close>)
  moreover have "map_of ?pairs (sint key) = None"
    if "\<forall>j. 0 \<le> j \<and> j < n \<longrightarrow> sint key \<noteq> switch_key (m_code m) a j" for key :: "32 word"
    unfolding map_of_eq_None_iff using that by (auto simp: switch_pairs_words)
  ultimately show ?thesis using less unfolding run by auto
qed

theorem verified_lookup_switch_witness:
  "bc_lookupswitch (ex_env\<lparr>ie_code := ex_switch_code\<rparr>) (ex_entry\<lparr>jpc := 1, jsp := [5]\<rparr>) =
     Inr (ex_entry\<lparr>jpc := 28, jsp := []\<rparr>)"
proof -
  let ?s = "ex_entry\<lparr>jpc := 1\<rparr>" and ?e = "ex_env\<lparr>ie_code := ex_switch_code\<rparr>"
  obtain cp' where v: "verify_method ex_vm ex_switch_caches [] ex_switch = Some (Inr cp')"
    using ex_switch_verified by blast
  have code: "m_code ex_switch = ex_switch_code" "m_code_size ex_switch = 29" by (simp_all add: ex_switch_def)
  have "next_bci ex_switch_code 0 = 1" by code_simp
  with instruction_at.first [of 29 ex_switch_code] instruction_at.next_one [of ex_switch_code 29 0]
  have i: "instruction_at (m_code ex_switch) (m_code_size ex_switch) (jpc ?s)" by (simp add: code)
  have b: "bytecode_at ex_switch_code 1 = op_lookupswitch" "get_java_switch_int ex_switch_code 8 = 2"
    "switch_key ex_switch_code 4 1 = 5" "get_java_switch_int ex_switch_code 24 = 27" "jint 28 = 28" "align_size_up 2 4 = 4"
    by code_simp+
  have "bytecode_at (m_code ex_switch) (jpc ?s) = op_lookupswitch" "ie_code ?e = m_code ex_switch" by (simp_all add: b code)
  from verified_lookup_switch [OF v ex_switch_ok i this]
  have "\<forall>j key st. 0 \<le> j \<and> j < 2 \<and> sint key = switch_key ex_switch_code 4 j \<longrightarrow> bc_lookupswitch ?e (?s\<lparr>jsp := key # st\<rparr>) =
      Inr (?s\<lparr>jsp := st, jpc := jint (jpc ?s + get_java_switch_int ex_switch_code (4 + 8 + 8 * j + 4))\<rparr>)"
    by (simp add: code b)
  from this [rule_format, of 1 5 "[]"] b show ?thesis by simp
qed

end
