(* ===== verification/Bit_Reader.thy ===== *)
theory Bit_Reader
  imports Prelude
begin

unbundle bit_operations_syntax

text \<open>
  The bit reader of the inflater (the macros of \<open>Inflate.hpp\<close>): a reservoir of up to 32
  bits that is filled with the bytes of the input buffer, the first bits of the stream lowest.
  It reads the stream of bits of the buffer in order.

  The input buffer is a list of bytes.  A read past its end, which the code does not notice,
  is the fault \<open>Read_past_buffer\<close>, a copy from in front of a buffer \<open>Read_before_buffer\<close>, a write
  outside \<open>Write_past_buffer\<close>; the assertions of the debug build are \<open>Guarantee_failed\<close>.
\<close>

section \<open>The macros\<close>

lemma jvm_check_cong [fundef_cong]:
  "r = r' \<Longrightarrow> (\<And>x. r' = Inr x \<Longrightarrow> k x = k' x) \<Longrightarrow> jvm_check r k = jvm_check r' k'"
  by (cases r') simp_all

datatype inflate_fault = Read_past_buffer | Read_before_buffer | Write_past_buffer | Guarantee_failed

record bit_reader =
  inOffset :: nat
  inDataSize :: nat
  inData :: "32 word"

definition NEXTBYTE :: "8 word list \<Rightarrow> bit_reader \<Rightarrow> inflate_fault + (32 word \<times> bit_reader)" where
  "NEXTBYTE buf r =
     (if inOffset r < length buf
      then Inr (ucast (buf ! inOffset r), r\<lparr>inOffset := inOffset r + 1\<rparr>)
      else Inl Read_past_buffer)"

function NEEDBITS :: "nat \<Rightarrow> 8 word list \<Rightarrow> bit_reader \<Rightarrow> inflate_fault + bit_reader" where
  "NEEDBITS j buf r =
     (if inDataSize r < j then
        (case NEXTBYTE buf r of
           Inl e \<Rightarrow> Inl e
         | Inr (b, r) \<Rightarrow>
             NEEDBITS j buf (r\<lparr>inData := inData r OR push_bit (inDataSize r) b,
                               inDataSize := inDataSize r + 8\<rparr>))
      else if inDataSize r \<le> 32 then Inr r else Inl Guarantee_failed)"
  by pat_completeness auto
termination
  by (relation "measure (\<lambda>(j, buf, r). j - inDataSize r)") (auto simp: NEXTBYTE_def split: if_splits)

declare NEEDBITS.simps [simp del]

definition NEXTBITS :: "nat \<Rightarrow> bit_reader \<Rightarrow> nat" where
  "NEXTBITS j r = unat (inData r AND (push_bit j 1 - 1))"

definition DUMPBITS :: "nat \<Rightarrow> bit_reader \<Rightarrow> inflate_fault + bit_reader" where
  "DUMPBITS j r =
     (if j \<le> inDataSize r
      then Inr (r\<lparr>inData := drop_bit j (inData r), inDataSize := inDataSize r - j\<rparr>)
      else Inl Guarantee_failed)"


section \<open>The stream of bits\<close>

definition reservoir :: "bit_reader \<Rightarrow> bool list" where
  "reservoir r = map (bit (inData r)) [0..<inDataSize r]"

definition byte_bits :: "8 word \<Rightarrow> bool list" where
  "byte_bits b = map (bit b) [0..<8]"

definition stream :: "8 word list \<Rightarrow> bit_reader \<Rightarrow> bool list" where
  "stream buf r = reservoir r @ concat (map byte_bits (drop (inOffset r) buf))"

definition bits_value :: "bool list \<Rightarrow> nat" where
  "bits_value bs = horner_sum of_bool 2 bs"

text \<open>The bits of the word above the reservoir are zero.\<close>

definition reader_ok :: "bit_reader \<Rightarrow> bool" where
  "reader_ok r = (inDataSize r \<le> 32 \<and> (\<forall>k. bit (inData r) k \<longrightarrow> k < inDataSize r))"

text \<open>The reservoir has room for another byte as long as fewer than \<open>j\<close> bits are in it.\<close>

definition has_room :: "nat \<Rightarrow> bit_reader \<Rightarrow> bool" where
  "has_room j r = (j \<le> 25 \<or> j \<le> 32 \<and> 8 dvd inDataSize r)"

lemma has_room:
  "has_room j r \<Longrightarrow> inDataSize r < j \<Longrightarrow> inDataSize r \<le> 24"
  "has_room j r \<Longrightarrow> inDataSize r' = inDataSize r + 8 \<Longrightarrow> has_room j r'"
  "j \<le> 25 \<Longrightarrow> has_room j r"
  by (auto simp: has_room_def)

lemma reservoir_length [simp]: "length (reservoir r) = inDataSize r"
  by (simp add: reservoir_def)

lemma byte_bits_length [simp]: "length (byte_bits b) = 8"
  by (simp add: byte_bits_def)

lemma NEXTBYTE_step:
  assumes "NEXTBYTE buf r = Inr (b, r')" "reader_ok r" "inDataSize r \<le> 24"
  defines "r'' \<equiv> r'\<lparr>inData := inData r' OR push_bit (inDataSize r') b, inDataSize := inDataSize r' + 8\<rparr>"
  shows "stream buf r'' = stream buf r" "reader_ok r''" "inDataSize r'' = inDataSize r + 8"
    "inOffset r'' = inOffset r + 1" "inOffset r < length buf"
proof -
  from assms(1) have r': "b = ucast (buf ! inOffset r)" "r' = r\<lparr>inOffset := inOffset r + 1\<rparr>"
    and lt: "inOffset r < length buf"
    by (auto simp: NEXTBYTE_def split: if_splits)
  show "inDataSize r'' = inDataSize r + 8" "inOffset r'' = inOffset r + 1" "inOffset r < length buf"
    using lt by (simp_all add: r''_def r')
  have "bit (inData r'') k \<longleftrightarrow>
      (if k < inDataSize r then bit (inData r) k else k < inDataSize r + 8 \<and> bit (buf ! inOffset r) (k - inDataSize r))"
    for k
    using assms(2,3) unfolding r''_def r'
    by (auto simp: bit_simps reader_ok_def dest: bit_imp_le_length)
  note bits = this
  have size: "inDataSize r'' = inDataSize r + 8" by (simp add: r''_def r')
  with assms(3) show "reader_ok r''" unfolding reader_ok_def bits by (auto split: if_splits)
  have "reservoir r'' = reservoir r @ byte_bits (buf ! inOffset r)"
    by (rule nth_equalityI) (auto simp: size reservoir_def byte_bits_def nth_append bits)
  moreover have "inOffset r'' = Suc (inOffset r)" by (simp add: r''_def r')
  ultimately show "stream buf r'' = stream buf r"
    using lt by (simp add: stream_def Cons_nth_drop_Suc [symmetric])
qed

lemma NEEDBITS_stream:
  assumes "NEEDBITS j buf r = Inr r'" "reader_ok r" "has_room j r"
  shows "stream buf r' = stream buf r \<and> reader_ok r' \<and> j \<le> inDataSize r' \<and>
    inDataSize r \<le> inDataSize r' \<and> inDataSize r' \<le> max (inDataSize r) (j + 7) \<and>
    8 * inOffset r' - inDataSize r' = 8 * inOffset r - inDataSize r \<and> inOffset r \<le> inOffset r' \<and>
    (inOffset r \<le> length buf \<longrightarrow> inOffset r' \<le> length buf)"
  using assms
proof (induction j buf r rule: NEEDBITS.induct)
  case (1 j buf r)
  show ?case
  proof (cases "inDataSize r < j")
    case True
    with 1(2) obtain b r1 where b: "NEXTBYTE buf r = Inr (b, r1)"
      by (auto simp: NEEDBITS.simps [of j buf r] split: sum.splits)
    note step = NEXTBYTE_step [OF b 1(3)]
    from True 1(4) have room: "inDataSize r \<le> 24" by (auto dest: has_room(1))
    note step = step [OF room]
    from 1(1) [OF True b refl] 1(2-4) b True step has_room(2) [OF _ step(3)] show ?thesis
      by (simp add: NEEDBITS.simps [of j buf r])
  next
    case False
    with 1 show ?thesis by (auto simp: NEEDBITS.simps [of j buf r] split: if_splits)
  qed
qed

lemma NEEDBITS_result:
  assumes "reader_ok r" "has_room j r"
  shows "(\<exists>r'. NEEDBITS j buf r = Inr r') \<or> NEEDBITS j buf r = Inl Read_past_buffer"
  using assms
proof (induction j buf r rule: NEEDBITS.induct)
  case (1 j buf r)
  show ?case
  proof (cases "inDataSize r < j \<and> inOffset r < length buf")
    case True
    then obtain b r1 where b: "NEXTBYTE buf r = Inr (b, r1)" by (simp add: NEXTBYTE_def)
    from True 1(3) have room: "inDataSize r \<le> 24" by (auto dest: has_room(1))
    note step = NEXTBYTE_step [OF b 1(2) room]
    from 1(1) [OF _ b refl] 1(2-3) b True step has_room(2) [OF _ step(3)] show ?thesis
      by (simp add: NEEDBITS.simps [of j buf r])
  next
    case False
    with 1 show ?thesis
      by (cases "inDataSize r < j")
        (simp_all add: NEEDBITS.simps [of j buf r] reader_ok_def NEXTBYTE_def)
  qed
qed

lemma NEEDBITS_reads:
  assumes "reader_ok r" "has_room j r" "j \<le> length (stream buf r)"
  shows "\<exists>r'. NEEDBITS j buf r = Inr r'"
  using assms
proof (induction j buf r rule: NEEDBITS.induct)
  case (1 j buf r)
  show ?case
  proof (cases "inDataSize r < j")
    case True
    with 1(4) have "inOffset r < length buf"
      by (cases "inOffset r < length buf") (simp_all add: stream_def)
    then obtain b r1 where b: "NEXTBYTE buf r = Inr (b, r1)" by (simp add: NEXTBYTE_def)
    note step = NEXTBYTE_step [OF b 1(2)]
    from True 1(3) have room: "inDataSize r \<le> 24" by (auto dest: has_room(1))
    note step = step [OF room]
    from 1(1) [OF True b refl] 1(2-4) b True step has_room(2) [OF _ step(3)] show ?thesis
      by (simp add: NEEDBITS.simps [of j buf r])
  next
    case False
    with 1 show ?thesis by (simp add: NEEDBITS.simps [of j buf r] reader_ok_def)
  qed
qed

lemma NEXTBITS_stream:
  assumes "reader_ok r" "j \<le> inDataSize r"
  shows "NEXTBITS j r = bits_value (take j (stream buf r))"
proof -
  have "take j (stream buf r) = map (bit (inData r)) [0..<j]"
    using assms(2) by (simp add: stream_def reservoir_def take_map)
  moreover have "inData r AND (push_bit j 1 - 1) = take_bit j (inData r)"
    by (simp add: take_bit_eq_mask mask_eq_exp_minus_1 push_bit_eq_mult)
  moreover have "map (bit (inData r)) [0..<j] = map (bit (unat (inData r))) [0..<j]"
    using assms by (auto simp: reader_ok_def bit_simps dest: bit_imp_le_length)
  ultimately show ?thesis
    by (simp add: NEXTBITS_def bits_value_def horner_sum_bit_eq_take_bit unsigned_take_bit_eq)
qed

lemma DUMPBITS_stream:
  assumes "reader_ok r" "j \<le> inDataSize r"
  shows "\<exists>r'. DUMPBITS j r = Inr r' \<and> stream buf r' = drop j (stream buf r) \<and> reader_ok r' \<and>
    inDataSize r' = inDataSize r - j \<and> inOffset r' = inOffset r"
proof -
  let ?r = "r\<lparr>inData := drop_bit j (inData r), inDataSize := inDataSize r - j\<rparr>"
  have "reservoir ?r = drop j (reservoir r)"
    by (rule nth_equalityI) (simp_all add: reservoir_def bit_simps add.commute)
  moreover have "reader_ok ?r" using assms by (auto simp: reader_ok_def bit_simps)
  ultimately show ?thesis using assms(2) by (simp add: DUMPBITS_def stream_def)
qed

end
