(* ===== verification/Huffman_Table.thy ===== *)
theory Huffman_Table
  imports Bit_Reader
begin

text \<open>
  The Huffman code tables of the inflater (\<open>Inflater::make_code_table\<close> and the macro
  \<open>GET_HUFFMAN_ENTRY\<close>).  A table maps the next \<open>quickBits\<close> bits of the stream to a symbol
  and the length of its code, or to a second table for the bits that follow.

  A code table in memory is a header of four bytes and an array of 16-bit entries; a place
  in it is the number of an entry.  An access outside the array is a fault.  Allocation
  succeeds.  Arithmetic on \<open>unsigned int\<close> is modulo \<open>2 ^ 32\<close> (\<open>u32\<close>).
\<close>

definition u32 :: "int \<Rightarrow> int" where "u32 x = x mod 2 ^ 32"

abbreviation MAX_BITS :: nat where "MAX_BITS \<equiv> 15"

section \<open>Reversing the bits of a code\<close>

definition reverse5 :: "nat list" where
  "reverse5 =
     [0x0, 0x10, 0x8, 0x18, 0x4, 0x14, 0xc, 0x1c,
      0x2, 0x12, 0xa, 0x1a, 0x6, 0x16, 0xe, 0x1e,
      0x1, 0x11, 0x9, 0x19, 0x5, 0x15, 0xd, 0x1d,
      0x3, 0x13, 0xb, 0x1b, 0x7, 0x17, 0xf, 0x1f]"

definition reverse_5bits :: "nat \<Rightarrow> nat" where
  "reverse_5bits code = reverse5 ! code"

definition reverse_9bits :: "nat \<Rightarrow> nat" where
  "reverse_9bits code = push_bit 4 (reverse5 ! (code AND 0x1F)) OR reverse5 ! drop_bit 4 code"

definition reverse_15bits :: "nat \<Rightarrow> inflate_fault + nat" where
  "reverse_15bits code =
     (if drop_bit 10 code < length reverse5
      then Inr (push_bit 10 (reverse5 ! (code AND 0x1F)) OR
                push_bit 5 (reverse5 ! (drop_bit 5 code AND 0x1F)) OR reverse5 ! drop_bit 10 code)
      else Inl Read_past_buffer)"

section \<open>Looking up a code\<close>

record huffman_table =
  h_quickBits :: nat
  h_maxCodeLen :: nat
  entries :: "16 word list"

definition HUFFINFO_LONG_MASK :: "16 word" where "HUFFINFO_LONG_MASK = 0x8000"

text \<open>An offset in bytes from the header, and the number of the entry there.\<close>

definition entry_delta :: "nat \<Rightarrow> nat" where "entry_delta i = 4 + 2 * i"

definition entry_at :: "nat \<Rightarrow> nat \<Rightarrow> nat option" where
  "entry_at delta j = (if 4 \<le> delta \<and> even delta then Some ((delta - 4) div 2 + j) else None)"

definition get_entry :: "huffman_table \<Rightarrow> nat option \<Rightarrow> inflate_fault + 16 word" where
  "get_entry table i =
     (case i of None \<Rightarrow> Inl Read_past_buffer
      | Some i \<Rightarrow> if i < length (entries table) then Inr (entries table ! i) else Inl Read_past_buffer)"

text \<open>The macro returns from the function that uses it when there is no such code:
  \<open>None\<close>.\<close>

definition GET_HUFFMAN_ENTRY ::
  "huffman_table \<Rightarrow> nat \<Rightarrow> bit_reader \<Rightarrow> inflate_fault + (nat \<times> bit_reader) option" where
  "GET_HUFFMAN_ENTRY table quickBits r =
     jvm_check (get_entry table (Some (NEXTBITS quickBits r))) (\<lambda>huff.
     jvm_check
       (if huff AND HUFFINFO_LONG_MASK \<noteq> 0 then
          let delta = unat (huff AND NOT HUFFINFO_LONG_MASK)
          in get_entry table (entry_at delta (drop_bit quickBits (NEXTBITS (h_maxCodeLen table) r)))
        else Inr huff) (\<lambda>huff.
     if huff = 0 then Inr None
     else jvm_check (DUMPBITS (unat (huff AND 0xF)) r) (\<lambda>r. Inr (Some (unat (drop_bit 4 huff), r)))))"


section \<open>Making a table\<close>

definition set_at :: "nat \<Rightarrow> 'a \<Rightarrow> 'a list \<Rightarrow> inflate_fault + 'a list" where
  "set_at i x xs = (if i < length xs then Inr (xs[i := x]) else Inl Write_past_buffer)"

definition count_lengths :: "nat list \<Rightarrow> inflate_fault + nat list" where
  "count_lengths codelen =
     jvm_fold (\<lambda>l counts. if l < length counts then set_at l (counts ! l + 1) counts else Inl Write_past_buffer)
       codelen (replicate (MAX_BITS + 1) 0)"

text \<open>The two loops over the lengths of the codes: the first code of each length, left
  aligned in 15 bits.\<close>

definition max_code_len :: "nat list \<Rightarrow> nat" where
  "max_code_len counts =
     (case find (\<lambda>bits. counts ! bits \<noteq> 0) (rev [1..<MAX_BITS + 1]) of Some bits \<Rightarrow> bits | None \<Rightarrow> 0)"

record length_scan =
  sc_codes :: "nat list"
  sc_code :: nat
  sc_optQuickBits :: nat
  sc_optTableSize :: int

definition scan_start :: length_scan where
  "scan_start = \<lparr>sc_codes = replicate (MAX_BITS + 1) 0, sc_code = 0, sc_optQuickBits = 0, sc_optTableSize = 0\<rparr>"

definition scan_code :: "nat list \<Rightarrow> nat \<Rightarrow> length_scan \<Rightarrow> length_scan" where
  "scan_code counts bits c =
     c\<lparr>sc_codes := (sc_codes c)[bits := sc_code c],
       sc_code := (if counts ! bits \<noteq> 0 then sc_code c + push_bit (MAX_BITS - bits) (counts ! bits) else sc_code c)\<rparr>"

definition heuristic_size :: "nat \<Rightarrow> nat \<Rightarrow> nat \<Rightarrow> int" where
  "heuristic_size maxCodeLen bits code =
     (let tableSize = u32 (2 ^ MAX_BITS - int code);
          tableSize = drop_bit (MAX_BITS - bits) tableSize;
          tableSize = u32 (push_bit (maxCodeLen - bits) tableSize)
      in u32 (tableSize + 2 ^ bits))"

definition scan_quick :: "nat \<Rightarrow> nat \<Rightarrow> length_scan \<Rightarrow> length_scan" where
  "scan_quick maxCodeLen bits c =
     (let tableSize = heuristic_size maxCodeLen bits (sc_code c)
      in if sc_optQuickBits c = 0 \<or> tableSize < sc_optTableSize c
         then c\<lparr>sc_optTableSize := tableSize, sc_optQuickBits := bits\<rparr> else c)"

definition scan_heuristic :: "nat list \<Rightarrow> nat \<Rightarrow> length_scan" where
  "scan_heuristic counts maxCodeLen =
     fold (\<lambda>bits c. scan_quick maxCodeLen bits (scan_code counts bits c)) [1..<maxCodeLen + 1] scan_start"

definition scan_lengths :: "nat list \<Rightarrow> length_scan" where
  "scan_lengths counts = fold (scan_code counts) [1..<MAX_BITS + 1] scan_start"

text \<open>The loop that enters the symbols.\<close>

record table_state =
  ts_codes :: "nat list"
  ts_entries :: "16 word list"
  ts_next :: nat \<comment> \<open>\<open>nextLongTable\<close>\<close>

function fill_entries ::
  "nat \<Rightarrow> nat \<Rightarrow> nat \<Rightarrow> (nat \<Rightarrow> nat option) \<Rightarrow> 16 word \<Rightarrow> 16 word list \<Rightarrow> inflate_fault + 16 word list" where
  "fill_entries j stride limit place huff es =
     (if j < limit \<and> 0 < stride then
        (case place j of
           None \<Rightarrow> Inl Write_past_buffer
         | Some i \<Rightarrow> (case set_at i huff es of
             Inl e \<Rightarrow> Inl e
           | Inr es \<Rightarrow> fill_entries (j + stride) stride limit place huff es))
      else Inr es)"
  by pat_completeness auto
termination by (relation "measure (\<lambda>(j, stride, limit, _). limit - j)") auto

declare fill_entries.simps [simp del]

definition enter_long ::
  "nat \<Rightarrow> nat \<Rightarrow> nat \<Rightarrow> nat \<Rightarrow> 16 word \<Rightarrow> table_state \<Rightarrow> inflate_fault + table_state" where
  "enter_long maxQuickBits longTableLength bits code huff t =
     (let stride = push_bit (bits - maxQuickBits) 1;
          prefixCode = code AND (push_bit maxQuickBits 1 - 1);
          suffixCode = drop_bit maxQuickBits code
      in if prefixCode \<ge> length (ts_entries t) then Inl Read_past_buffer
         else if ts_entries t ! prefixCode = 0 then
           let delta = entry_delta (ts_next t);
               es = (ts_entries t)[prefixCode := HUFFINFO_LONG_MASK OR word_of_nat delta]
           in jvm_check (fill_entries suffixCode stride longTableLength (\<lambda>j. Some (ts_next t + j)) huff es) (\<lambda>es.
                Inr (t\<lparr>ts_entries := es, ts_next := ts_next t + longTableLength\<rparr>))
         else
           let delta = unat (ts_entries t ! prefixCode AND NOT HUFFINFO_LONG_MASK)
           in jvm_check (fill_entries suffixCode stride longTableLength (entry_at delta) huff (ts_entries t)) (\<lambda>es.
                Inr (t\<lparr>ts_entries := es\<rparr>)))"

definition enter_symbol ::
  "nat \<Rightarrow> nat \<Rightarrow> nat \<Rightarrow> nat \<Rightarrow> nat \<Rightarrow> table_state \<Rightarrow> inflate_fault + table_state" where
  "enter_symbol maxQuickBits mainTableLength longTableLength p bits t =
     (if bits = 0 then Inr t
      else let code = ts_codes t ! bits;
               t = t\<lparr>ts_codes := (ts_codes t)[bits := code + push_bit (MAX_BITS - bits) 1]\<rparr>
           in jvm_check (reverse_15bits code) (\<lambda>code.
             let huff = word_of_nat (push_bit 4 p + bits)
             in if bits \<le> maxQuickBits then
                  jvm_check (fill_entries code (push_bit bits 1) mainTableLength Some huff (ts_entries t)) (\<lambda>es.
                    Inr (t\<lparr>ts_entries := es\<rparr>))
                else enter_long maxQuickBits longTableLength bits code huff t))"

definition enter_symbols ::
  "nat \<Rightarrow> nat \<Rightarrow> nat \<Rightarrow> nat list \<Rightarrow> table_state \<Rightarrow> inflate_fault + table_state" where
  "enter_symbols maxQuickBits mainTableLength longTableLength codelen =
     jvm_fold (\<lambda>(p, bits). enter_symbol maxQuickBits mainTableLength longTableLength p bits) (enumerate 0 codelen)"

text \<open>The sizes of the main table and of the long tables.\<close>

definition table_sizes :: "nat \<Rightarrow> nat \<Rightarrow> nat list \<Rightarrow> nat \<times> nat \<times> int \<times> nat" where
  "table_sizes maxCodeLen maxQuickBits codes =
     (if maxCodeLen \<le> maxQuickBits then (maxCodeLen, push_bit maxCodeLen 1, 0, 0)
      else (maxQuickBits, push_bit maxQuickBits 1,
            drop_bit (MAX_BITS - maxQuickBits) (u32 (2 ^ MAX_BITS - int (codes ! (maxQuickBits + 1)))),
            push_bit (maxCodeLen - maxQuickBits) 1))"

text \<open>The bits of the main table are chosen by the heuristic, or given.\<close>

definition scan_counts :: "bool \<Rightarrow> nat list \<Rightarrow> nat \<Rightarrow> nat \<times> nat list \<times> nat" where
  "scan_counts EnableLookupTableSizeHeuristic counts maxQuickBits =
     (let maxCodeLen = max_code_len counts
      in if EnableLookupTableSizeHeuristic then
           let c = scan_heuristic counts maxCodeLen in (maxCodeLen, sc_codes c, sc_optQuickBits c)
         else (maxCodeLen, sc_codes (scan_lengths counts), maxQuickBits))"

definition make_code_table :: "bool \<Rightarrow> nat list \<Rightarrow> nat \<Rightarrow> inflate_fault + huffman_table" where
  "make_code_table EnableLookupTableSizeHeuristic codelen maxQuickBits =
     jvm_check (count_lengths codelen) (\<lambda>counts.
       let (maxCodeLen, codes, maxQuickBits) = scan_counts EnableLookupTableSizeHeuristic counts maxQuickBits;
           (maxQuickBits, mainTableLength, numLongTables, longTableLength) =
             table_sizes maxCodeLen maxQuickBits codes;
           tableSize = u32 (4 + (int mainTableLength + numLongTables * int longTableLength) * 2)
       in jvm_check (enter_symbols maxQuickBits mainTableLength longTableLength codelen
            \<lparr>ts_codes = codes, ts_entries = replicate (nat ((tableSize - 4) div 2)) 0,
             ts_next = mainTableLength\<rparr>) (\<lambda>t.
          Inr \<lparr>h_quickBits = maxQuickBits, h_maxCodeLen = maxCodeLen, entries = ts_entries t\<rparr>))"

end
