(* ===== verification/Inflate.thy ===== *)
theory Inflate
  imports Huffman_Table
begin

text \<open>
  The inflater (\<open>Inflate.cpp\<close>), which decompresses an entry of a jar file (RFC 1951), with the
  part of \<open>FileDecoder.cpp\<close> that it uses.

  A buffer is a list of bytes, of a fixed length once it is allocated; a memory access outside
  a buffer is a fault.  Allocation succeeds; what a raw array holds before it is written is a
  parameter (\<open>raw_byte\<close>).  The file is the list of the bytes from the current position on, or
  \<open>None\<close> for a null handle; a read gives what is left when that is less than what is asked for.
  The offsets are \<open>juint\<close> in the code, and stay far below \<open>2 ^ 32\<close>.  Of the assertions, those
  that an operation relies on are faults; the others do not exist in the product build, and
  neither do they here.
\<close>

section \<open>Tables of the format\<close>

definition ll_extra_bits :: "nat list" where
  "ll_extra_bits =
     [0, 0, 0, 0, 0, 0, 0, 0, 1, 1, 1, 1, 2, 2, 2, 2, 3, 3, 3, 3, 4, 4, 4, 4, 5, 5, 5, 5, 0]"

definition ll_length_base :: "nat list" where
  "ll_length_base =
     [3, 4, 5, 6, 7, 8, 9, 10, 11, 13, 15, 17, 19, 23, 27, 31, 35, 43, 51, 59, 67, 83, 99, 115,
      131, 163, 195, 227, 258]"

definition dist_extra_bits :: "nat list" where
  "dist_extra_bits =
     [0, 0, 0, 0, 1, 1, 2, 2, 3, 3, 4, 4, 5, 5, 6, 6, 7, 7, 8, 8, 9, 9, 10, 10, 11, 11, 12, 12, 13, 13]"

definition dist_base :: "nat list" where
  "dist_base =
     [1, 2, 3, 4, 5, 7, 9, 13, 17, 25, 33, 49, 65, 97, 129, 193, 257, 385, 513, 769, 1025, 1537,
      2049, 3073, 4097, 6145, 8193, 12289, 16385, 24577]"

definition LITXLEN_BASE :: nat where "LITXLEN_BASE = 257"
definition DICTIONARY_SIZE :: nat where "DICTIONARY_SIZE = 32768"
definition INFLATER_INPUT_BUFFER :: nat where "INFLATER_INPUT_BUFFER = 32768"
definition INFLATER_OUTPUT_BUFFER :: nat where "INFLATER_OUTPUT_BUFFER = 65536"
definition INFLATER_OUTPUT_LIMIT :: nat where "INFLATER_OUTPUT_LIMIT = 36864"
definition EXTRA_INPUT_BYTES :: nat where "EXTRA_INPUT_BYTES = 4"
definition EXTRA_OUTPUT_BYTES :: nat where "EXTRA_OUTPUT_BYTES = 260"
definition MAX_ZIP_EXTRA_LENGTH_BITS :: nat where "MAX_ZIP_EXTRA_LENGTH_BITS = 5"
definition MAX_ZIP_EXTRA_DISTANCE_BITS :: nat where "MAX_ZIP_EXTRA_DISTANCE_BITS = 13"
definition MAX_ZIP_DISTANCE_CODE :: nat where "MAX_ZIP_DISTANCE_CODE = 29"
definition MAX_QUICK_CXD :: nat where "MAX_QUICK_CXD = 6"
definition MAX_QUICK_LXL :: nat where "MAX_QUICK_LXL = 9"

definition BTYPE_NO_COMPRESSION :: nat where "BTYPE_NO_COMPRESSION = 0"
definition BTYPE_FIXED_HUFFMAN :: nat where "BTYPE_FIXED_HUFFMAN = 1"
definition BTYPE_DYNA_HUFFMAN :: nat where "BTYPE_DYNA_HUFFMAN = 2"
definition BTYPE_INVALID :: nat where "BTYPE_INVALID = 3"
definition BTYPE_UNKNOWN :: nat where "BTYPE_UNKNOWN = 0x7F"

datatype inflate_status = INFLATE_ERROR | INFLATE_MORE | INFLATE_COMPLETE

section \<open>The inflater\<close>

record inflater =
  in_buffer :: "8 word list"
  out_buffer :: "8 word list"
  length_buffer :: huffman_table
  distance_buffer :: huffman_table
  out_offset :: nat
  out_dumped :: nat
  reader :: bit_reader \<comment> \<open>\<open>in_offset\<close>, \<open>in_data_size\<close> and \<open>in_data\<close>\<close>
  expected_crc :: "32 word"
  block_type :: nat
  last_block :: bool \<comment> \<open>the flag \<open>LAST_BLOCK\<close>\<close>
  incremental :: bool \<comment> \<open>the flag \<open>INCREMENTAL_INFLATE\<close>\<close>
  file_rest :: "8 word list option"
  file_size :: nat
  bytes_remain :: nat

record inflate_env =
  table_heuristic :: bool \<comment> \<open>\<open>EnableLookupTableSizeHeuristic\<close>\<close>
  raw_byte :: "nat \<Rightarrow> 8 word"

definition new_byte_array_raw :: "inflate_env \<Rightarrow> nat \<Rightarrow> 8 word list" where
  "new_byte_array_raw e n = map (raw_byte e) [0..<n]"

text \<open>\<open>jvm_memcpy\<close>: the bytes that are read, and where they are written.\<close>

definition get_bytes_at :: "int \<Rightarrow> nat \<Rightarrow> 8 word list \<Rightarrow> inflate_fault + 8 word list" where
  "get_bytes_at off n xs =
     (if off < 0 then Inl Read_before_buffer
      else if off + int n \<le> int (length xs) then Inr (take n (drop (nat off) xs))
      else Inl Read_past_buffer)"

definition put_bytes_at :: "nat \<Rightarrow> 8 word list \<Rightarrow> 8 word list \<Rightarrow> inflate_fault + 8 word list" where
  "put_bytes_at off bs xs =
     (if off + length bs \<le> length xs then Inr (take off xs @ bs @ drop (off + length bs) xs)
      else Inl Write_past_buffer)"

text \<open>\<open>FileDecoder::get_bytes_raw\<close>: the bytes read, and the file behind them.\<close>

definition get_bytes_raw :: "nat \<Rightarrow> inflater \<Rightarrow> inflate_fault + (8 word list \<times> inflater)" where
  "get_bytes_raw count s =
     (case file_rest s of None \<Rightarrow> Inl Guarantee_failed
      | Some rest \<Rightarrow> Inr (take count rest, s\<lparr>file_rest := Some (drop count rest)\<rparr>))"

definition in_length :: "inflater \<Rightarrow> nat" where
  "in_length s = nat (u32 (int (length (in_buffer s)) - (if incremental s then int EXTRA_INPUT_BYTES else 0)))"

definition out_length :: "inflater \<Rightarrow> nat" where
  "out_length s = nat (u32 (int (length (out_buffer s)) - (if incremental s then int EXTRA_OUTPUT_BYTES else 0)))"

definition allocate_inflater ::
  "inflate_env \<Rightarrow> 8 word list option \<Rightarrow> nat \<Rightarrow> nat \<Rightarrow> 32 word \<Rightarrow> bool \<Rightarrow> inflate_fault + inflater" where
  "allocate_inflater e handle sz comp_len crc incr =
     (let in_size = comp_len + EXTRA_INPUT_BYTES;
          in_size = (if incr then min in_size (INFLATER_INPUT_BUFFER + EXTRA_INPUT_BYTES) else in_size);
          out_size = (if incr then min sz INFLATER_OUTPUT_BUFFER + EXTRA_OUTPUT_BYTES else sz);
          none = \<lparr>h_quickBits = 0, h_maxCodeLen = 0, entries = []\<rparr>;
          s = \<lparr>in_buffer = new_byte_array_raw e in_size, out_buffer = [], length_buffer = none,
               distance_buffer = none, out_offset = 0, out_dumped = 0,
               reader = \<lparr>inOffset = 0, inDataSize = 0, inData = 0\<rparr>, expected_crc = crc,
               block_type = BTYPE_UNKNOWN, last_block = False, incremental = incr,
               file_rest = handle, file_size = sz, bytes_remain = sz\<rparr>
      in jvm_check
           (case handle of None \<Rightarrow> Inr s
            | Some _ \<Rightarrow> jvm_check (get_bytes_raw in_size s) (\<lambda>(bs, s).
                jvm_check (put_bytes_at 0 bs (in_buffer s)) (\<lambda>buf. Inr (s\<lparr>in_buffer := buf\<rparr>)))) (\<lambda>s.
         Inr (s\<lparr>out_buffer := new_byte_array_raw e out_size\<rparr>)))"

definition refill_input :: "inflate_env \<Rightarrow> nat \<Rightarrow> inflater \<Rightarrow> inflate_fault + inflater" where
  "refill_input e processed s =
     (if file_rest s = None then Inr s
      else if processed > length (in_buffer s) then Inl Guarantee_failed
      else
        let len = length (in_buffer s);
            remainder = len - processed
        in jvm_check (put_bytes_at 0 (drop processed (in_buffer s)) (new_byte_array_raw e len)) (\<lambda>base.
           jvm_check (get_bytes_raw processed s) (\<lambda>(bs, s).
           jvm_check (put_bytes_at remainder bs base) (\<lambda>base. Inr (s\<lparr>in_buffer := base\<rparr>)))))"


section \<open>Stored blocks\<close>

text \<open>When there is no room for the block, a new buffer begins with what the dictionary needs
  of the old one.\<close>

definition stored_buffer :: "inflate_env \<Rightarrow> nat \<Rightarrow> inflater \<Rightarrow> inflate_fault + inflater" where
  "stored_buffer e len s =
     (if out_offset s + len > out_length s then
        let buf = new_byte_array_raw e (length (out_buffer s));
            preserve_bytes = int DICTIONARY_SIZE - int len
        in if preserve_bytes > 0 then
             jvm_check (get_bytes_at (int (out_offset s) - preserve_bytes) (nat preserve_bytes) (out_buffer s)) (\<lambda>bs.
             jvm_check (put_bytes_at 0 bs buf) (\<lambda>buf.
               Inr (s\<lparr>out_buffer := buf, out_offset := nat preserve_bytes, out_dumped := nat preserve_bytes\<rparr>)))
           else Inr (s\<lparr>out_buffer := buf, out_offset := 0, out_dumped := 0\<rparr>)
      else Inr s)"

text \<open>The bytes of the block come from the input buffer, and those that are not in it straight
  from the file.\<close>

definition copy_stored :: "nat \<Rightarrow> bit_reader \<Rightarrow> inflater \<Rightarrow> inflate_fault + (inflate_status \<times> inflater)" where
  "copy_stored len r s =
     (let avail = length (in_buffer s) - inOffset r;
          finish = (\<lambda>n s. jvm_check (get_bytes_at (int (inOffset r)) n (in_buffer s)) (\<lambda>bs.
            jvm_check (put_bytes_at (out_offset s) bs (out_buffer s)) (\<lambda>out.
              Inr (INFLATE_MORE, s\<lparr>out_buffer := out, reader := r\<lparr>inOffset := inOffset r + n\<rparr>,
                out_offset := out_offset s + len, block_type := BTYPE_UNKNOWN\<rparr>))))
      in if len > avail then
           let deficit = len - avail
           in jvm_check (get_bytes_raw deficit s) (\<lambda>(bs, s).
              jvm_check (put_bytes_at (out_offset s + avail) bs (out_buffer s)) (\<lambda>out.
                if length bs \<noteq> deficit then Inr (INFLATE_ERROR, s\<lparr>out_buffer := out\<rparr>)
                else finish avail (s\<lparr>out_buffer := out\<rparr>)))
         else finish len s)"

definition inflate_stored :: "inflate_env \<Rightarrow> inflater \<Rightarrow> inflate_fault + (inflate_status \<times> inflater)" where
  "inflate_stored e s =
     jvm_check (DUMPBITS (inDataSize (reader s) mod 8) (reader s)) (\<lambda>r.
     jvm_check (NEEDBITS 32 (in_buffer s) r) (\<lambda>r.
     let len = NEXTBITS 16 r in
     jvm_check (DUMPBITS 16 r) (\<lambda>r.
     let nlen = NEXTBITS 16 r in
     jvm_check (DUMPBITS 16 r) (\<lambda>r.
     if len + nlen \<noteq> 0xFFFF then Inr (INFLATE_ERROR, s)
     else jvm_check (stored_buffer e len s) (\<lambda>s. copy_stored len r s)))))"


section \<open>Blocks of codes\<close>

text \<open>The local variables of \<open>inflate_huffman\<close>: the reader, and the output with its offset.\<close>

record huffman_locals =
  l_reader :: bit_reader
  l_out :: "8 word list"
  outOffset :: nat

text \<open>How a round of the loop ends: the loop goes on, or it is left at the end of the block, or
  because the buffer is full, or the function returns with an error.\<close>

datatype round_end = Again | End_of_block | Buffer_full | Bad_code

definition fixed_symbol :: "bit_reader \<Rightarrow> inflate_fault + (nat \<times> bit_reader)" where
  "fixed_symbol r =
     (let code = reverse_9bits (NEXTBITS 9 r)
      in if code < 0x060 then jvm_check (DUMPBITS 7 r) (\<lambda>r. Inr (0x100 + drop_bit 2 code, r))
         else if code < 0x190 then
           jvm_check (DUMPBITS 8 r) (\<lambda>r.
             Inr (if code < 0x180 then drop_bit 1 code - 0x030 else drop_bit 1 code + (0x118 - 0x0c0), r))
         else jvm_check (DUMPBITS 9 r) (\<lambda>r. Inr (0x90 + code - 0x190, r)))"

definition literal_symbol :: "bool \<Rightarrow> inflater \<Rightarrow> bit_reader \<Rightarrow> inflate_fault + (nat \<times> bit_reader) option" where
  "literal_symbol fixedHuffman s r =
     (if fixedHuffman then jvm_check (fixed_symbol r) (\<lambda>x. Inr (Some x))
      else GET_HUFFMAN_ENTRY (length_buffer s) (h_quickBits (length_buffer s)) r)"

definition distance_symbol :: "bool \<Rightarrow> inflater \<Rightarrow> bit_reader \<Rightarrow> inflate_fault + (nat \<times> bit_reader) option" where
  "distance_symbol fixedHuffman s r =
     (if fixedHuffman then
        let d0 = reverse_5bits (NEXTBITS 5 r) in jvm_check (DUMPBITS 5 r) (\<lambda>r. Inr (Some (d0, r)))
      else GET_HUFFMAN_ENTRY (distance_buffer s) (h_quickBits (distance_buffer s)) r)"

text \<open>The copy of a match, byte by byte while the source and the destination overlap.\<close>

fun copy_match :: "nat \<Rightarrow> nat \<Rightarrow> nat \<Rightarrow> nat \<Rightarrow> 8 word list \<Rightarrow> inflate_fault + 8 word list" where
  "copy_match distance prev off 0 out = Inr out"
| "copy_match distance prev off (Suc n) out =
     (if Suc n > distance then
        if prev < length out \<and> off < length out
        then copy_match distance (prev + 1) (off + 1) n (out[off := out ! prev])
        else Inl Write_past_buffer
      else jvm_check (get_bytes_at (int prev) (Suc n) out) (\<lambda>bs. put_bytes_at off bs out))"

text \<open>A literal.\<close>

definition put_literal :: "inflater \<Rightarrow> nat \<Rightarrow> bit_reader \<Rightarrow> huffman_locals \<Rightarrow> inflate_fault + (round_end \<times> huffman_locals)" where
  "put_literal s litxlen r l =
     (let buffer_full = (outOffset l \<ge> out_length s)
      in if buffer_full \<and> \<not> incremental s then Inr (Bad_code, l)
         else if outOffset l < length (l_out l) then
           Inr (if buffer_full then Buffer_full else Again,
                l\<lparr>l_reader := r, l_out := (l_out l)[outOffset l := word_of_nat litxlen], outOffset := outOffset l + 1\<rparr>)
         else Inl Write_past_buffer)"

text \<open>A length, and the distance that follows it.\<close>

definition put_match ::
  "bool \<Rightarrow> inflater \<Rightarrow> nat \<Rightarrow> bit_reader \<Rightarrow> huffman_locals \<Rightarrow> inflate_fault + (round_end \<times> huffman_locals)" where
  "put_match fixedHuffman s litxlen r l =
     (let n = litxlen - LITXLEN_BASE;
          moreBits = ll_extra_bits ! n;
          len = ll_length_base ! n + NEXTBITS moreBits r in
      jvm_check (DUMPBITS moreBits r) (\<lambda>r.
      jvm_check (NEEDBITS MAX_BITS (in_buffer s) r) (\<lambda>r.
      jvm_check (distance_symbol fixedHuffman s r) (\<lambda>d.
      case d of None \<Rightarrow> Inr (Bad_code, l)
      | Some (d0, r) \<Rightarrow>
        if d0 > MAX_ZIP_DISTANCE_CODE then Inr (Bad_code, l)
        else
          jvm_check (NEEDBITS MAX_ZIP_EXTRA_DISTANCE_BITS (in_buffer s) r) (\<lambda>r.
          let moreBits = dist_extra_bits ! d0;
              distance = dist_base ! d0 + NEXTBITS moreBits r in
          jvm_check (DUMPBITS moreBits r) (\<lambda>r.
          let buffer_full = (outOffset l + len > out_length s) in
          if outOffset l < distance then Inr (Bad_code, l)
          else if buffer_full \<and> \<not> incremental s then Inr (Bad_code, l)
          else jvm_check (copy_match distance (outOffset l - distance) (outOffset l) len (l_out l)) (\<lambda>out.
            Inr (if buffer_full then Buffer_full else Again,
                 l\<lparr>l_reader := r, l_out := out, outOffset := outOffset l + len\<rparr>))))))))"

definition huffman_round ::
  "bool \<Rightarrow> inflater \<Rightarrow> huffman_locals \<Rightarrow> inflate_fault + (round_end \<times> huffman_locals)" where
  "huffman_round fixedHuffman s l =
     jvm_check (NEEDBITS (MAX_BITS + MAX_ZIP_EXTRA_LENGTH_BITS) (in_buffer s) (l_reader l)) (\<lambda>r.
     jvm_check (literal_symbol fixedHuffman s r) (\<lambda>x.
     case x of None \<Rightarrow> Inr (Bad_code, l)
     | Some (litxlen, r) \<Rightarrow>
         if litxlen \<le> 255 then put_literal s litxlen r l
         else if litxlen = 256 then Inr (End_of_block, l\<lparr>l_reader := r\<rparr>)
         else if litxlen > 285 then Inr (Bad_code, l)
         else put_match fixedHuffman s litxlen r l))"


text \<open>Every round that goes on has made the output longer.\<close>

lemma put_match_again:
  assumes "put_match fixedHuffman s litxlen r l = Inr (Again, l')" "litxlen \<le> 285"
  shows "outOffset l < outOffset l'" "outOffset l < out_length s"
proof -
  have "list_all (\<lambda>n. 0 < ll_length_base ! n) [0..<29]" by code_simp
  then have "0 < ll_length_base ! (litxlen - LITXLEN_BASE)"
    using assms(2) by (simp add: list_all_iff LITXLEN_BASE_def)
  then show "outOffset l < outOffset l'" "outOffset l < out_length s"
    using assms(1) by (auto simp: put_match_def Let_def split: option.splits if_splits elim!: jvm_check_InrE)
qed

lemma huffman_round_again:
  assumes "huffman_round fixedHuffman s l = Inr (Again, l')"
  shows "outOffset l < outOffset l' \<and> outOffset l < out_length s"
proof -
  have lit: "put_literal s litxlen r l = Inr (Again, l') \<Longrightarrow> ?thesis" for litxlen r
    by (auto simp: put_literal_def Let_def split: if_splits)
  have match: "put_match fixedHuffman s litxlen r l = Inr (Again, l') \<Longrightarrow> litxlen \<le> 285 \<Longrightarrow> ?thesis" for litxlen r
    using put_match_again by blast
  show ?thesis
    using assms
    by (auto simp: huffman_round_def not_less dest!: lit match split: option.splits if_splits elim!: jvm_check_InrE)
qed

text \<open>The loop, with the stores behind it.\<close>

definition leave_huffman :: "huffman_locals \<Rightarrow> inflater \<Rightarrow> inflater" where
  "leave_huffman l s = s\<lparr>reader := l_reader l, out_buffer := l_out l, out_offset := outOffset l\<rparr>"

function huffman_loop ::
  "inflate_env \<Rightarrow> bool \<Rightarrow> inflater \<Rightarrow> huffman_locals \<Rightarrow> inflate_fault + (inflate_status \<times> inflater)" where
  "huffman_loop e fixedHuffman s l =
     (if inOffset (l_reader l) \<ge> in_length s then
        jvm_check (refill_input e (inOffset (l_reader l)) s) (\<lambda>s.
          Inr (INFLATE_MORE, leave_huffman (l\<lparr>l_reader := (l_reader l)\<lparr>inOffset := 0\<rparr>\<rparr>) s))
      else
        (case huffman_round fixedHuffman s l of
           Inl f \<Rightarrow> Inl f
         | Inr (Again, l') \<Rightarrow> huffman_loop e fixedHuffman s l'
         | Inr (End_of_block, l') \<Rightarrow>
             Inr (INFLATE_MORE, (leave_huffman l' s)\<lparr>block_type := BTYPE_UNKNOWN\<rparr>)
         | Inr (Buffer_full, l') \<Rightarrow> Inr (INFLATE_MORE, leave_huffman l' s)
         | Inr (Bad_code, l') \<Rightarrow> Inr (INFLATE_ERROR, s\<lparr>out_buffer := l_out l'\<rparr>)))"
  by pat_completeness auto
termination
  by (relation "measure (\<lambda>(e, b, s, l). out_length s - outOffset l)") (auto dest: huffman_round_again)

declare huffman_loop.simps [simp del]

definition inflate_huffman :: "inflate_env \<Rightarrow> bool \<Rightarrow> inflater \<Rightarrow> inflate_fault + (inflate_status \<times> inflater)" where
  "inflate_huffman e fixedHuffman s =
     huffman_loop e fixedHuffman s
       \<lparr>l_reader = reader s, l_out = out_buffer s, outOffset = out_offset s\<rparr>"


section \<open>The tables of a block\<close>

definition ccode_idx :: "nat list" where
  "ccode_idx = [16, 17, 18, 0, 8, 7, 9, 6, 10, 5, 11, 4, 12, 3, 13, 2, 14, 1, 15]"

definition codelen_buf_size :: nat where "codelen_buf_size = 286 + 32"

text \<open>The check of the input in the loops: refill, and begin at the new start.\<close>

definition check_input :: "inflate_env \<Rightarrow> inflater \<times> bit_reader \<Rightarrow> inflate_fault + (inflater \<times> bit_reader)" where
  "check_input e = (\<lambda>(s, r).
     if inOffset r \<ge> in_length s
     then jvm_check (refill_input e (inOffset r) s) (\<lambda>s. Inr (s, r\<lparr>inOffset := 0\<rparr>))
     else Inr (s, r))"

definition read_code_length ::
  "inflate_env \<Rightarrow> nat \<Rightarrow> nat list \<times> inflater \<times> bit_reader \<Rightarrow> inflate_fault + (nat list \<times> inflater \<times> bit_reader)" where
  "read_code_length e i = (\<lambda>(codelen, s, r).
     jvm_check (NEEDBITS 3 (in_buffer s) r) (\<lambda>r.
     jvm_check (check_input e (s, r)) (\<lambda>(s, r).
     jvm_check (set_at (ccode_idx ! i) (NEXTBITS 3 r) codelen) (\<lambda>codelen.
     jvm_check (DUMPBITS 3 r) (\<lambda>r. Inr (codelen, s, r))))))"

text \<open>A repeat code; a count that goes past the end is only reported in a debug build.\<close>

definition repeat_length ::
  "nat \<Rightarrow> nat list \<Rightarrow> nat \<Rightarrow> bit_reader \<Rightarrow> inflate_fault + (nat list \<times> nat \<times> bit_reader) option" where
  "repeat_length val codelen codePtr r =
     (let rep = (if val = 18 then 11 else 3);
          bits = (if val = 18 then 7 else val - 14);
          rep = rep + NEXTBITS bits r in
      jvm_check (DUMPBITS bits r) (\<lambda>r.
        if val = 16 then
          if codePtr = 0 then Inr None
          else if codePtr + rep \<le> length codelen then
            Inr (Some (take codePtr codelen @ replicate rep (codelen ! (codePtr - 1)) @ drop (codePtr + rep) codelen,
                  codePtr + rep, r))
          else Inl Write_past_buffer
        else Inr (Some (codelen, codePtr + rep, r))))"

lemma repeat_length_advances:
  "repeat_length val codelen codePtr r = Inr (Some (codelen', codePtr', r')) \<Longrightarrow> codePtr < codePtr'"
  by (auto simp: repeat_length_def Let_def split: if_splits elim!: jvm_check_InrE)

function code_lengths ::
  "inflate_env \<Rightarrow> huffman_table \<Rightarrow> nat \<Rightarrow> nat \<Rightarrow> nat list \<Rightarrow> inflater \<Rightarrow> bit_reader \<Rightarrow>
   inflate_fault + (nat list \<times> inflater \<times> bit_reader) option" where
  "code_lengths e ccodes codePtr endCodePtr codelen s r =
     (if codePtr < endCodePtr then
        jvm_check (NEEDBITS (MAX_BITS + 7) (in_buffer s) r) (\<lambda>r.
        jvm_check (GET_HUFFMAN_ENTRY ccodes (h_quickBits ccodes) r) (\<lambda>x.
        case x of None \<Rightarrow> Inr None
        | Some (val, r) \<Rightarrow>
          jvm_check (check_input e (s, r)) (\<lambda>(s, r).
          if val \<le> 15 then
            jvm_check (set_at codePtr val codelen) (\<lambda>codelen.
              code_lengths e ccodes (codePtr + 1) endCodePtr codelen s r)
          else if val \<le> 18 then
            jvm_check (repeat_length val codelen codePtr r) (\<lambda>y.
            case y of None \<Rightarrow> Inr None
            | Some (codelen, codePtr, r) \<Rightarrow> code_lengths e ccodes codePtr endCodePtr codelen s r)
          else Inr None)))
      else Inr (Some (codelen, s, r)))"
  by pat_completeness auto
termination
  by (relation "measure (\<lambda>(e, c, codePtr, endCodePtr, _). endCodePtr - codePtr)")
    (auto dest: repeat_length_advances)

declare code_lengths.simps [simp del]

definition decode_dynamic_huffman_tables ::
  "inflate_env \<Rightarrow> inflater \<Rightarrow> inflate_fault + (inflate_status \<times> inflater)" where
  "decode_dynamic_huffman_tables e s =
     jvm_check (NEEDBITS 14 (in_buffer s) (reader s)) (\<lambda>r.
     let hlit = 257 + NEXTBITS 5 r in
     jvm_check (DUMPBITS 5 r) (\<lambda>r.
     let hdist = 1 + NEXTBITS 5 r in
     jvm_check (DUMPBITS 5 r) (\<lambda>r.
     let hclen = 4 + NEXTBITS 4 r in
     jvm_check (DUMPBITS 4 r) (\<lambda>r.
     jvm_check (jvm_fold (read_code_length e) [0..<hclen] (replicate 19 0, s, r)) (\<lambda>(codelen, s, r).
     jvm_check (make_code_table (table_heuristic e) codelen MAX_QUICK_CXD) (\<lambda>ccodes.
     jvm_check (code_lengths e ccodes 0 (hlit + hdist) (replicate codelen_buf_size 0) s r) (\<lambda>x.
     case x of None \<Rightarrow> Inr (INFLATE_ERROR, s)
     | Some (codelen, s, r) \<Rightarrow>
       let s = s\<lparr>reader := r\<rparr> in
       jvm_check (make_code_table (table_heuristic e) (take hlit codelen) MAX_QUICK_LXL) (\<lambda>lcodes.
       let s = s\<lparr>length_buffer := lcodes\<rparr> in
       if hlit + hdist > length codelen then Inl Read_past_buffer
       else jvm_check (make_code_table (table_heuristic e) (take hdist (drop hlit codelen)) MAX_QUICK_CXD) (\<lambda>dcodes.
         Inr (INFLATE_MORE, s\<lparr>distance_buffer := dcodes\<rparr>))))))))))"

section \<open>The inflater's operations\<close>

definition read_block_type :: "inflate_env \<Rightarrow> inflater \<Rightarrow> inflate_fault + inflater" where
  "read_block_type e s =
     jvm_check (check_input e (s, reader s)) (\<lambda>(s, r).
     jvm_check (NEEDBITS 3 (in_buffer s) r) (\<lambda>r.
     let btype = NEXTBITS 3 r in
     jvm_check (DUMPBITS 3 r) (\<lambda>r.
     Inr (s\<lparr>last_block := last_block s \<or> odd btype, reader := r, block_type := drop_bit 1 btype\<rparr>))))"

definition inflate_block :: "inflate_env \<Rightarrow> nat \<Rightarrow> inflater \<Rightarrow> inflate_fault + (inflate_status \<times> inflater)" where
  "inflate_block e btype s =
     (if btype = BTYPE_INVALID then Inr (INFLATE_ERROR, s)
      else if btype = BTYPE_NO_COMPRESSION then inflate_stored e s
      else if btype = BTYPE_FIXED_HUFFMAN \<or> btype = BTYPE_DYNA_HUFFMAN
      then inflate_huffman e (btype = BTYPE_FIXED_HUFFMAN) s
      else Inl Guarantee_failed)"

definition do_inflate :: "inflate_env \<Rightarrow> inflater \<Rightarrow> inflate_fault + (inflate_status \<times> inflater)" where
  "do_inflate e s =
     (if block_type s = BTYPE_UNKNOWN then
        if last_block s then Inr (INFLATE_COMPLETE, s)
        else
          jvm_check (read_block_type e s) (\<lambda>s.
          if block_type s = BTYPE_DYNA_HUFFMAN then
            jvm_check (decode_dynamic_huffman_tables e s) (\<lambda>(status, s).
              if status = INFLATE_ERROR then Inr (INFLATE_ERROR, s)
              else inflate_block e (block_type s) s)
          else inflate_block e (block_type s) s)
      else inflate_block e (block_type s) s)"

text \<open>The loops of the callers, for at most \<open>fuel\<close> rounds.\<close>

fun inflate_all :: "inflate_env \<Rightarrow> nat \<Rightarrow> inflater \<Rightarrow> (inflate_fault + (inflate_status \<times> inflater)) option" where
  "inflate_all e 0 s = None"
| "inflate_all e (Suc fuel) s =
     (case do_inflate e s of
        Inl f \<Rightarrow> Some (Inl f)
      | Inr (status, s) \<Rightarrow> if status = INFLATE_MORE then inflate_all e fuel s else Some (Inr (status, s)))"

text \<open>\<open>Inflater::get_bytes\<close>: the bytes that have been copied to the destination so far.\<close>

definition fresh_dictionary :: "inflate_env \<Rightarrow> inflater \<Rightarrow> inflate_fault + inflater" where
  "fresh_dictionary e s =
     (if out_offset s > INFLATER_OUTPUT_LIMIT then
        jvm_check (get_bytes_at (int (out_offset s) - int DICTIONARY_SIZE) DICTIONARY_SIZE (out_buffer s)) (\<lambda>bs.
        jvm_check (put_bytes_at 0 bs (new_byte_array_raw e (length (out_buffer s)))) (\<lambda>out.
          Inr (s\<lparr>out_buffer := out, out_offset := DICTIONARY_SIZE, out_dumped := DICTIONARY_SIZE\<rparr>)))
      else Inr (s\<lparr>out_dumped := out_offset s\<rparr>))"

fun get_bytes_loop ::
  "inflate_env \<Rightarrow> nat \<Rightarrow> nat \<Rightarrow> 8 word list \<Rightarrow> inflater \<Rightarrow> (inflate_fault + (8 word list option \<times> inflater)) option" where
  "get_bytes_loop e 0 count dest s = None"
| "get_bytes_loop e (Suc fuel) count dest s =
     (let avail = out_offset s - out_dumped s
      in if count \<le> avail then
           Some (jvm_check (get_bytes_at (int (out_dumped s)) count (out_buffer s)) (\<lambda>bs.
             Inr (Some (dest @ bs), s\<lparr>out_dumped := out_dumped s + count\<rparr>)))
         else
           (case jvm_check (get_bytes_at (int (out_dumped s)) avail (out_buffer s)) (\<lambda>bs.
              jvm_check (fresh_dictionary e s) (\<lambda>s.
              jvm_check (do_inflate e s) (\<lambda>(status, s). Inr (bs, status, s)))) of
              Inl f \<Rightarrow> Some (Inl f)
            | Inr (bs, INFLATE_ERROR, s) \<Rightarrow> Some (Inr (None, s))
            | Inr (bs, INFLATE_COMPLETE, s) \<Rightarrow> Some (Inr (Some (dest @ bs), s))
            | Inr (bs, INFLATE_MORE, s) \<Rightarrow> get_bytes_loop e fuel (count - avail) (dest @ bs) s))"

end
