(* ===== verification/Canonical_Code.thy ===== *)
theory Canonical_Code
  imports Huffman_Table
begin

text \<open>
  The canonical prefix code of a list of code lengths (RFC 1951, section 3.2.2): codes are
  assigned in the order of their length, and of the symbols of the same length, each code
  the next number.  Here a code is left aligned in 15 bits, so that the codes that it is a
  prefix of are an interval.
\<close>

section \<open>Reversed bits\<close>

definition rev_bits :: "nat \<Rightarrow> nat \<Rightarrow> nat" where
  "rev_bits n x = horner_sum of_bool 2 (map (\<lambda>k. bit x (n - 1 - k)) [0..<n])"

lemma bit_rev_bits: "bit (rev_bits n x) k \<longleftrightarrow> k < n \<and> bit x (n - 1 - k)"
  by (auto simp: rev_bits_def bit_horner_sum_bit_iff)

lemma rev_bits_less: "rev_bits n x < 2 ^ n"
  unfolding rev_bits_def using horner_sum_of_bool_2_less [of "map (\<lambda>k. bit x (n - 1 - k)) [0..<n]"] by simp

lemma rev_bits_inject: "x < 2 ^ n \<Longrightarrow> y < 2 ^ n \<Longrightarrow> rev_bits n x = rev_bits n y \<Longrightarrow> x = y"
proof (rule bit_eqI)
  fix k
  assume "x < 2 ^ n" "y < 2 ^ n" and e: "rev_bits n x = rev_bits n y"
  then have "take_bit n x = x" "take_bit n y = y" by (simp_all add: take_bit_nat_eq_self)
  moreover have "bit x k = bit y k" if "k < n"
    using arg_cong [OF e, of "\<lambda>z. bit z (n - 1 - k)"] that by (simp add: bit_rev_bits)
  ultimately show "bit x k = bit y k" by (metis bit_take_bit_iff)
qed

lemma reverse5_all: "list_all (\<lambda>c. reverse5 ! c = rev_bits 5 c) [0..<32]"
  by code_simp

lemma reverse5_rev: "c < 32 \<Longrightarrow> reverse5 ! c = rev_bits 5 c"
  using reverse5_all by (simp add: list_all_iff)

lemma reverse_5bits_rev: "c < 32 \<Longrightarrow> reverse_5bits c = rev_bits 5 c"
  by (simp add: reverse_5bits_def reverse5_rev)

lemma low_5_bits: "(c :: nat) AND 0x1F = take_bit 5 c" "take_bit 5 c < (32 :: nat)"
  using take_bit_nat_less_exp [of 5 c] by (simp_all add: take_bit_eq_mask mask_numeral)

lemma reverse_9bits_rev: "c < 512 \<Longrightarrow> reverse_9bits c = rev_bits 9 c"
proof -
  assume "c < 512"
  then have "drop_bit 4 c < 32" by (simp add: drop_bit_eq_div)
  with low_5_bits [of c] have "reverse_9bits c = push_bit 4 (rev_bits 5 (take_bit 5 c)) OR rev_bits 5 (drop_bit 4 c)"
    by (simp add: reverse_9bits_def reverse5_rev)
  also have "\<dots> = rev_bits 9 c"
  proof -
    have "bit (push_bit 4 (rev_bits 5 (take_bit 5 c)) OR rev_bits 5 (drop_bit 4 c)) k \<longleftrightarrow> bit (rev_bits 9 c) k" for k
    proof -
      consider "k < 4" | "k = 4" | "4 < k" "k < 9" | "9 \<le> k" by arith
      moreover have "k \<le> 4 \<Longrightarrow> 4 + (4 - k) = 8 - k" "4 \<le> k \<Longrightarrow> 4 - (k - 4) = 8 - k" by auto
      ultimately show ?thesis by cases (auto simp: bit_simps bit_rev_bits)
    qed
    then show ?thesis by (intro bit_eqI) blast
  qed
  finally show ?thesis .
qed

lemma reverse_15bits_rev: "c < 2 ^ 15 \<Longrightarrow> reverse_15bits c = Inr (rev_bits 15 c)"
proof -
  assume "c < 2 ^ 15"
  then have "drop_bit 10 c < 32" by (simp add: drop_bit_eq_div)
  with low_5_bits [of c] low_5_bits [of "drop_bit 5 c"]
  have "reverse_15bits c = Inr (push_bit 10 (rev_bits 5 (take_bit 5 c)) OR
      push_bit 5 (rev_bits 5 (take_bit 5 (drop_bit 5 c))) OR rev_bits 5 (drop_bit 10 c))"
    by (simp add: reverse_15bits_def reverse5_rev) (simp add: reverse5_def)
  also have "push_bit 10 (rev_bits 5 (take_bit 5 c)) OR
      push_bit 5 (rev_bits 5 (take_bit 5 (drop_bit 5 c))) OR rev_bits 5 (drop_bit 10 c) = rev_bits 15 c"
  proof -
    have "bit (push_bit 10 (rev_bits 5 (take_bit 5 c)) OR push_bit 5 (rev_bits 5 (take_bit 5 (drop_bit 5 c))) OR
        rev_bits 5 (drop_bit 10 c)) k \<longleftrightarrow> bit (rev_bits 15 c) k" for k
    proof -
      consider "k < 5" | "5 \<le> k" "k < 10" | "10 \<le> k" "k < 15" | "15 \<le> k" by arith
      moreover have "k < 5 \<Longrightarrow> 10 + (4 - k) = 14 - k" "5 \<le> k \<Longrightarrow> k < 10 \<Longrightarrow> 5 + (4 - (k - 5)) = 14 - k"
        "10 \<le> k \<Longrightarrow> k < 15 \<Longrightarrow> 4 - (k - 10) = 14 - k" by auto
      ultimately show ?thesis by cases (auto simp: bit_simps bit_rev_bits)
    qed
    then show ?thesis by (intro bit_eqI) blast
  qed
  finally show ?thesis .
qed

section \<open>The code\<close>

definition used :: "nat list \<Rightarrow> nat \<Rightarrow> bool" where
  "used lens s = (s < length lens \<and> lens ! s \<noteq> 0)"

definition code_before :: "nat list \<Rightarrow> nat \<Rightarrow> nat \<Rightarrow> bool" where
  "code_before lens t s = (lens ! t < lens ! s \<or> lens ! t = lens ! s \<and> t < s)"

definition code_space :: "nat list \<Rightarrow> (nat \<Rightarrow> bool) \<Rightarrow> nat" where
  "code_space lens P = (\<Sum>t \<leftarrow> filter (\<lambda>t. used lens t \<and> P t) [0..<length lens]. 2 ^ (MAX_BITS - lens ! t))"

definition left_code :: "nat list \<Rightarrow> nat \<Rightarrow> nat" where
  "left_code lens s = code_space lens (\<lambda>t. code_before lens t s)"

text \<open>The lengths are at most 15, and there is room for all codes.\<close>

definition lengths_ok :: "nat list \<Rightarrow> bool" where
  "lengths_ok lens = (list_all (\<lambda>l. l \<le> MAX_BITS) lens \<and> code_space lens (\<lambda>_. True) \<le> 2 ^ MAX_BITS)"

definition code_word :: "nat list \<Rightarrow> nat \<Rightarrow> bool list" where
  "code_word lens s = map (\<lambda>k. bit (left_code lens s) (MAX_BITS - 1 - k)) [0..<lens ! s]"

text \<open>The symbol \<open>s\<close> is the next one of a stream of bits.\<close>

definition next_symbol :: "nat list \<Rightarrow> nat \<Rightarrow> bool list \<Rightarrow> bool" where
  "next_symbol lens s bs = (used lens s \<and> prefix (code_word lens s) bs)"

lemma code_space_sum:
  "code_space lens P = (\<Sum>t | used lens t \<and> P t. 2 ^ (MAX_BITS - lens ! t))"
proof -
  have "{t. used lens t \<and> P t} = set (filter (\<lambda>t. used lens t \<and> P t) [0..<length lens])"
    by (auto simp: used_def)
  then show ?thesis by (simp add: code_space_def sum_list_distinct_conv_sum_set)
qed

lemma used_finite [simp]: "finite {t. used lens t \<and> P t}" "finite {t. used lens t}"
  by (rule finite_subset [of _ "{..<length lens}"], auto simp: used_def)+

lemma code_space_mono: "(\<And>t. used lens t \<Longrightarrow> P t \<Longrightarrow> Q t) \<Longrightarrow> code_space lens P \<le> code_space lens Q"
  unfolding code_space_sum by (rule sum_mono2) auto

lemma code_space_add:
  "(\<And>t. \<not> (P t \<and> Q t)) \<Longrightarrow> code_space lens (\<lambda>t. P t \<or> Q t) = code_space lens P + code_space lens Q"
proof -
  assume d: "\<And>t. \<not> (P t \<and> Q t)"
  have "{t. used lens t \<and> (P t \<or> Q t)} = {t. used lens t \<and> P t} \<union> {t. used lens t \<and> Q t}" by blast
  moreover have "{t. used lens t \<and> P t} \<inter> {t. used lens t \<and> Q t} = {}" using d by blast
  ultimately show ?thesis unfolding code_space_sum by (simp add: sum.union_disjoint)
qed

lemma code_space_one: "used lens s \<Longrightarrow> code_space lens (\<lambda>t. t = s) = 2 ^ (MAX_BITS - lens ! s)"
proof -
  assume "used lens s"
  then have "{t. used lens t \<and> t = s} = {s}" by blast
  then show ?thesis by (simp add: code_space_sum)
qed

lemma left_code_above:
  assumes "used lens s" "used lens t" "code_before lens t s"
  shows "left_code lens t + 2 ^ (MAX_BITS - lens ! t) \<le> left_code lens s"
proof -
  have "left_code lens t + 2 ^ (MAX_BITS - lens ! t) =
      code_space lens (\<lambda>u. code_before lens u t \<or> u = t)"
    unfolding left_code_def code_space_one [OF assms(2), symmetric]
    by (rule code_space_add [symmetric]) (auto simp: code_before_def)
  also have "\<dots> \<le> left_code lens s"
    unfolding left_code_def using assms(3) by (intro code_space_mono) (auto simp: code_before_def)
  finally show ?thesis .
qed

lemma lengths_okD:
  "lengths_ok lens \<Longrightarrow> used lens s \<Longrightarrow> 0 < lens ! s \<and> lens ! s \<le> MAX_BITS"
  by (auto simp: lengths_ok_def used_def list_all_length)

lemma left_code_room:
  assumes "lengths_ok lens" "used lens s"
  shows "left_code lens s + 2 ^ (MAX_BITS - lens ! s) \<le> 2 ^ MAX_BITS"
proof -
  have "left_code lens s + 2 ^ (MAX_BITS - lens ! s) = code_space lens (\<lambda>u. code_before lens u s \<or> u = s)"
    unfolding left_code_def code_space_one [OF assms(2), symmetric]
    by (rule code_space_add [symmetric]) (auto simp: code_before_def)
  also have "\<dots> \<le> code_space lens (\<lambda>_. True)" by (rule code_space_mono) simp
  finally show ?thesis using assms(1) by (simp add: lengths_ok_def)
qed

lemma code_space_dvd:
  assumes "lengths_ok lens" "\<And>t. used lens t \<Longrightarrow> P t \<Longrightarrow> lens ! t \<le> b"
  shows "2 ^ (MAX_BITS - b) dvd code_space lens P"
  unfolding code_space_sum using assms(2) by (intro dvd_sum) (auto intro!: le_imp_power_dvd diff_le_mono2)

lemma left_code_dvd: "lengths_ok lens \<Longrightarrow> 2 ^ (MAX_BITS - lens ! s) dvd left_code lens s"
  unfolding left_code_def by (rule code_space_dvd) (auto simp: code_before_def)

section \<open>Which bits begin with a code\<close>

text \<open>A code as the inflater compares it with bits of the stream, the first bit lowest.\<close>

definition stream_code :: "nat list \<Rightarrow> nat \<Rightarrow> nat" where
  "stream_code lens s = rev_bits MAX_BITS (left_code lens s)"

definition begins_with :: "nat list \<Rightarrow> nat \<Rightarrow> nat \<Rightarrow> bool" where
  "begins_with lens s x = (used lens s \<and> take_bit (lens ! s) x = stream_code lens s)"

lemma low_bits_zero: "2 ^ n dvd (c :: nat) \<Longrightarrow> k < n \<Longrightarrow> \<not> bit c k"
proof
  assume "2 ^ n dvd c" "k < n" "bit c k"
  then obtain m where "c = push_bit n m" by (auto simp: dvd_def push_bit_eq_mult mult.commute)
  with \<open>k < n\<close> \<open>bit c k\<close> show False by (simp add: bit_push_bit_iff)
qed

lemma high_bits_zero: "(c :: nat) < 2 ^ n \<Longrightarrow> n \<le> k \<Longrightarrow> \<not> bit c k"
  by (metis bit_take_bit_iff not_less take_bit_nat_eq_self)

lemma div_eq_interval: "B dvd c \<Longrightarrow> 0 < B \<Longrightarrow> (y :: nat) div B = c div B \<longleftrightarrow> c \<le> y \<and> y < c + B"
proof -
  assume "B dvd c" "0 < B"
  then obtain m where "c = m * B" by (auto simp: dvd_def mult.commute)
  moreover have "y div B = m \<longleftrightarrow> m \<le> y div B \<and> y div B < Suc m" by auto
  ultimately show ?thesis
    using \<open>0 < B\<close> by (simp add: less_eq_div_iff_mult_less_eq div_less_iff_less_mult add.commute)
qed

lemma left_code_bits:
  assumes "lengths_ok lens" "used lens s"
  shows "bit (left_code lens s) k \<Longrightarrow> MAX_BITS - lens ! s \<le> k \<and> k < MAX_BITS"
proof -
  have "0 < (2 :: nat) ^ (MAX_BITS - lens ! s)" by simp
  with left_code_room [OF assms] have "left_code lens s < 2 ^ MAX_BITS" by linarith
  then show "bit (left_code lens s) k \<Longrightarrow> MAX_BITS - lens ! s \<le> k \<and> k < MAX_BITS"
    using low_bits_zero [OF left_code_dvd [OF assms(1), of s], of k] high_bits_zero [of _ MAX_BITS k]
    by (meson not_less)
qed

lemma begins_with_bits:
  assumes "lengths_ok lens" "used lens s"
  shows "begins_with lens s x \<longleftrightarrow> (\<forall>k < lens ! s. bit x k = bit (left_code lens s) (MAX_BITS - 1 - k))"
proof -
  have l: "lens ! s \<le> MAX_BITS" using lengths_okD [OF assms] by simp
  have "bit (stream_code lens s) k \<longleftrightarrow> k < lens ! s \<and> bit (left_code lens s) (MAX_BITS - 1 - k)" for k
    using left_code_bits [OF assms, of "MAX_BITS - 1 - k"] l by (auto simp: stream_code_def bit_rev_bits)
  then show ?thesis
    using assms(2) by (auto simp: begins_with_def bit_eq_iff bit_take_bit_iff)
qed

lemma begins_with_interval:
  assumes "lengths_ok lens" "used lens s"
  shows "begins_with lens s x \<longleftrightarrow>
    left_code lens s \<le> rev_bits MAX_BITS x \<and> rev_bits MAX_BITS x < left_code lens s + 2 ^ (MAX_BITS - lens ! s)"
proof -
  let ?l = "lens ! s" and ?c = "left_code lens s" and ?y = "rev_bits MAX_BITS x"
  have l: "?l \<le> MAX_BITS" using lengths_okD [OF assms] by simp
  have "begins_with lens s x \<longleftrightarrow> drop_bit (MAX_BITS - ?l) ?y = drop_bit (MAX_BITS - ?l) ?c"
  proof
    assume b: "begins_with lens s x"
    show "drop_bit (MAX_BITS - ?l) ?y = drop_bit (MAX_BITS - ?l) ?c"
    proof (rule bit_eqI)
      fix k
      show "bit (drop_bit (MAX_BITS - ?l) ?y) k = bit (drop_bit (MAX_BITS - ?l) ?c) k"
      proof (cases "MAX_BITS - ?l + k < MAX_BITS")
        case True
        then have "MAX_BITS - 1 - (MAX_BITS - ?l + k) < ?l"
          "MAX_BITS - 1 - (MAX_BITS - 1 - (MAX_BITS - ?l + k)) = MAX_BITS - ?l + k" using l by auto
        then show ?thesis
          using b True unfolding begins_with_bits [OF assms] by (simp add: bit_drop_bit_eq bit_rev_bits)
      next
        case False
        then show ?thesis
          using left_code_bits [OF assms, of "MAX_BITS - ?l + k"] by (auto simp: bit_drop_bit_eq bit_rev_bits)
      qed
    qed
  next
    assume e: "drop_bit (MAX_BITS - ?l) ?y = drop_bit (MAX_BITS - ?l) ?c"
    show "begins_with lens s x"
      unfolding begins_with_bits [OF assms]
    proof (intro allI impI)
      fix k
      assume "k < ?l"
      then have "MAX_BITS - ?l + (?l - 1 - k) = MAX_BITS - 1 - k" "MAX_BITS - 1 - (MAX_BITS - 1 - k) = k"
        using l by auto
      moreover have "14 - k < MAX_BITS" by simp
      ultimately show "bit x k = bit ?c (MAX_BITS - 1 - k)"
        using arg_cong [OF e, of "\<lambda>z. bit z (?l - 1 - k)"] by (simp add: bit_drop_bit_eq bit_rev_bits)
    qed
  qed
  also have "\<dots> \<longleftrightarrow> ?c \<le> ?y \<and> ?y < ?c + 2 ^ (MAX_BITS - ?l)"
    unfolding drop_bit_eq_div by (rule div_eq_interval [OF left_code_dvd [OF assms(1)]]) simp
  finally show ?thesis .
qed

text \<open>The code is a prefix code.\<close>

lemma begins_with_unique:
  assumes "lengths_ok lens" "begins_with lens s x" "begins_with lens t x"
  shows "s = t"
proof -
  have u: "used lens s" "used lens t" using assms(2,3) by (auto simp: begins_with_def)
  note i = assms(2) [unfolded begins_with_interval [OF assms(1) u(1)]]
    assms(3) [unfolded begins_with_interval [OF assms(1) u(2)]]
  have "\<not> code_before lens s t" "\<not> code_before lens t s"
    using left_code_above [OF u] left_code_above [OF u(2,1)] i by linarith+
  then show ?thesis by (auto simp: code_before_def)
qed

lemma begins_with_take_bit:
  "lens ! s \<le> n \<Longrightarrow> begins_with lens s (take_bit n x) \<longleftrightarrow> begins_with lens s x"
  by (simp add: begins_with_def take_bit_take_bit min_absorb1)

lemma stream_code_begins:
  assumes "lengths_ok lens" "used lens s"
  shows "begins_with lens s (stream_code lens s)" "stream_code lens s < 2 ^ (lens ! s)"
proof -
  have l: "lens ! s \<le> MAX_BITS" using lengths_okD [OF assms] by simp
  show "begins_with lens s (stream_code lens s)"
    unfolding begins_with_bits [OF assms] stream_code_def using l by (auto simp: bit_rev_bits)
  then show "stream_code lens s < 2 ^ (lens ! s)"
    by (metis begins_with_def take_bit_nat_less_exp)
qed

lemma bit_bits_value: "bit (bits_value bs) k \<longleftrightarrow> k < length bs \<and> bs ! k"
  by (simp add: bits_value_def bit_horner_sum_bit_iff)

text \<open>A code is a prefix of a stream when the value of its first bits begins with it.\<close>

lemma next_symbol_iff:
  assumes "lengths_ok lens" "lens ! s \<le> n" "n \<le> length bs"
  shows "next_symbol lens s bs \<longleftrightarrow> begins_with lens s (bits_value (take n bs))"
proof (cases "used lens s")
  case True
  have "prefix (code_word lens s) bs \<longleftrightarrow> take (lens ! s) bs = code_word lens s"
    using assms(2,3) by (auto simp: prefix_def code_word_def) (metis append_take_drop_id)
  also have "\<dots> \<longleftrightarrow> (\<forall>k < lens ! s. bs ! k = bit (left_code lens s) (MAX_BITS - 1 - k))"
    using assms(2,3) by (auto simp: list_eq_iff_nth_eq code_word_def)
  finally show ?thesis
    using True assms unfolding next_symbol_def begins_with_bits [OF assms(1) True]
    by (auto simp: bit_bits_value)
qed (simp add: next_symbol_def begins_with_def)

end
