(* ===== verification/Huffman_Scan.thy ===== *)
theory Huffman_Scan
  imports Canonical_Code
begin

text \<open>
  The first steps of \<open>make_code_table\<close>: counting the lengths of the codes, the first code of
  each length, the choice of the bits of the main table, and the loop that fills entries.
\<close>

section \<open>Counting the lengths\<close>

definition space_below :: "nat list \<Rightarrow> nat \<Rightarrow> nat" where
  "space_below lens b = code_space lens (\<lambda>t. lens ! t < b)"

lemma count_lengths_result:
  assumes "list_all (\<lambda>l. l \<le> MAX_BITS) lens"
  obtains counts where "count_lengths lens = Inr counts" "\<And>l. l \<le> MAX_BITS \<Longrightarrow> counts ! l = count_list lens l"
proof -
  let ?body = "\<lambda>l counts. if l < length counts then set_at l (counts ! l + 1) counts else Inl Write_past_buffer"
  have "\<exists>c'. jvm_fold ?body lens c = Inr c' \<and> length c' = 16 \<and> (\<forall>l < 16. c' ! l = c ! l + count_list lens l)"
    if "length c = 16" for c :: "nat list"
    using assms that
  proof (induction lens arbitrary: c)
    case (Cons a lens)
    from Cons.IH [of "c[a := c ! a + 1]"] Cons.prems show ?case
      by (auto simp: set_at_def nth_list_update)
  qed simp
  from this [of "replicate (MAX_BITS + 1) 0"] that show ?thesis
    by (fastforce simp: count_lengths_def simp del: replicate.simps)
qed

lemma code_space_length:
  "0 < b \<Longrightarrow> code_space lens (\<lambda>t. lens ! t = b) = count_list lens b * 2 ^ (MAX_BITS - b)"
proof -
  assume b: "0 < b"
  have "{t. used lens t \<and> lens ! t = b} = {t. t < length lens \<and> lens ! t = b}" using b by (auto simp: used_def)
  moreover have "card {t. t < length lens \<and> lens ! t = b} = count_list lens b"
    unfolding count_list_eq_length_filter by (subst length_filter_conv_card) (metis (no_types))
  moreover have "(\<Sum>t | used lens t \<and> lens ! t = b. 2 ^ (MAX_BITS - lens ! t)) =
      (\<Sum>t | used lens t \<and> lens ! t = b. (2 :: nat) ^ (MAX_BITS - b))"
    by (rule sum.cong) auto
  ultimately show ?thesis unfolding code_space_sum by simp
qed

lemma space_below_Suc:
  "0 < b \<Longrightarrow> space_below lens (Suc b) = space_below lens b + count_list lens b * 2 ^ (MAX_BITS - b)"
  unfolding space_below_def code_space_length [symmetric]
  by (subst code_space_add [symmetric]) (auto simp: less_Suc_eq)

lemma space_below_1: "space_below lens 1 = 0"
  by (auto simp: space_below_def code_space_sum used_def)

definition scanned :: "nat list \<Rightarrow> nat \<Rightarrow> length_scan \<Rightarrow> bool" where
  "scanned lens m c = (length (sc_codes c) = 16 \<and> sc_code c = space_below lens (m + 1) \<and>
     (\<forall>b. 1 \<le> b \<and> b \<le> m \<longrightarrow> sc_codes c ! b = space_below lens b))"

lemma scan_code_scanned:
  assumes "scanned lens m c" "m < MAX_BITS" "\<And>l. l \<le> MAX_BITS \<Longrightarrow> counts ! l = count_list lens l"
  shows "scanned lens (Suc m) (scan_code counts (Suc m) c)"
  using assms(1,2) assms(3) [of "Suc m"] space_below_Suc [of "Suc m" lens]
  by (auto simp: scanned_def scan_code_def push_bit_eq_mult nth_list_update le_Suc_eq)

lemma scan_quick_scanned: "scanned lens m (scan_quick l b c) = scanned lens m c"
  by (simp add: scanned_def scan_quick_def Let_def)

lemma fold_scanned:
  assumes "\<And>m c. m < n \<Longrightarrow> scanned lens m c \<Longrightarrow> scanned lens (Suc m) (f (Suc m) c)"
  shows "scanned lens n (fold f [1..<n + 1] scan_start)"
  using assms
proof (induction n)
  case 0
  then show ?case using space_below_1 [of lens] by (simp add: scanned_def scan_start_def)
qed simp

lemma find_last:
  "(case find P (rev [1..<n]) of Some b \<Rightarrow> b | None \<Rightarrow> 0) < max 1 n \<and>
   (\<forall>b. 1 \<le> b \<and> b < n \<and> P b \<longrightarrow> b \<le> (case find P (rev [1..<n]) of Some b \<Rightarrow> b | None \<Rightarrow> 0))"
proof (induction n)
  case (Suc n)
  then show ?case by (cases n) (auto simp: less_Suc_eq)
qed simp

lemma max_code_len_bound:
  assumes "\<And>l. l \<le> MAX_BITS \<Longrightarrow> counts ! l = count_list lens l" "lengths_ok lens"
  shows "max_code_len counts \<le> MAX_BITS" "used lens s \<Longrightarrow> lens ! s \<le> max_code_len counts"
proof -
  note F = find_last [of "\<lambda>b. counts ! b \<noteq> 0" "MAX_BITS + 1"]
  show "max_code_len counts \<le> MAX_BITS" using F by (simp add: max_code_len_def)
  assume s: "used lens s"
  then have "counts ! (lens ! s) \<noteq> 0"
    using assms(1) [of "lens ! s"] lengths_okD [OF assms(2) s] by (auto simp: used_def count_list_0_iff)
  then show "lens ! s \<le> max_code_len counts"
    using F lengths_okD [OF assms(2) s] unfolding max_code_len_def by simp
qed

text \<open>What comes out of the counting.\<close>

lemma heuristic_bits:
  "sc_optQuickBits (fold (\<lambda>bits c. scan_quick l bits (scan_code counts bits c)) [1..<n + 1] scan_start) \<le> n"
proof (induction n)
  case (Suc n)
  then show ?case by (auto simp: scan_quick_def scan_code_def Let_def)
qed (simp add: scan_start_def)

lemma scan_counts_result:
  assumes "\<And>l. l \<le> MAX_BITS \<Longrightarrow> counts ! l = count_list lens l" "lengths_ok lens"
    "scan_counts h counts maxq = (L, codes, q)"
  shows "L = max_code_len counts" "length codes = 16"
    "\<And>b. 1 \<le> b \<Longrightarrow> b \<le> L \<Longrightarrow> codes ! b = space_below lens b" "h \<Longrightarrow> q \<le> L" "\<not> h \<Longrightarrow> q = maxq"
proof -
  note m = max_code_len_bound(1) [OF assms(1,2)]
  have "scanned lens (max_code_len counts) (scan_heuristic counts (max_code_len counts))"
    unfolding scan_heuristic_def
    by (rule fold_scanned) (use m in \<open>auto simp: scan_quick_scanned intro!: scan_code_scanned [OF _ _ assms(1)]\<close>)
  moreover have "scanned lens MAX_BITS (scan_lengths counts)"
    unfolding scan_lengths_def by (rule fold_scanned) (auto intro!: scan_code_scanned [OF _ _ assms(1)])
  moreover have "sc_optQuickBits (scan_heuristic counts (max_code_len counts)) \<le> max_code_len counts"
    unfolding scan_heuristic_def by (rule heuristic_bits)
  ultimately show "L = max_code_len counts" "length codes = 16"
    "\<And>b. 1 \<le> b \<Longrightarrow> b \<le> L \<Longrightarrow> codes ! b = space_below lens b" "h \<Longrightarrow> q \<le> L" "\<not> h \<Longrightarrow> q = maxq"
    using assms(3) m by (auto simp: scan_counts_def Let_def scanned_def split: if_splits)
qed

section \<open>Filling entries\<close>

lemma fill_entries_result:
  assumes "\<And>k. k < limit \<Longrightarrow> place k = Some (b + k)" "b + limit \<le> length es" "0 < stride"
  shows "\<exists>es'. fill_entries j stride limit place huff es = Inr es' \<and> length es' = length es \<and>
    (\<forall>i < length es. es' ! i =
       (if b \<le> i \<and> i < b + limit \<and> j \<le> i - b \<and> (i - b - j) mod stride = 0 then huff else es ! i))"
  using assms
proof (induction j stride limit place huff es rule: fill_entries.induct)
  case (1 j stride limit place huff es)
  show ?case
  proof (cases "j < limit")
    case True
    let ?es = "es[b + j := huff]"
    have set_j: "set_at (b + j) huff es = Inr ?es" using True 1(3) by (simp add: set_at_def)
    have "j < limit \<and> 0 < stride" using True 1(4) by simp
    from 1(1) [OF this 1(2) set_j] 1(2-4) True
    obtain es' where es': "fill_entries (j + stride) stride limit place huff ?es = Inr es'" "length es' = length es"
      "\<forall>i < length es. es' ! i = (if b \<le> i \<and> i < b + limit \<and> j + stride \<le> i - b \<and>
         (i - b - (j + stride)) mod stride = 0 then huff else ?es ! i)"
      by auto
    have "(j + stride \<le> n \<and> (n - (j + stride)) mod stride = 0) \<or> n = j \<longleftrightarrow> j \<le> n \<and> (n - j) mod stride = 0" for n
      using le_mod_geq [of stride "n - j"] mod_less [of "n - j" stride] by (cases "j + stride \<le> n") (auto dest: dvd_imp_le)
    note step = this
    have "es' ! i = (if b \<le> i \<and> i < b + limit \<and> j \<le> i - b \<and> (i - b - j) mod stride = 0 then huff else es ! i)"
      if "i < length es" for i
      using es'(3) that step [of "i - b"] True by (auto simp: nth_list_update)
    then show ?thesis
      using es'(1,2) True 1(2,4) set_j by (simp add: fill_entries.simps [of j])
  next
    case False
    then show ?thesis by (auto simp: fill_entries.simps [of j])
  qed
qed

lemma fill_entries_stride:
  assumes "\<And>k. k < limit \<Longrightarrow> place k = Some (b + k)" "b + limit \<le> length es" "j < 2 ^ l"
  shows "\<exists>es'. fill_entries j (push_bit l 1) limit place huff es = Inr es' \<and> length es' = length es \<and>
    (\<forall>i < length es. es' ! i =
       (if b \<le> i \<and> i < b + limit \<and> take_bit l (i - b) = j then huff else es ! i))"
proof -
  have "j \<le> n \<and> (n - j) mod 2 ^ l = 0 \<longleftrightarrow> take_bit l n = j" for n
    using assms(3) by (auto simp: take_bit_eq_mod mod_eq_dvd_iff_nat [symmetric])
  then show ?thesis
    using fill_entries_result [OF assms(1,2), where stride = "2 ^ l" and j = j and huff = huff]
    by (simp add: push_bit_eq_mult del: diff_diff_left)
qed

end
