(* ===== verification/Huffman_Correct.thy ===== *)
theory Huffman_Correct
  imports Huffman_Scan
begin

text \<open>
  The code tables that \<open>make_code_table\<close> makes: a lookup finds the symbol of the canonical
  code whose code comes next in the stream, and no other.
\<close>

section \<open>The table\<close>

definition long_prefix :: "nat list \<Rightarrow> nat \<Rightarrow> nat \<Rightarrow> nat" where
  "long_prefix lens q s = take_bit q (stream_code lens s)"

definition long_prefixes :: "nat list \<Rightarrow> nat \<Rightarrow> nat set" where
  "long_prefixes lens q = long_prefix lens q ` {s. used lens s \<and> q < lens ! s}"

definition huff_word :: "nat list \<Rightarrow> nat \<Rightarrow> 16 word" where
  "huff_word lens s = word_of_nat (push_bit 4 s + lens ! s)"

text \<open>The entry of the bits \<open>x\<close>, when the symbols \<open>P\<close> have been entered.\<close>

definition is_slot :: "nat list \<Rightarrow> (nat \<Rightarrow> bool) \<Rightarrow> nat \<Rightarrow> 16 word \<Rightarrow> bool" where
  "is_slot lens P x w =
     ((\<forall>s. P s \<and> begins_with lens s x \<longrightarrow> w = huff_word lens s) \<and>
      ((\<forall>s. P s \<longrightarrow> \<not> begins_with lens s x) \<longrightarrow> w = 0))"

lemma is_slot_new:
  assumes "lengths_ok lens" "is_slot lens P x w" "\<And>s. Q s \<longleftrightarrow> P s \<or> s = p"
  shows "is_slot lens Q x (if begins_with lens p x then huff_word lens p else w)"
  using assms(2,3) begins_with_unique [OF assms(1)] by (auto simp: is_slot_def)

lemma is_slot_old:
  assumes "is_slot lens P x w" "\<And>s. begins_with lens s x \<Longrightarrow> Q s \<longleftrightarrow> P s"
  shows "is_slot lens Q x w"
  using assms by (auto simp: is_slot_def)

text \<open>The first entry of the long table with the number \<open>i\<close>.\<close>

definition long_base :: "nat \<Rightarrow> nat \<Rightarrow> nat \<Rightarrow> nat" where
  "long_base q L i = 2 ^ q + 2 ^ (L - q) * i"

definition long_pointer :: "nat \<Rightarrow> nat \<Rightarrow> nat \<Rightarrow> 16 word" where
  "long_pointer q L i = HUFFINFO_LONG_MASK OR word_of_nat (entry_delta (long_base q L i))"

text \<open>The table when the symbols below \<open>p\<close> have been entered; \<open>prefs\<close> are the prefixes
  of the long codes that have a long table, in the order in which they got it.\<close>

definition codes_inv :: "nat list \<Rightarrow> nat \<Rightarrow> nat \<Rightarrow> nat list \<Rightarrow> bool" where
  "codes_inv lens L p codes =
     (length codes = 16 \<and> (\<forall>b. 1 \<le> b \<and> b \<le> L \<longrightarrow>
        codes ! b = code_space lens (\<lambda>t. lens ! t < b \<or> lens ! t = b \<and> t < p)))"

definition entries_inv :: "nat list \<Rightarrow> nat \<Rightarrow> nat \<Rightarrow> nat \<Rightarrow> nat list \<Rightarrow> nat \<Rightarrow> 16 word list \<Rightarrow> bool" where
  "entries_inv lens q L N prefs p es =
     (length es = N \<and> distinct prefs \<and>
      set prefs = long_prefix lens q ` {s. s < p \<and> used lens s \<and> q < lens ! s} \<and>
      (\<forall>j. j < 2 ^ q \<and> j \<notin> set prefs \<longrightarrow> is_slot lens (\<lambda>s. s < p \<and> lens ! s \<le> q) j (es ! j)) \<and>
      (\<forall>i < length prefs. es ! (prefs ! i) = long_pointer q L i \<and>
         (\<forall>m < 2 ^ (L - q). is_slot lens (\<lambda>s. s < p \<and> q < lens ! s) (prefs ! i + 2 ^ q * m)
            (es ! (long_base q L i + m)))) \<and>
      (\<forall>i. long_base q L (length prefs) \<le> i \<and> i < N \<longrightarrow> es ! i = 0))"

definition table_inv :: "nat list \<Rightarrow> nat \<Rightarrow> nat \<Rightarrow> nat \<Rightarrow> nat list \<Rightarrow> nat \<Rightarrow> table_state \<Rightarrow> bool" where
  "table_inv lens q L N prefs p t =
     (codes_inv lens L p (ts_codes t) \<and> entries_inv lens q L N prefs p (ts_entries t) \<and>
      ts_next t = long_base q L (length prefs))"

text \<open>The lengths of the tables are right, and offsets fit the fifteen bits of a pointer.\<close>

definition table_room :: "nat list \<Rightarrow> nat \<Rightarrow> nat \<Rightarrow> nat \<Rightarrow> bool" where
  "table_room lens q L N =
     (q \<le> L \<and> L \<le> MAX_BITS \<and> (\<forall>s. used lens s \<longrightarrow> lens ! s \<le> L) \<and>
      long_base q L (card (long_prefixes lens q)) \<le> N \<and>
      (\<forall>i < card (long_prefixes lens q). entry_delta (long_base q L i) < 2 ^ 15))"

lemma long_prefixes_finite: "finite (long_prefixes lens q)"
  unfolding long_prefixes_def by (rule finite_imageI) simp

lemma codes_inv_step:
  assumes "codes_inv lens L p codes" "used lens p" "lens ! p \<le> L" "L \<le> MAX_BITS"
  shows "codes ! (lens ! p) = left_code lens p"
    "codes_inv lens L (Suc p) (codes[lens ! p := codes ! (lens ! p) + push_bit (MAX_BITS - lens ! p) 1])"
proof -
  have b: "1 \<le> lens ! p" using assms(2) by (simp add: used_def)
  with assms(1,3) show c: "codes ! (lens ! p) = left_code lens p"
    by (auto simp: codes_inv_def left_code_def code_before_def)
  have new: "left_code lens p + 2 ^ (MAX_BITS - lens ! p) =
      code_space lens (\<lambda>t. lens ! t < lens ! p \<or> lens ! t = lens ! p \<and> t < Suc p)"
  proof -
    have "left_code lens p + 2 ^ (MAX_BITS - lens ! p) = code_space lens (\<lambda>t. code_before lens t p \<or> t = p)"
      unfolding left_code_def code_space_one [OF assms(2), symmetric]
      by (rule code_space_add [symmetric]) (auto simp: code_before_def)
    also have "\<dots> = code_space lens (\<lambda>t. lens ! t < lens ! p \<or> lens ! t = lens ! p \<and> t < Suc p)"
      by (rule arg_cong [of _ _ "code_space lens"]) (auto simp: code_before_def less_Suc_eq)
    finally show ?thesis .
  qed
  have other: "code_space lens (\<lambda>t. lens ! t < b \<or> lens ! t = b \<and> t < p) =
      code_space lens (\<lambda>t. lens ! t < b \<or> lens ! t = b \<and> t < Suc p)" if "b \<noteq> lens ! p" for b
    by (rule arg_cong [of _ _ "code_space lens"]) (use that in \<open>auto simp: less_Suc_eq\<close>)
  show "codes_inv lens L (Suc p) (codes[lens ! p := codes ! (lens ! p) + push_bit (MAX_BITS - lens ! p) 1])"
    unfolding c codes_inv_def
  proof (intro conjI allI impI)
    fix b
    assume "1 \<le> b \<and> b \<le> L"
    then show "codes[lens ! p := left_code lens p + push_bit (MAX_BITS - lens ! p) 1] ! b =
        code_space lens (\<lambda>t. lens ! t < b \<or> lens ! t = b \<and> t < Suc p)"
      using assms new other [of b] by (cases "b = lens ! p") (simp_all add: codes_inv_def push_bit_eq_mult)
  qed (use assms(1) in \<open>simp add: codes_inv_def\<close>)
qed

lemma codes_inv_skip:
  assumes "codes_inv lens L p codes" "\<not> used lens p"
  shows "codes_inv lens L (Suc p) codes"
proof -
  have "code_space lens (\<lambda>t. lens ! t < b \<or> lens ! t = b \<and> t < p) =
      code_space lens (\<lambda>t. lens ! t < b \<or> lens ! t = b \<and> t < Suc p)" for b
    using assms(2) unfolding code_space_sum by (intro sum.cong) (auto simp: less_Suc_eq)
  with assms(1) show ?thesis by (simp add: codes_inv_def)
qed

lemma short_apart:
  assumes "lengths_ok lens" "begins_with lens s j" "lens ! s \<le> q" "used lens t" "q < lens ! t"
  shows "j \<noteq> long_prefix lens q t"
proof
  assume "j = long_prefix lens q t"
  then have "begins_with lens s (stream_code lens t)"
    using assms(2,3) begins_with_take_bit [of lens s q "stream_code lens t"] by (simp add: long_prefix_def)
  with begins_with_unique [OF assms(1) this stream_code_begins(1) [OF assms(1,4)]] assms(3,5) show False by simp
qed

lemma long_base_less: "i < n \<Longrightarrow> m < 2 ^ (L - q) \<Longrightarrow> long_base q L i + m < long_base q L n"
proof -
  assume "i < n" "m < 2 ^ (L - q)"
  then have "2 ^ (L - q) * Suc i \<le> 2 ^ (L - q) * n" by (intro mult_le_mono2) simp
  with \<open>m < 2 ^ (L - q)\<close> show ?thesis by (simp add: long_base_def)
qed

lemma long_base_main: "2 ^ q \<le> long_base q L i"
  by (simp add: long_base_def)

lemma long_base_mono: "i \<le> n \<Longrightarrow> long_base q L i \<le> long_base q L n"
  by (simp add: long_base_def)

lemma entries_inv_skip:
  assumes "entries_inv lens q L N prefs p es" "\<not> used lens p"
  shows "entries_inv lens q L N prefs (Suc p) es"
proof -
  have "{s. s < p \<and> used lens s \<and> q < lens ! s} = {s. s < Suc p \<and> used lens s \<and> q < lens ! s}"
    using assms(2) by (auto simp: less_Suc_eq)
  moreover have "is_slot lens (\<lambda>s. s < p \<and> R s) x w \<Longrightarrow> is_slot lens (\<lambda>s. s < Suc p \<and> R s) x w" for R x w
    by (erule is_slot_old) (use assms(2) in \<open>auto simp: begins_with_def less_Suc_eq\<close>)
  ultimately show ?thesis using assms(1) by (simp add: entries_inv_def)
qed

lemma prefs_below:
  assumes "entries_inv lens q L N prefs p es"
  shows "x \<in> set prefs \<Longrightarrow> x < 2 ^ q" "length prefs \<le> card (long_prefixes lens q)"
proof -
  show "x \<in> set prefs \<Longrightarrow> x < 2 ^ q" using assms by (auto simp: entries_inv_def long_prefix_def)
  have "length prefs = card (set prefs)" using assms distinct_card by (fastforce simp: entries_inv_def)
  also have "\<dots> \<le> card (long_prefixes lens q)"
    using assms by (intro card_mono [OF long_prefixes_finite]) (auto simp: entries_inv_def long_prefixes_def)
  finally show "length prefs \<le> card (long_prefixes lens q)" .
qed

lemma enter_short:
  assumes "lengths_ok lens" "table_room lens q L N" "entries_inv lens q L N prefs p es" "used lens p" "lens ! p \<le> q"
  shows "\<exists>es'. fill_entries (stream_code lens p) (push_bit (lens ! p) 1) (2 ^ q) Some (huff_word lens p) es = Inr es' \<and>
    entries_inv lens q L N prefs (Suc p) es'"
proof -
  have N: "2 ^ q \<le> N" using assms(2) long_base_main le_trans unfolding table_room_def by blast
  from assms(3) have es: "length es = N" by (simp add: entries_inv_def)
  have "\<And>k :: nat. k < 2 ^ q \<Longrightarrow> Some k = Some (0 + k)" "0 + 2 ^ q \<le> length es" using N es by simp_all
  from fill_entries_stride [OF this stream_code_begins(2) [OF assms(1,4)], of "huff_word lens p"] es
  obtain es' where es': "fill_entries (stream_code lens p) (push_bit (lens ! p) 1) (2 ^ q) Some (huff_word lens p) es = Inr es'"
    "length es' = N" "\<And>i. i < N \<Longrightarrow> es' ! i = (if i < 2 ^ q \<and> begins_with lens p i then huff_word lens p else es ! i)"
    using assms(4) by (auto simp: begins_with_def)
  note I = assms(3) [unfolded entries_inv_def]
  have pos: "{s. s < Suc p \<and> used lens s \<and> q < lens ! s} = {s. s < p \<and> used lens s \<and> q < lens ! s}"
    using assms(5) by (auto simp: less_Suc_eq)
  have apart: "\<not> begins_with lens p j" if "j \<in> set prefs" for j
    using short_apart [OF assms(1) _ assms(5)] that I by blast
  have "is_slot lens (\<lambda>s. s < Suc p \<and> lens ! s \<le> q) j (es' ! j)" if "j < 2 ^ q" "j \<notin> set prefs" for j
  proof -
    have this': "is_slot lens (\<lambda>s. s < p \<and> lens ! s \<le> q) j (es ! j)" using I that by blast
    have "is_slot lens (\<lambda>s. s < Suc p \<and> lens ! s \<le> q) j (if begins_with lens p j then huff_word lens p else es ! j)"
      by (rule is_slot_new [OF assms(1) this']) (use assms(5) in \<open>auto simp: less_Suc_eq\<close>)
    then show ?thesis using es'(3) [of j] that N by simp
  qed
  moreover have "es' ! (prefs ! i) = long_pointer q L i" if "i < length prefs" for i
  proof -
    have pr: "prefs ! i \<in> set prefs" using that by simp
    from prefs_below(1) [OF assms(3) pr] es'(3) [of "prefs ! i"] apart [OF pr] N
    have "es' ! (prefs ! i) = es ! (prefs ! i)" by simp
    then show ?thesis using I that by simp
  qed
  moreover have "is_slot lens (\<lambda>s. s < Suc p \<and> q < lens ! s) (prefs ! i + 2 ^ q * m) (es' ! (long_base q L i + m))"
    if "i < length prefs" "m < 2 ^ (L - q)" for i m
  proof -
    have "long_base q L i + m < N"
      using long_base_less [OF that] prefs_below(2) [OF assms(3)] assms(2)
        long_base_mono [of "length prefs" "card (long_prefixes lens q)" q L]
      unfolding table_room_def by linarith
    with es'(3) [of "long_base q L i + m"] long_base_main [of q L i]
    have "es' ! (long_base q L i + m) = es ! (long_base q L i + m)" by simp
    moreover have "is_slot lens (\<lambda>s. s < p \<and> q < lens ! s) (prefs ! i + 2 ^ q * m) (es ! (long_base q L i + m))"
      using I that by blast
    then have "is_slot lens (\<lambda>s. s < Suc p \<and> q < lens ! s) (prefs ! i + 2 ^ q * m) (es ! (long_base q L i + m))"
      by (rule is_slot_old) (use assms(5) in \<open>auto simp: less_Suc_eq\<close>)
    ultimately show ?thesis by simp
  qed
  moreover have "es' ! i = 0" if "long_base q L (length prefs) \<le> i" "i < N" for i
    using I es'(3) [of i] that long_base_main [of q L "length prefs"] by auto
  ultimately show ?thesis using es'(1,2) I by (auto simp: entries_inv_def pos)
qed
lemma long_slot:
  assumes "used lens p" "q < lens ! p" "pr < 2 ^ q"
  shows "begins_with lens p (pr + 2 ^ q * m) \<longleftrightarrow>
    pr = long_prefix lens q p \<and> take_bit (lens ! p - q) m = drop_bit q (stream_code lens p)"
proof -
  let ?l = "lens ! p" and ?c = "stream_code lens p"
  have "(2 :: nat) ^ ?l = 2 ^ q * 2 ^ (?l - q)" using assms(2) by (simp flip: power_add)
  then have t: "take_bit ?l (pr + 2 ^ q * m) = 2 ^ q * take_bit (?l - q) m + pr"
    using assms(3) by (simp add: take_bit_eq_mod mod_mult2_eq)
  have c: "?c = 2 ^ q * drop_bit q ?c + long_prefix lens q p"
    unfolding long_prefix_def by (metis bits_ident push_bit_eq_mult mult.commute)
  have "2 ^ q * a + b = 2 ^ q * a' + b' \<longleftrightarrow> a = a' \<and> b = b'" if "b < 2 ^ q" "b' < 2 ^ q" for a a' b b' :: nat
    using that by (metis add_left_imp_eq add.commute div_mult_self4 div_less plus_nat.add_0 mult.commute
        power_not_zero zero_neq_numeral)
  from this [OF assms(3), of "long_prefix lens q p"] c t show ?thesis
    using assms(1) unfolding begins_with_def by (metis long_prefix_def take_bit_nat_less_exp)
qed

lemma suffix_less: "lengths_ok lens \<Longrightarrow> used lens p \<Longrightarrow> q < lens ! p \<Longrightarrow> drop_bit q (stream_code lens p) < 2 ^ (lens ! p - q)"
proof -
  assume a: "lengths_ok lens" "used lens p" "q < lens ! p"
  then have "(2 :: nat) ^ (lens ! p) = 2 ^ (lens ! p - q) * 2 ^ q" by (simp flip: power_add)
  with stream_code_begins(2) [OF a(1,2)] show ?thesis
    by (simp add: drop_bit_eq_div div_less_iff_less_mult)
qed

lemma long_mask_bit: "bit HUFFINFO_LONG_MASK n \<longleftrightarrow> n = 15"
proof -
  have "HUFFINFO_LONG_MASK = push_bit 15 1" by (simp add: HUFFINFO_LONG_MASK_def push_bit_eq_mult)
  then have "bit HUFFINFO_LONG_MASK n \<longleftrightarrow> bit (push_bit 15 (1 :: 16 word)) n" by (rule arg_cong)
  also have "\<dots> \<longleftrightarrow> n = 15" unfolding bit_push_bit_iff bit_1_iff possible_bit_word by auto
  finally show ?thesis .
qed

lemma pointer_offset:
  assumes "entry_delta b < 2 ^ 15"
  shows "HUFFINFO_LONG_MASK OR word_of_nat (entry_delta b) \<noteq> 0"
    "(HUFFINFO_LONG_MASK OR word_of_nat (entry_delta b)) AND HUFFINFO_LONG_MASK \<noteq> 0"
    "unat ((HUFFINFO_LONG_MASK OR word_of_nat (entry_delta b)) AND NOT HUFFINFO_LONG_MASK) = entry_delta b"
    "entry_at (entry_delta b) j = Some (b + j)"
proof -
  note m = long_mask_bit
  have d: "take_bit 15 (entry_delta b) = entry_delta b" using assms by (simp add: take_bit_nat_eq_self)
  let ?w = "HUFFINFO_LONG_MASK OR word_of_nat (entry_delta b)"
  have "bit ?w 15" by (simp add: bit_simps m)
  then show "?w \<noteq> 0" by auto
  have "bit (?w AND HUFFINFO_LONG_MASK) 15" by (simp add: bit_simps m)
  then show "?w AND HUFFINFO_LONG_MASK \<noteq> 0" by auto
  have "?w AND NOT HUFFINFO_LONG_MASK = word_of_nat (entry_delta b)"
  proof (rule bit_word_eqI)
    fix n
    have "bit (entry_delta b) n \<Longrightarrow> n < 15" using d by (metis bit_take_bit_iff)
    then show "bit (?w AND NOT HUFFINFO_LONG_MASK) n = bit (word_of_nat (entry_delta b) :: 16 word) n"
      by (auto simp: bit_simps m)
  qed
  then show "unat (?w AND NOT HUFFINFO_LONG_MASK) = entry_delta b"
    using assms by (simp add: unat_of_nat take_bit_nat_eq_self)
  show "entry_at (entry_delta b) j = Some (b + j)" by (simp add: entry_at_def entry_delta_def)
qed

text \<open>The first long code with its prefix gets a long table.\<close>

lemma enter_long_new:
  assumes "lengths_ok lens" "table_room lens q L N" "entries_inv lens q L N prefs p es" "used lens p" "q < lens ! p"
    "long_prefix lens q p \<notin> set prefs"
  shows "es ! long_prefix lens q p = 0"
    "\<exists>es'. fill_entries (drop_bit q (stream_code lens p)) (push_bit (lens ! p - q) 1) (2 ^ (L - q))
        (\<lambda>j. Some (long_base q L (length prefs) + j)) (huff_word lens p)
        (es[long_prefix lens q p := long_pointer q L (length prefs)]) = Inr es' \<and>
      entries_inv lens q L N (prefs @ [long_prefix lens q p]) (Suc p) es'"
proof -
  let ?P = "long_prefix lens q p" and ?n = "length prefs" and ?es = "es[long_prefix lens q p := long_pointer q L (length prefs)]"
  note I = assms(3) [unfolded entries_inv_def]
  have P: "?P < 2 ^ q" by (simp add: long_prefix_def)
  have "is_slot lens (\<lambda>s. s < p \<and> lens ! s \<le> q) ?P (es ! ?P)" using I P assms(6) by blast
  then show "es ! ?P = 0"
    using short_apart [OF assms(1) _ _ assms(4,5)] by (auto simp: is_slot_def)
  have "card (set prefs) = ?n" using I distinct_card by blast
  then have "Suc ?n = card (insert ?P (set prefs))" using assms(6) by simp
  also have "\<dots> \<le> card (long_prefixes lens q)"
    using I assms(4,5) by (intro card_mono [OF long_prefixes_finite]) (auto simp: long_prefixes_def)
  finally have n: "long_base q L (Suc ?n) \<le> N"
    using assms(2) long_base_mono le_trans unfolding table_room_def by blast
  have next_base: "long_base q L (Suc ?n) = long_base q L ?n + 2 ^ (L - q)" by (simp add: long_base_def)
  have es: "length ?es = N" using I by simp
  have "long_base q L ?n + 2 ^ (L - q) \<le> length ?es" using n next_base es by simp
  from fill_entries_stride [OF refl this suffix_less [OF assms(1,4,5)], of "huff_word lens p"] es
  obtain es' where es': "fill_entries (drop_bit q (stream_code lens p)) (push_bit (lens ! p - q) 1) (2 ^ (L - q))
        (\<lambda>j. Some (long_base q L ?n + j)) (huff_word lens p) ?es = Inr es'" "length es' = N"
    "\<And>i. i < N \<Longrightarrow> es' ! i = (if long_base q L ?n \<le> i \<and> i < long_base q L (Suc ?n) \<and>
       take_bit (lens ! p - q) (i - long_base q L ?n) = drop_bit q (stream_code lens p)
       then huff_word lens p else ?es ! i)"
    unfolding next_base by auto
  have below: "es' ! i = ?es ! i" if "i < long_base q L ?n" for i
    using es'(3) [of i] that n next_base by simp
  have main: "es' ! j = (if j = ?P then long_pointer q L ?n else es ! j)" if "j < 2 ^ q" for j
  proof -
    have "j < long_base q L ?n" "j < length es" using that long_base_main [of q L ?n] n next_base I by simp_all
    then show ?thesis using below [of j] by (simp add: nth_list_update)
  qed
  have "entries_inv lens q L N (prefs @ [?P]) (Suc p) es'"
    unfolding entries_inv_def
  proof (intro conjI allI impI)
    show "length es' = N" by (rule es'(2))
    show "distinct (prefs @ [?P])" using I assms(6) by simp
    show "set (prefs @ [?P]) = long_prefix lens q ` {s. s < Suc p \<and> used lens s \<and> q < lens ! s}"
      using I assms(4,5) by (auto simp: less_Suc_eq)
    fix j
    assume j: "j < 2 ^ q \<and> j \<notin> set (prefs @ [?P])"
    then have "is_slot lens (\<lambda>s. s < p \<and> lens ! s \<le> q) j (es ! j)" using I by simp
    then have "is_slot lens (\<lambda>s. s < Suc p \<and> lens ! s \<le> q) j (es ! j)"
      by (rule is_slot_old) (use assms(5) in \<open>auto simp: less_Suc_eq\<close>)
    then show "is_slot lens (\<lambda>s. s < Suc p \<and> lens ! s \<le> q) j (es' ! j)" using main [of j] j by simp
  next
    fix i
    assume i: "i < length (prefs @ [?P])"
    show "es' ! ((prefs @ [?P]) ! i) = long_pointer q L i"
    proof (cases "i < ?n")
      case True
      then have pr: "prefs ! i \<in> set prefs" by simp
      with assms(6) have "prefs ! i \<noteq> ?P" by metis
      with main [of "prefs ! i"] prefs_below(1) [OF assms(3) pr] have "es' ! (prefs ! i) = es ! (prefs ! i)" by simp
      then show ?thesis using I True by (simp add: nth_append)
    next
      case False
      with i have "i = ?n" by simp
      then show ?thesis using main [OF P] by simp
    qed
    fix m :: nat
    assume m: "m < 2 ^ (L - q)"
    show "is_slot lens (\<lambda>s. s < Suc p \<and> q < lens ! s) ((prefs @ [?P]) ! i + 2 ^ q * m) (es' ! (long_base q L i + m))"
    proof (cases "i < ?n")
      case True
      then have in_prefs: "prefs ! i \<in> set prefs" by simp
      with assms(6) prefs_below(1) [OF assms(3) in_prefs] have pr: "prefs ! i \<noteq> ?P" "prefs ! i < 2 ^ q" by metis+
      have "is_slot lens (\<lambda>s. s < p \<and> q < lens ! s) (prefs ! i + 2 ^ q * m) (es ! (long_base q L i + m))"
        using I True m by blast
      then have "is_slot lens (\<lambda>s. s < Suc p \<and> q < lens ! s) (prefs ! i + 2 ^ q * m) (es ! (long_base q L i + m))"
        by (rule is_slot_old) (use pr long_slot [OF assms(4,5) pr(2)] in \<open>auto simp: less_Suc_eq\<close>)
      moreover have "es' ! (long_base q L i + m) = es ! (long_base q L i + m)"
        using below [OF long_base_less [OF True m]] P long_base_main [of q L i] by simp
      ultimately show ?thesis using True by (simp add: nth_append)
    next
      case False
      with i have i': "i = ?n" by simp
      have lt: "long_base q L ?n + m < long_base q L (Suc ?n)" using m by (simp add: next_base)
      have "es' ! (long_base q L ?n + m) = (if begins_with lens p (?P + 2 ^ q * m) then huff_word lens p else ?es ! (long_base q L ?n + m))"
        using es'(3) [of "long_base q L ?n + m"] lt n long_slot [OF assms(4,5) P, of m] by simp
      moreover have "?es ! (long_base q L ?n + m) = 0"
        using I lt n P long_base_main [of q L ?n] by simp
      moreover have "is_slot lens (\<lambda>s. s < p \<and> q < lens ! s) (?P + 2 ^ q * m) 0"
        using assms(6) I long_slot [OF _ _ P] by (auto simp: is_slot_def begins_with_def)
      then have "is_slot lens (\<lambda>s. s < Suc p \<and> q < lens ! s) (?P + 2 ^ q * m)
          (if begins_with lens p (?P + 2 ^ q * m) then huff_word lens p else 0)"
        by (rule is_slot_new [OF assms(1)]) (use assms(5) in \<open>auto simp: less_Suc_eq\<close>)
      ultimately show ?thesis by (auto simp: i' split: if_splits)
    qed
  next
    fix i
    assume i: "long_base q L (length (prefs @ [?P])) \<le> i \<and> i < N"
    then have "long_base q L ?n \<le> i" "2 ^ q \<le> i" using next_base long_base_main [of q L ?n] by simp_all
    then show "es' ! i = 0" using es'(3) [of i] i I P by simp
  qed
  with es'(1) show "\<exists>es'. fill_entries (drop_bit q (stream_code lens p)) (push_bit (lens ! p - q) 1) (2 ^ (L - q))
        (\<lambda>j. Some (long_base q L ?n + j)) (huff_word lens p) ?es = Inr es' \<and>
      entries_inv lens q L N (prefs @ [?P]) (Suc p) es'" by blast
qed
text \<open>A further long code with the same prefix goes into the long table that is there.\<close>

lemma enter_long_old:
  assumes "lengths_ok lens" "table_room lens q L N" "entries_inv lens q L N prefs p es" "used lens p" "q < lens ! p"
    "k < length prefs" "prefs ! k = long_prefix lens q p"
  shows "\<exists>es'. fill_entries (drop_bit q (stream_code lens p)) (push_bit (lens ! p - q) 1) (2 ^ (L - q))
        (\<lambda>j. Some (long_base q L k + j)) (huff_word lens p) es = Inr es' \<and>
      entries_inv lens q L N prefs (Suc p) es'"
proof -
  let ?P = "long_prefix lens q p" and ?n = "length prefs"
  note I = assms(3) [unfolded entries_inv_def]
  have P: "?P < 2 ^ q" by (simp add: long_prefix_def)
  have n: "long_base q L ?n \<le> N"
    using assms(2) long_base_mono [OF prefs_below(2) [OF assms(3)]] le_trans unfolding table_room_def by blast
  have next_base: "long_base q L (Suc k) = long_base q L k + 2 ^ (L - q)" by (simp add: long_base_def)
  have kn: "long_base q L (Suc k) \<le> long_base q L ?n" using assms(6) by (intro long_base_mono) simp
  have es: "length es = N" using I by simp
  have "long_base q L k + 2 ^ (L - q) \<le> length es" using n kn next_base es by simp
  from fill_entries_stride [OF refl this suffix_less [OF assms(1,4,5)], of "huff_word lens p"] es
  obtain es' where es': "fill_entries (drop_bit q (stream_code lens p)) (push_bit (lens ! p - q) 1) (2 ^ (L - q))
        (\<lambda>j. Some (long_base q L k + j)) (huff_word lens p) es = Inr es'" "length es' = N"
    "\<And>i. i < N \<Longrightarrow> es' ! i = (if long_base q L k \<le> i \<and> i < long_base q L (Suc k) \<and>
       take_bit (lens ! p - q) (i - long_base q L k) = drop_bit q (stream_code lens p)
       then huff_word lens p else es ! i)"
    unfolding next_base by auto
  have main: "es' ! j = es ! j" if "j < 2 ^ q" for j
    using es'(3) [of j] that long_base_main [of q L k] long_base_main [of q L ?n] n by simp
  have "entries_inv lens q L N prefs (Suc p) es'"
    unfolding entries_inv_def
  proof (intro conjI allI impI)
    show "length es' = N" by (rule es'(2))
    show "distinct prefs" using I by simp
    have "?P \<in> set prefs" using assms(6,7) nth_mem by metis
    then show "set prefs = long_prefix lens q ` {s. s < Suc p \<and> used lens s \<and> q < lens ! s}"
      using I assms(4,5) by (auto simp: less_Suc_eq)
    fix j
    assume j: "j < 2 ^ q \<and> j \<notin> set prefs"
    then have "is_slot lens (\<lambda>s. s < p \<and> lens ! s \<le> q) j (es ! j)" using I by simp
    then have "is_slot lens (\<lambda>s. s < Suc p \<and> lens ! s \<le> q) j (es ! j)"
      by (rule is_slot_old) (use assms(5) in \<open>auto simp: less_Suc_eq\<close>)
    then show "is_slot lens (\<lambda>s. s < Suc p \<and> lens ! s \<le> q) j (es' ! j)" using main [of j] j by simp
  next
    fix i
    assume i: "i < ?n"
    then have in_prefs: "prefs ! i \<in> set prefs" by simp
    note pr = prefs_below(1) [OF assms(3) in_prefs]
    show "es' ! (prefs ! i) = long_pointer q L i" using main [OF pr] I i by simp
    fix m :: nat
    assume m: "m < 2 ^ (L - q)"
    have lt: "long_base q L i + m < long_base q L (Suc i)" "long_base q L i + m < N"
      using long_base_less [OF i m] n long_base_less [of i "Suc i" m L q] m by simp_all
    have slot: "is_slot lens (\<lambda>s. s < p \<and> q < lens ! s) (prefs ! i + 2 ^ q * m) (es ! (long_base q L i + m))"
      using I i m by blast
    have "prefs ! i = ?P \<longleftrightarrow> i = k" using I i assms(6,7) by (metis nth_eq_iff_index_eq)
    then have "begins_with lens p (prefs ! i + 2 ^ q * m) \<longleftrightarrow>
        i = k \<and> take_bit (lens ! p - q) m = drop_bit q (stream_code lens p)"
      using long_slot [OF assms(4,5) pr, of m] by simp
    moreover have "i = k" if "long_base q L k \<le> long_base q L i + m" "long_base q L i + m < long_base q L (Suc k)"
    proof (rule ccontr)
      assume "i \<noteq> k"
      then have "Suc i \<le> k \<or> Suc k \<le> i" by arith
      then have "long_base q L (Suc i) \<le> long_base q L k \<or> long_base q L (Suc k) \<le> long_base q L i"
        using long_base_mono by blast
      with that lt(1) show False by linarith
    qed
    ultimately have "es' ! (long_base q L i + m) =
        (if begins_with lens p (prefs ! i + 2 ^ q * m) then huff_word lens p else es ! (long_base q L i + m))"
      using es'(3) [OF lt(2)] lt(1) by auto
    moreover have "is_slot lens (\<lambda>s. s < Suc p \<and> q < lens ! s) (prefs ! i + 2 ^ q * m)
        (if begins_with lens p (prefs ! i + 2 ^ q * m) then huff_word lens p else es ! (long_base q L i + m))"
      by (rule is_slot_new [OF assms(1) slot]) (use assms(5) in \<open>auto simp: less_Suc_eq\<close>)
    ultimately show "is_slot lens (\<lambda>s. s < Suc p \<and> q < lens ! s) (prefs ! i + 2 ^ q * m) (es' ! (long_base q L i + m))"
      by simp
  next
    fix i
    assume "long_base q L ?n \<le> i \<and> i < N"
    then show "es' ! i = 0" using es'(3) [of i] kn I by simp
  qed
  with es'(1) show ?thesis by blast
qed

lemma mask_take_bit: "(c :: nat) AND (push_bit q 1 - 1) = take_bit q c"
  by (simp add: take_bit_eq_mask mask_eq_exp_minus_1 push_bit_eq_mult)

lemma enter_long_eq:
  "enter_long q longLen l (stream_code lens p) huff t =
     (if long_prefix lens q p \<ge> length (ts_entries t) then Inl Read_past_buffer
      else if ts_entries t ! long_prefix lens q p = 0 then
        jvm_check (fill_entries (drop_bit q (stream_code lens p)) (push_bit (l - q) 1) longLen
            (\<lambda>j. Some (ts_next t + j)) huff ((ts_entries t)[long_prefix lens q p :=
              HUFFINFO_LONG_MASK OR word_of_nat (entry_delta (ts_next t))]))
          (\<lambda>es. Inr (t\<lparr>ts_entries := es, ts_next := ts_next t + longLen\<rparr>))
      else
        jvm_check (fill_entries (drop_bit q (stream_code lens p)) (push_bit (l - q) 1) longLen
            (entry_at (unat (ts_entries t ! long_prefix lens q p AND NOT HUFFINFO_LONG_MASK))) huff (ts_entries t))
          (\<lambda>es. Inr (t\<lparr>ts_entries := es\<rparr>)))"
  unfolding enter_long_def Let_def mask_take_bit long_prefix_def by (rule refl)

lemma enter_symbol_inv:
  assumes "lengths_ok lens" "table_room lens q L N" "table_inv lens q L N prefs p t" "p < length lens"
    "q < L \<longrightarrow> longLen = 2 ^ (L - q)"
  shows "\<exists>t' prefs'. enter_symbol q (push_bit q 1) longLen p (lens ! p) t = Inr t' \<and>
    table_inv lens q L N prefs' (Suc p) t'"
proof (cases "used lens p")
  case False
  with assms(4) have "lens ! p = 0" by (simp add: used_def)
  then show ?thesis
    using assms(3) False codes_inv_skip entries_inv_skip by (auto simp: enter_symbol_def table_inv_def intro!: exI [of _ prefs])
next
  case True
  let ?l = "lens ! p"
  have l: "0 < ?l" "?l \<le> L" "L \<le> MAX_BITS" using True assms(2) by (auto simp: used_def table_room_def)
  note T = assms(3) [unfolded table_inv_def]
  note C = codes_inv_step [OF T [THEN conjunct1] True l(2,3)]
  have E: "entries_inv lens q L N prefs p (ts_entries t)" using T by blast
  let ?t = "t\<lparr>ts_codes := (ts_codes t)[?l := ts_codes t ! ?l + push_bit (MAX_BITS - ?l) 1]\<rparr>"
  have "0 < (2 :: nat) ^ (MAX_BITS - ?l)" by simp
  with left_code_room [OF assms(1) True] have "left_code lens p < 2 ^ MAX_BITS" by linarith
  then have rev: "reverse_15bits (ts_codes t ! ?l) = Inr (stream_code lens p)"
    by (simp add: C(1) reverse_15bits_rev stream_code_def)
  have step: "enter_symbol q (push_bit q 1) longLen p ?l t =
      (if ?l \<le> q then jvm_check (fill_entries (stream_code lens p) (push_bit ?l 1) (push_bit q 1) Some (huff_word lens p)
          (ts_entries t)) (\<lambda>es. Inr (?t\<lparr>ts_entries := es\<rparr>))
       else enter_long q longLen ?l (stream_code lens p) (huff_word lens p) ?t)"
    using l(1) rev by (simp add: enter_symbol_def huff_word_def Let_def)
  show ?thesis
  proof (cases "?l \<le> q")
    case True
    from enter_short [OF assms(1,2) E \<open>used lens p\<close> True] T C(2) True show ?thesis
      unfolding step by (auto simp: table_inv_def push_bit_eq_mult intro!: exI [of _ prefs])
  next
    case False
    then have q: "q < ?l" by simp
    with l assms(5) have longLen: "longLen = 2 ^ (L - q)" by simp
    have P: "long_prefix lens q p < length (ts_entries t)"
    proof -
      have "long_prefix lens q p < 2 ^ q" by (simp add: long_prefix_def)
      then show ?thesis using E assms(2) long_base_main [of q L "card (long_prefixes lens q)"]
        by (simp add: entries_inv_def table_room_def)
    qed
    show ?thesis
    proof (cases "long_prefix lens q p \<in> set prefs")
      case True
      then obtain k where k: "k < length prefs" "prefs ! k = long_prefix lens q p" by (metis in_set_conv_nth)
      have "entry_delta (long_base q L k) < 2 ^ 15"
        using assms(2) prefs_below(2) [OF E] k(1) by (simp add: table_room_def)
      note ptr = pointer_offset [OF this]
      have es: "ts_entries t ! long_prefix lens q p = long_pointer q L k"
        using E k by (auto simp: entries_inv_def)
      have "entry_at (entry_delta (long_base q L k)) = (\<lambda>j. Some (long_base q L k + j))" by (rule ext) (rule ptr(4))
      with enter_long_old [OF assms(1,2) E \<open>used lens p\<close> q k] P es T C(2) False ptr(1,3) show ?thesis
        unfolding step unfolding longLen enter_long_eq
        by (auto simp: long_pointer_def table_inv_def intro!: exI [of _ prefs])
    next
      case new: False
      note N = enter_long_new [OF assms(1,2) E \<open>used lens p\<close> q new]
      have "long_base q L (length prefs) + 2 ^ (L - q) = long_base q L (length (prefs @ [long_prefix lens q p]))"
        by (simp add: long_base_def)
      with N P T C(2) False show ?thesis
        unfolding step unfolding longLen enter_long_eq
        by (auto simp: long_pointer_def table_inv_def intro!: exI [of _ "prefs @ [long_prefix lens q p]"])
    qed
  qed
qed

lemma enter_symbols_inv:
  assumes "lengths_ok lens" "table_room lens q L N" "table_inv lens q L N [] 0 t" "q < L \<longrightarrow> longLen = 2 ^ (L - q)"
  shows "\<exists>t' prefs. enter_symbols q (push_bit q 1) longLen lens t = Inr t' \<and>
    table_inv lens q L N prefs (length lens) t'"
proof -
  let ?f = "\<lambda>(p, bits). enter_symbol q (push_bit q 1) longLen p bits"
  have "\<exists>t' prefs. jvm_fold ?f (take n (enumerate 0 lens)) t = Inr t' \<and> table_inv lens q L N prefs n t'"
    if "n \<le> length lens" for n
    using that
  proof (induction n)
    case 0
    then show ?case using assms(3) by auto
  next
    case (Suc n)
    then obtain t1 prefs where t1: "jvm_fold ?f (take n (enumerate 0 lens)) t = Inr t1" "table_inv lens q L N prefs n t1"
      by auto
    have "take (Suc n) (enumerate 0 lens) = take n (enumerate 0 lens) @ [(n, lens ! n)]"
      using Suc.prems by (simp add: take_Suc_conv_app_nth nth_enumerate_eq)
    moreover from enter_symbol_inv [OF assms(1,2) t1(2) _ assms(4)] Suc.prems
    obtain t2 prefs' where "enter_symbol q (push_bit q 1) longLen n (lens ! n) t1 = Inr t2"
      "table_inv lens q L N prefs' (Suc n) t2" by auto
    ultimately show ?case using t1(1) by (simp add: jvm_fold_append) blast
  qed
  from this [of "length lens"] show ?thesis by (simp add: enter_symbols_def)
qed

section \<open>The size of the tables\<close>

lemma rev_prefix:
  assumes "lengths_ok lens" "used lens s" "q \<le> MAX_BITS"
  shows "rev_bits q (long_prefix lens q s) = left_code lens s div 2 ^ (MAX_BITS - q)"
proof (rule bit_eqI)
  fix k
  show "bit (rev_bits q (long_prefix lens q s)) k = bit (left_code lens s div 2 ^ (MAX_BITS - q)) k"
  proof (cases "k < q")
    case True
    then have "MAX_BITS - 1 - (q - 1 - k) = MAX_BITS - q + k" "q - 1 - k < q" "q - 1 - k < MAX_BITS"
      using assms(3) by auto
    with True show ?thesis
      unfolding drop_bit_eq_div [symmetric] bit_drop_bit_eq comp_def bit_rev_bits long_prefix_def
        bit_take_bit_iff stream_code_def by metis
  next
    case False
    then have "MAX_BITS \<le> MAX_BITS - q + k" using assms(3) by simp
    then have "\<not> bit (left_code lens s) (MAX_BITS - q + k)" using left_code_bits [OF assms(1,2)] leD by blast
    with False show ?thesis unfolding drop_bit_eq_div [symmetric] bit_drop_bit_eq comp_def bit_rev_bits by blast
  qed
qed

lemma card_by_reversed:
  assumes "lengths_ok lens" "q \<le> MAX_BITS"
  shows "card (long_prefixes lens q) = card ((\<lambda>s. left_code lens s div 2 ^ (MAX_BITS - q)) ` {s. used lens s \<and> q < lens ! s})"
proof -
  have "(\<lambda>s. left_code lens s div 2 ^ (MAX_BITS - q)) ` {s. used lens s \<and> q < lens ! s} =
      rev_bits q ` long_prefixes lens q"
    unfolding long_prefixes_def image_image using rev_prefix [OF assms(1) _ assms(2)] by auto
  moreover have "inj_on (rev_bits q) (long_prefixes lens q)"
    by (rule inj_onI, rule rev_bits_inject [of _ q]) (auto simp: long_prefixes_def long_prefix_def)
  ultimately show ?thesis by (simp add: card_image)
qed

lemma long_codes_above:
  assumes "used lens s" "q < lens ! s"
  shows "space_below lens (Suc q) \<le> left_code lens s"
  unfolding space_below_def left_code_def
  by (rule code_space_mono) (use assms in \<open>auto simp: code_before_def\<close>)

lemma space_below_dvd: "lengths_ok lens \<Longrightarrow> 2 ^ (MAX_BITS - q) dvd space_below lens (Suc q)"
  unfolding space_below_def by (rule code_space_dvd) auto

lemma card_long_prefixes:
  assumes "lengths_ok lens" "q \<le> MAX_BITS"
  shows "card (long_prefixes lens q) \<le> 2 ^ q - space_below lens (Suc q) div 2 ^ (MAX_BITS - q)"
proof -
  let ?B = "(2 :: nat) ^ (MAX_BITS - q)"
  have B: "2 ^ MAX_BITS = 2 ^ q * ?B" using assms(2) by (simp flip: power_add)
  have "left_code lens s div ?B \<in> {space_below lens (Suc q) div ?B ..< 2 ^ q}" if "used lens s" "q < lens ! s" for s
  proof -
    have "0 < (2 :: nat) ^ (MAX_BITS - lens ! s)" by simp
    with left_code_room [OF assms(1) that(1)] have "left_code lens s < 2 ^ q * ?B" unfolding B [symmetric] by linarith
    then have "left_code lens s div ?B < 2 ^ q" by (simp add: div_less_iff_less_mult)
    with div_le_mono [OF long_codes_above [OF that]] show ?thesis by simp
  qed
  then have "(\<lambda>s. left_code lens s div ?B) ` {s. used lens s \<and> q < lens ! s} \<subseteq> {space_below lens (Suc q) div ?B ..< 2 ^ q}"
    by auto
  from card_mono [OF _ this] show ?thesis by (simp add: card_by_reversed [OF assms])
qed

text \<open>Two long codes fill at least one prefix, but for the last prefix.\<close>

lemma card_long_prefixes_half:
  assumes "lengths_ok lens" "q \<le> MAX_BITS"
  shows "2 * card (long_prefixes lens q) \<le> card {s. used lens s \<and> q < lens ! s} + 1"
proof (cases "{s. used lens s \<and> q < lens ! s} = {}")
  case False
  let ?S = "{s. used lens s \<and> q < lens ! s}" and ?B = "(2 :: nat) ^ (MAX_BITS - q)" and ?a = "space_below lens (Suc q)"
  from False obtain s0 where "used lens s0" "q < lens ! s0" by blast
  with lengths_okD [OF assms(1)] have q: "q < MAX_BITS" by fastforce
  then have half: "?B = 2 * 2 ^ (MAX_BITS - Suc q)" by (simp flip: power_Suc add: Suc_diff_Suc)
  have "code_space lens (\<lambda>t. q < lens ! t) = (\<Sum>t \<in> ?S. 2 ^ (MAX_BITS - lens ! t))" by (rule code_space_sum)
  also have "\<dots> \<le> of_nat (card ?S) * 2 ^ (MAX_BITS - Suc q)"
  proof (rule sum_bounded_above)
    fix t
    assume "t \<in> ?S"
    then show "(2 :: nat) ^ (MAX_BITS - lens ! t) \<le> 2 ^ (MAX_BITS - Suc q)" by (intro power_increasing) auto
  qed
  finally have T: "2 * code_space lens (\<lambda>t. q < lens ! t) \<le> card ?S * ?B" unfolding half by simp
  have "left_code lens s div ?B \<in> {?a div ?B ..< ?a div ?B + (card ?S + 1) div 2}" if s: "used lens s" "q < lens ! s" for s
  proof -
    have "left_code lens s + 2 ^ (MAX_BITS - lens ! s) = code_space lens (\<lambda>t. code_before lens t s \<or> t = s)"
      unfolding left_code_def code_space_one [OF s(1), symmetric]
      by (rule code_space_add [symmetric]) (auto simp: code_before_def)
    also have "\<dots> \<le> code_space lens (\<lambda>t. lens ! t < Suc q \<or> q < lens ! t)" by (rule code_space_mono) auto
    also have "\<dots> = ?a + code_space lens (\<lambda>t. q < lens ! t)"
      unfolding space_below_def by (rule code_space_add) auto
    finally have "left_code lens s < ?a + code_space lens (\<lambda>t. q < lens ! t)"
      using zero_less_power [of "2 :: nat" "MAX_BITS - lens ! s"] by linarith
    with T have "2 * left_code lens s < 2 * ?a + card ?S * ?B" by simp
    moreover obtain a where a: "?a = a * ?B" using space_below_dvd [OF assms(1), of q] by (auto simp: dvd_def mult.commute)
    ultimately have "2 * left_code lens s < (2 * a + card ?S) * ?B" by (simp add: algebra_simps)
    also have "\<dots> \<le> 2 * (a + (card ?S + 1) div 2) * ?B" by (intro mult_le_mono1) simp
    finally have "left_code lens s < (a + (card ?S + 1) div 2) * ?B"
      by (simp only: mult.assoc mult_less_cancel1)
    then have "left_code lens s div ?B < a + (card ?S + 1) div 2" by (simp add: div_less_iff_less_mult)
    moreover have "?a div ?B = a" by (simp add: a)
    ultimately show ?thesis using div_le_mono [OF long_codes_above [OF s], of ?B] by simp
  qed
  then have "(\<lambda>s. left_code lens s div ?B) ` ?S \<subseteq> {?a div ?B ..< ?a div ?B + (card ?S + 1) div 2}" by auto
  from card_mono [OF _ this] show ?thesis by (simp add: card_by_reversed [OF assms])
next
  case True
  show ?thesis unfolding long_prefixes_def True by simp
qed

section \<open>Lookups\<close>

lemma huff_word:
  assumes "s < 2048" "0 < lens ! s" "lens ! s \<le> MAX_BITS"
  shows "huff_word lens s AND HUFFINFO_LONG_MASK = 0" "huff_word lens s \<noteq> 0"
    "unat (huff_word lens s AND 0xF) = lens ! s" "unat (drop_bit 4 (huff_word lens s)) = s"
proof -
  let ?n = "push_bit 4 s + lens ! s"
  have n: "?n = s * 16 + lens ! s" by (simp add: push_bit_eq_mult)
  have small: "?n < 2 ^ 15" using assms n by simp
  then have u: "unat (huff_word lens s) = ?n" by (simp add: huff_word_def unat_of_nat take_bit_nat_eq_self del: of_nat_add)
  then show "huff_word lens s \<noteq> 0" using assms(2) by auto
  have "\<not> bit (unat (huff_word lens s)) 15" unfolding u by (rule high_bits_zero [OF small]) simp
  then have "\<not> bit (huff_word lens s) 15" by (simp add: bit_unsigned_iff)
  then show "huff_word lens s AND HUFFINFO_LONG_MASK = 0"
    by (intro bit_word_eqI) (auto simp: bit_and_iff long_mask_bit)
  have "huff_word lens s AND 0xF = take_bit 4 (huff_word lens s)" by (simp add: take_bit_eq_mask mask_numeral)
  then show "unat (huff_word lens s AND 0xF) = lens ! s"
    using assms(3) n by (simp only: unsigned_take_bit_eq u) (simp add: take_bit_eq_mod)
  show "unat (drop_bit 4 (huff_word lens s)) = s"
    using assms(3) n by (simp only: unat_drop_bit_eq u) (simp add: drop_bit_eq_div)
qed

lemma bits_value_take: "n \<le> k \<Longrightarrow> k \<le> length bs \<Longrightarrow> take_bit n (bits_value (take k bs)) = bits_value (take n bs)"
  by (rule bit_eqI) (auto simp: bit_take_bit_iff bit_bits_value)

lemma bits_value_less: "bits_value bs < 2 ^ length bs"
  unfolding bits_value_def by (rule horner_sum_of_bool_2_less)

text \<open>A lookup that agrees with the code.\<close>

definition looks_up :: "nat list \<Rightarrow> bool list \<Rightarrow> bit_reader \<Rightarrow> inflate_fault + (nat \<times> bit_reader) option \<Rightarrow> bool" where
  "looks_up lens bs r res =
     ((\<exists>s r'. next_symbol lens s bs \<and> DUMPBITS (lens ! s) r = Inr r' \<and> res = Inr (Some (s, r'))) \<or>
      (\<forall>s. \<not> next_symbol lens s bs) \<and> res = Inr None)"

lemma slot_looks_up:
  assumes "lengths_ok lens" "length lens \<le> 2048" "is_slot lens P x w" "L \<le> inDataSize r" "\<And>s. used lens s \<Longrightarrow> lens ! s \<le> L"
    "\<And>s. next_symbol lens s bs \<longleftrightarrow> P s \<and> begins_with lens s x"
  shows "looks_up lens bs r (if w = 0 then Inr None
    else jvm_check (DUMPBITS (unat (w AND 0xF)) r) (\<lambda>r. Inr (Some (unat (drop_bit 4 w), r))))"
    "w AND HUFFINFO_LONG_MASK = 0"
proof -
  show "looks_up lens bs r (if w = 0 then Inr None
    else jvm_check (DUMPBITS (unat (w AND 0xF)) r) (\<lambda>r. Inr (Some (unat (drop_bit 4 w), r))))"
    "w AND HUFFINFO_LONG_MASK = 0"
  proof (atomize (full), cases "\<exists>s. next_symbol lens s bs")
    case True
    then obtain s where s: "next_symbol lens s bs" by blast
    then have u: "used lens s" by (simp add: next_symbol_def)
    have w: "w = huff_word lens s" using assms(3,6) s by (simp add: is_slot_def)
    have "s < 2048" using u assms(2) by (simp add: used_def)
    note h = huff_word [OF this, of lens] lengths_okD [OF assms(1) u]
    have "DUMPBITS (lens ! s) r \<noteq> Inl e" for e using assms(4) assms(5) [OF u] by (simp add: DUMPBITS_def)
    then obtain r' where "DUMPBITS (lens ! s) r = Inr r'" by (cases "DUMPBITS (lens ! s) r") auto
    then show "looks_up lens bs r (if w = 0 then Inr None
        else jvm_check (DUMPBITS (unat (w AND 0xF)) r) (\<lambda>r. Inr (Some (unat (drop_bit 4 w), r)))) \<and>
      w AND HUFFINFO_LONG_MASK = 0"
      using h s by (auto simp: looks_up_def w)
  next
    case False
    then have "w = 0" using assms(3,6) by (auto simp: is_slot_def)
    with False show "looks_up lens bs r (if w = 0 then Inr None
        else jvm_check (DUMPBITS (unat (w AND 0xF)) r) (\<lambda>r. Inr (Some (unat (drop_bit 4 w), r)))) \<and>
      w AND HUFFINFO_LONG_MASK = 0"
      by (simp add: looks_up_def)
  qed
qed

lemma table_looks_up:
  assumes "lengths_ok lens" "length lens \<le> 2048" "table_room lens q L N" "entries_inv lens q L N prefs (length lens) es"
    "reader_ok r" "L \<le> inDataSize r"
  shows "looks_up lens (stream buf r) r
    (GET_HUFFMAN_ENTRY \<lparr>h_quickBits = q, h_maxCodeLen = L, entries = es\<rparr> q r)"
proof -
  let ?bs = "stream buf r" and ?table = "\<lparr>h_quickBits = q, h_maxCodeLen = L, entries = es\<rparr>"
  have qL: "q \<le> L" and lens: "\<And>s. used lens s \<Longrightarrow> lens ! s \<le> L" and room: "long_base q L (card (long_prefixes lens q)) \<le> N"
    and delta: "\<And>i. i < card (long_prefixes lens q) \<Longrightarrow> entry_delta (long_base q L i) < 2 ^ 15"
    using assms(3) by (auto simp: table_room_def)
  have bs: "L \<le> length ?bs" using assms(6) by (simp add: stream_def)
  define y where "y = bits_value (take L ?bs)"
  have y: "NEXTBITS L r = y" "NEXTBITS q r = take_bit q y" "y < 2 ^ L"
    using NEXTBITS_stream [OF assms(5), of _ buf] assms(6) qL bs bits_value_take [OF qL bs]
      bits_value_less [of "take L ?bs"] by (simp_all add: y_def)
  have sym: "next_symbol lens s ?bs \<longleftrightarrow> used lens s \<and> begins_with lens s y" for s
    using next_symbol_iff [OF assms(1) lens bs, of s] by (auto simp: y_def next_symbol_def)
  note I = assms(4) [unfolded entries_inv_def]
  have es: "length es = N" using I by simp
  let ?j = "take_bit q y"
  have j: "?j < 2 ^ q" by simp
  have jN: "?j < N" using j room long_base_main [of q L "card (long_prefixes lens q)"] by linarith
  show ?thesis
  proof (cases "?j \<in> set prefs")
    case False
    have slot: "is_slot lens (\<lambda>s. s < length lens \<and> lens ! s \<le> q) ?j (es ! ?j)" using I False j by blast
    have "next_symbol lens s ?bs \<longleftrightarrow> (s < length lens \<and> lens ! s \<le> q) \<and> begins_with lens s ?j" for s
    proof
      assume s: "next_symbol lens s ?bs"
      then have u: "used lens s" "begins_with lens s y" using sym by auto
      have "lens ! s \<le> q"
      proof (rule ccontr)
        assume "\<not> lens ! s \<le> q"
        then have q: "min q (lens ! s) = q" by simp
        have "take_bit q (take_bit (lens ! s) y) = long_prefix lens q s"
          using u(2) by (simp add: begins_with_def long_prefix_def)
        then have "?j = long_prefix lens q s" by (simp only: take_bit_take_bit q)
        moreover have "s \<in> {s. s < length lens \<and> used lens s \<and> q < lens ! s}"
          using u(1) \<open>\<not> lens ! s \<le> q\<close> by (simp add: used_def)
        ultimately show False using False I by blast
      qed
      with u begins_with_take_bit [of lens s q y] show "(s < length lens \<and> lens ! s \<le> q) \<and> begins_with lens s ?j"
        unfolding used_def by blast
    next
      assume "(s < length lens \<and> lens ! s \<le> q) \<and> begins_with lens s ?j"
      then have "begins_with lens s y" using begins_with_take_bit [of lens s q y] by blast
      with sym show "next_symbol lens s ?bs" unfolding begins_with_def by blast
    qed
    note L = slot_looks_up [OF assms(1,2) slot assms(6) lens this]
    have "get_entry ?table (Some (NEXTBITS q r)) = Inr (es ! ?j)"
      unfolding y(2) using jN es by (simp add: get_entry_def)
    then show ?thesis
      using L unfolding GET_HUFFMAN_ENTRY_def Let_def by simp
  next
    case True
    then obtain i where i: "i < length prefs" "prefs ! i = ?j" by (metis in_set_conv_nth)
    have ptr: "es ! ?j = long_pointer q L i" using I i by metis
    have "i < card (long_prefixes lens q)" using i(1) prefs_below(2) [OF assms(4)] by simp
    note p = pointer_offset [OF delta [OF this]]
    let ?m = "drop_bit q y"
    have "(2 :: nat) ^ L = 2 ^ (L - q) * 2 ^ q" using qL by (simp flip: power_add)
    then have m: "?m < 2 ^ (L - q)" using y(3) by (simp add: drop_bit_eq_div div_less_iff_less_mult)
    have split_y: "?j + 2 ^ q * ?m = y" by (metis add.commute bits_ident mult.commute push_bit_eq_mult)
    have "is_slot lens (\<lambda>s. s < length lens \<and> q < lens ! s) (prefs ! i + 2 ^ q * ?m) (es ! (long_base q L i + ?m))"
      using I i(1) m by blast
    then have slot: "is_slot lens (\<lambda>s. s < length lens \<and> q < lens ! s) y (es ! (long_base q L i + ?m))"
      by (simp add: i(2) split_y)
    have "\<not> lens ! s \<le> q" if "used lens s" "begins_with lens s y" for s
    proof
      assume "lens ! s \<le> q"
      with that(2) have "begins_with lens s ?j" by (simp add: begins_with_take_bit)
      with short_apart [OF assms(1) this \<open>lens ! s \<le> q\<close>] True I show False by blast
    qed
    then have "next_symbol lens s ?bs \<longleftrightarrow> (s < length lens \<and> q < lens ! s) \<and> begins_with lens s y" for s
      unfolding sym begins_with_def used_def not_le by blast
    note L = slot_looks_up [OF assms(1,2) slot assms(6) lens this]
    have "long_base q L i + ?m < N"
      using long_base_less [OF i(1) m] room long_base_mono [OF prefs_below(2) [OF assms(4)], of q L] by linarith
    then have "get_entry ?table (entry_at (unat (long_pointer q L i AND NOT HUFFINFO_LONG_MASK)) (drop_bit q (NEXTBITS L r))) =
        Inr (es ! (long_base q L i + ?m))"
      unfolding long_pointer_def p(3,4) y(1) by (simp add: get_entry_def es)
    moreover have "get_entry ?table (Some (NEXTBITS q r)) = Inr (long_pointer q L i)"
      unfolding y(2) using jN es ptr by (simp add: get_entry_def)
    moreover have "long_pointer q L i AND HUFFINFO_LONG_MASK \<noteq> 0" using p(2) by (simp add: long_pointer_def)
    ultimately show ?thesis
      using L unfolding GET_HUFFMAN_ENTRY_def Let_def by simp
  qed
qed

section \<open>Making a table\<close>

text \<open>The bits of the main table and the length of the longest code.\<close>

definition table_bits :: "bool \<Rightarrow> nat list \<Rightarrow> nat \<Rightarrow> nat \<times> nat" where
  "table_bits h lens maxq =
     (case count_lengths lens of Inl _ \<Rightarrow> (0, 0)
      | Inr counts \<Rightarrow> (case scan_counts h counts maxq of (L, codes, q) \<Rightarrow> (min L q, L)))"

text \<open>The long tables begin within the reach of a pointer of fifteen bits.\<close>

definition pointers_fit :: "bool \<Rightarrow> nat list \<Rightarrow> nat \<Rightarrow> bool" where
  "pointers_fit h lens maxq =
     (case table_bits h lens maxq of (q, L) \<Rightarrow>
        \<forall>i < card (long_prefixes lens q). entry_delta (long_base q L i) < 2 ^ 15)"

lemma start_inv:
  assumes "\<And>b. 1 \<le> b \<Longrightarrow> b \<le> L \<Longrightarrow> codes ! b = space_below lens b" "length codes = 16" "2 ^ q \<le> N"
  shows "table_inv lens q L N [] 0 \<lparr>ts_codes = codes, ts_entries = replicate N 0, ts_next = 2 ^ q\<rparr>"
  using assms by (auto simp: table_inv_def codes_inv_def entries_inv_def space_below_def is_slot_def long_base_def)

lemma number_of_long_tables:
  assumes "lengths_ok lens" "q \<le> MAX_BITS" "c = space_below lens (Suc q)"
  shows "drop_bit (MAX_BITS - q) (u32 (2 ^ MAX_BITS - int c)) = int (2 ^ q - c div 2 ^ (MAX_BITS - q))"
    "c div 2 ^ (MAX_BITS - q) \<le> 2 ^ q"
proof -
  let ?B = "(2 :: nat) ^ (MAX_BITS - q)"
  have B: "2 ^ MAX_BITS = 2 ^ q * ?B" using assms(2) by (simp flip: power_add)
  obtain m where m: "c = m * ?B"
    using space_below_dvd [OF assms(1), of q] assms(3) by (auto simp: dvd_def mult.commute)
  have "c \<le> code_space lens (\<lambda>_. True)" unfolding assms(3) space_below_def by (rule code_space_mono) simp
  then have c: "c \<le> 2 ^ MAX_BITS" using assms(1) by (simp add: lengths_ok_def)
  then have "m * ?B \<le> 2 ^ q * ?B" using m B by simp
  then have mq: "m \<le> 2 ^ q" by simp
  then show "c div ?B \<le> 2 ^ q" by (simp add: m)
  have "u32 (2 ^ MAX_BITS - int c) = 2 ^ MAX_BITS - int c" using c by (simp add: u32_def)
  also have "\<dots> = (2 ^ q - int m) * 2 ^ (MAX_BITS - q)"
    using arg_cong [OF B, of int] m by (simp add: left_diff_distrib)
  finally show "drop_bit (MAX_BITS - q) (u32 (2 ^ MAX_BITS - int c)) = int (2 ^ q - c div ?B)"
    using mq by (simp add: drop_bit_eq_div m)
qed

lemma make_code_table_result:
  assumes "lengths_ok lens" "length lens \<le> 2048" "pointers_fit h lens maxq"
  obtains table where "make_code_table h lens maxq = Inr table" "h_maxCodeLen table \<le> MAX_BITS"
    "\<And>buf r. reader_ok r \<Longrightarrow> h_maxCodeLen table \<le> inDataSize r \<Longrightarrow>
       looks_up lens (stream buf r) r (GET_HUFFMAN_ENTRY table (h_quickBits table) r)"
proof -
  have "list_all (\<lambda>l. l \<le> MAX_BITS) lens" using assms(1) by (simp add: lengths_ok_def)
  then obtain counts where counts: "count_lengths lens = Inr counts" "\<And>l. l \<le> MAX_BITS \<Longrightarrow> counts ! l = count_list lens l"
    by (rule count_lengths_result) blast
  obtain L codes q0 where scan: "scan_counts h counts maxq = (L, codes, q0)" by (cases "scan_counts h counts maxq") auto
  note S = scan_counts_result [OF counts(2) assms(1) scan]
  have L: "L \<le> MAX_BITS" "\<And>s. used lens s \<Longrightarrow> lens ! s \<le> L"
    using max_code_len_bound [OF counts(2) assms(1)] by (simp_all add: S(1))
  define q where "q = min L q0"
  define n where "n = (if q0 < L then 2 ^ q - space_below lens (Suc q) div 2 ^ (MAX_BITS - q) else 0)"
  define longLen where "longLen = (if q0 < L then (2 :: nat) ^ (L - q) else 0)"
  define N where "N = 2 ^ q + n * longLen"
  have q: "q \<le> L" "q \<le> MAX_BITS" using L(1) by (simp_all add: q_def)
  have sizes: "table_sizes L q0 codes = (q, push_bit q 1, int n, longLen)"
    using number_of_long_tables(1) [OF assms(1), of q "codes ! (q0 + 1)"] S(3) [of "q0 + 1"] L(1)
    by (auto simp: table_sizes_def q_def n_def longLen_def)
  have "n * longLen \<le> 2 ^ q * 2 ^ (L - q)" by (intro mult_le_mono) (simp_all add: n_def longLen_def)
  also have "\<dots> = 2 ^ L" using q by (simp flip: power_add)
  also have "\<dots> \<le> (2 :: nat) ^ MAX_BITS" using L(1) by (intro power_increasing) simp_all
  finally have "n * longLen \<le> 2 ^ MAX_BITS" .
  moreover have "(2 :: nat) ^ q \<le> 2 ^ MAX_BITS" using q(2) by (intro power_increasing) simp_all
  ultimately have "N \<le> 2 ^ 16" by (simp add: N_def)
  moreover have "int (push_bit q 1) + int n * int longLen = int N" by (simp add: N_def push_bit_eq_mult)
  ultimately have size: "nat ((u32 (4 + (int (push_bit q 1) + int n * int longLen) * 2) - 4) div 2) = N"
    by (simp add: u32_def)
  have card: "long_base q L (card (long_prefixes lens q)) \<le> N"
  proof (cases "q0 < L")
    case True
    then have "card (long_prefixes lens q) \<le> n" using card_long_prefixes [OF assms(1) q(2)] by (simp add: n_def)
    then have "2 ^ (L - q) * card (long_prefixes lens q) \<le> 2 ^ (L - q) * n" by (intro mult_le_mono2)
    with True show ?thesis by (simp add: long_base_def N_def longLen_def mult.commute)
  next
    case False
    then have "q = L" by (simp add: q_def)
    then have "long_prefixes lens q = {}" using L(2) by (auto simp: long_prefixes_def not_less)
    then show ?thesis by (simp add: long_base_def N_def)
  qed
  have "\<forall>i < card (long_prefixes lens q). entry_delta (long_base q L i) < 2 ^ 15"
    using assms(3) by (simp add: pointers_fit_def table_bits_def counts(1) scan q_def)
  then have room: "table_room lens q L N" using q L card by (auto simp: table_room_def)
  have "q < L \<longrightarrow> longLen = 2 ^ (L - q)" by (auto simp: longLen_def q_def)
  moreover have "table_inv lens q L N [] 0 \<lparr>ts_codes = codes, ts_entries = replicate N 0, ts_next = push_bit q 1\<rparr>"
    using start_inv [of L codes lens q N] S(2,3) by (simp add: N_def push_bit_eq_mult)
  ultimately obtain t prefs where t: "enter_symbols q (push_bit q 1) longLen lens
      \<lparr>ts_codes = codes, ts_entries = replicate N 0, ts_next = push_bit q 1\<rparr> = Inr t"
    "table_inv lens q L N prefs (length lens) t"
    using enter_symbols_inv [OF assms(1) room] by blast
  have made: "make_code_table h lens maxq = Inr \<lparr>h_quickBits = q, h_maxCodeLen = L, entries = ts_entries t\<rparr>"
    unfolding make_code_table_def counts(1) jvm_check_simps scan Let_def prod.case sizes size t(1) by (rule refl)
  show ?thesis
  proof (rule that [OF made])
    fix buf and r :: bit_reader
    assume r: "reader_ok r" "h_maxCodeLen \<lparr>h_quickBits = q, h_maxCodeLen = L, entries = ts_entries t\<rparr> \<le> inDataSize r"
    have "entries_inv lens q L N prefs (length lens) (ts_entries t)" using t(2) by (simp add: table_inv_def)
    from table_looks_up [OF assms(1,2) room this r(1), of buf] r(2)
    show "looks_up lens (stream buf r) r (GET_HUFFMAN_ENTRY \<lparr>h_quickBits = q, h_maxCodeLen = L, entries = ts_entries t\<rparr>
        (h_quickBits \<lparr>h_quickBits = q, h_maxCodeLen = L, entries = ts_entries t\<rparr>) r)"
      by simp
  qed (use L(1) in simp)
qed

text \<open>Without the heuristic, pointers always reach the tables of the alphabets of the format.\<close>

lemma pointers_fit_given:
  assumes "lengths_ok lens" "maxq = 9 \<and> length lens \<le> 320 \<or> maxq = 6 \<and> length lens \<le> 32"
  shows "pointers_fit False lens maxq"
proof -
  have "list_all (\<lambda>l. l \<le> MAX_BITS) lens" using assms(1) by (simp add: lengths_ok_def)
  then obtain counts where counts: "count_lengths lens = Inr counts" "\<And>l. l \<le> MAX_BITS \<Longrightarrow> counts ! l = count_list lens l"
    by (rule count_lengths_result) blast
  obtain L codes q0 where scan: "scan_counts False counts maxq = (L, codes, q0)" by (cases "scan_counts False counts maxq") auto
  note S = scan_counts_result [OF counts(2) assms(1) scan]
  have L: "L \<le> MAX_BITS" using max_code_len_bound(1) [OF counts(2) assms(1)] by (simp add: S(1))
  define q where "q = min L maxq"
  have q: "q \<le> MAX_BITS" using L by (simp add: q_def)
  have "card {s. used lens s \<and> q < lens ! s} \<le> card {..<length lens}" by (rule card_mono) (auto simp: used_def)
  with card_long_prefixes_half [OF assms(1) q] have half: "2 * card (long_prefixes lens q) \<le> length lens + 1" by simp
  have "entry_delta (long_base q L i) < 2 ^ 15" if "i < card (long_prefixes lens q)" for i
  proof -
    have i: "2 * i \<le> length lens - 1" using that half by simp
    from assms(2) show ?thesis
    proof
      assume m: "maxq = 9 \<and> length lens \<le> 320"
      then have "q \<le> 9" "L - q \<le> 6" using L by (simp_all add: q_def)
      then have "(2 :: nat) ^ q \<le> 2 ^ 9" "(2 :: nat) ^ (L - q) \<le> 2 ^ 6"
        by (intro power_increasing; simp)+
      moreover have "i \<le> 159" using i m by (elim conjE) arith
      ultimately have "2 ^ (L - q) * i \<le> 2 ^ 6 * 159" by (intro mult_le_mono)
      with \<open>2 ^ q \<le> 2 ^ 9\<close> show ?thesis by (simp add: entry_delta_def long_base_def)
    next
      assume m: "maxq = 6 \<and> length lens \<le> 32"
      then have "q \<le> 6" "L - q \<le> 9" using L by (simp_all add: q_def)
      then have "(2 :: nat) ^ q \<le> 2 ^ 6" "(2 :: nat) ^ (L - q) \<le> 2 ^ 9"
        by (intro power_increasing; simp)+
      moreover have "i \<le> 15" using i m by (elim conjE) arith
      ultimately have "2 ^ (L - q) * i \<le> 2 ^ 9 * 15" by (intro mult_le_mono)
      with \<open>2 ^ q \<le> 2 ^ 6\<close> show ?thesis by (simp add: entry_delta_def long_base_def)
    qed
  qed
  then show ?thesis
    using S(5) by (simp add: pointers_fit_def table_bits_def counts(1) scan q_def)
qed

end
