(* ===== verification/Inflate_Spec.thy ===== *)
theory Inflate_Spec
  imports Inflate Huffman_Correct
begin

text \<open>
  The compressed data format (RFC 1951) as a relation: what a code of a block does to the rest
  of the stream and to the output.  The codes of a fixed block are the canonical code of the
  lengths that the format gives, and the inflater finds their symbols with comparisons.
\<close>

section \<open>Copies\<close>

fun repeat_from :: "nat \<Rightarrow> nat \<Rightarrow> 'a list \<Rightarrow> 'a list" where
  "repeat_from distance 0 out = out"
| "repeat_from distance (Suc n) out = repeat_from distance n (out @ [out ! (length out - distance)])"

lemma repeat_from_length [simp]: "length (repeat_from d n out) = length out + n"
  by (induction d n out rule: repeat_from.induct) simp_all

lemma repeat_from_no_overlap:
  assumes "n \<le> d" "d \<le> length out"
  shows "repeat_from d n out = out @ take n (drop (length out - d) out)"
  using assms
proof (induction n)
  case (Suc n)
  have last: "repeat_from d (Suc n) xs = repeat_from d n xs @ [repeat_from d n xs ! (length xs + n - d)]" for xs :: "'a list"
    by (induction d n xs rule: repeat_from.induct) (simp_all add: add.commute)
  have "length out + n - d < length out" "length out - d + n = length out + n - d" using Suc.prems by simp_all
  then have "repeat_from d n out ! (length out + n - d) = out ! (length out - d + n)"
    using Suc by (simp add: nth_append)
  moreover have "take (Suc n) (drop (length out - d) out) = take n (drop (length out - d) out) @ [out ! (length out - d + n)]"
    using Suc.prems by (simp add: take_Suc_conv_app_nth)
  ultimately show ?case using Suc by (simp add: last del: repeat_from.simps)
qed simp

lemma put_bytes_at_result:
  "off + length bs \<le> length xs \<Longrightarrow> \<exists>ys. put_bytes_at off bs xs = Inr ys \<and> length ys = length xs \<and>
     take (off + length bs) ys = take off xs @ bs \<and> drop (off + length bs) ys = drop (off + length bs) xs"
  by (simp add: put_bytes_at_def)

text \<open>The copy loop of the inflater writes the bytes of the format's copy.\<close>

lemma copy_match_result:
  assumes "0 < d" "d \<le> off" "off + n \<le> length out"
  shows "\<exists>out'. copy_match d (off - d) off n out = Inr out' \<and> length out' = length out \<and>
    take (off + n) out' = repeat_from d n (take off out) \<and> drop (off + n) out' = drop (off + n) out"
  using assms
proof (induction n arbitrary: off out)
  case (Suc n)
  show ?case
  proof (cases "Suc n > d")
    case True
    let ?out = "out[off := out ! (off - d)]"
    have lt: "off - d < length out" "off < length out" "Suc (off - d) = Suc off - d" using Suc.prems by auto
    have "take (Suc off) ?out = take off out @ [take off out ! (off - d)]"
      using lt Suc.prems by (simp add: take_Suc_conv_app_nth)
    with Suc.IH [of "Suc off" ?out] Suc.prems lt True show ?thesis
      by (auto simp: min_absorb2)
  next
    case False
    let ?bs = "take (Suc n) (drop (off - d) out)"
    have l: "length ?bs = Suc n" using Suc.prems by simp
    have "take (Suc n) (drop (off - d) (take off out)) = ?bs"
      using Suc.prems False by (simp add: drop_take)
    then have "repeat_from d (Suc n) (take off out) = take off out @ ?bs"
      using repeat_from_no_overlap [of "Suc n" d "take off out"] Suc.prems False by simp
    moreover have "get_bytes_at (int (off - d)) (Suc n) out = Inr ?bs"
      using Suc.prems by (simp add: get_bytes_at_def del: of_nat_diff)
    ultimately show ?thesis
      using put_bytes_at_result [of off ?bs out] Suc.prems l False by auto
  qed
qed simp

section \<open>The codes of a block\<close>

text \<open>The rest of the stream, and the output so far.\<close>

type_synonym block_state = "bool list \<times> 8 word list"

inductive code_step :: "nat list \<Rightarrow> nat list \<Rightarrow> block_state \<Rightarrow> block_state \<Rightarrow> bool" for ll dl where
  literal_code: "next_symbol ll c bs \<Longrightarrow> c \<le> 255 \<Longrightarrow>
    code_step ll dl (bs, out) (drop (ll ! c) bs, out @ [word_of_nat c])"
| match_code: "next_symbol ll c bs \<Longrightarrow> 257 \<le> c \<Longrightarrow> c \<le> 285 \<Longrightarrow>
    bs1 = drop (ll ! c) bs \<Longrightarrow> n = ll_extra_bits ! (c - 257) \<Longrightarrow> n \<le> length bs1 \<Longrightarrow>
    len = ll_length_base ! (c - 257) + bits_value (take n bs1) \<Longrightarrow>
    bs2 = drop n bs1 \<Longrightarrow> next_symbol dl d bs2 \<Longrightarrow> d \<le> 29 \<Longrightarrow>
    bs3 = drop (dl ! d) bs2 \<Longrightarrow> m = dist_extra_bits ! d \<Longrightarrow> m \<le> length bs3 \<Longrightarrow>
    distance = dist_base ! d + bits_value (take m bs3) \<Longrightarrow> distance \<le> length out \<Longrightarrow>
    code_step ll dl (bs, out) (drop m bs3, repeat_from distance len out)"

definition block_end :: "nat list \<Rightarrow> block_state \<Rightarrow> block_state \<Rightarrow> bool" where
  "block_end ll st st' = (next_symbol ll 256 (fst st) \<and> st' = (drop (ll ! 256) (fst st), snd st))"

definition fixed_lengths :: "nat list" where
  "fixed_lengths = replicate 144 8 @ replicate 112 9 @ replicate 24 7 @ replicate 8 8"

definition fixed_distances :: "nat list" where
  "fixed_distances = replicate 32 5"

section \<open>Fixed codes\<close>

lemma left_code_count:
  assumes "0 < lens ! s"
  shows "left_code lens s = space_below lens (lens ! s) + count_list (take s lens) (lens ! s) * 2 ^ (MAX_BITS - lens ! s)"
proof -
  let ?l = "lens ! s"
  have "code_space lens (\<lambda>t. code_before lens t s) =
      code_space lens (\<lambda>t. lens ! t < ?l \<or> lens ! t = ?l \<and> t < s)"
    by (rule arg_cong [of _ _ "code_space lens"]) (auto simp: code_before_def)
  also have "\<dots> = space_below lens ?l + code_space lens (\<lambda>t. lens ! t = ?l \<and> t < s)"
    unfolding space_below_def by (rule code_space_add) auto
  also have "code_space lens (\<lambda>t. lens ! t = ?l \<and> t < s) =
      (\<Sum>t | used lens t \<and> lens ! t = ?l \<and> t < s. 2 ^ (MAX_BITS - ?l))"
    unfolding code_space_sum by (rule sum.cong) auto
  also have "\<dots> = card {i. i < length (take s lens) \<and> ?l = take s lens ! i} * 2 ^ (MAX_BITS - ?l)"
    using assms by (auto simp: used_def intro!: arg_cong [where f = card])
  also have "card {i. i < length (take s lens) \<and> ?l = take s lens ! i} = count_list (take s lens) ?l"
    unfolding count_list_eq_length_filter by (rule length_filter_conv_card [symmetric])
  finally show ?thesis by (simp add: left_code_def)
qed

lemma space_below_counts:
  "0 < b \<Longrightarrow> space_below lens b = (\<Sum>k \<leftarrow> [1..<b]. count_list lens k * 2 ^ (MAX_BITS - k))"
proof (induction b)
  case (Suc b)
  show ?case
  proof (cases "b = 0")
    case True
    then show ?thesis using space_below_1 [of lens] by simp
  next
    case False
    then show ?thesis using Suc space_below_Suc [of b lens] by simp
  qed
qed simp

lemma count_list_replicate: "count_list (replicate n x) y = (if x = y then n else 0)"
  by (induction n) auto

lemma lengths_okI:
  assumes "list_all (\<lambda>l. l \<le> MAX_BITS) lens" "space_below lens 16 \<le> 2 ^ MAX_BITS"
  shows "lengths_ok lens"
proof -
  have "code_space lens (\<lambda>_. True) \<le> space_below lens 16"
    unfolding space_below_def by (rule code_space_mono) (use assms(1) in \<open>auto simp: used_def list_all_length\<close>)
  with assms show ?thesis by (simp add: lengths_ok_def)
qed

lemma fixed_length_nth:
  "length fixed_lengths = 288"
  "s < 144 \<Longrightarrow> fixed_lengths ! s = 8" "144 \<le> s \<Longrightarrow> s < 256 \<Longrightarrow> fixed_lengths ! s = 9"
  "256 \<le> s \<Longrightarrow> s < 280 \<Longrightarrow> fixed_lengths ! s = 7" "280 \<le> s \<Longrightarrow> s < 288 \<Longrightarrow> fixed_lengths ! s = 8"
  by (auto simp: fixed_lengths_def nth_append)

lemma fixed_space_below:
  "space_below fixed_lengths 7 = 0" "space_below fixed_lengths 8 = 6144" "space_below fixed_lengths 9 = 25600"
  "space_below fixed_lengths 16 = 32768" "space_below fixed_distances 5 = 0" "space_below fixed_distances 16 = 32768"
  by (simp_all add: space_below_counts fixed_lengths_def fixed_distances_def count_list_replicate upt_rec
      del: replicate.simps)

lemma fixed_lengths_ok: "lengths_ok fixed_lengths" "lengths_ok fixed_distances"
  by (rule lengths_okI, simp add: fixed_lengths_def fixed_distances_def list_all_iff, simp add: fixed_space_below)+

lemma fixed_left_code:
  "s < 144 \<Longrightarrow> left_code fixed_lengths s = (0x30 + s) * 128"
  "144 \<le> s \<Longrightarrow> s < 256 \<Longrightarrow> left_code fixed_lengths s = (0x190 + (s - 144)) * 64"
  "256 \<le> s \<Longrightarrow> s < 280 \<Longrightarrow> left_code fixed_lengths s = (s - 256) * 256"
  "280 \<le> s \<Longrightarrow> s < 288 \<Longrightarrow> left_code fixed_lengths s = (0xc0 + (s - 280)) * 128"
  using left_code_count [of fixed_lengths s]
  by (auto simp: fixed_length_nth fixed_space_below) (auto simp: fixed_lengths_def count_list_replicate
      simp del: replicate.simps)

lemma fixed_distance_code: "s < 32 \<Longrightarrow> left_code fixed_distances s = s * 1024"
proof -
  assume s: "s < 32"
  then have "fixed_distances ! s = 5" by (simp add: fixed_distances_def del: replicate.simps)
  with left_code_count [of fixed_distances s] show ?thesis
    using s by (simp add: fixed_space_below) (simp add: fixed_distances_def count_list_replicate del: replicate.simps)
qed

lemma rev_bits_shift: "x < 2 ^ n \<Longrightarrow> n \<le> MAX_BITS \<Longrightarrow> rev_bits MAX_BITS x = rev_bits n x * 2 ^ (MAX_BITS - n)"
proof -
  assume x: "x < 2 ^ n" "n \<le> MAX_BITS"
  have "rev_bits MAX_BITS x = push_bit (MAX_BITS - n) (rev_bits n x)"
  proof (rule bit_eqI)
    fix k
    show "bit (rev_bits MAX_BITS x) k = bit (push_bit (MAX_BITS - n) (rev_bits n x)) k"
    proof (cases "MAX_BITS - n \<le> k \<and> k < MAX_BITS")
      case True
      then have "MAX_BITS - 1 - k = n - 1 - (k - (MAX_BITS - n))" "k - (MAX_BITS - n) < n" using x(2) by auto
      with True show ?thesis unfolding bit_rev_bits bit_push_bit_iff by simp
    next
      case False
      then have "n \<le> MAX_BITS - 1 - k \<or> MAX_BITS \<le> k" "\<not> (MAX_BITS - n \<le> k \<and> k - (MAX_BITS - n) < n)" using x(2) by auto
      with high_bits_zero [OF x(1), of "MAX_BITS - 1 - k"] show ?thesis
        unfolding bit_rev_bits bit_push_bit_iff by (meson not_less)
    qed
  qed
  then show ?thesis by (simp add: push_bit_eq_mult)
qed

lemma DUMPBITS_Inr: "n \<le> inDataSize r \<Longrightarrow> \<exists>r'. DUMPBITS n r = Inr r'"
  by (simp add: DUMPBITS_def)

text \<open>A symbol is the next one when the reversed bits lie in the interval of its code.\<close>

lemma looks_upI:
  assumes "lengths_ok lens" "used lens s" "lens ! s \<le> n" "n \<le> MAX_BITS" "n \<le> inDataSize r" "reader_ok r"
    "left_code lens s \<le> rev_bits n (NEXTBITS n r) * 2 ^ (MAX_BITS - n)"
    "rev_bits n (NEXTBITS n r) * 2 ^ (MAX_BITS - n) < left_code lens s + 2 ^ (MAX_BITS - lens ! s)"
    "res = jvm_check (DUMPBITS (lens ! s) r) (\<lambda>r. Inr (Some (s, r)))"
  shows "looks_up lens (stream buf r) r res"
proof -
  let ?x = "NEXTBITS n r"
  have len: "n \<le> length (stream buf r)" using assms(5) by (simp add: stream_def)
  have x: "?x = bits_value (take n (stream buf r))" by (rule NEXTBITS_stream [OF assms(6,5)])
  then have "?x < 2 ^ n" using bits_value_less [of "take n (stream buf r)"] len by simp
  with assms(4) have "rev_bits MAX_BITS ?x = rev_bits n ?x * 2 ^ (MAX_BITS - n)" by (rule rev_bits_shift [rotated])
  with assms(7,8) have "begins_with lens s ?x" by (simp add: begins_with_interval [OF assms(1,2)])
  then have "next_symbol lens s (stream buf r)"
    using next_symbol_iff [OF assms(1,3) len] by (simp add: x)
  moreover have "lens ! s \<le> inDataSize r" using assms(3,5) by simp
  with DUMPBITS_Inr obtain r' where "DUMPBITS (lens ! s) r = Inr r'" by blast
  ultimately show ?thesis using assms(9) by (auto simp: looks_up_def)
qed

lemma fixed_symbol_looks_up:
  assumes "reader_ok r" "9 \<le> inDataSize r"
  shows "looks_up fixed_lengths (stream buf r) r (jvm_check (fixed_symbol r) (\<lambda>x. Inr (Some x)))"
proof -
  let ?x = "NEXTBITS 9 r" and ?code = "rev_bits 9 (NEXTBITS 9 r)"
  have "?x < 2 ^ 9"
    using NEXTBITS_stream [OF assms, of buf] bits_value_less [of "take 9 (stream buf r)"] assms(2)
    by (simp add: stream_def)
  then have x: "reverse_9bits ?x = ?code" "?code < 512"
    using reverse_9bits_rev [of ?x] rev_bits_less [of 9 ?x] by simp_all
  have d: "drop_bit 2 ?code = ?code div 4" "drop_bit 1 ?code = ?code div 2" "drop_bit (Suc 0) ?code = ?code div 2" by (simp_all add: drop_bit_eq_div)
  note I = looks_upI [OF fixed_lengths_ok(1), of _ 9 r, OF _ _ _ assms(2,1)]
  consider "?code < 0x60" | "0x60 \<le> ?code" "?code < 0x180" | "0x180 \<le> ?code" "?code < 0x190" | "0x190 \<le> ?code" by linarith
  then show ?thesis
  proof cases
    case 1
    define s where "s = 0x100 + ?code div 4"
    have s: "256 \<le> s" "s < 280" "s - 256 = ?code div 4" using 1 by (auto simp: s_def)
    show ?thesis
      by (rule I [of s]) (use s 1 in \<open>auto simp: used_def fixed_length_nth fixed_left_code fixed_symbol_def x d Let_def
          jvm_check_assoc s_def [symmetric]\<close>)
  next
    case 2
    define s where "s = ?code div 2 - 0x30"
    have s: "s < 144" "0x30 + s = ?code div 2" using 2 by (auto simp: s_def)
    show ?thesis
      by (rule I [of s]) (use s 2 in \<open>auto simp: used_def fixed_length_nth fixed_left_code fixed_symbol_def x d Let_def
          jvm_check_assoc s_def [symmetric]\<close>)
  next
    case 3
    define s where "s = ?code div 2 + (0x118 - 0x0c0)"
    have s: "280 \<le> s" "s < 288" "0xc0 + (s - 280) = ?code div 2" "?code div 2 + 88 = s" using 3 by (auto simp: s_def)
    show ?thesis
      by (rule I [of s]) (use s 3 in \<open>auto simp: used_def fixed_length_nth fixed_left_code fixed_symbol_def x d Let_def
          jvm_check_assoc s_def [symmetric]\<close>)
  next
    case 4
    define s where "s = 0x90 + ?code - 0x190"
    have s: "144 \<le> s" "s < 256" "0x190 + (s - 144) = ?code" using 4 x(2) by (auto simp: s_def)
    show ?thesis
      by (rule I [of s]) (use s 4 in \<open>auto simp: used_def fixed_length_nth fixed_left_code fixed_symbol_def x d Let_def
          jvm_check_assoc s_def [symmetric]\<close>)
  qed
qed

lemma fixed_distance_looks_up:
  assumes "reader_ok r" "5 \<le> inDataSize r"
  shows "looks_up fixed_distances (stream buf r) r (distance_symbol True s r)"
proof -
  let ?x = "NEXTBITS 5 r"
  have "?x < 2 ^ 5"
    using NEXTBITS_stream [OF assms, of buf] bits_value_less [of "take 5 (stream buf r)"] assms(2)
    by (simp add: stream_def)
  then have x: "reverse_5bits ?x = rev_bits 5 ?x" "rev_bits 5 ?x < 32"
    using reverse_5bits_rev [of ?x] rev_bits_less [of 5 ?x] by simp_all
  show ?thesis
    by (rule looks_upI [OF fixed_lengths_ok(2), of "rev_bits 5 ?x" 5])
      (use x assms in \<open>simp_all add: used_def fixed_distances_def fixed_distance_code [unfolded fixed_distances_def]
        distance_symbol_def\<close>)
qed

end
