(* ===== verification/Inflate_Block.thy ===== *)
theory Inflate_Block
  imports Inflate_Spec
begin

text \<open>
  The loop of \<open>inflate_huffman\<close> does the steps of the format: each round is one code, an error
  means that there is no such code, or no room, and no byte is written outside the output.
\<close>

section \<open>The bytes to come\<close>

definition all_bytes :: "inflater \<Rightarrow> 8 word list" where
  "all_bytes s = in_buffer s @ (case file_rest s of None \<Rightarrow> [] | Some f \<Rightarrow> f)"

text \<open>A reader that has enough bytes does not see what comes behind them.\<close>

lemma NEEDBITS_append:
  "NEEDBITS j buf r = Inr r' \<Longrightarrow> NEEDBITS j (buf @ xs) r = Inr r'"
proof (induction j buf r rule: NEEDBITS.induct)
  case (1 j buf r)
  show ?case
  proof (cases "inDataSize r < j")
    case True
    with 1(2) obtain b r1 where b: "NEXTBYTE buf r = Inr (b, r1)"
      by (auto simp: NEEDBITS.simps [of j buf r] split: sum.splits)
    then have "NEXTBYTE (buf @ xs) r = Inr (b, r1)"
      by (auto simp: NEXTBYTE_def nth_append split: if_splits)
    with 1(1) [OF True b refl] 1(2) b True show ?thesis
      by (simp add: NEEDBITS.simps [of j buf r] NEEDBITS.simps [of j "buf @ xs" r])
  next
    case False
    with 1(2) show ?thesis by (simp add: NEEDBITS.simps [of j buf r] NEEDBITS.simps [of j "buf @ xs" r])
  qed
qed

lemma NEEDBITS_all:
  assumes "NEEDBITS j (in_buffer s) r = Inr r'" "reader_ok r" "j \<le> 25"
  shows "stream (all_bytes s) r' = stream (all_bytes s) r" "reader_ok r'" "j \<le> inDataSize r'"
    "inOffset r \<le> length (in_buffer s) \<Longrightarrow> inOffset r' \<le> length (in_buffer s)"
proof -
  have room: "has_room j r" by (rule has_room(3) [OF assms(3)])
  have "NEEDBITS j (all_bytes s) r = Inr r'" unfolding all_bytes_def by (rule NEEDBITS_append [OF assms(1)])
  from NEEDBITS_stream [OF this assms(2) room] NEEDBITS_stream [OF assms(1,2) room]
  show "stream (all_bytes s) r' = stream (all_bytes s) r" "reader_ok r'" "j \<le> inDataSize r'"
    "inOffset r \<le> length (in_buffer s) \<Longrightarrow> inOffset r' \<le> length (in_buffer s)" by simp_all
qed

lemma DUMPBITS_all:
  assumes "DUMPBITS j r = Inr r'" "reader_ok r"
  shows "stream buf r' = drop j (stream buf r)" "reader_ok r'" "inDataSize r' = inDataSize r - j"
    "inOffset r' = inOffset r" "j \<le> inDataSize r"
proof -
  show j: "j \<le> inDataSize r" using assms(1) by (simp add: DUMPBITS_def split: if_splits)
  from DUMPBITS_stream [OF assms(2) j, of buf] assms(1)
  show "stream buf r' = drop j (stream buf r)" "reader_ok r'" "inDataSize r' = inDataSize r - j" "inOffset r' = inOffset r"
    by auto
qed

section \<open>Symbols\<close>

text \<open>The tables of the block are those of the lengths \<open>ll\<close> and \<open>dl\<close>.\<close>

definition finds_symbols :: "nat list \<Rightarrow> huffman_table \<Rightarrow> bool" where
  "finds_symbols lens table =
     (\<forall>buf r. reader_ok r \<and> MAX_BITS \<le> inDataSize r \<longrightarrow>
        looks_up lens (stream buf r) r (GET_HUFFMAN_ENTRY table (h_quickBits table) r))"

definition tables_for :: "bool \<Rightarrow> inflater \<Rightarrow> nat list \<Rightarrow> nat list \<Rightarrow> bool" where
  "tables_for fixedHuffman s ll dl =
     (lengths_ok ll \<and> lengths_ok dl \<and>
      (if fixedHuffman then ll = fixed_lengths \<and> dl = fixed_distances
       else finds_symbols ll (length_buffer s) \<and> finds_symbols dl (distance_buffer s)))"

lemma symbols_look_up:
  assumes "tables_for fixedHuffman s ll dl" "reader_ok r" "MAX_BITS \<le> inDataSize r"
  shows "looks_up ll (stream buf r) r (literal_symbol fixedHuffman s r)"
    "looks_up dl (stream buf r) r (distance_symbol fixedHuffman s r)"
  using assms fixed_symbol_looks_up [OF assms(2)] fixed_distance_looks_up [OF assms(2)]
  by (auto simp: tables_for_def finds_symbols_def literal_symbol_def distance_symbol_def split: if_splits)

lemma next_symbol_unique:
  assumes "lengths_ok lens" "next_symbol lens s bs" "next_symbol lens t bs"
  shows "s = t"
proof -
  have used: "used lens s" "used lens t" using assms(2,3) by (auto simp: next_symbol_def)
  define n where "n = max (lens ! s) (lens ! t)"
  have "length (code_word lens s) \<le> length bs" "length (code_word lens t) \<le> length bs"
    using assms(2,3) by (auto simp: next_symbol_def prefix_length_le)
  then have n: "lens ! s \<le> n" "lens ! t \<le> n" "n \<le> length bs" by (auto simp: code_word_def n_def)
  from assms(2,3) have "begins_with lens s (bits_value (take n bs))" "begins_with lens t (bits_value (take n bs))"
    by (simp_all add: next_symbol_iff [OF assms(1) n(1,3)] next_symbol_iff [OF assms(1) n(2,3)])
  then show ?thesis by (rule begins_with_unique [OF assms(1)])
qed

text \<open>What a lookup in the block says about the stream.\<close>

lemma looks_up_cases:
  assumes "looks_up lens bs r res"
  obtains (symbol) c r' where "next_symbol lens c bs" "DUMPBITS (lens ! c) r = Inr r'" "res = Inr (Some (c, r'))"
  | (none) "\<And>c. \<not> next_symbol lens c bs" "res = Inr None"
  using assms by (auto simp: looks_up_def)

section \<open>A round\<close>

definition locals_in :: "inflater \<Rightarrow> huffman_locals \<Rightarrow> bool" where
  "locals_in s l =
     (reader_ok (l_reader l) \<and> inOffset (l_reader l) \<le> length (in_buffer s) \<and> outOffset l \<le> out_length s \<and>
      (if incremental s then out_length s + 258 \<le> length (l_out l) else out_length s \<le> length (l_out l)))"

definition block_of :: "inflater \<Rightarrow> huffman_locals \<Rightarrow> block_state" where
  "block_of s l = (stream (all_bytes s) (l_reader l), take (outOffset l) (l_out l))"

definition stuck :: "nat list \<Rightarrow> nat list \<Rightarrow> block_state \<Rightarrow> bool" where
  "stuck ll dl st = (\<forall>st'. \<not> code_step ll dl st st' \<and> \<not> block_end ll st st')"

text \<open>No room for the output of the next code.\<close>

definition overflows :: "inflater \<Rightarrow> nat list \<Rightarrow> nat list \<Rightarrow> block_state \<Rightarrow> bool" where
  "overflows s ll dl st =
     (\<not> incremental s \<and> (\<exists>st'. code_step ll dl st st' \<and> out_length s < length (snd st')))"

text \<open>What a round does to the block.\<close>

definition round_ok ::
  "inflater \<Rightarrow> nat list \<Rightarrow> nat list \<Rightarrow> huffman_locals \<Rightarrow> round_end \<Rightarrow> huffman_locals \<Rightarrow> bool" where
  "round_ok s ll dl l end l' =
     (length (l_out l') = length (l_out l) \<and>
      (case end of
         Again \<Rightarrow> code_step ll dl (block_of s l) (block_of s l') \<and> locals_in s l'
       | Buffer_full \<Rightarrow> incremental s \<and> code_step ll dl (block_of s l) (block_of s l') \<and>
           reader_ok (l_reader l') \<and> inOffset (l_reader l') \<le> length (in_buffer s) \<and> outOffset l' \<le> length (l_out l')
       | End_of_block \<Rightarrow> block_end ll (block_of s l) (block_of s l') \<and> locals_in s l'
       | Bad_code \<Rightarrow> l' = l \<and> (stuck ll dl (block_of s l) \<or> overflows s ll dl (block_of s l))))"

definition round_result ::
  "inflater \<Rightarrow> nat list \<Rightarrow> nat list \<Rightarrow> huffman_locals \<Rightarrow> inflate_fault + (round_end \<times> huffman_locals) \<Rightarrow> bool" where
  "round_result s ll dl l res =
     (case res of Inl f \<Rightarrow> f = Read_past_buffer | Inr (end, l') \<Rightarrow> round_ok s ll dl l end l')"

text \<open>The code steps of a stream that begins with a symbol.\<close>

lemma code_step_cases:
  assumes "lengths_ok ll" "next_symbol ll c bs" "code_step ll dl (bs, out) st'"
  shows "c \<le> 255 \<and> st' = (drop (ll ! c) bs, out @ [word_of_nat c]) \<or>
    257 \<le> c \<and> c \<le> 285 \<and> (\<exists>d. next_symbol dl d (drop (ll_extra_bits ! (c - 257)) (drop (ll ! c) bs)) \<and> d \<le> 29 \<and>
      (let bs1 = drop (ll ! c) bs; n = ll_extra_bits ! (c - 257); bs3 = drop (dl ! d) (drop n bs1); m = dist_extra_bits ! d;
           distance = dist_base ! d + bits_value (take m bs3)
       in distance \<le> length out \<and>
         st' = (drop m bs3, repeat_from distance (ll_length_base ! (c - 257) + bits_value (take n bs1)) out)))"
  using assms(3)
proof (cases rule: code_step.cases)
  case (literal_code c')
  with next_symbol_unique [OF assms(1,2)] show ?thesis by auto
next
  case (match_code c' bs1 n len bs2 d bs3 m distance)
  with next_symbol_unique [OF assms(1,2) match_code(2)] show ?thesis by (auto simp: Let_def simp del: drop_drop)
qed

lemma list_all_upt: "list_all P [0..<k] \<longleftrightarrow> (\<forall>n<k. P n)"
  by (auto simp: list_all_iff)

lemma match_lengths:
  "n < 29 \<Longrightarrow> ll_extra_bits ! n \<le> 5" "n < 29 \<Longrightarrow> 3 \<le> ll_length_base ! n"
  "n < 29 \<Longrightarrow> ll_length_base ! n + 2 ^ (ll_extra_bits ! n) \<le> 259"
  "d \<le> 29 \<Longrightarrow> dist_extra_bits ! d \<le> 13" "d \<le> 29 \<Longrightarrow> 0 < dist_base ! d"
proof -
  have "list_all (\<lambda>n. ll_extra_bits ! n \<le> 5 \<and> 3 \<le> ll_length_base ! n \<and>
      ll_length_base ! n + 2 ^ (ll_extra_bits ! n) \<le> 259) [0..<29]"
    by (simp add: upt_rec ll_extra_bits_def ll_length_base_def)
  from this [unfolded list_all_upt]
  show "n < 29 \<Longrightarrow> ll_extra_bits ! n \<le> 5" "n < 29 \<Longrightarrow> 3 \<le> ll_length_base ! n"
    "n < 29 \<Longrightarrow> ll_length_base ! n + 2 ^ (ll_extra_bits ! n) \<le> 259" by blast+
  have "list_all (\<lambda>d. dist_extra_bits ! d \<le> 13 \<and> 0 < dist_base ! d) [0..<30]"
    by (simp add: upt_rec dist_extra_bits_def dist_base_def)
  from this [unfolded list_all_upt]
  have "d < 30 \<Longrightarrow> dist_extra_bits ! d \<le> 13 \<and> 0 < dist_base ! d" by blast
  then show "d \<le> 29 \<Longrightarrow> dist_extra_bits ! d \<le> 13" "d \<le> 29 \<Longrightarrow> 0 < dist_base ! d" by simp_all
qed

lemma match_length_max:
  assumes "n < 29" "ll_extra_bits ! n \<le> inDataSize r" "reader_ok r"
  shows "ll_length_base ! n + NEXTBITS (ll_extra_bits ! n) r \<le> 258"
proof -
  let ?k = "ll_extra_bits ! n" and ?bs = "stream [] r"
  have "NEXTBITS ?k r = bits_value (take ?k ?bs)" by (rule NEXTBITS_stream [OF assms(3,2)])
  moreover have "length (take ?k ?bs) = ?k" using assms(2) by (simp add: stream_def)
  ultimately have "NEXTBITS ?k r < 2 ^ ?k" using bits_value_less [of "take ?k ?bs"] by simp
  with match_lengths(3) [OF assms(1)] show ?thesis by simp
qed

lemma put_literal_round:
  assumes "locals_in s l" "lengths_ok ll" "next_symbol ll c (fst (block_of s l))" "c \<le> 255"
    "stream (all_bytes s) r = drop (ll ! c) (fst (block_of s l))" "reader_ok r" "inOffset r \<le> length (in_buffer s)"
  shows "round_result s ll dl l (put_literal s c r l)"
proof -
  let ?l = "l\<lparr>l_reader := r, l_out := (l_out l)[outOffset l := word_of_nat c], outOffset := outOffset l + 1\<rparr>"
  have step: "code_step ll dl (block_of s l) (drop (ll ! c) (fst (block_of s l)), snd (block_of s l) @ [word_of_nat c])"
    using literal_code [OF assms(3,4), of dl "snd (block_of s l)"] by simp
  note L = assms(1) [unfolded locals_in_def]
  show ?thesis
  proof (cases "outOffset l < length (l_out l)")
    case True
    then have "block_of s ?l = (drop (ll ! c) (fst (block_of s l)), snd (block_of s l) @ [word_of_nat c])"
      using assms(5) by (simp add: block_of_def take_Suc_conv_app_nth)
    with step have step': "code_step ll dl (block_of s l) (block_of s ?l)" by simp
    have len: "length (snd (block_of s l)) = outOffset l" using True by (simp add: block_of_def)
    show ?thesis
    proof (cases "outOffset l < out_length s")
      case True
      with step' L assms(6,7) \<open>outOffset l < length (l_out l)\<close> show ?thesis
        by (simp add: put_literal_def round_result_def round_ok_def locals_in_def Let_def split: if_splits)
    next
      case False
      have "overflows s ll dl (block_of s l)" if "\<not> incremental s"
        unfolding overflows_def using that step False L len by (intro conjI exI [of _ "(_, _)"]) auto
      with step' False assms(6,7) \<open>outOffset l < length (l_out l)\<close> show ?thesis
        by (auto simp: put_literal_def round_result_def round_ok_def Let_def)
    qed
  next
    case False
    then have full: "\<not> incremental s" "outOffset l = out_length s" "outOffset l = length (l_out l)" using L by (auto split: if_splits)
    then have "overflows s ll dl (block_of s l)"
      unfolding overflows_def using step by (intro conjI exI [of _ "(_, _)"]) (auto simp: block_of_def)
    with full show ?thesis by (simp add: put_literal_def round_result_def round_ok_def Let_def)
  qed
qed

text \<open>The step of a match, when the symbols of the length and of the distance are known.\<close>

lemma match_step_iff:
  assumes "lengths_ok ll" "lengths_ok dl" "next_symbol ll c bs" "257 \<le> c" "c \<le> 285"
    "bs2 = drop (ll_extra_bits ! (c - 257)) (drop (ll ! c) bs)" "next_symbol dl d bs2" "bs3 = drop (dl ! d) bs2"
    "distance = dist_base ! d + bits_value (take (dist_extra_bits ! d) bs3)"
    "ll_extra_bits ! (c - 257) \<le> length (drop (ll ! c) bs)" "d \<le> 29 \<Longrightarrow> dist_extra_bits ! d \<le> length bs3"
  shows "code_step ll dl (bs, out) st' \<longleftrightarrow> d \<le> 29 \<and> distance \<le> length out \<and>
    st' = (drop (dist_extra_bits ! d) bs3,
      repeat_from distance (ll_length_base ! (c - 257) + bits_value (take (ll_extra_bits ! (c - 257)) (drop (ll ! c) bs))) out)"
proof
  assume "code_step ll dl (bs, out) st'"
  from code_step_cases [OF assms(1,3) this] assms(4) obtain d' where d': "next_symbol dl d' bs2"
    "d' \<le> 29" "let bs1 = drop (ll ! c) bs; n = ll_extra_bits ! (c - 257); bs3 = drop (dl ! d') (drop n bs1); m = dist_extra_bits ! d';
           distance = dist_base ! d' + bits_value (take m bs3)
       in distance \<le> length out \<and>
         st' = (drop m bs3, repeat_from distance (ll_length_base ! (c - 257) + bits_value (take n bs1)) out)"
    by (auto simp: assms(6))
  with next_symbol_unique [OF assms(2,7) d'(1)]
  show "d \<le> 29 \<and> distance \<le> length out \<and>
    st' = (drop (dist_extra_bits ! d) bs3,
      repeat_from distance (ll_length_base ! (c - 257) + bits_value (take (ll_extra_bits ! (c - 257)) (drop (ll ! c) bs))) out)"
    by (simp add: Let_def assms(6,8,9) del: drop_drop)
next
  assume a: "d \<le> 29 \<and> distance \<le> length out \<and>
    st' = (drop (dist_extra_bits ! d) bs3,
      repeat_from distance (ll_length_base ! (c - 257) + bits_value (take (ll_extra_bits ! (c - 257)) (drop (ll ! c) bs))) out)"
  then show "code_step ll dl (bs, out) st'"
    using match_code [OF assms(3-5) refl refl assms(10) refl assms(6,7) _ assms(8) refl _ assms(9)] assms(11) by simp
qed

lemma not_block_end:
  assumes "lengths_ok ll" "next_symbol ll c bs" "c \<noteq> 256"
  shows "\<not> block_end ll (bs, out) st'"
  using next_symbol_unique [OF assms(1,2)] assms(3) by (auto simp: block_end_def)

lemma put_match_round:
  assumes "locals_in s l" "tables_for fixedHuffman s ll dl" "next_symbol ll c (fst (block_of s l))" "257 \<le> c" "c \<le> 285"
    "stream (all_bytes s) r = drop (ll ! c) (fst (block_of s l))" "reader_ok r" "inOffset r \<le> length (in_buffer s)"
    "5 \<le> inDataSize r"
  shows "round_result s ll dl l (put_match fixedHuffman s c r l)"
proof -
  have ll: "lengths_ok ll" "lengths_ok dl" using assms(2) by (auto simp: tables_for_def)
  obtain bs out where st: "block_of s l = (bs, out)" by (cases "block_of s l")
  note L = assms(1) [unfolded locals_in_def]
  have out: "out = take (outOffset l) (l_out l)" "length out = outOffset l"
    using st L by (auto simp: block_of_def split: if_splits)
  let ?n = "c - 257" and ?buf = "all_bytes s"
  let ?k = "ll_extra_bits ! ?n"
  have n: "?n < 29" using assms(4,5) by simp
  have k: "?k \<le> inDataSize r" using match_lengths(1) [OF n] assms(9) by simp
  define len where "len = ll_length_base ! ?n + NEXTBITS ?k r"
  have len_value: "len = ll_length_base ! ?n + bits_value (take ?k (drop (ll ! c) bs))"
    using NEXTBITS_stream [OF assms(7) k, of ?buf] assms(6) st by (simp add: len_def)
  have len_max: "len \<le> 258" unfolding len_def by (rule match_length_max [OF n k assms(7)])
  have k_len: "?k \<le> length (drop (ll ! c) bs)"
    using k assms(6) [symmetric] st by (simp add: stream_def)
  obtain r1 where r1: "DUMPBITS ?k r = Inr r1" using DUMPBITS_Inr [OF k] by blast
  note R1 = DUMPBITS_all [OF r1 assms(7)]
  define bs2 where "bs2 = drop ?k (drop (ll ! c) bs)"
  have s1: "stream ?buf r1 = bs2" using R1(1) assms(6) st by (simp add: bs2_def)
  have res0: "put_match fixedHuffman s c r l =
      jvm_check (NEEDBITS MAX_BITS (in_buffer s) r1) (\<lambda>r.
      jvm_check (distance_symbol fixedHuffman s r) (\<lambda>d.
      case d of None \<Rightarrow> Inr (Bad_code, l)
      | Some (d0, r) \<Rightarrow>
        if d0 > MAX_ZIP_DISTANCE_CODE then Inr (Bad_code, l)
        else
          jvm_check (NEEDBITS MAX_ZIP_EXTRA_DISTANCE_BITS (in_buffer s) r) (\<lambda>r.
          let moreBits = dist_extra_bits ! d0;
              distance = dist_base ! d0 + NEXTBITS moreBits r in
          jvm_check (DUMPBITS moreBits r) (\<lambda>r.
          let buffer_full = (outOffset l + len > out_length s) in
          if outOffset l < distance then Inr (Bad_code, l)
          else if buffer_full \<and> \<not> incremental s then Inr (Bad_code, l)
          else jvm_check (copy_match distance (outOffset l - distance) (outOffset l) len (l_out l)) (\<lambda>out.
            Inr (if buffer_full then Buffer_full else Again,
                 l\<lparr>l_reader := r, l_out := out, outOffset := outOffset l + len\<rparr>))))))"
    unfolding put_match_def LITXLEN_BASE_def Let_def r1 jvm_check_simps len_def by (rule refl)
  show ?thesis
  proof (cases "NEEDBITS MAX_BITS (in_buffer s) r1")
    case (Inl f)
    with NEEDBITS_result [OF R1(2) has_room(3), of MAX_BITS "in_buffer s"] show ?thesis
      by (auto simp: res0 round_result_def)
  next
    case (Inr r2)
    note R2 = NEEDBITS_all [OF Inr R1(2)]
    have R2': "stream ?buf r2 = bs2" "reader_ok r2" "MAX_BITS \<le> inDataSize r2" "inOffset r2 \<le> length (in_buffer s)"
      using R2 s1 R1(4) assms(8) by simp_all
    from symbols_look_up(2) [OF assms(2) R2'(2,3), of ?buf] have lookup: "looks_up dl bs2 r2 (distance_symbol fixedHuffman s r2)"
      by (simp add: R2'(1))
    from lookup show ?thesis
    proof (cases rule: looks_up_cases)
      case none
      have "stuck ll dl (bs, out)"
        using code_step_cases [OF ll(1) assms(3) [unfolded st fst_conv]] not_block_end [OF ll(1) assms(3) [unfolded st fst_conv]]
          assms(4) none(1) by (fastforce simp: stuck_def bs2_def)
      then show ?thesis by (simp add: res0 Inr none(2) round_result_def round_ok_def st)
    next
      case (symbol d r3)
      have d15: "dl ! d \<le> MAX_BITS" using lengths_okD [OF ll(2)] symbol(1) by (simp add: next_symbol_def)
      note R3 = DUMPBITS_all [OF symbol(2) R2'(2)]
      define bs3 where "bs3 = drop (dl ! d) bs2"
      have s3: "stream ?buf r3 = bs3" "inOffset r3 \<le> length (in_buffer s)"
        using R3(1,4) R2'(1,4) by (simp_all add: bs3_def)
      define distance where "distance = dist_base ! d + bits_value (take (dist_extra_bits ! d) bs3)"
      note iff = match_step_iff [OF ll assms(3) [unfolded st fst_conv] assms(4,5) bs2_def symbol(1) bs3_def distance_def k_len]
      have no_end: "\<not> block_end ll (bs, out) st'" for st'
        by (rule not_block_end [OF ll(1) assms(3) [unfolded st fst_conv]]) (use assms(4) in simp)
      show ?thesis
      proof (cases "d > MAX_ZIP_DISTANCE_CODE")
        case True
        then have "stuck ll dl (bs, out)" using iff no_end by (auto simp: stuck_def MAX_ZIP_DISTANCE_CODE_def)
        with True show ?thesis by (simp add: res0 Inr symbol(3) round_result_def round_ok_def st)
      next
        case False
        then have d: "d \<le> 29" by (simp add: MAX_ZIP_DISTANCE_CODE_def)
        show ?thesis
        proof (cases "NEEDBITS MAX_ZIP_EXTRA_DISTANCE_BITS (in_buffer s) r3")
          case (Inl f)
          with NEEDBITS_result [OF R3(2) has_room(3), of MAX_ZIP_EXTRA_DISTANCE_BITS "in_buffer s"] False show ?thesis
            by (auto simp: res0 Inr symbol(3) round_result_def MAX_ZIP_EXTRA_DISTANCE_BITS_def)
        next
          case needed: (Inr r4)
          note R4 = NEEDBITS_all [OF needed R3(2)]
          have R4': "stream ?buf r4 = bs3" "reader_ok r4" "13 \<le> inDataSize r4" "inOffset r4 \<le> length (in_buffer s)"
            using R4 s3 by (simp_all add: MAX_ZIP_EXTRA_DISTANCE_BITS_def)
          have m: "dist_extra_bits ! d \<le> inDataSize r4" using match_lengths(4) [OF d] R4'(3) by simp
          obtain r5 where r5: "DUMPBITS (dist_extra_bits ! d) r4 = Inr r5" using DUMPBITS_Inr [OF m] by blast
          note R5 = DUMPBITS_all [OF r5 R4'(2)]
          have dist: "dist_base ! d + NEXTBITS (dist_extra_bits ! d) r4 = distance"
            using NEXTBITS_stream [OF R4'(2) m, of ?buf] R4'(1) by (simp add: distance_def)
          have pos: "0 < distance" using match_lengths(5) [OF d] by (simp add: distance_def)
          have "dist_extra_bits ! d \<le> length bs3" using m R4'(1) [symmetric] by (simp add: stream_def)
          note iff = iff [OF this]
          let ?full = "outOffset l + len > out_length s"
          have res: "put_match fixedHuffman s c r l =
              (if outOffset l < distance then Inr (Bad_code, l)
               else if ?full \<and> \<not> incremental s then Inr (Bad_code, l)
               else jvm_check (copy_match distance (outOffset l - distance) (outOffset l) len (l_out l)) (\<lambda>out.
                 Inr (if ?full then Buffer_full else Again,
                   l\<lparr>l_reader := r5, l_out := out, outOffset := outOffset l + len\<rparr>)))"
            unfolding res0 Inr symbol(3) needed jvm_check_simps option.case prod.case using False
            by (simp add: r5 dist Let_def)
          show ?thesis
          proof (cases "outOffset l < distance")
            case True
            then have "stuck ll dl (bs, out)" using iff no_end out(2) by (auto simp: stuck_def)
            with True show ?thesis by (simp add: res round_result_def round_ok_def st)
          next
            case far: False
            let ?st' = "(drop (dist_extra_bits ! d) bs3, repeat_from distance len out)"
            have step: "code_step ll dl (bs, out) ?st'" using iff d far out(2) by (simp add: len_value)
            show ?thesis
            proof (cases "?full \<and> \<not> incremental s")
              case True
              then have "overflows s ll dl (bs, out)"
                unfolding overflows_def using step out(2) by (intro conjI exI [of _ ?st']) auto
              with True far show ?thesis by (simp add: res round_result_def round_ok_def st)
            next
              case room: False
              have "outOffset l + len \<le> length (l_out l)" using L room len_max by (auto split: if_splits)
              from copy_match_result [OF pos _ this] far obtain out' where out':
                "copy_match distance (outOffset l - distance) (outOffset l) len (l_out l) = Inr out'"
                "length out' = length (l_out l)" "take (outOffset l + len) out' = repeat_from distance len out"
                by (auto simp: out(1))
              let ?l = "l\<lparr>l_reader := r5, l_out := out', outOffset := outOffset l + len\<rparr>"
              have "block_of s ?l = ?st'"
                using R5(1) R4'(1) out'(3) by (simp add: block_of_def)
              with step have "code_step ll dl (block_of s l) (block_of s ?l)" by (simp add: st)
              then show ?thesis
                using far room out'(1,2) R5(2,4) R4'(4) L \<open>outOffset l + len \<le> length (l_out l)\<close>
                by (auto simp: res round_result_def round_ok_def locals_in_def split: if_splits)
            qed
          qed
        qed
      qed
    qed
  qed
qed

lemma huffman_round_result:
  assumes "locals_in s l" "tables_for fixedHuffman s ll dl"
  shows "round_result s ll dl l (huffman_round fixedHuffman s l)"
proof -
  have ll: "lengths_ok ll" using assms(2) by (auto simp: tables_for_def)
  let ?buf = "all_bytes s"
  obtain bs out where st: "block_of s l = (bs, out)" by (cases "block_of s l")
  note L = assms(1) [unfolded locals_in_def]
  have r: "reader_ok (l_reader l)" "inOffset (l_reader l) \<le> length (in_buffer s)" using L by auto
  show ?thesis
  proof (cases "NEEDBITS (MAX_BITS + MAX_ZIP_EXTRA_LENGTH_BITS) (in_buffer s) (l_reader l)")
    case (Inl f)
    with NEEDBITS_result [OF r(1) has_room(3), of "MAX_BITS + MAX_ZIP_EXTRA_LENGTH_BITS" "in_buffer s"] show ?thesis
      by (auto simp: huffman_round_def round_result_def MAX_ZIP_EXTRA_LENGTH_BITS_def)
  next
    case (Inr r1)
    note R1 = NEEDBITS_all [OF Inr r(1)]
    have R1': "stream ?buf r1 = bs" "reader_ok r1" "20 \<le> inDataSize r1" "inOffset r1 \<le> length (in_buffer s)"
      using R1 st r(2) by (simp_all add: block_of_def MAX_ZIP_EXTRA_LENGTH_BITS_def)
    have "MAX_BITS \<le> inDataSize r1" using R1'(3) by simp
    from symbols_look_up(1) [OF assms(2) R1'(2) this, of ?buf]
    have lookup: "looks_up ll bs r1 (literal_symbol fixedHuffman s r1)" by (simp add: R1'(1))
    then show ?thesis
    proof (cases rule: looks_up_cases)
      case none
      have "stuck ll dl (bs, out)"
        using none(1) by (auto simp: stuck_def block_end_def elim: code_step.cases)
      then show ?thesis by (simp add: huffman_round_def Inr none(2) round_result_def round_ok_def st)
    next
      case (symbol c r2)
      have c15: "ll ! c \<le> MAX_BITS" using lengths_okD [OF ll] symbol(1) by (simp add: next_symbol_def)
      note R2 = DUMPBITS_all [OF symbol(2) R1'(2)]
      have R2': "stream ?buf r2 = drop (ll ! c) bs" "reader_ok r2" "5 \<le> inDataSize r2" "inOffset r2 \<le> length (in_buffer s)"
        using R2 R1' c15 by simp_all
      have res: "huffman_round fixedHuffman s l =
          (if c \<le> 255 then put_literal s c r2 l
           else if c = 256 then Inr (End_of_block, l\<lparr>l_reader := r2\<rparr>)
           else if c > 285 then Inr (Bad_code, l)
           else put_match fixedHuffman s c r2 l)"
        by (simp add: huffman_round_def Inr symbol(3))
      have next_c: "next_symbol ll c (fst (block_of s l))" using symbol(1) st by simp
      consider "c \<le> 255" | "c = 256" | "285 < c" | "257 \<le> c" "c \<le> 285" by linarith
      then show ?thesis
      proof cases
        case 1
        with put_literal_round [OF assms(1) ll next_c 1, of r2 dl] R2' st show ?thesis by (simp add: res)
      next
        case 2
        have "block_end ll (bs, out) (block_of s (l\<lparr>l_reader := r2\<rparr>))"
          using symbol(1) R2'(1) st 2 by (auto simp: block_end_def block_of_def)
        with 2 R2' L st show ?thesis by (auto simp: res round_result_def round_ok_def locals_in_def)
      next
        case 3
        have "stuck ll dl (bs, out)"
          using code_step_cases [OF ll symbol(1)] not_block_end [OF ll symbol(1)] 3 by (fastforce simp: stuck_def)
        with 3 show ?thesis by (simp add: res round_result_def round_ok_def st)
      next
        case 4
        with put_match_round [OF assms next_c 4, of r2] R2' st show ?thesis by (simp add: res)
      qed
    qed
  qed
qed

section \<open>The loop\<close>

lemma put_bytes_at_Inr:
  "put_bytes_at off bs xs = Inr ys \<Longrightarrow>
     off + length bs \<le> length xs \<and> ys = take off xs @ bs @ drop (off + length bs) xs"
  by (simp add: put_bytes_at_def split: if_splits)

text \<open>A refill moves the bytes that are left to the start.  Behind the end of the file there are
  bytes that the file does not have.\<close>

lemma refill_input_result:
  assumes "file_rest s \<noteq> None" "n \<le> length (in_buffer s)"
  obtains s' xs where "refill_input e n s = Inr s'" "all_bytes s' = drop n (all_bytes s) @ xs"
    "length (in_buffer s') = length (in_buffer s)" "file_rest s' \<noteq> None"
    "s' = s\<lparr>in_buffer := in_buffer s', file_rest := file_rest s'\<rparr>"
proof -
  from assms(1) obtain rest where rest: "file_rest s = Some rest" by blast
  let ?len = "length (in_buffer s)" and ?raw = "new_byte_array_raw e (length (in_buffer s))"
  let ?base = "drop n (in_buffer s) @ drop (?len - n) ?raw" and ?bs = "take n rest"
  have raw: "length ?raw = ?len" by (simp add: new_byte_array_raw_def)
  let ?buf = "drop n (in_buffer s) @ ?bs @ drop (length ?bs) (drop (?len - n) ?raw)"
  let ?s = "s\<lparr>in_buffer := ?buf, file_rest := Some (drop n rest)\<rparr>"
  have "put_bytes_at 0 (drop n (in_buffer s)) ?raw = Inr ?base"
    using assms(2) raw by (simp add: put_bytes_at_def)
  moreover have "put_bytes_at (?len - n) ?bs ?base = Inr ?buf"
    using assms(2) raw by (simp add: put_bytes_at_def)
  ultimately have "refill_input e n s = Inr ?s"
    using assms rest by (simp add: refill_input_def get_bytes_raw_def not_less Let_def)
  moreover have "length ?buf = ?len" using assms(2) raw by simp
  moreover have "\<exists>xs. all_bytes ?s = drop n (all_bytes s) @ xs"
  proof (cases "n \<le> length rest")
    case True
    then have "all_bytes ?s = drop n (all_bytes s)" using assms(2) raw rest by (simp add: all_bytes_def)
    then show ?thesis by simp
  next
    case False
    then show ?thesis using assms(2) rest by (simp add: all_bytes_def)
  qed
  then obtain xs where "all_bytes ?s = drop n (all_bytes s) @ xs" by blast
  ultimately show ?thesis by (intro that [of ?s xs]) simp_all
qed

lemma stream_append: "inOffset r \<le> length buf \<Longrightarrow> stream (buf @ xs) r = stream buf r @ concat (map byte_bits xs)"
  by (simp add: stream_def)

lemma stream_rewind: "stream (drop (inOffset r) buf) (r\<lparr>inOffset := 0\<rparr>) = stream buf r"
  by (simp add: stream_def reservoir_def)

text \<open>What a call of \<open>inflate_huffman\<close> has done to the block.\<close>

definition block_paused :: "inflater \<Rightarrow> block_state \<Rightarrow> bool" where
  "block_paused s st = (prefix (fst st) (stream (all_bytes s) (reader s)) \<and> snd st = take (out_offset s) (out_buffer s))"

definition block_left :: "nat list \<Rightarrow> inflater \<Rightarrow> block_state \<Rightarrow> bool" where
  "block_left ll s st = block_end ll st (stream (all_bytes s) (reader s), take (out_offset s) (out_buffer s))"

definition huffman_outcome ::
  "inflater \<Rightarrow> nat list \<Rightarrow> nat list \<Rightarrow> block_state \<Rightarrow> inflate_fault + (inflate_status \<times> inflater) \<Rightarrow> bool" where
  "huffman_outcome s ll dl st res =
     (case res of
        Inl f \<Rightarrow> f = Read_past_buffer
      | Inr (status, s') \<Rightarrow> length (out_buffer s') = length (out_buffer s) \<and> status \<noteq> INFLATE_COMPLETE \<and>
          (\<exists>st'. (code_step ll dl)\<^sup>*\<^sup>* st st' \<and>
            (if status = INFLATE_ERROR then stuck ll dl st' \<or> overflows s ll dl st'
             else if block_type s' = BTYPE_UNKNOWN then block_left ll s' st'
             else block_paused s' st')))"

lemma huffman_outcome_step:
  assumes "code_step ll dl st st1" "huffman_outcome s ll dl st1 res"
  shows "huffman_outcome s ll dl st res"
proof (cases res)
  case (Inr x)
  obtain status s' where x: "x = (status, s')" by (cases x)
  from assms(1) have "(code_step ll dl)\<^sup>*\<^sup>* st1 st' \<Longrightarrow> (code_step ll dl)\<^sup>*\<^sup>* st st'" for st'
    by (rule converse_rtranclp_into_rtranclp)
  with assms(2) show ?thesis unfolding Inr x huffman_outcome_def sum.case prod.case by blast
qed (use assms(2) in \<open>simp add: huffman_outcome_def\<close>)

lemma all_bytes_leave [simp]:
  "all_bytes (leave_huffman l s) = all_bytes s" "all_bytes (s\<lparr>block_type := b\<rparr>) = all_bytes s"
  by (simp_all add: all_bytes_def leave_huffman_def)

lemma leave_huffman_simps [simp]:
  "reader (leave_huffman l s) = l_reader l" "out_buffer (leave_huffman l s) = l_out l"
  "out_offset (leave_huffman l s) = outOffset l" "block_type (leave_huffman l s) = block_type s"
  by (simp_all add: leave_huffman_def)

lemma huffman_loop_outcome:
  assumes "locals_in s l" "tables_for fixedHuffman s ll dl" "file_rest s \<noteq> None" "block_type s \<noteq> BTYPE_UNKNOWN"
    "length (l_out l) = length (out_buffer s)"
  shows "huffman_outcome s ll dl (block_of s l) (huffman_loop e fixedHuffman s l)"
  using assms
proof (induction e fixedHuffman s l rule: huffman_loop.induct)
  case (1 e fixedHuffman s l)
  note L = 1(2) [unfolded locals_in_def]
  show ?case
  proof (cases "inOffset (l_reader l) \<ge> in_length s")
    case True
    from L have "inOffset (l_reader l) \<le> length (in_buffer s)" by simp
    with 1(4) obtain s1 xs where s1: "refill_input e (inOffset (l_reader l)) s = Inr s1"
      "all_bytes s1 = drop (inOffset (l_reader l)) (all_bytes s) @ xs"
      "s1 = s\<lparr>in_buffer := in_buffer s1, file_rest := file_rest s1\<rparr>"
      by (rule refill_input_result [where e = e]) blast
    let ?r = "(l_reader l)\<lparr>inOffset := 0\<rparr>"
    have "block_type s1 = block_type s" by (subst s1(3)) simp
    moreover have "prefix (stream (all_bytes s) (l_reader l)) (stream (all_bytes s1) ?r)"
      using stream_append [of ?r "drop (inOffset (l_reader l)) (all_bytes s)" xs] by (simp add: s1(2) stream_rewind)
    ultimately show ?thesis
      using True s1(1) 1(5,6)
      by (auto simp: huffman_loop.simps [of e fixedHuffman s l] huffman_outcome_def block_of_def
          block_paused_def intro!: exI [of _ "stream (all_bytes s) (l_reader l)"])
  next
    case False
    note result = huffman_round_result [OF 1(2,3)]
    show ?thesis
    proof (cases "huffman_round fixedHuffman s l")
      case (Inl f)
      with result False show ?thesis
        by (simp add: huffman_loop.simps [of e fixedHuffman s l] huffman_outcome_def round_result_def)
    next
      case (Inr x)
      then obtain end' l' where x: "huffman_round fixedHuffman s l = Inr (end', l')" by (cases x) auto
      with result have ok: "round_ok s ll dl l end' l'" by (simp add: round_result_def)
      note loop = huffman_loop.simps [of e fixedHuffman s l]
      show ?thesis
      proof (cases end')
        case Again
        then have step: "code_step ll dl (block_of s l) (block_of s l')" "locals_in s l'" "length (l_out l') = length (out_buffer s)"
          using ok 1(6) by (simp_all add: round_ok_def)
        from 1(1) [OF False x refl Again step(2) 1(3-5) step(3)]
        show ?thesis using x Again False step(1) by (simp add: loop huffman_outcome_step)
      next
        case End_of_block
        then have "block_left ll ((leave_huffman l' s)\<lparr>block_type := BTYPE_UNKNOWN\<rparr>) (block_of s l)"
          using ok by (simp add: round_ok_def block_left_def block_of_def)
        moreover obtain bs out where "block_of s l = (bs, out)" by (cases "block_of s l")
        ultimately show ?thesis using x End_of_block False ok 1(6)
          by (auto simp: loop huffman_outcome_def round_ok_def)
      next
        case Buffer_full
        then have "block_paused (leave_huffman l' s) (block_of s l')" "code_step ll dl (block_of s l) (block_of s l')"
          using ok by (simp_all add: round_ok_def block_paused_def block_of_def)
        moreover from this(2) have "(code_step ll dl)\<^sup>*\<^sup>* (block_of s l) (block_of s l')" by simp
        moreover obtain bs out where "block_of s l' = (bs, out)" by (cases "block_of s l'")
        ultimately show ?thesis using x Buffer_full False ok 1(5,6)
          by (auto simp: loop huffman_outcome_def round_ok_def)
      next
        case Bad_code
        moreover obtain bs out where "block_of s l = (bs, out)" by (cases "block_of s l")
        ultimately show ?thesis using x False ok 1(6)
          by (auto simp: loop huffman_outcome_def round_ok_def)
      qed
    qed
  qed
qed

section \<open>The whole operation\<close>

text \<open>What a call relies on: the buffers as \<open>allocate_inflater\<close> makes them.\<close>

definition inflater_ok :: "inflater \<Rightarrow> bool" where
  "inflater_ok s =
     (reader_ok (reader s) \<and> inOffset (reader s) \<le> length (in_buffer s) \<and>
      (incremental s \<longrightarrow> EXTRA_OUTPUT_BYTES \<le> length (out_buffer s)) \<and>
      length (out_buffer s) < 2 ^ 32 \<and> out_offset s \<le> out_length s)"

definition locals_of :: "inflater \<Rightarrow> huffman_locals" where
  "locals_of s = \<lparr>l_reader = reader s, l_out = out_buffer s, outOffset = out_offset s\<rparr>"

lemma out_length_room:
  assumes "inflater_ok s"
  shows "out_length s = length (out_buffer s) - (if incremental s then EXTRA_OUTPUT_BYTES else 0)"
  using assms by (auto simp: out_length_def inflater_ok_def u32_def EXTRA_OUTPUT_BYTES_def of_nat_diff)

lemma locals_of_in: "inflater_ok s \<Longrightarrow> locals_in s (locals_of s)"
  using out_length_room [of s]
  by (auto simp: locals_in_def locals_of_def inflater_ok_def EXTRA_OUTPUT_BYTES_def)

lemma inflate_huffman_outcome:
  assumes "inflater_ok s" "tables_for fixedHuffman s ll dl" "file_rest s \<noteq> None" "block_type s \<noteq> BTYPE_UNKNOWN"
  shows "huffman_outcome s ll dl (stream (all_bytes s) (reader s), take (out_offset s) (out_buffer s))
    (inflate_huffman e fixedHuffman s)"
  using huffman_loop_outcome [OF locals_of_in [OF assms(1)] assms(2-4)]
  by (simp add: inflate_huffman_def locals_of_def block_of_def)

end
