(* ===== verification/Huffman_Heuristic.thy ===== *)
theory Huffman_Heuristic
  imports Huffman_Correct
begin

text \<open>
  The heuristic of \<open>make_code_table\<close> (\<open>EnableLookupTableSizeHeuristic\<close>, on by default) chooses the
  bits of the main table so that the two levels are smallest.  A pointer to a long table has 15
  bits; with the heuristic too, it reaches every long table of an alphabet of the format.
\<close>

definition two_level_size :: "nat list \<Rightarrow> nat \<Rightarrow> nat \<Rightarrow> nat" where
  "two_level_size lens L b = (2 ^ b - space_below lens (Suc b) div 2 ^ (MAX_BITS - b)) * 2 ^ (L - b) + 2 ^ b"

lemma heuristic_size_value:
  assumes "lengths_ok lens" "b \<le> L" "L \<le> MAX_BITS"
  shows "heuristic_size L b (space_below lens (Suc b)) = int (two_level_size lens L b)"
proof -
  let ?n = "2 ^ b - space_below lens (Suc b) div 2 ^ (MAX_BITS - b)"
  have "b \<le> MAX_BITS" using assms(2,3) by simp
  note n = number_of_long_tables [OF assms(1) this refl]
  have "?n * 2 ^ (L - b) \<le> 2 ^ b * 2 ^ (L - b)" by (intro mult_le_mono1) simp
  also have "\<dots> = 2 ^ L" using assms(2) by (simp flip: power_add)
  finally have a: "?n * 2 ^ (L - b) \<le> 2 ^ L" .
  have p: "(2 :: nat) ^ L \<le> 2 ^ MAX_BITS" "(2 :: nat) ^ b \<le> 2 ^ MAX_BITS"
    using assms(2,3) by (intro power_increasing; simp)+
  have u32_id: "x < 2 ^ 32 \<Longrightarrow> u32 (int x) = int x" for x :: nat by (simp add: u32_def)
  have "push_bit (L - b) (int ?n) = int (?n * 2 ^ (L - b))" by (simp only: push_bit_eq_mult of_nat_mult of_nat_power of_nat_numeral)
  moreover have "u32 (int (?n * 2 ^ (L - b))) = int (?n * 2 ^ (L - b))" by (rule u32_id) (use a p(1) in simp)
  moreover have "int (?n * 2 ^ (L - b)) + 2 ^ b = int (two_level_size lens L b)"
    by (simp only: two_level_size_def of_nat_add of_nat_power of_nat_numeral)
  moreover have "u32 (int (two_level_size lens L b)) = int (two_level_size lens L b)"
    by (rule u32_id) (use a p in \<open>simp add: two_level_size_def\<close>)
  ultimately show ?thesis unfolding heuristic_size_def Let_def n(1) by (simp only:)
qed

lemma two_level_size_scaled:
  assumes "lengths_ok lens" "b \<le> L" "L \<le> MAX_BITS"
  shows "two_level_size lens L b * 2 ^ (MAX_BITS - L) + space_below lens (Suc b) = 2 ^ MAX_BITS + 2 ^ b * 2 ^ (MAX_BITS - L)"
proof -
  let ?c = "space_below lens (Suc b)"
  have b: "b \<le> MAX_BITS" using assms(2,3) by simp
  obtain m where m: "?c = m * 2 ^ (MAX_BITS - b)"
    using space_below_dvd [OF assms(1), of b] by (auto simp: dvd_def mult.commute)
  have "m \<le> 2 ^ b" using number_of_long_tables(2) [OF assms(1) b refl] by (simp add: m)
  then obtain n where n: "2 ^ b = m + n" using le_Suc_ex by blast
  have split: "(2 :: nat) ^ (MAX_BITS - b) = 2 ^ (L - b) * 2 ^ (MAX_BITS - L)" "(2 :: nat) ^ MAX_BITS = 2 ^ b * 2 ^ (MAX_BITS - b)"
    using assms(2,3) by (simp_all flip: power_add)
  have "two_level_size lens L b = n * 2 ^ (L - b) + 2 ^ b"
    by (simp add: two_level_size_def m) (simp add: n)
  then show ?thesis
    unfolding m split(2) split(1) n by (simp add: algebra_simps)
qed

section \<open>The choice\<close>

definition best_so_far :: "nat list \<Rightarrow> nat \<Rightarrow> nat \<Rightarrow> length_scan \<Rightarrow> bool" where
  "best_so_far lens L n c =
     (scanned lens n c \<and> (if n = 0 then sc_optQuickBits c = 0 else
        1 \<le> sc_optQuickBits c \<and> sc_optQuickBits c \<le> n \<and>
        sc_optTableSize c = int (two_level_size lens L (sc_optQuickBits c)) \<and>
        (\<forall>b. 1 \<le> b \<and> b \<le> n \<longrightarrow> two_level_size lens L (sc_optQuickBits c) \<le> two_level_size lens L b)))"

lemma best_step:
  assumes "best_so_far lens L n c" "scanned lens (Suc n) c1" "heuristic_size L (Suc n) (sc_code c1) = int (two_level_size lens L (Suc n))"
    "sc_optQuickBits c1 = sc_optQuickBits c" "sc_optTableSize c1 = sc_optTableSize c"
  shows "best_so_far lens L (Suc n) (scan_quick L (Suc n) c1)"
proof (cases "n = 0 \<or> two_level_size lens L (Suc n) < two_level_size lens L (sc_optQuickBits c)")
  case True
  then have "sc_optQuickBits c = 0 \<or> int (two_level_size lens L (Suc n)) < sc_optTableSize c"
    using assms(1) by (auto simp: best_so_far_def split: if_splits)
  then have "scan_quick L (Suc n) c1 =
      c1\<lparr>sc_optTableSize := int (two_level_size lens L (Suc n)), sc_optQuickBits := Suc n\<rparr>"
    unfolding scan_quick_def Let_def assms(3-5) by simp
  moreover have "two_level_size lens L (Suc n) \<le> two_level_size lens L b" if "1 \<le> b" "b \<le> Suc n" for b
  proof (cases "b = Suc n")
    case False
    then have "b \<le> n" "n \<noteq> 0" using that by auto
    with True assms(1) that(1) show ?thesis by (fastforce simp: best_so_far_def)
  qed simp
  ultimately show ?thesis using assms(2) by (simp add: best_so_far_def scanned_def)
next
  case False
  then have n: "n \<noteq> 0" "two_level_size lens L (sc_optQuickBits c) \<le> two_level_size lens L (Suc n)" by auto
  then have "sc_optQuickBits c \<noteq> 0" "sc_optTableSize c = int (two_level_size lens L (sc_optQuickBits c))"
    using assms(1) by (auto simp: best_so_far_def)
  with n have "scan_quick L (Suc n) c1 = c1"
    unfolding scan_quick_def Let_def assms(3-5) by simp
  moreover have "two_level_size lens L (sc_optQuickBits c) \<le> two_level_size lens L b" if "1 \<le> b" "b \<le> Suc n" for b
    using n assms(1) that by (cases "b = Suc n") (auto simp: best_so_far_def)
  ultimately show ?thesis using assms(1,2,4,5) n(1) by (simp add: best_so_far_def)
qed

lemma heuristic_best:
  assumes "\<And>l. l \<le> MAX_BITS \<Longrightarrow> counts ! l = count_list lens l" "lengths_ok lens" "L \<le> MAX_BITS" "n \<le> L"
  shows "best_so_far lens L n (fold (\<lambda>b c. scan_quick L b (scan_code counts b c)) [1..<n + 1] scan_start)"
  using assms(4)
proof (induction n)
  case 0
  show ?case using space_below_1 [of lens] by (simp add: best_so_far_def scanned_def scan_start_def)
next
  case (Suc n)
  define c where "c = fold (\<lambda>b c. scan_quick L b (scan_code counts b c)) [1..<n + 1] scan_start"
  let ?c1 = "scan_code counts (Suc n) c"
  have c: "best_so_far lens L n c" using Suc by (simp add: c_def)
  then have s: "scanned lens (Suc n) ?c1"
    using Suc.prems assms(3) by (intro scan_code_scanned [OF _ _ assms(1)]) (auto simp: best_so_far_def)
  then have "heuristic_size L (Suc n) (sc_code ?c1) = int (two_level_size lens L (Suc n))"
    using heuristic_size_value [OF assms(2) Suc.prems assms(3)] by (simp add: scanned_def)
  from best_step [OF c s this] have "best_so_far lens L (Suc n) (scan_quick L (Suc n) ?c1)"
    by (simp add: scan_code_def)
  then show ?case by (simp add: c_def)
qed

section \<open>The reach of a pointer\<close>

lemma space_between:
  assumes "a \<le> 14"
  shows "code_space lens (\<lambda>_. True) \<le> space_below lens (Suc a) + length lens * 2 ^ (14 - a)"
proof -
  have "code_space lens (\<lambda>_. True) = code_space lens (\<lambda>t. lens ! t < Suc a \<or> a < lens ! t)"
    by (rule arg_cong [of _ _ "code_space lens"]) auto
  also have "\<dots> = space_below lens (Suc a) + code_space lens (\<lambda>t. a < lens ! t)"
    unfolding space_below_def by (rule code_space_add) auto
  also have "code_space lens (\<lambda>t. a < lens ! t) \<le> of_nat (card {t. used lens t \<and> a < lens ! t}) * 2 ^ (14 - a)"
    unfolding code_space_sum
  proof (rule sum_bounded_above)
    fix t
    assume "t \<in> {t. used lens t \<and> a < lens ! t}"
    then show "(2 :: nat) ^ (MAX_BITS - lens ! t) \<le> 2 ^ (14 - a)" by (intro power_increasing) auto
  qed
  moreover have "card {t. used lens t \<and> a < lens ! t} \<le> card {..<length lens}"
    by (rule card_mono) (auto simp: used_def)
  then have "card {t. used lens t \<and> a < lens ! t} * 2 ^ (14 - a) \<le> length lens * 2 ^ (14 - a)"
    by (intro mult_le_mono1) simp
  ultimately show ?thesis by (simp only: of_nat_id)
qed

lemma space_below_total: "space_below lens b \<le> code_space lens (\<lambda>_. True)"
  unfolding space_below_def by (rule code_space_mono) simp

text \<open>The long prefixes lie before the end of the code.\<close>

lemma long_prefix_space:
  assumes "lengths_ok lens" "q \<le> MAX_BITS" "i < card (long_prefixes lens q)"
  shows "space_below lens (Suc q) + i * 2 ^ (MAX_BITS - q) < code_space lens (\<lambda>_. True)"
proof -
  let ?B = "(2 :: nat) ^ (MAX_BITS - q)" and ?T = "code_space lens (\<lambda>_. True)"
  let ?S = "{s. used lens s \<and> q < lens ! s}"
  have below: "left_code lens s < ?T" if "used lens s" for s
  proof -
    have "left_code lens s + 2 ^ (MAX_BITS - lens ! s) = code_space lens (\<lambda>t. code_before lens t s \<or> t = s)"
      unfolding left_code_def code_space_one [OF that, symmetric]
      by (rule code_space_add [symmetric]) (auto simp: code_before_def)
    also have "\<dots> \<le> ?T" by (rule code_space_mono) simp
    finally show ?thesis using zero_less_power [of "2 :: nat" "MAX_BITS - lens ! s"] by linarith
  qed
  obtain a where a: "space_below lens (Suc q) = a * ?B"
    using space_below_dvd [OF assms(1), of q] by (auto simp: dvd_def mult.commute)
  have "?S \<noteq> {}"
  proof
    assume "?S = {}"
    then have "long_prefixes lens q = {}" unfolding long_prefixes_def by (simp only: image_empty)
    with assms(3) show False by simp
  qed
  then have T: "0 < ?T" using below by fastforce
  have "left_code lens s div ?B \<in> {a..<(?T - 1) div ?B + 1}" if "used lens s" "q < lens ! s" for s
  proof -
    have "left_code lens s \<le> ?T - 1" using below [OF that(1)] by simp
    then have "left_code lens s div ?B \<le> (?T - 1) div ?B" by (rule div_le_mono)
    then show ?thesis using div_le_mono [OF long_codes_above [OF that], of ?B] by (simp add: a)
  qed
  then have "(\<lambda>s. left_code lens s div ?B) ` ?S \<subseteq> {a..<(?T - 1) div ?B + 1}" by auto
  from card_mono [OF _ this] assms(3) have "a + i \<le> (?T - 1) div ?B"
    by (simp add: card_by_reversed [OF assms(1,2)])
  then have "(a + i) * ?B \<le> ?T - 1"
    by (meson div_times_less_eq_dividend le_trans mult_le_mono1)
  with T show ?thesis by (simp add: a add_mult_distrib)
qed

lemma pointers_fit_heuristic:
  assumes "lengths_ok lens" "length lens \<le> 320"
  shows "pointers_fit True lens maxq"
proof -
  have "list_all (\<lambda>l. l \<le> MAX_BITS) lens" using assms(1) by (simp add: lengths_ok_def)
  then obtain counts where counts: "count_lengths lens = Inr counts" "\<And>l. l \<le> MAX_BITS \<Longrightarrow> counts ! l = count_list lens l"
    by (rule count_lengths_result) blast
  define L where "L = max_code_len counts"
  have L: "L \<le> MAX_BITS" using max_code_len_bound(1) [OF counts(2) assms(1)] by (simp add: L_def)
  define q where "q = sc_optQuickBits (scan_heuristic counts L)"
  have best: "best_so_far lens L L (scan_heuristic counts L)"
    unfolding scan_heuristic_def by (rule heuristic_best [OF counts(2) assms(1) L order.refl])
  then have q: "q \<le> L" by (auto simp: best_so_far_def q_def split: if_splits)
  let ?D = "(2 :: nat) ^ (MAX_BITS - L)" and ?T = "code_space lens (\<lambda>_. True)"
  have min: "space_below lens (Suc b) + 2 ^ q * ?D \<le> space_below lens (Suc q) + 2 ^ b * ?D" if "1 \<le> b" "b \<le> L" for b
  proof -
    have "two_level_size lens L q \<le> two_level_size lens L b"
      using best that by (simp add: best_so_far_def q_def)
    then have "two_level_size lens L q * ?D \<le> two_level_size lens L b * ?D" by (rule mult_le_mono1)
    with two_level_size_scaled [OF assms(1) that(2) L] two_level_size_scaled [OF assms(1) q L] show ?thesis by linarith
  qed
  have "entry_delta (long_base q L i) < 2 ^ 15" if "i < card (long_prefixes lens q)" for i
  proof -
    have q15: "q \<le> MAX_BITS" using q L by simp
    have "long_base q L i * ?D = 2 ^ q * ?D + i * 2 ^ (MAX_BITS - q)"
      using q L by (simp add: long_base_def add_mult_distrib) (simp flip: power_add)
    with long_prefix_space [OF assms(1) q15 that]
    have base: "long_base q L i * ?D + space_below lens (Suc q) < 2 ^ q * ?D + ?T" by linarith
    have D: "0 < ?D" by simp
    have n: "length lens * 2 ^ k \<le> 320 * 2 ^ k" for k using assms(2) by simp
    have "long_base q L i < 16382"
    proof (cases "q \<le> 11")
      case q11: True
      show ?thesis
      proof (cases "L \<le> 11")
        case True
        have "?T \<le> 2 ^ MAX_BITS" using assms(1) by (simp add: lengths_ok_def)
        also have "\<dots> = 2 ^ L * ?D" using L by (simp flip: power_add)
        finally have "long_base q L i * ?D < (2 ^ q + 2 ^ L) * ?D" using base by (simp add: add_mult_distrib)
        then have "long_base q L i < 2 ^ q + 2 ^ L" using D by simp
        moreover have "(2 :: nat) ^ q \<le> 2 ^ 11" "(2 :: nat) ^ L \<le> 2 ^ 11"
          using q11 True by (intro power_increasing; simp)+
        ultimately show ?thesis by simp
      next
        case False
        then have "space_below lens 12 + 2 ^ q * ?D \<le> space_below lens (Suc q) + 2 ^ 11 * ?D" using min [of 11] by simp
        moreover have "?T \<le> space_below lens 12 + 2560" using space_between [of 11 lens] n [of 3] by simp
        ultimately have "long_base q L i * ?D < 2 ^ 11 * ?D + 2560" using base by linarith
        also have "\<dots> \<le> 4608 * ?D" using D by (simp del: zero_less_power)
        finally show ?thesis by simp
      qed
    next
      case False
      then have q12: "12 \<le> q" by simp
      have "space_below lens 10 + 2 ^ q * ?D \<le> space_below lens (Suc q) + 2 ^ 9 * ?D" using min [of 9] q q12 by simp
      moreover have "space_below lens (Suc q) \<le> space_below lens 10 + 10240"
        using space_below_total [of lens "Suc q"] space_between [of 9 lens] n [of 5] by simp
      ultimately have "2 ^ q * ?D \<le> 10240 + 512 * ?D" by simp
      also have "\<dots> \<le> 10752 * ?D" using D by (simp del: zero_less_power)
      finally have "(2 :: nat) ^ q \<le> 10752" by simp
      then have "(2 :: nat) ^ q < 2 ^ 14" by simp
      then have q13: "q \<le> 13" by (simp only: power_strict_increasing_iff)
      then have p: "(2 :: nat) ^ q \<le> 2 ^ 13" "(2 :: nat) ^ (14 - q) \<le> 2 ^ 2"
        using q12 by (intro power_increasing; simp)+
      have "length lens * 2 ^ (14 - q) \<le> 320 * 2 ^ 2" using assms(2) p(2) by (intro mult_le_mono)
      then have "?T \<le> space_below lens (Suc q) + 1280" using space_between [of q lens] q13 by simp
      then have "long_base q L i * ?D < 2 ^ q * ?D + 1280" using base by linarith
      also have "\<dots> \<le> (2 ^ q + 1280) * ?D" using D by (simp add: add_mult_distrib del: zero_less_power)
      finally have "long_base q L i < 2 ^ q + 1280" by simp
      with p(1) show ?thesis by simp
    qed
    then show ?thesis by (simp add: entry_delta_def)
  qed
  then show ?thesis
    using q by (simp add: pointers_fit_def table_bits_def counts(1) scan_counts_def Let_def L_def q_def min_absorb2)
qed

end
