(* ===== verification/Inflate_Dynamic.thy ===== *)
theory Inflate_Dynamic
  imports Inflate_Block Huffman_Heuristic
begin

text \<open>
  The header of a block with its own codes (RFC 1951, section 3.2.7), and that
  \<open>decode_dynamic_huffman_tables\<close> makes the tables of the codes that the header describes.
\<close>

section \<open>The header\<close>

text \<open>The lengths of the codes for the code lengths, three bits each.\<close>

definition code_length_lengths :: "nat \<Rightarrow> bool list \<Rightarrow> nat list" where
  "code_length_lengths n bs =
     fold (\<lambda>i cl. cl[ccode_idx ! i := bits_value (take 3 (drop (3 * i) bs))]) [0..<n] (replicate 19 0)"

text \<open>A code length, or a repeat code.\<close>

inductive length_step :: "nat list \<Rightarrow> bool list \<times> nat list \<Rightarrow> bool list \<times> nat list \<Rightarrow> bool" for cl where
  one_length: "next_symbol cl v bs \<Longrightarrow> v \<le> 15 \<Longrightarrow> length_step cl (bs, acc) (drop (cl ! v) bs, acc @ [v])"
| repeat_last: "next_symbol cl 16 bs \<Longrightarrow> acc \<noteq> [] \<Longrightarrow> bs1 = drop (cl ! 16) bs \<Longrightarrow> 2 \<le> length bs1 \<Longrightarrow>
    length_step cl (bs, acc) (drop 2 bs1, acc @ replicate (3 + bits_value (take 2 bs1)) (last acc))"
| few_zeros: "next_symbol cl 17 bs \<Longrightarrow> bs1 = drop (cl ! 17) bs \<Longrightarrow> 3 \<le> length bs1 \<Longrightarrow>
    length_step cl (bs, acc) (drop 3 bs1, acc @ replicate (3 + bits_value (take 3 bs1)) 0)"
| many_zeros: "next_symbol cl 18 bs \<Longrightarrow> bs1 = drop (cl ! 18) bs \<Longrightarrow> 7 \<le> length bs1 \<Longrightarrow>
    length_step cl (bs, acc) (drop 7 bs1, acc @ replicate (11 + bits_value (take 7 bs1)) 0)"

inductive_cases length_stepE: "length_step cl (bs, acc) st"

definition field :: "nat \<Rightarrow> nat \<Rightarrow> bool list \<Rightarrow> nat" where
  "field i n bs = bits_value (take n (drop i bs))"

text \<open>The lengths that follow the three numbers of the header.\<close>

definition header_lengths :: "bool list \<Rightarrow> nat list" where
  "header_lengths bs = code_length_lengths (4 + field 10 4 bs) (drop 14 bs)"

text \<open>Code lengths are read as long as there are fewer than the header says; a repeat may go past the last one.\<close>

definition reads_length :: "nat \<Rightarrow> nat list \<Rightarrow> bool list \<times> nat list \<Rightarrow> bool list \<times> nat list \<Rightarrow> bool" where
  "reads_length n cl x y = (length (snd x) < n \<and> length_step cl x y)"

definition dynamic_header :: "bool list \<Rightarrow> nat list \<Rightarrow> nat list \<Rightarrow> bool list \<Rightarrow> bool" where
  "dynamic_header bs ll dl bs' =
     (\<exists>acc. (reads_length (258 + field 0 5 bs + field 5 5 bs) (header_lengths bs))\<^sup>*\<^sup>* (drop (14 + 3 * (4 + field 10 4 bs)) bs, []) (bs', acc) \<and>
        258 + field 0 5 bs + field 5 5 bs \<le> length acc \<and>
        ll = take (257 + field 0 5 bs) acc \<and> dl = take (1 + field 5 5 bs) (drop (257 + field 0 5 bs) acc))"

section \<open>More bits behind the stream\<close>

lemma next_symbol_more: "next_symbol lens s bs \<Longrightarrow> next_symbol lens s (bs @ xs) \<and> lens ! s \<le> length bs"
  by (auto simp: next_symbol_def code_word_def dest: prefix_length_le intro: prefix_order.trans)

lemma length_step_more:
  assumes "length_step cl (bs, acc) (bs', acc')"
  shows "length_step cl (bs @ xs, acc) (bs' @ xs, acc')"
  using assms
proof (cases rule: length_step.cases)
  case (one_length v)
  with next_symbol_more [OF one_length(3), of xs] length_step.one_length [of cl v "bs @ xs" acc] show ?thesis by simp
next
  case (repeat_last bs1)
  with next_symbol_more [OF repeat_last(3), of xs] length_step.repeat_last [of cl "bs @ xs" acc "bs1 @ xs"] show ?thesis
    by simp
next
  case (few_zeros bs1)
  with next_symbol_more [OF few_zeros(3), of xs] length_step.few_zeros [of cl "bs @ xs" "bs1 @ xs" acc] show ?thesis
    by simp
next
  case (many_zeros bs1)
  with next_symbol_more [OF many_zeros(3), of xs] length_step.many_zeros [of cl "bs @ xs" "bs1 @ xs" acc] show ?thesis
    by simp
qed

lemma code_length_lengths_Suc:
  "code_length_lengths (Suc n) bs = (code_length_lengths n bs)[ccode_idx ! n := bits_value (take 3 (drop (3 * n) bs))]"
  by (simp add: code_length_lengths_def)

lemma code_length_lengths_length [simp]: "length (code_length_lengths n bs) = 19"
  by (induction n) (simp_all add: code_length_lengths_Suc, simp add: code_length_lengths_def)

lemma code_length_lengths_more: "3 * n \<le> length bs \<Longrightarrow> code_length_lengths n (bs @ xs) = code_length_lengths n bs"
  by (induction n) (simp_all add: code_length_lengths_Suc, simp add: code_length_lengths_def)

section \<open>Reading\<close>

definition reads_ok :: "inflater \<Rightarrow> bit_reader \<Rightarrow> bool" where
  "reads_ok s r = (file_rest s \<noteq> None \<and> reader_ok r \<and> inOffset r \<le> length (in_buffer s))"

abbreviation bits_at :: "inflater \<Rightarrow> bit_reader \<Rightarrow> bool list" where
  "bits_at s r \<equiv> stream (all_bytes s) r"

text \<open>Only the input has changed.\<close>

definition input_only :: "inflater \<Rightarrow> inflater \<Rightarrow> bool" where
  "input_only s s' = (s' = s\<lparr>in_buffer := in_buffer s', file_rest := file_rest s'\<rparr> \<and>
     (file_rest s = Some [] \<longrightarrow> file_rest s' = Some []))"

text \<open>More bits come only when the file has ended: they are what the buffer holds behind its bytes.\<close>

definition behind_file :: "bool list \<Rightarrow> inflater \<Rightarrow> bool" where
  "behind_file xs s = (xs = [] \<or> file_rest s = Some [])"

lemma behind_file_trans: "behind_file xs s1 \<Longrightarrow> input_only s1 s2 \<Longrightarrow> behind_file ys s2 \<Longrightarrow> behind_file (xs @ ys) s2"
  by (auto simp: behind_file_def input_only_def)

lemma input_only_refl [simp]: "input_only s s" by (simp add: input_only_def)

lemma input_only_trans: "input_only s1 s2 \<Longrightarrow> input_only s2 s3 \<Longrightarrow> input_only s1 s3"
  by (cases s1; cases s2; cases s3) (simp add: input_only_def)

lemma input_only_fields:
  "input_only s s' \<Longrightarrow> out_buffer s' = out_buffer s \<and> out_offset s' = out_offset s \<and> block_type s' = block_type s \<and>
     last_block s' = last_block s \<and> incremental s' = incremental s"
  by (cases s; cases s') (simp add: input_only_def)

lemma need_bits:
  assumes "NEEDBITS j (in_buffer s) r = Inr r'" "reads_ok s r" "j \<le> 25"
  shows "reads_ok s r'" "bits_at s r' = bits_at s r" "j \<le> inDataSize r'" "j \<le> length (bits_at s r)"
proof -
  have r: "reader_ok r" using assms(2) by (simp add: reads_ok_def)
  note N = NEEDBITS_all [OF assms(1) r assms(3)]
  show "reads_ok s r'" "bits_at s r' = bits_at s r" "j \<le> inDataSize r'" using N assms(2) by (auto simp: reads_ok_def)
  then show "j \<le> length (bits_at s r)" by (metis (no_types, lifting) le_trans length_append le_add1 reservoir_length stream_def)
qed

lemma dump_bits:
  assumes "DUMPBITS j r = Inr r'" "reads_ok s r"
  shows "reads_ok s r'" "bits_at s r' = drop j (bits_at s r)" "NEXTBITS j r = bits_value (take j (bits_at s r))"
    "inDataSize r' = inDataSize r - j" "j \<le> inDataSize r" "j \<le> length (bits_at s r)"
proof -
  have r: "reader_ok r" using assms(2) by (simp add: reads_ok_def)
  note D = DUMPBITS_all [OF assms(1) r]
  show "reads_ok s r'" "bits_at s r' = drop j (bits_at s r)" "inDataSize r' = inDataSize r - j" "j \<le> inDataSize r"
    using D assms(2) by (auto simp: reads_ok_def)
  then show "NEXTBITS j r = bits_value (take j (bits_at s r))" "j \<le> length (bits_at s r)"
    using NEXTBITS_stream [OF r] by (auto simp: stream_def)
qed

lemma refill_input_end:
  assumes "refill_input e n s = Inr s1" "file_rest s \<noteq> None" "n \<le> length (in_buffer s)" "all_bytes s1 = drop n (all_bytes s) @ xs"
  shows "xs = [] \<or> file_rest s1 = Some []" "file_rest s = Some [] \<Longrightarrow> file_rest s1 = Some []"
proof -
  from assms(2) obtain rest where rest: "file_rest s = Some rest" by blast
  then have s1: "file_rest s1 = Some (drop n rest)" "length (in_buffer s1) = length (in_buffer s) \<or> length rest < n"
    using assms(1,3) by (auto simp: refill_input_def get_bytes_raw_def put_bytes_at_def new_byte_array_raw_def Let_def not_less
      elim!: jvm_check_InrE split: if_splits)
  show "file_rest s = Some [] \<Longrightarrow> file_rest s1 = Some []" using s1(1) rest by simp
  show "xs = [] \<or> file_rest s1 = Some []"
  proof (cases "n \<le> length rest")
    case True
    then have "length (all_bytes s1) = length (drop n (all_bytes s))"
      using s1 rest assms(3) by (simp add: all_bytes_def)
    then show ?thesis using assms(4) by simp
  qed (use s1 in simp)
qed

lemma check_input_result:
  assumes "check_input e (s, r) = Inr (s', r')" "reads_ok s r"
  obtains xs where "bits_at s' r' = bits_at s r @ xs" "reads_ok s' r'" "input_only s s'" "behind_file xs s'"
    "inDataSize r' = inDataSize r" "\<And>n. NEXTBITS n r' = NEXTBITS n r"
proof (cases "inOffset r \<ge> in_length s")
  case True
  from assms(2) have f: "file_rest s \<noteq> None" "inOffset r \<le> length (in_buffer s)" by (auto simp: reads_ok_def)
  from f obtain s1 xs where s1: "refill_input e (inOffset r) s = Inr s1"
    "all_bytes s1 = drop (inOffset r) (all_bytes s) @ xs" "file_rest s1 \<noteq> None"
    "s1 = s\<lparr>in_buffer := in_buffer s1, file_rest := file_rest s1\<rparr>"
    by (rule refill_input_result [where e = e]) blast
  have r: "s' = s1" "r' = r\<lparr>inOffset := 0\<rparr>" using assms(1) True s1(1) by (auto simp: check_input_def)
  have "bits_at s' r' = bits_at s r @ concat (map byte_bits xs)"
    using stream_append [of r' "drop (inOffset r) (all_bytes s)" xs] by (simp add: r s1(2) stream_rewind)
  moreover have "reads_ok s' r'" using s1(3) assms(2) by (simp add: reads_ok_def r reader_ok_def)
  moreover note refill_input_end [OF s1(1) f s1(2)]
  then have "input_only s s'" "behind_file (concat (map byte_bits xs)) s'"
    using s1(4) by (simp_all add: r behind_file_def) (auto simp: input_only_def)
  ultimately show ?thesis using that r(2) by (simp add: NEXTBITS_def)
next
  case False
  with assms that [of "[]"] show ?thesis by (simp add: check_input_def behind_file_def)
qed

lemma read_code_length_result:
  assumes "read_code_length e i (cl, s, r) = Inr (cl', s', r')" "reads_ok s r"
  obtains xs where "cl' = cl[ccode_idx ! i := bits_value (take 3 (bits_at s r))]" "bits_at s' r' = drop 3 (bits_at s r) @ xs"
    "3 \<le> length (bits_at s r)" "reads_ok s' r'" "input_only s s'" "behind_file xs s'"
proof -
  from assms(1) obtain r1 s2 r2 where r1: "NEEDBITS 3 (in_buffer s) r = Inr r1"
    and r2: "check_input e (s, r1) = Inr (s2, r2)"
    and set: "set_at (ccode_idx ! i) (NEXTBITS 3 r2) cl = Inr cl'"
    and r3: "DUMPBITS 3 r2 = Inr r'" and s2: "s2 = s'"
    by (auto simp: read_code_length_def elim!: jvm_check_InrE)
  note R1 = need_bits [OF r1 assms(2)]
  have R1': "reads_ok s r1" "bits_at s r1 = bits_at s r" "3 \<le> length (bits_at s r)" using R1 by simp_all
  obtain xs where xs: "bits_at s' r2 = bits_at s r1 @ xs" "reads_ok s' r2" "input_only s s'" "behind_file xs s'"
    by (rule check_input_result [OF r2 R1'(1)]) (use s2 in auto)
  note R3 = dump_bits [OF r3 xs(2)]
  show ?thesis
  proof (rule that [of xs])
    show "cl' = cl[ccode_idx ! i := bits_value (take 3 (bits_at s r))]"
      using set R3(3) xs(1) R1' by (auto simp: set_at_def split: if_splits)
  qed (use R3 xs R1' in auto)
qed

lemma read_code_lengths:
  assumes "jvm_fold (read_code_length e) [0..<n] (replicate 19 0, s, r) = Inr (cl, s', r')" "reads_ok s r"
  shows "\<exists>xs. cl = code_length_lengths n (bits_at s r @ xs) \<and> bits_at s' r' = drop (3 * n) (bits_at s r @ xs) \<and>
    3 * n \<le> length (bits_at s r @ xs) \<and> reads_ok s' r' \<and> input_only s s' \<and> behind_file xs s'"
  using assms(1)
proof (induction n arbitrary: cl s' r')
  case 0
  then show ?case using assms(2) by (auto simp: code_length_lengths_def behind_file_def intro!: exI [of _ "[]"])
next
  case (Suc n)
  then obtain cl1 s1 r1 where 1: "jvm_fold (read_code_length e) [0..<n] (replicate 19 0, s, r) = Inr (cl1, s1, r1)"
    and 2: "read_code_length e n (cl1, s1, r1) = Inr (cl, s', r')"
    by (auto simp: jvm_fold_append elim!: jvm_check_InrE)
  from Suc.IH [OF 1] obtain xs where xs: "cl1 = code_length_lengths n (bits_at s r @ xs)"
    "bits_at s1 r1 = drop (3 * n) (bits_at s r @ xs)" "3 * n \<le> length (bits_at s r @ xs)" "reads_ok s1 r1" "input_only s s1"
    "behind_file xs s1" by blast
  from 2 xs(4) obtain ys where ys: "cl = cl1[ccode_idx ! n := bits_value (take 3 (bits_at s1 r1))]"
    "bits_at s' r' = drop 3 (bits_at s1 r1) @ ys" "3 \<le> length (bits_at s1 r1)" "reads_ok s' r'" "input_only s1 s'"
    "behind_file ys s'" by (rule read_code_length_result)
  let ?bs = "bits_at s r @ xs"
  have len: "3 * Suc n \<le> length ?bs" using ys(3) xs(3) unfolding xs(2) by simp
  have drops: "drop (3 * Suc n) (B @ ys) = drop 3 (drop (3 * n) B) @ ys" if "3 * Suc n \<le> length B" for B :: "bool list"
    using that by simp
  have "cl = code_length_lengths (Suc n) (?bs @ ys)"
    using len code_length_lengths_more [OF xs(3), of ys] unfolding code_length_lengths_Suc ys(1) xs(1,2) by simp
  moreover have "bits_at s' r' = drop (3 * Suc n) (?bs @ ys)"
    unfolding ys(2) xs(2) by (rule drops [OF len, symmetric])
  ultimately show ?case
    using len ys(4) input_only_trans [OF xs(5) ys(5)] behind_file_trans [OF xs(6) ys(5,6)]
    by (intro exI [of _ "xs @ ys"]) simp
qed

section \<open>The lengths of the codes\<close>

text \<open>The buffer holds the lengths that have been read, and zeros.\<close>

definition holds :: "nat list \<Rightarrow> nat list \<Rightarrow> bool" where
  "holds codelen acc = (\<forall>i < length codelen. codelen ! i = (if i < length acc then acc ! i else 0))"

lemma holds_set: "holds codelen acc \<Longrightarrow> set_at (length acc) v codelen = Inr codelen' \<Longrightarrow>
    holds codelen' (acc @ [v]) \<and> length codelen' = length codelen"
  by (auto simp: holds_def set_at_def nth_append nth_list_update split: if_splits)

lemma holds_zeros: "holds codelen acc \<Longrightarrow> holds codelen (acc @ replicate n 0)"
  by (auto simp: holds_def nth_append)

lemma holds_repeat:
  assumes "holds codelen acc" "length acc + n \<le> length codelen"
  shows "holds (take (length acc) codelen @ replicate n v @ drop (length acc + n) codelen) (acc @ replicate n v)"
  using assms by (auto simp: holds_def nth_append)

lemma holds_take: "holds codelen acc \<Longrightarrow> n \<le> length codelen \<Longrightarrow> n \<le> length acc \<Longrightarrow> take n codelen = take n acc"
  by (auto simp: holds_def intro!: nth_equalityI)

lemma repeat_length_result:
  assumes "repeat_length v codelen (length acc) r = Inr x" "reads_ok s r" "holds codelen acc" "16 \<le> v" "v \<le> 18"
    "next_symbol cl v bs" "bits_at s r = drop (cl ! v) bs"
  shows "case x of None \<Rightarrow> v = 16 \<and> acc = []
    | Some (codelen', n, r') \<Rightarrow> \<exists>acc'. length_step cl (bs, acc) (bits_at s r', acc') \<and> holds codelen' acc' \<and>
        n = length acc' \<and> length codelen' = length codelen \<and> reads_ok s r'"
proof -
  let ?bits = "if v = 18 then 7 else v - 14" and ?start = "if v = 18 then 11 else (3 :: nat)"
  from assms(1) obtain r' where r': "DUMPBITS ?bits r = Inr r'"
    and x: "(if v = 16 then
          if length acc = 0 then Inr None
          else if length acc + (?start + NEXTBITS ?bits r) \<le> length codelen then
            Inr (Some (take (length acc) codelen @ replicate (?start + NEXTBITS ?bits r) (codelen ! (length acc - 1)) @
                drop (length acc + (?start + NEXTBITS ?bits r)) codelen, length acc + (?start + NEXTBITS ?bits r), r'))
          else Inl Write_past_buffer
        else Inr (Some (codelen, length acc + (?start + NEXTBITS ?bits r), r'))) = Inr x"
    unfolding repeat_length_def Let_def by (erule jvm_check_InrE)
  note D = dump_bits [OF r' assms(2)]
  have bits: "NEXTBITS ?bits r = bits_value (take ?bits (drop (cl ! v) bs))" "?bits \<le> length (drop (cl ! v) bs)"
    "bits_at s r' = drop ?bits (drop (cl ! v) bs)"
    using D(2,3,6) unfolding assms(7) by (auto simp del: drop_drop)
  consider "v = 16" | "v = 17" | "v = 18" using assms(4,5) by linarith
  then show ?thesis
  proof cases
    case 1
    let ?n = "3 + NEXTBITS 2 r"
    show ?thesis
    proof (cases "acc = []")
      case False
      have room: "length acc + ?n \<le> length codelen" using x 1 False by (auto split: if_splits)
      then have "codelen ! (length acc - 1) = last acc"
        using assms(3) False by (auto simp: holds_def last_conv_nth)
      moreover from repeat_last [of cl bs acc "drop (cl ! 16) bs"]
      have "length_step cl (bs, acc) (bits_at s r', acc @ replicate ?n (last acc))"
        using assms(6) bits False 1 by (simp del: drop_drop)
      ultimately show ?thesis
        using x 1 False room holds_repeat [OF assms(3) room] D(1)
        by (auto simp: add.assoc intro!: exI [of _ "acc @ replicate ?n (last acc)"])
    qed (use x 1 in auto)
  next
    case 2
    from few_zeros [of cl bs "drop (cl ! 17) bs" acc]
    have "length_step cl (bs, acc) (bits_at s r', acc @ replicate (3 + NEXTBITS 3 r) 0)"
      using assms(6) bits 2 by (simp del: drop_drop)
    then show ?thesis using x 2 D(1) holds_zeros [OF assms(3), of "3 + NEXTBITS 3 r"]
      by (auto simp: add.assoc intro!: exI [of _ "acc @ replicate (3 + NEXTBITS 3 r) 0"])
  next
    case 3
    from many_zeros [of cl bs "drop (cl ! 18) bs" acc]
    have "length_step cl (bs, acc) (bits_at s r', acc @ replicate (11 + NEXTBITS 7 r) 0)"
      using assms(6) bits 3 by (simp del: drop_drop)
    then show ?thesis using x 3 D(1) holds_zeros [OF assms(3), of "11 + NEXTBITS 7 r"]
      by (auto simp: add.assoc intro!: exI [of _ "acc @ replicate (11 + NEXTBITS 7 r) 0"])
  qed
qed

text \<open>The lengths that have been read when the loop ends, or the place where there is no code.\<close>

definition lengths_read ::
  "nat list \<Rightarrow> bool list \<times> nat list \<Rightarrow> nat \<Rightarrow> nat \<Rightarrow> inflater \<Rightarrow> (nat list \<times> inflater \<times> bit_reader) option \<Rightarrow> bool" where
  "lengths_read cl st n len s x =
     (\<exists>xs. case x of
        None \<Rightarrow> \<exists>st'. (reads_length n cl)\<^sup>*\<^sup>* (fst st @ xs, snd st) st' \<and> length (snd st') < n \<and> (\<forall>st''. \<not> length_step cl st' st'')
      | Some (codelen, s', r') \<Rightarrow> \<exists>acc. (reads_length n cl)\<^sup>*\<^sup>* (fst st @ xs, snd st) (bits_at s' r', acc) \<and>
          n \<le> length acc \<and> holds codelen acc \<and> length codelen = len \<and> reads_ok s' r' \<and> input_only s s' \<and> behind_file xs s')"

lemma lengths_read_step:
  assumes "length_step cl (fst st @ ys, snd st) st1" "length (snd st) < n" "lengths_read cl st1 n len s1 x" "input_only s s1"
    "behind_file ys s1"
  shows "lengths_read cl st n len s x"
proof -
  from assms(3) obtain xs where xs: "case x of
        None \<Rightarrow> \<exists>st'. (reads_length n cl)\<^sup>*\<^sup>* (fst st1 @ xs, snd st1) st' \<and> length (snd st') < n \<and> (\<forall>st''. \<not> length_step cl st' st'')
      | Some (codelen, s', r') \<Rightarrow> \<exists>acc. (reads_length n cl)\<^sup>*\<^sup>* (fst st1 @ xs, snd st1) (bits_at s' r', acc) \<and>
          n \<le> length acc \<and> holds codelen acc \<and> length codelen = len \<and> reads_ok s' r' \<and> input_only s1 s' \<and> behind_file xs s'"
    unfolding lengths_read_def by blast
  from assms(1,2) have "reads_length n cl (fst st @ ys @ xs, snd st) (fst st1 @ xs, snd st1)"
    using length_step_more [of cl "fst st @ ys" "snd st" "fst st1" "snd st1" xs] by (simp add: reads_length_def)
  then have run: "(reads_length n cl)\<^sup>*\<^sup>* (fst st1 @ xs, snd st1) st' \<Longrightarrow> (reads_length n cl)\<^sup>*\<^sup>* (fst st @ ys @ xs, snd st) st'" for st'
    by (rule converse_rtranclp_into_rtranclp)
  show ?thesis
  proof (cases x)
    case None
    with xs run show ?thesis unfolding lengths_read_def by (intro exI [of _ "ys @ xs"]) auto
  next
    case (Some y)
    obtain codelen s' r' where y: "y = (codelen, s', r')" by (cases y)
    from xs [unfolded Some y] obtain acc where acc: "(reads_length n cl)\<^sup>*\<^sup>* (fst st1 @ xs, snd st1) (bits_at s' r', acc)"
      "n \<le> length acc" "holds codelen acc" "length codelen = len" "reads_ok s' r'" "input_only s1 s'" "behind_file xs s'" by auto
    then have "input_only s s'" "behind_file (ys @ xs) s'"
      using input_only_trans [OF assms(4)] behind_file_trans [OF assms(5)] by blast+
    with acc run [OF acc(1)] show ?thesis
      unfolding lengths_read_def Some y by (intro exI [of _ "ys @ xs"]) auto
  qed
qed

lemma no_length_step:
  assumes "lengths_ok cl" "\<And>v. next_symbol cl v bs \<Longrightarrow> 18 < v \<or> v = 16 \<and> acc = []"
  shows "\<not> length_step cl (bs, acc) st"
  using assms(2) by (auto elim!: length_stepE dest: assms(2))

lemma code_lengths_result:
  assumes "code_lengths e ccodes (length acc) n codelen s r = Inr x" "reads_ok s r" "finds_symbols cl ccodes"
    "lengths_ok cl" "holds codelen acc"
  shows "lengths_read cl (bits_at s r, acc) n (length codelen) s x"
  using assms(1,2,5)
proof (induction "n - length acc" arbitrary: acc codelen s r rule: less_induct)
  case less
  show ?case
  proof (cases "length acc < n")
    case False
    with less.prems show ?thesis
      by (auto simp: code_lengths.simps [of e ccodes "length acc"] lengths_read_def behind_file_def intro!: exI [of _ "[] :: bool list"] exI [of _ acc])
  next
    case True
    from less.prems(1) True obtain r1 y where r1: "NEEDBITS (MAX_BITS + 7) (in_buffer s) r = Inr r1"
      and y: "GET_HUFFMAN_ENTRY ccodes (h_quickBits ccodes) r1 = Inr y"
      and rest: "(case y of None \<Rightarrow> Inr None
        | Some (val, r) \<Rightarrow>
          jvm_check (check_input e (s, r)) (\<lambda>(s, r).
          if val \<le> 15 then
            jvm_check (set_at (length acc) val codelen) (\<lambda>codelen.
              code_lengths e ccodes (length acc + 1) n codelen s r)
          else if val \<le> 18 then
            jvm_check (repeat_length val codelen (length acc) r) (\<lambda>y.
            case y of None \<Rightarrow> Inr None
            | Some (codelen, codePtr, r) \<Rightarrow> code_lengths e ccodes codePtr n codelen s r)
          else Inr None)) = Inr x"
      unfolding code_lengths.simps [of e ccodes "length acc"] by (simp only: if_True) (elim jvm_check_InrE, blast)
    note R1 = need_bits [OF r1 less.prems(2)]
    have R1': "reads_ok s r1" "bits_at s r1 = bits_at s r" "22 \<le> inDataSize r1" using R1 by simp_all
    then have "reader_ok r1" "MAX_BITS \<le> inDataSize r1" by (simp_all add: reads_ok_def)
    with assms(3) have lookup: "looks_up cl (bits_at s r) r1 (Inr y)"
      unfolding finds_symbols_def y [symmetric] R1'(2) [symmetric] by blast
    then show ?thesis
    proof (cases rule: looks_up_cases)
      case none
      then have "x = None" using rest by simp
      moreover have "\<not> length_step cl (bits_at s r, acc) st" for st
        using no_length_step [OF assms(4), of "bits_at s r"] none(1) by blast
      ultimately show ?thesis using True unfolding lengths_read_def by (intro exI [of _ "[]"]) auto
    next
      case (symbol v r2)
      then have y: "y = Some (v, r2)" by simp
      note D2 = dump_bits [OF symbol(2) R1'(1)]
      from rest y obtain s3 r3 where r3: "check_input e (s, r2) = Inr (s3, r3)"
        and rest: "(if v \<le> 15 then
            jvm_check (set_at (length acc) v codelen) (\<lambda>codelen. code_lengths e ccodes (length acc + 1) n codelen s3 r3)
          else if v \<le> 18 then
            jvm_check (repeat_length v codelen (length acc) r3) (\<lambda>y.
            case y of None \<Rightarrow> Inr None
            | Some (codelen, codePtr, r) \<Rightarrow> code_lengths e ccodes codePtr n codelen s3 r)
          else Inr None) = Inr x"
        by (auto elim!: jvm_check_InrE)
      obtain xs where xs: "bits_at s3 r3 = bits_at s r2 @ xs" "reads_ok s3 r3" "input_only s s3" "behind_file xs s3"
        by (rule check_input_result [OF r3 D2(1)]) blast
      let ?bs = "bits_at s r @ xs"
      have v: "next_symbol cl v ?bs" "cl ! v \<le> length (bits_at s r)" using next_symbol_more [OF symbol(1), of xs] by simp_all
      have b3: "bits_at s3 r3 = drop (cl ! v) ?bs" using v(2) D2(2) R1'(2) by (simp add: xs(1))
      have only: "u = v" if "next_symbol cl u ?bs" for u by (rule next_symbol_unique [OF assms(4) that v(1)])
      have stuck_here: "lengths_read cl (bits_at s r, acc) n (length codelen) s None" if "18 < v \<or> v = 16 \<and> acc = []"
      proof -
        have "\<not> length_step cl (?bs, acc) st" for st
          by (rule no_length_step [OF assms(4)]) (use only that in blast)
        then show ?thesis using True unfolding lengths_read_def by (intro exI [of _ xs]) auto
      qed
      consider "v \<le> 15" | "16 \<le> v" "v \<le> 18" | "18 < v" by linarith
      then show ?thesis
      proof cases
        case 1
        with rest obtain codelen' where c: "set_at (length acc) v codelen = Inr codelen'"
          "code_lengths e ccodes (length (acc @ [v])) n codelen' s3 r3 = Inr x" by (auto elim!: jvm_check_InrE)
        from holds_set [OF less.prems(3) c(1)] have h: "holds codelen' (acc @ [v])" "length codelen' = length codelen" by auto
        have "n - length (acc @ [v]) < n - length acc" using True by simp
        from less.hyps [OF this c(2) xs(2) h(1)]
        have "lengths_read cl (bits_at s3 r3, acc @ [v]) n (length codelen) s3 x" by (simp add: h(2))
        moreover have "length_step cl (?bs, acc) (bits_at s3 r3, acc @ [v])"
          unfolding b3 by (rule one_length [OF v(1) 1])
        ultimately show ?thesis using lengths_read_step [of cl "(bits_at s r, acc)" xs] xs(3,4) True by simp
      next
        case 2
        then have "\<not> v \<le> 15" by simp
        with rest 2 obtain y where y: "repeat_length v codelen (length acc) r3 = Inr y"
          "(case y of None \<Rightarrow> Inr None | Some (codelen, codePtr, r) \<Rightarrow> code_lengths e ccodes codePtr n codelen s3 r) = Inr x"
          by (auto elim!: jvm_check_InrE)
        note rep = repeat_length_result [OF y(1) xs(2) less.prems(3) 2 v(1) b3]
        show ?thesis
        proof (cases y)
          case None
          with rep y(2) stuck_here show ?thesis by auto
        next
          case (Some z)
          then obtain codelen' m r4 where z: "y = Some (codelen', m, r4)" by (cases z) auto
          from rep [unfolded z] obtain acc' where acc': "length_step cl (?bs, acc) (bits_at s3 r4, acc')"
            "holds codelen' acc'" "m = length acc'" "length codelen' = length codelen" "reads_ok s3 r4" by auto
          have "length acc < m" using repeat_length_advances [OF y(1) [unfolded z]] .
          then have "n - length acc' < n - length acc" using True acc'(3) by simp
          moreover have "code_lengths e ccodes (length acc') n codelen' s3 r4 = Inr x" using y(2) by (simp add: z acc'(3))
          ultimately have "lengths_read cl (bits_at s3 r4, acc') n (length codelen) s3 x"
            using less.hyps [OF _ _ acc'(5,2)] by (simp add: acc'(4))
          with acc'(1) show ?thesis using lengths_read_step [of cl "(bits_at s r, acc)" xs] xs(3,4) True by simp
        qed
      next
        case 3
        with rest have "x = None" by simp
        with stuck_here 3 show ?thesis by simp
      qed
    qed
  qed
qed

section \<open>The tables of the block\<close>

text \<open>With the heuristic and without, an alphabet of the format gets a table that finds its symbols.\<close>

lemma alphabet_table:
  assumes "lengths_ok lens" "maxq = MAX_QUICK_LXL \<and> length lens \<le> 320 \<or> maxq = MAX_QUICK_CXD \<and> length lens \<le> 32"
  shows "\<exists>table. make_code_table h lens maxq = Inr table \<and> finds_symbols lens table"
proof -
  have "length lens \<le> 2048" using assms(2) by auto
  moreover have "pointers_fit h lens maxq"
  proof (cases h)
    case True
    have "length lens \<le> 320" using assms(2) by auto
    with pointers_fit_heuristic [OF assms(1)] True show ?thesis by simp
  next
    case False
    with pointers_fit_given [OF assms(1)] assms(2) show ?thesis by (simp add: MAX_QUICK_LXL_def MAX_QUICK_CXD_def)
  qed
  ultimately obtain table where t: "make_code_table h lens maxq = Inr table" "h_maxCodeLen table \<le> MAX_BITS"
    "\<And>buf r. reader_ok r \<Longrightarrow> h_maxCodeLen table \<le> inDataSize r \<Longrightarrow>
       looks_up lens (stream buf r) r (GET_HUFFMAN_ENTRY table (h_quickBits table) r)"
    by (rule make_code_table_result [OF assms(1)]) blast
  from t(2,3) have "finds_symbols lens table" unfolding finds_symbols_def by (meson order.trans)
  with t(1) show ?thesis by blast
qed

lemma header_more:
  "14 + 3 * (4 + field 10 4 bs) \<le> length bs \<Longrightarrow> header_lengths (bs @ xs) = header_lengths bs"
  "14 \<le> length bs \<Longrightarrow> i + n \<le> 14 \<Longrightarrow> field i n (bs @ xs) = field i n bs"
proof -
  show f: "14 \<le> length bs \<Longrightarrow> i + n \<le> 14 \<Longrightarrow> field i n (bs @ xs) = field i n bs" for i n
    by (simp add: field_def)
  assume "14 + 3 * (4 + field 10 4 bs) \<le> length bs"
  with f [of 10 4] code_length_lengths_more [of "4 + field 10 4 bs" "drop 14 bs" xs]
  show "header_lengths (bs @ xs) = header_lengths bs" by (simp add: header_lengths_def)
qed

lemma decode_dynamic_parts:
  assumes "decode_dynamic_huffman_tables e s = Inr (INFLATE_MORE, s')" "reads_ok s (reader s)"
  obtains r2 s3 r3 cl ccodes codelen s4 r4 lcodes dcodes where
    "14 \<le> length (bits_at s (reader s))" "reads_ok s r2" "bits_at s r2 = drop 14 (bits_at s (reader s))"
    "jvm_fold (read_code_length e) [0..<4 + field 10 4 (bits_at s (reader s))] (replicate 19 0, s, r2) = Inr (cl, s3, r3)"
    "make_code_table (table_heuristic e) cl MAX_QUICK_CXD = Inr ccodes"
    "code_lengths e ccodes 0 (258 + field 0 5 (bits_at s (reader s)) + field 5 5 (bits_at s (reader s)))
       (replicate codelen_buf_size 0) s3 r3 = Inr (Some (codelen, s4, r4))"
    "258 + field 0 5 (bits_at s (reader s)) + field 5 5 (bits_at s (reader s)) \<le> length codelen"
    "make_code_table (table_heuristic e) (take (257 + field 0 5 (bits_at s (reader s))) codelen) MAX_QUICK_LXL = Inr lcodes"
    "make_code_table (table_heuristic e)
       (take (1 + field 5 5 (bits_at s (reader s))) (drop (257 + field 0 5 (bits_at s (reader s))) codelen)) MAX_QUICK_CXD = Inr dcodes"
    "s' = s4\<lparr>reader := r4, length_buffer := lcodes, distance_buffer := dcodes\<rparr>"
proof -
  let ?bs = "bits_at s (reader s)"
  from assms(1) obtain ra rb rc rd cl s3 r3 ccodes codelen s4 r4 lcodes dcodes where
    r: "NEEDBITS 14 (in_buffer s) (reader s) = Inr ra" "DUMPBITS 5 ra = Inr rb" "DUMPBITS 5 rb = Inr rc" "DUMPBITS 4 rc = Inr rd"
    and p: "jvm_fold (read_code_length e) [0..<4 + NEXTBITS 4 rc] (replicate 19 0, s, rd) = Inr (cl, s3, r3)"
    "make_code_table (table_heuristic e) cl MAX_QUICK_CXD = Inr ccodes"
    "code_lengths e ccodes 0 (257 + NEXTBITS 5 ra + (1 + NEXTBITS 5 rb)) (replicate codelen_buf_size 0) s3 r3 = Inr (Some (codelen, s4, r4))"
    "257 + NEXTBITS 5 ra + (1 + NEXTBITS 5 rb) \<le> length codelen"
    "make_code_table (table_heuristic e) (take (257 + NEXTBITS 5 ra) codelen) MAX_QUICK_LXL = Inr lcodes"
    "make_code_table (table_heuristic e) (take (1 + NEXTBITS 5 rb) (drop (257 + NEXTBITS 5 ra) codelen)) MAX_QUICK_CXD = Inr dcodes"
    "s' = s4\<lparr>reader := r4, length_buffer := lcodes, distance_buffer := dcodes\<rparr>"
    unfolding decode_dynamic_huffman_tables_def Let_def
    by (elim jvm_check_InrE) (force elim!: jvm_check_InrE simp: not_less split: option.splits if_splits prod.splits)
  note A = need_bits [OF r(1) assms(2)]
  have A: "reads_ok s ra" "bits_at s ra = ?bs" "14 \<le> length ?bs" using A by simp_all
  note B = dump_bits [OF r(2) A(1)]
  note C = dump_bits [OF r(3) B(1)]
  note D = dump_bits [OF r(4) C(1)]
  have n: "NEXTBITS 5 ra = field 0 5 ?bs" "NEXTBITS 5 rb = field 5 5 ?bs" "NEXTBITS 4 rc = field 10 4 ?bs"
    using B(2,3) C(2,3) D(3) A(2) by (simp_all add: field_def)
  have d: "bits_at s rd = drop 14 ?bs" using B(2) C(2) D(2) A(2) by simp
  have e: "257 + NEXTBITS 5 ra + (1 + NEXTBITS 5 rb) = 258 + field 0 5 ?bs + field 5 5 ?bs" by (simp add: n)
  show ?thesis by (rule that [OF A(3) D(1) d p(1) [unfolded n] p(2) p(3,4) [unfolded e] p(5,6) [unfolded n] p(7)])
qed

text \<open>The tables are those of the header, and the reader is behind it.\<close>

lemma decode_dynamic_result:
  assumes "decode_dynamic_huffman_tables e s = Inr (INFLATE_MORE, s')" "reads_ok s (reader s)"
    "14 + 3 * (4 + field 10 4 (bits_at s (reader s))) \<le> length (bits_at s (reader s))"
    "lengths_ok (header_lengths (bits_at s (reader s)))"
  shows "\<exists>xs ll dl. behind_file xs s' \<and> dynamic_header (bits_at s (reader s) @ xs) ll dl (bits_at s' (reader s')) \<and>
      (lengths_ok ll \<and> lengths_ok dl \<longrightarrow> tables_for False s' ll dl) \<and>
      reads_ok s' (reader s') \<and> out_buffer s' = out_buffer s \<and> out_offset s' = out_offset s"
proof -
  let ?bs = "bits_at s (reader s)"
  let ?hlit = "257 + field 0 5 ?bs" and ?hdist = "1 + field 5 5 ?bs" and ?hclen = "4 + field 10 4 ?bs"
  from decode_dynamic_parts [OF assms(1,2)] obtain r2 s3 r3 cl ccodes codelen s4 r4 lcodes dcodes where P:
    "14 \<le> length ?bs" "reads_ok s r2" "bits_at s r2 = drop 14 ?bs"
    "jvm_fold (read_code_length e) [0..<?hclen] (replicate 19 0, s, r2) = Inr (cl, s3, r3)"
    "make_code_table (table_heuristic e) cl MAX_QUICK_CXD = Inr ccodes"
    "code_lengths e ccodes 0 (258 + field 0 5 ?bs + field 5 5 ?bs) (replicate codelen_buf_size 0) s3 r3 = Inr (Some (codelen, s4, r4))"
    "258 + field 0 5 ?bs + field 5 5 ?bs \<le> length codelen"
    "make_code_table (table_heuristic e) (take ?hlit codelen) MAX_QUICK_LXL = Inr lcodes"
    "make_code_table (table_heuristic e) (take ?hdist (drop ?hlit codelen)) MAX_QUICK_CXD = Inr dcodes"
    "s' = s4\<lparr>reader := r4, length_buffer := lcodes, distance_buffer := dcodes\<rparr>"
    by metis
  from read_code_lengths [OF P(4,2)] obtain xs where xs: "cl = code_length_lengths ?hclen (bits_at s r2 @ xs)"
    "bits_at s3 r3 = drop (3 * ?hclen) (bits_at s r2 @ xs)" "3 * ?hclen \<le> length (bits_at s r2 @ xs)"
    "reads_ok s3 r3" "input_only s s3" "behind_file xs s3" by blast
  let ?bx = "?bs @ xs"
  have f: "field i n ?bx = field i n ?bs" if "i + n \<le> 14" for i n by (rule header_more(2) [OF P(1) that])
  have len: "14 + 3 * (4 + field 10 4 ?bx) \<le> length ?bx" using xs(3) P(1,3) by (simp add: f)
  have cl: "cl = header_lengths ?bx" using xs(1) P(1,3) by (simp add: header_lengths_def f)
  have at3: "bits_at s3 r3 = drop (14 + 3 * (4 + field 10 4 ?bx)) ?bx"
    using xs(2) P(1,3) by (simp add: f)
  have ok: "lengths_ok cl" using header_more(1) [OF assms(3), of xs] assms(4) cl by simp
  have "length cl = 19" by (simp add: xs(1))
  then obtain t where t: "make_code_table (table_heuristic e) cl MAX_QUICK_CXD = Inr t" "finds_symbols cl t"
    using alphabet_table [OF ok, of MAX_QUICK_CXD] by auto
  with P(5) have finds: "finds_symbols cl ccodes" by simp
  have holds: "holds (replicate codelen_buf_size 0) []" by (simp add: holds_def)
  have "code_lengths e ccodes (length ([] :: nat list)) (258 + field 0 5 ?bs + field 5 5 ?bs) (replicate codelen_buf_size 0) s3 r3 =
      Inr (Some (codelen, s4, r4))" using P(6) by simp
  from code_lengths_result [OF this xs(4) finds ok holds]
  obtain ys acc where ys: "(reads_length (258 + field 0 5 ?bs + field 5 5 ?bs) cl)\<^sup>*\<^sup>* (bits_at s3 r3 @ ys, []) (bits_at s4 r4, acc)"
    "258 + field 0 5 ?bs + field 5 5 ?bs \<le> length acc" "holds codelen acc" "reads_ok s4 r4" "input_only s3 s4"
    "behind_file ys s4"
    by (auto simp: lengths_read_def)
  let ?by = "?bx @ ys"
  have cl': "header_lengths ?by = cl" using header_more(1) [OF len, of ys] cl by simp
  have f': "field i n ?by = field i n ?bs" if "i + n \<le> 14" for i n
    using header_more(2) [of ?bx i n ys] f [OF that] P(1) that by simp
  have same: "take (258 + field 0 5 ?bs + field 5 5 ?bs) codelen = take (258 + field 0 5 ?bs + field 5 5 ?bs) acc"
    by (rule holds_take [OF ys(3) P(7) ys(2)])
  then have ll: "take ?hlit codelen = take ?hlit acc"
    using arg_cong [OF same, of "take ?hlit"] unfolding take_take by (simp add: min_absorb1)
  have dl: "take ?hdist (drop ?hlit codelen) = take ?hdist (drop ?hlit acc)"
    using arg_cong [OF same, of "drop ?hlit"] by (simp add: drop_take)
  have start: "bits_at s3 r3 @ ys = drop (14 + 3 * (4 + field 10 4 ?by)) ?by"
    using len f' [of 10 4] f [of 10 4] by (simp add: at3)
  have at': "bits_at s' (reader s') = bits_at s4 r4" by (simp add: P(10) all_bytes_def)
  have "dynamic_header ?by (take ?hlit acc) (take ?hdist (drop ?hlit acc)) (bits_at s' (reader s'))"
    unfolding dynamic_header_def at' start [symmetric] cl' using ys(1,2) f' [of 0 5] f' [of 5 5] by (intro exI [of _ acc]) simp
  moreover have "tables_for False s' (take ?hlit acc) (take ?hdist (drop ?hlit acc))"
    if lo: "lengths_ok (take ?hlit acc)" "lengths_ok (take ?hdist (drop ?hlit acc))"
  proof -
    have small: "field i 5 ?bs < 32" for i
      using bits_value_less [of "take 5 (drop i ?bs)"] power_increasing [of "min (length ?bs - i) 5" 5 "2 :: nat"]
      by (simp add: field_def)
    have "length (take ?hlit acc) \<le> 320" "length (take ?hdist (drop ?hlit acc)) \<le> 32"
      using small [of 0] small [of 5] by simp_all
    then have "MAX_QUICK_LXL = MAX_QUICK_LXL \<and> length (take ?hlit acc) \<le> 320 \<or> MAX_QUICK_LXL = MAX_QUICK_CXD \<and> length (take ?hlit acc) \<le> 32"
      "MAX_QUICK_CXD = MAX_QUICK_LXL \<and> length (take ?hdist (drop ?hlit acc)) \<le> 320 \<or>
        MAX_QUICK_CXD = MAX_QUICK_CXD \<and> length (take ?hdist (drop ?hlit acc)) \<le> 32" by blast+
    from alphabet_table [OF lo(1) this(1)] alphabet_table [OF lo(2) this(2)]
    have "finds_symbols (take ?hlit acc) lcodes" "finds_symbols (take ?hdist (drop ?hlit acc)) dcodes"
      using P(8) [unfolded ll] P(9) [unfolded dl] by (metis sum.inject(2))+
    moreover have "length_buffer s' = lcodes" "distance_buffer s' = dcodes" by (simp_all add: P(10))
    ultimately show ?thesis using lo by (simp only: tables_for_def if_False)
  qed
  moreover have "reads_ok s' (reader s')" using ys(4) by (simp add: reads_ok_def P(10))
  moreover have "behind_file (xs @ ys) s'"
    using behind_file_trans [OF xs(6) ys(5,6)] by (simp add: behind_file_def P(10))
  moreover have "input_only s s4" by (rule input_only_trans [OF xs(5) ys(5)])
  then have "out_buffer s4 = out_buffer s" "out_offset s4 = out_offset s" by (simp_all add: input_only_fields)
  then have "out_buffer s' = out_buffer s" "out_offset s' = out_offset s" by (simp_all add: P(10))
  ultimately have "behind_file (xs @ ys) s' \<and> (\<exists>ll dl. dynamic_header ?by ll dl (bits_at s' (reader s')) \<and>
      (lengths_ok ll \<and> lengths_ok dl \<longrightarrow> tables_for False s' ll dl) \<and>
      reads_ok s' (reader s') \<and> out_buffer s' = out_buffer s \<and> out_offset s' = out_offset s)"
    by blast
  then show ?thesis by (intro exI [of _ "xs @ ys"]) simp
qed

text \<open>Without a header there is a place in it where no code follows.\<close>

lemma length_step_symbol:
  "length_step cl x y \<Longrightarrow> \<exists>v. next_symbol cl v (fst x) \<and>
     y = (let bs = drop (cl ! v) (fst x); acc = snd x in
       if v = 16 then (drop 2 bs, acc @ replicate (3 + bits_value (take 2 bs)) (last acc))
       else if v = 17 then (drop 3 bs, acc @ replicate (3 + bits_value (take 3 bs)) 0)
       else if v = 18 then (drop 7 bs, acc @ replicate (11 + bits_value (take 7 bs)) 0)
       else (bs, acc @ [v]))"
proof (induction rule: length_step.induct)
  case (one_length v bs acc)
  then show ?case by (intro exI [of _ v]) simp
next
  case (repeat_last bs acc bs1)
  then show ?case by (intro exI [of _ 16]) simp
next
  case (few_zeros bs bs1 acc)
  then show ?case by (intro exI [of _ 17]) simp
next
  case (many_zeros bs bs1 acc)
  then show ?case by (intro exI [of _ 18]) simp
qed

lemma length_step_unique:
  assumes "lengths_ok cl" "length_step cl x y" "length_step cl x z"
  shows "y = z"
proof -
  obtain u v where "next_symbol cl u (fst x)" "next_symbol cl v (fst x)" and yz: "u = v \<Longrightarrow> y = z"
    using length_step_symbol [OF assms(2)] length_step_symbol [OF assms(3)] by blast
  then have "u = v" by (intro next_symbol_unique [OF assms(1)])
  then show ?thesis by (rule yz)
qed

lemma reads_length_stuck:
  assumes "lengths_ok cl" "(reads_length n cl)\<^sup>*\<^sup>* x y" "\<forall>z. \<not> length_step cl y z" "length (snd y) < n"
    "(reads_length n cl)\<^sup>*\<^sup>* x z"
  shows "length (snd z) < n"
proof -
  have "\<forall>z. (reads_length n cl)\<^sup>*\<^sup>* x z \<longrightarrow> (reads_length n cl)\<^sup>*\<^sup>* z y"
    using assms(2)
  proof (induction rule: converse_rtranclp_induct)
    case base
    have "z = y" if "(reads_length n cl)\<^sup>*\<^sup>* y z" for z
      using that assms(3) by (cases rule: converse_rtranclpE) (auto simp: reads_length_def)
    then show ?case by auto
  next
    case (step x x1)
    show ?case
    proof (intro allI impI)
      fix z
      assume "(reads_length n cl)\<^sup>*\<^sup>* x z"
      then show "(reads_length n cl)\<^sup>*\<^sup>* z y"
      proof (cases rule: converse_rtranclpE)
        case base
        then show ?thesis using step.hyps by (auto intro: converse_rtranclp_into_rtranclp)
      next
        case (step x2)
        then have "x2 = x1" using \<open>reads_length n cl x x1\<close> length_step_unique [OF assms(1)]
          unfolding reads_length_def by blast
        then show ?thesis using step(2) \<open>\<forall>z. (reads_length n cl)\<^sup>*\<^sup>* x1 z \<longrightarrow> (reads_length n cl)\<^sup>*\<^sup>* z y\<close> by blast
      qed
    qed
  qed
  then have "(reads_length n cl)\<^sup>*\<^sup>* z y" using assms(5) by blast
  then show ?thesis using assms(4) by (cases rule: converse_rtranclpE) (auto simp: reads_length_def)
qed

lemma dynamic_header_more:
  assumes "dynamic_header bs ll dl bs'" "14 + 3 * (4 + field 10 4 bs) \<le> length bs"
  shows "dynamic_header (bs @ xs) ll dl (bs' @ xs)"
proof -
  have run: "(reads_length n cl)\<^sup>*\<^sup>* (fst x @ xs, snd x) (fst y @ xs, snd y)" if "(reads_length n cl)\<^sup>*\<^sup>* x y" for n cl x y
    using that
  proof (induction rule: rtranclp_induct)
    case (step y z)
    then have "reads_length n cl (fst y @ xs, snd y) (fst z @ xs, snd z)"
      using length_step_more [of cl "fst y" "snd y" "fst z" "snd z" xs] by (simp add: reads_length_def)
    with step.IH show ?case by (rule rtranclp.rtrancl_into_rtrancl)
  qed simp
  have f: "field i n (bs @ xs) = field i n bs" if "i + n \<le> 14" for i n using header_more(2) [OF _ that, of bs xs] assms(2) by simp
  from assms(1) obtain acc where acc:
    "(reads_length (258 + field 0 5 bs + field 5 5 bs) (header_lengths bs))\<^sup>*\<^sup>* (drop (14 + 3 * (4 + field 10 4 bs)) bs, []) (bs', acc)"
    "258 + field 0 5 bs + field 5 5 bs \<le> length acc" "ll = take (257 + field 0 5 bs) acc"
    "dl = take (1 + field 5 5 bs) (drop (257 + field 0 5 bs) acc)" unfolding dynamic_header_def by blast
  from run [OF acc(1)] show ?thesis
    unfolding dynamic_header_def using acc(2-4) assms(2) by (intro exI [of _ acc]) (simp add: f header_more(1) [OF assms(2)])
qed

lemma decode_dynamic_error:
  assumes "decode_dynamic_huffman_tables e s = Inr (INFLATE_ERROR, s')" "reads_ok s (reader s)"
    "14 + 3 * (4 + field 10 4 (bits_at s (reader s))) \<le> length (bits_at s (reader s))"
    "lengths_ok (header_lengths (bits_at s (reader s)))"
  shows "\<not> dynamic_header (bits_at s (reader s)) ll dl bs'"
proof -
  let ?bs = "bits_at s (reader s)"
  let ?n = "258 + field 0 5 ?bs + field 5 5 ?bs"
  from assms(1) obtain ra rb rc rd cl s3 r3 ccodes where
    r: "NEEDBITS 14 (in_buffer s) (reader s) = Inr ra" "DUMPBITS 5 ra = Inr rb" "DUMPBITS 5 rb = Inr rc" "DUMPBITS 4 rc = Inr rd"
    and p: "jvm_fold (read_code_length e) [0..<4 + NEXTBITS 4 rc] (replicate 19 0, s, rd) = Inr (cl, s3, r3)"
    "make_code_table (table_heuristic e) cl MAX_QUICK_CXD = Inr ccodes"
    "code_lengths e ccodes 0 (257 + NEXTBITS 5 ra + (1 + NEXTBITS 5 rb)) (replicate codelen_buf_size 0) s3 r3 = Inr None"
    unfolding decode_dynamic_huffman_tables_def Let_def
    by (elim jvm_check_InrE) (force elim!: jvm_check_InrE simp: not_less split: option.splits if_splits prod.splits)
  note A = need_bits [OF r(1) assms(2)]
  have A: "reads_ok s ra" "bits_at s ra = ?bs" using A by simp_all
  note B = dump_bits [OF r(2) A(1)]
  note C = dump_bits [OF r(3) B(1)]
  note D = dump_bits [OF r(4) C(1)]
  have n: "NEXTBITS 5 ra = field 0 5 ?bs" "NEXTBITS 5 rb = field 5 5 ?bs" "NEXTBITS 4 rc = field 10 4 ?bs"
    using B(2,3) C(2,3) D(3) A(2) by (simp_all add: field_def)
  have d: "bits_at s rd = drop 14 ?bs" using B(2) C(2) D(2) A(2) by simp
  from read_code_lengths [OF p(1) [unfolded n] D(1)] obtain xs where
    xs: "cl = code_length_lengths (4 + field 10 4 ?bs) (drop 14 ?bs @ xs)"
    "bits_at s3 r3 = drop (3 * (4 + field 10 4 ?bs)) (drop 14 ?bs @ xs)" "reads_ok s3 r3" unfolding d by blast
  have cl: "cl = header_lengths ?bs"
    using xs(1) assms(3) code_length_lengths_more [of "4 + field 10 4 ?bs" "drop 14 ?bs" xs] by (simp add: header_lengths_def)
  have ok: "lengths_ok cl" using assms(4) by (simp add: cl)
  have "length cl = 19" by (simp add: cl header_lengths_def)
  then obtain t where t: "make_code_table (table_heuristic e) cl MAX_QUICK_CXD = Inr t" "finds_symbols cl t"
    using alphabet_table [OF ok, of MAX_QUICK_CXD] by auto
  with p(2) have finds: "finds_symbols cl ccodes" by simp
  have holds: "holds (replicate codelen_buf_size 0) []" by (simp add: holds_def)
  have "code_lengths e ccodes (length ([] :: nat list)) ?n (replicate codelen_buf_size 0) s3 r3 = Inr None"
    using p(3) by (simp add: n add.assoc)
  from code_lengths_result [OF this xs(3) finds ok holds]
  obtain ys st' where st': "(reads_length ?n cl)\<^sup>*\<^sup>* (bits_at s3 r3 @ ys, []) st'" "length (snd st') < ?n"
    "\<forall>st''. \<not> length_step cl st' st''" by (auto simp: lengths_read_def)
  let ?by = "?bs @ xs @ ys"
  have f: "field i n ?by = field i n ?bs" if "i + n \<le> 14" for i n using header_more(2) [OF _ that] assms(3) by simp
  have start: "bits_at s3 r3 @ ys = drop (14 + 3 * (4 + field 10 4 ?by)) ?by" using xs(2) assms(3) by (simp add: f)
  have cl': "header_lengths ?by = cl" using header_more(1) [OF assms(3)] cl by simp
  have "\<not> dynamic_header ?by ll dl bs'" for ll dl bs'
  proof
    assume "dynamic_header ?by ll dl bs'"
    then obtain acc where acc: "(reads_length ?n cl)\<^sup>*\<^sup>* (bits_at s3 r3 @ ys, []) (bs', acc)" "?n \<le> length acc"
      unfolding dynamic_header_def cl' start using f [of 0 5] f [of 5 5] by auto
    from reads_length_stuck [OF ok st'(1,3,2) acc(1)] acc(2) show False by simp
  qed
  then show ?thesis using dynamic_header_more [OF _ assms(3), of ll dl bs' "xs @ ys"] by blast
qed

end
