(* ===== verification/Inflate_Stored.thy ===== *)
theory Inflate_Stored
  imports Inflate_Dynamic
begin

text \<open>
  Stored blocks (RFC 1951, section 3.2.4): after the length and its complement, the bytes of the
  block follow as they are.  The inflater takes what it can from its input buffer and reads the
  others straight into the output.
\<close>

lemma bytes_bits_length: "length (concat (map byte_bits bs)) = 8 * length bs"
  by (induction bs) simp_all

lemma take_bytes: "take (8 * n) (concat (map byte_bits bs)) = concat (map byte_bits (take n bs))"
proof (induction bs arbitrary: n)
  case (Cons b bs)
  show ?case
  proof (cases n)
    case (Suc m)
    have "8 * Suc m - 8 = 8 * m" by simp
    then show ?thesis unfolding Suc by (simp add: Cons)
  qed simp
qed simp

lemma drop_bytes: "drop (8 * n) (concat (map byte_bits bs)) = concat (map byte_bits (drop n bs))"
proof (induction bs arbitrary: n)
  case (Cons b bs)
  show ?case
  proof (cases n)
    case (Suc m)
    have "8 * Suc m - 8 = 8 * m" by simp
    then show ?thesis unfolding Suc by (simp add: Cons)
  qed simp
qed simp

lemma stream_aligned: "inDataSize r = 0 \<Longrightarrow> stream buf r = concat (map byte_bits (drop (inOffset r) buf))"
  by (simp add: stream_def reservoir_def)

section \<open>The copy\<close>

lemma copy_stored_all:
  assumes "file_rest s = Some rest" "inOffset r \<le> length (in_buffer s)" "out_offset s + len \<le> length (out_buffer s)"
    "src = drop (inOffset r) (all_bytes s)" "len \<le> length src"
  obtains s' where "copy_stored len r s = Inr (INFLATE_MORE, s')"
    "take (out_offset s') (out_buffer s') = take (out_offset s) (out_buffer s) @ take len src"
    "out_offset s' = out_offset s + len" "length (out_buffer s') = length (out_buffer s)"
    "drop (inOffset (reader s')) (all_bytes s') = drop len src" "inDataSize (reader s') = inDataSize r"
    "block_type s' = BTYPE_UNKNOWN"
proof -
  define avail where "avail = length (in_buffer s) - inOffset r"
  define here where "here = drop (inOffset r) (in_buffer s)"
  have here: "length here = avail" "inOffset r + avail = length (in_buffer s)"
    using assms(2) by (simp_all add: here_def avail_def)
  have src: "src = here @ rest" using assms(1,2,4) by (simp add: all_bytes_def here_def)
  let ?off = "out_offset s" and ?out = "out_buffer s"
  show ?thesis
  proof (cases "len > avail")
    case True
    then obtain d where d: "len = avail + d" "0 < d" using less_imp_add_positive by blast
    have rest: "d \<le> length rest" using assms(5) by (simp add: src here d)
    let ?out1 = "take (?off + avail) ?out @ take d rest @ drop (?off + avail + d) ?out"
    let ?out2 = "take ?off ?out1 @ here @ drop (?off + avail) ?out1"
    have room: "?off + avail + d \<le> length ?out" using assms(3) by (simp add: d)
    have len1: "length ?out1 = length ?out" using rest room by simp
    have out1: "put_bytes_at (?off + avail) (take d rest) ?out = Inr ?out1"
      using rest room by (simp add: put_bytes_at_def)
    have get: "get_bytes_at (int (inOffset r)) avail (in_buffer s) = Inr here"
      using here by (simp add: get_bytes_at_def here_def)
    have "?off + length here \<le> length ?out1" using len1 room here by simp
    then have out2: "put_bytes_at ?off here ?out1 = Inr ?out2"
      by (simp only: put_bytes_at_def here(1) if_True)
    define out1' where "out1' = ?out1"
    define out2' where "out2' = ?out2"
    let ?s = "s\<lparr>out_buffer := out2', reader := r\<lparr>inOffset := inOffset r + avail\<rparr>,
        out_offset := ?off + len, block_type := BTYPE_UNKNOWN, file_rest := Some (drop d rest)\<rparr>"
    have "length (take d rest) = d" using rest by simp
    then have copy: "copy_stored len r s = Inr (INFLATE_MORE, ?s)"
      using True d(1) out1 [folded out1'_def] get out2 [folded out1'_def out2'_def, unfolded out1'_def [symmetric]] assms(1)
      by (simp add: copy_stored_def Let_def avail_def [symmetric] get_bytes_raw_def out1'_def [symmetric] out2'_def [symmetric])
    have "take (?off + len) out2' = take ?off ?out @ take len src"
      using rest room by (simp add: src d(1) here out2'_def add.assoc)
    moreover have "length out2' = length ?out" using rest room here by (simp add: out2'_def)
    moreover have "drop (inOffset r + avail) (all_bytes ?s) = drop len src"
      by (simp add: all_bytes_def here src d(1))
    ultimately show ?thesis by (intro that [OF copy]) simp_all
  next
    case False
    then have l: "len \<le> length here" "len \<le> avail" by (simp_all add: here)
    let ?out2 = "take ?off ?out @ take len here @ drop (?off + len) ?out"
    have get: "get_bytes_at (int (inOffset r)) len (in_buffer s) = Inr (take len here)"
      using l here by (simp add: get_bytes_at_def here_def)
    have put: "put_bytes_at ?off (take len here) ?out = Inr ?out2"
      using l assms(3) by (simp add: put_bytes_at_def min_absorb2)
    let ?s = "s\<lparr>out_buffer := ?out2, reader := r\<lparr>inOffset := inOffset r + len\<rparr>,
        out_offset := ?off + len, block_type := BTYPE_UNKNOWN\<rparr>"
    have copy: "copy_stored len r s = Inr (INFLATE_MORE, ?s)"
      using False get put by (simp add: copy_stored_def Let_def avail_def [symmetric])
    have "take (?off + len) ?out2 = take ?off ?out @ take len src"
      using l assms(3) by (simp add: src min_absorb2)
    moreover have "length ?out2 = length ?out" using l assms(3) by (simp add: min_absorb2)
    moreover have "all_bytes ?s = all_bytes s" by (simp add: all_bytes_def)
    then have "drop (inOffset r + len) (all_bytes ?s) = drop len src"
      by (simp only: assms(4) drop_drop add.commute)
    ultimately show ?thesis by (intro that [OF copy]) simp_all
  qed
qed

lemma copy_stored_short:
  assumes "file_rest s = Some rest" "inOffset r \<le> length (in_buffer s)" "out_offset s + len \<le> length (out_buffer s)"
    "length (drop (inOffset r) (all_bytes s)) < len"
  shows "\<exists>s'. copy_stored len r s = Inr (INFLATE_ERROR, s')"
proof -
  let ?avail = "length (in_buffer s) - inOffset r"
  have s: "len > ?avail" "length rest < len - ?avail" using assms(1,2,4) by (simp_all add: all_bytes_def)
  then have "out_offset s + ?avail + length (take (len - ?avail) rest) \<le> length (out_buffer s)" using assms(3) by simp
  then obtain out where "put_bytes_at (out_offset s + ?avail) (take (len - ?avail) rest) (out_buffer s) = Inr out"
    unfolding put_bytes_at_def by (simp only: if_True)
  with s assms(1) show ?thesis by (simp add: copy_stored_def Let_def get_bytes_raw_def)
qed

section \<open>The block\<close>

lemma stored_header:
  assumes "inflate_stored e s = Inr res" "reads_ok s (reader s)"
  obtains r where "inDataSize r = 0" "reads_ok s r"
    "bits_at s r = drop 32 (drop (inDataSize (reader s) mod 8) (bits_at s (reader s)))"
    "32 \<le> length (drop (inDataSize (reader s) mod 8) (bits_at s (reader s)))"
    "(if field 0 16 (drop (inDataSize (reader s) mod 8) (bits_at s (reader s))) +
         field 16 16 (drop (inDataSize (reader s) mod 8) (bits_at s (reader s))) \<noteq> 0xFFFF then Inr (INFLATE_ERROR, s)
      else jvm_check (stored_buffer e (field 0 16 (drop (inDataSize (reader s) mod 8) (bits_at s (reader s)))) s)
        (copy_stored (field 0 16 (drop (inDataSize (reader s) mod 8) (bits_at s (reader s)))) r)) = Inr res"
proof -
  let ?bs = "drop (inDataSize (reader s) mod 8) (bits_at s (reader s))"
  from assms(1) obtain ra rb rc rd where r: "DUMPBITS (inDataSize (reader s) mod 8) (reader s) = Inr ra"
    "NEEDBITS 32 (in_buffer s) ra = Inr rb" "DUMPBITS 16 rb = Inr rc" "DUMPBITS 16 rc = Inr rd"
    "(if NEXTBITS 16 rb + NEXTBITS 16 rc \<noteq> 0xFFFF then Inr (INFLATE_ERROR, s)
      else jvm_check (stored_buffer e (NEXTBITS 16 rb) s) (copy_stored (NEXTBITS 16 rb) rd)) = Inr res"
    unfolding inflate_stored_def Let_def by (elim jvm_check_InrE) blast
  note A = dump_bits [OF r(1) assms(2)]
  have ok: "reader_ok ra" using A(1) by (simp add: reads_ok_def)
  have "inDataSize ra = inDataSize (reader s) - inDataSize (reader s) mod 8" by (rule A(4))
  then have "8 dvd inDataSize ra" by (simp add: minus_mod_eq_mult_div)
  then have room: "has_room 32 ra" by (simp add: has_room_def)
  have "NEEDBITS 32 (all_bytes s) ra = Inr rb" unfolding all_bytes_def by (rule NEEDBITS_append [OF r(2)])
  from NEEDBITS_stream [OF this ok room] NEEDBITS_stream [OF r(2) ok room] A(1)
  have B: "bits_at s rb = ?bs" "reads_ok s rb" "32 \<le> inDataSize rb" using A(2) by (auto simp: reads_ok_def)
  then have size: "inDataSize rb = 32" by (auto simp: reads_ok_def reader_ok_def)
  note C = dump_bits [OF r(3) B(2)]
  note D = dump_bits [OF r(4) C(1)]
  have n: "NEXTBITS 16 rb = field 0 16 ?bs" "NEXTBITS 16 rc = field 16 16 ?bs"
    using C(2,3) D(3) unfolding B(1) by (simp_all add: field_def)
  have len: "32 \<le> length ?bs"
    using B(1) size by (metis le_add1 length_append reservoir_length stream_def)
  show ?thesis
  proof (rule that)
    show "inDataSize rd = 0" using C(4) D(4) size by simp
    show "reads_ok s rd" by (rule D(1))
    show "bits_at s rd = drop 32 ?bs" using D(2) C(2) unfolding B(1) by simp
  qed (use len r(5) in \<open>simp_all only: n\<close>)
qed

lemma inflate_stored_result:
  assumes "inflate_stored e s = Inr (status, s')" "reads_ok s (reader s)"
    "bs = drop (inDataSize (reader s) mod 8) (bits_at s (reader s))" "len = field 0 16 bs"
    "out_offset s + len \<le> out_length s" "out_length s \<le> length (out_buffer s)"
  shows "if status = INFLATE_MORE
    then len + field 16 16 bs = 0xFFFF \<and> out_offset s' = out_offset s + len \<and> block_type s' = BTYPE_UNKNOWN \<and>
      (\<exists>bytes. length bytes = len \<and> concat (map byte_bits bytes) = take (8 * len) (drop 32 bs) \<and>
        take (out_offset s') (out_buffer s') = take (out_offset s) (out_buffer s) @ bytes) \<and>
      bits_at s' (reader s') = drop (32 + 8 * len) bs
    else status = INFLATE_ERROR \<and> (len + field 16 16 bs \<noteq> 0xFFFF \<or> length bs < 32 + 8 * len)"
proof -
  from assms(1,2) obtain r where r: "inDataSize r = 0" "reads_ok s r" "bits_at s r = drop 32 bs" "32 \<le> length bs"
    "(if len + field 16 16 bs \<noteq> 0xFFFF then Inr (INFLATE_ERROR, s)
      else jvm_check (stored_buffer e len s) (copy_stored len r)) = Inr (status, s')"
    unfolding assms(3,4) by (rule stored_header)
  have same: "stored_buffer e len s = Inr s" using assms(5) by (simp add: stored_buffer_def)
  show ?thesis
  proof (cases "len + field 16 16 bs = 0xFFFF")
    case False
    with r(5) show ?thesis by auto
  next
    case True
    with r(5) same have copy: "copy_stored len r s = Inr (status, s')" by simp
    from r(2) obtain rest where rest: "file_rest s = Some rest" "inOffset r \<le> length (in_buffer s)" by (auto simp: reads_ok_def)
    have room: "out_offset s + len \<le> length (out_buffer s)" using assms(5,6) by simp
    define src where "src = drop (inOffset r) (all_bytes s)"
    have src: "drop 32 bs = concat (map byte_bits src)" using r(3) stream_aligned [OF r(1)] by (simp add: src_def)
    show ?thesis
    proof (cases "len \<le> length src")
      case enough: True
      from copy_stored_all [OF rest room src_def enough] obtain t where t: "copy_stored len r s = Inr (INFLATE_MORE, t)"
        "take (out_offset t) (out_buffer t) = take (out_offset s) (out_buffer s) @ take len src"
        "out_offset t = out_offset s + len" "drop (inOffset (reader t)) (all_bytes t) = drop len src"
        "inDataSize (reader t) = 0" "block_type t = BTYPE_UNKNOWN" using r(1) by metis
      have t': "status = INFLATE_MORE" "s' = t" using t(1) copy by auto
      have "concat (map byte_bits (take len src)) = take (8 * len) (drop 32 bs)" by (simp add: src take_bytes)
      moreover have "bits_at t (reader t) = drop (32 + 8 * len) bs"
        using stream_aligned [OF t(5), of "all_bytes t"] drop_bytes [of len src]
        by (simp add: t(4) src [symmetric] add.commute)
      ultimately show ?thesis using t True enough by (auto simp: t' intro!: exI [of _ "take len src"])
    next
      case False
      then have "length src < len" by simp
      with copy_stored_short [OF rest room] copy have "status = INFLATE_ERROR" by (auto simp: src_def)
      moreover have "length bs < 32 + 8 * len"
        using arg_cong [OF src, of length] bytes_bits_length [of src] r(4) \<open>length src < len\<close> by simp
      ultimately show ?thesis by simp
    qed
  qed
qed

end
