(* ===== verification/Crc32.thy ===== *)
theory Crc32
  imports Prelude
begin

unbundle bit_operations_syntax

text \<open>
  The check sum of a jar entry (\<open>Inflater::crc32\<close> in \<open>HotRoutines.incl.hpp\<close>): with the table and
  the unrolled loop of \<open>ENABLE_FAST_CRC32\<close>, and bit by bit without it.  The two are the same
  function.
\<close>

section \<open>Bit by bit\<close>

definition crc_bit :: "32 word \<Rightarrow> 32 word" where
  "crc_bit crc = (if crc AND 1 \<noteq> 0 then drop_bit 1 crc XOR 0xedb88320 else drop_bit 1 crc)"

definition crc32_slow :: "8 word list \<Rightarrow> 32 word" where
  "crc32_slow data = NOT (fold (\<lambda>b crc. (crc_bit ^^ 8) (crc XOR ucast b)) data 0xFFFFFFFF)"

section \<open>With the table\<close>

definition fast_crc32_table :: "32 word list" where
  "fast_crc32_table =
     [0x00000000, 0x77073096, 0xEE0E612C, 0x990951BA, 0x076DC419, 0x706AF48F, 0xE963A535, 0x9E6495A3,
      0x0EDB8832, 0x79DCB8A4, 0xE0D5E91E, 0x97D2D988, 0x09B64C2B, 0x7EB17CBD, 0xE7B82D07, 0x90BF1D91,
      0x1DB71064, 0x6AB020F2, 0xF3B97148, 0x84BE41DE, 0x1ADAD47D, 0x6DDDE4EB, 0xF4D4B551, 0x83D385C7,
      0x136C9856, 0x646BA8C0, 0xFD62F97A, 0x8A65C9EC, 0x14015C4F, 0x63066CD9, 0xFA0F3D63, 0x8D080DF5,
      0x3B6E20C8, 0x4C69105E, 0xD56041E4, 0xA2677172, 0x3C03E4D1, 0x4B04D447, 0xD20D85FD, 0xA50AB56B,
      0x35B5A8FA, 0x42B2986C, 0xDBBBC9D6, 0xACBCF940, 0x32D86CE3, 0x45DF5C75, 0xDCD60DCF, 0xABD13D59,
      0x26D930AC, 0x51DE003A, 0xC8D75180, 0xBFD06116, 0x21B4F4B5, 0x56B3C423, 0xCFBA9599, 0xB8BDA50F,
      0x2802B89E, 0x5F058808, 0xC60CD9B2, 0xB10BE924, 0x2F6F7C87, 0x58684C11, 0xC1611DAB, 0xB6662D3D,
      0x76DC4190, 0x01DB7106, 0x98D220BC, 0xEFD5102A, 0x71B18589, 0x06B6B51F, 0x9FBFE4A5, 0xE8B8D433,
      0x7807C9A2, 0x0F00F934, 0x9609A88E, 0xE10E9818, 0x7F6A0DBB, 0x086D3D2D, 0x91646C97, 0xE6635C01,
      0x6B6B51F4, 0x1C6C6162, 0x856530D8, 0xF262004E, 0x6C0695ED, 0x1B01A57B, 0x8208F4C1, 0xF50FC457,
      0x65B0D9C6, 0x12B7E950, 0x8BBEB8EA, 0xFCB9887C, 0x62DD1DDF, 0x15DA2D49, 0x8CD37CF3, 0xFBD44C65,
      0x4DB26158, 0x3AB551CE, 0xA3BC0074, 0xD4BB30E2, 0x4ADFA541, 0x3DD895D7, 0xA4D1C46D, 0xD3D6F4FB,
      0x4369E96A, 0x346ED9FC, 0xAD678846, 0xDA60B8D0, 0x44042D73, 0x33031DE5, 0xAA0A4C5F, 0xDD0D7CC9,
      0x5005713C, 0x270241AA, 0xBE0B1010, 0xC90C2086, 0x5768B525, 0x206F85B3, 0xB966D409, 0xCE61E49F,
      0x5EDEF90E, 0x29D9C998, 0xB0D09822, 0xC7D7A8B4, 0x59B33D17, 0x2EB40D81, 0xB7BD5C3B, 0xC0BA6CAD,
      0xEDB88320, 0x9ABFB3B6, 0x03B6E20C, 0x74B1D29A, 0xEAD54739, 0x9DD277AF, 0x04DB2615, 0x73DC1683,
      0xE3630B12, 0x94643B84, 0x0D6D6A3E, 0x7A6A5AA8, 0xE40ECF0B, 0x9309FF9D, 0x0A00AE27, 0x7D079EB1,
      0xF00F9344, 0x8708A3D2, 0x1E01F268, 0x6906C2FE, 0xF762575D, 0x806567CB, 0x196C3671, 0x6E6B06E7,
      0xFED41B76, 0x89D32BE0, 0x10DA7A5A, 0x67DD4ACC, 0xF9B9DF6F, 0x8EBEEFF9, 0x17B7BE43, 0x60B08ED5,
      0xD6D6A3E8, 0xA1D1937E, 0x38D8C2C4, 0x4FDFF252, 0xD1BB67F1, 0xA6BC5767, 0x3FB506DD, 0x48B2364B,
      0xD80D2BDA, 0xAF0A1B4C, 0x36034AF6, 0x41047A60, 0xDF60EFC3, 0xA867DF55, 0x316E8EEF, 0x4669BE79,
      0xCB61B38C, 0xBC66831A, 0x256FD2A0, 0x5268E236, 0xCC0C7795, 0xBB0B4703, 0x220216B9, 0x5505262F,
      0xC5BA3BBE, 0xB2BD0B28, 0x2BB45A92, 0x5CB36A04, 0xC2D7FFA7, 0xB5D0CF31, 0x2CD99E8B, 0x5BDEAE1D,
      0x9B64C2B0, 0xEC63F226, 0x756AA39C, 0x026D930A, 0x9C0906A9, 0xEB0E363F, 0x72076785, 0x05005713,
      0x95BF4A82, 0xE2B87A14, 0x7BB12BAE, 0x0CB61B38, 0x92D28E9B, 0xE5D5BE0D, 0x7CDCEFB7, 0x0BDBDF21,
      0x86D3D2D4, 0xF1D4E242, 0x68DDB3F8, 0x1FDA836E, 0x81BE16CD, 0xF6B9265B, 0x6FB077E1, 0x18B74777,
      0x88085AE6, 0xFF0F6A70, 0x66063BCA, 0x11010B5C, 0x8F659EFF, 0xF862AE69, 0x616BFFD3, 0x166CCF45,
      0xA00AE278, 0xD70DD2EE, 0x4E048354, 0x3903B3C2, 0xA7672661, 0xD06016F7, 0x4969474D, 0x3E6E77DB,
      0xAED16A4A, 0xD9D65ADC, 0x40DF0B66, 0x37D83BF0, 0xA9BCAE53, 0xDEBB9EC5, 0x47B2CF7F, 0x30B5FFE9,
      0xBDBDF21C, 0xCABAC28A, 0x53B39330, 0x24B4A3A6, 0xBAD03605, 0xCDD70693, 0x54DE5729, 0x23D967BF,
      0xB3667A2E, 0xC4614AB8, 0x5D681B02, 0x2A6F2B94, 0xB40BBE37, 0xC30C8EA1, 0x5A05DF1B, 0x2D02EF8D]"

definition crc_byte :: "8 word \<Rightarrow> 32 word \<Rightarrow> 32 word" where
  "crc_byte b crc = fast_crc32_table ! unat ((crc XOR ucast b) AND 0xFF) XOR drop_bit 8 crc"

text \<open>The loop does four bytes in a round, and it is entered in the middle of a round, for the
  bytes that are left over (\<open>switch (length & 3)\<close>).  A read behind the end is \<open>None\<close>.\<close>

fun crc_rounds :: "8 word list \<Rightarrow> 32 word \<Rightarrow> 32 word option" where
  "crc_rounds [] crc = Some crc"
| "crc_rounds (a # b # c # d # data) crc =
     crc_rounds data (crc_byte d (crc_byte c (crc_byte b (crc_byte a crc))))"
| "crc_rounds data crc = None"

definition crc32_fast :: "8 word list \<Rightarrow> 32 word option" where
  "crc32_fast data =
     (let first = length data mod 4 in
      map_option (\<lambda>crc. NOT crc) (crc_rounds (drop first data) (fold crc_byte (take first data) 0xFFFFFFFF)))"

section \<open>The two are the same\<close>

lemma crc_bit_0 [simp]: "crc_bit 0 = 0"
  by (simp add: crc_bit_def)

text \<open>A step is linear, and eight steps shift the bits above the first byte.\<close>

lemma crc_bit_xor: "crc_bit (x XOR y) = crc_bit x XOR crc_bit y"
proof -
  have odd: "z AND 1 \<noteq> 0 \<longleftrightarrow> odd z" for z :: "32 word" by (simp add: and_one_eq odd_iff_mod_2_eq_one)
  have e: "odd (x XOR y) \<longleftrightarrow> odd x \<noteq> odd y" by (simp add: even_xor_iff)
  have s: "drop_bit 1 (x XOR y) = drop_bit 1 x XOR drop_bit 1 y" by (rule drop_bit_xor)
  show ?thesis unfolding crc_bit_def odd e s
    by (auto simp: xor.assoc xor.commute xor.left_commute)
qed

lemma crc_bits_xor: "(crc_bit ^^ n) (x XOR y) = (crc_bit ^^ n) x XOR (crc_bit ^^ n) y"
  by (induction n) (simp_all add: crc_bit_xor)

lemma crc_bits_high: "take_bit n x = 0 \<Longrightarrow> (crc_bit ^^ n) x = drop_bit n x"
proof (induction n arbitrary: x)
  case (Suc n)
  have low: "take_bit n x = 0"
    using arg_cong [OF Suc.prems, of "take_bit n"] by simp
  have "bit (take_bit (Suc n) x) n = bit x n" by (simp add: bit_take_bit_iff)
  with Suc.prems have "\<not> bit x n" by simp
  then have "even (drop_bit n x)" by (simp add: bit_iff_odd_drop_bit)
  then have "crc_bit (drop_bit n x) = drop_bit 1 (drop_bit n x)"
    by (simp add: crc_bit_def and_one_eq even_iff_mod_2_eq_zero)
  with Suc.IH [OF low] show ?case by (simp add: drop_bit_drop_bit)
qed simp

text \<open>The table of a linear function from its values at the powers of two.\<close>

definition doubled :: "32 word list \<Rightarrow> 32 word list" where
  "doubled ps = fold (\<lambda>p t. t @ map (\<lambda>x. x XOR p) t) ps [0]"

lemma doubled_snoc: "doubled (ps @ [p]) = doubled ps @ map (\<lambda>x. x XOR p) (doubled ps)"
  by (simp add: doubled_def)

lemma length_doubled: "length (doubled ps) = 2 ^ length ps"
proof (induction ps rule: rev_induct)
  case (snoc p ps)
  then show ?case by (simp add: doubled_snoc)
qed (simp add: doubled_def)

lemma doubled_nth:
  "k < 2 ^ j \<Longrightarrow> j \<le> 32 \<Longrightarrow> doubled (map (\<lambda>i. (crc_bit ^^ n) (2 ^ i)) [0..<j]) ! k = (crc_bit ^^ n) (word_of_nat k)"
proof (induction j arbitrary: k)
  case 0
  then show ?case by (induction n) (simp_all add: doubled_def)
next
  case (Suc j)
  let ?ps = "\<lambda>j. map (\<lambda>i. (crc_bit ^^ n) (2 ^ i)) [0..<j]"
  have len: "length (doubled (?ps j)) = 2 ^ j" by (simp add: length_doubled)
  have step: "doubled (?ps (Suc j)) = doubled (?ps j) @ map (\<lambda>x. x XOR (crc_bit ^^ n) (2 ^ j)) (doubled (?ps j))"
    by (simp add: doubled_snoc)
  show ?case
  proof (cases "k < 2 ^ j")
    case True
    with Suc len show ?thesis unfolding step by (simp add: nth_append)
  next
    case False
    define m where "m = k - 2 ^ j"
    have m: "m < 2 ^ j" "k = m + 2 ^ j" using False Suc.prems(1) by (simp_all add: m_def)
    have "bit m i \<Longrightarrow> i \<noteq> j" for i using m(1) by (metis bit_take_bit_iff order.irrefl take_bit_nat_eq_self_iff)
    then have "bit (word_of_nat m XOR (2 ^ j :: 32 word)) i \<longleftrightarrow> bit (word_of_nat m + (2 ^ j :: 32 word)) i" for i
      by (subst disjunctive_add) (auto simp: bit_simps)
    then have sum: "word_of_nat k = word_of_nat m XOR (2 ^ j :: 32 word)"
      unfolding m(2) of_nat_add of_nat_power of_nat_numeral by (intro bit_word_eqI) simp
    have "doubled (?ps (Suc j)) ! k = doubled (?ps j) ! m XOR (crc_bit ^^ n) (2 ^ j)"
      unfolding step using m len by (simp add: nth_append)
    also have "\<dots> = (crc_bit ^^ n) (word_of_nat k)" using Suc.IH [OF m(1)] Suc.prems(2) by (simp add: sum crc_bits_xor)
    finally show ?thesis .
  qed
qed

lemma crc_bit_values:
  "crc_bit 0xEDB88320 = 0x76DC4190" "crc_bit 0x76DC4190 = 0x3B6E20C8" "crc_bit 0x3B6E20C8 = 0x1DB71064"
  "crc_bit 0x1DB71064 = 0x0EDB8832" "crc_bit 0x0EDB8832 = 0x076DC419" "crc_bit 0x076DC419 = 0xEE0E612C"
  "crc_bit 0xEE0E612C = 0x77073096" "crc_bit 1 = 0xEDB88320" "crc_bit 2 = 1" "crc_bit 4 = 2" "crc_bit 8 = 4"
  "crc_bit 16 = 8" "crc_bit 32 = 16" "crc_bit 64 = 32" "crc_bit 128 = 64"
  by (simp_all add: crc_bit_def)

lemma crc_bit_8: "(crc_bit ^^ 8) x = crc_bit (crc_bit (crc_bit (crc_bit (crc_bit (crc_bit (crc_bit (crc_bit x)))))))"
  by (simp add: numeral_eq_Suc)

lemma table_doubled: "fast_crc32_table = doubled (map (\<lambda>i. (crc_bit ^^ 8) (2 ^ i)) [0..<8])"
proof -
  have "map (\<lambda>i. (crc_bit ^^ 8) (2 ^ i)) [0..<8] =
      [0x77073096, 0xEE0E612C, 0x076DC419, 0x0EDB8832, 0x1DB71064, 0x3B6E20C8, 0x76DC4190, 0xEDB88320]"
    by (simp add: upt_rec crc_bit_8 crc_bit_values)
  then show ?thesis by (simp add: fast_crc32_table_def doubled_def)
qed

lemma table_entry: "fast_crc32_table ! unat (x AND 0xFF) = (crc_bit ^^ 8) (x AND 0xFF)"
proof -
  have "unat (x AND 0xFF) = take_bit 8 (unat x)"
    using unsigned_take_bit_eq [of 8 x, where 'a = nat] by (simp add: take_bit_eq_mask mask_numeral)
  then have "unat (x AND 0xFF) < 2 ^ 8" using take_bit_nat_less_exp [of 8 "unat x"] by simp
  then show ?thesis unfolding table_doubled by (subst doubled_nth) simp_all
qed

lemma crc_byte_bits: "crc_byte b crc = (crc_bit ^^ 8) (crc XOR ucast b)"
proof -
  let ?x = "crc XOR ucast b"
  have mask: "(0xFF :: 32 word) = mask 8" by (simp add: mask_numeral)
  have split: "?x = (?x AND mask 8) XOR (?x AND NOT (mask 8))"
    by (rule bit_word_eqI) (auto simp: bit_simps)
  have b: "\<not> bit (ucast b :: 32 word) (8 + k)" for k
    using bit_imp_le_length [of b "8 + k"] by (auto simp: bit_simps)
  have high: "drop_bit 8 (?x AND NOT (mask 8)) = drop_bit 8 crc"
    by (rule bit_word_eqI) (auto simp: bit_simps b dest: bit_imp_le_length)
  have "take_bit 8 (?x AND NOT (mask 8)) = 0"
    by (rule bit_word_eqI) (auto simp: bit_simps)
  from crc_bits_high [OF this] high have "(crc_bit ^^ 8) (?x AND NOT (mask 8)) = drop_bit 8 crc" by simp
  then have "(crc_bit ^^ 8) ?x = (crc_bit ^^ 8) (?x AND mask 8) XOR drop_bit 8 crc"
    by (subst split) (simp only: crc_bits_xor)
  then show ?thesis using table_entry [of ?x] by (simp add: crc_byte_def mask)
qed

lemma crc_rounds_result: "4 dvd length data \<Longrightarrow> crc_rounds data crc = Some (fold crc_byte data crc)"
proof (induction data crc rule: crc_rounds.induct)
  case (2 a b c d data crc)
  moreover from this(2) have "4 dvd length data" by simp presburger
  ultimately show ?case by simp
qed (simp; presburger)+

text \<open>The unrolled loop does the bytes in order.\<close>

lemma crc32_fast_result: "crc32_fast data = Some (crc32_slow data)"
proof -
  let ?n = "length data mod 4"
  have "4 dvd length (drop ?n data)" by (simp add: dvd_minus_mod)
  then have "crc32_fast data = Some (NOT (fold crc_byte data 0xFFFFFFFF))"
    using fold_append [of crc_byte "take ?n data" "drop ?n data"]
    by (simp add: crc32_fast_def Let_def crc_rounds_result)
  then show ?thesis by (simp add: crc32_slow_def crc_byte_bits [abs_def])
qed

text \<open>C35: The check sum of a jar entry is the same with \<open>ENABLE_FAST_CRC32\<close> and without: for
  every data, the unrolled loop over the table of 256 words, entered in the middle for the bytes
  left over, reads just the data and gives what the bit-by-bit loop gives.\<close>

theorem crc32_fast_slow: "crc32_fast data = Some (crc32_slow data)"
  by (rule crc32_fast_result)

end
