(* ===== verification/Inflate_Rules.thy ===== *)
theory Inflate_Rules
  imports Inflate_Stored Crc32
begin

text \<open>
  What the inflater guarantees for the format (RFC 1951), and where it trusts its input: the
  properties of the inflater.
\<close>

section \<open>Examples\<close>

definition example_env :: inflate_env where
  "example_env = \<lparr>table_heuristic = True, raw_byte = (\<lambda>_. 0)\<rparr>"

definition example_inflater :: "8 word list \<Rightarrow> nat \<Rightarrow> inflater" where
  "example_inflater bytes room =
     \<lparr>in_buffer = bytes, out_buffer = replicate room 0,
      length_buffer = \<lparr>h_quickBits = 0, h_maxCodeLen = 0, entries = []\<rparr>,
      distance_buffer = \<lparr>h_quickBits = 0, h_maxCodeLen = 0, entries = []\<rparr>,
      out_offset = 0, out_dumped = 0, reader = \<lparr>inOffset = 0, inDataSize = 0, inData = 0\<rparr>, expected_crc = 0,
      block_type = BTYPE_FIXED_HUFFMAN, last_block = False, incremental = False, file_rest = Some [],
      file_size = room, bytes_remain = room\<rparr>"

lemma example_reads_ok: "reads_ok (example_inflater bytes room) (reader (example_inflater bytes room))"
  by (simp add: reads_ok_def example_inflater_def reader_ok_def)

lemma example_stream:
  "bits_at (example_inflater bytes room) (reader (example_inflater bytes room)) = concat (map byte_bits bytes)"
  by (simp add: example_inflater_def all_bytes_def stream_def reservoir_def)

lemma example_ok: "room < 2 ^ 32 \<Longrightarrow> inflater_ok (example_inflater bytes room)"
  by (simp add: inflater_ok_def example_inflater_def reader_ok_def)

section \<open>Blocks of codes\<close>

text \<open>C7: A call of \<open>inflate_huffman\<close>, for a block with the fixed codes or with tables that find the symbols
  of the block's code, does steps of the format from the bits to come and the output so far.  It never
  writes outside the output buffer, whatever the bits are: the only fault is a read behind the input.
  When it asks for another call, it has left the block with the code for its end, or has paused: the
  bits that are left are still to come, and the output is that of the format.  When it reports an error,
  the format has no code there, or there is no room for the output and the buffer cannot be drained.\<close>

theorem inflate_huffman_refines_format:
  assumes "inflater_ok s" "tables_for fixedHuffman s ll dl" "file_rest s \<noteq> None" "block_type s \<noteq> BTYPE_UNKNOWN"
  shows "case inflate_huffman e fixedHuffman s of
      Inl f \<Rightarrow> f = Read_past_buffer
    | Inr (status, s') \<Rightarrow> length (out_buffer s') = length (out_buffer s) \<and>
        (\<exists>bs out. (code_step ll dl)\<^sup>*\<^sup>* (bits_at s (reader s), take (out_offset s) (out_buffer s)) (bs, out) \<and>
          (case status of
             INFLATE_COMPLETE \<Rightarrow> False
           | INFLATE_ERROR \<Rightarrow> stuck ll dl (bs, out) \<or> overflows s ll dl (bs, out)
           | INFLATE_MORE \<Rightarrow>
               out = take (out_offset s') (out_buffer s') \<and>
               (if block_type s' = BTYPE_UNKNOWN
                then next_symbol ll 256 bs \<and> bits_at s' (reader s') = drop (ll ! 256) bs
                else prefix bs (bits_at s' (reader s')))))"
proof (cases "inflate_huffman e fixedHuffman s")
  case (Inl f)
  with inflate_huffman_outcome [OF assms, of e] show ?thesis by (simp add: huffman_outcome_def)
next
  case (Inr x)
  obtain status s' where x: "x = (status, s')" by (cases x)
  from inflate_huffman_outcome [OF assms, of e] obtain bs out where
    "length (out_buffer s') = length (out_buffer s)" "status \<noteq> INFLATE_COMPLETE"
    "(code_step ll dl)\<^sup>*\<^sup>* (bits_at s (reader s), take (out_offset s) (out_buffer s)) (bs, out)"
    "if status = INFLATE_ERROR then stuck ll dl (bs, out) \<or> overflows s ll dl (bs, out)
     else if block_type s' = BTYPE_UNKNOWN then block_left ll s' (bs, out) else block_paused s' (bs, out)"
    by (auto simp: huffman_outcome_def Inr x)
  then show ?thesis
    by (cases status) (auto simp: Inr x block_left_def block_end_def block_paused_def intro!: exI [of _ bs] exI [of _ out])
qed

theorem inflate_huffman_refines_format_witness:
  "length (out_buffer (example_inflater [0x4B, 0x04, 0, 0, 0, 0] 2)) = 2 \<and>
   (case inflate_huffman example_env True (example_inflater [0x4B, 0x04, 0, 0, 0, 0] 2) of
      Inl f \<Rightarrow> f = Read_past_buffer
    | Inr (status, s') \<Rightarrow> length (out_buffer s') = 2)"
proof -
  let ?s = "example_inflater [0x4B, 0x04, 0, 0, 0, 0] 2"
  have ok: "inflater_ok ?s" by (rule example_ok) simp
  have t: "tables_for True ?s fixed_lengths fixed_distances" by (simp add: tables_for_def fixed_lengths_ok)
  have f: "file_rest ?s \<noteq> None" "block_type ?s \<noteq> BTYPE_UNKNOWN" "length (out_buffer ?s) = 2"
    by (simp_all add: example_inflater_def BTYPE_FIXED_HUFFMAN_def BTYPE_UNKNOWN_def)
  from inflate_huffman_refines_format [OF ok t f(1,2), of example_env] f(3) show ?thesis
    by (auto split: sum.splits)
qed

section \<open>Tables\<close>

text \<open>C18: For every list of code lengths that leaves no code space over-used, of the alphabets of the format,
  \<open>make_code_table\<close> makes a table, with the heuristic for its size and without; and a lookup in the table
  finds, for every stream of bits, the symbol whose canonical code the stream begins with and steps over just
  that code, and reports that there is none exactly when there is none.\<close>

theorem make_code_table_canonical:
  assumes "lengths_ok lens" "maxq = MAX_QUICK_LXL \<and> length lens \<le> 320 \<or> maxq = MAX_QUICK_CXD \<and> length lens \<le> 32"
  shows "\<exists>table. make_code_table h lens maxq = Inr table \<and>
    (\<forall>buf r. reader_ok r \<and> MAX_BITS \<le> inDataSize r \<longrightarrow>
       (case GET_HUFFMAN_ENTRY table (h_quickBits table) r of
          Inl f \<Rightarrow> False
        | Inr None \<Rightarrow> \<forall>c. \<not> next_symbol lens c (stream buf r)
        | Inr (Some (c, r')) \<Rightarrow> next_symbol lens c (stream buf r) \<and> stream buf r' = drop (lens ! c) (stream buf r) \<and> reader_ok r'))"
proof -
  from alphabet_table [OF assms] obtain table where t: "make_code_table h lens maxq = Inr table" "finds_symbols lens table"
    by blast
  have "case GET_HUFFMAN_ENTRY table (h_quickBits table) r of
          Inl f \<Rightarrow> False
        | Inr None \<Rightarrow> \<forall>c. \<not> next_symbol lens c (stream buf r)
        | Inr (Some (c, r')) \<Rightarrow> next_symbol lens c (stream buf r) \<and> stream buf r' = drop (lens ! c) (stream buf r) \<and> reader_ok r'"
    if r: "reader_ok r" "MAX_BITS \<le> inDataSize r" for buf r
  proof -
    from t(2) r have "looks_up lens (stream buf r) r (GET_HUFFMAN_ENTRY table (h_quickBits table) r)"
      unfolding finds_symbols_def by blast
    then show ?thesis
    proof (cases rule: looks_up_cases)
      case (symbol c r')
      from DUMPBITS_all(1,2) [OF symbol(2) r(1)] symbol(1,3) show ?thesis by simp
    qed simp
  qed
  with t(1) show ?thesis by blast
qed

theorem make_code_table_canonical_witness: "\<exists>table. make_code_table True [2, 1, 3, 3] MAX_QUICK_CXD = Inr table"
proof -
  have "lengths_ok [2, 1, 3, 3]"
    by (rule lengths_okI) (simp_all add: space_below_counts upt_rec)
  from make_code_table_canonical [OF this, of MAX_QUICK_CXD True] show ?thesis by auto
qed

text \<open>C19: The header of a block with its own codes, when its numbers and the lengths of the codes for the code lengths
  are in the input and these lengths make a proper code.  When \<open>decode_dynamic_huffman_tables\<close> accepts the header, the
  code lengths it has read are those of the format, repeat codes included; it has read code lengths only as long as
  there were fewer than the header says, so that the reader is just behind the last one; and when the lengths make
  proper codes, the two tables decode the block.  When it reports an error, the bits hold no header of the format.  Bits
  that the input does not have (\<open>xs\<close>) are read only when the file has ended.\<close>

theorem dynamic_tables_of_header:
  assumes "reads_ok s (reader s)" "14 + 3 * (4 + field 10 4 (bits_at s (reader s))) \<le> length (bits_at s (reader s))"
    "lengths_ok (header_lengths (bits_at s (reader s)))"
  shows "case decode_dynamic_huffman_tables e s of
      Inl f \<Rightarrow> True
    | Inr (status, s') \<Rightarrow>
        (case status of
           INFLATE_COMPLETE \<Rightarrow> False
         | INFLATE_ERROR \<Rightarrow> \<forall>ll dl bs'. \<not> dynamic_header (bits_at s (reader s)) ll dl bs'
         | INFLATE_MORE \<Rightarrow> \<exists>xs ll dl. behind_file xs s' \<and>
             dynamic_header (bits_at s (reader s) @ xs) ll dl (bits_at s' (reader s')) \<and>
             (lengths_ok ll \<and> lengths_ok dl \<longrightarrow> tables_for False s' ll dl) \<and>
             out_buffer s' = out_buffer s \<and> out_offset s' = out_offset s)"
proof (cases "decode_dynamic_huffman_tables e s")
  case (Inr x)
  obtain status s' where x: "x = (status, s')" by (cases x)
  have "status \<noteq> INFLATE_COMPLETE"
    using Inr unfolding x decode_dynamic_huffman_tables_def Let_def
    by (elim jvm_check_InrE) (force elim!: jvm_check_InrE split: option.splits if_splits prod.splits)
  then show ?thesis
    using Inr x decode_dynamic_result [OF _ assms, of e s'] decode_dynamic_error [OF _ assms, of e s']
    by (cases status) auto
qed simp

text \<open>An example: 256 symbols without a code, a code of one bit for the end of the block and one for a distance.\<close>

abbreviation example_header :: "8 word list" where
  "example_header \<equiv> [0, 56, 16, 0, 0, 0, 0, 0, 242, 127, 13, 0, 0, 0, 0]"

abbreviation example_code_lengths :: "nat list" where
  "example_code_lengths \<equiv> [0, 1, 0, 0, 0, 0, 0, 0, 0, 0, 0, 0, 0, 0, 0, 0, 0, 0, 1]"

lemma example_counts:
  "count_lengths example_code_lengths = Inr [17, 2, 0, 0, 0, 0, 0, 0, 0, 0, 0, 0, 0, 0, 0, 0]"
  "max_code_len [17, 2, 0, 0, 0, 0, 0, 0, 0, 0, 0, 0, 0, 0, 0, 0] = 1"
  by code_simp+

lemma example_scan: "scan_counts True [17, 2, 0, 0, 0, 0, 0, 0, 0, 0, 0, 0, 0, 0, 0, 0] 6 = (1, replicate 16 0, 1)"
proof -
  have same: "(replicate 16 0)[1 := 0] = (replicate 16 0 :: nat list)" by code_simp
  have "scan_heuristic [17, 2, 0, 0, 0, 0, 0, 0, 0, 0, 0, 0, 0, 0, 0, 0] 1 =
      scan_quick 1 1 (scan_code [17, 2, 0, 0, 0, 0, 0, 0, 0, 0, 0, 0, 0, 0, 0, 0] 1 scan_start)"
    by (simp add: scan_heuristic_def)
  then show ?thesis
    unfolding scan_counts_def Let_def example_counts(2) if_True
    using same by (simp add: scan_quick_def scan_code_def scan_start_def heuristic_size_def u32_def Let_def)
qed

lemma example_sizes: "table_sizes 1 1 (replicate 16 0) = (1, 2, 0, 0)" by (simp add: table_sizes_def)

lemma example_reversed: "reverse_15bits 0 = Inr 0" "reverse_15bits 16384 = Inr 1"
  by (simp_all add: reverse_15bits_def reverse5_def)

lemma example_entered:
  "enter_symbols 1 2 0 example_code_lengths \<lparr>ts_codes = replicate 16 0, ts_entries = [0, 0], ts_next = 2\<rparr> =
   Inr \<lparr>ts_codes = (replicate 16 0)[1 := 32768], ts_entries = [17, 289], ts_next = 2\<rparr>"
  by (simp add: enter_symbols_def enter_symbol_def example_reversed Let_def fill_entries.simps set_at_def) code_simp

lemma example_table: "make_code_table True example_code_lengths MAX_QUICK_CXD =
   Inr \<lparr>h_quickBits = 1, h_maxCodeLen = 1, entries = [17, 289]\<rparr>"
  unfolding make_code_table_def example_counts MAX_QUICK_CXD_def jvm_check_simps example_scan Let_def prod.case example_sizes
  using example_entered by (simp add: u32_def numeral_2_eq_2)

lemma example_numbers: "\<exists>r1 r2 r3. NEEDBITS 14 (in_buffer (example_inflater example_header 2)) (reader (example_inflater example_header 2)) = Inr r1 \<and>
   NEXTBITS 5 r1 = 0 \<and> DUMPBITS 5 r1 = Inr r2 \<and> NEXTBITS 5 r2 = 0 \<and> DUMPBITS 5 r2 = Inr r3 \<and> NEXTBITS 4 r3 = 14 \<and>
   DUMPBITS 4 r3 = Inr \<lparr>inOffset = 2, inDataSize = 2, inData = 0\<rparr>"
  by (simp add: example_inflater_def NEEDBITS.simps NEXTBYTE_def DUMPBITS_def NEXTBITS_def)

lemma example_first_lengths:
  "jvm_fold (read_code_length example_env) [0..<18]
     (replicate 19 0, example_inflater example_header 2, \<lparr>inOffset = 2, inDataSize = 2, inData = 0\<rparr>) =
   Inr (example_code_lengths, example_inflater example_header 2, \<lparr>inOffset = 9, inDataSize = 4, inData = 15\<rparr>)"
  by code_simp

lemma example_lengths: "\<exists>s' r'. code_lengths example_env \<lparr>h_quickBits = 1, h_maxCodeLen = 1, entries = [17, 289]\<rparr> 0 258
    (replicate codelen_buf_size 0) (example_inflater example_header 2) \<lparr>inOffset = 9, inDataSize = 4, inData = 15\<rparr> =
   Inr (Some ((replicate codelen_buf_size 0)[256 := 1, 257 := 1], s', r'))"
  by (simp add: code_lengths.simps NEEDBITS.simps NEXTBYTE_def example_inflater_def get_entry_def GET_HUFFMAN_ENTRY_def
    NEXTBITS_def DUMPBITS_def HUFFINFO_LONG_MASK_def set_at_def repeat_length_def codelen_buf_size_def check_input_def
    in_length_def EXTRA_INPUT_BYTES_def u32_def)

lemma example_codes: "lengths_ok (replicate 256 0 @ [1])" "lengths_ok [1]" "lengths_ok example_code_lengths"
  by (rule lengths_okI, simp_all add: space_below_counts count_list_append count_list_replicate list_all_iff upt_rec
    del: replicate.simps)+

lemma example_accepted:
  "\<exists>s'. decode_dynamic_huffman_tables example_env (example_inflater example_header 2) = Inr (INFLATE_MORE, s')"
proof -
  let ?lens = "(replicate codelen_buf_size 0)[256 := 1, 257 := 1] :: nat list"
  have lens: "take 257 ?lens = replicate 256 0 @ [1]" "take 1 (drop 257 ?lens) = [1]" "\<not> 258 > length ?lens"
    by (simp_all add: codelen_buf_size_def list_eq_iff_nth_eq nth_append nth_list_update less_Suc_eq numeral_nat(7))
  obtain t1 where t1: "make_code_table True (take 257 ?lens) MAX_QUICK_LXL = Inr t1"
    using alphabet_table [OF example_codes(1), of MAX_QUICK_LXL True] unfolding lens by auto
  obtain t2 where t2: "make_code_table True (take 1 (drop 257 ?lens)) MAX_QUICK_CXD = Inr t2"
    using alphabet_table [OF example_codes(2), of MAX_QUICK_CXD True] unfolding lens by auto
  from example_numbers example_lengths example_table example_first_lengths t1 t2 lens(3) show ?thesis
    by (auto simp: decode_dynamic_huffman_tables_def Let_def example_env_def)
qed

theorem dynamic_tables_of_header_witness:
  "\<exists>s' xs ll dl. decode_dynamic_huffman_tables example_env (example_inflater example_header 2) = Inr (INFLATE_MORE, s') \<and>
     dynamic_header (concat (map byte_bits example_header) @ xs) ll dl (bits_at s' (reader s'))"
proof -
  let ?s = "example_inflater example_header 2" and ?bs = "concat (map byte_bits example_header)"
  have "field 10 4 ?bs = 14" "length ?bs = 120" by code_simp+
  then have bits: "14 + 3 * (4 + field 10 4 (bits_at ?s (reader ?s))) \<le> length (bits_at ?s (reader ?s))"
    unfolding example_stream by simp
  have "header_lengths ?bs = example_code_lengths" by code_simp
  then have ok: "lengths_ok (header_lengths (bits_at ?s (reader ?s)))"
    unfolding example_stream using example_codes(3) by simp
  from example_accepted obtain s' where "decode_dynamic_huffman_tables example_env ?s = Inr (INFLATE_MORE, s')" by blast
  with dynamic_tables_of_header [OF example_reads_ok bits ok, of example_env] show ?thesis
    by (auto simp only: example_stream sum.case prod.case inflate_status.case)
qed

section \<open>Stored blocks\<close>

text \<open>The bits of a stored block, from the next byte boundary.\<close>

definition aligned_bits :: "inflater \<Rightarrow> bool list" where
  "aligned_bits s = drop (inDataSize (reader s) mod 8) (bits_at s (reader s))"

text \<open>C34: A stored block that has room in the output buffer is copied as it is: the length, its complement,
  and then just the bytes of the block, from the input buffer or straight from the file.  An error means that the
  complement does not fit the length, or that the file ends before the block.\<close>

theorem inflate_stored_copies:
  assumes "inflate_stored e s = Inr (status, s')" "reads_ok s (reader s)"
    "out_offset s + field 0 16 (aligned_bits s) \<le> out_length s" "out_length s \<le> length (out_buffer s)"
  shows "if status = INFLATE_MORE
    then field 0 16 (aligned_bits s) + field 16 16 (aligned_bits s) = 0xFFFF \<and> block_type s' = BTYPE_UNKNOWN \<and>
      out_offset s' = out_offset s + field 0 16 (aligned_bits s) \<and>
      (\<exists>bytes. length bytes = field 0 16 (aligned_bits s) \<and>
        concat (map byte_bits bytes) = take (8 * field 0 16 (aligned_bits s)) (drop 32 (aligned_bits s)) \<and>
        take (out_offset s') (out_buffer s') = take (out_offset s) (out_buffer s) @ bytes) \<and>
      bits_at s' (reader s') = drop (32 + 8 * field 0 16 (aligned_bits s)) (aligned_bits s)
    else status = INFLATE_ERROR \<and>
      (field 0 16 (aligned_bits s) + field 16 16 (aligned_bits s) \<noteq> 0xFFFF \<or>
       length (aligned_bits s) < 32 + 8 * field 0 16 (aligned_bits s))"
  using inflate_stored_result [OF assms(1,2) aligned_bits_def refl assms(3,4)] by (auto split: if_splits)

theorem inflate_stored_copies_witness:
  "\<exists>s'. inflate_stored example_env (example_inflater [1, 0, 0xFE, 0xFF, 0x2A] 1) = Inr (INFLATE_MORE, s') \<and>
     out_offset s' = 1 \<and> (\<exists>b. take 1 (out_buffer s') = [b])"
proof -
  let ?s = "example_inflater [1, 0, 0xFE, 0xFF, 0x2A] 1"
  have "(case inflate_stored example_env ?s of Inr (INFLATE_MORE, s') \<Rightarrow> True | _ \<Rightarrow> False)"
    by (simp add: example_inflater_def inflate_stored_def NEEDBITS.simps NEXTBYTE_def NEXTBITS_def DUMPBITS_def Let_def
        stored_buffer_def copy_stored_def get_bytes_at_def put_bytes_at_def out_length_def u32_def)
  then obtain s' where run: "inflate_stored example_env ?s = Inr (INFLATE_MORE, s')"
    by (auto split: sum.splits inflate_status.splits)
  have bits: "aligned_bits ?s = concat (map byte_bits [1, 0, 0xFE, 0xFF, 0x2A])"
    using example_stream [of "[1, 0, 0xFE, 0xFF, 0x2A]" 1] by (simp add: aligned_bits_def) (simp add: example_inflater_def)
  have "field 0 16 (concat (map byte_bits [1, 0, 0xFE, 0xFF, 0x2A])) = 1"
    by (simp add: field_def byte_bits_def bits_value_def upt_rec)
  then have len: "field 0 16 (aligned_bits ?s) = 1" by (simp only: bits)
  have room: "out_offset ?s + field 0 16 (aligned_bits ?s) \<le> out_length ?s" "out_length ?s \<le> length (out_buffer ?s)"
    unfolding len by (simp_all add: example_inflater_def out_length_def u32_def)
  note copied = inflate_stored_copies [OF run example_reads_ok room, unfolded len if_P [OF refl]]
  then obtain bytes where bytes: "length bytes = (1 :: nat)"
    "take (out_offset s') (out_buffer s') = take (out_offset ?s) (out_buffer ?s) @ bytes" by (elim conjE exE)
  from copied have off: "out_offset s' = out_offset ?s + 1" by (elim conjE)
  have start: "out_offset ?s = 0" by (simp add: example_inflater_def)
  from bytes(1) obtain b where "bytes = [b]" by (auto simp: length_Suc_conv)
  with bytes(2) off start have "out_offset s' = 1" "take 1 (out_buffer s') = [b]" by simp_all
  with run show ?thesis by blast
qed

lemma copy_stored_faults: "copy_stored len r s \<noteq> Inl Read_before_buffer"
  by (auto simp: copy_stored_def Let_def get_bytes_at_def put_bytes_at_def get_bytes_raw_def jvm_check_def split: sum.splits option.splits)

lemma stored_buffer_faults:
  "stored_buffer e len s = Inl Read_before_buffer \<longleftrightarrow>
     out_length s < out_offset s + len \<and> out_offset s + len < DICTIONARY_SIZE"
  by (auto simp: stored_buffer_def Let_def get_bytes_at_def put_bytes_at_def jvm_check_def split: sum.splits)

text \<open>C38: When a stored block whose header is in the input buffer is copied with bytes from in front of the output
  buffer: exactly when the complement fits, the room that is left is shorter than the block, and the block ends before
  32K of output.  The inflater then makes room by keeping the last bytes of a dictionary of 32K, of which it has not
  made so many.  Only an assertion of the debug build compares the length of the block with the buffer.\<close>

theorem inflate_stored_reads_outside:
  assumes "reads_ok s (reader s)" "DUMPBITS (inDataSize (reader s) mod 8) (reader s) = Inr r"
    "NEEDBITS 32 (in_buffer s) r = Inr r'"
  shows "inflate_stored e s = Inl Read_before_buffer \<longleftrightarrow>
    field 0 16 (aligned_bits s) + field 16 16 (aligned_bits s) = 0xFFFF \<and>
    out_length s < out_offset s + field 0 16 (aligned_bits s) \<and>
    out_offset s + field 0 16 (aligned_bits s) < DICTIONARY_SIZE"
proof -
  let ?bs = "aligned_bits s"
  let ?len = "field 0 16 ?bs"
  note A = dump_bits [OF assms(2,1)]
  have "8 dvd inDataSize r" unfolding A(4) by (simp add: minus_mod_eq_mult_div)
  then have room: "has_room 32 r" by (simp add: has_room_def)
  have ok: "reader_ok r" using A(1) by (simp add: reads_ok_def)
  have "NEEDBITS 32 (all_bytes s) r = Inr r'" unfolding all_bytes_def by (rule NEEDBITS_append [OF assms(3)])
  from NEEDBITS_stream [OF this ok room] NEEDBITS_stream [OF assms(3) ok room] A(1,2)
  have B: "bits_at s r' = ?bs" "reads_ok s r'" "32 \<le> inDataSize r'" by (auto simp: reads_ok_def aligned_bits_def)
  from B(3) obtain r1 where r1: "DUMPBITS 16 r' = Inr r1" using DUMPBITS_Inr [of 16 r'] by auto
  note C = dump_bits [OF r1 B(2)]
  have "16 \<le> inDataSize r1" using C(4) B(3) by simp
  then obtain r2 where r2: "DUMPBITS 16 r1 = Inr r2" using DUMPBITS_Inr by blast
  note D = dump_bits [OF r2 C(1)]
  have n: "NEXTBITS 16 r' = ?len" "NEXTBITS 16 r1 = field 16 16 ?bs"
    using C(2,3) D(3) unfolding B(1) by (simp_all add: field_def)
  have run: "inflate_stored e s = (if ?len + field 16 16 ?bs \<noteq> 0xFFFF then Inr (INFLATE_ERROR, s)
      else jvm_check (stored_buffer e ?len s) (\<lambda>s. copy_stored ?len r2 s))"
    by (simp add: inflate_stored_def assms(2,3) r1 r2 n Let_def)
  show ?thesis
    unfolding run stored_buffer_faults [of e ?len s, symmetric] using copy_stored_faults
    by (cases "stored_buffer e ?len s") auto
qed

theorem inflate_stored_reads_outside_witness:
  "inflate_stored example_env (example_inflater [2, 0, 0xFD, 0xFF, 0x2A, 0x2A] 1) = Inl Read_before_buffer"
proof -
  let ?s = "example_inflater [2, 0, 0xFD, 0xFF, 0x2A, 0x2A] 1"
  have "(case DUMPBITS (inDataSize (reader ?s) mod 8) (reader ?s) of Inr r \<Rightarrow>
      (case NEEDBITS 32 (in_buffer ?s) r of Inr r' \<Rightarrow> True | _ \<Rightarrow> False) | _ \<Rightarrow> False)"
    by (simp add: example_inflater_def NEEDBITS.simps NEXTBYTE_def DUMPBITS_def)
  then obtain r r' where r: "DUMPBITS (inDataSize (reader ?s) mod 8) (reader ?s) = Inr r" "NEEDBITS 32 (in_buffer ?s) r = Inr r'"
    by (auto split: sum.splits)
  have bits: "aligned_bits ?s = concat (map byte_bits [2, 0, 0xFD, 0xFF, 0x2A, 0x2A])"
    using example_stream [of "[2, 0, 0xFD, 0xFF, 0x2A, 0x2A]" 1] by (simp add: aligned_bits_def) (simp add: example_inflater_def)
  have "field 0 16 (concat (map byte_bits [2, 0, 0xFD, 0xFF, 0x2A, 0x2A])) = 2"
    "field 16 16 (concat (map byte_bits [2, 0, 0xFD, 0xFF, 0x2A, 0x2A])) = 0xFFFD"
    by (simp_all add: field_def byte_bits_def bits_value_def upt_rec)
  then have len: "field 0 16 (aligned_bits ?s) = 2" "field 16 16 (aligned_bits ?s) = 0xFFFD" by (simp_all only: bits)
  show ?thesis
    unfolding inflate_stored_reads_outside [OF example_reads_ok r]
    by (unfold len) (simp add: example_inflater_def out_length_def u32_def DICTIONARY_SIZE_def)
qed

end
