(* ===== verification/Inflate_File.thy ===== *)
theory Inflate_File
  imports Inflate Crc32
begin

text \<open>
  Reading an entry: \<open>Inflater::read_completely\<close> with its checks of the size and of the check sum,
  and the operations of \<open>FileDecoder\<close> that choose between an entry that is compressed and one that is
  not (\<open>is_inflater\<close>).  The jar parser that reopens a file is not modelled, the handle is valid.
\<close>

text \<open>\<open>None\<close> for a null result.  The outer \<open>None\<close>: the fuel is used up.\<close>

definition inflate_completely ::
  "inflate_env \<Rightarrow> nat \<Rightarrow> inflater \<Rightarrow> (inflate_fault + (8 word list option \<times> inflater)) option" where
  "inflate_completely e fuel s =
     (case inflate_all e fuel s of
        None \<Rightarrow> None
      | Some r \<Rightarrow> Some (jvm_check r (\<lambda>(status, s).
          if status = INFLATE_ERROR \<or> out_offset s \<noteq> file_size s then Inr (None, s)
          else if file_rest s \<noteq> None \<and> crc32_fast (take (file_size s) (out_buffer s)) \<noteq> Some (expected_crc s)
          then Inr (None, s)
          else Inr (Some (out_buffer s), s))))"

definition read_completely0 ::
  "inflate_env \<Rightarrow> nat \<Rightarrow> bool \<Rightarrow> inflater \<Rightarrow> (inflate_fault + (8 word list option \<times> inflater)) option" where
  "read_completely0 e fuel is_inflater s =
     (if is_inflater then inflate_completely e fuel s
      else Some (jvm_check (get_bytes_raw (file_size s) s) (\<lambda>(bs, s).
        Inr (if length bs = file_size s then Some bs else None, s))))"

text \<open>\<open>FileDecoder::get_bytes\<close>: the bytes, or \<open>None\<close> for a result of -1, which is subtracted from the bytes
  that remain too.\<close>

definition decoder_get_bytes ::
  "inflate_env \<Rightarrow> nat \<Rightarrow> bool \<Rightarrow> nat \<Rightarrow> inflater \<Rightarrow> (inflate_fault + (8 word list option \<times> inflater)) option" where
  "decoder_get_bytes e fuel is_inflater count s =
     (let count = min count (bytes_remain s);
          done = (\<lambda>(bs, s). (bs, s\<lparr>bytes_remain :=
            (case bs of None \<Rightarrow> bytes_remain s + 1 | Some bs \<Rightarrow> bytes_remain s - length bs)\<rparr>))
      in if is_inflater then
           map_option (\<lambda>r. jvm_check r (\<lambda>x. Inr (done x))) (get_bytes_loop e fuel count [] s)
         else Some (jvm_check (get_bytes_raw count s) (\<lambda>(bs, s). Inr (done (Some bs, s)))))"

text \<open>What is handed out is as long as the entry says and has its check sum.\<close>

lemma inflate_completely_checked:
  assumes "inflate_completely e fuel s = Some (Inr (Some bytes, s'))" "file_rest s' \<noteq> None"
    "length (out_buffer s') = file_size s'"
  shows "length bytes = file_size s'" "crc32_slow bytes = expected_crc s'"
  using assms by (auto simp: inflate_completely_def crc32_fast_result split: option.splits if_splits elim!: jvm_check_InrE)

end
