(* ===== verification/Thread_List.thy ===== *)
theory Thread_List
  imports Prelude
begin

text \<open>
  The circular lists of threads of the scheduler (\<open>add_to_list\<close>, \<open>remove_from_list\<close> and
  \<open>is_in_list\<close> of \<open>Scheduler.cpp\<close>).  The links are fields of the thread objects, so a thread is in
  one such list at a time.  A list with links in memory stands for a list of threads
  (\<open>ring\<close>): adding puts a thread at its end, removing takes it out and keeps the order.

  A thread is a number, and a null handle is \<open>None\<close>.  An access through a null handle is a fault.
\<close>

section \<open>Threads\<close>

type_synonym tid = nat

record thread =
  t_next :: "tid option"
  t_previous :: "tid option"
  next_waiting :: "tid option"
  global_next :: "tid option"
  wait_obj :: "nat option"
  wakeup_time :: int
  t_priority :: nat
  wait_stack_lock :: "nat option"

text \<open>\<open>No_end\<close> stands for a loop that does not end.\<close>

datatype sched_fault = Null_thread | No_such_queue | No_end | Null_object | Not_a_lock | Interned_string | Illegal_monitor_state

definition set_next :: "tid \<Rightarrow> tid option \<Rightarrow> (tid \<Rightarrow> thread) \<Rightarrow> tid \<Rightarrow> thread" where
  "set_next t x st = st(t := (st t)\<lparr>t_next := x\<rparr>)"

definition set_previous :: "tid \<Rightarrow> tid option \<Rightarrow> (tid \<Rightarrow> thread) \<Rightarrow> tid \<Rightarrow> thread" where
  "set_previous t x st = st(t := (st t)\<lparr>t_previous := x\<rparr>)"

definition deref :: "tid option \<Rightarrow> sched_fault + tid" where
  "deref x = (case x of None \<Rightarrow> Inl Null_thread | Some t \<Rightarrow> Inr t)"

section \<open>The operations\<close>

text \<open>The loop of \<open>is_in_list\<close> does not end when the links do not lead back to the head, and it
  fails when they lead to a null handle: \<open>None\<close>.\<close>

partial_function (option) ring_search :: "(tid \<Rightarrow> thread) \<Rightarrow> tid \<Rightarrow> tid \<Rightarrow> tid \<Rightarrow> bool option" where
  "ring_search st thread l p =
     (if p = thread then Some True
      else case t_next (st p) of
        None \<Rightarrow> None
      | Some q \<Rightarrow> if q = l then Some False else ring_search st thread l q)"

definition is_in_list :: "(tid \<Rightarrow> thread) \<Rightarrow> tid \<Rightarrow> tid option \<Rightarrow> bool option" where
  "is_in_list st thread list =
     (case list of None \<Rightarrow> Some False | Some p \<Rightarrow> ring_search st thread p p)"

definition add_to_list ::
  "tid \<Rightarrow> tid option \<Rightarrow> (tid \<Rightarrow> thread) \<Rightarrow> sched_fault + (tid option \<times> (tid \<Rightarrow> thread))" where
  "add_to_list thread list_head st =
     (case list_head of
        None \<Rightarrow> Inr (Some thread, set_previous thread (Some thread) (set_next thread (Some thread) st))
      | Some h \<Rightarrow>
          jvm_check (deref (t_previous (st h))) (\<lambda>prev.
            let st = set_previous thread (Some prev) st;
                st = set_next prev (Some thread) st;
                st = set_previous h (Some thread) st;
                st = set_next thread (Some h) st
            in Inr (list_head, st)))"

definition remove_from_list ::
  "tid \<Rightarrow> tid option \<Rightarrow> (tid \<Rightarrow> thread) \<Rightarrow> sched_fault + (tid option \<times> (tid \<Rightarrow> thread))" where
  "remove_from_list thread list st =
     (let list' = (if list = Some thread
                   then (if t_next (st thread) = list then None else t_next (st thread)) else list) in
      jvm_check (deref (t_next (st thread))) (\<lambda>next.
      jvm_check (deref (t_previous (st thread))) (\<lambda>previous.
        let st = set_previous next (Some previous) st;
            st = set_next previous (Some next) st;
            st = set_next thread None st;
            st = set_previous thread None st
        in Inr (list', st))))"

section \<open>Rings\<close>

fun linked :: "(tid \<Rightarrow> thread) \<Rightarrow> tid list \<Rightarrow> bool" where
  "linked st (a # b # xs) = (t_next (st a) = Some b \<and> t_previous (st b) = Some a \<and> linked st (b # xs))"
| "linked st xs = True"

definition ring :: "(tid \<Rightarrow> thread) \<Rightarrow> tid list \<Rightarrow> bool" where
  "ring st xs = (distinct xs \<and> (xs \<noteq> [] \<longrightarrow> linked st (xs @ [hd xs])))"

definition head_of :: "tid list \<Rightarrow> tid option" where
  "head_of xs = (if xs = [] then None else Some (hd xs))"

lemma head_of_simps [simp]: "head_of [] = None" "head_of (x # xs) = Some x" "head_of xs = None \<longleftrightarrow> xs = []"
  by (simp_all add: head_of_def)

text \<open>Two stores agree but for the links of some threads.\<close>

definition links_only :: "tid set \<Rightarrow> (tid \<Rightarrow> thread) \<Rightarrow> (tid \<Rightarrow> thread) \<Rightarrow> bool" where
  "links_only A st st' =
     (\<forall>u. (u \<notin> A \<longrightarrow> st' u = st u) \<and>
          st' u = (st u)\<lparr>t_next := t_next (st' u), t_previous := t_previous (st' u)\<rparr>)"

lemma links_only_ring: "links_only A st st' \<Longrightarrow> set xs \<inter> A = {} \<Longrightarrow> ring st' xs = ring st xs"
proof -
  assume A: "links_only A st st'"
  have "set ys \<inter> A = {} \<Longrightarrow> linked st' ys = linked st ys" for ys
    by (induction ys rule: induct_list012) (use A in \<open>auto simp: links_only_def\<close>)
  from this [of "xs @ [hd xs]"] show "set xs \<inter> A = {} \<Longrightarrow> ring st' xs = ring st xs"
    by (cases xs) (auto simp: ring_def)
qed

lemma links_only_mono: "links_only A st st' \<Longrightarrow> A \<subseteq> B \<Longrightarrow> links_only B st st'"
  by (auto simp: links_only_def)

lemma links_only_fields:
  assumes "links_only A st st'"
  shows "t_priority (st' u) = t_priority (st u)" "next_waiting (st' u) = next_waiting (st u)"
    "wait_obj (st' u) = wait_obj (st u)" "wait_stack_lock (st' u) = wait_stack_lock (st u)"
    "global_next (st' u) = global_next (st u)" "wakeup_time (st' u) = wakeup_time (st u)"
proof -
  have "st' u = (st u)\<lparr>t_next := t_next (st' u), t_previous := t_previous (st' u)\<rparr>"
    using assms by (auto simp: links_only_def)
  then show "t_priority (st' u) = t_priority (st u)" "next_waiting (st' u) = next_waiting (st u)"
    "wait_obj (st' u) = wait_obj (st u)" "wait_stack_lock (st' u) = wait_stack_lock (st u)"
    "global_next (st' u) = global_next (st u)" "wakeup_time (st' u) = wakeup_time (st u)"
    by - (metis thread.select_convs thread.surjective thread.update_convs(1,2))+
qed

lemma links_only_priority: "links_only A st st' \<Longrightarrow> t_priority (st' u) = t_priority (st u)"
  by (rule links_only_fields(1))

lemma linked_append: "linked st (xs @ a # ys) = (linked st (xs @ [a]) \<and> linked st (a # ys))"
  by (induction xs rule: induct_list012) auto

lemma linked_cong:
  "linked st xs \<Longrightarrow> (\<And>a. a \<in> set (butlast xs) \<Longrightarrow> t_next (st' a) = t_next (st a)) \<Longrightarrow>
   (\<And>a. a \<in> set (tl xs) \<Longrightarrow> t_previous (st' a) = t_previous (st a)) \<Longrightarrow> linked st' xs"
  by (induction st xs rule: linked.induct) auto

lemma linked_snoc: "xs \<noteq> [] \<Longrightarrow> linked st (xs @ [a]) \<longleftrightarrow>
    linked st xs \<and> t_next (st (last xs)) = Some a \<and> t_previous (st a) = Some (last xs)"
  by (induction xs rule: induct_list012) auto

lemma ring_ends:
  assumes "ring st xs" "xs \<noteq> []"
  shows "t_previous (st (hd xs)) = Some (last xs)" "t_next (st (last xs)) = Some (hd xs)"
  using assms by (auto simp: ring_def linked_snoc)

text \<open>The threads of a ring may be counted from any of them.\<close>

lemma ring_rotate1: "ring st (x # xs) = ring st (xs @ [x])"
proof (cases xs)
  case (Cons y ys)
  have "linked st (x # (y # ys) @ [x]) \<longleftrightarrow> linked st ((y # ys) @ [x] @ [y])"
    using linked_append [of st "y # ys" x "[y]"] by auto
  then show ?thesis by (auto simp: ring_def Cons)
qed simp

lemma ring_rotate: "ring st (xs @ ys) = ring st (ys @ xs)"
proof (induction xs arbitrary: ys)
  case (Cons x xs)
  have "ring st (x # xs @ ys) = ring st (xs @ ys @ [x])" using ring_rotate1 [of st x "xs @ ys"] by simp
  also have "\<dots> = ring st (ys @ x # xs)" using Cons.IH [of "ys @ [x]"] by simp
  finally show ?case by simp
qed simp

section \<open>The operations on rings\<close>

lemma ring_search_linked:
  "linked st (p # xs @ [l]) \<Longrightarrow> l \<notin> set xs \<Longrightarrow> ring_search st thread l p = Some (thread \<in> set (p # xs))"
proof (induction xs arbitrary: p)
  case Nil
  then show ?case by (subst ring_search.simps) auto
next
  case (Cons x xs)
  then have "x \<noteq> l" "t_next (st p) = Some x" by auto
  moreover have "ring_search st thread l x = Some (thread \<in> set (x # xs))"
    by (rule Cons.IH) (use Cons.prems in auto)
  ultimately show ?case by (subst ring_search.simps) auto
qed

lemma is_in_list_ring: "ring st xs \<Longrightarrow> is_in_list st thread (head_of xs) = Some (thread \<in> set xs)"
  by (cases xs) (auto simp: is_in_list_def ring_def ring_search_linked)

lemma add_to_list_ring:
  assumes "ring st xs" "thread \<notin> set xs"
  shows "\<exists>st'. add_to_list thread (head_of xs) st = Inr (head_of (xs @ [thread]), st') \<and>
    ring st' (xs @ [thread]) \<and> links_only (insert thread (set xs)) st st'"
proof (cases xs)
  case Nil
  then show ?thesis
    by (auto simp: add_to_list_def set_next_def set_previous_def ring_def links_only_def)
next
  case (Cons h ys)
  define l where "l = last xs"
  have l: "l \<in> set xs" "h \<in> set xs" "h = hd xs" by (auto simp: l_def Cons)
  have prev: "t_previous (st h) = Some l" using ring_ends(1) [OF assms(1)] by (simp add: l_def Cons)
  define st' where "st' = set_next thread (Some h) (set_previous h (Some thread) (set_next l (Some thread) (set_previous thread (Some l) st)))"
  have nx: "t_next (st' a) = (if a = thread then Some h else if a = l then Some thread else t_next (st a))"
    and previous: "t_previous (st' a) = (if a = h then Some thread else if a = thread then Some l else t_previous (st a))" for a
    using l assms(2) by (auto simp: st'_def set_next_def set_previous_def)
  have d: "distinct xs" and "linked st (xs @ [hd xs])" using assms(1) by (auto simp: ring_def Cons)
  then have old: "linked st xs" using linked_snoc [of xs st "hd xs"] Cons by simp
  have "linked st' xs"
  proof (rule linked_cong [OF old])
    fix a
    assume "a \<in> set (butlast xs)"
    moreover have "l \<notin> set (butlast xs)"
      using d Cons append_butlast_last_id [of xs] distinct_append [of "butlast xs" "[l]"] by (simp add: l_def)
    ultimately show "t_next (st' a) = t_next (st a)" using assms(2) by (auto simp: nx dest: in_set_butlastD)
  next
    fix a
    assume "a \<in> set (tl xs)"
    then show "t_previous (st' a) = t_previous (st a)" using d assms(2) by (auto simp: previous Cons)
  qed
  moreover have "t_next (st' l) = Some thread" "t_previous (st' thread) = Some l" "t_next (st' thread) = Some h"
    "t_previous (st' h) = Some thread"
    using l assms(2) by (auto simp: nx previous)
  ultimately have "linked st' ((xs @ [thread]) @ [h])"
    using linked_snoc [of xs st' thread] linked_snoc [of "xs @ [thread]" st' h] Cons by (simp add: l_def)
  then have "ring st' (xs @ [thread])" using d assms(2) by (simp add: ring_def Cons)
  moreover have "links_only (insert thread (set xs)) st st'"
    using l by (auto simp: st'_def links_only_def set_next_def set_previous_def)
  ultimately show ?thesis
    by (auto simp: add_to_list_def deref_def prev Let_def Cons st'_def)
qed

lemma remove_first_ring:
  assumes "ring st (thread # ys)"
  shows "\<exists>st'. remove_from_list thread list st =
      Inr (if list = Some thread then head_of ys else list, st') \<and> ring st' ys \<and>
      links_only (insert thread (set ys)) st st' \<and> t_next (st' thread) = None \<and> t_previous (st' thread) = None"
proof -
  have d: "thread \<notin> set ys" "distinct ys" using assms by (auto simp: ring_def)
  have link: "linked st (thread # ys @ [thread])" using assms by (simp add: ring_def)
  define l where "l = last (thread # ys)"
  define n where "n = hd (ys @ [thread])"
  have nx: "t_next (st thread) = Some n" using link by (cases ys) (auto simp: n_def)
  have prev: "t_previous (st thread) = Some l" using ring_ends(1) [OF assms] by (simp add: l_def)
  define st' where "st' = set_previous thread None (set_next thread None (set_next l (Some n) (set_previous n (Some l) st)))"
  have n: "t_next (st' a) = (if a = thread then None else if a = l then Some n else t_next (st a))"
    and p: "t_previous (st' a) = (if a = thread then None else if a = n then Some l else t_previous (st a))" for a
    by (auto simp: st'_def set_next_def set_previous_def)
  have "ring st' ys"
  proof (cases ys)
    case (Cons y zs)
    then have ln: "l = last ys" "n = hd ys" "l \<in> set ys" "n \<in> set ys" by (auto simp: l_def n_def)
    have old: "linked st ys" using link linked_snoc [of ys st thread] Cons by simp
    have "linked st' ys"
    proof (rule linked_cong [OF old])
      fix a
      assume "a \<in> set (butlast ys)"
      moreover have "l \<notin> set (butlast ys)"
        using d(2) Cons append_butlast_last_id [of ys] distinct_append [of "butlast ys" "[l]"] by (simp add: ln(1))
      ultimately show "t_next (st' a) = t_next (st a)" using d(1) by (auto simp: n dest: in_set_butlastD)
    next
      fix a
      assume "a \<in> set (tl ys)"
      then show "t_previous (st' a) = t_previous (st a)" using d Cons ln by (auto simp: p)
    qed
    moreover have "l \<noteq> thread" "n \<noteq> thread" using ln d(1) by auto
    then have "t_next (st' (last ys)) = Some (hd ys)" "t_previous (st' (hd ys)) = Some (last ys)"
      by (simp_all add: n p ln(1,2) [symmetric])
    ultimately show ?thesis using d(2) Cons linked_snoc [of ys st' "hd ys"] by (simp add: ring_def)
  qed (simp add: ring_def)
  moreover have "(if Some n = Some thread then None else Some n) = head_of ys"
    using d(1) by (cases ys) (auto simp: n_def)
  moreover have "links_only (insert thread (set ys)) st st'"
  proof -
    have "l \<in> insert thread (set ys)" "n \<in> insert thread (set ys)" by (cases ys; auto simp: l_def n_def)+
    then show ?thesis by (auto simp: st'_def links_only_def set_next_def set_previous_def)
  qed
  ultimately show ?thesis
    using n [of thread] p [of thread] by (auto simp: remove_from_list_def deref_def nx prev Let_def st'_def)
qed

lemma remove_from_list_ring:
  assumes "ring st xs" "thread \<in> set xs"
  shows "\<exists>st'. remove_from_list thread (head_of xs) st = Inr (head_of (remove1 thread xs), st') \<and>
    ring st' (remove1 thread xs) \<and> links_only (set xs) st st' \<and> t_next (st' thread) = None \<and> t_previous (st' thread) = None"
proof -
  obtain as bs where xs: "xs = as @ thread # bs" "thread \<notin> set as" using split_list_first [OF assms(2)] by blast
  have rest: "remove1 thread xs = as @ bs" using xs by (simp add: remove1_append)
  have "ring st (thread # bs @ as)" using assms(1) ring_rotate [of st as "thread # bs"] xs(1) by simp
  from remove_first_ring [OF this, of "head_of xs"] obtain st' where st':
    "remove_from_list thread (head_of xs) st = Inr (if head_of xs = Some thread then head_of (bs @ as) else head_of xs, st')"
    "ring st' (bs @ as)" "links_only (insert thread (set (bs @ as))) st st'" "t_next (st' thread) = None" "t_previous (st' thread) = None"
    by blast
  moreover have "(if head_of xs = Some thread then head_of (bs @ as) else head_of xs) = head_of (as @ bs)"
    using xs by (cases as) auto
  moreover have "insert thread (set (bs @ as)) = set xs" using xs(1) by auto
  ultimately show ?thesis using ring_rotate [of st' bs as] by (simp add: rest)
qed

end
