(* ===== verification/Scheduler.thy ===== *)
theory Scheduler
  imports Thread_List
begin

unbundle bit_operations_syntax

text \<open>
  The ready threads of the scheduler (\<open>Scheduler.cpp\<close>, the product build without isolates and
  without the Java debugger): a circular list for each of ten priorities, a word with a bit for
  each list that has threads, and the count of the turns of each priority.

  \<open>priority_queues\<close> is the object array of the heads of the lists; its place 0 is not used.
  \<open>next_runnable\<close> is the cache \<open>_next_runnable_thread\<close>.
\<close>

definition NUM_PRIORITY_SLOTS :: nat where "NUM_PRIORITY_SLOTS = 10"

record scheduler =
  threads :: "tid \<Rightarrow> thread"
  priority_queues :: "tid option list"
  priority_queue_valid :: "16 word"
  last_priority_queue :: nat
  next_runnable :: "tid option"
  thread_execute_counts :: "8 word list"

section \<open>The bits of the lists\<close>

definition set_priority_valid :: "nat \<Rightarrow> scheduler \<Rightarrow> scheduler" where
  "set_priority_valid priority s =
     s\<lparr>priority_queue_valid := priority_queue_valid s OR push_bit priority 1\<rparr>"

definition clear_priority_valid :: "nat \<Rightarrow> scheduler \<Rightarrow> scheduler" where
  "clear_priority_valid priority s =
     s\<lparr>priority_queue_valid := priority_queue_valid s AND NOT (push_bit priority 1)\<rparr>"

definition no_higher_priority_threads :: "16 word \<Rightarrow> nat \<Rightarrow> bool" where
  "no_higher_priority_threads valid last_priority =
     (valid \<noteq> 0 \<and> valid AND NOT (push_bit (last_priority + 1) 1 - 1) = 0)"

section \<open>Joining and leaving the ready threads\<close>

definition queue_at :: "nat \<Rightarrow> scheduler \<Rightarrow> sched_fault + tid option" where
  "queue_at priority s =
     (if priority < length (priority_queues s) then Inr (priority_queues s ! priority) else Inl No_such_queue)"

definition put_queue :: "nat \<Rightarrow> tid option \<Rightarrow> scheduler \<Rightarrow> scheduler" where
  "put_queue priority x s = s\<lparr>priority_queues := (priority_queues s)[priority := x]\<rparr>"

definition adjust_priority_list :: "tid \<Rightarrow> bool \<Rightarrow> scheduler \<Rightarrow> sched_fault + scheduler" where
  "adjust_priority_list thread is_add s =
     (let priority = t_priority (threads s thread) in
      jvm_check (queue_at priority s) (\<lambda>thread_list.
      if is_add then
        jvm_check (add_to_list thread thread_list (threads s)) (\<lambda>(thread_list, st).
        let s = set_priority_valid priority (s\<lparr>threads := st\<rparr>) in
        jvm_check (queue_at priority s) (\<lambda>head.
          Inr (if head = None then put_queue priority (Some thread) s else s)))
      else
        jvm_check (remove_from_list thread thread_list (threads s)) (\<lambda>(thread_list, st).
        let s = s\<lparr>threads := st\<rparr>;
            s = (if thread_list = None then clear_priority_valid priority s else s);
            s = put_queue priority thread_list s
        in Inr (if next_runnable s = Some thread then s\<lparr>next_runnable := thread_list\<rparr> else s))))"

definition add_to_active :: "tid \<Rightarrow> scheduler \<Rightarrow> sched_fault + scheduler" where
  "add_to_active thread s = adjust_priority_list thread True s"

definition remove_from_active :: "tid \<Rightarrow> scheduler \<Rightarrow> sched_fault + scheduler" where
  "remove_from_active thread s = adjust_priority_list thread False s"

text \<open>\<open>set_priority\<close>: the priority of the thread object is the new one already.  \<open>None\<close>: the search
  in the list does not end.\<close>

definition set_priority :: "tid \<Rightarrow> nat \<Rightarrow> scheduler \<Rightarrow> (sched_fault + scheduler) option" where
  "set_priority thread old_priority s =
     (let new_priority = t_priority (threads s thread) in
      case queue_at old_priority s of
        Inl e \<Rightarrow> Some (Inl e)
      | Inr thread_list \<Rightarrow>
          (case is_in_list (threads s) thread thread_list of
             None \<Rightarrow> None
           | Some False \<Rightarrow> Some (Inr s)
           | Some True \<Rightarrow> Some (
               jvm_check (remove_from_list thread thread_list (threads s)) (\<lambda>(thread_list, st).
               let s = put_queue old_priority thread_list (s\<lparr>threads := st\<rparr>);
                   s = (if thread_list = None then clear_priority_valid old_priority s else s) in
               jvm_check (queue_at new_priority s) (\<lambda>thread_list.
               jvm_check (add_to_list thread thread_list (threads s)) (\<lambda>(_, st).
               let s = s\<lparr>threads := st\<rparr> in
               jvm_check (queue_at new_priority s) (\<lambda>head.
               let s = (if head = None then put_queue new_priority (Some thread) s else s)
               in Inr (set_priority_valid new_priority s))))))))"

section \<open>The choice of the next thread\<close>

definition count_at :: "nat \<Rightarrow> scheduler \<Rightarrow> sched_fault + nat" where
  "count_at priority s =
     (if priority < length (thread_execute_counts s) then Inr (unat (thread_execute_counts s ! priority))
      else Inl No_such_queue)"

definition reset_thread_counts :: "scheduler \<Rightarrow> scheduler" where
  "reset_thread_counts s =
     s\<lparr>thread_execute_counts := replicate (NUM_PRIORITY_SLOTS + 1) 0 @ drop (NUM_PRIORITY_SLOTS + 1) (thread_execute_counts s)\<rparr>"

definition choose_thread :: "nat \<Rightarrow> tid \<Rightarrow> scheduler \<Rightarrow> scheduler" where
  "choose_thread priority thread s =
     (let s = put_queue priority (Some thread) (s\<lparr>last_priority_queue := priority\<rparr>)
      in s\<lparr>next_runnable := Some thread,
           thread_execute_counts := (thread_execute_counts s)[priority := thread_execute_counts s ! priority + 1]\<rparr>)"

text \<open>The loop over the priorities, from the highest: the thread that is found, and whether a
  priority has had its share of turns.\<close>

fun scan_priorities ::
  "tid option option \<Rightarrow> nat \<Rightarrow> bool \<Rightarrow> scheduler \<Rightarrow> sched_fault + (bool \<times> (tid \<times> scheduler) option)" where
  "scan_priorities starting_thread 0 quota_exceeded s = Inr (quota_exceeded, None)"
| "scan_priorities starting_thread (Suc p) quota_exceeded s =
     (let priority = Suc p in
      jvm_check (queue_at priority s) (\<lambda>thread_list.
      case thread_list of
        None \<Rightarrow> scan_priorities starting_thread p quota_exceeded s
      | Some h \<Rightarrow>
          jvm_check (if starting_thread = Some (Some h) then deref (t_next (threads s h)) else Inr h) (\<lambda>thread.
          jvm_check (count_at priority s) (\<lambda>count.
          if count > priority * 2 then scan_priorities starting_thread p True s
          else Inr (quota_exceeded, Some (thread, choose_thread priority thread s))))))"

text \<open>\<open>starting_thread\<close> is \<open>None\<close> when there is no argument, and \<open>Some None\<close> for a null handle.\<close>

definition get_next_runnable_thread ::
  "tid option option \<Rightarrow> scheduler \<Rightarrow> sched_fault + (tid option \<times> scheduler)" where
  "get_next_runnable_thread starting_thread s =
     (if starting_thread = None \<and> next_runnable s \<noteq> None then Inr (next_runnable s, s)
      else
        let start = (if no_higher_priority_threads (priority_queue_valid s) (last_priority_queue s)
                     then last_priority_queue s else NUM_PRIORITY_SLOTS);
            none = (\<lambda>s. (None, s\<lparr>next_runnable := None\<rparr>)) in
        if priority_queue_valid s = 0 then Inr (none s)
        else jvm_check (scan_priorities starting_thread start False s) (\<lambda>(quota_exceeded, x).
          case x of Some (t, s) \<Rightarrow> Inr (Some t, s)
          | None \<Rightarrow>
              if \<not> quota_exceeded then Inr (none s)
              else
                let s = reset_thread_counts s in
                jvm_check (scan_priorities starting_thread start False s) (\<lambda>(quota_exceeded, x).
                  case x of Some (t, s) \<Rightarrow> Inr (Some t, s)
                  | None \<Rightarrow> Inr (none (if quota_exceeded then reset_thread_counts s else s)))))"


section \<open>The queues that a scheduler stands for\<close>

definition ready_queues :: "scheduler \<Rightarrow> (nat \<Rightarrow> tid list) \<Rightarrow> bool" where
  "ready_queues s qs =
     (length (priority_queues s) = NUM_PRIORITY_SLOTS + 1 \<and>
      (\<forall>p. 1 \<le> p \<and> p \<le> NUM_PRIORITY_SLOTS \<longrightarrow>
         priority_queues s ! p = head_of (qs p) \<and> ring (threads s) (qs p)) \<and>
      (\<forall>p. p = 0 \<or> NUM_PRIORITY_SLOTS < p \<longrightarrow> qs p = []) \<and>
      (\<forall>p q. p \<noteq> q \<longrightarrow> set (qs p) \<inter> set (qs q) = {}) \<and>
      (\<forall>p. bit (priority_queue_valid s) p \<longleftrightarrow> qs p \<noteq> []))"

text \<open>Each thread is in the queue of its priority.\<close>

definition queues_sorted :: "scheduler \<Rightarrow> (nat \<Rightarrow> tid list) \<Rightarrow> bool" where
  "queues_sorted s qs = (\<forall>p. \<forall>t \<in> set (qs p). t_priority (threads s t) = p)"

definition valid_priority :: "nat \<Rightarrow> bool" where
  "valid_priority p = (1 \<le> p \<and> p \<le> NUM_PRIORITY_SLOTS)"

lemma ready_queuesD:
  assumes "ready_queues s qs" "valid_priority p"
  shows "queue_at p s = Inr (head_of (qs p))" "ring (threads s) (qs p)" "p < length (priority_queues s)"
    "priority_queues s ! p = head_of (qs p)"
  using assms by (auto simp: ready_queues_def valid_priority_def queue_at_def)

lemma bit_32: "bit (32 :: 16 word) p \<longleftrightarrow> p = 5"
proof -
  have "(32 :: 16 word) = push_bit 5 1" by simp
  then show ?thesis by (simp only: bit_push_bit_iff bit_1_iff) auto
qed

lemma ready_queues_valid: "ready_queues s qs \<Longrightarrow> t \<in> set (qs p) \<Longrightarrow> valid_priority p"
  unfolding ready_queues_def valid_priority_def
  by (metis empty_iff list.set(1) not_less not_one_le_zero One_nat_def less_one linorder_not_le)

lemma ready_queues_disjoint: "ready_queues s qs \<Longrightarrow> p \<noteq> r \<Longrightarrow> set (qs p) \<inter> set (qs r) = {}"
  by (simp add: ready_queues_def)

lemma ready_queues_removed:
  assumes "ready_queues s qs" "t \<in> set (qs p)"
  shows "t \<notin> set ((qs(p := remove1 t (qs p))) r)"
proof (cases "r = p")
  case True
  then show ?thesis using ready_queuesD(2) [OF assms(1) ready_queues_valid [OF assms]] by (simp add: ring_def set_remove1_eq)
next
  case False
  then show ?thesis using ready_queues_disjoint [OF assms(1), of p r] assms(2) by auto
qed

lemma bit_set_valid: "bit (x OR push_bit p 1 :: 16 word) k \<longleftrightarrow> bit x k \<or> k = p \<and> p < 16"
  by (auto simp: bit_simps)

lemma bit_clear_valid: "bit (x AND NOT (push_bit p 1) :: 16 word) k \<longleftrightarrow> bit x k \<and> k \<noteq> p"
  by (auto simp: bit_simps dest: bit_imp_le_length)

lemmas valid_bits = bit_set_valid bit_clear_valid bit_set_valid [simplified] bit_clear_valid [simplified]

text \<open>Another queue at one priority.\<close>

lemma ready_queues_update:
  assumes "ready_queues s qs" "valid_priority p" "links_only A (threads s) (threads s')" "A \<subseteq> set (qs p) \<union> set q"
    "ring (threads s') q" "\<And>r. r \<noteq> p \<Longrightarrow> set q \<inter> set (qs r) = {}"
    "priority_queues s' = (priority_queues s)[p := head_of q]"
    "\<And>k. bit (priority_queue_valid s') k \<longleftrightarrow> (if k = p then q \<noteq> [] else bit (priority_queue_valid s) k)"
  shows "ready_queues s' (qs(p := q))"
proof -
  have "ring (threads s') (qs r) = ring (threads s) (qs r)" if "r \<noteq> p" for r
  proof (rule links_only_ring [OF assms(3)])
    have "set (qs r) \<inter> set (qs p) = {}" using assms(1) that by (auto simp: ready_queues_def)
    then show "set (qs r) \<inter> A = {}" using assms(4,6) that by blast
  qed
  then show ?thesis
    using assms(1,2,5-8) by (auto simp: ready_queues_def valid_priority_def)
qed

lemma add_to_active_queues:
  assumes "ready_queues s qs" "\<And>p. thread \<notin> set (qs p)" "valid_priority (t_priority (threads s thread))"
  shows "\<exists>s'. add_to_active thread s = Inr s' \<and>
    ready_queues s' (qs(t_priority (threads s thread) := qs (t_priority (threads s thread)) @ [thread])) \<and>
    (\<forall>u. t_priority (threads s' u) = t_priority (threads s u)) \<and>
    next_runnable s' = next_runnable s \<and> thread_execute_counts s' = thread_execute_counts s \<and>
    links_only (insert thread (set (qs (t_priority (threads s thread))))) (threads s) (threads s')"
proof -
  let ?p = "t_priority (threads s thread)"
  note R = ready_queuesD [OF assms(1,3)]
  from add_to_list_ring [OF R(2) assms(2)] obtain st' where st':
    "add_to_list thread (head_of (qs ?p)) (threads s) = Inr (head_of (qs ?p @ [thread]), st')"
    "ring st' (qs ?p @ [thread])" "links_only (insert thread (set (qs ?p))) (threads s) st'" by blast
  define s1 where "s1 = set_priority_valid ?p (s\<lparr>threads := st'\<rparr>)"
  define s' where "s' = (if head_of (qs ?p) = None then put_queue ?p (Some thread) s1 else s1)"
  have "queue_at ?p s1 = Inr (head_of (qs ?p))" using R by (simp add: s1_def queue_at_def set_priority_valid_def)
  then have run: "add_to_active thread s = Inr s'"
    by (simp add: add_to_active_def adjust_priority_list_def R(1) st'(1) s'_def s1_def Let_def)
  have th: "threads s' = st'" by (simp add: s'_def s1_def set_priority_valid_def put_queue_def)
  have small: "?p < 16" using assms(3) by (simp add: valid_priority_def NUM_PRIORITY_SLOTS_def)
  have "ready_queues s' (qs(?p := qs ?p @ [thread]))"
  proof (rule ready_queues_update [OF assms(1,3)])
    show "links_only (insert thread (set (qs ?p))) (threads s) (threads s')"
      using st'(3) by (simp only: th)
    show "ring (threads s') (qs ?p @ [thread])" using st'(2) by (simp only: th)
    show "set (qs ?p @ [thread]) \<inter> set (qs r) = {}" if "r \<noteq> ?p" for r
      using assms(1,2) that by (auto simp: ready_queues_def)
    show "priority_queues s' = (priority_queues s)[?p := head_of (qs ?p @ [thread])]"
      using R(3,4) list_update_id [of "priority_queues s" ?p]
      by (cases "qs ?p") (simp_all add: s'_def s1_def set_priority_valid_def put_queue_def)
    show "bit (priority_queue_valid s') k \<longleftrightarrow> (if k = ?p then qs ?p @ [thread] \<noteq> [] else bit (priority_queue_valid s) k)" for k
      using small by (auto simp: s'_def s1_def set_priority_valid_def put_queue_def valid_bits)
  qed auto
  moreover have "t_priority (threads s' u) = t_priority (threads s u)" for u
    using links_only_priority [OF st'(3), of u] by (simp only: th)
  moreover have "next_runnable s' = next_runnable s" "thread_execute_counts s' = thread_execute_counts s"
    by (simp_all add: s'_def s1_def set_priority_valid_def put_queue_def)
  moreover have "links_only (insert thread (set (qs ?p))) (threads s) (threads s')" using st'(3) by (simp only: th)
  ultimately show ?thesis using run by blast
qed

lemma remove_from_active_queues:
  assumes "ready_queues s qs" "thread \<in> set (qs (t_priority (threads s thread)))"
  shows "\<exists>s'. remove_from_active thread s = Inr s' \<and>
    ready_queues s' (qs(t_priority (threads s thread) := remove1 thread (qs (t_priority (threads s thread))))) \<and>
    (\<forall>u. t_priority (threads s' u) = t_priority (threads s u)) \<and> thread_execute_counts s' = thread_execute_counts s \<and>
    next_runnable s' \<noteq> Some thread \<and> t_next (threads s' thread) = None \<and> t_previous (threads s' thread) = None \<and>
    links_only (set (qs (t_priority (threads s thread)))) (threads s) (threads s')"
proof -
  let ?p = "t_priority (threads s thread)"
  let ?q = "remove1 thread (qs ?p)"
  have p: "valid_priority ?p" by (rule ready_queues_valid [OF assms])
  note R = ready_queuesD [OF assms(1) p]
  from remove_from_list_ring [OF R(2) assms(2)] obtain st' where st':
    "remove_from_list thread (head_of (qs ?p)) (threads s) = Inr (head_of ?q, st')"
    "ring st' ?q" "links_only (set (qs ?p)) (threads s) st'" "t_next (st' thread) = None" "t_previous (st' thread) = None" by blast
  define s1 where "s1 = s\<lparr>threads := st'\<rparr>"
  define s2 where "s2 = (if head_of ?q = None then clear_priority_valid ?p s1 else s1)"
  define s3 where "s3 = put_queue ?p (head_of ?q) s2"
  define s' where "s' = (if next_runnable s3 = Some thread then s3\<lparr>next_runnable := head_of ?q\<rparr> else s3)"
  have run: "remove_from_active thread s = Inr s'"
    by (simp add: remove_from_active_def adjust_priority_list_def R(1) st'(1) s'_def s1_def s2_def s3_def Let_def)
  have th: "threads s' = st'" and nr: "thread_execute_counts s' = thread_execute_counts s"
    by (simp_all add: s'_def s1_def s2_def s3_def put_queue_def clear_priority_valid_def)
  have d: "distinct (qs ?p)" using R(2) by (simp add: ring_def)
  have "ready_queues s' (qs(?p := ?q))"
  proof (rule ready_queues_update [OF assms(1) p])
    show "links_only (set (qs ?p)) (threads s) (threads s')" using st'(3) by (simp add: th)
    show "ring (threads s') ?q" using st'(2) by (simp add: th)
    show "set ?q \<inter> set (qs r) = {}" if "r \<noteq> ?p" for r
    proof -
      have "set (qs ?p) \<inter> set (qs r) = {}" using assms(1) that by (auto simp: ready_queues_def)
      then show ?thesis using set_remove1_subset [of thread "qs ?p"] by blast
    qed
    show "priority_queues s' = (priority_queues s)[?p := head_of ?q]"
      by (simp add: s'_def s1_def s2_def s3_def put_queue_def clear_priority_valid_def)
    show "bit (priority_queue_valid s') k \<longleftrightarrow> (if k = ?p then ?q \<noteq> [] else bit (priority_queue_valid s) k)" for k
      using assms(1,2) by (auto simp: s'_def s1_def s2_def s3_def put_queue_def clear_priority_valid_def valid_bits ready_queues_def)
  qed auto
  moreover have "t_priority (threads s' u) = t_priority (threads s u)" for u
    using links_only_priority [OF st'(3), of u] by (simp add: th)
  moreover have "next_runnable s' \<noteq> Some thread"
  proof -
    have "thread \<notin> set ?q" using d by (simp add: set_remove1_eq)
    then have "head_of ?q \<noteq> Some thread" by (cases ?q) auto
    then show ?thesis by (simp add: s'_def)
  qed
  moreover have "links_only (set (qs ?p)) (threads s) (threads s')" using st'(3) by (simp only: th)
  ultimately show ?thesis using run nr st'(4,5) by (simp add: th)
qed

text \<open>A thread with a new priority moves from its queue to the end of the new one.\<close>

lemma set_priority_queues:
  assumes "ready_queues s qs" "valid_priority old" "valid_priority (t_priority (threads s thread))"
    "thread \<in> set (qs old)"
  shows "\<exists>s'. set_priority thread old s = Some (Inr s') \<and>
    (let qs' = qs(old := remove1 thread (qs old)); new = t_priority (threads s thread) in
       ready_queues s' (qs'(new := qs' new @ [thread]))) \<and>
    (\<forall>u. t_priority (threads s' u) = t_priority (threads s u)) \<and>
    thread_execute_counts s' = thread_execute_counts s \<and> last_priority_queue s' = last_priority_queue s"
proof -
  let ?q = "remove1 thread (qs old)"
  define new where "new = t_priority (threads s thread)"
  note R = ready_queuesD [OF assms(1,2)]
  from remove_from_list_ring [OF R(2) assms(4)] obtain st' where st':
    "remove_from_list thread (head_of (qs old)) (threads s) = Inr (head_of ?q, st')"
    "ring st' ?q" "links_only (set (qs old)) (threads s) st'" by blast
  define s1 where "s1 = put_queue old (head_of ?q) (s\<lparr>threads := st'\<rparr>)"
  define s2 where "s2 = (if head_of ?q = None then clear_priority_valid old s1 else s1)"
  define qs2 where "qs2 = qs(old := ?q)"
  have th2: "threads s2 = st'" by (simp add: s2_def s1_def put_queue_def clear_priority_valid_def)
  have others: "set ?q \<inter> set (qs r) = {}" if "r \<noteq> old" for r
  proof -
    have "set (qs old) \<inter> set (qs r) = {}" using assms(1) that by (auto simp: ready_queues_def)
    then show ?thesis using set_remove1_subset [of thread "qs old"] by blast
  qed
  have ready2: "ready_queues s2 qs2"
    unfolding qs2_def
  proof (rule ready_queues_update [OF assms(1,2)])
    show "links_only (set (qs old)) (threads s) (threads s2)" using st'(3) by (simp only: th2)
    show "ring (threads s2) ?q" using st'(2) by (simp only: th2)
    show "priority_queues s2 = (priority_queues s)[old := head_of ?q]"
      by (simp add: s2_def s1_def put_queue_def clear_priority_valid_def)
    show "bit (priority_queue_valid s2) k \<longleftrightarrow> (if k = old then ?q \<noteq> [] else bit (priority_queue_valid s) k)" for k
      using assms(1,4) by (auto simp: s2_def s1_def put_queue_def clear_priority_valid_def valid_bits ready_queues_def)
  qed (use others in auto)
  have same: "t_priority (threads s2 u) = t_priority (threads s u)" for u
    using links_only_priority [OF st'(3), of u] by (simp only: th2)
  have out: "thread \<notin> set (qs2 r)" for r
    unfolding qs2_def by (rule ready_queues_removed [OF assms(1,4)])
  have new: "valid_priority (t_priority (threads s2 thread))" using assms(3) by (simp add: same)
  from add_to_active_queues [OF ready2 out new] obtain s' where s':
    "add_to_active thread s2 = Inr s'" "ready_queues s' (qs2(new := qs2 new @ [thread]))"
    "\<And>u. t_priority (threads s' u) = t_priority (threads s2 u)" "thread_execute_counts s' = thread_execute_counts s2"
    by (auto simp: same new_def)
  note Q = ready_queuesD [OF ready2 new]
  have pn: "t_priority (threads s2 thread) = new" by (simp add: same new_def)
  from add_to_list_ring [OF Q(2) out] obtain st3 where st3:
    "add_to_list thread (head_of (qs2 new)) st' = Inr (head_of (qs2 new @ [thread]), st3)"
    unfolding pn unfolding th2 by blast
  define s4 where "s4 = s2\<lparr>threads := st3\<rparr>"
  have "queue_at new s2 = Inr (head_of (qs2 new))" using Q(1) by (simp only: same new_def)
  then have at: "queue_at new s2 = Inr (head_of (qs2 new))" "queue_at new s4 = Inr (head_of (qs2 new))"
    "queue_at new (set_priority_valid new s4) = Inr (head_of (qs2 new))"
    by (simp_all add: s4_def queue_at_def set_priority_valid_def split: if_splits)
  define s5 where "s5 = set_priority_valid new (if head_of (qs2 new) = None then put_queue new (Some thread) s4 else s4)"
  have "s' = (if head_of (qs2 new) = None then put_queue new (Some thread) (set_priority_valid new s4) else set_priority_valid new s4)"
    using s'(1) at st3 by (simp add: add_to_active_def adjust_priority_list_def Let_def pn [unfolded th2] th2 s4_def
      split: if_splits)
  then have eq: "s5 = s'" by (simp add: s5_def put_queue_def set_priority_valid_def)
  have run: "set_priority thread old s = Some (Inr s')"
  proof (cases "?q = []")
    case True
    then have fold: "clear_priority_valid old (put_queue old None (s\<lparr>threads := st'\<rparr>)) = s2"
      by (simp add: s2_def s1_def)
    show ?thesis
      using is_in_list_ring [OF R(2), of thread] assms(4) at st3 True
      by (simp add: set_priority_def R(1) st'(1) new_def [symmetric] Let_def fold th2 s4_def s5_def eq [symmetric])
  next
    case False
    then have fold: "put_queue old (head_of ?q) (s\<lparr>threads := st'\<rparr>) = s2"
      by (simp add: s2_def s1_def)
    show ?thesis
      using is_in_list_ring [OF R(2), of thread] assms(4) at st3 False
      by (simp add: set_priority_def R(1) st'(1) new_def [symmetric] Let_def fold th2 s4_def s5_def eq [symmetric])
  qed
  have "last_priority_queue s' = last_priority_queue s" "thread_execute_counts s2 = thread_execute_counts s"
    by (simp_all add: eq [symmetric] s5_def s4_def s2_def s1_def put_queue_def set_priority_valid_def clear_priority_valid_def)
  then show ?thesis
    using run s'(2-4) same by (simp add: Let_def qs2_def new_def)
qed

lemma set_priority_waiting:
  assumes "ready_queues s qs" "valid_priority old" "thread \<notin> set (qs old)"
  shows "set_priority thread old s = Some (Inr s)"
  using ready_queuesD [OF assms(1,2)] assms(3) by (simp add: set_priority_def is_in_list_ring Let_def)

end
