(* ===== verification/Scheduler_Choice.thy ===== *)
theory Scheduler_Choice
  imports Scheduler
begin

unbundle bit_operations_syntax

text \<open>
  What \<open>get_next_runnable_thread\<close> chooses, as a function of the queues that the scheduler stands
  for (\<open>next_spec\<close>), and what it makes of a sequence of turns: with unchanged ready
  threads each of them has its turn (\<open>eventually_rotates\<close>, \<open>eventually_chosen\<close>).
\<close>

section \<open>The choice on the queues\<close>

text \<open>The highest priority with a ready thread that has turns left: a priority has \<open>2 * p + 1\<close> turns
  before the counts start again.\<close>

definition top_queue :: "(nat \<Rightarrow> tid list) \<Rightarrow> (nat \<Rightarrow> nat) \<Rightarrow> nat \<Rightarrow> nat option" where
  "top_queue qs c n = find (\<lambda>p. qs p \<noteq> [] \<and> c p \<le> 2 * p) (rev [1..<Suc n])"

definition turn_counts :: "(nat \<Rightarrow> tid list) \<Rightarrow> (nat \<Rightarrow> nat) \<Rightarrow> nat \<Rightarrow> nat" where
  "turn_counts qs c = (if top_queue qs c NUM_PRIORITY_SLOTS = None then (\<lambda>_. 0) else c)"

definition turn_queue :: "tid \<Rightarrow> tid list \<Rightarrow> tid list" where
  "turn_queue cur q = (if q \<noteq> [] \<and> hd q = cur then rotate1 q else q)"

type_synonym turn = "tid \<times> (nat \<Rightarrow> tid list) \<times> (nat \<Rightarrow> nat)"

fun next_spec :: "turn \<Rightarrow> turn" where
  "next_spec (cur, qs, c) =
     (case top_queue qs (turn_counts qs c) NUM_PRIORITY_SLOTS of
        None \<Rightarrow> (cur, qs, c)
      | Some p \<Rightarrow>
          let q = turn_queue cur (qs p) in
          (hd q, qs(p := q), (turn_counts qs c)(p := turn_counts qs c p + 1)))"

lemma top_queue_0 [simp]: "top_queue qs c 0 = None"
  by (simp add: top_queue_def)

lemma top_queue_Suc: "top_queue qs c (Suc n) =
    (if qs (Suc n) \<noteq> [] \<and> c (Suc n) \<le> 2 * Suc n then Some (Suc n) else top_queue qs c n)"
  by (simp add: top_queue_def)

lemma top_queue_None: "top_queue qs c n = None \<longleftrightarrow> (\<forall>p. 1 \<le> p \<and> p \<le> n \<and> qs p \<noteq> [] \<longrightarrow> 2 * p < c p)"
  by (induction n) (auto simp: top_queue_Suc le_Suc_eq not_le)

lemma top_queue_Some: "top_queue qs c n = Some p \<longleftrightarrow>
    1 \<le> p \<and> p \<le> n \<and> qs p \<noteq> [] \<and> c p \<le> 2 * p \<and> (\<forall>r. p < r \<and> r \<le> n \<and> qs r \<noteq> [] \<longrightarrow> 2 * r < c r)"
proof (induction n)
  case (Suc n)
  show ?case
  proof (cases "qs (Suc n) \<noteq> [] \<and> c (Suc n) \<le> 2 * Suc n")
    case True
    then show ?thesis by (auto simp: top_queue_Suc le_Suc_eq dest: spec [of _ "Suc n"])
  next
    case False
    then show ?thesis using Suc.IH by (auto simp: top_queue_Suc le_Suc_eq not_le)
  qed
qed simp

lemma top_queue_empty: "(\<And>r. n < r \<Longrightarrow> r \<le> m \<Longrightarrow> qs r = []) \<Longrightarrow> n \<le> m \<Longrightarrow> top_queue qs c m = top_queue qs c n"
  by (induction m) (auto simp: top_queue_Suc le_Suc_eq)

lemma turn_queue_simps [simp]:
  "turn_queue cur q = [] \<longleftrightarrow> q = []" "set (turn_queue cur q) = set q" "length (turn_queue cur q) = length q"
  by (simp_all add: turn_queue_def)

section \<open>The scan of the code\<close>

text \<open>The counts of the code.\<close>

definition turns_taken :: "scheduler \<Rightarrow> (nat \<Rightarrow> nat) \<Rightarrow> bool" where
  "turns_taken s c =
     (length (thread_execute_counts s) = NUM_PRIORITY_SLOTS + 1 \<and>
      (\<forall>p. valid_priority p \<longrightarrow> unat (thread_execute_counts s ! p) = c p \<and> c p \<le> 2 * p + 1))"

lemma turns_takenD:
  assumes "turns_taken s c" "valid_priority p"
  shows "count_at p s = Inr (c p)" "p < length (thread_execute_counts s)" "unat (thread_execute_counts s ! p) = c p"
  using assms by (auto simp: turns_taken_def count_at_def valid_priority_def)

lemma reset_turns: "turns_taken s c \<Longrightarrow> turns_taken (reset_thread_counts s) (\<lambda>_. 0)"
  by (auto simp: turns_taken_def reset_thread_counts_def valid_priority_def)

lemma ring_second: "ring st (h # ys) \<Longrightarrow> t_next (st h) = Some (hd (ys @ [h]))"
  by (cases ys) (auto simp: ring_def)

lemma ring_turn_queue: "ring st q \<Longrightarrow> ring st (turn_queue cur q)"
  using ring_rotate1 by (cases q) (auto simp: turn_queue_def)

lemma scan_priorities_top:
  assumes "ready_queues s qs" "turns_taken s c" "n \<le> NUM_PRIORITY_SLOTS"
  shows "scan_priorities (Some (Some cur)) n b s = Inr (case top_queue qs c n of
      None \<Rightarrow> (b \<or> (\<exists>p. 1 \<le> p \<and> p \<le> n \<and> qs p \<noteq> []), None)
    | Some p \<Rightarrow> (b \<or> (\<exists>r. p < r \<and> r \<le> n \<and> qs r \<noteq> []),
                Some (hd (turn_queue cur (qs p)), choose_thread p (hd (turn_queue cur (qs p))) s)))"
  using assms(3)
proof (induction n arbitrary: b)
  case (Suc n)
  have p: "valid_priority (Suc n)" using Suc.prems by (simp add: valid_priority_def)
  note R = ready_queuesD [OF assms(1) p] and C = turns_takenD [OF assms(2) p]
  have n: "n \<le> NUM_PRIORITY_SLOTS" using Suc.prems by simp
  show ?case
  proof (cases "qs (Suc n)")
    case Nil
    have *: "(\<exists>r. p < r \<and> r \<le> Suc n \<and> qs r \<noteq> []) = (\<exists>r. p < r \<and> r \<le> n \<and> qs r \<noteq> [])" for p
      using Nil by (metis le_Suc_eq)
    show ?thesis using Suc.IH [OF n] * [of 0] Nil
      by (simp add: R(1) Let_def top_queue_Suc * Suc_le_eq split: option.split)
  next
    case (Cons h ys)
    have "(if cur = h then deref (t_next (threads s h)) else Inr h) = Inr (hd (turn_queue cur (qs (Suc n))))"
      using ring_second [of "threads s" h ys] R(2) Cons by (simp add: turn_queue_def deref_def)
    moreover have "\<exists>r. p < r \<and> r \<le> Suc n \<and> qs r \<noteq> []" if "top_queue qs c n = Some p" for p
      using that Cons by (intro exI [of _ "Suc n"]) (simp add: top_queue_Some)
    moreover have "\<exists>r. 1 \<le> r \<and> r \<le> Suc n \<and> qs r \<noteq> []"
      using Cons by (intro exI [of _ "Suc n"]) simp
    ultimately show ?thesis
      using Suc.IH [OF n, of True] Cons
      by (cases "top_queue qs c n"; simp add: R(1) C(1) Let_def top_queue_Suc; auto)
  qed
qed simp

lemma choose_thread_ready:
  assumes "ready_queues s qs" "turns_taken s c" "valid_priority p" "c p \<le> 2 * p" "qs p \<noteq> []"
  shows "ready_queues (choose_thread p (hd (turn_queue cur (qs p))) s) (qs(p := turn_queue cur (qs p)))"
    "turns_taken (choose_thread p (hd (turn_queue cur (qs p))) s) (c(p := c p + 1))"
proof -
  note R = ready_queuesD [OF assms(1,3)] and C = turns_takenD [OF assms(2,3)]
  show "ready_queues (choose_thread p (hd (turn_queue cur (qs p))) s) (qs(p := turn_queue cur (qs p)))"
  proof (rule ready_queues_update [OF assms(1,3), where A = "{}"])
    show "set (turn_queue cur (qs p)) \<inter> set (qs r) = {}" if "r \<noteq> p" for r
      using assms(1) that by (auto simp: ready_queues_def)
    show "ring (threads (choose_thread p (hd (turn_queue cur (qs p))) s)) (turn_queue cur (qs p))"
      using ring_turn_queue [OF R(2)] by (simp add: choose_thread_def put_queue_def)
  qed (use assms(1,5) in \<open>auto simp: choose_thread_def put_queue_def links_only_def head_of_def ready_queues_def\<close>)
  have "p \<le> 10" using assms(3) by (simp add: valid_priority_def NUM_PRIORITY_SLOTS_def)
  then have "unat (thread_execute_counts s ! p + 1) = c p + 1"
    using C(3) assms(4) by (simp add: unat_word_ariths)
  then show "turns_taken (choose_thread p (hd (turn_queue cur (qs p))) s) (c(p := c p + 1))"
    using assms(2,4) C(2) by (auto simp: turns_taken_def choose_thread_def put_queue_def)
qed

text \<open>The scan may start at the last priority when no higher one has threads.\<close>

lemma no_higher_bits:
  assumes "no_higher_priority_threads v k" "k < r" "r < 16"
  shows "\<not> bit v r"
proof -
  have "push_bit (k + 1) 1 - 1 = (mask (Suc k) :: 16 word)" by (simp add: mask_eq_exp_minus_1 push_bit_of_1)
  then have "v AND NOT (mask (Suc k)) = 0" using assms(1) by (simp add: no_higher_priority_threads_def)
  then have "\<not> bit (v AND NOT (mask (Suc k))) r" by simp
  then show ?thesis using assms(2,3) by (simp add: bit_simps)
qed

lemma ready_valid_zero: "ready_queues s qs \<Longrightarrow> priority_queue_valid s = 0 \<longleftrightarrow> (\<forall>p. qs p = [])"
  using bit_eq_iff [of "priority_queue_valid s" 0] by (auto simp: ready_queues_def dest: bit_imp_le_length)

lemma choice_start:
  assumes "ready_queues s qs" "last_priority_queue s \<le> NUM_PRIORITY_SLOTS"
    "start = (if no_higher_priority_threads (priority_queue_valid s) (last_priority_queue s)
              then last_priority_queue s else NUM_PRIORITY_SLOTS)"
  shows "start \<le> NUM_PRIORITY_SLOTS" "top_queue qs c NUM_PRIORITY_SLOTS = top_queue qs c start"
    "(\<exists>p. 1 \<le> p \<and> p \<le> start \<and> qs p \<noteq> []) \<longleftrightarrow> (\<exists>p. qs p \<noteq> [])"
proof -
  show le: "start \<le> NUM_PRIORITY_SLOTS" using assms(2,3) by simp
  have empty: "qs r = []" if "start < r" for r
  proof (cases "r \<le> NUM_PRIORITY_SLOTS")
    case True
    then have "\<not> bit (priority_queue_valid s) r"
      using no_higher_bits [of "priority_queue_valid s" "last_priority_queue s" r] that assms(3)
      by (auto simp: NUM_PRIORITY_SLOTS_def split: if_splits)
    then show ?thesis using assms(1) by (simp add: ready_queues_def)
  qed (use assms(1) in \<open>simp add: ready_queues_def\<close>)
  show "top_queue qs c NUM_PRIORITY_SLOTS = top_queue qs c start"
    by (rule top_queue_empty) (use empty le in auto)
  have "qs 0 = []" using assms(1) by (simp add: ready_queues_def)
  then show "(\<exists>p. 1 \<le> p \<and> p \<le> start \<and> qs p \<noteq> []) \<longleftrightarrow> (\<exists>p. qs p \<noteq> [])"
    using empty by (metis One_nat_def Suc_leI not_gr_zero not_le_imp_less)
qed

section \<open>The choice\<close>

text \<open>The state of a scheduler whose threads wait in the queues \<open>qs\<close>.\<close>

definition scheduler_state :: "scheduler \<Rightarrow> (nat \<Rightarrow> tid list) \<Rightarrow> (nat \<Rightarrow> nat) \<Rightarrow> bool" where
  "scheduler_state s qs c =
     (ready_queues s qs \<and> turns_taken s c \<and> last_priority_queue s \<le> NUM_PRIORITY_SLOTS)"

lemma choose_thread_state:
  assumes "scheduler_state s qs c" "top_queue qs c NUM_PRIORITY_SLOTS = Some p"
  shows "scheduler_state (choose_thread p (hd (turn_queue cur (qs p))) s)
           (qs(p := turn_queue cur (qs p))) (c(p := c p + 1))"
proof -
  have p: "valid_priority p" "c p \<le> 2 * p" "qs p \<noteq> []" using assms(2) by (auto simp: top_queue_Some valid_priority_def)
  with choose_thread_ready [of s qs c p cur] assms(1) show ?thesis
    by (simp add: scheduler_state_def valid_priority_def choose_thread_def put_queue_def)
qed

lemma reset_thread_state:
  "scheduler_state s qs c \<Longrightarrow> scheduler_state (reset_thread_counts s) qs (\<lambda>_. 0)"
  using reset_turns [of s c] by (simp add: scheduler_state_def ready_queues_def reset_thread_counts_def)

lemma next_thread_result:
  assumes "scheduler_state s qs c"
  shows "\<exists>s'. get_next_runnable_thread (Some (Some cur)) s =
      Inr (if \<forall>p. qs p = [] then None else Some (fst (next_spec (cur, qs, c))), s') \<and>
    (case next_spec (cur, qs, c) of (_, qs', c') \<Rightarrow> scheduler_state s' qs' c') \<and>
    next_runnable s' = (if \<forall>p. qs p = [] then None else Some (fst (next_spec (cur, qs, c))))"
proof (cases "\<forall>p. qs p = []")
  case True
  then have "top_queue qs d NUM_PRIORITY_SLOTS = None" for d by (simp add: top_queue_None)
  moreover have "priority_queue_valid s = 0" using True assms ready_valid_zero by (auto simp: scheduler_state_def)
  moreover have "scheduler_state (s\<lparr>next_runnable := None\<rparr>) qs c"
    using assms by (simp add: scheduler_state_def ready_queues_def turns_taken_def)
  ultimately show ?thesis using True by (simp add: get_next_runnable_thread_def Let_def)
next
  case False
  have st: "ready_queues s qs" "turns_taken s c" "last_priority_queue s \<le> NUM_PRIORITY_SLOTS"
    using assms by (auto simp: scheduler_state_def)
  define start where "start = (if no_higher_priority_threads (priority_queue_valid s) (last_priority_queue s)
              then last_priority_queue s else NUM_PRIORITY_SLOTS)"
  note start = choice_start [OF st(1,3) start_def]
  have reset: "scheduler_state (reset_thread_counts s) qs (\<lambda>_. 0)" by (rule reset_thread_state [OF assms])
  note run = scan_priorities_top [OF st(1,2) start(1), of cur False, folded start(2)]
  note rerun = scan_priorities_top [of "reset_thread_counts s" qs "\<lambda>_. 0", OF _ _ start(1), of cur False, folded start(2)]
  have valid: "priority_queue_valid s \<noteq> 0" using ready_valid_zero [OF st(1)] False by simp
  note unfold = get_next_runnable_thread_def Let_def
  show ?thesis
  proof (cases "top_queue qs c NUM_PRIORITY_SLOTS")
    case (Some p)
    then show ?thesis
      using run valid False choose_thread_state [OF assms Some, of cur]
      by (simp add: unfold start_def [symmetric] turn_counts_def choose_thread_def)
  next
    case None
    obtain p where p: "top_queue qs (\<lambda>_. 0) NUM_PRIORITY_SLOTS = Some p"
      using start(3) start(1) False top_queue_None [of qs "\<lambda>_. 0" NUM_PRIORITY_SLOTS]
      by (metis not_less_zero not_Some_eq order_trans)
    have "ready_queues (reset_thread_counts s) qs" "turns_taken (reset_thread_counts s) (\<lambda>_. 0)"
      using reset by (simp_all add: scheduler_state_def)
    then show ?thesis
      using run rerun valid False None p start(3) choose_thread_state [OF reset p, of cur]
      by (simp add: unfold start_def [symmetric] turn_counts_def choose_thread_def)
  qed
qed

end
