(* ===== verification/Scheduler_Fairness.thy ===== *)
theory Scheduler_Fairness
  imports Scheduler_Choice
begin

text \<open>
  The fairness of the scheduler.  When the ready threads stay the same, the turns of a priority that
  are left grow fewer with each choice (\<open>turns_left\<close>), so each priority that has threads is chosen
  until its turns are used up, and with at least three turns in a round its queue is rotated
  (\<open>queue_rotates\<close>).  As many rotations as there are threads bring each thread to the head of its queue.
\<close>

section \<open>The turns that are left\<close>

definition turns_left :: "(nat \<Rightarrow> tid list) \<Rightarrow> (nat \<Rightarrow> nat) \<Rightarrow> nat" where
  "turns_left qs c = (\<Sum>r \<in> {1..NUM_PRIORITY_SLOTS}. if qs r = [] then 0 else 2 * r + 1 - c r)"

lemma turns_left_less:
  assumes "top_queue qs c NUM_PRIORITY_SLOTS = Some r"
  shows "turns_left (qs(r := turn_queue cur (qs r))) (c(r := c r + 1)) < turns_left qs c"
  unfolding turns_left_def
  by (rule sum_strict_mono_ex1) (use assms in \<open>auto simp: top_queue_Some intro: bexI [of _ r]\<close>)

lemma next_spec_top:
  "top_queue qs c NUM_PRIORITY_SLOTS = Some r \<Longrightarrow>
   next_spec (cur, qs, c) = (hd (turn_queue cur (qs r)), qs(r := turn_queue cur (qs r)), c(r := c r + 1))"
  by (simp add: turn_counts_def Let_def)

lemma next_spec_reset:
  "top_queue qs c NUM_PRIORITY_SLOTS = None \<Longrightarrow> valid_priority p \<Longrightarrow> qs p \<noteq> [] \<Longrightarrow>
   next_spec (cur, qs, c) = next_spec (cur, qs, \<lambda>_. 0)"
  using top_queue_None [of qs "\<lambda>_. 0" NUM_PRIORITY_SLOTS]
  by (auto simp: turn_counts_def valid_priority_def split: option.split)

lemmas next_spec_simp = next_spec.simps
declare next_spec.simps [simp del]

section \<open>A queue is rotated\<close>

definition queue_of :: "nat \<Rightarrow> turn \<Rightarrow> tid list" where
  "queue_of p x = fst (snd x) p"

definition queue_rotates :: "nat \<Rightarrow> turn \<Rightarrow> bool" where
  "queue_rotates p x = (\<exists>n. queue_of p ((next_spec ^^ Suc n) x) = rotate1 (queue_of p x) \<and>
     fst ((next_spec ^^ Suc n) x) = hd (rotate1 (queue_of p x)))"

lemma queue_rotates_later:
  assumes "queue_rotates p (next_spec x)" "queue_of p (next_spec x) = queue_of p x"
  shows "queue_rotates p x"
proof -
  from assms obtain n where "queue_of p ((next_spec ^^ Suc n) (next_spec x)) = rotate1 (queue_of p x)"
    "fst ((next_spec ^^ Suc n) (next_spec x)) = hd (rotate1 (queue_of p x))" by (auto simp: queue_rotates_def)
  then show ?thesis
    unfolding queue_rotates_def by (intro exI [of _ "Suc n"]) (simp add: funpow_swap1)
qed

lemma queue_rotates_now:
  assumes "top_queue qs c NUM_PRIORITY_SLOTS = Some p" "hd (qs p) = cur"
  shows "queue_rotates p (cur, qs, c)"
proof -
  have "qs p \<noteq> []" using assms(1) by (simp add: top_queue_Some)
  then show ?thesis
    unfolding queue_rotates_def
    by (intro exI [of _ 0]) (simp add: next_spec_top [OF assms(1)] queue_of_def turn_queue_def assms(2))
qed

lemma queue_rotates_next:
  assumes "top_queue qs c NUM_PRIORITY_SLOTS = Some p" "c p < 2 * p"
  shows "queue_rotates p (cur, qs, c)"
proof (cases "hd (qs p) = cur")
  case True
  then show ?thesis by (rule queue_rotates_now [OF assms(1)])
next
  case False
  then have same: "turn_queue cur (qs p) = qs p" by (simp add: turn_queue_def)
  have "top_queue qs (c(p := c p + 1)) NUM_PRIORITY_SLOTS = Some p" using assms by (auto simp: top_queue_Some)
  moreover have step: "next_spec (cur, qs, c) = (hd (qs p), qs, c(p := c p + 1))"
    using next_spec_top [OF assms(1), of cur] by (simp only: same fun_upd_triv)
  ultimately have "queue_rotates p (next_spec (cur, qs, c))" using queue_rotates_now by simp
  then show ?thesis by (rule queue_rotates_later) (simp only: step queue_of_def fst_conv snd_conv)
qed

lemma queue_rotates_in_round:
  assumes "valid_priority p" "qs p \<noteq> []" "c p < 2 * p"
  shows "queue_rotates p (cur, qs, c)"
  using assms
proof (induction "turns_left qs c" arbitrary: cur qs c rule: less_induct)
  case less
  obtain r where r: "top_queue qs c NUM_PRIORITY_SLOTS = Some r"
    using less.prems top_queue_None [of qs c NUM_PRIORITY_SLOTS]
    by (cases "top_queue qs c NUM_PRIORITY_SLOTS") (auto simp: valid_priority_def dest: spec [of _ p])
  show ?case
  proof (cases "r = p")
    case True
    then show ?thesis using queue_rotates_next r less.prems(3) by simp
  next
    case False
    have "queue_rotates p (next_spec (cur, qs, c))"
      unfolding next_spec_top [OF r]
      by (rule less.hyps [OF turns_left_less [OF r]]) (use less.prems False in simp_all)
    then show ?thesis
      by (rule queue_rotates_later) (simp add: next_spec_top [OF r] queue_of_def not_sym [OF False])
  qed
qed

lemma eventually_rotates:
  assumes "valid_priority p" "qs p \<noteq> []"
  shows "queue_rotates p (cur, qs, c)"
  using assms
proof (induction "turns_left qs c" arbitrary: cur qs c rule: less_induct)
  case less
  show ?case
  proof (cases "top_queue qs c NUM_PRIORITY_SLOTS")
    case None
    have "queue_rotates p (cur, qs, \<lambda>_. 0)"
      by (rule queue_rotates_in_round) (use less.prems in \<open>simp_all add: valid_priority_def\<close>)
    moreover have "(next_spec ^^ Suc n) (cur, qs, c) = (next_spec ^^ Suc n) (cur, qs, \<lambda>_. 0)" for n
      by (simp add: next_spec_reset [OF None less.prems] funpow_swap1)
    ultimately show ?thesis by (simp add: queue_rotates_def queue_of_def del: funpow.simps)
  next
    case (Some r)
    show ?thesis
    proof (cases "r = p \<and> hd (qs p) = cur")
      case True
      then show ?thesis using queue_rotates_now Some by blast
    next
      case False
      then have same: "(qs(r := turn_queue cur (qs r))) p = qs p" by (auto simp: turn_queue_def)
      have "queue_rotates p (next_spec (cur, qs, c))"
        unfolding next_spec_top [OF Some]
        by (rule less.hyps [OF turns_left_less [OF Some]]) (use less.prems same in simp_all)
      then show ?thesis
        by (rule queue_rotates_later) (simp add: next_spec_top [OF Some] queue_of_def same del: fun_upd_apply)
    qed
  qed
qed

lemma rotations:
  assumes "valid_priority p" "queue_of p x \<noteq> []"
  shows "\<exists>n. queue_of p ((next_spec ^^ n) x) = rotate (Suc k) (queue_of p x) \<and> 0 < n \<and>
    fst ((next_spec ^^ n) x) = hd (rotate (Suc k) (queue_of p x))"
proof (induction k)
  case 0
  show ?case using eventually_rotates [OF assms(1), of "fst (snd x)" "fst x" "snd (snd x)"] assms(2)
    by (auto simp: queue_rotates_def queue_of_def simp del: funpow.simps)
next
  case (Suc k)
  then obtain n where n: "queue_of p ((next_spec ^^ n) x) = rotate (Suc k) (queue_of p x)" by blast
  define y where "y = (next_spec ^^ n) x"
  have "queue_rotates p y"
    using eventually_rotates [OF assms(1), of "fst (snd y)" "fst y" "snd (snd y)"] n assms(2)
    by (simp add: y_def [symmetric] queue_of_def)
  then obtain m where "queue_of p ((next_spec ^^ Suc m) y) = rotate1 (queue_of p y)"
    "fst ((next_spec ^^ Suc m) y) = hd (rotate1 (queue_of p y))" unfolding queue_rotates_def by blast
  then show ?case using n
    by (intro exI [of _ "Suc m + n"]) (simp add: y_def funpow_add)
qed

lemma eventually_chosen:
  assumes "valid_priority p" "t \<in> set (qs p)"
  shows "\<exists>n > 0. fst ((next_spec ^^ n) (cur, qs, c)) = t"
proof -
  obtain i where i: "i < length (qs p)" "qs p ! i = t" using assms(2) by (auto simp: in_set_conv_nth)
  define k where "k = (if i = 0 then length (qs p) - 1 else i - 1)"
  have "qs p \<noteq> []" using i(1) by auto
  then have "hd (rotate (Suc k) (qs p)) = t"
    using i by (subst hd_rotate_conv_nth) (auto simp: k_def)
  then show ?thesis
    using rotations [OF assms(1), of "(cur, qs, c)" k] \<open>qs p \<noteq> []\<close> by (auto simp: queue_of_def)
qed

section \<open>The turns of the code\<close>

text \<open>The threads that have the next \<open>n\<close> turns, when each turn ends with \<open>get_next_runnable_thread\<close>
  for the thread that had it, as in \<open>yield\<close>.\<close>

fun turns :: "nat \<Rightarrow> tid \<Rightarrow> scheduler \<Rightarrow> sched_fault + tid list" where
  "turns 0 cur s = Inr []"
| "turns (Suc n) cur s =
     jvm_check (get_next_runnable_thread (Some (Some cur)) s) (\<lambda>(x, s).
       case x of None \<Rightarrow> Inr []
       | Some t \<Rightarrow> jvm_check (turns n t s) (\<lambda>ts. Inr (t # ts)))"

lemma next_spec_ready: "(\<forall>p. fst (snd (next_spec x)) p = []) \<longleftrightarrow> (\<forall>p. fst (snd x) p = [])"
  by (cases x) (auto simp: next_spec_simp Let_def split: option.split)

lemma turns_spec:
  assumes "scheduler_state s qs c" "\<not> (\<forall>p. qs p = [])"
  shows "turns n cur s = Inr (map (\<lambda>k. fst ((next_spec ^^ Suc k) (cur, qs, c))) [0..<n])"
  using assms
proof (induction n arbitrary: cur s qs c)
  case (Suc n)
  obtain t qs' c' where nx: "next_spec (cur, qs, c) = (t, qs', c')" by (metis prod_cases3)
  then obtain s' where s': "get_next_runnable_thread (Some (Some cur)) s = Inr (Some t, s')" "scheduler_state s' qs' c'"
    using next_thread_result [OF Suc.prems(1), of cur] Suc.prems(2) by auto
  have "\<not> (\<forall>p. qs' p = [])" using next_spec_ready [of "(cur, qs, c)"] Suc.prems(2) by (simp add: nx)
  from Suc.IH [OF s'(2) this, of t] show ?case
    by (simp add: s'(1) upt_conv_Cons map_Suc_upt [symmetric] nx funpow_swap1 comp_def del: upt_Suc)
qed simp

section \<open>An example\<close>

text \<open>Threads 1 and 2 are ready at priority 5.\<close>

definition example_threads :: "tid \<Rightarrow> thread" where
  "example_threads u =
     \<lparr>t_next = (if u = 1 then Some 2 else if u = 2 then Some 1 else None),
      t_previous = (if u = 1 then Some 2 else if u = 2 then Some 1 else None), next_waiting = None,
      global_next = None, wait_obj = None, wakeup_time = 0, t_priority = 5, wait_stack_lock = None\<rparr>"

definition example_scheduler :: scheduler where
  "example_scheduler =
     \<lparr>threads = example_threads, priority_queues = (replicate 11 None)[5 := Some 1],
      priority_queue_valid = 32, last_priority_queue = 5, next_runnable = None,
      thread_execute_counts = replicate 11 0\<rparr>"

definition example_queues :: "nat \<Rightarrow> tid list" where
  "example_queues p = (if p = 5 then [1, 2] else [])"

lemma example_state: "scheduler_state example_scheduler example_queues (\<lambda>_. 0)"
  by (auto simp: scheduler_state_def ready_queues_def turns_taken_def example_scheduler_def example_queues_def
      example_threads_def NUM_PRIORITY_SLOTS_def valid_priority_def nth_list_update ring_def less_Suc_eq_le bit_32 simp del: bit_numeral_word_iff)

lemma example_ready:
  "ready_queues example_scheduler example_queues" "queues_sorted example_scheduler example_queues"
  "valid_priority (t_priority (threads example_scheduler t))"
  using example_state by (auto simp: scheduler_state_def queues_sorted_def example_queues_def example_scheduler_def
    example_threads_def valid_priority_def NUM_PRIORITY_SLOTS_def split: if_splits)

section \<open>The properties of the scheduler\<close>

text \<open>C21: A thread that becomes ready goes to the end of the queue of its priority, one that stops being ready
  leaves the queue, and the order of the others is kept: the circular lists, the heads of the lists and the bits of
  the priorities go on standing for the queues, and each thread is in the queue of its priority.\<close>

theorem active_queue_updates:
  assumes "ready_queues s qs" "queues_sorted s qs" "valid_priority (t_priority (threads s t))"
  shows "let P = t_priority (threads s t) in
    if t \<in> set (qs P)
    then \<exists>s'. remove_from_active t s = Inr s' \<and> ready_queues s' (qs(P := remove1 t (qs P))) \<and>
      queues_sorted s' (qs(P := remove1 t (qs P)))
    else \<exists>s'. add_to_active t s = Inr s' \<and> ready_queues s' (qs(P := qs P @ [t])) \<and>
      queues_sorted s' (qs(P := qs P @ [t]))"
proof (cases "t \<in> set (qs (t_priority (threads s t)))")
  case True
  from remove_from_active_queues [OF assms(1) True] obtain s' where s': "remove_from_active t s = Inr s'"
    "ready_queues s' (qs(t_priority (threads s t) := remove1 t (qs (t_priority (threads s t)))))"
    "\<And>u. t_priority (threads s' u) = t_priority (threads s u)" by blast
  moreover have "queues_sorted s' (qs(t_priority (threads s t) := remove1 t (qs (t_priority (threads s t)))))"
    using assms(2) s'(3) set_remove1_subset [of t "qs (t_priority (threads s t))"] by (fastforce simp: queues_sorted_def)
  ultimately show ?thesis using True by (simp add: Let_def)
next
  case False
  then have "t \<notin> set (qs p)" for p using assms(2) by (auto simp: queues_sorted_def)
  from add_to_active_queues [OF assms(1) this assms(3)] obtain s' where s': "add_to_active t s = Inr s'"
    "ready_queues s' (qs(t_priority (threads s t) := qs (t_priority (threads s t)) @ [t]))"
    "\<And>u. t_priority (threads s' u) = t_priority (threads s u)" by blast
  moreover have "queues_sorted s' (qs(t_priority (threads s t) := qs (t_priority (threads s t)) @ [t]))"
    using assms(2) s'(3) by (auto simp: queues_sorted_def)
  ultimately show ?thesis using False by (simp add: Let_def)
qed

lemma active_queue_updates_witness:
  "\<exists>s'. add_to_active 3 example_scheduler = Inr s' \<and> ready_queues s' (example_queues(5 := [1, 2, 3]))"
  using active_queue_updates [OF example_ready, of 3]
  by (auto simp: example_queues_def example_scheduler_def example_threads_def)

text \<open>C20: The choice of the next thread at a yield is that of the queues: the highest priority with ready threads that
  has turns left (2 * p + 1 of them before the counts start again), in it the thread after the one that yields, or the
  head.  The thread becomes the head, its turn is counted, and the cache of the next thread holds it; there is none
  exactly if no thread is ready.  To start the search at the last priority is no restriction.\<close>

theorem next_thread_choice:
  assumes "scheduler_state s qs c"
  shows "\<exists>s'. get_next_runnable_thread (Some (Some cur)) s =
      Inr (if \<forall>p. qs p = [] then None else Some (fst (next_spec (cur, qs, c))), s') \<and>
    (case next_spec (cur, qs, c) of (_, qs', c') \<Rightarrow> scheduler_state s' qs' c') \<and>
    next_runnable s' = (if \<forall>p. qs p = [] then None else Some (fst (next_spec (cur, qs, c))))"
  by (rule next_thread_result [OF assms])

lemma next_thread_choice_witness:
  "\<exists>s'. get_next_runnable_thread (Some (Some 1)) example_scheduler = Inr (Some 2, s') \<and> next_runnable s' = Some 2"
proof -
  have nx: "next_spec (1, example_queues, \<lambda>_. 0) = (2, example_queues(5 := [2, 1]), (\<lambda>_. 0)(5 := 1))"
    by (simp add: next_spec_simp turn_counts_def top_queue_def NUM_PRIORITY_SLOTS_def upt_rec example_queues_def
      turn_queue_def Let_def numeral_eq_Suc)
  have some: "(\<forall>p. example_queues p = []) = False" by (auto simp: example_queues_def)
  from next_thread_choice [OF example_state, of 1] show ?thesis
    unfolding nx some fst_conv if_False by blast
qed

text \<open>C11: No ready thread starves: whatever thread runs and whatever turns have been taken, when each turn ends with the
  choice of the next thread and the ready threads stay the same, each of them has a turn.\<close>

theorem every_ready_thread_runs:
  assumes "scheduler_state s qs c" "t \<in> set (qs p)"
  shows "\<exists>n ts. turns n cur s = Inr ts \<and> t \<in> set ts"
proof -
  have "valid_priority p" using assms ready_queues_valid by (auto simp: scheduler_state_def)
  then obtain n where n: "0 < n" "fst ((next_spec ^^ n) (cur, qs, c)) = t"
    using eventually_chosen [of p t qs cur c] assms(2) by blast
  then obtain k where "n = Suc k" by (cases n) auto
  moreover have "\<not> (\<forall>p. qs p = [])" using assms(2) by (metis empty_iff list.set(1))
  ultimately show ?thesis
    using turns_spec [OF assms(1), of "Suc k" cur] n(2)
    by (intro exI [of _ "Suc k"] exI) (auto intro!: image_eqI [of _ _ k])
qed

lemma every_ready_thread_runs_witness: "\<exists>n ts. turns n 1 example_scheduler = Inr ts \<and> 2 \<in> set ts"
  by (rule every_ready_thread_runs [OF example_state, of 2 5]) (simp add: example_queues_def)

end
