(* ===== verification/Monitors.thy ===== *)
theory Monitors
  imports Scheduler
begin

unbundle bit_operations_syntax

text \<open>
  Monitors (\<open>Synchronizer.cpp\<close>, \<open>Synchronizer.hpp\<close>, and the fast paths of \<open>monitorenter\<close> and
  \<open>monitorexit\<close> in \<open>Interpreter_c.cpp\<close>).  An object is locked when its near pointer leads to the
  copy of its near in a stack lock, a slot in the frame of the thread that holds it.  The threads that
  wait for an object are a chain of \<open>next_waiting\<close> links from that stack lock, each with the
  stack lock in which it will hold the object (\<open>wait_stack_lock\<close>).

  Objects, nears and stack locks are numbers.  Interned strings, which are locked by a proxy
  object, end in the fault \<open>Interned_string\<close>.  The wait of a thread that is blocked
  (\<open>wait_for\<close>) sets its time; the choice of the next thread follows in \<open>Scheduler_Choice\<close>.
\<close>

section \<open>Nears and stack locks\<close>

datatype near_pointer = Real_near nat | Stack_near nat

record stack_lock =
  sl_thread :: "tid option"
  real_java_near :: "near_pointer option"
  sl_waiters :: "tid option"
  copied_near :: "32 word"
  sl_owner :: "nat option"

record monitors =
  sched :: scheduler
  object_near :: "nat \<Rightarrow> near_pointer"
  near_value :: "nat \<Rightarrow> 32 word"
  stack_locks :: "nat \<Rightarrow> stack_lock"
  current_thread :: tid
  interned_string_near :: nat

definition raw_value :: "monitors \<Rightarrow> near_pointer \<Rightarrow> 32 word" where
  "raw_value s n = (case n of Real_near r \<Rightarrow> near_value s r | Stack_near l \<Rightarrow> copied_near (stack_locks s l))"

definition is_locked :: "monitors \<Rightarrow> nat \<Rightarrow> bool" where
  "is_locked s obj = (raw_value s (object_near s obj) AND 3 \<noteq> 0)"

definition set_lock :: "32 word \<Rightarrow> 32 word \<Rightarrow> 32 word" where
  "set_lock lock_value raw = (raw AND NOT 3) OR lock_value"

definition from_java_oop :: "monitors \<Rightarrow> nat \<Rightarrow> sched_fault + nat" where
  "from_java_oop s obj = (case object_near s obj of Stack_near l \<Rightarrow> Inr l | Real_near _ \<Rightarrow> Inl Not_a_lock)"

definition is_locked_by :: "monitors \<Rightarrow> nat \<Rightarrow> tid \<Rightarrow> sched_fault + bool" where
  "is_locked_by s obj thread =
     (if is_locked s obj
      then jvm_check (from_java_oop s obj) (\<lambda>l. Inr (sl_thread (stack_locks s l) = Some thread))
      else Inr False)"

definition upd_lock :: "nat \<Rightarrow> (stack_lock \<Rightarrow> stack_lock) \<Rightarrow> monitors \<Rightarrow> monitors" where
  "upd_lock l f s = s\<lparr>stack_locks := (stack_locks s)(l := f (stack_locks s l))\<rparr>"

definition set_near :: "nat \<Rightarrow> near_pointer \<Rightarrow> monitors \<Rightarrow> monitors" where
  "set_near obj n s = s\<lparr>object_near := (object_near s)(obj := n)\<rparr>"

definition upd_thread :: "tid \<Rightarrow> (thread \<Rightarrow> thread) \<Rightarrow> monitors \<Rightarrow> monitors" where
  "upd_thread t f s = s\<lparr>sched := (sched s)\<lparr>threads := (threads (sched s))(t := f (threads (sched s) t))\<rparr>\<rparr>"

text \<open>\<open>StackLock::set_waiters\<close> and \<open>StackLock::lock\<close>.\<close>

definition set_waiters :: "nat \<Rightarrow> tid \<Rightarrow> monitors \<Rightarrow> monitors" where
  "set_waiters l thread s =
     upd_lock l (\<lambda>x. x\<lparr>copied_near := set_lock 3 (copied_near x), sl_waiters := Some thread\<rparr>) s"

definition stack_lock_lock :: "nat \<Rightarrow> tid \<Rightarrow> nat \<Rightarrow> monitors \<Rightarrow> monitors" where
  "stack_lock_lock l thread obj s =
     (let real_near = object_near s obj;
          s = upd_lock l (\<lambda>x. x\<lparr>copied_near := set_lock 1 (raw_value s real_near)\<rparr>) s;
          s = upd_lock l (\<lambda>x. x\<lparr>sl_owner := Some obj, sl_thread := Some thread,
                               real_java_near := Some real_near, sl_waiters := None\<rparr>) s
      in set_near obj (Stack_near l) s)"

section \<open>Entering\<close>

partial_function (option) sync_tail :: "(tid \<Rightarrow> thread) \<Rightarrow> tid \<Rightarrow> tid option" where
  "sync_tail st t = (case next_waiting (st t) of None \<Rightarrow> Some t | Some n \<Rightarrow> sync_tail st n)"

text \<open>\<open>add_sync_thread\<close>: the head of the chain, and the scheduler.\<close>

definition add_sync_thread ::
  "tid \<Rightarrow> tid option \<Rightarrow> nat \<Rightarrow> monitors \<Rightarrow> sched_fault + (tid \<times> monitors)" where
  "add_sync_thread thread pending_waiters obj s =
     jvm_check (remove_from_active thread (sched s)) (\<lambda>sc.
     let s = s\<lparr>sched := sc\<rparr>;
         finish = (\<lambda>head s. Inr (head,
           upd_thread thread (\<lambda>x. x\<lparr>wait_obj := Some obj\<rparr>) (upd_thread thread (\<lambda>x. x\<lparr>next_waiting := None\<rparr>) s))) in
     case pending_waiters of
       None \<Rightarrow> finish thread (upd_thread thread (\<lambda>x. x\<lparr>t_next := None\<rparr>) s)
     | Some h \<Rightarrow>
         (case sync_tail (threads (sched s)) h of
            None \<Rightarrow> Inl No_end
          | Some tail \<Rightarrow> finish h (upd_thread tail (\<lambda>x. x\<lparr>next_waiting := Some thread\<rparr>) s)))"

text \<open>\<open>Synchronizer::enter\<close>: whether the thread has the lock.\<close>

definition synchronizer_enter :: "tid \<Rightarrow> nat \<Rightarrow> monitors \<Rightarrow> sched_fault + (bool \<times> monitors)" where
  "synchronizer_enter thread l s =
     (case sl_owner (stack_locks s l) of
        None \<Rightarrow> Inl Null_object
      | Some obj \<Rightarrow>
          if object_near s obj = Real_near (interned_string_near s) then Inl Interned_string
          else if \<not> is_locked s obj then Inr (True, stack_lock_lock l thread obj s)
          else
            let s = upd_thread thread (\<lambda>x. x\<lparr>wait_stack_lock := Some l\<rparr>) s;
                s = upd_lock l (\<lambda>x. x\<lparr>sl_owner := None\<rparr>) s in
            jvm_check (from_java_oop s obj) (\<lambda>holder.
            jvm_check (add_sync_thread thread (sl_waiters (stack_locks s holder)) obj s) (\<lambda>(pending_waiters, s).
            let s = set_waiters holder pending_waiters s;
                s = upd_thread thread (\<lambda>x. x\<lparr>wakeup_time := 0\<rparr>) s
            in Inr (False, s))))"

text \<open>\<open>lock_object\<close>: the state, and whether the thread has the object.\<close>

definition lock_object :: "nat \<Rightarrow> nat \<Rightarrow> monitors \<Rightarrow> sched_fault + (bool \<times> monitors)" where
  "lock_object obj l s =
     (let s = upd_lock l (\<lambda>x. x\<lparr>sl_owner := Some obj\<rparr>) s;
          near_obj = object_near s obj;
          slow = (\<lambda>s. synchronizer_enter (current_thread s) l (upd_lock l (\<lambda>x. x\<lparr>real_java_near := None\<rparr>) s)) in
      if near_obj = Real_near (interned_string_near s) then slow s
      else if raw_value s near_obj AND 1 \<noteq> 0 then
        jvm_check (from_java_oop s obj) (\<lambda>holder.
        if sl_thread (stack_locks s holder) = Some (current_thread s)
        then Inr (True, upd_lock l (\<lambda>x. x\<lparr>real_java_near := None\<rparr>) s)
        else slow s)
      else
        let s = upd_lock l (\<lambda>x. x\<lparr>sl_waiters := None\<rparr>) s;
            s = set_near obj (Stack_near l) s;
            s = upd_lock l (\<lambda>x. x\<lparr>real_java_near := Some near_obj, sl_thread := Some (current_thread s)\<rparr>) s;
            s = upd_lock l (\<lambda>x. x\<lparr>copied_near := raw_value s near_obj OR 1\<rparr>) s
        in Inr (True, s))"

section \<open>Leaving\<close>

definition signal_waiters :: "nat \<Rightarrow> monitors \<Rightarrow> sched_fault + monitors" where
  "signal_waiters l s =
     (let waiters = sl_waiters (stack_locks s l);
          s = upd_lock l (\<lambda>x. x\<lparr>real_java_near := None\<rparr>) s in
      case waiters of
        None \<Rightarrow> Inr s
      | Some first_waiter \<Rightarrow>
          let next_waiter = next_waiting (threads (sched s) first_waiter) in
          jvm_check (add_to_active first_waiter (sched s)) (\<lambda>sc.
          let s = s\<lparr>sched := sc\<rparr>; th = threads (sched s) first_waiter in
          case wait_obj th of None \<Rightarrow> Inl Null_object
          | Some obj \<Rightarrow>
              (case wait_stack_lock th of None \<Rightarrow> Inl Not_a_lock
               | Some wl \<Rightarrow>
                   let s = stack_lock_lock wl first_waiter obj s;
                       s = (case next_waiter of None \<Rightarrow> s | Some n \<Rightarrow> set_waiters wl n s)
                   in Inr (upd_thread first_waiter
                        (\<lambda>x. x\<lparr>wait_stack_lock := None, next_waiting := None, wait_obj := None\<rparr>) s))))"

definition synchronizer_exit :: "nat \<Rightarrow> monitors \<Rightarrow> sched_fault + monitors" where
  "synchronizer_exit l s =
     (case (sl_owner (stack_locks s l), real_java_near (stack_locks s l)) of
        (Some obj, Some real_near) \<Rightarrow>
          signal_waiters l (upd_lock l (\<lambda>x. x\<lparr>sl_owner := None\<rparr>) (set_near obj real_near s))
      | _ \<Rightarrow> Inl Null_object)"

definition unlock_stack_lock :: "nat \<Rightarrow> monitors \<Rightarrow> sched_fault + monitors" where
  "unlock_stack_lock l s =
     (case sl_owner (stack_locks s l) of
        None \<Rightarrow> Inl Null_object
      | Some owner \<Rightarrow>
          let real_near = real_java_near (stack_locks s l);
              s = upd_lock l (\<lambda>x. x\<lparr>sl_owner := None\<rparr>) s in
          (case real_near of None \<Rightarrow> Inr s | Some n \<Rightarrow> signal_waiters l (set_near owner n s)))"

definition unlock_object :: "nat \<Rightarrow> nat \<Rightarrow> monitors \<Rightarrow> sched_fault + monitors" where
  "unlock_object obj l s =
     (if object_near s obj = Real_near (interned_string_near s) then Inl Interned_string
      else
        let real_near = real_java_near (stack_locks s l);
            s = upd_lock l (\<lambda>x. x\<lparr>sl_owner := None\<rparr>) s in
        case real_near of
          None \<Rightarrow> Inr s
        | Some n \<Rightarrow>
            let s = set_near obj n s in
            if copied_near (stack_locks s l) AND 2 = 0 then Inr s else signal_waiters l s)"

section \<open>What the state stands for\<close>

fun chain :: "(tid \<Rightarrow> tid option) \<Rightarrow> tid option \<Rightarrow> tid list \<Rightarrow> bool" where
  "chain f x [] = (x = None)"
| "chain f x (t # ts) = (x = Some t \<and> chain f (f t) ts)"

text \<open>The monitor of an object: the stack lock that holds it, the thread that has it, and the threads
  that wait for it, the first one first.\<close>

type_synonym monitor = "nat \<times> tid \<times> tid list"

definition waits_for :: "monitors \<Rightarrow> nat \<Rightarrow> tid \<Rightarrow> bool" where
  "waits_for s obj w =
     (wait_obj (threads (sched s) w) = Some obj \<and> valid_priority (t_priority (threads (sched s) w)) \<and>
      (case wait_stack_lock (threads (sched s) w) of None \<Rightarrow> False | Some l \<Rightarrow> sl_owner (stack_locks s l) = None))"

definition free_near :: "monitors \<Rightarrow> near_pointer \<Rightarrow> bool" where
  "free_near s n = (case n of Real_near r \<Rightarrow> near_value s r AND 3 = 0 \<and> r \<noteq> interned_string_near s | Stack_near _ \<Rightarrow> False)"

definition has_monitor :: "monitors \<Rightarrow> nat \<Rightarrow> monitor \<Rightarrow> bool" where
  "has_monitor s obj m = (case m of (l, t, ws) \<Rightarrow>
     object_near s obj = Stack_near l \<and> sl_owner (stack_locks s l) = Some obj \<and>
     sl_thread (stack_locks s l) = Some t \<and>
     (case real_java_near (stack_locks s l) of None \<Rightarrow> False | Some n \<Rightarrow> free_near s n) \<and>
     copied_near (stack_locks s l) AND 3 = (if ws = [] then 1 else 3) \<and>
     sl_waiters (stack_locks s l) = head_of ws \<and>
     chain (\<lambda>w. next_waiting (threads (sched s) w)) (head_of ws) ws \<and> distinct (t # ws) \<and>
     list_all (waits_for s obj) ws)"

definition waiting_threads :: "(nat \<Rightarrow> monitor option) \<Rightarrow> tid set" where
  "waiting_threads M = {w. \<exists>obj l t ws. M obj = Some (l, t, ws) \<and> w \<in> set ws}"

definition monitors_ok :: "monitors \<Rightarrow> (nat \<Rightarrow> monitor option) \<Rightarrow> (nat \<Rightarrow> tid list) \<Rightarrow> bool" where
  "monitors_ok s M qs =
     (ready_queues (sched s) qs \<and> queues_sorted (sched s) qs \<and>
      (\<forall>obj. case M obj of None \<Rightarrow> free_near s (object_near s obj) \<or> object_near s obj = Real_near (interned_string_near s)
             | Some m \<Rightarrow> has_monitor s obj m) \<and>
      (\<forall>w \<in> waiting_threads M. \<forall>p. w \<notin> set (qs p)) \<and>
      inj_on (\<lambda>w. wait_stack_lock (threads (sched s) w)) (waiting_threads M))"

section \<open>Lock bits, chains and threads\<close>

lemma and_3_1: "(x :: 32 word) AND 1 = (x AND 3) AND 1" and and_3_2: "(x :: 32 word) AND 2 = (x AND 3) AND 2"
  by (simp_all add: and.assoc)

lemma or_1_and_3: "(x :: 32 word) AND 3 = 0 \<Longrightarrow> (x OR 1) AND 3 = 1"
  by (simp add: bit.conj_disj_distrib2)

lemma set_lock_and_3: "set_lock 1 x AND 3 = 1" "set_lock 3 x AND 3 = 3"
  by (simp_all add: set_lock_def bit.conj_disj_distrib2 and.assoc)

lemma chain_cong: "(\<And>t. t \<in> set ts \<Longrightarrow> f t = g t) \<Longrightarrow> chain f x ts = chain g x ts"
  by (induction ts arbitrary: x) auto

lemma chain_snoc:
  "chain f x ts \<Longrightarrow> distinct (ts @ [t]) \<Longrightarrow> g t = None \<Longrightarrow> (\<And>u. u \<noteq> t \<Longrightarrow> g u = (if ts \<noteq> [] \<and> u = last ts then Some t else f u)) \<Longrightarrow>
   chain g (if ts = [] then Some t else x) (ts @ [t])"
proof (induction ts arbitrary: x)
  case (Cons a ts)
  show ?case
  proof (cases ts)
    case Nil
    then show ?thesis using Cons.prems by auto
  next
    case (Cons b us)
    have "chain g (if ts = [] then Some t else f a) (ts @ [t])"
      by (rule Cons.IH) (use Cons.prems \<open>ts = b # us\<close> in auto)
    moreover have "g a = f a" using Cons.prems(2,4) \<open>ts = b # us\<close> by auto
    ultimately show ?thesis using Cons.prems(1) \<open>ts = b # us\<close> by simp
  qed
qed simp

lemma sync_tail_chain: "chain (\<lambda>w. next_waiting (st w)) (Some h) ts \<Longrightarrow> sync_tail st h = Some (last ts)"
proof (induction ts arbitrary: h)
  case (Cons a ts)
  then show ?case by (cases ts) (auto simp: sync_tail.simps)
qed simp

lemma ring_same_links:
  assumes "\<And>u. t_next (st' u) = t_next (st u)" "\<And>u. t_previous (st' u) = t_previous (st u)"
  shows "ring st' xs = ring st xs"
proof -
  have "linked st' ys = linked st ys" for ys by (induction ys rule: induct_list012) (auto simp: assms)
  then show ?thesis by (simp add: ring_def)
qed

lemma ready_queues_same_links:
  assumes "\<And>u. t_next (st' u) = t_next (threads sc u)" "\<And>u. t_previous (st' u) = t_previous (threads sc u)"
  shows "ready_queues (sc\<lparr>threads := st'\<rparr>) qs = ready_queues sc qs"
  using ring_same_links [OF assms] by (simp add: ready_queues_def)

lemma sched_upd [simp]:
  "sched (upd_lock l f s) = sched s" "sched (set_near obj n s) = sched s" "sched (set_waiters l t s) = sched s"
  "sched (stack_lock_lock l t obj s) = sched s"
  "current_thread (upd_lock l f s) = current_thread s" "current_thread (set_near obj n s) = current_thread s"
  "current_thread (upd_thread t g s) = current_thread s"
  "interned_string_near (upd_lock l f s) = interned_string_near s" "interned_string_near (set_near obj n s) = interned_string_near s"
  "interned_string_near (upd_thread t g s) = interned_string_near s"
  "near_value (upd_lock l f s) = near_value s" "near_value (set_near obj n s) = near_value s"
  "near_value (upd_thread t g s) = near_value s"
  "object_near (upd_lock l f s) = object_near s" "object_near (set_near obj n s) = (object_near s)(obj := n)"
  "object_near (upd_thread t g s) = object_near s"
  "stack_locks (upd_lock l f s) = (stack_locks s)(l := f (stack_locks s l))" "stack_locks (set_near obj n s) = stack_locks s"
  "stack_locks (upd_thread t g s) = stack_locks s"
  "threads (sched (upd_thread t g s)) = (threads (sched s))(t := g (threads (sched s) t))"
  by (simp_all add: upd_lock_def set_near_def upd_thread_def set_waiters_def stack_lock_lock_def Let_def)

end
