(* ===== verification/Monitor_Queues.thy ===== *)
theory Monitor_Queues
  imports Monitors
begin

unbundle bit_operations_syntax

text \<open>
  Entering and leaving a monitor as operations on the monitors that the state stands for: a free object is
  locked by the thread, a locked one gets the thread at the end of its waiting threads, and leaving
  gives the object to the first of them (\<open>lock_object_free\<close>, \<open>lock_object_again\<close>, \<open>lock_object_blocked\<close>,
  \<open>unlock_object_handoff\<close>).
\<close>

section \<open>What a step leaves alone\<close>

definition same_wait :: "thread \<Rightarrow> thread \<Rightarrow> bool" where
  "same_wait x y = (next_waiting y = next_waiting x \<and> wait_obj y = wait_obj x \<and>
     t_priority y = t_priority x \<and> wait_stack_lock y = wait_stack_lock x)"

lemma same_wait_refl [simp]: "same_wait x x"
  by (simp add: same_wait_def)

lemma links_only_same_wait: "links_only A st st' \<Longrightarrow> same_wait (st u) (st' u)"
  using links_only_fields [of A st st' u] by (simp add: same_wait_def)

definition same_nears :: "monitors \<Rightarrow> monitors \<Rightarrow> bool" where
  "same_nears s s' = (near_value s' = near_value s \<and> interned_string_near s' = interned_string_near s \<and>
     current_thread s' = current_thread s)"

lemma free_near_same: "same_nears s s' \<Longrightarrow> free_near s' = free_near s"
  by (rule ext) (simp add: free_near_def same_nears_def split: near_pointer.split)

lemma waits_for_frame:
  assumes "waits_for s obj w" "same_wait (threads (sched s) w) (threads (sched s') w)"
    "\<And>k. wait_stack_lock (threads (sched s) w) = Some k \<Longrightarrow> sl_owner (stack_locks s' k) = None"
  shows "waits_for s' obj w"
  using assms by (auto simp: waits_for_def same_wait_def split: option.splits)

lemma has_monitor_frame:
  assumes "has_monitor s obj (l, t, ws)" "object_near s' obj = object_near s obj" "stack_locks s' l = stack_locks s l"
    "same_nears s s'" "\<And>w. w \<in> set ws \<Longrightarrow> same_wait (threads (sched s) w) (threads (sched s') w)"
    "\<And>w k. w \<in> set ws \<Longrightarrow> wait_stack_lock (threads (sched s) w) = Some k \<Longrightarrow> sl_owner (stack_locks s' k) = None"
  shows "has_monitor s' obj (l, t, ws)"
proof -
  have "chain (\<lambda>w. next_waiting (threads (sched s') w)) (head_of ws) ws =
      chain (\<lambda>w. next_waiting (threads (sched s) w)) (head_of ws) ws"
    by (rule chain_cong) (use assms(5) in \<open>simp add: same_wait_def\<close>)
  moreover have "list_all (waits_for s' obj) ws"
    using assms(1,5,6) by (auto simp: has_monitor_def list_all_iff intro: waits_for_frame)
  ultimately show ?thesis
    using assms(1-3) by (simp add: has_monitor_def free_near_same [OF assms(4)] cong: option.case_cong)
qed

section \<open>What the monitors say\<close>

lemma monitors_okD:
  assumes "monitors_ok s M qs"
  shows "ready_queues (sched s) qs" "queues_sorted (sched s) qs" "M obj = Some m \<Longrightarrow> has_monitor s obj m"
    "M obj = None \<Longrightarrow> free_near s (object_near s obj) \<or> object_near s obj = Real_near (interned_string_near s)"
    "w \<in> waiting_threads M \<Longrightarrow> w \<notin> set (qs p)"
    "inj_on (\<lambda>w. wait_stack_lock (threads (sched s) w)) (waiting_threads M)"
proof -
  have "case M obj of None \<Rightarrow> free_near s (object_near s obj) \<or> object_near s obj = Real_near (interned_string_near s)
             | Some m \<Rightarrow> has_monitor s obj m"
    using assms by (simp add: monitors_ok_def)
  then show "M obj = Some m \<Longrightarrow> has_monitor s obj m"
    "M obj = None \<Longrightarrow> free_near s (object_near s obj) \<or> object_near s obj = Real_near (interned_string_near s)"
    by simp_all
qed (use assms in \<open>auto simp: monitors_ok_def\<close>)

lemma monitors_okI:
  assumes "ready_queues (sched s) qs" "queues_sorted (sched s) qs" "\<And>obj m. M obj = Some m \<Longrightarrow> has_monitor s obj m"
    "\<And>obj. M obj = None \<Longrightarrow> free_near s (object_near s obj) \<or> object_near s obj = Real_near (interned_string_near s)"
    "\<And>w p. w \<in> waiting_threads M \<Longrightarrow> w \<notin> set (qs p)"
    "inj_on (\<lambda>w. wait_stack_lock (threads (sched s) w)) (waiting_threads M)"
  shows "monitors_ok s M qs"
  unfolding monitors_ok_def using assms by (auto split: option.split)

lemma waiting_threads_upd:
  "waiting_threads (M(obj := Some (l, t, ws))) = waiting_threads (M(obj := None)) \<union> set ws"
proof (intro set_eqI iffI)
  fix w
  assume "w \<in> waiting_threads (M(obj := Some (l, t, ws)))"
  then obtain o' l' t' ws' where o': "(M(obj := Some (l, t, ws))) o' = Some (l', t', ws')" "w \<in> set ws'"
    by (auto simp only: waiting_threads_def mem_Collect_eq)
  show "w \<in> waiting_threads (M(obj := None)) \<union> set ws"
  proof (cases "o' = obj")
    case False
    then have "(M(obj := None)) o' = Some (l', t', ws')" using o'(1) by simp
    then show ?thesis using o'(2) unfolding waiting_threads_def by blast
  qed (use o' in simp)
next
  fix w
  assume w: "w \<in> waiting_threads (M(obj := None)) \<union> set ws"
  show "w \<in> waiting_threads (M(obj := Some (l, t, ws)))"
  proof (cases "w \<in> set ws")
    case False
    with w obtain o' l' t' ws' where "(M(obj := None)) o' = Some (l', t', ws')" "w \<in> set ws'"
      by (auto simp only: waiting_threads_def mem_Collect_eq)
    moreover from this have "(M(obj := Some (l, t, ws))) o' = Some (l', t', ws')" by (simp split: if_splits)
    ultimately show ?thesis unfolding waiting_threads_def by blast
  next
    case True
    moreover have "(M(obj := Some (l, t, ws))) obj = Some (l, t, ws)" by simp
    ultimately show ?thesis unfolding waiting_threads_def by blast
  qed
qed

lemma waiting_threads_Some: "M obj = Some (l, t, ws) \<Longrightarrow> waiting_threads M = waiting_threads (M(obj := None)) \<union> set ws"
  using waiting_threads_upd [of M obj l t ws] by (simp add: fun_upd_idem)

lemma waiting_threads_None: "M obj = None \<Longrightarrow> waiting_threads (M(obj := None)) = waiting_threads M"
  by (simp add: fun_upd_idem)

lemma waiting_threadsI: "M obj = Some (l, t, ws) \<Longrightarrow> w \<in> set ws \<Longrightarrow> w \<in> waiting_threads M"
  by (auto simp: waiting_threads_def)

lemma waiting_obj:
  assumes "monitors_ok s M qs" "M obj = Some (l, t, ws)" "w \<in> set ws"
  shows "wait_obj (threads (sched s) w) = Some obj"
    "\<exists>k. wait_stack_lock (threads (sched s) w) = Some k \<and> sl_owner (stack_locks s k) = None"
    "valid_priority (t_priority (threads (sched s) w))"
proof -
  have "waits_for s obj w" using monitors_okD(3) [OF assms(1,2)] assms(3) by (auto simp: has_monitor_def list_all_iff)
  then show "wait_obj (threads (sched s) w) = Some obj"
    "\<exists>k. wait_stack_lock (threads (sched s) w) = Some k \<and> sl_owner (stack_locks s k) = None"
    "valid_priority (t_priority (threads (sched s) w))"
    by (auto simp: waits_for_def split: option.splits)
qed

lemma waiting_once:
  assumes "monitors_ok s M qs" "M obj = Some (l, t, ws)" "M obj' = Some (l', t', ws')" "obj' \<noteq> obj"
  shows "set ws \<inter> set ws' = {}" "l' \<noteq> l"
proof -
  show "set ws \<inter> set ws' = {}"
    using waiting_obj(1) [OF assms(1,2)] waiting_obj(1) [OF assms(1,3)] assms(4) by fastforce
  show "l' \<noteq> l" using monitors_okD(3) [OF assms(1,2)] monitors_okD(3) [OF assms(1,3)] assms(4)
    by (auto simp: has_monitor_def)
qed

lemma waiting_lock:
  assumes "monitors_ok s M qs" "w \<in> waiting_threads M" "wait_stack_lock (threads (sched s) w) = Some k"
  shows "sl_owner (stack_locks s k) = None"
proof -
  obtain o' l t ws where "M o' = Some (l, t, ws)" "w \<in> set ws" using assms(2) by (auto simp: waiting_threads_def)
  then show ?thesis using waiting_obj(2) [OF assms(1)] assms(3) by fastforce
qed

text \<open>A slot that no monitor uses.\<close>

definition unused_lock :: "monitors \<Rightarrow> (nat \<Rightarrow> monitor option) \<Rightarrow> nat \<Rightarrow> bool" where
  "unused_lock s M l = (sl_owner (stack_locks s l) = None \<and>
     (\<forall>w \<in> waiting_threads M. wait_stack_lock (threads (sched s) w) \<noteq> Some l))"

lemma has_monitor_other:
  assumes "monitors_ok s M qs" "M obj' = Some m" "object_near s' obj' = object_near s obj'" "same_nears s s'"
    "\<And>k. sl_owner (stack_locks s k) = Some obj' \<Longrightarrow> stack_locks s' k = stack_locks s k"
    "\<And>w. wait_obj (threads (sched s) w) = Some obj' \<Longrightarrow> w \<in> waiting_threads M \<Longrightarrow>
        same_wait (threads (sched s) w) (threads (sched s') w)"
    "\<And>w k. w \<in> waiting_threads M \<Longrightarrow> wait_obj (threads (sched s) w) = Some obj' \<Longrightarrow>
        wait_stack_lock (threads (sched s) w) = Some k \<Longrightarrow> sl_owner (stack_locks s' k) = None"
  shows "has_monitor s' obj' m"
proof -
  obtain l t ws where m: "m = (l, t, ws)" by (cases m) auto
  note H = monitors_okD(3) [OF assms(1,2)]
  have W: "w \<in> waiting_threads M" "wait_obj (threads (sched s) w) = Some obj'" if "w \<in> set ws" for w
    using waiting_threadsI [OF _ that] waiting_obj(1) [OF assms(1) _ that] assms(2) m by blast+
  have "sl_owner (stack_locks s l) = Some obj'" using H by (simp add: m has_monitor_def)
  then show ?thesis
    unfolding m using W assms(6,7)
    by (intro has_monitor_frame [OF H [unfolded m] assms(3) assms(5) assms(4)]) blast+
qed

section \<open>A free object\<close>

lemma lock_object_free:
  assumes "monitors_ok s M qs" "M obj = None" "object_near s obj \<noteq> Real_near (interned_string_near s)" "unused_lock s M l"
  shows "\<exists>s'. lock_object obj l s = Inr (True, s') \<and> monitors_ok s' (M(obj := Some (l, current_thread s, []))) qs \<and>
    same_nears s s' \<and> sched s' = sched s \<and> (\<forall>k. k \<noteq> l \<longrightarrow> stack_locks s' k = stack_locks s k)"
proof -
  obtain r where r: "object_near s obj = Real_near r" "near_value s r AND 3 = 0" "r \<noteq> interned_string_near s"
    using monitors_okD(4) [OF assms(1,2)] assms(3) by (auto simp: free_near_def split: near_pointer.splits)
  define x where "x = \<lparr>sl_thread = Some (current_thread s), real_java_near = Some (Real_near r),
      sl_waiters = None, copied_near = near_value s r OR 1, sl_owner = Some obj\<rparr>"
  have "near_value s r AND 1 = 0" using r(2) and_3_1 [of "near_value s r"] by simp
  then have "\<exists>s'. lock_object obj l s = Inr (True, s') \<and> object_near s' = (object_near s)(obj := Stack_near l) \<and>
      stack_locks s' = (stack_locks s)(l := x) \<and> sched s' = sched s \<and> same_nears s s'"
    using r by (cases "stack_locks s l") (simp add: lock_object_def Let_def raw_value_def same_nears_def x_def)
  then obtain s' where s': "lock_object obj l s = Inr (True, s')" "object_near s' = (object_near s)(obj := Stack_near l)"
    "stack_locks s' = (stack_locks s)(l := x)" "sched s' = sched s" "same_nears s s'" by blast
  have l: "sl_owner (stack_locks s l) = None" "\<And>w. w \<in> waiting_threads M \<Longrightarrow> wait_stack_lock (threads (sched s) w) \<noteq> Some l"
    using assms(4) by (auto simp: unused_lock_def)
  have new: "has_monitor s' obj (l, current_thread s, [])"
    using r(2,3) by (simp add: has_monitor_def s'(2-4) x_def or_1_and_3 free_near_same [OF s'(5)] free_near_def)
  have W: "waiting_threads (M(obj := Some (l, current_thread s, []))) = waiting_threads M"
    using assms(2) by (simp add: waiting_threads_upd waiting_threads_None)
  have other: "has_monitor s' obj' m" if "M obj' = Some m" "obj' \<noteq> obj" for obj' m
  proof (rule has_monitor_other [OF assms(1) that(1) _ s'(5)])
    fix w k
    assume "w \<in> waiting_threads M" "wait_stack_lock (threads (sched s) w) = Some k"
    then show "sl_owner (stack_locks s' k) = None" using waiting_lock [OF assms(1)] l(2) by (fastforce simp: s'(3))
  qed (use that(2) l s'(2-4) in auto)
  have "monitors_ok s' (M(obj := Some (l, current_thread s, []))) qs"
  proof (rule monitors_okI, unfold W s'(4))
    show "has_monitor s' obj' m" if "(M(obj := Some (l, current_thread s, []))) obj' = Some m" for obj' m
      using that new other by (auto split: if_splits)
    show "free_near s' (object_near s' obj') \<or> object_near s' obj' = Real_near (interned_string_near s')"
      if "(M(obj := Some (l, current_thread s, []))) obj' = None" for obj'
      using monitors_okD(4) [OF assms(1), of obj'] that s'(2,5) free_near_same [OF s'(5)]
      by (auto simp: same_nears_def split: if_splits)
  qed (use monitors_okD [OF assms(1)] in auto)
  then show ?thesis using s' by auto
qed

section \<open>A locked object\<close>

lemma monitor_raw_value:
  assumes "has_monitor s obj (l, t, ws)"
  shows "raw_value s (object_near s obj) AND 1 \<noteq> 0" "is_locked s obj"
    "copied_near (stack_locks s l) AND 2 = 0 \<longleftrightarrow> ws = []"
proof -
  have v: "copied_near (stack_locks s l) AND 3 = (if ws = [] then 1 else 3)" "object_near s obj = Stack_near l"
    using assms by (auto simp: has_monitor_def)
  show "raw_value s (object_near s obj) AND 1 \<noteq> 0" "is_locked s obj"
    using v and_3_1 [of "copied_near (stack_locks s l)"] by (auto simp: raw_value_def is_locked_def)
  show "copied_near (stack_locks s l) AND 2 = 0 \<longleftrightarrow> ws = []"
    using v and_3_2 [of "copied_near (stack_locks s l)"] by auto
qed

lemma lock_object_again:
  assumes "monitors_ok s M qs" "M obj = Some (l0, current_thread s, ws)" "unused_lock s M l"
  shows "\<exists>s'. lock_object obj l s = Inr (True, s') \<and> monitors_ok s' M qs \<and> same_nears s s' \<and> sched s' = sched s \<and>
    stack_locks s' = (stack_locks s)(l := (stack_locks s l)\<lparr>sl_owner := Some obj, real_java_near := None\<rparr>)"
proof -
  note H = monitors_okD(3) [OF assms(1,2)]
  have h: "object_near s obj = Stack_near l0" "sl_thread (stack_locks s l0) = Some (current_thread s)" "l \<noteq> l0"
    using H assms(3) by (auto simp: has_monitor_def unused_lock_def)
  define s' where "s' = upd_lock l (\<lambda>x. x\<lparr>real_java_near := None\<rparr>) (upd_lock l (\<lambda>x. x\<lparr>sl_owner := Some obj\<rparr>) s)"
  have "lock_object obj l s = Inr (True, s')"
    using monitor_raw_value(1) [OF H] h by (simp add: lock_object_def Let_def raw_value_def from_java_oop_def s'_def)
  moreover have same: "same_nears s s'" by (simp add: same_nears_def s'_def)
  moreover have "monitors_ok s' M qs"
  proof -
    have "has_monitor s' o' m" if "M o' = Some m" for o' m
    proof (rule has_monitor_other [OF assms(1) that _ same])
      fix w k
      assume "w \<in> waiting_threads M" "wait_stack_lock (threads (sched s) w) = Some k"
      then show "sl_owner (stack_locks s' k) = None"
        using waiting_lock [OF assms(1)] assms(3) by (fastforce simp: s'_def unused_lock_def)
    qed (use assms(3) in \<open>auto simp: s'_def unused_lock_def\<close>)
    then show ?thesis
      using monitors_okD [OF assms(1)] free_near_same [OF same] by (intro monitors_okI) (auto simp: s'_def)
  qed
  ultimately show ?thesis by (auto simp: s'_def)
qed

lemma add_sync_thread_result:
  assumes "remove_from_active thread (sched s) = Inr sc" "t_next (threads sc thread) = None"
    "chain (\<lambda>w. next_waiting (threads sc w)) (head_of ws) ws" "thread \<notin> set ws"
  shows "add_sync_thread thread (head_of ws) obj s = Inr (hd (ws @ [thread]), s\<lparr>sched := sc\<lparr>threads := (\<lambda>u.
      if u = thread then (threads sc u)\<lparr>next_waiting := None, wait_obj := Some obj\<rparr>
      else if ws \<noteq> [] \<and> u = last ws then (threads sc u)\<lparr>next_waiting := Some thread\<rparr>
      else threads sc u)\<rparr>\<rparr>)"
proof (cases ws)
  case Nil
  have "(threads sc thread)\<lparr>t_next := None, next_waiting := None, wait_obj := Some obj\<rparr> =
      (threads sc thread)\<lparr>next_waiting := None, wait_obj := Some obj\<rparr>"
    using assms(2) by (cases "threads sc thread") simp
  then show ?thesis
    by (simp add: add_sync_thread_def assms(1) Let_def Nil upd_thread_def fun_eq_iff)
next
  case (Cons h us)
  have tail: "sync_tail (threads sc) h = Some (last ws)"
    using assms(3) by (intro sync_tail_chain) (simp add: Cons)
  have "last ws \<noteq> thread" using assms(4) Cons last_in_set [of ws] by auto
  then show ?thesis
    using tail by (simp add: add_sync_thread_def assms(1) Let_def Cons upd_thread_def fun_eq_iff)
qed

text \<open>The effect of blocking on the store.\<close>

lemma blocked_effect:
  assumes "monitors_ok s M qs" "M obj = Some (l0, t0, ws)" "\<And>x. sl_owner (f x) = Some obj" "unused_lock s M l"
    "T \<in> set (qs (t_priority (threads (sched s) T)))"
  defines "P \<equiv> t_priority (threads (sched s) T)"
  shows "\<exists>s'. synchronizer_enter T l (upd_lock l f s) = Inr (False, s') \<and> same_nears s s' \<and> object_near s' = object_near s \<and>
    stack_locks s' = (stack_locks s)(l := (f (stack_locks s l))\<lparr>sl_owner := None\<rparr>,
      l0 := (stack_locks s l0)\<lparr>copied_near := set_lock 3 (copied_near (stack_locks s l0)), sl_waiters := head_of (ws @ [T])\<rparr>) \<and>
    ready_queues (sched s') (qs(P := remove1 T (qs P))) \<and>
    (\<forall>u. t_priority (threads (sched s') u) = t_priority (threads (sched s) u)) \<and>
    (\<forall>u. u \<noteq> T \<longrightarrow> u \<notin> set ws \<longrightarrow> same_wait (threads (sched s) u) (threads (sched s') u)) \<and>
    (\<forall>u. u \<noteq> T \<longrightarrow> wait_obj (threads (sched s') u) = wait_obj (threads (sched s) u) \<and>
       wait_stack_lock (threads (sched s') u) = wait_stack_lock (threads (sched s) u) \<and>
       next_waiting (threads (sched s') u) =
         (if ws \<noteq> [] \<and> u = last ws then Some T else next_waiting (threads (sched s) u))) \<and>
    wait_obj (threads (sched s') T) = Some obj \<and> wait_stack_lock (threads (sched s') T) = Some l \<and>
    next_waiting (threads (sched s') T) = None"
proof -
  note H = monitors_okD(3) [OF assms(1,2)]
  have h: "object_near s obj = Stack_near l0" "l \<noteq> l0"
    "sl_waiters (stack_locks s l0) = head_of ws" "chain (\<lambda>w. next_waiting (threads (sched s) w)) (head_of ws) ws"
    using H assms(4) by (auto simp: has_monitor_def unused_lock_def)
  have raw: "copied_near (stack_locks s l0) AND 1 \<noteq> 0" "copied_near (stack_locks s l0) AND 3 \<noteq> 0"
    using monitor_raw_value(1,2) [OF H] h(1) by (auto simp: raw_value_def is_locked_def)
  have T: "T \<notin> set ws" using monitors_okD(5) [OF assms(1)] waiting_threadsI [of M obj, OF assms(2)] assms(5) by auto
  define s2 where "s2 = upd_lock l f s"
  define s4 where "s4 = upd_lock l (\<lambda>x. x\<lparr>sl_owner := None\<rparr>) (upd_thread T (\<lambda>x. x\<lparr>wait_stack_lock := Some l\<rparr>) s2)"
  have sched4: "sched s4 = (sched s)\<lparr>threads := (threads (sched s))(T := (threads (sched s) T)\<lparr>wait_stack_lock := Some l\<rparr>)\<rparr>"
    by (simp add: s4_def s2_def upd_thread_def upd_lock_def)
  have ready4: "ready_queues (sched s4) qs"
    unfolding sched4 using monitors_okD(1) [OF assms(1)] by (subst ready_queues_same_links) simp_all
  have P4: "t_priority (threads (sched s4) T) = P" by (simp add: sched4 P_def)
  from remove_from_active_queues [OF ready4, of T] assms(5) obtain sc where sc:
    "remove_from_active T (sched s4) = Inr sc" "ready_queues sc (qs(P := remove1 T (qs P)))" "t_next (threads sc T) = None"
    "links_only (set (qs P)) (threads (sched s4)) (threads sc)"
    unfolding P4 by (auto simp: P_def)
  note same4 = links_only_same_wait [OF sc(4), unfolded same_wait_def]
  have chain4: "chain (\<lambda>w. next_waiting (threads sc w)) (head_of ws) ws"
    using h(4) same4 by (subst chain_cong [where g = "\<lambda>w. next_waiting (threads (sched s) w)"]) (auto simp: sched4)
  define th where "th = (\<lambda>u. if u = T then (threads sc u)\<lparr>next_waiting := None, wait_obj := Some obj\<rparr>
      else if ws \<noteq> [] \<and> u = last ws then (threads sc u)\<lparr>next_waiting := Some T\<rparr> else threads sc u)"
  define s' where "s' = upd_thread T (\<lambda>x. x\<lparr>wakeup_time := 0\<rparr>)
      (set_waiters l0 (hd (ws @ [T])) (s4\<lparr>sched := sc\<lparr>threads := th\<rparr>\<rparr>))"
  have sync: "add_sync_thread T (head_of ws) obj s4 = Inr (hd (ws @ [T]), s4\<lparr>sched := sc\<lparr>threads := th\<rparr>\<rparr>)"
    using add_sync_thread_result [OF sc(1,3) chain4 T, of obj] by (simp add: th_def)
  have run: "synchronizer_enter T l (upd_lock l f s) = Inr (False, s')"
    unfolding s2_def [symmetric]
    using h(1-3) not_sym [OF h(2)] raw(2) sync assms(3)
    by (simp add: synchronizer_enter_def Let_def s4_def [symmetric] is_locked_def raw_value_def from_java_oop_def s'_def)
      (simp add: s2_def s4_def h not_sym [OF h(2)] is_locked_def assms(3) is_locked_def raw_value_def from_java_oop_def)
  have th': "threads (sched s') = th(T := (th T)\<lparr>wakeup_time := 0\<rparr>)" by (simp add: s'_def)
  have sc': "sched s' = sc\<lparr>threads := threads (sched s')\<rparr>"
    by (simp add: s'_def upd_thread_def)
  have "t_next (threads (sched s') u) = t_next (threads sc u)" "t_previous (threads (sched s') u) = t_previous (threads sc u)" for u
    by (simp_all add: th' th_def)
  then have ready: "ready_queues (sched s') (qs(P := remove1 T (qs P)))"
    using ready_queues_same_links [of "threads (sched s')" sc] sc(2) sc' by metis
  have locks: "stack_locks s' = (stack_locks s)(l := (f (stack_locks s l))\<lparr>sl_owner := None\<rparr>,
      l0 := (stack_locks s l0)\<lparr>copied_near := set_lock 3 (copied_near (stack_locks s l0)), sl_waiters := head_of (ws @ [T])\<rparr>)"
    using not_sym [OF h(2)] by (simp add: s'_def set_waiters_def s4_def s2_def head_of_def)
  have nears: "same_nears s s'" "object_near s' = object_near s"
    by (simp_all add: same_nears_def s'_def set_waiters_def s4_def s2_def)
  have fields: "t_priority (threads (sched s') u) = t_priority (threads (sched s) u)"
    "u \<noteq> T \<Longrightarrow> wait_obj (threads (sched s') u) = wait_obj (threads (sched s) u)"
    "u \<noteq> T \<Longrightarrow> wait_stack_lock (threads (sched s') u) = wait_stack_lock (threads (sched s) u)"
    "u \<noteq> T \<Longrightarrow> next_waiting (threads (sched s') u) =
         (if ws \<noteq> [] \<and> u = last ws then Some T else next_waiting (threads (sched s) u))"
    "wait_obj (threads (sched s') T) = Some obj" "wait_stack_lock (threads (sched s') T) = Some l"
    "next_waiting (threads (sched s') T) = None" for u
    using same4 [of u] same4 [of T] by (auto simp: th' th_def sched4)
  have "same_wait (threads (sched s) u) (threads (sched s') u)" if "u \<noteq> T" "u \<notin> set ws" for u
    using fields(1-4) [of u] that by (auto simp: same_wait_def)
  then show ?thesis using run nears locks ready fields by blast
qed

lemma queues_sorted_sub:
  assumes "queues_sorted sc qs" "\<And>u. t_priority (threads sc' u) = t_priority (threads sc u)" "\<And>p. set (qs' p) \<subseteq> set (qs p)"
  shows "queues_sorted sc' qs'"
  using assms unfolding queues_sorted_def by (metis subsetD)

lemma synchronizer_enter_blocked:
  assumes "monitors_ok s M qs" "M obj = Some (l0, t0, ws)" "\<And>x. sl_owner (f x) = Some obj" "unused_lock s M l"
    "T \<in> set (qs (t_priority (threads (sched s) T)))" "t0 \<noteq> T"
  defines "P \<equiv> t_priority (threads (sched s) T)"
  shows "\<exists>s'. synchronizer_enter T l (upd_lock l f s) = Inr (False, s') \<and> same_nears s s' \<and>
    monitors_ok s' (M(obj := Some (l0, t0, ws @ [T]))) (qs(P := remove1 T (qs P))) \<and>
    wait_stack_lock (threads (sched s') T) = Some l \<and> wait_obj (threads (sched s') T) = Some obj \<and>
    (\<forall>u. u \<noteq> T \<longrightarrow> wait_obj (threads (sched s') u) = wait_obj (threads (sched s) u) \<and>
       wait_stack_lock (threads (sched s') u) = wait_stack_lock (threads (sched s) u)) \<and>
    (\<forall>u. t_priority (threads (sched s') u) = t_priority (threads (sched s) u)) \<and>
    (\<forall>k. sl_owner (stack_locks s' k) = sl_owner (stack_locks s k))"
proof -
  note H = monitors_okD(3) [OF assms(1,2)]
  have T: "T \<notin> waiting_threads M" using monitors_okD(5) [OF assms(1)] assms(5) by auto
  from blocked_effect [where f = f, OF assms(1-5)] obtain s' where run: "synchronizer_enter T l (upd_lock l f s) = Inr (False, s')"
    and same: "same_nears s s'" "object_near s' = object_near s"
    and locks: "stack_locks s' = (stack_locks s)(l := (f (stack_locks s l))\<lparr>sl_owner := None\<rparr>,
      l0 := (stack_locks s l0)\<lparr>copied_near := set_lock 3 (copied_near (stack_locks s l0)), sl_waiters := head_of (ws @ [T])\<rparr>)"
    and ready: "ready_queues (sched s') (qs(P := remove1 T (qs P)))"
    and prio: "\<And>u. t_priority (threads (sched s') u) = t_priority (threads (sched s) u)"
    and wait: "\<And>u. u \<noteq> T \<Longrightarrow> u \<notin> set ws \<Longrightarrow> same_wait (threads (sched s) u) (threads (sched s') u)"
    "\<And>u. u \<noteq> T \<Longrightarrow> wait_obj (threads (sched s') u) = wait_obj (threads (sched s) u)"
    "\<And>u. u \<noteq> T \<Longrightarrow> wait_stack_lock (threads (sched s') u) = wait_stack_lock (threads (sched s) u)"
    "\<And>u. u \<noteq> T \<Longrightarrow> next_waiting (threads (sched s') u) =
         (if ws \<noteq> [] \<and> u = last ws then Some T else next_waiting (threads (sched s) u))"
    and me: "wait_obj (threads (sched s') T) = Some obj" "wait_stack_lock (threads (sched s') T) = Some l"
    "next_waiting (threads (sched s') T) = None"
    unfolding P_def by blast
  have l: "l \<noteq> l0" "sl_owner (stack_locks s l) = None" using H assms(4) by (auto simp: has_monitor_def unused_lock_def)
  have W: "waiting_threads (M(obj := Some (l0, t0, ws @ [T]))) = insert T (waiting_threads M)"
    using waiting_threads_Some [of M obj, OF assms(2)] by (simp add: waiting_threads_upd)
  have free: "sl_owner (stack_locks s' k) = None"
    if "w \<in> insert T (waiting_threads M)" "wait_stack_lock (threads (sched s') w) = Some k" for w k
  proof (cases "w = T")
    case True
    then show ?thesis using that me l by (simp add: locks)
  next
    case False
    then have "sl_owner (stack_locks s k) = None" using waiting_lock [OF assms(1)] wait(3) that by auto
    then show ?thesis using H l by (auto simp: locks has_monitor_def)
  qed
  have ws: "distinct ws" "T \<notin> set ws" "set ws \<subseteq> waiting_threads M"
    using H T waiting_threadsI [of M obj, OF assms(2)] by (auto simp: has_monitor_def)
  have other: "has_monitor s' o' m" if "M o' = Some m" "o' \<noteq> obj" for o' m
  proof (rule has_monitor_other [OF assms(1) that(1) _ same(1)])
    show "object_near s' o' = object_near s o'" by (simp add: same)
    show "stack_locks s' k = stack_locks s k" if "sl_owner (stack_locks s k) = Some o'" for k
      using that \<open>o' \<noteq> obj\<close> l H by (auto simp: locks has_monitor_def)
    fix w
    assume w: "wait_obj (threads (sched s) w) = Some o'" "w \<in> waiting_threads M"
    then have "w \<noteq> T" "w \<notin> set ws" using T waiting_obj(1) [OF assms(1,2)] \<open>o' \<noteq> obj\<close> by auto
    then show "same_wait (threads (sched s) w) (threads (sched s') w)" by (rule wait(1))
    show "sl_owner (stack_locks s' k) = None" if "wait_stack_lock (threads (sched s) w) = Some k" for k
      using free [of w k] w that wait(3) [OF \<open>w \<noteq> T\<close>] by simp
  qed
  have new: "has_monitor s' obj (l0, t0, ws @ [T])"
  proof -
    have "chain (\<lambda>w. next_waiting (threads (sched s') w)) (if ws = [] then Some T else head_of ws) (ws @ [T])"
      by (rule chain_snoc [where f = "\<lambda>w. next_waiting (threads (sched s) w)"])
        (use H ws me wait(4) in \<open>auto simp: has_monitor_def\<close>)
    moreover have "waits_for s' obj w" if "w \<in> set (ws @ [T])" for w
    proof -
      have "valid_priority (t_priority (threads (sched s) w)) \<and> wait_obj (threads (sched s') w) = Some obj \<and>
        w \<in> insert T (waiting_threads M) \<and> (\<exists>k. wait_stack_lock (threads (sched s') w) = Some k)"
      proof (cases "w = T")
        case True
        then show ?thesis using me ready_queues_valid [OF monitors_okD(1) [OF assms(1)] assms(5)] by simp
      next
        case False
        then have "w \<in> set ws" using that by simp
        then show ?thesis using waiting_obj [OF assms(1,2), of w] ws(3) wait(2,3) [OF False] by auto
      qed
      then show ?thesis using free [of w] prio [of w] by (auto simp: waits_for_def)
    qed
    ultimately show ?thesis
      using H l ws assms(6) same by (cases ws)
        (auto simp: has_monitor_def locks set_lock_and_3 free_near_same list_all_iff cong: option.case_cong)
  qed
  have "monitors_ok s' (M(obj := Some (l0, t0, ws @ [T]))) (qs(P := remove1 T (qs P)))"
  proof (rule monitors_okI, unfold W)
    show "queues_sorted (sched s') (qs(P := remove1 T (qs P)))"
      by (rule queues_sorted_sub [OF monitors_okD(2) [OF assms(1)] prio])
        (use set_remove1_subset [of T "qs P"] in auto)
    show "has_monitor s' o' m" if "(M(obj := Some (l0, t0, ws @ [T]))) o' = Some m" for o' m
      using that new other by (auto split: if_splits)
    show "free_near s' (object_near s' o') \<or> object_near s' o' = Real_near (interned_string_near s')"
      if "(M(obj := Some (l0, t0, ws @ [T]))) o' = None" for o'
      using monitors_okD(4) [OF assms(1), of o'] that same free_near_same [OF same(1)]
      by (auto simp: same_nears_def split: if_splits)
    show "w \<notin> set ((qs(P := remove1 T (qs P))) p)" if "w \<in> insert T (waiting_threads M)" for w p
      using that ready_queues_removed [OF monitors_okD(1) [OF assms(1)] assms(5), of p]
        monitors_okD(5) [OF assms(1), of w] notin_set_remove1 [of w "qs P" T]
      by (auto simp: P_def split: if_splits)
    have kept: "wait_stack_lock (threads (sched s') u) = wait_stack_lock (threads (sched s) u)" if "u \<in> waiting_threads M" for u
      by (rule wait(3)) (use that T in blast)
    then have "inj_on (\<lambda>w. wait_stack_lock (threads (sched s') w)) (waiting_threads M)"
      using monitors_okD(6) [OF assms(1)] inj_on_cong
        [of "waiting_threads M" "\<lambda>w. wait_stack_lock (threads (sched s') w)" "\<lambda>w. wait_stack_lock (threads (sched s) w)"] by blast
    moreover have "wait_stack_lock (threads (sched s') w) \<noteq> Some l" if "w \<in> waiting_threads M" for w
      using assms(4) kept [OF that] that by (auto simp: unused_lock_def)
    ultimately show "inj_on (\<lambda>w. wait_stack_lock (threads (sched s') w)) (insert T (waiting_threads M))"
      using me(2) T unfolding inj_on_insert by fastforce
  qed (rule ready)
  moreover have "sl_owner (stack_locks s' k) = sl_owner (stack_locks s k)" for k
    using l by (simp add: locks)
  ultimately show ?thesis using run same me wait(2,3) prio by blast
qed

lemma upd_lock_twice: "upd_lock l g (upd_lock l f s) = upd_lock l (\<lambda>x. g (f x)) s"
  by (simp add: upd_lock_def)

lemma lock_object_blocked:
  assumes "monitors_ok s M qs" "M obj = Some (l0, t0, ws)" "t0 \<noteq> current_thread s" "unused_lock s M l"
    "current_thread s \<in> set (qs (t_priority (threads (sched s) (current_thread s))))"
  defines "T \<equiv> current_thread s" and "P \<equiv> t_priority (threads (sched s) (current_thread s))"
  shows "\<exists>s'. lock_object obj l s = Inr (False, s') \<and> same_nears s s' \<and>
    monitors_ok s' (M(obj := Some (l0, t0, ws @ [T]))) (qs(P := remove1 T (qs P))) \<and>
    wait_stack_lock (threads (sched s') T) = Some l \<and>
    (\<forall>k. sl_owner (stack_locks s' k) = sl_owner (stack_locks s k))"
proof -
  note H = monitors_okD(3) [OF assms(1,2)]
  have h: "object_near s obj = Stack_near l0" "sl_thread (stack_locks s l0) \<noteq> Some T" "l \<noteq> l0"
    using H assms(3,4) by (auto simp: has_monitor_def unused_lock_def T_def)
  have raw: "copied_near (stack_locks s l0) AND 1 \<noteq> 0"
    using monitor_raw_value(1) [OF H] h(1) by (simp add: raw_value_def)
  have "lock_object obj l s = synchronizer_enter T l (upd_lock l (\<lambda>x. x\<lparr>sl_owner := Some obj, real_java_near := None\<rparr>) s)"
    using h raw by (simp add: lock_object_def Let_def raw_value_def from_java_oop_def T_def upd_lock_twice)
  moreover have "sl_owner (x\<lparr>sl_owner := Some obj, real_java_near := None\<rparr>) = Some obj" for x :: stack_lock by simp
  ultimately show ?thesis
    using synchronizer_enter_blocked [where f = "\<lambda>x. x\<lparr>sl_owner := Some obj, real_java_near := None\<rparr>",
      OF assms(1,2) _ assms(4,5,3)] unfolding T_def P_def by auto
qed



section \<open>Leaving\<close>

lemma unlock_object_free:
  assumes "monitors_ok s M qs" "M obj = Some (l, t, [])"
  shows "\<exists>s'. unlock_object obj l s = Inr s' \<and> monitors_ok s' (M(obj := None)) qs \<and> same_nears s s' \<and> sched s' = sched s \<and>
    object_near s' obj = the (real_java_near (stack_locks s l)) \<and>
    stack_locks s' = (stack_locks s)(l := (stack_locks s l)\<lparr>sl_owner := None\<rparr>)"
proof -
  note H = monitors_okD(3) [OF assms]
  obtain n where n: "real_java_near (stack_locks s l) = Some n" "free_near s n" "object_near s obj = Stack_near l"
    "sl_owner (stack_locks s l) = Some obj"
    using H by (auto simp: has_monitor_def split: option.splits)
  define s' where "s' = set_near obj n (upd_lock l (\<lambda>x. x\<lparr>sl_owner := None\<rparr>) s)"
  have run: "unlock_object obj l s = Inr s'"
    using n monitor_raw_value(3) [OF H] by (simp add: unlock_object_def Let_def s'_def)
  have same: "same_nears s s'" "sched s' = sched s" by (simp_all add: s'_def same_nears_def)
  have W: "waiting_threads (M(obj := None)) = waiting_threads M"
    using waiting_threads_Some [of M obj, OF assms(2)] by simp
  have other: "has_monitor s' o' m" if "M o' = Some m" "o' \<noteq> obj" for o' m
  proof (rule has_monitor_other [OF assms(1) that(1) _ same(1)])
    fix w k
    assume "w \<in> waiting_threads M" "wait_stack_lock (threads (sched s) w) = Some k"
    then show "sl_owner (stack_locks s' k) = None" using waiting_lock [OF assms(1)] by (fastforce simp: s'_def)
  qed (use that(2) n in \<open>auto simp: s'_def\<close>)
  have "monitors_ok s' (M(obj := None)) qs"
  proof (rule monitors_okI, unfold W same(2))
    show "has_monitor s' o' m" if "(M(obj := None)) o' = Some m" for o' m
      using that other by (auto split: if_splits)
    show "free_near s' (object_near s' o') \<or> object_near s' o' = Real_near (interned_string_near s')"
      if "(M(obj := None)) o' = None" for o'
      using monitors_okD(4) [OF assms(1), of o'] that n(2) free_near_same [OF same(1)]
      by (auto simp: s'_def split: if_splits)
  qed (use monitors_okD [OF assms(1)] in auto)
  then show ?thesis using run same n(1) by (simp add: s'_def)
qed

text \<open>The effect of the hand-over on the store.\<close>

lemma handoff_effect:
  assumes "monitors_ok s M qs" "M obj = Some (l, t, w # ws)"
  defines "P \<equiv> t_priority (threads (sched s) w)"
  shows "\<exists>s' lw. unlock_object obj l s = Inr s' \<and> wait_stack_lock (threads (sched s) w) = Some lw \<and> same_nears s s' \<and>
    object_near s' = (object_near s)(obj := Stack_near lw) \<and>
    (\<forall>k. k \<noteq> l \<longrightarrow> k \<noteq> lw \<longrightarrow> stack_locks s' k = stack_locks s k) \<and> sl_owner (stack_locks s' l) = None \<and> lw \<noteq> l \<and>
    sl_owner (stack_locks s' lw) = Some obj \<and> sl_thread (stack_locks s' lw) = Some w \<and>
    real_java_near (stack_locks s' lw) = real_java_near (stack_locks s l) \<and>
    copied_near (stack_locks s' lw) AND 3 = (if ws = [] then 1 else 3) \<and>
    sl_waiters (stack_locks s' lw) = head_of ws \<and>
    ready_queues (sched s') (qs(P := qs P @ [w])) \<and>
    (\<forall>u. t_priority (threads (sched s') u) = t_priority (threads (sched s) u)) \<and>
    (\<forall>u. u \<noteq> w \<longrightarrow> same_wait (threads (sched s) u) (threads (sched s') u))"
proof -
  note H = monitors_okD(3) [OF assms(1,2)]
  obtain n where n: "real_java_near (stack_locks s l) = Some n" "free_near s n" "object_near s obj = Stack_near l"
    "sl_owner (stack_locks s l) = Some obj" "sl_waiters (stack_locks s l) = Some w"
    "next_waiting (threads (sched s) w) = head_of ws"
    using H by (cases ws) (auto simp: has_monitor_def split: option.splits)
  from waiting_obj [OF assms(1,2), of w] obtain lw where lw: "wait_obj (threads (sched s) w) = Some obj"
    "wait_stack_lock (threads (sched s) w) = Some lw" "sl_owner (stack_locks s lw) = None" "valid_priority P"
    by (auto simp: P_def)
  then have ne: "lw \<noteq> l" using n(4) by auto
  have out: "w \<notin> set (qs p)" for p
    using monitors_okD(5) [OF assms(1)] waiting_threadsI [of M obj, OF assms(2)] by simp
  from add_to_active_queues [OF monitors_okD(1) [OF assms(1)] out] lw(4) obtain sc where sc:
    "add_to_active w (sched s) = Inr sc" "ready_queues sc (qs(P := qs P @ [w]))"
    "links_only (insert w (set (qs P))) (threads (sched s)) (threads sc)"
    unfolding P_def by blast
  note same = links_only_same_wait [OF sc(3), unfolded same_wait_def]
  define s2 where "s2 = upd_lock l (\<lambda>x. x\<lparr>real_java_near := None\<rparr>) (set_near obj n (upd_lock l (\<lambda>x. x\<lparr>sl_owner := None\<rparr>) s))"
  define s3 where "s3 = stack_lock_lock lw w obj (s2\<lparr>sched := sc\<rparr>)"
  define s4 where "s4 = (case head_of ws of None \<Rightarrow> s3 | Some n \<Rightarrow> set_waiters lw n s3)"
  define s' where "s' = upd_thread w (\<lambda>x. x\<lparr>wait_stack_lock := None, next_waiting := None, wait_obj := None\<rparr>) s4"
  have "signal_waiters l (set_near obj n (upd_lock l (\<lambda>x. x\<lparr>sl_owner := None\<rparr>) s)) = Inr s'"
    using same [of w] by (cases ws) (simp_all add: signal_waiters_def Let_def n(5,6) sc(1) lw(1,2) s'_def s4_def s3_def s2_def)
  then have run: "unlock_object obj l s = Inr s'"
    using n monitor_raw_value(3) [OF H] by (simp add: unlock_object_def Let_def)
  obtain r where r: "n = Real_near r" "near_value s r AND 3 = 0"
    using n(2) by (auto simp: free_near_def split: near_pointer.splits)
  have s4: "sched s4 = sc" "same_nears s s4" "object_near s4 = (object_near s)(obj := Stack_near lw)"
    "stack_locks s4 = (stack_locks s)(l := (stack_locks s l)\<lparr>sl_owner := None, real_java_near := None\<rparr>,
       lw := (stack_locks s4 lw))" "sl_owner (stack_locks s4 lw) = Some obj" "sl_thread (stack_locks s4 lw) = Some w"
    "real_java_near (stack_locks s4 lw) = Some n" "sl_waiters (stack_locks s4 lw) = head_of ws"
    "copied_near (stack_locks s4 lw) AND 3 = (if ws = [] then 1 else 3)"
    using ne r by (cases ws; simp add: s4_def s3_def s2_def stack_lock_lock_def set_waiters_def Let_def same_nears_def
      raw_value_def set_lock_and_3)+
  have th: "threads (sched s') = (threads sc)(w := (threads sc w)\<lparr>wait_stack_lock := None, next_waiting := None, wait_obj := None\<rparr>)"
    by (simp add: s'_def s4(1))
  have "sched s' = sc\<lparr>threads := threads (sched s')\<rparr>" by (simp add: s'_def upd_thread_def s4(1))
  moreover have "t_next (threads (sched s') u) = t_next (threads sc u)" "t_previous (threads (sched s') u) = t_previous (threads sc u)" for u
    by (simp_all add: th)
  ultimately have ready: "ready_queues (sched s') (qs(P := qs P @ [w]))"
    using ready_queues_same_links [of "threads (sched s')" sc] sc(2) by metis
  have "t_priority (threads (sched s') u) = t_priority (threads (sched s) u)"
    "u \<noteq> w \<Longrightarrow> same_wait (threads (sched s) u) (threads (sched s') u)" for u
    using same [of u] same [of w] by (auto simp: th same_wait_def)
  moreover have "stack_locks s' = stack_locks s4" "object_near s' = object_near s4" "same_nears s s'"
    using s4(2) by (simp_all add: s'_def same_nears_def)
  moreover have "sl_owner (stack_locks s4 l) = None" using ne fun_cong [OF s4(4), of l] by simp
  moreover have "stack_locks s4 k = stack_locks s k" if "k \<noteq> l" "k \<noteq> lw" for k
    using that fun_cong [OF s4(4), of k] by simp
  ultimately show ?thesis using run lw(2) ready s4(3,5-9) ne n(1) by auto
qed

lemma unlock_object_handoff:
  assumes "monitors_ok s M qs" "M obj = Some (l, t, w # ws)"
  defines "P \<equiv> t_priority (threads (sched s) w)"
  shows "\<exists>s' lw. unlock_object obj l s = Inr s' \<and> wait_stack_lock (threads (sched s) w) = Some lw \<and> same_nears s s' \<and>
    monitors_ok s' (M(obj := Some (lw, w, ws))) (qs(P := qs P @ [w])) \<and>
    (\<forall>k. k \<noteq> l \<longrightarrow> k \<noteq> lw \<longrightarrow> stack_locks s' k = stack_locks s k) \<and> sl_owner (stack_locks s' l) = None \<and>
    (\<forall>u. u \<noteq> w \<longrightarrow> wait_stack_lock (threads (sched s') u) = wait_stack_lock (threads (sched s) u))"
proof -
  note H = monitors_okD(3) [OF assms(1,2)]
  from handoff_effect [OF assms(1,2)] obtain s' lw where run: "unlock_object obj l s = Inr s'"
    "wait_stack_lock (threads (sched s) w) = Some lw"
    and same: "same_nears s s'" "object_near s' = (object_near s)(obj := Stack_near lw)"
    and locks: "\<And>k. k \<noteq> l \<Longrightarrow> k \<noteq> lw \<Longrightarrow> stack_locks s' k = stack_locks s k" "sl_owner (stack_locks s' l) = None" "lw \<noteq> l"
    and new: "sl_owner (stack_locks s' lw) = Some obj" "sl_thread (stack_locks s' lw) = Some w"
    "real_java_near (stack_locks s' lw) = real_java_near (stack_locks s l)"
    "copied_near (stack_locks s' lw) AND 3 = (if ws = [] then 1 else 3)" "sl_waiters (stack_locks s' lw) = head_of ws"
    and ready: "ready_queues (sched s') (qs(P := qs P @ [w]))"
    and prio: "\<And>u. t_priority (threads (sched s') u) = t_priority (threads (sched s) u)"
    and wait: "\<And>u. u \<noteq> w \<Longrightarrow> same_wait (threads (sched s) u) (threads (sched s') u)"
    unfolding P_def by blast
  define M' where "M' = M(obj := Some (lw, w, ws))"
  have ws: "w \<notin> set ws" "distinct ws" using H by (auto simp: has_monitor_def)
  have "w \<notin> waiting_threads (M(obj := None))"
  proof
    assume "w \<in> waiting_threads (M(obj := None))"
    then obtain o' l' t' ws' where "(M(obj := None)) o' = Some (l', t', ws')" "w \<in> set ws'" by (auto simp: waiting_threads_def)
    then show False using waiting_once(1) [OF assms(1,2), of o'] by (auto split: if_splits)
  qed
  then have W: "waiting_threads M = insert w (waiting_threads M')" "w \<notin> waiting_threads M'"
    using waiting_threads_Some [of M obj, OF assms(2)] ws(1) by (auto simp: M'_def waiting_threads_upd)
  have kept: "wait_stack_lock (threads (sched s') u) = wait_stack_lock (threads (sched s) u)" if "u \<in> waiting_threads M'" for u
    using wait [of u] W(2) that by (auto simp: same_wait_def)
  have inj: "inj_on (\<lambda>w. wait_stack_lock (threads (sched s) w)) (waiting_threads M)" by (rule monitors_okD(6) [OF assms(1)])
  have not_lw: "wait_stack_lock (threads (sched s) u) \<noteq> Some lw" if "u \<in> waiting_threads M'" for u
    using inj that W run(2) by (auto simp: inj_on_def)
  have free: "sl_owner (stack_locks s' k) = None"
    if "u \<in> waiting_threads M'" "wait_stack_lock (threads (sched s) u) = Some k" for u k
  proof (cases "k = l")
    case False
    moreover have "k \<noteq> lw" using not_lw [OF that(1)] that(2) by auto
    ultimately show ?thesis using waiting_lock [OF assms(1) _ that(2)] that(1) W(1) locks(1) by simp
  qed (simp add: locks(2))
  have other: "has_monitor s' o' m" if "M o' = Some m" "o' \<noteq> obj" for o' m
  proof (rule has_monitor_other [OF assms(1) that(1) _ same(1)])
    show "object_near s' o' = object_near s o'" using that(2) by (simp add: same)
    show "stack_locks s' k = stack_locks s k" if "sl_owner (stack_locks s k) = Some o'" for k
    proof (rule locks(1))
      show "k \<noteq> l" using that \<open>o' \<noteq> obj\<close> H by (auto simp: has_monitor_def)
      show "k \<noteq> lw" using that waiting_lock [OF assms(1) _ run(2)] W by auto
    qed
    fix u
    assume u: "wait_obj (threads (sched s) u) = Some o'" "u \<in> waiting_threads M"
    then have "u \<noteq> w" using waiting_obj(1) [OF assms(1,2), of w] \<open>o' \<noteq> obj\<close> by auto
    then show "same_wait (threads (sched s) u) (threads (sched s') u)" by (rule wait)
    show "sl_owner (stack_locks s' k) = None" if "wait_stack_lock (threads (sched s) u) = Some k" for k
      using free [of u k] u that W(1) \<open>u \<noteq> w\<close> by simp
  qed
  have mine: "has_monitor s' obj (lw, w, ws)"
  proof -
    have "set ws \<subseteq> waiting_threads M'" by (auto simp: M'_def waiting_threads_upd)
    then have "waits_for s' obj u" if "u \<in> set ws" for u
      using H that free ws(1) by (intro waits_for_frame [of s obj u s'] wait) (auto simp: has_monitor_def list_all_iff)
    moreover have "chain (\<lambda>w. next_waiting (threads (sched s') w)) (head_of ws) ws"
    proof -
      have "chain (\<lambda>w. next_waiting (threads (sched s) w)) (head_of ws) ws"
        using H by (cases ws) (auto simp: has_monitor_def)
      moreover have "next_waiting (threads (sched s') u) = next_waiting (threads (sched s) u)" if "u \<in> set ws" for u
        using wait [of u] that ws(1) by (auto simp: same_wait_def)
      ultimately show ?thesis using chain_cong [of ws "\<lambda>w. next_waiting (threads (sched s') w)" "\<lambda>w. next_waiting (threads (sched s) w)"] by simp
    qed
    ultimately show ?thesis
      using H new ws by (simp add: has_monitor_def same(2) free_near_same [OF same(1)] list_all_iff cong: option.case_cong)
  qed
  have "monitors_ok s' M' (qs(P := qs P @ [w]))"
  proof (rule monitors_okI)
    show "queues_sorted (sched s') (qs(P := qs P @ [w]))"
      using monitors_okD(2) [OF assms(1)] by (auto simp: queues_sorted_def prio P_def)
    show "has_monitor s' o' m" if "M' o' = Some m" for o' m
      using that mine other by (auto simp: M'_def split: if_splits)
    show "free_near s' (object_near s' o') \<or> object_near s' o' = Real_near (interned_string_near s')"
      if "M' o' = None" for o'
      using monitors_okD(4) [OF assms(1), of o'] that same free_near_same [OF same(1)]
      by (auto simp: M'_def same_nears_def split: if_splits)
    show "u \<notin> set ((qs(P := qs P @ [w])) p)" if "u \<in> waiting_threads M'" for u p
      using that W monitors_okD(5) [OF assms(1), of u] by auto
    show "inj_on (\<lambda>w. wait_stack_lock (threads (sched s') w)) (waiting_threads M')"
      using inj_on_subset [OF inj, of "waiting_threads M'"] W(1) kept inj_on_cong
        [of "waiting_threads M'" "\<lambda>w. wait_stack_lock (threads (sched s') w)" "\<lambda>w. wait_stack_lock (threads (sched s) w)"]
      by blast
  qed (rule ready)
  moreover have "wait_stack_lock (threads (sched s') u) = wait_stack_lock (threads (sched s) u)" if "u \<noteq> w" for u
    using wait [OF that] by (simp add: same_wait_def)
  ultimately show ?thesis using run same locks by (auto simp: M'_def)
qed

lemma unlock_object_again:
  assumes "monitors_ok s M qs" "sl_owner (stack_locks s l) = Some obj" "real_java_near (stack_locks s l) = None"
    "object_near s obj \<noteq> Real_near (interned_string_near s)"
  shows "\<exists>s'. unlock_object obj l s = Inr s' \<and> monitors_ok s' M qs \<and> same_nears s s' \<and> sched s' = sched s \<and>
    stack_locks s' = (stack_locks s)(l := (stack_locks s l)\<lparr>sl_owner := None\<rparr>)"
proof -
  define s' where "s' = upd_lock l (\<lambda>x. x\<lparr>sl_owner := None\<rparr>) s"
  have same: "same_nears s s'" by (simp add: same_nears_def s'_def)
  have "monitors_ok s' M qs"
  proof (rule monitors_okI)
    fix o' m
    assume m: "M o' = Some m"
    obtain l' t ws where lt: "m = (l', t, ws)" by (cases m) auto
    have ne: "l' \<noteq> l" using monitors_okD(3) [OF assms(1) m] assms(3) by (auto simp: lt has_monitor_def)
    show "has_monitor s' o' m"
      unfolding lt
    proof (rule has_monitor_frame [OF monitors_okD(3) [OF assms(1) m, unfolded lt] _ _ same])
      fix w k
      assume "w \<in> set ws" "wait_stack_lock (threads (sched s) w) = Some k"
      then show "sl_owner (stack_locks s' k) = None"
        using waiting_lock [OF assms(1) waiting_threadsI [of M o', OF m [unfolded lt]]] by (auto simp: s'_def)
    qed (use ne in \<open>auto simp: s'_def\<close>)
  next
    show "free_near s' (object_near s' o') \<or> object_near s' o' = Real_near (interned_string_near s')" if "M o' = None" for o'
      using monitors_okD(4) [OF assms(1) that] free_near_same [OF same] by (simp add: s'_def)
  qed (use monitors_okD [OF assms(1)] in \<open>auto simp: s'_def\<close>)
  moreover have "unlock_object obj l s = Inr s'"
    using assms(3,4) by (simp add: unlock_object_def Let_def s'_def)
  ultimately show ?thesis using same by (auto simp: s'_def)
qed

text \<open>The runtime system leaves a monitor that has waiting threads as the interpreter does.\<close>

lemma synchronizer_exit_unlock:
  assumes "has_monitor s obj (l, t, w # ws)"
  shows "synchronizer_exit l s = unlock_object obj l s" "unlock_stack_lock l s = unlock_object obj l s"
proof -
  obtain n where n: "real_java_near (stack_locks s l) = Some n" "sl_owner (stack_locks s l) = Some obj"
    "object_near s obj = Stack_near l"
    using assms by (auto simp: has_monitor_def split: option.splits)
  have swap: "upd_lock l (\<lambda>x. x\<lparr>sl_owner := None\<rparr>) (set_near obj n s) = set_near obj n (upd_lock l (\<lambda>x. x\<lparr>sl_owner := None\<rparr>) s)"
    by (simp add: upd_lock_def set_near_def)
  then show "synchronizer_exit l s = unlock_object obj l s" "unlock_stack_lock l s = unlock_object obj l s"
    using n monitor_raw_value(3) [OF assms]
    by (simp_all add: synchronizer_exit_def unlock_stack_lock_def unlock_object_def Let_def swap)
qed

end
