(* ===== verification/Frame_Monitors.thy ===== *)
theory Frame_Monitors
  imports Monitor_Queues
begin

text \<open>
  The stack locks of a frame (\<open>monitor_enter_internal\<close> and \<open>monitor_exit_internal\<close> of
  \<open>Interpreter_c.cpp\<close>), from the newest to the oldest.  \<open>monitorenter\<close> uses a free slot before the
  first one of the object or makes a new one, \<open>monitorexit\<close> clears the first one of the object: the slot
  that holds the object is the last one that is cleared (\<open>slots_ok\<close>).

  The address of a new slot (\<open>fresh\<close>) and the values of the expression stack that make room for it are not
  modelled.
\<close>

section \<open>The instructions\<close>

fun free_slot :: "monitors \<Rightarrow> nat \<Rightarrow> nat list \<Rightarrow> nat option \<Rightarrow> nat option" where
  "free_slot s obj [] lock = lock"
| "free_slot s obj (l # ls) lock =
     (let owner = sl_owner (stack_locks s l); lock = (if owner = None then Some l else lock)
      in if owner = Some obj then lock else free_slot s obj ls lock)"

definition monitor_enter_internal ::
  "nat \<Rightarrow> nat \<Rightarrow> nat list \<Rightarrow> monitors \<Rightarrow> sched_fault + (bool \<times> nat list \<times> monitors)" where
  "monitor_enter_internal obj fresh frame s =
     (let (lock, frame) = (case free_slot s obj frame None of Some l \<Rightarrow> (l, frame) | None \<Rightarrow> (fresh, fresh # frame))
      in jvm_check (lock_object obj lock s) (\<lambda>(b, s). Inr (b, frame, s)))"

definition monitor_exit_internal :: "nat \<Rightarrow> nat list \<Rightarrow> monitors \<Rightarrow> sched_fault + monitors" where
  "monitor_exit_internal obj frame s =
     (if object_near s obj = Real_near (interned_string_near s) then Inl Interned_string
      else case find (\<lambda>l. sl_owner (stack_locks s l) = Some obj) frame of
        None \<Rightarrow> Inl Illegal_monitor_state
      | Some l \<Rightarrow> unlock_object obj l s)"

section \<open>The slots of an object\<close>

definition slots :: "monitors \<Rightarrow> nat \<Rightarrow> nat list \<Rightarrow> nat list" where
  "slots s obj frame = filter (\<lambda>l. sl_owner (stack_locks s l) = Some obj) frame"

text \<open>The slots of an object in the order of the frame: only the last one can hold it.\<close>

definition slot_order :: "monitors \<Rightarrow> monitor option \<Rightarrow> tid \<Rightarrow> nat list \<Rightarrow> bool" where
  "slot_order s m t ks = (case m of None \<Rightarrow> False | Some (l, t', ws) \<Rightarrow>
     t' = t \<and> (\<forall>k \<in> set ks. k = l \<or> real_java_near (stack_locks s k) = None) \<and> l \<notin> set (butlast ks))"

definition slots_ok :: "monitors \<Rightarrow> (nat \<Rightarrow> monitor option) \<Rightarrow> nat list \<Rightarrow> bool" where
  "slots_ok s M frame =
     (distinct frame \<and>
      (\<forall>obj. slots s obj frame \<noteq> [] \<longrightarrow> slot_order s (M obj) (current_thread s) (slots s obj frame)) \<and>
      (\<forall>l \<in> set frame. \<forall>w \<in> waiting_threads M. wait_stack_lock (threads (sched s) w) \<noteq> Some l))"

lemma slot_order_cong:
  "(\<And>k. k \<in> set ks \<Longrightarrow> stack_locks s' k = stack_locks s k) \<Longrightarrow> slot_order s' m t ks = slot_order s m t ks"
  by (simp add: slot_order_def split: option.split)

lemma slot_order_tl: "slot_order s m t (k # ks) \<Longrightarrow> slot_order s m t ks"
  by (cases ks) (auto simp: slot_order_def split: option.splits)

lemma free_slot_place:
  assumes "free_slot s obj frame acc = Some l"
  shows "acc = Some l \<or>
    (\<exists>as bs. frame = as @ l # bs \<and> sl_owner (stack_locks s l) = None \<and> slots s obj as = [])"
  using assms
proof (induction frame arbitrary: acc)
  case (Cons a frame)
  show ?case
  proof (cases "sl_owner (stack_locks s a) = Some obj")
    case False
    then have "free_slot s obj frame (if sl_owner (stack_locks s a) = None then Some a else acc) = Some l"
      using Cons.prems by (simp add: Let_def)
    from Cons.IH [OF this] show ?thesis
    proof (elim disjE conjE exE)
      assume "(if sl_owner (stack_locks s a) = None then Some a else acc) = Some l"
      then show ?thesis by (cases "sl_owner (stack_locks s a) = None") (auto intro: exI [of _ "[]"] simp: slots_def)
    next
      fix as bs
      assume "frame = as @ l # bs" "sl_owner (stack_locks s l) = None" "slots s obj as = []"
      then show ?thesis using False by (intro disjI2 exI [of _ "a # as"] exI [of _ bs]) (simp add: slots_def)
    qed
  qed (use Cons.prems in simp)
qed simp

lemma slots_find:
  "find (\<lambda>l. sl_owner (stack_locks s l) = Some obj) frame = head_of (slots s obj frame)"
  by (induction frame) (simp_all add: slots_def)

lemma slots_append: "slots s obj (xs @ ys) = slots s obj xs @ slots s obj ys"
  by (simp add: slots_def)

lemma slots_okD:
  assumes "slots_ok s M frame"
  shows "distinct frame" "slots s obj frame \<noteq> [] \<Longrightarrow> slot_order s (M obj) (current_thread s) (slots s obj frame)"
    "l \<in> set frame \<Longrightarrow> w \<in> waiting_threads M \<Longrightarrow> wait_stack_lock (threads (sched s) w) \<noteq> Some l"
  using assms by (simp_all add: slots_ok_def)

text \<open>The first slot of an object is cleared.\<close>

lemma slots_cleared:
  assumes "slots_ok s M frame" "slots s obj frame = l # ls" "current_thread s' = current_thread s"
    "sl_owner (stack_locks s' l) = None" "\<forall>k \<in> set frame. k \<noteq> l \<longrightarrow> stack_locks s' k = stack_locks s k"
    "\<forall>o'. o' \<noteq> obj \<longrightarrow> M' o' = M o'" "ls \<noteq> [] \<longrightarrow> M' obj = M obj" "waiting_threads M' \<subseteq> waiting_threads M"
    "\<forall>u \<in> waiting_threads M'. wait_stack_lock (threads (sched s') u) = wait_stack_lock (threads (sched s) u)"
  shows "slots s' obj frame = ls" "o' \<noteq> obj \<Longrightarrow> slots s' o' frame = slots s o' frame" "slots_ok s' M' frame"
proof -
  have d: "distinct (l # ls)" using assms(1,2) by (metis distinct_filter slots_ok_def slots_def)
  have own: "sl_owner (stack_locks s l) = Some obj"
  proof -
    have "l \<in> set (slots s obj frame)" by (simp add: assms(2))
    then show ?thesis by (simp add: slots_def)
  qed
  have all: "slots s' o' frame = filter (\<lambda>k. k \<noteq> l) (slots s o' frame)" for o'
  proof -
    have "(sl_owner (stack_locks s' k) = Some o') = (sl_owner (stack_locks s k) = Some o' \<and> k \<noteq> l)" if "k \<in> set frame" for k
      using assms(4,5) that by (cases "k = l") auto
    then show ?thesis unfolding slots_def filter_filter by (intro filter_cong) auto
  qed
  have first: "slots s' obj frame = ls"
    using d by (simp add: all assms(2)) (metis (mono_tags, lifting) filter_True)
  have rest: "slots s' o' frame = slots s o' frame" if "o' \<noteq> obj" for o'
    unfolding all by (rule filter_True) (use own that in \<open>auto simp: slots_def\<close>)
  show "slots s' obj frame = ls" "o' \<noteq> obj \<Longrightarrow> slots s' o' frame = slots s o' frame" using first rest by auto
  have locks: "stack_locks s' k = stack_locks s k" if "k \<in> set (slots s' o' frame)" for k o'
    using that assms(5) by (auto simp: all) (auto simp: slots_def)
  have order: "slot_order s' (M' o') (current_thread s') (slots s' o' frame)" if ne: "slots s' o' frame \<noteq> []" for o'
  proof (cases "o' = obj")
    case True
    have "slot_order s (M obj) (current_thread s) ls"
      using slots_okD(2) [OF assms(1), of obj] assms(2) by (auto intro: slot_order_tl)
    then show ?thesis
      using slot_order_cong [of ls s' s "M obj"] locks [of _ obj] assms(3,7) ne first True by simp
  next
    case False
    then show ?thesis
      using slot_order_cong [of "slots s o' frame" s' s "M o'"] locks [of _ o'] assms(3,6) ne rest [of o']
        slots_okD(2) [OF assms(1), of o'] by simp
  qed
  show "slots_ok s' M' frame"
    unfolding slots_ok_def using slots_okD [OF assms(1)] order assms(8,9) by (metis subsetD)
qed

text \<open>C9: \<open>monitorexit\<close> of an object that the frame has entered clears one of its slots and leaves the slots of other
  objects alone.  A slot of a nested entry leaves the monitors as they are; the slot that holds the object (always the
  last one) frees it, or, when threads wait, hands it to the first of them, which becomes ready with its own slot as the
  holder and the other threads waiting behind it.\<close>

theorem monitor_exit_nesting:
  assumes "monitors_ok s M qs" "slots_ok s M frame" "slots s obj frame = l # ls"
  shows "\<exists>s' M' qs'. monitor_exit_internal obj frame s = Inr s' \<and> monitors_ok s' M' qs' \<and> slots_ok s' M' frame \<and>
    slots s' obj frame = ls \<and> (\<forall>o'. o' \<noteq> obj \<longrightarrow> slots s' o' frame = slots s o' frame) \<and>
    (M', qs') = (case M obj of Some (l0, t, ws) \<Rightarrow>
      if real_java_near (stack_locks s l) = None then (M, qs)
      else (case ws of [] \<Rightarrow> (M(obj := None), qs)
            | w # vs \<Rightarrow> let P = t_priority (threads (sched s) w) in
                 (M(obj := Some (the (wait_stack_lock (threads (sched s) w)), w, vs)), qs(P := qs P @ [w])))
      | None \<Rightarrow> (M, qs))"
proof -
  obtain l0 ws where M: "M obj = Some (l0, current_thread s, ws)"
    "\<forall>k \<in> set (l # ls). k = l0 \<or> real_java_near (stack_locks s k) = None" "l0 \<notin> set (butlast (l # ls))"
    using slots_okD(2) [OF assms(2), of obj] assms(3) by (auto simp: slot_order_def split: option.splits)
  note H = monitors_okD(3) [OF assms(1) M(1)]
  have l: "l \<in> set frame" "sl_owner (stack_locks s l) = Some obj"
  proof -
    have "l \<in> set (slots s obj frame)" by (simp add: assms(3))
    then show "l \<in> set frame" "sl_owner (stack_locks s l) = Some obj" by (simp_all add: slots_def)
  qed
  have near: "object_near s obj = Stack_near l0" using H by (simp add: has_monitor_def)
  have run: "monitor_exit_internal obj frame s = unlock_object obj l s"
    by (simp add: monitor_exit_internal_def near slots_find assms(3))
  show ?thesis
  proof (cases "real_java_near (stack_locks s l) = None")
    case True
    from unlock_object_again [OF assms(1) l(2) True] near obtain s' where s': "unlock_object obj l s = Inr s'"
      "monitors_ok s' M qs" "same_nears s s'" "sched s' = sched s" "stack_locks s' = (stack_locks s)(l := (stack_locks s l)\<lparr>sl_owner := None\<rparr>)"
      by auto
    have cur: "current_thread s' = current_thread s" using s'(3) by (simp add: same_nears_def)
    have "sl_owner (stack_locks s' l) = None" "\<forall>k \<in> set frame. k \<noteq> l \<longrightarrow> stack_locks s' k = stack_locks s k"
      "\<forall>o'. o' \<noteq> obj \<longrightarrow> M o' = M o'" "ls \<noteq> [] \<longrightarrow> M obj = M obj"
      "\<forall>u \<in> waiting_threads M. wait_stack_lock (threads (sched s') u) = wait_stack_lock (threads (sched s) u)"
      by (simp_all add: s'(4,5))
    note clear = slots_cleared [OF assms(2,3) cur this(1-4) subset_refl this(5)]
    show ?thesis using s' run True M(1) clear by (intro exI [of _ s'] exI [of _ M] exI [of _ qs]) simp
  next
    case False
    then have l0: "l0 = l" "ls = []" using M(2,3) by (auto split: if_splits)
    show ?thesis
    proof (cases ws)
      case Nil
      from unlock_object_free [OF assms(1) M(1) [unfolded Nil l0]] obtain s' where s': "unlock_object obj l s = Inr s'"
        "monitors_ok s' (M(obj := None)) qs" "same_nears s s'" "sched s' = sched s"
        "stack_locks s' = (stack_locks s)(l := (stack_locks s l)\<lparr>sl_owner := None\<rparr>)" by blast
      have cur: "current_thread s' = current_thread s" using s'(3) by (simp add: same_nears_def)
      have "sl_owner (stack_locks s' l) = None" "\<forall>k \<in> set frame. k \<noteq> l \<longrightarrow> stack_locks s' k = stack_locks s k"
        "\<forall>o'. o' \<noteq> obj \<longrightarrow> (M(obj := None)) o' = M o'" "ls \<noteq> [] \<longrightarrow> (M(obj := None)) obj = M obj"
        "waiting_threads (M(obj := None)) \<subseteq> waiting_threads M"
        "\<forall>u \<in> waiting_threads (M(obj := None)). wait_stack_lock (threads (sched s') u) = wait_stack_lock (threads (sched s) u)"
        using waiting_threads_Some [of M obj, OF M(1)] l0(2) by (simp_all add: s'(4,5))
      note clear = slots_cleared [OF assms(2,3) cur this]
      show ?thesis using s' run M(1) Nil clear
        by (intro exI [of _ s'] exI [of _ "M(obj := None)"] exI [of _ qs]) (simp add: if_not_P [OF False])
    next
      case (Cons w vs)
      from unlock_object_handoff [OF assms(1) M(1) [unfolded Cons l0]] obtain s' lw where s': "unlock_object obj l s = Inr s'"
        "wait_stack_lock (threads (sched s) w) = Some lw" "same_nears s s'"
        "monitors_ok s' (M(obj := Some (lw, w, vs)))
           (qs(t_priority (threads (sched s) w) := qs (t_priority (threads (sched s) w)) @ [w]))"
        "\<And>k. k \<noteq> l \<Longrightarrow> k \<noteq> lw \<Longrightarrow> stack_locks s' k = stack_locks s k" "sl_owner (stack_locks s' l) = None"
        "\<And>u. u \<noteq> w \<Longrightarrow> wait_stack_lock (threads (sched s') u) = wait_stack_lock (threads (sched s) u)" by blast
      let ?M = "M(obj := Some (lw, w, vs))"
      have W: "waiting_threads ?M \<subseteq> waiting_threads M" "w \<in> waiting_threads M"
        using waiting_threads_Some [of M obj, OF M(1)] by (auto simp: waiting_threads_upd Cons)
      have lw: "lw \<notin> set frame" using assms(2) W(2) s'(2) by (auto simp: slots_ok_def)
      have w: "w \<notin> waiting_threads ?M"
      proof
        assume "w \<in> waiting_threads ?M"
        then obtain o' l' t' vs' where "?M o' = Some (l', t', vs')" "w \<in> set vs'" by (auto simp: waiting_threads_def)
        then show False using waiting_once(1) [OF assms(1) M(1), of o'] H by (auto simp: Cons has_monitor_def split: if_splits)
      qed
      have cur: "current_thread s' = current_thread s" using s'(3) by (simp add: same_nears_def)
      have "\<forall>k \<in> set frame. k \<noteq> l \<longrightarrow> stack_locks s' k = stack_locks s k" using lw s'(5) by metis
      moreover have "\<forall>o'. o' \<noteq> obj \<longrightarrow> ?M o' = M o'" "ls \<noteq> [] \<longrightarrow> ?M obj = M obj" using l0(2) by simp_all
      moreover have "\<forall>u \<in> waiting_threads ?M. wait_stack_lock (threads (sched s') u) = wait_stack_lock (threads (sched s) u)"
        using w s'(7) by metis
      ultimately have clear: "slots s' obj frame = ls" "slots_ok s' ?M frame" "\<forall>o'. o' \<noteq> obj \<longrightarrow> slots s' o' frame = slots s o' frame"
        using slots_cleared [OF assms(2,3) cur s'(6) _ _ _ W(1)] by blast+
      show ?thesis using s'(1,2,4) run M(1) Cons clear
        by (intro exI [of _ s'] exI [of _ ?M] exI [of _ "qs(t_priority (threads (sched s) w) := qs (t_priority (threads (sched s) w)) @ [w])"])
          (simp add: Let_def if_not_P [OF False])
    qed
  qed
qed

section \<open>Entering from a frame\<close>

text \<open>What entering does to the monitors: whether the thread has the object.\<close>

definition enter_spec ::
  "nat \<Rightarrow> tid \<Rightarrow> nat \<Rightarrow> nat \<Rightarrow> (nat \<Rightarrow> monitor option) \<Rightarrow> (nat \<Rightarrow> tid list) \<Rightarrow>
   bool \<times> (nat \<Rightarrow> monitor option) \<times> (nat \<Rightarrow> tid list)" where
  "enter_spec l T P obj M qs =
     (case M obj of
        None \<Rightarrow> (True, M(obj := Some (l, T, [])), qs)
      | Some (l0, t, ws) \<Rightarrow>
          if t = T then (True, M, qs)
          else (False, M(obj := Some (l0, t, ws @ [T])), qs(P := remove1 T (qs P))))"

text \<open>The slot that \<open>monitorenter\<close> takes.\<close>

lemma enter_slot:
  assumes "slots_ok s M frame" "fresh \<notin> set frame" "unused_lock s M fresh"
  obtains l as bs where
    "(case free_slot s obj frame None of Some l \<Rightarrow> (l, frame) | None \<Rightarrow> (fresh, fresh # frame)) = (l, as @ l # bs)"
    "slots s obj as = []" "unused_lock s M l" "distinct (as @ l # bs)"
    "\<And>o'. slots s o' (as @ l # bs) = slots s o' frame"
    "\<And>k w. k \<in> set (as @ l # bs) \<Longrightarrow> w \<in> waiting_threads M \<Longrightarrow> wait_stack_lock (threads (sched s) w) \<noteq> Some k"
proof (cases "free_slot s obj frame None")
  case None
  then show thesis
    using assms slots_okD [OF assms(1)] by (intro that [of fresh "[]" frame]) (auto simp: slots_def unused_lock_def)
next
  case (Some l)
  from free_slot_place [OF Some] obtain as bs where "frame = as @ l # bs" "sl_owner (stack_locks s l) = None" "slots s obj as = []"
    by auto
  then show thesis
    using Some slots_okD [OF assms(1)] by (intro that [of l as bs]) (auto simp: unused_lock_def)
qed

lemma slots_entered:
  assumes "slots s obj as = []" "distinct (as @ l # bs)" "sl_owner (stack_locks s l) = None"
    "sl_owner (stack_locks s' l) = Some obj" "\<forall>k. k \<noteq> l \<longrightarrow> stack_locks s' k = stack_locks s k"
  shows "slots s' obj (as @ l # bs) = l # slots s obj (as @ l # bs)"
    "o' \<noteq> obj \<Longrightarrow> slots s' o' (as @ l # bs) = slots s o' (as @ l # bs)"
proof -
  have same: "slots s' o' ks = slots s o' ks" if "l \<notin> set ks" for o' ks
    unfolding slots_def by (rule filter_cong) (use that assms(5) in auto)
  show "slots s' obj (as @ l # bs) = l # slots s obj (as @ l # bs)"
    using assms(1-4) same [of as obj] same [of bs obj] by (simp add: slots_append) (simp add: slots_def)
  show "o' \<noteq> obj \<Longrightarrow> slots s' o' (as @ l # bs) = slots s o' (as @ l # bs)"
    using assms(2-4) same [of as o'] same [of bs o'] by (simp add: slots_append) (simp add: slots_def)
qed

lemma slot_order_enter:
  assumes "ks \<noteq> [] \<Longrightarrow> slot_order s (Some (l0, t, ws)) t ks" "l0 \<noteq> l" "real_java_near (stack_locks s l) = None"
  shows "slot_order s (Some (l0, t, ws)) t (l # ks)"
  using assms by (cases ks) (auto simp: slot_order_def)

lemma slots_ok_entered:
  assumes "slots_ok s M frame" "\<And>o'. slots s o' F = slots s o' frame" "distinct F" "current_thread s' = current_thread s"
    "slots s' obj F = l # slots s obj F" "\<And>o'. o' \<noteq> obj \<Longrightarrow> slots s' o' F = slots s o' F"
    "\<forall>k. k \<noteq> l \<longrightarrow> stack_locks s' k = stack_locks s k" "sl_owner (stack_locks s l) = None"
    "slot_order s' (M' obj) (current_thread s) (l # slots s obj F)" "\<And>o'. o' \<noteq> obj \<Longrightarrow> M' o' = M o'"
    "\<And>k w. k \<in> set F \<Longrightarrow> w \<in> waiting_threads M' \<Longrightarrow> wait_stack_lock (threads (sched s') w) \<noteq> Some k"
  shows "slots_ok s' M' F"
proof -
  have "slot_order s' (M' o') (current_thread s') (slots s' o' F)" if ne: "slots s' o' F \<noteq> []" for o'
  proof (cases "o' = obj")
    case False
    have "stack_locks s' k = stack_locks s k" if "k \<in> set (slots s o' F)" for k
      using that assms(7,8) by (cases "k = l") (auto simp: slots_def)
    then show ?thesis
      using slot_order_cong [of "slots s o' F" s' s "M o'"] slots_okD(2) [OF assms(1), of o'] ne False assms(2,4,6,10) by simp
  qed (use assms(4,5,9) in simp)
  then show ?thesis using assms(3,11) by (simp add: slots_ok_def)
qed

text \<open>C8: \<open>monitorenter\<close> is entering the monitor that the state stands for: a free object is locked by the
  thread, an object that the thread has gets one more slot, before its others, and for an object of another thread the
  thread goes from the ready threads to the end of those that wait for it.  The slots of other objects stay, and a thread
  that has to wait keeps the slots of all objects: the slot it waits with belongs to none.\<close>

theorem monitor_enter_nesting:
  assumes "monitors_ok s M qs" "slots_ok s M frame" "fresh \<notin> set frame" "unused_lock s M fresh"
    "object_near s obj \<noteq> Real_near (interned_string_near s)"
    "current_thread s \<in> set (qs (t_priority (threads (sched s) (current_thread s))))"
  shows "\<exists>l b F s' M' qs'. monitor_enter_internal obj fresh frame s = Inr (b, F, s') \<and> monitors_ok s' M' qs' \<and>
    (b, M', qs') = enter_spec l (current_thread s) (t_priority (threads (sched s) (current_thread s))) obj M qs \<and>
    current_thread s' = current_thread s \<and>
    (if b then slots_ok s' M' F \<and> slots s' obj F = l # slots s obj frame \<and>
         (\<forall>o'. o' \<noteq> obj \<longrightarrow> slots s' o' F = slots s o' frame)
     else wait_stack_lock (threads (sched s') (current_thread s)) = Some l \<and> l \<in> set F \<and>
         sl_owner (stack_locks s' l) = None \<and> (\<forall>o'. slots s' o' F = slots s o' frame))"
proof -
  obtain l as bs where slot:
    "(case free_slot s obj frame None of Some l \<Rightarrow> (l, frame) | None \<Rightarrow> (fresh, fresh # frame)) = (l, as @ l # bs)"
    "slots s obj as = []" "unused_lock s M l" "distinct (as @ l # bs)" "\<And>o'. slots s o' (as @ l # bs) = slots s o' frame"
    "\<And>k w. k \<in> set (as @ l # bs) \<Longrightarrow> w \<in> waiting_threads M \<Longrightarrow> wait_stack_lock (threads (sched s) w) \<noteq> Some k"
    using enter_slot [OF assms(2-4), of obj] by blast
  define F where "F = as @ l # bs"
  have run: "monitor_enter_internal obj fresh frame s = jvm_check (lock_object obj l s) (\<lambda>(b, s). Inr (b, F, s))"
    by (simp add: monitor_enter_internal_def slot(1) F_def)
  have l: "sl_owner (stack_locks s l) = None" using slot(3) by (simp add: unused_lock_def)
  have finish: ?thesis if step: "lock_object obj l s = Inr (True, s')" "monitors_ok s' M' qs" "same_nears s s'" "sched s' = sched s"
      "\<forall>k. k \<noteq> l \<longrightarrow> stack_locks s' k = stack_locks s k" "sl_owner (stack_locks s' l) = Some obj"
      "slot_order s' (M' obj) (current_thread s) (l # slots s obj F)" "\<And>o'. o' \<noteq> obj \<Longrightarrow> M' o' = M o'"
      "waiting_threads M' = waiting_threads M"
      "(True, M', qs) = enter_spec l (current_thread s) (t_priority (threads (sched s) (current_thread s))) obj M qs" for s' M'
  proof -
    have cur: "current_thread s' = current_thread s" using step(3) by (simp add: same_nears_def)
    note ent = slots_entered [OF slot(2,4) l step(6,5), folded F_def]
    have "slots_ok s' M' F"
      by (rule slots_ok_entered [OF assms(2) slot(5) [folded F_def] slot(4) [folded F_def] cur ent(1) ent(2) step(5) l step(7,8)])
        (use slot(6) step(4,9) in \<open>auto simp: F_def\<close>)
    moreover have "slots s' obj F = l # slots s obj frame" "o' \<noteq> obj \<Longrightarrow> slots s' o' F = slots s o' frame" for o'
      using ent slot(5) by (simp_all add: F_def)
    ultimately show ?thesis
      using run step(1,2,10) cur by (intro exI [of _ l] exI [of _ True] exI [of _ F] exI [of _ s'] exI [of _ M'] exI [of _ qs]) simp
  qed
  show ?thesis
  proof (cases "M obj")
    case None
    from lock_object_free [OF assms(1) None assms(5) slot(3)] obtain s' where s': "lock_object obj l s = Inr (True, s')"
      "monitors_ok s' (M(obj := Some (l, current_thread s, []))) qs" "same_nears s s'" "sched s' = sched s"
      "\<forall>k. k \<noteq> l \<longrightarrow> stack_locks s' k = stack_locks s k" by blast
    have "slots s obj frame = []" using slots_okD(2) [OF assms(2), of obj] None by (auto simp: slot_order_def)
    then have "slots s obj F = []" using slot(5) [of obj] by (simp add: F_def)
    then show ?thesis
      using monitors_okD(3) [OF s'(2), of obj] None
      by (intro finish [OF s']) (auto simp: slot_order_def has_monitor_def enter_spec_def waiting_threads_upd waiting_threads_None)
  next
    case (Some m)
    obtain l0 t ws where m: "m = (l0, t, ws)" by (cases m) auto
    show ?thesis
    proof (cases "t = current_thread s")
      case True
      from lock_object_again [OF assms(1) Some [unfolded m True] slot(3)] obtain s' where s': "lock_object obj l s = Inr (True, s')"
        "monitors_ok s' M qs" "same_nears s s'" "sched s' = sched s"
        "stack_locks s' = (stack_locks s)(l := (stack_locks s l)\<lparr>sl_owner := Some obj, real_java_near := None\<rparr>)" by blast
      have "l0 \<noteq> l" using monitors_okD(3) [OF assms(1) Some] l by (auto simp: m has_monitor_def)
      moreover have "slot_order s' (Some (l0, current_thread s, ws)) (current_thread s) (slots s obj F)" if "slots s obj F \<noteq> []"
      proof -
        have "stack_locks s' k = stack_locks s k" if "k \<in> set (slots s obj F)" for k
          using that l s'(5) by (cases "k = l") (auto simp: slots_def)
        then show ?thesis
          using slot_order_cong [of "slots s obj F" s' s] slots_okD(2) [OF assms(2), of obj] that slot(5) [of obj] Some m True
          by (simp add: F_def)
      qed
      ultimately have "slot_order s' (M obj) (current_thread s) (l # slots s obj F)"
        using slot_order_enter [of "slots s obj F" s' l0 "current_thread s" ws l] s'(5) Some m True by simp
      then show ?thesis
        using s'(5) Some m True by (intro finish [OF s'(1-4)]) (auto simp: enter_spec_def)
    next
      case False
      from lock_object_blocked [OF assms(1) Some [unfolded m] False slot(3) assms(6)] obtain s' where
        "lock_object obj l s = Inr (False, s')" "same_nears s s'"
        "monitors_ok s' (M(obj := Some (l0, t, ws @ [current_thread s])))
          (qs(t_priority (threads (sched s) (current_thread s)) :=
             remove1 (current_thread s) (qs (t_priority (threads (sched s) (current_thread s))))))"
        "wait_stack_lock (threads (sched s') (current_thread s)) = Some l"
        and owner: "\<And>k. sl_owner (stack_locks s' k) = sl_owner (stack_locks s k)" by blast
      moreover have "slots s' o' F = slots s o' frame" for o'
        using slot(5) [of o'] by (simp add: slots_def owner F_def)
      ultimately show ?thesis
        using run Some m False l by (intro exI) (auto simp: enter_spec_def same_nears_def F_def)
    qed
  qed
qed

section \<open>Handing over\<close>

text \<open>The object is left as often as \<open>n\<close> says, each time by the thread that has it.\<close>

fun releases :: "nat \<Rightarrow> nat \<Rightarrow> monitors \<Rightarrow> sched_fault + monitors" where
  "releases 0 obj s = Inr s"
| "releases (Suc n) obj s =
     jvm_check (from_java_oop s obj) (\<lambda>l. jvm_check (unlock_object obj l s) (\<lambda>s. releases n obj s))"

lemma from_java_oop_monitor: "has_monitor s obj (l, t, ws) \<Longrightarrow> from_java_oop s obj = Inr l"
  by (simp add: has_monitor_def from_java_oop_def)

lemma releases_waiting:
  assumes "monitors_ok s M qs" "M obj = Some (l, t, ws)" "k < length ws"
  shows "\<exists>s' qs' l'. releases (Suc k) obj s = Inr s' \<and>
    monitors_ok s' (M(obj := Some (l', ws ! k, drop (Suc k) ws))) qs' \<and>
    (\<exists>p. ws ! k \<in> set (qs' p))"
  using assms
proof (induction k arbitrary: s M qs l t ws)
  case 0
  then obtain w vs where ws: "ws = w # vs" by (cases ws) auto
  from unlock_object_handoff [OF 0(1) 0(2) [unfolded ws]] obtain s' lw where
    "unlock_object obj l s = Inr s'" "monitors_ok s' (M(obj := Some (lw, w, vs)))
      (qs(t_priority (threads (sched s) w) := qs (t_priority (threads (sched s) w)) @ [w]))" by blast
  then show ?case
    using from_java_oop_monitor [OF monitors_okD(3) [OF 0(1,2)]] ws
    by (intro exI [of _ s'] exI [of _ lw]
        exI [of _ "qs(t_priority (threads (sched s) w) := qs (t_priority (threads (sched s) w)) @ [w])"]
        conjI exI [of _ "t_priority (threads (sched s) w)"]) (simp_all del: fun_upd_apply, simp)
next
  case (Suc k)
  then obtain w vs where ws: "ws = w # vs" by (cases ws) auto
  from unlock_object_handoff [OF Suc.prems(1) Suc.prems(2) [unfolded ws]] obtain s1 lw where s1:
    "unlock_object obj l s = Inr s1" "monitors_ok s1 (M(obj := Some (lw, w, vs)))
      (qs(t_priority (threads (sched s) w) := qs (t_priority (threads (sched s) w)) @ [w]))" by blast
  have "k < length vs" using Suc.prems(3) ws by simp
  moreover have "(M(obj := Some (lw, w, vs))) obj = Some (lw, w, vs)" by simp
  ultimately obtain s' qs' l' where
    "releases (Suc k) obj s1 = Inr s'" "monitors_ok s' (M(obj := Some (l', vs ! k, drop (Suc k) vs))) qs'"
    "\<exists>p. vs ! k \<in> set (qs' p)" using Suc.IH [OF s1(2)] unfolding fun_upd_upd by blast
  then show ?case
    using from_java_oop_monitor [OF monitors_okD(3) [OF Suc.prems(1,2)]] ws s1(1)
    by (intro exI [of _ s'] exI [of _ qs'] exI [of _ l']) (simp del: fun_upd_apply)
qed

text \<open>C10: A thread that waits for a monitor gets it, first come first served: when the object has been left by its
  holder and by the threads that wait before it, the thread is the holder and ready, and the threads behind it still
  wait in their order.\<close>

theorem monitor_first_come_first_served:
  assumes "monitors_ok s M qs" "M obj = Some (l, t, ws)" "k < length ws"
  shows "\<exists>s' qs' l'. releases (Suc k) obj s = Inr s' \<and>
    monitors_ok s' (M(obj := Some (l', ws ! k, drop (Suc k) ws))) qs' \<and>
    is_locked_by s' obj (ws ! k) = Inr True \<and>
    ws ! k \<in> set (qs' (t_priority (threads (sched s') (ws ! k))))"
proof -
  from releases_waiting [OF assms] obtain s' qs' l' p where s': "releases (Suc k) obj s = Inr s'"
    "monitors_ok s' (M(obj := Some (l', ws ! k, drop (Suc k) ws))) qs'" "ws ! k \<in> set (qs' p)" by blast
  have H: "has_monitor s' obj (l', ws ! k, drop (Suc k) ws)" using monitors_okD(3) [OF s'(2), of obj] by simp
  have "is_locked_by s' obj (ws ! k) = Inr True"
    using monitor_raw_value(2) [OF H] from_java_oop_monitor [OF H] H by (simp add: is_locked_by_def has_monitor_def)
  moreover have "t_priority (threads (sched s') (ws ! k)) = p"
    using monitors_okD(2) [OF s'(2)] s'(3) by (simp add: queues_sorted_def)
  ultimately show ?thesis using s' by blast
qed

section \<open>Examples\<close>

text \<open>Object 7 is held by thread 1 in slot 0; thread 2 waits for it with slot 1.\<close>

definition example_monitors :: monitors where
  "example_monitors =
     \<lparr>sched = \<lparr>threads = (\<lambda>u. \<lparr>t_next = (if u = 1 then Some 1 else None), t_previous = (if u = 1 then Some 1 else None),
         next_waiting = None, global_next = None, wait_obj = (if u = 2 then Some 7 else None), wakeup_time = 0,
         t_priority = 5, wait_stack_lock = (if u = 2 then Some 1 else None)\<rparr>),
       priority_queues = (replicate 11 None)[5 := Some 1], priority_queue_valid = 32, last_priority_queue = 5,
       next_runnable = None, thread_execute_counts = replicate 11 0\<rparr>,
      object_near = (\<lambda>o'. if o' = 7 then Stack_near 0 else Real_near 0), near_value = (\<lambda>_. 0),
      stack_locks = (\<lambda>l. if l = 0
        then \<lparr>sl_thread = Some 1, real_java_near = Some (Real_near 0), sl_waiters = Some 2, copied_near = 3, sl_owner = Some 7\<rparr>
        else \<lparr>sl_thread = None, real_java_near = None, sl_waiters = None, copied_near = 0, sl_owner = None\<rparr>),
      current_thread = 1, interned_string_near = 1\<rparr>"

lemma example_monitors_ok:
  "monitors_ok example_monitors [7 \<mapsto> (0, 1, [2])] (\<lambda>p. if p = 5 then [1] else [])"
proof (rule monitors_okI)
  have W: "waiting_threads [7 \<mapsto> (0, 1, [2])] = {2}" by (auto simp: waiting_threads_def split: if_splits)
  show "ready_queues (sched example_monitors) (\<lambda>p. if p = 5 then [1] else [])"
    by (auto simp: ready_queues_def example_monitors_def NUM_PRIORITY_SLOTS_def nth_list_update ring_def bit_32 less_Suc_eq_le simp del: bit_numeral_word_iff)
  show "queues_sorted (sched example_monitors) (\<lambda>p. if p = 5 then [1] else [])"
    by (simp add: queues_sorted_def example_monitors_def)
  show "has_monitor example_monitors obj m" if "[7 \<mapsto> (0, 1, [2])] obj = Some m" for obj m
    using that by (auto simp: has_monitor_def example_monitors_def free_near_def waits_for_def valid_priority_def
      NUM_PRIORITY_SLOTS_def split: if_splits)
  show "w \<notin> set (if p = 5 then [1] else [])" if "w \<in> waiting_threads [7 \<mapsto> (0, 1, [2])]" for w and p :: nat
    using that unfolding W by simp
  show "inj_on (\<lambda>w. wait_stack_lock (threads (sched example_monitors) w)) (waiting_threads [7 \<mapsto> (0, 1, [2])])"
    unfolding W by simp
qed (auto simp: free_near_def example_monitors_def split: if_splits)

lemma example_slots_ok: "slots_ok example_monitors [7 \<mapsto> (0, 1, [2])] [0]"
proof -
  have W: "waiting_threads [7 \<mapsto> (0, 1, [2])] = {2}" by (auto simp: waiting_threads_def split: if_splits)
  have "slots example_monitors obj [0] = (if obj = 7 then [0] else [])" for obj
    by (simp add: slots_def example_monitors_def)
  then show ?thesis unfolding slots_ok_def W by (simp add: slot_order_def) (simp add: example_monitors_def)
qed

lemma monitor_exit_nesting_witness:
  "\<exists>s' M' qs'. monitor_exit_internal 7 [0] example_monitors = Inr s' \<and> monitors_ok s' M' qs' \<and> M' 7 = Some (1, 2, [])"
proof -
  have "slots example_monitors 7 [0] = [0]" "real_java_near (stack_locks example_monitors 0) = Some (Real_near 0)"
    "wait_stack_lock (threads (sched example_monitors) 2) = Some 1"
    by (simp_all add: slots_def example_monitors_def)
  then show ?thesis
    using monitor_exit_nesting [OF example_monitors_ok example_slots_ok, of 7 0 "[]"] by (fastforce simp: Let_def)
qed

lemma monitor_enter_nesting_witness:
  "\<exists>F s' M' qs'. monitor_enter_internal 8 2 [0] example_monitors = Inr (True, F, s') \<and> monitors_ok s' M' qs' \<and>
    length (slots s' 8 F) = 1"
proof -
  have "2 \<notin> set [0 :: nat]" "unused_lock example_monitors [7 \<mapsto> (0, 1, [2])] 2"
    "object_near example_monitors 8 \<noteq> Real_near (interned_string_near example_monitors)"
    "current_thread example_monitors \<in> set (if t_priority (threads (sched example_monitors) (current_thread example_monitors)) = 5 then [1] else [])"
    "slots example_monitors 8 [0] = []"
    by (auto simp: unused_lock_def example_monitors_def waiting_threads_def slots_def split: if_splits)
  then show ?thesis
    using monitor_enter_nesting [OF example_monitors_ok example_slots_ok, of 2 8] by (fastforce simp: enter_spec_def)
qed

lemma monitor_first_come_first_served_witness:
  "\<exists>s'. releases 1 7 example_monitors = Inr s' \<and> is_locked_by s' 7 2 = Inr True"
  using monitor_first_come_first_served [OF example_monitors_ok, of 7 0 1 "[2]" 0] by auto

end
