(* ===== verification/Waiting_Lists.thy ===== *)
theory Waiting_Lists
  imports Monitors
begin

text \<open>
  The threads that wait or sleep (\<open>Scheduler.cpp\<close>).  \<open>Universe::scheduler_waiting\<close> is a thread object that heads two
  lists with simple links: \<open>next_waiting\<close> leads to the first waiting thread of each object, \<open>next\<close> to the
  sleeping threads, and \<open>next\<close> of the first waiting thread of an object to the others that wait for it.
  The \<open>global_next\<close> field of the head is the last thread of the list of first threads.

  The head is the argument \<open>sw\<close>.  A loop whose links do not come to an end is the fault \<open>No_end\<close>.
\<close>

section \<open>The operations\<close>

definition upd :: "tid \<Rightarrow> (thread \<Rightarrow> thread) \<Rightarrow> (tid \<Rightarrow> thread) \<Rightarrow> tid \<Rightarrow> thread" where
  "upd t f st = st(t := f (st t))"

partial_function (option) find_waiting ::
  "(tid \<Rightarrow> thread) \<Rightarrow> nat option \<Rightarrow> tid option \<Rightarrow> tid option option" where
  "find_waiting st obj current =
     (case current of
        None \<Rightarrow> Some None
      | Some c \<Rightarrow> if wait_obj (st c) = obj then Some (Some c) else find_waiting st obj (next_waiting (st c)))"

definition find_waiting_thread :: "tid \<Rightarrow> nat option \<Rightarrow> (tid \<Rightarrow> thread) \<Rightarrow> sched_fault + tid option" where
  "find_waiting_thread sw obj st =
     (case find_waiting st obj (Some sw) of None \<Rightarrow> Inl No_end | Some x \<Rightarrow> Inr x)"

partial_function (option) next_tail :: "(tid \<Rightarrow> thread) \<Rightarrow> tid \<Rightarrow> tid option" where
  "next_tail st t = (case t_next (st t) of None \<Rightarrow> Some t | Some n \<Rightarrow> next_tail st n)"

text \<open>The rest of \<open>add_waiting_thread\<close> when the thread has left the ready threads.\<close>

definition link_waiting_thread ::
  "tid \<Rightarrow> tid \<Rightarrow> nat \<Rightarrow> (tid \<Rightarrow> thread) \<Rightarrow> sched_fault + (tid \<times> (tid \<Rightarrow> thread))" where
  "link_waiting_thread sw thread obj st =
     jvm_check (find_waiting_thread sw (Some obj) st) (\<lambda>pending_waiters.
     let st = upd thread (\<lambda>x. x\<lparr>t_previous := None\<rparr>) st;
         finish = (\<lambda>p st. Inr (p, upd thread (\<lambda>x. x\<lparr>wait_obj := Some obj\<rparr>)
           (upd thread (\<lambda>x. x\<lparr>next_waiting := None\<rparr>) (upd thread (\<lambda>x. x\<lparr>t_next := None\<rparr>) st)))) in
     case pending_waiters of
       None \<Rightarrow>
         jvm_check (deref (global_next (st sw))) (\<lambda>tail.
         let st = upd tail (\<lambda>x. x\<lparr>next_waiting := Some thread\<rparr>) st;
             st = upd sw (\<lambda>x. x\<lparr>global_next := Some thread\<rparr>) st
         in finish thread st)
     | Some p \<Rightarrow>
         (case next_tail st p of
            None \<Rightarrow> Inl No_end
          | Some tail \<Rightarrow> finish p (upd tail (\<lambda>x. x\<lparr>t_next := Some thread\<rparr>) st)))"

definition add_waiting_thread ::
  "tid \<Rightarrow> tid \<Rightarrow> nat \<Rightarrow> scheduler \<Rightarrow> sched_fault + (tid \<times> scheduler)" where
  "add_waiting_thread sw thread obj s =
     jvm_check (remove_from_active thread s) (\<lambda>s.
     jvm_check (link_waiting_thread sw thread obj (threads s)) (\<lambda>(p, st).
     Inr (p, s\<lparr>threads := st\<rparr>)))"

text \<open>The loops of \<open>remove_waiting_thread\<close>: the thread before the searched one.\<close>

partial_function (option) before ::
  "(tid \<Rightarrow> tid option) \<Rightarrow> tid \<Rightarrow> tid \<Rightarrow> (tid \<times> tid option) option" where
  "before links t current =
     (case links current of
        None \<Rightarrow> Some (current, None)
      | Some n \<Rightarrow> if n = t then Some (current, Some n) else before links t n)"

definition remove_waiting_thread :: "tid \<Rightarrow> tid \<Rightarrow> (tid \<Rightarrow> thread) \<Rightarrow> sched_fault + (tid \<Rightarrow> thread)" where
  "remove_waiting_thread sw thread st =
     (let finish = (\<lambda>st. Inr (upd thread (\<lambda>x. x\<lparr>t_next := None\<rparr>) (upd thread (\<lambda>x. x\<lparr>next_waiting := None\<rparr>) st))) in
      jvm_check (case wait_obj (st thread) of
          None \<Rightarrow> Inr (Some sw)
        | Some obj \<Rightarrow> find_waiting_thread sw (Some obj) st) (\<lambda>list.
      if list = Some thread then
        (case before (\<lambda>t. next_waiting (st t)) thread sw of
           None \<Rightarrow> Inl No_end
         | Some (current, nxt) \<Rightarrow>
             let tail = global_next (st sw) in
             if t_next (st thread) = None then
               let st = upd current (\<lambda>x. x\<lparr>next_waiting := next_waiting (st thread)\<rparr>) st
               in finish (if tail = Some thread then upd sw (\<lambda>x. x\<lparr>global_next := Some current\<rparr>) st else st)
             else
               jvm_check (deref nxt) (\<lambda>n.
               jvm_check (deref (t_next (st thread))) (\<lambda>second.
               let nw = next_waiting (st n);
                   st = upd current (\<lambda>x. x\<lparr>next_waiting := Some second\<rparr>) st;
                   st = upd second (\<lambda>x. x\<lparr>next_waiting := nw\<rparr>) st
               in finish (if tail = Some thread then upd sw (\<lambda>x. x\<lparr>global_next := Some second\<rparr>) st else st))))
      else
        jvm_check (deref list) (\<lambda>first.
        case before (\<lambda>t. t_next (st t)) thread first of
          None \<Rightarrow> Inl No_end
        | Some (current, _) \<Rightarrow>
            finish (upd current (\<lambda>x. x\<lparr>t_next := t_next (st thread)\<rparr>) st))))"

definition add_to_sleeping :: "tid \<Rightarrow> tid \<Rightarrow> (tid \<Rightarrow> thread) \<Rightarrow> sched_fault + (tid \<Rightarrow> thread)" where
  "add_to_sleeping sw thread st =
     (case next_tail st sw of
        None \<Rightarrow> Inl No_end
      | Some current \<Rightarrow>
          let st = upd current (\<lambda>x. x\<lparr>t_next := Some thread\<rparr>) st;
              st = upd thread (\<lambda>x. x\<lparr>t_next := None\<rparr>) st
          in Inr (upd thread (\<lambda>x. x\<lparr>wait_obj := None\<rparr>) st))"

section \<open>What the lists stand for\<close>

text \<open>The objects that are waited for with their threads, and the sleeping threads.\<close>

type_synonym waiting = "(nat \<times> tid list) list"

definition waiting_lists :: "tid \<Rightarrow> (tid \<Rightarrow> thread) \<Rightarrow> waiting \<Rightarrow> tid list \<Rightarrow> bool" where
  "waiting_lists sw st gs ss =
     (wait_obj (st sw) = None \<and> chain (\<lambda>t. t_next (st t)) (t_next (st sw)) ss \<and>
      chain (\<lambda>t. next_waiting (st t)) (next_waiting (st sw)) (map (\<lambda>g. hd (snd g)) gs) \<and>
      global_next (st sw) = Some (last (sw # map (\<lambda>g. hd (snd g)) gs)) \<and>
      list_all (\<lambda>(obj, ts). ts \<noteq> [] \<and> chain (\<lambda>t. t_next (st t)) (head_of ts) ts \<and>
         list_all (\<lambda>t. wait_obj (st t) = Some obj) ts) gs \<and>
      list_all (\<lambda>t. wait_obj (st t) = None) ss \<and>
      distinct (map fst gs) \<and> distinct (sw # ss @ concat (map snd gs)))"

text \<open>The operations on them: a thread goes to the end of the threads of its object, and leaves them.\<close>

fun add_waiting :: "nat \<Rightarrow> tid \<Rightarrow> waiting \<Rightarrow> waiting" where
  "add_waiting obj t [] = [(obj, [t])]"
| "add_waiting obj t ((o', ts) # gs) = (if o' = obj then (o', ts @ [t]) # gs else (o', ts) # add_waiting obj t gs)"

fun remove_waiting :: "tid \<Rightarrow> waiting \<Rightarrow> waiting" where
  "remove_waiting t [] = []"
| "remove_waiting t ((o', ts) # gs) =
     (if t \<in> set ts then (if remove1 t ts = [] then gs else (o', remove1 t ts) # gs)
      else (o', ts) # remove_waiting t gs)"

section \<open>Chains\<close>

lemma chain_head: "chain f x ts \<Longrightarrow> x = head_of ts"
  by (cases ts) auto

lemma chain_end: "chain f x ts \<Longrightarrow> ts \<noteq> [] \<Longrightarrow> f (last ts) = None"
  by (induction ts arbitrary: x) auto

text \<open>A chain from a node on: another node at its end, one node less, and one node for another.\<close>

lemma chain_add:
  "chain f (f c) ts \<Longrightarrow> distinct (c # ts) \<Longrightarrow> t \<notin> set (c # ts) \<Longrightarrow> g t = None \<Longrightarrow>
   (\<And>a. a \<noteq> t \<Longrightarrow> g a = (if a = last (c # ts) then Some t else f a)) \<Longrightarrow> chain g (g c) (ts @ [t])"
proof (induction ts arbitrary: c)
  case (Cons a ts)
  have last: "last (c # a # ts) = last (a # ts)" by simp
  have "chain g (g a) (ts @ [t])"
    by (rule Cons.IH) (use Cons.prems in \<open>auto simp del: last.simps simp: last\<close>)
  moreover have "c \<noteq> last (a # ts)" using Cons.prems(2) last_in_set [of "a # ts"] by auto
  then have "g c = Some a" using Cons.prems(1,3) Cons.prems(5) [of c] by auto
  ultimately show ?case by simp
qed auto

lemma chain_remove:
  "chain f (f c) (as @ t # bs) \<Longrightarrow> distinct (c # as @ t # bs) \<Longrightarrow>
   (\<And>a. a \<noteq> t \<Longrightarrow> g a = (if a = last (c # as) then f t else f a)) \<Longrightarrow> chain g (g c) (as @ bs)"
proof (induction as arbitrary: c)
  case Nil
  have "g a = f a" if "a \<in> set bs" for a
  proof -
    have "a \<noteq> t" "a \<noteq> c" using that Nil.prems(2) by auto
    then show ?thesis using Nil.prems(3) [of a] by simp
  qed
  then have "chain g (f t) bs = chain f (f t) bs" by (rule chain_cong)
  then show ?case using Nil by auto
next
  case (Cons a as)
  have last: "last (c # a # as) = last (a # as)" by simp
  have "chain g (g a) (as @ bs)"
    by (rule Cons.IH) (use Cons.prems in \<open>auto simp del: last.simps simp: last\<close>)
  moreover have "c \<noteq> last (a # as)" using Cons.prems(2) last_in_set [of "a # as"] by auto
  then have "g c = Some a" using Cons.prems(1,2) Cons.prems(3) [of c] by auto
  ultimately show ?case by simp
qed

lemma chain_replace:
  "chain f (f c) (as @ t # bs) \<Longrightarrow> distinct (c # as @ t # bs) \<Longrightarrow> u \<notin> set (c # as @ t # bs) \<Longrightarrow> g u = f t \<Longrightarrow>
   (\<And>a. a \<noteq> t \<Longrightarrow> a \<noteq> u \<Longrightarrow> g a = (if a = last (c # as) then Some u else f a)) \<Longrightarrow> chain g (g c) (as @ u # bs)"
proof (induction as arbitrary: c)
  case Nil
  have "g a = f a" if "a \<in> set bs" for a
  proof -
    have "a \<noteq> t" "a \<noteq> c" "a \<noteq> u" using that Nil.prems(2,3) by auto
    then show ?thesis using Nil.prems(5) [of a] by simp
  qed
  then have "chain g (f t) bs = chain f (f t) bs" by (rule chain_cong)
  then show ?case using Nil by auto
next
  case (Cons a as)
  have last: "last (c # a # as) = last (a # as)" by simp
  have "chain g (g a) (as @ u # bs)"
    by (rule Cons.IH) (use Cons.prems in \<open>auto simp del: last.simps simp: last\<close>)
  moreover have "c \<noteq> last (a # as)" using Cons.prems(2) last_in_set [of "a # as"] by auto
  then have "g c = Some a" using Cons.prems(1-3) Cons.prems(5) [of c] by auto
  ultimately show ?case by simp
qed

section \<open>The loops\<close>

lemma next_tail_chain: "chain (\<lambda>t. t_next (st t)) (t_next (st c)) ts \<Longrightarrow> next_tail st c = Some (last (c # ts))"
proof (induction ts arbitrary: c)
  case Nil
  then show ?case by (subst next_tail.simps) simp
next
  case (Cons a ts)
  then show ?case by (subst next_tail.simps) simp
qed

lemma before_chain:
  "chain links (links c) (as @ t # bs) \<Longrightarrow> t \<notin> set as \<Longrightarrow> before links t c = Some (last (c # as), Some t)"
proof (induction as arbitrary: c)
  case Nil
  then show ?case by (subst before.simps) simp
next
  case (Cons a as)
  then show ?case by (subst before.simps) simp
qed

lemma find_waiting_chain:
  assumes "chain (\<lambda>t. next_waiting (st t)) x (map (\<lambda>g. hd (snd g)) gs)"
    "list_all (\<lambda>(o', ts). ts \<noteq> [] \<and> list_all (\<lambda>t. wait_obj (st t) = Some o') ts) gs"
  shows "find_waiting st (Some obj) x = Some (map_option hd (map_of gs obj))"
  using assms
proof (induction gs arbitrary: x)
  case Nil
  then show ?case by (subst find_waiting.simps) simp
next
  case (Cons g gs)
  obtain o' ts where g: "g = (o', ts)" "ts \<noteq> []" "wait_obj (st (hd ts)) = Some o'"
    using Cons.prems(2) by (cases g) (auto simp: list_all_iff)
  then show ?case using Cons by (subst find_waiting.simps) simp
qed

section \<open>The lists, apart from the store\<close>

text \<open>What the lists stand for, over the links alone.\<close>

definition heads :: "waiting \<Rightarrow> tid list" where
  "heads gs = map (\<lambda>g. hd (snd g)) gs"

definition group_ok :: "(tid \<Rightarrow> tid option) \<Rightarrow> (tid \<Rightarrow> nat option) \<Rightarrow> nat \<times> tid list \<Rightarrow> bool" where
  "group_ok nx wo g = (snd g \<noteq> [] \<and> chain nx (head_of (snd g)) (snd g) \<and> (\<forall>t \<in> set (snd g). wo t = Some (fst g)))"

definition lists_of ::
  "tid \<Rightarrow> (tid \<Rightarrow> tid option) \<Rightarrow> (tid \<Rightarrow> tid option) \<Rightarrow> (tid \<Rightarrow> nat option) \<Rightarrow> tid option \<Rightarrow> waiting \<Rightarrow> tid list \<Rightarrow> bool" where
  "lists_of sw nx nw wo gn gs ss =
     (wo sw = None \<and> chain nx (nx sw) ss \<and> chain nw (nw sw) (heads gs) \<and> gn = Some (last (sw # heads gs)) \<and>
      (\<forall>g \<in> set gs. group_ok nx wo g) \<and> (\<forall>t \<in> set ss. wo t = None) \<and>
      distinct (map fst gs) \<and> distinct (sw # ss @ concat (map snd gs)))"

lemma waiting_lists_of:
  "waiting_lists sw st gs ss = lists_of sw (\<lambda>t. t_next (st t)) (\<lambda>t. next_waiting (st t)) (\<lambda>t. wait_obj (st t))
     (global_next (st sw)) gs ss"
  by (auto simp: waiting_lists_def lists_of_def heads_def group_ok_def list_all_iff)

lemma heads_simps [simp]: "heads [] = []" "heads (g # gs) = hd (snd g) # heads gs" "heads (gs @ hs) = heads gs @ heads hs"
  by (simp_all add: heads_def)

lemma heads_in: "\<forall>g \<in> set gs. snd g \<noteq> [] \<Longrightarrow> set (heads gs) \<subseteq> set (concat (map snd gs))"
proof (induction gs)
  case (Cons g gs)
  then have "hd (snd g) \<in> set (snd g)" by simp
  then show ?case using Cons by auto
qed simp

lemma group_ok_cong:
  "(\<And>t. t \<in> set (snd g) \<Longrightarrow> nx' t = nx t) \<Longrightarrow> (\<And>t. t \<in> set (snd g) \<Longrightarrow> wo' t = wo t) \<Longrightarrow> group_ok nx' wo' g = group_ok nx wo g"
  using chain_cong [of "snd g" nx' nx "head_of (snd g)"] by (auto simp: group_ok_def)

text \<open>A thread that is in none of the lists, and then in one of them.\<close>

definition absent :: "tid \<Rightarrow> tid \<Rightarrow> waiting \<Rightarrow> tid list \<Rightarrow> bool" where
  "absent t sw gs ss = (t \<noteq> sw \<and> t \<notin> set ss \<and> t \<notin> set (concat (map snd gs)))"

lemma distinct_heads:
  assumes "\<forall>g \<in> set gs. snd g \<noteq> []" "distinct (sw # ss @ concat (map snd gs))"
  shows "distinct (sw # heads gs)" "set (heads gs) \<inter> set ss = {}"
proof -
  have sub: "set (heads gs) \<subseteq> set (concat (map snd gs))" by (rule heads_in [OF assms(1)])
  then show "set (heads gs) \<inter> set ss = {}" using assms(2) by auto
  have "\<forall>g \<in> set gs. snd g \<noteq> [] \<Longrightarrow> distinct (concat (map snd gs)) \<Longrightarrow> distinct (heads gs)"
  proof (induction gs)
    case (Cons g gs)
    have "set (heads gs) \<subseteq> set (concat (map snd gs))" by (rule heads_in) (use Cons.prems in auto)
    moreover have "hd (snd g) \<notin> set (concat (map snd gs))"
      using hd_in_set [of "snd g"] Cons.prems by (auto simp del: hd_in_set)
    ultimately show ?case using Cons by auto
  qed simp
  then show "distinct (sw # heads gs)" using sub assms by auto
qed

lemma lists_ofD:
  assumes "lists_of sw nx nw wo gn gs ss"
  shows "wo sw = None" "chain nx (nx sw) ss" "chain nw (nw sw) (heads gs)" "gn = Some (last (sw # heads gs))"
    "\<forall>g \<in> set gs. group_ok nx wo g" "\<forall>t \<in> set ss. wo t = None" "distinct (map fst gs)"
    "distinct (sw # ss @ concat (map snd gs))" "\<forall>g \<in> set gs. snd g \<noteq> []" "distinct (sw # heads gs)"
    "set (heads gs) \<subseteq> set (concat (map snd gs))"
proof -
  show ne: "\<forall>g \<in> set gs. snd g \<noteq> []" using assms by (simp add: lists_of_def group_ok_def)
  show "distinct (sw # heads gs)" by (rule distinct_heads(1) [of gs sw ss, OF ne]) (use assms in \<open>simp add: lists_of_def\<close>)
  show "set (heads gs) \<subseteq> set (concat (map snd gs))" by (rule heads_in [OF ne])
qed (use assms in \<open>simp_all add: lists_of_def\<close>)

text \<open>Groups that do not have the thread stay.\<close>

lemma groups_kept:
  assumes "\<forall>g \<in> set gs. group_ok nx wo g" "\<forall>a \<in> set (concat (map snd gs)). nx' a = nx a \<and> wo' a = wo a"
  shows "\<forall>g \<in> set gs. group_ok nx' wo' g"
proof
  fix g
  assume g: "g \<in> set gs"
  then have "set (snd g) \<subseteq> set (concat (map snd gs))" by auto
  then show "group_ok nx' wo' g" using assms g group_ok_cong [of g nx' nx wo' wo] by blast
qed

lemma lists_add_new:
  assumes "lists_of sw nx nw wo gn gs ss" "absent t sw gs ss" "obj \<notin> set (map fst gs)"
    "\<And>a. a \<noteq> t \<Longrightarrow> nx' a = nx a" "nx' t = None" "\<And>a. a \<noteq> t \<Longrightarrow> wo' a = wo a" "wo' t = Some obj"
    "\<And>a. a \<noteq> t \<Longrightarrow> nw' a = (if a = last (sw # heads gs) then Some t else nw a)" "nw' t = None" "gn' = Some t"
  shows "lists_of sw nx' nw' wo' gn' (gs @ [(obj, [t])]) ss"
proof -
  note L = lists_ofD [OF assms(1)]
  have t: "t \<noteq> sw" "t \<notin> set ss" "t \<notin> set (concat (map snd gs))" using assms(2) by (auto simp: absent_def)
  have "chain nx' (nx' sw) ss"
    using L(2) t chain_cong [of ss nx' nx "nx sw"] assms(4) by metis
  moreover have "chain nw' (nw' sw) (heads gs @ [t])"
    by (rule chain_add [OF L(3,10)]) (use t L(11) assms(8,9) in auto)
  moreover have "\<forall>g \<in> set gs. group_ok nx' wo' g" by (rule groups_kept [OF L(5)]) (use t assms(4,6) in metis)
  moreover have "group_ok nx' wo' (obj, [t])" using assms(5,7) by (simp add: group_ok_def)
  moreover have "\<forall>a \<in> set ss. wo' a = None" using L(6) t assms(6) by metis
  moreover have "wo' sw = None" using L(1) t(1) assms(6) by metis
  ultimately show ?thesis using L(7,8) t assms(3,10) by (auto simp: lists_of_def)
qed

lemma lists_add_old:
  assumes "lists_of sw nx nw wo gn (gs @ (obj, ts) # hs) ss" "absent t sw (gs @ (obj, ts) # hs) ss"
    "\<And>a. a \<noteq> t \<Longrightarrow> nx' a = (if a = last ts then Some t else nx a)" "nx' t = None"
    "\<And>a. a \<noteq> t \<Longrightarrow> wo' a = wo a" "wo' t = Some obj" "\<And>a. a \<noteq> t \<Longrightarrow> nw' a = nw a"
  shows "lists_of sw nx' nw' wo' gn (gs @ (obj, ts @ [t]) # hs) ss"
proof -
  note L = lists_ofD [OF assms(1)]
  have t: "t \<noteq> sw" "t \<notin> set ss" "t \<notin> set ts" "t \<notin> set (concat (map snd gs))" "t \<notin> set (concat (map snd hs))"
    using assms(2) by (auto simp: absent_def)
  obtain h us where ts: "ts = h # us" using L(9) by (cases ts) auto
  have last: "last ts \<in> set ts" by (simp add: ts)
  have l: "last ts \<noteq> sw" "last ts \<notin> set ss" "last ts \<notin> set (concat (map snd gs))" "last ts \<notin> set (concat (map snd hs))"
    using L(8) last by auto
  have "nx' a = nx a" if "a \<noteq> t" "a \<noteq> last ts" for a using assms(3) that by simp
  then have "chain nx' (nx' sw) ss"
    using L(2) t l chain_cong [of ss nx' nx "nx sw"] by metis
  moreover have "heads (gs @ (obj, ts @ [t]) # hs) = heads (gs @ (obj, ts) # hs)" by (simp add: ts)
  moreover have "chain nw' (nw' sw) (heads (gs @ (obj, ts) # hs))"
  proof -
    have "t \<notin> set (heads (gs @ (obj, ts) # hs))" using L(11) t by auto
    then show ?thesis using L(3) t(1) assms(7) chain_cong [of "heads (gs @ (obj, ts) # hs)" nw' nw "nw sw"] by metis
  qed
  moreover have "\<forall>g \<in> set gs. group_ok nx' wo' g" "\<forall>g \<in> set hs. group_ok nx' wo' g"
  proof -
    have "\<forall>g \<in> set gs. group_ok nx wo g" "\<forall>g \<in> set hs. group_ok nx wo g" using L(5) by auto
    moreover have "\<forall>a \<in> set (concat (map snd gs)). nx' a = nx a \<and> wo' a = wo a"
      "\<forall>a \<in> set (concat (map snd hs)). nx' a = nx a \<and> wo' a = wo a" using t l assms(3,5) by metis+
    ultimately show "\<forall>g \<in> set gs. group_ok nx' wo' g" "\<forall>g \<in> set hs. group_ok nx' wo' g" using groups_kept by blast+
  qed
  moreover have "group_ok nx' wo' (obj, ts @ [t])"
  proof -
    have g: "group_ok nx wo (obj, ts)" using L(5) by simp
    have "chain nx' (nx' h) (us @ [t])"
      by (rule chain_add [of nx]) (use g L(8) t assms(3,4) in \<open>auto simp: group_ok_def ts\<close>)
    moreover have "\<forall>a \<in> set ts. wo' a = Some obj"
      using g t(3) assms(5) unfolding group_ok_def by (metis fst_conv snd_conv)
    ultimately show ?thesis using assms(6) by (simp add: group_ok_def ts)
  qed
  moreover have "\<forall>a \<in> set ss. wo' a = None" using L(6) t assms(5) by metis
  moreover have "wo' sw = None" using L(1) t(1) assms(5) by metis
  ultimately show ?thesis using L(4,7,8) t by (auto simp: lists_of_def)
qed

lemma lists_add_sleeper:
  assumes "lists_of sw nx nw wo gn gs ss" "absent t sw gs ss"
    "\<And>a. a \<noteq> t \<Longrightarrow> nx' a = (if a = last (sw # ss) then Some t else nx a)" "nx' t = None"
    "\<And>a. a \<noteq> t \<Longrightarrow> wo' a = wo a" "wo' t = None" "\<And>a. a \<noteq> t \<Longrightarrow> nw' a = nw a"
  shows "lists_of sw nx' nw' wo' gn gs (ss @ [t])"
proof -
  note L = lists_ofD [OF assms(1)]
  have t: "t \<noteq> sw" "t \<notin> set ss" "t \<notin> set (concat (map snd gs))" using assms(2) by (auto simp: absent_def)
  have last: "last (sw # ss) \<in> set (sw # ss)" by (rule last_in_set) simp
  then have l: "last (sw # ss) \<notin> set (concat (map snd gs))" using L(8) by (auto simp del: last.simps)
  have "chain nx' (nx' sw) (ss @ [t])"
    by (rule chain_add [OF L(2)]) (use t L(8) assms(3,4) in auto)
  moreover have "chain nw' (nw' sw) (heads gs)"
    using L(3,11) t assms(7) chain_cong [of "heads gs" nw' nw "nw sw"] by (metis subsetD)
  moreover have "\<forall>g \<in> set gs. group_ok nx' wo' g"
    by (rule groups_kept [OF L(5)]) (use t l assms(3,5) in metis)
  moreover have "\<forall>a \<in> set (ss @ [t]). wo' a = None" using L(6) t assms(5,6) by (metis Un_iff empty_iff empty_set list.set_cases set_ConsD set_append)
  moreover have "wo' sw = None" using L(1) t(1) assms(5) by metis
  ultimately show ?thesis using L(4,7,8) t by (auto simp: lists_of_def)
qed

lemma lists_remove_sleeper:
  assumes "lists_of sw nx nw wo gn gs (as @ t # bs)"
    "\<And>a. a \<noteq> t \<Longrightarrow> nx' a = (if a = last (sw # as) then nx t else nx a)" "\<And>a. a \<noteq> t \<Longrightarrow> nw' a = nw a"
  shows "lists_of sw nx' nw' wo gn gs (as @ bs)"
proof -
  note L = lists_ofD [OF assms(1)]
  have t: "t \<notin> set (concat (map snd gs))" "t \<noteq> sw" using L(8) by auto
  have "last (sw # as) \<in> set (sw # as)" by (rule last_in_set) simp
  then have l: "last (sw # as) \<notin> set (concat (map snd gs))" using L(8) by (auto simp del: last.simps)
  have "chain nx' (nx' sw) (as @ bs)"
    by (rule chain_remove [OF L(2)]) (use L(8) assms(2) in auto)
  moreover have "chain nw' (nw' sw) (heads gs)"
    using L(3,11) t assms(3) chain_cong [of "heads gs" nw' nw "nw sw"] by (metis subsetD)
  moreover have "\<forall>g \<in> set gs. group_ok nx' wo g"
    by (rule groups_kept [OF L(5)]) (use t l assms(2) in metis)
  ultimately show ?thesis using L(1,4,6-8) by (auto simp: lists_of_def)
qed

lemma lists_remove_later:
  assumes "lists_of sw nx nw wo gn (gs @ (obj, h # as @ t # bs) # hs) ss"
    "\<And>a. a \<noteq> t \<Longrightarrow> nx' a = (if a = last (h # as) then nx t else nx a)" "\<And>a. a \<noteq> t \<Longrightarrow> nw' a = nw a"
  shows "lists_of sw nx' nw' wo gn (gs @ (obj, h # as @ bs) # hs) ss"
proof -
  note L = lists_ofD [OF assms(1)]
  have t: "t \<notin> set ss" "t \<noteq> sw" "t \<notin> set (concat (map snd gs))" "t \<notin> set (concat (map snd hs))" "t \<noteq> h"
    using L(8) by auto
  have "last (h # as) \<in> set (h # as)" by (rule last_in_set) simp
  then have l: "last (h # as) \<noteq> sw" "last (h # as) \<notin> set ss" "last (h # as) \<notin> set (concat (map snd gs))"
    "last (h # as) \<notin> set (concat (map snd hs))"
    using L(8) by (auto simp del: last.simps)
  have kept: "nx' a = nx a" if "a \<noteq> t" "a \<noteq> last (h # as)" for a using assms(2) that by simp
  then have "chain nx' (nx' sw) ss" using L(2) t l chain_cong [of ss nx' nx "nx sw"] by metis
  moreover have "heads (gs @ (obj, h # as @ bs) # hs) = heads (gs @ (obj, h # as @ t # bs) # hs)" by simp
  moreover have "chain nw' (nw' sw) (heads (gs @ (obj, h # as @ t # bs) # hs))"
  proof -
    have "set (heads gs) \<subseteq> set (concat (map snd gs))" "set (heads hs) \<subseteq> set (concat (map snd hs))"
      using L(9) by (intro heads_in; auto)+
    then have "t \<notin> set (heads (gs @ (obj, h # as @ t # bs) # hs))" using t by auto
    then show ?thesis
      using L(3) t(2) assms(3) chain_cong [of "heads (gs @ (obj, h # as @ t # bs) # hs)" nw' nw "nw sw"] by metis
  qed
  moreover have "\<forall>g \<in> set gs. group_ok nx' wo g" "\<forall>g \<in> set hs. group_ok nx' wo g"
  proof -
    have "\<forall>g \<in> set gs. group_ok nx wo g" "\<forall>g \<in> set hs. group_ok nx wo g" using L(5) by auto
    moreover have "\<forall>a \<in> set (concat (map snd gs)). nx' a = nx a \<and> wo a = wo a"
      "\<forall>a \<in> set (concat (map snd hs)). nx' a = nx a \<and> wo a = wo a" using t l kept by metis+
    ultimately show "\<forall>g \<in> set gs. group_ok nx' wo g" "\<forall>g \<in> set hs. group_ok nx' wo g" using groups_kept by blast+
  qed
  moreover have "group_ok nx' wo (obj, h # as @ bs)"
  proof -
    have g: "group_ok nx wo (obj, h # as @ t # bs)" using L(5) by simp
    have "chain nx' (nx' h) (as @ bs)"
      by (rule chain_remove [of nx _ _ t]) (use g L(8) assms(2) in \<open>auto simp: group_ok_def\<close>)
    then show ?thesis using g by (simp add: group_ok_def)
  qed
  ultimately show ?thesis using L(1,4,6-8) by (auto simp: lists_of_def)
qed

lemma lists_remove_only:
  assumes "lists_of sw nx nw wo gn (gs @ (obj, [t]) # hs) ss"
    "\<And>a. a \<noteq> t \<Longrightarrow> nx' a = nx a" "\<And>a. a \<noteq> t \<Longrightarrow> nw' a = (if a = last (sw # heads gs) then nw t else nw a)"
    "gn' = (if gn = Some t then Some (last (sw # heads gs)) else gn)"
  shows "lists_of sw nx' nw' wo gn' (gs @ hs) ss"
proof -
  note L = lists_ofD [OF assms(1)]
  have t: "t \<notin> set ss" "t \<noteq> sw" "t \<notin> set (concat (map snd gs))" "t \<notin> set (concat (map snd hs))" using L(8) by auto
  have "chain nx' (nx' sw) ss" using L(2) t assms(2) chain_cong [of ss nx' nx "nx sw"] by metis
  moreover have "chain nw' (nw' sw) (heads gs @ heads hs)"
    by (rule chain_remove [of nw _ _ t]) (use L(3,10) assms(3) in simp_all)
  moreover have "\<forall>g \<in> set gs. group_ok nx' wo g" "\<forall>g \<in> set hs. group_ok nx' wo g"
  proof -
    have "\<forall>g \<in> set gs. group_ok nx wo g" "\<forall>g \<in> set hs. group_ok nx wo g" using L(5) by auto
    moreover have "\<forall>a \<in> set (concat (map snd gs)). nx' a = nx a \<and> wo a = wo a"
      "\<forall>a \<in> set (concat (map snd hs)). nx' a = nx a \<and> wo a = wo a" using t assms(2) by metis+
    ultimately show "\<forall>g \<in> set gs. group_ok nx' wo g" "\<forall>g \<in> set hs. group_ok nx' wo g" using groups_kept by blast+
  qed
  moreover have "gn' = Some (last (sw # heads (gs @ hs)))"
  proof (cases "heads hs")
    case Nil
    then show ?thesis using L(4) assms(4) by simp
  next
    case (Cons h us)
    then have "last (heads hs) \<in> set (heads hs)" by (intro last_in_set) simp
    moreover have "t \<notin> set (heads hs)" using L(10) by simp
    ultimately have "last (heads hs) \<noteq> t" by metis
    then show ?thesis using L(4) assms(4) Cons by (simp split: if_splits)
  qed
  ultimately show ?thesis using L(1,6-8) by (auto simp: lists_of_def)
qed

lemma lists_remove_first:
  assumes "lists_of sw nx nw wo gn (gs @ (obj, t # u # us) # hs) ss"
    "\<And>a. a \<noteq> t \<Longrightarrow> nx' a = nx a"
    "\<And>a. a \<noteq> t \<Longrightarrow> a \<noteq> u \<Longrightarrow> nw' a = (if a = last (sw # heads gs) then Some u else nw a)" "nw' u = nw t"
    "gn' = (if gn = Some t then Some u else gn)"
  shows "lists_of sw nx' nw' wo gn' (gs @ (obj, u # us) # hs) ss"
proof -
  note L = lists_ofD [OF assms(1)]
  have t: "t \<notin> set ss" "t \<noteq> sw" "t \<notin> set (concat (map snd gs))" "t \<notin> set (concat (map snd hs))" "t \<notin> set (u # us)"
    using L(8) by auto
  have sub: "set (heads gs) \<subseteq> set (concat (map snd gs))" "set (heads hs) \<subseteq> set (concat (map snd hs))"
    using L(9) by (intro heads_in; auto)+
  have "chain nw (nw sw) (heads gs @ t # heads hs)" "distinct (sw # heads gs @ t # heads hs)" using L(3,10) by simp_all
  moreover have "u \<notin> set (sw # heads gs @ t # heads hs)" using L(8) sub by auto
  ultimately have "chain nw' (nw' sw) (heads gs @ u # heads hs)"
    using chain_replace [of nw sw "heads gs" t "heads hs" u nw'] assms(3,4) by blast
  moreover have "chain nx' (nx' sw) ss" using L(2) t assms(2) chain_cong [of ss nx' nx "nx sw"] by metis
  moreover have "\<forall>g \<in> set gs. group_ok nx' wo g" "\<forall>g \<in> set hs. group_ok nx' wo g"
  proof -
    have "\<forall>g \<in> set gs. group_ok nx wo g" "\<forall>g \<in> set hs. group_ok nx wo g" using L(5) by auto
    moreover have "\<forall>a \<in> set (concat (map snd gs)). nx' a = nx a \<and> wo a = wo a"
      "\<forall>a \<in> set (concat (map snd hs)). nx' a = nx a \<and> wo a = wo a" using t assms(2) by metis+
    ultimately show "\<forall>g \<in> set gs. group_ok nx' wo g" "\<forall>g \<in> set hs. group_ok nx' wo g" using groups_kept by blast+
  qed
  moreover have "group_ok nx' wo (obj, u # us)"
  proof -
    have g: "group_ok nx wo (obj, t # u # us)" using L(5) by simp
    have "chain nx' (Some u) (u # us) = chain nx (Some u) (u # us)"
      by (rule chain_cong) (use t(5) assms(2) in metis)
    then show ?thesis using g by (auto simp: group_ok_def)
  qed
  moreover have "gn' = Some (last (sw # heads (gs @ (obj, u # us) # hs)))"
  proof (cases "heads hs")
    case Nil
    then show ?thesis using L(4) assms(5) by simp
  next
    case (Cons h vs)
    then have "last (heads hs) \<in> set (heads hs)" by (intro last_in_set) simp
    moreover have "t \<notin> set (heads hs)" using L(10) by simp
    ultimately have "last (heads hs) \<noteq> t" by metis
    then show ?thesis using L(4) assms(5) Cons by (simp split: if_splits)
  qed
  ultimately show ?thesis using L(1,6-8) by (auto simp: lists_of_def)
qed

end
