(* ===== verification/Waiting_Rules.thy ===== *)
theory Waiting_Rules
  imports Waiting_Lists
begin

text \<open>
  The operations on the waiting and the sleeping threads (\<open>add_waiting_thread\<close>,
  \<open>remove_waiting_thread\<close>, \<open>add_to_sleeping\<close>) as operations on the lists that the links stand for.
\<close>

section \<open>The lists by cases\<close>

lemma add_waiting_new: "obj \<notin> set (map fst gs) \<Longrightarrow> add_waiting obj t gs = gs @ [(obj, [t])]"
  by (induction gs) auto

lemma add_waiting_old: "obj \<notin> set (map fst gs) \<Longrightarrow> add_waiting obj t (gs @ (obj, ts) # hs) = gs @ (obj, ts @ [t]) # hs"
  by (induction gs) auto

lemma remove_waiting_in:
  "t \<notin> set (concat (map snd gs)) \<Longrightarrow> t \<in> set ts \<Longrightarrow>
   remove_waiting t (gs @ (obj, ts) # hs) = gs @ (if remove1 t ts = [] then hs else (obj, remove1 t ts) # hs)"
  by (induction gs) auto

lemma remove_waiting_absent: "t \<notin> set (concat (map snd gs)) \<Longrightarrow> remove_waiting t gs = gs"
  by (induction gs) auto

lemma waiting_find:
  assumes "waiting_lists sw st gs ss"
  shows "find_waiting_thread sw (Some obj) st = Inr (map_option hd (map_of gs obj))"
proof -
  have L: "wait_obj (st sw) = None" "chain (\<lambda>t. next_waiting (st t)) (next_waiting (st sw)) (map (\<lambda>g. hd (snd g)) gs)"
    "list_all (\<lambda>(o', ts). ts \<noteq> [] \<and> list_all (\<lambda>t. wait_obj (st t) = Some o') ts) gs"
    using assms by (auto simp: waiting_lists_def list_all_iff)
  then have "find_waiting st (Some obj) (Some sw) = find_waiting st (Some obj) (next_waiting (st sw))"
    by (subst find_waiting.simps) simp
  then show ?thesis using find_waiting_chain [OF L(2,3)] by (simp add: find_waiting_thread_def)
qed

section \<open>Waiting\<close>

lemma upd_apply: "upd t f st a = (if a = t then f (st a) else st a)"
  by (simp add: upd_def)

lemma link_waiting_new:
  assumes "waiting_lists sw st gs ss" "absent t sw gs ss" "map_of gs obj = None"
  shows "\<exists>st'. link_waiting_thread sw t obj st = Inr (t, st') \<and> waiting_lists sw st' (add_waiting obj t gs) ss \<and>
    (\<forall>u. u \<noteq> t \<longrightarrow> t_next (st' u) = t_next (st u)) \<and> (\<forall>u. u \<noteq> t \<longrightarrow> t_previous (st' u) = t_previous (st u)) \<and>
    (\<forall>u. t_priority (st' u) = t_priority (st u))"
proof -
  note L = assms(1) [unfolded waiting_lists_of]
  note D = lists_ofD [OF L]
  have t: "t \<noteq> sw" using assms(2) by (simp add: absent_def)
  define tail where "tail = last (sw # heads gs)"
  have "tail \<in> set (sw # heads gs)" unfolding tail_def by (rule last_in_set) simp
  then have tail: "tail \<noteq> t" using D(11) assms(2) by (auto simp: absent_def)
  define st' where "st' = upd t (\<lambda>x. x\<lparr>wait_obj := Some obj\<rparr>) (upd t (\<lambda>x. x\<lparr>next_waiting := None\<rparr>) (upd t (\<lambda>x. x\<lparr>t_next := None\<rparr>)
    (upd sw (\<lambda>x. x\<lparr>global_next := Some t\<rparr>) (upd tail (\<lambda>x. x\<lparr>next_waiting := Some t\<rparr>) (upd t (\<lambda>x. x\<lparr>t_previous := None\<rparr>) st)))))"
  have gn: "global_next (upd t (\<lambda>x. x\<lparr>t_previous := None\<rparr>) st sw) = Some tail"
    using D(4) t by (simp add: upd_apply tail_def)
  have run: "link_waiting_thread sw t obj st = Inr (t, st')"
    by (simp add: link_waiting_thread_def waiting_find [OF assms(1)] assms(3) Let_def gn deref_def st'_def)
  have "lists_of sw (\<lambda>a. t_next (st' a)) (\<lambda>a. next_waiting (st' a)) (\<lambda>a. wait_obj (st' a)) (global_next (st' sw)) (gs @ [(obj, [t])]) ss"
  proof (rule lists_add_new [OF L assms(2)])
    show "obj \<notin> set (map fst gs)" using assms(3) by (simp add: map_of_eq_None_iff)
    show "next_waiting (st' a) = (if a = last (sw # heads gs) then Some t else next_waiting (st a))" if "a \<noteq> t" for a
      unfolding tail_def [symmetric] using that by (simp add: st'_def upd_apply)
  qed (use t in \<open>simp_all add: st'_def upd_apply\<close>)
  then have "waiting_lists sw st' (add_waiting obj t gs) ss"
    using assms(3) by (simp add: waiting_lists_of add_waiting_new map_of_eq_None_iff)
  then show ?thesis using run by (auto simp: st'_def upd_apply)
qed

lemma link_waiting_old:
  assumes "waiting_lists sw st gs ss" "absent t sw gs ss" "map_of gs obj = Some ts"
  shows "\<exists>st'. link_waiting_thread sw t obj st = Inr (hd ts, st') \<and> waiting_lists sw st' (add_waiting obj t gs) ss \<and>
    (\<forall>u. u \<noteq> t \<longrightarrow> u \<notin> set ts \<longrightarrow> t_next (st' u) = t_next (st u)) \<and>
    (\<forall>u. u \<noteq> t \<longrightarrow> t_previous (st' u) = t_previous (st u)) \<and> (\<forall>u. t_priority (st' u) = t_priority (st u))"
proof -
  note L = assms(1) [unfolded waiting_lists_of]
  note D = lists_ofD [OF L]
  obtain as bs where gs: "gs = as @ (obj, ts) # bs" using map_of_SomeD [OF assms(3)] split_list by fast
  have out: "obj \<notin> set (map fst as)" using D(7) by (simp add: gs)
  have t: "t \<noteq> sw" "t \<notin> set ts" using assms(2) by (auto simp: absent_def gs)
  obtain h us where ts: "ts = h # us" using D(9) by (cases ts) (auto simp: gs)
  have last: "last ts \<in> set ts" by (simp add: ts)
  then have tail: "last ts \<noteq> t" using t by metis
  define st1 where "st1 = upd t (\<lambda>x. x\<lparr>t_previous := None\<rparr>) st"
  define st' where "st' = upd t (\<lambda>x. x\<lparr>wait_obj := Some obj\<rparr>) (upd t (\<lambda>x. x\<lparr>next_waiting := None\<rparr>) (upd t (\<lambda>x. x\<lparr>t_next := None\<rparr>)
    (upd (last ts) (\<lambda>x. x\<lparr>t_next := Some t\<rparr>) st1)))"
  have "(\<lambda>u. t_next (st1 u)) = (\<lambda>u. t_next (st u))" by (simp add: st1_def upd_apply fun_eq_iff)
  moreover have "group_ok (\<lambda>u. t_next (st u)) (\<lambda>u. wait_obj (st u)) (obj, ts)" using D(5) by (simp add: gs)
  ultimately have "chain (\<lambda>u. t_next (st1 u)) (t_next (st1 h)) us" by (simp add: group_ok_def ts) (metis)
  then have "next_tail st1 h = Some (last ts)" using next_tail_chain [of st1 h us] by (simp add: ts)
  then have run: "link_waiting_thread sw t obj st = Inr (hd ts, st')"
    by (simp add: link_waiting_thread_def waiting_find [OF assms(1)] assms(3) Let_def st1_def [symmetric] st'_def ts)
  have "lists_of sw (\<lambda>a. t_next (st' a)) (\<lambda>a. next_waiting (st' a)) (\<lambda>a. wait_obj (st' a)) (global_next (st sw)) (as @ (obj, ts @ [t]) # bs) ss"
    by (rule lists_add_old [OF L [unfolded gs] assms(2) [unfolded gs]])
      (use tail in \<open>simp_all add: st'_def st1_def upd_apply\<close>)
  moreover have "global_next (st' sw) = global_next (st sw)" by (simp add: st'_def st1_def upd_apply)
  ultimately have "waiting_lists sw st' (add_waiting obj t gs) ss"
    by (simp add: waiting_lists_of gs add_waiting_old [OF out])
  then show ?thesis using run last by (auto simp: st'_def st1_def upd_apply)
qed

section \<open>Waking up\<close>

lemma remove_sleeping_thread:
  assumes "waiting_lists sw st gs ss" "t \<in> set ss"
  shows "\<exists>st'. remove_waiting_thread sw t st = Inr st' \<and> waiting_lists sw st' gs (remove1 t ss) \<and>
    t_next (st' t) = None \<and> next_waiting (st' t) = None"
proof -
  note L = assms(1) [unfolded waiting_lists_of]
  note D = lists_ofD [OF L]
  obtain as bs where ss: "ss = as @ t # bs" "t \<notin> set as" using split_list_first [OF assms(2)] by blast
  have t: "t \<noteq> sw" "wait_obj (st t) = None" using D(6,8) assms(2) by auto
  define current where "current = last (sw # as)"
  have "current \<in> set (sw # as)" unfolding current_def by (rule last_in_set) simp
  then have cur: "current \<noteq> t" using t(1) ss(2) by auto
  have b: "before (\<lambda>t. t_next (st t)) t sw = Some (current, Some t)"
    unfolding current_def by (rule before_chain [where bs = bs]) (use D(2) ss in simp_all)
  define st' where "st' = upd t (\<lambda>x. x\<lparr>t_next := None\<rparr>) (upd t (\<lambda>x. x\<lparr>next_waiting := None\<rparr>)
    (upd current (\<lambda>x. x\<lparr>t_next := t_next (st t)\<rparr>) st))"
  have run: "remove_waiting_thread sw t st = Inr st'"
    using t by (simp add: remove_waiting_thread_def b deref_def st'_def Let_def)
  have "lists_of sw (\<lambda>a. t_next (st' a)) (\<lambda>a. next_waiting (st' a)) (\<lambda>a. wait_obj (st a)) (global_next (st sw)) gs (as @ bs)"
  proof (rule lists_remove_sleeper [OF L [unfolded ss(1)]])
    show "t_next (st' a) = (if a = last (sw # as) then t_next (st t) else t_next (st a))" if "a \<noteq> t" for a
      unfolding current_def [symmetric] using that by (simp add: st'_def upd_apply)
  qed (simp add: st'_def upd_apply)
  moreover have "(\<lambda>a. wait_obj (st' a)) = (\<lambda>a. wait_obj (st a))" "global_next (st' sw) = global_next (st sw)"
    by (simp_all add: st'_def upd_apply fun_eq_iff)
  ultimately have "waiting_lists sw st' gs (remove1 t ss)"
    using ss by (simp add: waiting_lists_of remove1_append)
  then show ?thesis using run by (auto simp: st'_def upd_apply)
qed

lemma remove_waiting_group:
  assumes "waiting_lists sw st (gs @ (obj, ts) # hs) ss" "t \<in> set ts"
  shows "\<exists>st'. remove_waiting_thread sw t st = Inr st' \<and>
    waiting_lists sw st' (gs @ (if remove1 t ts = [] then hs else (obj, remove1 t ts) # hs)) ss \<and>
    t_next (st' t) = None \<and> next_waiting (st' t) = None"
proof -
  note L = assms(1) [unfolded waiting_lists_of]
  note D = lists_ofD [OF L]
  obtain h us where ts: "ts = h # us" using assms(2) by (cases ts) auto
  have g: "group_ok (\<lambda>a. t_next (st a)) (\<lambda>a. wait_obj (st a)) (obj, ts)" using D(5) by simp
  have t: "t \<noteq> sw" "wait_obj (st t) = Some obj" using D(8) g assms(2) by (auto simp: group_ok_def)
  have "obj \<notin> set (map fst gs)" using D(7) by simp
  then have "map_of gs obj = None" by (simp add: map_of_eq_None_iff)
  then have "map_of (gs @ (obj, ts) # hs) obj = Some ts" by (simp add: map_add_def)
  then have f: "find_waiting_thread sw (Some obj) st = Inr (Some h)" using waiting_find [OF assms(1), of obj] by (simp add: ts)
  show ?thesis
  proof (cases "h = t")
    case False
    then have "t \<in> set us" using assms(2) ts by simp
    then obtain as bs where us: "us = as @ t # bs" "t \<notin> set as" using split_list_first by fast
    define current where "current = last (h # as)"
    have "current \<in> set (h # as)" unfolding current_def by (rule last_in_set) simp
    then have cur: "current \<noteq> t" using False us(2) by auto
    have b: "before (\<lambda>t. t_next (st t)) t h = Some (current, Some t)"
      unfolding current_def by (rule before_chain [where bs = bs]) (use g us in \<open>simp_all add: ts group_ok_def\<close>)
    define st' where "st' = upd t (\<lambda>x. x\<lparr>t_next := None\<rparr>) (upd t (\<lambda>x. x\<lparr>next_waiting := None\<rparr>)
      (upd current (\<lambda>x. x\<lparr>t_next := t_next (st t)\<rparr>) st))"
    have run: "remove_waiting_thread sw t st = Inr st'"
      using t(2) False by (simp add: remove_waiting_thread_def f b deref_def st'_def Let_def)
    have "lists_of sw (\<lambda>a. t_next (st' a)) (\<lambda>a. next_waiting (st' a)) (\<lambda>a. wait_obj (st a)) (global_next (st sw))
        (gs @ (obj, h # as @ bs) # hs) ss"
    proof (rule lists_remove_later [OF L [unfolded ts us(1)]])
      show "t_next (st' a) = (if a = last (h # as) then t_next (st t) else t_next (st a))" if "a \<noteq> t" for a
        unfolding current_def [symmetric] using that by (simp add: st'_def upd_apply)
    qed (simp add: st'_def upd_apply)
    moreover have "(\<lambda>a. wait_obj (st' a)) = (\<lambda>a. wait_obj (st a))" "global_next (st' sw) = global_next (st sw)"
      by (simp_all add: st'_def upd_apply fun_eq_iff)
    moreover have "remove1 t ts = h # as @ bs" using us False by (simp add: ts remove1_append)
    ultimately have "waiting_lists sw st' (gs @ (if remove1 t ts = [] then hs else (obj, remove1 t ts) # hs)) ss"
      by (simp add: waiting_lists_of)
    then show ?thesis using run by (auto simp: st'_def upd_apply)
  next
    case True
    define current where "current = last (sw # heads gs)"
    have hs: "distinct (sw # heads gs @ t # heads hs)" using D(10) by (simp add: ts True)
    have "current \<in> set (sw # heads gs)" unfolding current_def by (rule last_in_set) simp
    then have cur: "current \<noteq> t" using hs by auto
    have b: "before (\<lambda>t. next_waiting (st t)) t sw = Some (current, Some t)"
      unfolding current_def by (rule before_chain [where bs = "heads hs"]) (use D(3) hs in \<open>simp_all add: ts True\<close>)
    show ?thesis
    proof (cases us)
      case Nil
      have nx: "t_next (st t) = None" using g by (simp add: group_ok_def ts True Nil)
      define st' where "st' = upd t (\<lambda>x. x\<lparr>t_next := None\<rparr>) (upd t (\<lambda>x. x\<lparr>next_waiting := None\<rparr>)
        (let st2 = upd current (\<lambda>x. x\<lparr>next_waiting := next_waiting (st t)\<rparr>) st
         in if global_next (st sw) = Some t then upd sw (\<lambda>x. x\<lparr>global_next := Some current\<rparr>) st2 else st2))"
      have run: "remove_waiting_thread sw t st = Inr st'"
        using t(2) True by (simp add: remove_waiting_thread_def f b nx st'_def Let_def)
      have "lists_of sw (\<lambda>a. t_next (st' a)) (\<lambda>a. next_waiting (st' a)) (\<lambda>a. wait_obj (st a))
          (if global_next (st sw) = Some t then Some current else global_next (st sw)) (gs @ hs) ss"
        unfolding current_def
      proof (rule lists_remove_only [OF L [unfolded ts True Nil]])
        show "next_waiting (st' a) = (if a = last (sw # heads gs) then next_waiting (st t) else next_waiting (st a))" if "a \<noteq> t" for a
          unfolding current_def [symmetric] using that by (simp add: st'_def Let_def upd_apply)
      qed (simp_all add: st'_def Let_def upd_apply)
      moreover have "(\<lambda>a. wait_obj (st' a)) = (\<lambda>a. wait_obj (st a))"
        "global_next (st' sw) = (if global_next (st sw) = Some t then Some current else global_next (st sw))"
        using t(1) by (simp_all add: st'_def Let_def upd_apply fun_eq_iff)
      ultimately have "waiting_lists sw st' (gs @ (if remove1 t ts = [] then hs else (obj, remove1 t ts) # hs)) ss"
        by (simp add: waiting_lists_of ts True Nil)
      then show ?thesis using run by (auto simp: st'_def upd_apply)
    next
      case (Cons u vs)
      have nx: "t_next (st t) = Some u" using g by (simp add: group_ok_def ts True Cons)
      have u: "u \<noteq> t" "u \<noteq> sw" "u \<notin> set (heads gs)"
        using D(8) heads_in [of gs] D(9) by (auto simp: ts True Cons)
      then have uc: "u \<noteq> current" using \<open>current \<in> set (sw # heads gs)\<close> by auto
      define st' where "st' = upd t (\<lambda>x. x\<lparr>t_next := None\<rparr>) (upd t (\<lambda>x. x\<lparr>next_waiting := None\<rparr>)
        (let st2 = upd u (\<lambda>x. x\<lparr>next_waiting := next_waiting (st t)\<rparr>) (upd current (\<lambda>x. x\<lparr>next_waiting := Some u\<rparr>) st)
         in if global_next (st sw) = Some t then upd sw (\<lambda>x. x\<lparr>global_next := Some u\<rparr>) st2 else st2))"
      have run: "remove_waiting_thread sw t st = Inr st'"
        using t(2) True by (simp add: remove_waiting_thread_def f b nx deref_def st'_def Let_def)
      have "lists_of sw (\<lambda>a. t_next (st' a)) (\<lambda>a. next_waiting (st' a)) (\<lambda>a. wait_obj (st a))
          (if global_next (st sw) = Some t then Some u else global_next (st sw)) (gs @ (obj, u # vs) # hs) ss"
      proof (rule lists_remove_first [OF L [unfolded ts True Cons]])
        show "next_waiting (st' a) = (if a = last (sw # heads gs) then Some u else next_waiting (st a))" if "a \<noteq> t" "a \<noteq> u" for a
          unfolding current_def [symmetric] using that by (simp add: st'_def Let_def upd_apply)
      qed (use u in \<open>simp_all add: st'_def Let_def upd_apply\<close>)
      moreover have "(\<lambda>a. wait_obj (st' a)) = (\<lambda>a. wait_obj (st a))"
        "global_next (st' sw) = (if global_next (st sw) = Some t then Some u else global_next (st sw))"
        using t(1) by (simp_all add: st'_def Let_def upd_apply fun_eq_iff)
      ultimately have "waiting_lists sw st' (gs @ (if remove1 t ts = [] then hs else (obj, remove1 t ts) # hs)) ss"
        by (simp add: waiting_lists_of ts True Cons)
      then show ?thesis using run by (auto simp: st'_def upd_apply)
    qed
  qed
qed

lemma add_to_sleeping_lists:
  assumes "waiting_lists sw st gs ss" "absent t sw gs ss"
  shows "\<exists>st'. add_to_sleeping sw t st = Inr st' \<and> waiting_lists sw st' gs (ss @ [t])"
proof -
  note L = assms(1) [unfolded waiting_lists_of]
  note D = lists_ofD [OF L]
  have t: "t \<noteq> sw" "t \<notin> set ss" using assms(2) by (auto simp: absent_def)
  define current where "current = last (sw # ss)"
  have "current \<in> set (sw # ss)" unfolding current_def by (rule last_in_set) simp
  then have cur: "current \<noteq> t" using t by auto
  define st' where "st' = upd t (\<lambda>x. x\<lparr>wait_obj := None\<rparr>) (upd t (\<lambda>x. x\<lparr>t_next := None\<rparr>)
    (upd current (\<lambda>x. x\<lparr>t_next := Some t\<rparr>) st))"
  have "next_tail st sw = Some current" unfolding current_def by (rule next_tail_chain) (rule D(2))
  then have run: "add_to_sleeping sw t st = Inr st'" by (simp add: add_to_sleeping_def st'_def)
  have "lists_of sw (\<lambda>a. t_next (st' a)) (\<lambda>a. next_waiting (st' a)) (\<lambda>a. wait_obj (st' a)) (global_next (st sw)) gs (ss @ [t])"
  proof (rule lists_add_sleeper [OF L assms(2)])
    show "t_next (st' a) = (if a = last (sw # ss) then Some t else t_next (st a))" if "a \<noteq> t" for a
      unfolding current_def [symmetric] using that by (simp add: st'_def upd_apply)
  qed (simp_all add: st'_def upd_apply)
  moreover have "global_next (st' sw) = global_next (st sw)" "(\<lambda>a. next_waiting (st' a)) = (\<lambda>a. next_waiting (st a))"
    by (simp_all add: st'_def upd_apply fun_eq_iff)
  ultimately show ?thesis using run by (simp add: waiting_lists_of)
qed

section \<open>The ready threads\<close>

definition threads_apart :: "(nat \<Rightarrow> tid list) \<Rightarrow> tid \<Rightarrow> waiting \<Rightarrow> tid list \<Rightarrow> bool" where
  "threads_apart qs sw gs ss = (\<forall>p. \<forall>u \<in> set (qs p). absent u sw gs ss)"

lemma waiting_lists_cong:
  assumes "waiting_lists sw st gs ss" "\<And>u. \<not> absent u sw gs ss \<Longrightarrow> st' u = st u"
  shows "waiting_lists sw st' gs ss"
proof -
  note L = assms(1) [unfolded waiting_lists_of]
  note D = lists_ofD [OF L]
  have sw: "st' sw = st sw" by (rule assms(2)) (simp add: absent_def)
  have ss: "st' u = st u" if "u \<in> set ss" for u by (rule assms(2)) (use that in \<open>simp add: absent_def\<close>)
  have gs: "st' u = st u" if "u \<in> set (concat (map snd gs))" for u
    by (rule assms(2)) (use that in \<open>simp only: absent_def, simp\<close>)
  have "chain (\<lambda>a. t_next (st' a)) (t_next (st' sw)) ss"
    using D(2) ss chain_cong [of ss "\<lambda>a. t_next (st' a)" "\<lambda>a. t_next (st a)" "t_next (st sw)"] by (simp add: sw)
  moreover have "chain (\<lambda>a. next_waiting (st' a)) (next_waiting (st' sw)) (heads gs)"
  proof -
    have "next_waiting (st' a) = next_waiting (st a)" if "a \<in> set (heads gs)" for a
      using gs [OF subsetD [OF D(11) that]] by simp
    then show ?thesis
      using D(3) chain_cong [of "heads gs" "\<lambda>a. next_waiting (st' a)" "\<lambda>a. next_waiting (st a)" "next_waiting (st sw)"] by (simp add: sw)
  qed
  moreover have "\<forall>g \<in> set gs. group_ok (\<lambda>a. t_next (st' a)) (\<lambda>a. wait_obj (st' a)) g"
    by (rule groups_kept [OF D(5)]) (use gs in simp)
  ultimately show ?thesis
    using D(1,4,6-8) ss by (simp add: waiting_lists_of lists_of_def sw)
qed

lemma ready_queues_frame:
  assumes "ready_queues sc qs"
    "\<And>u p. u \<in> set (qs p) \<Longrightarrow> t_next (st' u) = t_next (threads sc u) \<and> t_previous (st' u) = t_previous (threads sc u)"
  shows "ready_queues (sc\<lparr>threads := st'\<rparr>) qs"
proof -
  have "ring st' (qs p) = ring (threads sc) (qs p)" for p
  proof -
    have "set ys \<subseteq> set (qs p) \<Longrightarrow> linked st' ys = linked (threads sc) ys" for ys
      by (induction ys rule: induct_list012) (use assms(2) [of _ p] in auto)
    from this [of "qs p @ [hd (qs p)]"] show ?thesis by (cases "qs p") (auto simp: ring_def)
  qed
  then show ?thesis using assms(1) by (simp add: ready_queues_def)
qed

lemma add_waiting_set: "set (concat (map snd (add_waiting obj t gs))) = insert t (set (concat (map snd gs)))"
  by (induction obj t gs rule: add_waiting.induct) (auto simp del: set_concat)

text \<open>C22: Waiting for an object (\<open>add_waiting_thread\<close>) takes the thread from the ready threads and puts it at the end
  of the threads that wait for the object, as the first one of a new list if there are none: the links of both kinds of
  lists, the last list of all and the bits of the priorities go on standing for the lists.  The first thread that waits
  for the object is returned.\<close>

theorem waiting_thread_added:
  assumes "ready_queues s qs" "waiting_lists sw (threads s) gs ss" "threads_apart qs sw gs ss"
    "t \<in> set (qs (t_priority (threads s t)))"
  defines "P \<equiv> t_priority (threads s t)"
  shows "\<exists>s'. add_waiting_thread sw t obj s = Inr (hd (the (map_of (add_waiting obj t gs) obj)), s') \<and>
    ready_queues s' (qs(P := remove1 t (qs P))) \<and> waiting_lists sw (threads s') (add_waiting obj t gs) ss \<and>
    threads_apart (qs(P := remove1 t (qs P))) sw (add_waiting obj t gs) ss \<and>
    (\<forall>u. t_priority (threads s' u) = t_priority (threads s u))"
proof -
  from remove_from_active_queues [OF assms(1,4)] obtain s1 where s1: "remove_from_active t s = Inr s1"
    "ready_queues s1 (qs(P := remove1 t (qs P)))" "\<And>u. t_priority (threads s1 u) = t_priority (threads s u)"
    "links_only (set (qs P)) (threads s) (threads s1)" unfolding P_def by blast
  have wl: "waiting_lists sw (threads s1) gs ss"
  proof (rule waiting_lists_cong [OF assms(2)])
    fix u
    assume "\<not> absent u sw gs ss"
    then have "u \<notin> set (qs P)" using assms(3) by (auto simp: threads_apart_def)
    then show "threads s1 u = threads s u" using s1(4) by (auto simp: links_only_def)
  qed
  have t: "absent t sw gs ss" using assms(3,4) by (auto simp: threads_apart_def)
  define ws where "ws = (case map_of gs obj of None \<Rightarrow> [] | Some ts \<Rightarrow> ts)"
  have "\<exists>st'. link_waiting_thread sw t obj (threads s1) = Inr (hd (ws @ [t]), st') \<and> waiting_lists sw st' (add_waiting obj t gs) ss \<and>
    (\<forall>u. u \<noteq> t \<longrightarrow> u \<notin> set ws \<longrightarrow> t_next (st' u) = t_next (threads s1 u)) \<and>
    (\<forall>u. u \<noteq> t \<longrightarrow> t_previous (st' u) = t_previous (threads s1 u)) \<and> (\<forall>u. t_priority (st' u) = t_priority (threads s1 u))"
  proof (cases "map_of gs obj")
    case None
    from link_waiting_new [OF wl t None] show ?thesis unfolding ws_def None by auto
  next
    case (Some ts)
    moreover have "ts \<noteq> []"
      using lists_ofD(9) [OF wl [unfolded waiting_lists_of]] map_of_SomeD [OF Some] by auto
    ultimately show ?thesis using link_waiting_old [OF wl t Some] unfolding ws_def by simp
  qed
  then obtain st' where st': "link_waiting_thread sw t obj (threads s1) = Inr (hd (ws @ [t]), st')"
    "waiting_lists sw st' (add_waiting obj t gs) ss"
    "\<And>u. u \<noteq> t \<Longrightarrow> u \<notin> set ws \<Longrightarrow> t_next (st' u) = t_next (threads s1 u)"
    "\<And>u. u \<noteq> t \<Longrightarrow> t_previous (st' u) = t_previous (threads s1 u)" "\<And>u. t_priority (st' u) = t_priority (threads s1 u)" by blast
  have run: "add_waiting_thread sw t obj s = Inr (hd (ws @ [t]), s1\<lparr>threads := st'\<rparr>)"
    by (simp add: add_waiting_thread_def s1(1) st'(1))
  have first: "map_of (add_waiting obj t gs) obj = Some (ws @ [t])"
    unfolding ws_def by (induction gs) auto
  have ws: "set ws \<subseteq> set (concat (map snd gs))"   proof (cases "map_of gs obj")
    case (Some ts)
    then show ?thesis using map_of_SomeD [OF Some] by (force simp: ws_def)
  qed (simp add: ws_def)
  have sub: "u \<noteq> t" "absent u sw gs ss" if "u \<in> set ((qs(P := remove1 t (qs P))) p)" for u p
  proof -
    have "u \<in> set (qs p)" using that set_remove1_subset [of t "qs P"] by (auto split: if_splits)
    then show "absent u sw gs ss" using assms(3) by (simp add: threads_apart_def)
    show "u \<noteq> t" using that ready_queues_removed [OF assms(1,4), of p] by (auto simp: P_def)
  qed
  have "ready_queues (s1\<lparr>threads := st'\<rparr>) (qs(P := remove1 t (qs P)))"
  proof (rule ready_queues_frame [OF s1(2)])
    fix u p
    assume u: "u \<in> set ((qs(P := remove1 t (qs P))) p)"
    have "u \<notin> set ws" using sub(2) [OF u] ws by (auto simp: absent_def)
    then show "t_next (st' u) = t_next (threads s1 u) \<and> t_previous (st' u) = t_previous (threads s1 u)"
      using sub(1) [OF u] st'(3,4) by blast
  qed
  moreover have "threads_apart (qs(P := remove1 t (qs P))) sw (add_waiting obj t gs) ss"
    unfolding threads_apart_def absent_def add_waiting_set using sub by (auto simp: absent_def simp del: fun_upd_apply)
  ultimately show ?thesis using run first st'(2,5) s1(3) by simp
qed

text \<open>C23: A thread that is notified or whose time has come (\<open>remove_waiting_thread\<close>) leaves its list, wherever it is:
  the sleeping threads, the first thread of an object with or without others behind it (the next one then takes its
  place in the list of the objects), or one of the others.  The other threads stay in their order, and the links of the
  thread are cleared.\<close>

theorem waiting_thread_removed:
  assumes "waiting_lists sw st gs ss" "t \<in> set (ss @ concat (map snd gs))"
  shows "\<exists>st'. remove_waiting_thread sw t st = Inr st' \<and> waiting_lists sw st' (remove_waiting t gs) (remove1 t ss) \<and>
    t_next (st' t) = None \<and> next_waiting (st' t) = None"
proof -
  note D = lists_ofD [OF assms(1) [unfolded waiting_lists_of]]
  show ?thesis
  proof (cases "t \<in> set ss")
    case True
    then have "t \<notin> set (concat (map snd gs))" using D(8) by auto
    then show ?thesis using remove_sleeping_thread [OF assms(1) True] by (simp add: remove_waiting_absent)
  next
    case False
    then have "t \<in> set (concat (map snd gs))" using assms(2) by simp
    then obtain obj ts where g: "(obj, ts) \<in> set gs" "t \<in> set ts" by auto
    obtain as bs where gs: "gs = as @ (obj, ts) # bs" using split_list [OF g(1)] by blast
    have "t \<notin> set (concat (map snd as))" using D(8) g(2) by (auto simp: gs)
    then show ?thesis
      using remove_waiting_group [OF assms(1) [unfolded gs] g(2)] False g(2)
      by (simp add: gs remove_waiting_in remove1_idem)
  qed
qed

section \<open>Examples\<close>

text \<open>Thread 1 is ready, thread 2 waits for object 7, and thread 9 heads the lists.\<close>

definition example_waiting :: scheduler where
  "example_waiting =
     \<lparr>threads = (\<lambda>u. \<lparr>t_next = (if u = 1 then Some 1 else None), t_previous = (if u = 1 then Some 1 else None),
         next_waiting = (if u = 9 then Some 2 else None), global_next = Some 2, wait_obj = (if u = 2 then Some 7 else None),
         wakeup_time = 0, t_priority = 5, wait_stack_lock = None\<rparr>),
      priority_queues = (replicate 11 None)[5 := Some 1], priority_queue_valid = 32, last_priority_queue = 5,
      next_runnable = None, thread_execute_counts = replicate 11 0\<rparr>"

lemma example_waiting_lists: "waiting_lists 9 (threads example_waiting) [(7, [2])] []"
  by (simp add: waiting_lists_def example_waiting_def)

lemma waiting_thread_added_witness:
  "\<exists>s'. add_waiting_thread 9 1 7 example_waiting = Inr (2, s') \<and> waiting_lists 9 (threads s') [(7, [2, 1])] []"
proof -
  let ?qs = "\<lambda>p. if p = (5 :: nat) then [1 :: tid] else []"
  have "ready_queues example_waiting ?qs"
    by (auto simp: ready_queues_def example_waiting_def NUM_PRIORITY_SLOTS_def nth_list_update ring_def bit_32 less_Suc_eq_le
      simp del: bit_numeral_word_iff)
  moreover have "threads_apart ?qs 9 [(7, [2])] []" by (simp add: threads_apart_def absent_def)
  moreover have "1 \<in> set (?qs (t_priority (threads example_waiting 1)))" by (simp add: example_waiting_def)
  ultimately show ?thesis
    using waiting_thread_added [OF _ example_waiting_lists, of ?qs 1 7] by (auto simp: example_waiting_def)
qed

lemma waiting_thread_removed_witness:
  "\<exists>st'. remove_waiting_thread 9 2 (threads example_waiting) = Inr st' \<and> waiting_lists 9 st' [] []"
  using waiting_thread_removed [OF example_waiting_lists, of 2] by auto

end
