(* ===== verification/Spec2Isabelle.thy ===== *)
theory Spec2Isabelle
  imports Check_Bytecodes Verifier_Rules Interpreter_Rules Interpreter_Results Inflate_Rules Inflate_File Scheduler_Fairness Frame_Monitors Waiting_Rules
begin

text \<open>
  Verification library of the Pico JVM, a CLDC virtual machine in C++ (\<open>lib/src/vm\<close>) that interprets Java
  bytecode in little memory.  The library follows a class from the jar file to the threads that run its methods.
  File names below are those of \<open>lib/src/vm/share\<close> and \<open>lib/src/vm/cpu/c\<close>.

  \<^bold>\<open>The program.\<close>  An entry of a jar file is read through a \<open>FileDecoder\<close>, which decompresses it
  (\<open>runtime/Inflate.cpp\<close>).  The class file parser (\<open>runtime/ClassFileParser.cpp\<close>) makes symbols, a
  constant pool and methods of the bytes.  When a method is loaded, \<open>Method::check_bytecodes\<close> passes over its code and
  brings the switches into the byte order of the machine.  When a class is initialised, the verifier
  (\<open>verifier/*\<close>) runs over each method: \<open>Method::iterate_bytecode\<close> decodes a bytecode and calls a virtual
  function of a visitor, and the visitor \<open>VerifyMethodCodes\<close> keeps an abstract frame, which it compares with the stack
  maps that the preverifier has left in the class file.  The interpreter (\<open>Interpreter_c.cpp\<close>) has a handler for each
  bytecode and makes no checks of types, depths or positions: it relies on the verifier.  Threads are light: the
  scheduler (\<open>runtime/Scheduler.cpp\<close>) chooses the next one when a thread yields or blocks on a monitor
  (\<open>runtime/Synchronizer.cpp\<close>).

  \<^bold>\<open>Conventions.\<close>  A function of the source is a definition of the same name, with the state it changes passed and
  returned.  \<open>Prelude\<close> has the error convention: a sum whose left side is the error or the fault and
  \<open>jvm_check\<close>, the macro \<open>JVM_CHECK\<close>; the wrap-around of \<open>jint\<close>, and lemmas on lists and words.  Memory is a function
  from addresses to bytes where the code reads raw memory, and a list with an explicit bound where an access outside is to
  be visible as a fault.  The assertions \<open>GUARANTEE\<close> are compiled out of the product and are no part of the
  definitions; many of the invariants below say that they hold.  Of the build options, the library has the product build
  of this port: interpreter, floating point, stack maps of CLDC, no compiler, no isolates, no Java debugger.

  \<^bold>\<open>Data of a class.\<close>
  \<open>Basic_Types\<close> (\<open>utilities/GlobalDefinitions\<close>): basic types and sizes.
  \<open>Code_Memory\<close> (\<open>Bytes_c.hpp\<close>, \<open>handles/Method.hpp\<close>): the readers and writers of 2, 4 and 8 bytes; the locale
  \<open>stored_word\<close> states what a reader and its writer promise each other and is interpreted for all of them.
  \<open>Utf8\<close> and \<open>Symbols\<close> (\<open>utilities/CharacterStream.cpp\<close>, \<open>handles/Symbol.cpp\<close>, \<open>handles/Signature.cpp\<close>): names, their
  round trip, and the test of class names.
  \<open>Class_Model\<close>, \<open>Type_Symbol\<close>, \<open>Constant_Pool\<close>: classes and subtypes, descriptors, the pool and its resolution.
  \<open>Class_Parser\<close> (\<open>ClassFileParser.cpp\<close>): stack maps and exception tables, with the ranges that the
  parser has checked.
  \<open>Bytecodes\<close>: the table of the instructions, the lengths and the decoding of variable instructions.

  \<^bold>\<open>Loading and verification.\<close>
  \<open>Check_Bytecodes\<close> (\<open>Method::check_bytecodes\<close>): it terminates, and what it accepts has legal instructions and
  switches inside the code.  \<open>Loaded_Code\<close>: what is known of each instruction of accepted code, and which instructions
  are compared with the end of the code: those from \<open>tableswitch\<close> on, not those of the fast path.
  \<open>Bytecode_Visitor\<close>, \<open>Call_Operands\<close> (\<open>Method::iterate_bytecode\<close>): the calls that a bytecode makes, as a datatype.
  \<open>Verifier_Frame\<close>, \<open>Verify_Handlers\<close>, \<open>Verify_Objects\<close>, \<open>Verify_Method\<close>: the verifier; \<open>handle_call\<close> dispatches
  a call, \<open>verify_method\<close> is the whole of \<open>VerifyMethodCodes::verify\<close>.
  \<open>Frame_Invariant\<close>, \<open>Stackmap_Match\<close>, \<open>Handler_Invariant\<close>: the invariant of the frame and what a match with a
  stack map means; the locale \<open>operand_stack\<close> is the interface of the frame that the handlers rely on.
  \<open>Instruction_Starts\<close>, \<open>Verifier_Pass\<close>, \<open>Verifier_Soundness\<close>, \<open>Example_World\<close>: the pass as a state machine and what
  an accepted method is known to do.  \<open>Verified_Methods\<close> and \<open>Verifier_Rules\<close> hold the properties: termination,
  branches and handlers go to instructions with a stack map that the frame fits, no run off the end, new objects
  of a stack map are those of a \<open>new\<close>, keys of a switch are sorted, the first matching handler catches an exception.

  \<^bold>\<open>Execution.\<close>
  \<open>Interpreter\<close> (\<open>Interpreter_c.cpp\<close>): the handlers that stay in one frame and the dispatch of them.
  \<open>Interpreter_Frame\<close>, \<open>Interpreter_Safety\<close>: the interpreter and the verifier agree on the words that a bytecode
  takes and leaves, so a run of verified code stays at instructions and inside its frame.
  \<open>Interpreter_Arithmetic\<close>, \<open>Interpreter_Results\<close>: what single handlers compute.  \<open>Interpreter_Rules\<close> puts the three
  parts together: code that the loader and the verifier accept runs in its frame, with one depth of the stack for each
  instruction (\<open>verified_run_in_frame\<close>), and its \<open>lookupswitch\<close> jumps to the one pair that has the key.

  \<^bold>\<open>Threads and monitors.\<close>
  \<open>Thread_List\<close> (\<open>add_to_list\<close>, \<open>remove_from_list\<close>, \<open>is_in_list\<close>): the circular lists, whose links are fields of the
  threads, stand for lists (\<open>ring\<close>).
  \<open>Scheduler\<close>: joining and leaving the ready threads, \<open>set_priority\<close>, \<open>get_next_runnable_thread\<close>; the lists, their
  heads and the bits of the priorities stand for ten queues (\<open>ready_queues\<close>).
  \<open>Scheduler_Choice\<close>, \<open>Scheduler_Fairness\<close>: the choice is that of an abstract scheduler (\<open>next_spec\<close>), which lets every
  ready thread run.
  \<open>Monitors\<close>, \<open>Monitor_Queues\<close>, \<open>Frame_Monitors\<close> (\<open>Synchronizer.cpp\<close>; \<open>lock_object\<close>, \<open>unlock_object\<close>,
  \<open>monitor_enter_internal\<close>, \<open>monitor_exit_internal\<close> of \<open>Interpreter_c.cpp\<close>): stack locks stand for monitors with a
  holder and a queue of waiting threads (\<open>monitors_ok\<close>), nested entries of a frame for a count (\<open>slots_ok\<close>).
  \<open>Waiting_Lists\<close>, \<open>Waiting_Rules\<close> (\<open>find_waiting_thread\<close>, \<open>add_waiting_thread\<close>, \<open>remove_waiting_thread\<close>,
  \<open>add_to_sleeping\<close>): the lists of the threads that wait for an object and of those that sleep, which stand for a list
  of objects with their threads (\<open>waiting_lists\<close>).

  \<^bold>\<open>Decompression.\<close>
  \<open>Bit_Reader\<close>, \<open>Huffman_Table\<close>, \<open>Inflate\<close>, \<open>Inflate_File\<close>, \<open>Crc32\<close> (\<open>Inflate.hpp\<close>, \<open>Inflate.cpp\<close>,
  \<open>FileDecoder.cpp\<close>, \<open>HotRoutines.incl.hpp\<close>): the definitions.  \<open>Canonical_Code\<close>, \<open>Huffman_Scan\<close>,
  \<open>Huffman_Correct\<close>, \<open>Huffman_Heuristic\<close>: the tables hold the canonical code of the lengths.  \<open>Inflate_Spec\<close> states
  RFC 1951 as a relation; \<open>Inflate_Block\<close>, \<open>Inflate_Dynamic\<close>, \<open>Inflate_Stored\<close> show that the code follows it, and
  \<open>Inflate_Rules\<close> holds the properties, among them where the inflater trusts its input.  An access outside a buffer is a
  fault of its own: a read behind it, a read in front of it, a write.

  \<^bold>\<open>Loops, bounds and fuel.\<close>  A loop is a structural recursion or has a termination proof where the code bounds it.
  The pass over the instructions (\<open>starts_loop\<close>, \<open>iterate_method\<close>) has the size of the code and one more as fuel,
  which is enough since each step goes forward (\<open>verify_method_terminates\<close>); the same holds of \<open>check_loop\<close>
  (\<open>check_bytecodes_terminates\<close>).  The outer loops of the inflater (\<open>inflate_all\<close>, \<open>get_bytes_loop\<close>,
  \<open>inflate_completely\<close>) have a fuel argument, since an endless file of empty blocks keeps the code busy.  A search along
  links that need not come back is a \<open>partial_function\<close>; it is shown to end on the lists that the state stands for.
  Words keep their width where it matters: the counts of turns have 8 bits and do not wrap, the bits of the priorities 16,
  the values of Java 32 and 64, the reservoir of the bit reader 32.

  \<^bold>\<open>Parameters.\<close>  Floating point operations of the interpreter, what uninitialised memory holds, the file that is
  read, and the resolution of classes that asks the system dictionary are arguments of the definitions.

  \<^bold>\<open>Not modelled.\<close>  The object heap and its collector (\<open>memory/ObjectHeap.cpp\<close>) and the handles to its objects, which
  work on raw memory; the compiler, which is disabled in this port; the romizer, a build tool; class loading
  (\<open>SystemDictionary\<close>), the rest of the class file parser and the jar directory, which allocate in the heap; calls, returns,
  allocation, statics and type tests of the interpreter; native methods, debugger, profilers and operating system layers,
  which are input and output; the preverifier, a tool of its own; in the scheduler the timers, asynchronous calls, the start and the end of threads, and the loops that wait for events;
  interned strings as monitors, which lock a proxy object.
\<close>

end
